(* ===== verification/Prelude.thy ===== *)
theory Prelude
  imports Main "HOL-Library.Word"
begin

unbundle bit_operations_syntax

text \<open>
  Shared vocabulary of the development: the machine integers of the firmware, the byte
  splitting idioms of its wire formats, \<open>memcpy\<close> into a buffer, and the free-running
  millisecond clock.
\<close>

type_synonym u8 = "8 word"
type_synonym u16 = "16 word"
type_synonym u32 = "32 word"
type_synonym bytes = "8 word list"

named_theorems wire_defs "definitions of the encoders and decoders"

section \<open>Masks\<close>

text \<open>The simplifier reads a bit of a numeral word as a bit of the same integer.\<close>

lemma bit_int_255_iff [simp]: "bit (0xFF :: int) n \<longleftrightarrow> n < 8"
proof -
  have m: "(0xFF :: int) = mask 8" by (simp add: mask_eq_exp_minus_1)
  show ?thesis unfolding m by (simp only: bit_mask_iff possible_bit_int simp_thms)
qed

lemma bit_int_15_iff [simp]: "bit (0x0F :: int) n \<longleftrightarrow> n < 4"
proof -
  have m: "(0x0F :: int) = mask 4" by (simp add: mask_eq_exp_minus_1)
  show ?thesis unfolding m by (simp only: bit_mask_iff possible_bit_int simp_thms)
qed

section \<open>Bytes of a 16-bit word\<close>

definition hi8 :: "u16 \<Rightarrow> u8" where
  "hi8 w = ucast (drop_bit 8 w)"

definition lo8 :: "u16 \<Rightarrow> u8" where
  "lo8 w = ucast (w AND 0xFF)"

definition be16 :: "u8 \<Rightarrow> u8 \<Rightarrow> u16" where
  "be16 h l = push_bit 8 (ucast h) OR ucast l"

lemma be16_hi8_lo8 [simp]: "be16 (hi8 w) (lo8 w) = w"
  by (rule bit_word_eqI) (auto simp: be16_def hi8_def lo8_def bit_simps)

lemma hi8_be16 [simp]: "hi8 (be16 h l) = h"
  by (rule bit_word_eqI) (auto simp: be16_def hi8_def bit_simps dest: bit_imp_le_length)

lemma lo8_be16 [simp]: "lo8 (be16 h l) = l"
  by (rule bit_word_eqI) (auto simp: be16_def lo8_def bit_simps)

section \<open>Nibbles of a byte\<close>

definition nib_hi :: "u8 \<Rightarrow> u8" where
  "nib_hi b = drop_bit 4 b AND 0x0F"

definition nib_lo :: "u8 \<Rightarrow> u8" where
  "nib_lo b = b AND 0x0F"

definition mk_nib :: "u8 \<Rightarrow> u8 \<Rightarrow> u8" where
  "mk_nib h l = push_bit 4 h OR (l AND 0x0F)"

lemma nib_lo_mk [simp]: "nib_lo (mk_nib h l) = l AND 0x0F"
  by (rule bit_word_eqI) (auto simp: nib_lo_def mk_nib_def bit_simps)

lemma nib_hi_mk [simp]: "nib_hi (mk_nib h l) = h AND 0x0F"
  by (rule bit_word_eqI) (auto simp: nib_hi_def mk_nib_def bit_simps)

section \<open>Writing into a fixed buffer\<close>

text \<open>\<open>memcpy(buf + off, src, n)\<close>; writing past the end would grow the list, so that
  keeping the length is the bounds check.\<close>

definition mem_write :: "nat \<Rightarrow> 'a list \<Rightarrow> 'a list \<Rightarrow> 'a list" where
  "mem_write off src buf = take off buf @ src @ drop (off + length src) buf"

lemma length_mem_write [simp]:
  "off + length src \<le> length buf \<Longrightarrow> length (mem_write off src buf) = length buf"
  by (simp add: mem_write_def)

lemma nth_mem_write:
  "off + length src \<le> length buf \<Longrightarrow> k < length buf \<Longrightarrow>
     mem_write off src buf ! k =
       (if off \<le> k \<and> k < off + length src then src ! (k - off) else buf ! k)"
  by (auto simp: mem_write_def nth_append)

lemma mem_write_nil [simp]: "mem_write off [] buf = buf"
  by (simp add: mem_write_def)

section \<open>The first slot of a table that satisfies a test\<close>

fun find_index :: "('a \<Rightarrow> bool) \<Rightarrow> 'a list \<Rightarrow> nat option" where
  "find_index P [] = None"
| "find_index P (x # xs) = (if P x then Some 0 else map_option Suc (find_index P xs))"

lemma find_index_SomeD:
  "find_index P xs = Some i \<Longrightarrow> i < length xs \<and> P (xs ! i) \<and> (\<forall>j<i. \<not> P (xs ! j))"
proof (induction xs arbitrary: i)
  case (Cons x xs)
  show ?case
  proof (cases "P x")
    case False
    with Cons.prems obtain k where "find_index P xs = Some k" "i = Suc k" by auto
    with Cons.IH [of k] False show ?thesis by (auto simp: nth_Cons split: nat.splits)
  qed (use Cons.prems in auto)
qed simp

lemma find_index_None_iff: "find_index P xs = None \<longleftrightarrow> (\<forall>x\<in>set xs. \<not> P x)"
  by (induction xs) auto

lemma find_index_SomeI:
  "i < length xs \<Longrightarrow> P (xs ! i) \<Longrightarrow> (\<forall>j<i. \<not> P (xs ! j)) \<Longrightarrow> find_index P xs = Some i"
proof (induction xs arbitrary: i)
  case (Cons x xs)
  show ?case
  proof (cases i)
    case (Suc k)
    then have "\<not> P x" using Cons.prems(3) by auto
    moreover have "\<forall>j<k. \<not> P (xs ! j)" using Cons.prems(3) Suc by auto
    ultimately show ?thesis using Cons.IH [of k] Cons.prems Suc by simp
  qed (use Cons.prems in simp)
qed simp

lemma find_index_update_same:
  assumes "i < length xs" "P y" "\<forall>j<i. \<not> P (xs ! j)"
  shows "find_index P (xs[i := y]) = Some i"
  using assms by (intro find_index_SomeI) (auto simp: nth_list_update)

lemma find_index_update_other:
  assumes "i < length xs" "P y = P (xs ! i)"
  shows "find_index P (xs[i := y]) = find_index P xs"
  using assms
proof (induction xs arbitrary: i)
  case (Cons x xs)
  then show ?case by (cases i) auto
qed simp

end
