(* ===== verification/Crc.thy ===== *)
theory Crc
  imports Prelude
begin

unbundle bit_operations_syntax

text \<open>
  The three checksums of the firmware: \<open>ks_crc8\<close> (CDC frames and the inter-half link),
  \<open>cr_crc16\<close> (OTP feature reports) and \<open>crc16_ccitt\<close> (pairing set id). The interface
  \<open>byte_crc\<close> states what a receiver relies on, a byte update that is injective in the
  register and in the byte, and derives that a corrupted byte is always noticed.
\<close>

section \<open>The code's checksums\<close>

definition crc8_bit :: "u8 \<Rightarrow> u8" where
  "crc8_bit crc = (if crc AND 0x80 \<noteq> 0 then push_bit 1 crc XOR 0x31 else push_bit 1 crc)"

definition crc8_byte :: "u8 \<Rightarrow> u8 \<Rightarrow> u8" where
  "crc8_byte crc b = (crc8_bit ^^ 8) (crc XOR b)"

definition ks_crc8 :: "bytes \<Rightarrow> u8" where
  "ks_crc8 data = foldl crc8_byte 0x00 data"

definition crc16_bit :: "u16 \<Rightarrow> u16" where
  "crc16_bit crc = (if crc AND 0x8000 \<noteq> 0 then push_bit 1 crc XOR 0x1021 else push_bit 1 crc)"

definition crc16_byte :: "u16 \<Rightarrow> u8 \<Rightarrow> u16" where
  "crc16_byte crc b = (crc16_bit ^^ 8) (crc XOR push_bit 8 (ucast b))"

definition crc16_ccitt :: "bytes \<Rightarrow> u16" where
  "crc16_ccitt data = foldl crc16_byte 0xFFFF data"

definition cr_crc16_bit :: "u16 \<Rightarrow> u16" where
  "cr_crc16_bit crc =
     (let lsb = crc AND 1; crc' = drop_bit 1 crc
      in if lsb \<noteq> 0 then crc' XOR 0x8408 else crc')"

definition cr_crc16_byte :: "u16 \<Rightarrow> u8 \<Rightarrow> u16" where
  "cr_crc16_byte crc b = (cr_crc16_bit ^^ 8) (crc XOR ucast b)"

definition cr_crc16 :: "bytes \<Rightarrow> u16" where
  "cr_crc16 data = foldl cr_crc16_byte 0xFFFF data"

section \<open>One shift of the register is injective\<close>

lemma msb_test: "w AND push_bit n 1 \<noteq> 0 \<longleftrightarrow> bit w n" if "n < LENGTH('a)" for w :: "'a::len word"
proof -
  have "w AND push_bit n 1 = (if bit w n then push_bit n 1 else 0)"
    by (rule bit_word_eqI) (auto simp: bit_simps)
  moreover have "push_bit n (1 :: 'a word) \<noteq> 0"
    using that by (simp add: push_bit_eq_mult)
  ultimately show ?thesis by simp
qed

lemma xor_left_cancel: "a XOR b = a XOR c \<longleftrightarrow> b = c" for a :: "'a::len word"
  by (metis bit.xor_left_self)

lemma xor_right_cancel: "b XOR a = c XOR a \<longleftrightarrow> b = c" for a :: "'a::len word"
  by (metis xor_left_cancel xor.commute)

lemma shift_left_inj:
  fixes c d poly :: "'a::len word"
  assumes odd: "bit poly 0"
    and eq: "push_bit 1 c XOR (if bit c (LENGTH('a) - 1) then poly else 0)
           = push_bit 1 d XOR (if bit d (LENGTH('a) - 1) then poly else 0)"
  shows "c = d"
proof -
  have top: "bit c (LENGTH('a) - 1) = bit d (LENGTH('a) - 1)"
    using arg_cong [OF eq, of "\<lambda>w. bit w 0"] odd
    by (simp only: bit_xor_iff bit_push_bit_iff) (auto split: if_splits)
  with eq have sh: "push_bit 1 c = push_bit 1 d"
    by (simp only: xor_right_cancel)
  show ?thesis
  proof (rule bit_word_eqI)
    fix n assume n: "n < LENGTH('a)"
    show "bit c n = bit d n"
    proof (cases "n = LENGTH('a) - 1")
      case True with top show ?thesis by simp
    next
      case False
      with n have "Suc n < LENGTH('a)" by simp
      then show ?thesis
        using arg_cong [OF sh, of "\<lambda>w. bit w (Suc n)"]
        by (simp only: bit_push_bit_iff possible_bit_word) simp
    qed
  qed
qed

lemma shift_right_inj:
  fixes c d poly :: "'a::len word"
  assumes top: "bit poly (LENGTH('a) - 1)"
    and eq: "drop_bit 1 c XOR (if bit c 0 then poly else 0)
           = drop_bit 1 d XOR (if bit d 0 then poly else 0)"
  shows "c = d"
proof -
  have low: "bit c 0 = bit d 0"
    using arg_cong [OF eq, of "\<lambda>w. bit w (LENGTH('a) - 1)"] top
    by (auto simp: bit_simps split: if_splits)
  with eq have sh: "drop_bit 1 c = drop_bit 1 d"
    by (simp only: xor_right_cancel)
  show ?thesis
  proof (rule bit_word_eqI)
    fix n assume n: "n < LENGTH('a)"
    show "bit c n = bit d n"
    proof (cases n)
      case 0 with low show ?thesis by simp
    next
      case (Suc m)
      then show ?thesis
        using arg_cong [OF sh, of "\<lambda>w. bit w m"] by (simp add: bit_simps)
    qed
  qed
qed

lemma crc8_bit_alt: "crc8_bit c = push_bit 1 c XOR (if bit c (LENGTH(8) - 1) then 0x31 else 0)"
  using msb_test [of 7 c] by (simp add: crc8_bit_def push_bit_eq_mult)

lemma crc16_bit_alt: "crc16_bit c = push_bit 1 c XOR (if bit c (LENGTH(16) - 1) then 0x1021 else 0)"
  using msb_test [of 15 c] by (simp add: crc16_bit_def push_bit_eq_mult)

lemma cr_crc16_bit_alt: "cr_crc16_bit c = drop_bit 1 c XOR (if bit c 0 then 0x8408 else 0)"
  using msb_test [of 0 c] by (simp add: cr_crc16_bit_def Let_def)

lemma inj_crc8_bit: "inj crc8_bit"
  by (rule injI, rule shift_left_inj [where poly = "0x31"]) (simp_all only: crc8_bit_alt, simp)

lemma inj_crc16_bit: "inj crc16_bit"
  by (rule injI, rule shift_left_inj [where poly = "0x1021"]) (simp_all only: crc16_bit_alt, simp)

lemma inj_cr_crc16_bit: "inj cr_crc16_bit"
  by (rule injI, rule shift_right_inj [where poly = "0x8408"]) (simp_all only: cr_crc16_bit_alt, simp)

lemma funpow_eq_iff: "inj f \<Longrightarrow> (f ^^ n) a = (f ^^ n) b \<longleftrightarrow> a = b" for f :: "'a \<Rightarrow> 'a"
  by (induction n) (auto dest: injD)

section \<open>The interface of a byte-wise checksum\<close>

locale byte_crc =
  fixes upd :: "'c \<Rightarrow> u8 \<Rightarrow> 'c"
  assumes upd_reg: "upd c b = upd d b \<longleftrightarrow> c = d"
    and upd_data: "upd c a = upd c b \<longleftrightarrow> a = b"
begin

lemma run_reg: "foldl upd c xs = foldl upd d xs \<longleftrightarrow> c = d"
  by (induction xs arbitrary: c d) (auto simp: upd_reg)

lemma one_byte: "foldl upd c (xs @ a # ys) = foldl upd c (xs @ b # ys) \<longleftrightarrow> a = b"
  by (simp add: run_reg upd_data)

lemma one_byte_update:
  assumes "i < length xs"
  shows "foldl upd c (xs[i := b]) = foldl upd c xs \<longleftrightarrow> b = xs ! i"
proof -
  have "xs = take i xs @ xs ! i # drop (Suc i) xs"
    using assms by (rule id_take_nth_drop)
  moreover have "xs[i := b] = take i xs @ b # drop (Suc i) xs"
    using assms by (rule upd_conv_take_nth_drop)
  ultimately show ?thesis using one_byte by metis
qed

lemma prefix_independent:
  "foldl upd c (xs @ zs) = foldl upd c (ys @ zs) \<longleftrightarrow> foldl upd c xs = foldl upd c ys"
  by (simp add: run_reg)

end

interpretation crc8: byte_crc crc8_byte
proof unfold_locales
  show "crc8_byte c b = crc8_byte d b \<longleftrightarrow> c = d" for b c d
    by (simp add: crc8_byte_def funpow_eq_iff [OF inj_crc8_bit] xor_right_cancel)
  show "crc8_byte c a = crc8_byte c b \<longleftrightarrow> a = b" for a b c
    by (simp add: crc8_byte_def funpow_eq_iff [OF inj_crc8_bit] xor_left_cancel)
qed

lemma push8_ucast_eq: "push_bit 8 (ucast a :: u16) = push_bit 8 (ucast b) \<longleftrightarrow> a = b" for a b :: u8
proof
  assume eq: "push_bit 8 (ucast a :: u16) = push_bit 8 (ucast b)"
  have "be16 a 0 = be16 b 0" by (simp add: be16_def eq)
  then show "a = b" by (metis hi8_be16)
qed simp

lemma ucast16_eq: "(ucast a :: u16) = ucast b \<longleftrightarrow> a = b" for a b :: u8
proof
  assume eq: "(ucast a :: u16) = ucast b"
  have "be16 0 a = be16 0 b" by (simp add: be16_def eq)
  then show "a = b" by (metis lo8_be16)
qed simp

interpretation crc16: byte_crc crc16_byte
proof unfold_locales
  show "crc16_byte c b = crc16_byte d b \<longleftrightarrow> c = d" for b c d
    by (simp add: crc16_byte_def funpow_eq_iff [OF inj_crc16_bit] xor_right_cancel)
  show "crc16_byte c a = crc16_byte c b \<longleftrightarrow> a = b" for a b c
    by (simp add: crc16_byte_def funpow_eq_iff [OF inj_crc16_bit] xor_left_cancel push8_ucast_eq)
qed

interpretation cr16: byte_crc cr_crc16_byte
proof unfold_locales
  show "cr_crc16_byte c b = cr_crc16_byte d b \<longleftrightarrow> c = d" for b c d
    by (simp add: cr_crc16_byte_def funpow_eq_iff [OF inj_cr_crc16_bit] xor_right_cancel)
  show "cr_crc16_byte c a = cr_crc16_byte c b \<longleftrightarrow> a = b" for a b c
    by (simp add: cr_crc16_byte_def funpow_eq_iff [OF inj_cr_crc16_bit] xor_left_cancel ucast16_eq)
qed

section \<open>Streaming and self-check of the CRC-8\<close>

lemma ks_crc8_append: "ks_crc8 (xs @ ys) = foldl crc8_byte (ks_crc8 xs) ys"
  by (simp add: ks_crc8_def)

lemma ks_crc8_snoc_self: "ks_crc8 (xs @ [ks_crc8 xs]) = 0"
proof -
  have "crc8_bit 0 = 0" by (simp add: crc8_bit_def)
  then have "(crc8_bit ^^ n) 0 = 0" for n by (induction n) simp_all
  then show ?thesis by (simp add: ks_crc8_append crc8_byte_def)
qed

lemma ks_crc8_one_byte: "i < length xs \<Longrightarrow> ks_crc8 (xs[i := b]) = ks_crc8 xs \<longleftrightarrow> b = xs ! i"
  by (simp add: ks_crc8_def crc8.one_byte_update)

end
