(* ===== verification/Rf_Packet.thy ===== *)
theory Rf_Packet
  imports Prelude
begin

unbundle bit_operations_syntax

text \<open>
  \<open>main/comm/rf/rf_packet.h\<close>: the radio packets. A buffer with its length is a byte list;
  an encoder returns the bytes it writes (its return value is their number, 0 is the empty
  list), a decoder returns \<open>None\<close> where the code returns false. Signed 8/16-bit fields are
  kept as their bit patterns. An access outside an array is \<open>None\<close> in the bitmap helpers.
\<close>

section \<open>Packet types and records\<close>

definition PKT_TYPE_KEY :: u8 where "PKT_TYPE_KEY = 0x1"
definition PKT_TYPE_HEARTBEAT :: u8 where "PKT_TYPE_HEARTBEAT = 0x2"
definition PKT_TYPE_TRACKPAD :: u8 where "PKT_TYPE_TRACKPAD = 0x3"
definition PKT_TYPE_HIDREPORT :: u8 where "PKT_TYPE_HIDREPORT = 0x5"
definition PKT_TYPE_STATUS :: u8 where "PKT_TYPE_STATUS = 0x6"
definition PKT_TYPE_PAIR_ACK :: u8 where "PKT_TYPE_PAIR_ACK = 0xE"
definition PKT_TYPE_PAIR_REQ :: u8 where "PKT_TYPE_PAIR_REQ = 0xF"

definition RF_HID_SUB_KBD :: u8 where "RF_HID_SUB_KBD = 0"
definition RF_HID_SUB_MOUSE :: u8 where "RF_HID_SUB_MOUSE = 1"
definition RF_DEV_DUMB_HALF :: u8 where "RF_DEV_DUMB_HALF = 0"

definition RF_HALF_ROWS :: u8 where "RF_HALF_ROWS = 4"
definition RF_HALF_COLS :: u8 where "RF_HALF_COLS = 7"
definition RF_HALF_BITMAP_BYTES :: nat where "RF_HALF_BITMAP_BYTES = 4"

lemmas pkt_consts = PKT_TYPE_KEY_def PKT_TYPE_HEARTBEAT_def PKT_TYPE_TRACKPAD_def
  PKT_TYPE_HIDREPORT_def PKT_TYPE_STATUS_def PKT_TYPE_PAIR_ACK_def PKT_TYPE_PAIR_REQ_def
  RF_HID_SUB_KBD_def RF_HID_SUB_MOUSE_def RF_DEV_DUMB_HALF_def RF_HALF_BITMAP_BYTES_def

record rf_key_event =
  ke_row :: u8
  ke_col :: u8
  ke_pressed :: bool
  ke_is_retry :: bool
  ke_seq :: u8

record rf_heartbeat =
  hb_bitmap :: bytes
  hb_batt_dV :: u8
  hb_link_q :: u8
  hb_seq :: u8

record rf_status =
  rs_batt_dV :: u8
  rs_link_q :: u8
  rs_seq :: u8

record rf_trackpad =
  tp_ge0 :: u8
  tp_ge1 :: u8
  tp_n_fingers :: u8
  tp_rel_x :: u16
  tp_rel_y :: u16
  tp_seq :: u8

record rf_pair_ack =
  pa_set_id :: u16
  pa_mac :: bytes
  pa_slot :: u8

datatype rf_hid =
    HidKbd u8 bytes
  | HidMouse u8 u8 u8 u8

record rf_pair_req =
  pr_mac :: bytes
  pr_slot :: u8
  pr_devtype :: u8

section \<open>Encoders\<close>

definition key_flags :: "rf_key_event \<Rightarrow> u8" where
  "key_flags e = (if ke_pressed e then 0x01 else 0) OR (if ke_is_retry e then 0x02 else 0)"

definition rf_encode_key :: "rf_key_event \<Rightarrow> bytes" where
  [wire_defs]: "rf_encode_key e =
     (if ke_row e > 15 \<or> ke_col e > 15 then []
      else [mk_nib PKT_TYPE_KEY (key_flags e), mk_nib (ke_row e) (ke_col e), ke_seq e])"

definition rf_encode_heartbeat :: "rf_heartbeat \<Rightarrow> bytes" where
  [wire_defs]: "rf_encode_heartbeat h =
     push_bit 4 PKT_TYPE_HEARTBEAT # take RF_HALF_BITMAP_BYTES (hb_bitmap h)
       @ [hb_batt_dV h, hb_link_q h, hb_seq h]"

definition rf_encode_trackpad :: "rf_trackpad \<Rightarrow> bytes" where
  [wire_defs]: "rf_encode_trackpad t =
     [push_bit 4 PKT_TYPE_TRACKPAD, tp_ge0 t, tp_ge1 t, tp_n_fingers t,
      hi8 (tp_rel_x t), lo8 (tp_rel_x t), hi8 (tp_rel_y t), lo8 (tp_rel_y t), tp_seq t]"

definition rf_encode_pair_req :: "bytes \<Rightarrow> u8 \<Rightarrow> bytes" where
  [wire_defs]: "rf_encode_pair_req mac slot = push_bit 4 PKT_TYPE_PAIR_REQ # take 6 mac @ [slot]"

definition rf_encode_status :: "rf_status \<Rightarrow> bytes" where
  [wire_defs]: "rf_encode_status s =
     [push_bit 4 PKT_TYPE_STATUS, rs_batt_dV s, rs_link_q s, rs_seq s]"

definition rf_encode_pair_ack :: "rf_pair_ack \<Rightarrow> bytes" where
  [wire_defs]: "rf_encode_pair_ack a =
     [push_bit 4 PKT_TYPE_PAIR_ACK, hi8 (pa_set_id a), lo8 (pa_set_id a)]
       @ take 6 (pa_mac a) @ [pa_slot a]"

definition rf_encode_hidreport_kbd :: "u8 \<Rightarrow> bytes \<Rightarrow> bytes" where
  [wire_defs]: "rf_encode_hidreport_kbd modifier kb =
     [push_bit 4 PKT_TYPE_HIDREPORT, RF_HID_SUB_KBD, modifier] @ take 6 kb"

definition rf_encode_hidreport_mouse :: "u8 \<Rightarrow> u8 \<Rightarrow> u8 \<Rightarrow> u8 \<Rightarrow> bytes" where
  [wire_defs]: "rf_encode_hidreport_mouse buttons x y wheel =
     [push_bit 4 PKT_TYPE_HIDREPORT, RF_HID_SUB_MOUSE, buttons, x, y, wheel]"

definition rf_encode_pair_req2 :: "bytes \<Rightarrow> u8 \<Rightarrow> u8 \<Rightarrow> bytes" where
  [wire_defs]: "rf_encode_pair_req2 mac slot devtype =
     push_bit 4 PKT_TYPE_PAIR_REQ # take 6 mac @ [slot, devtype]"

section \<open>Decoders\<close>

definition rf_packet_type :: "bytes \<Rightarrow> u8" where
  "rf_packet_type buf = (if length buf < 1 then 0 else nib_hi (buf ! 0))"

definition rf_decode_status :: "bytes \<Rightarrow> rf_status option" where
  [wire_defs]: "rf_decode_status buf =
     (if length buf < 4 \<or> rf_packet_type buf \<noteq> PKT_TYPE_STATUS then None
      else Some \<lparr>rs_batt_dV = buf ! 1, rs_link_q = buf ! 2, rs_seq = buf ! 3\<rparr>)"

definition rf_decode_hidreport :: "bytes \<Rightarrow> rf_hid option" where
  [wire_defs]: "rf_decode_hidreport buf =
     (if length buf < 2 \<or> rf_packet_type buf \<noteq> PKT_TYPE_HIDREPORT then None
      else if buf ! 1 = RF_HID_SUB_KBD then
        (if length buf < 9 then None else Some (HidKbd (buf ! 2) (take 6 (drop 3 buf))))
      else if buf ! 1 = RF_HID_SUB_MOUSE then
        (if length buf < 6 then None
         else Some (HidMouse (buf ! 2) (buf ! 3) (buf ! 4) (buf ! 5)))
      else None)"

definition rf_decode_key :: "bytes \<Rightarrow> rf_key_event option" where
  [wire_defs]: "rf_decode_key buf =
     (if length buf < 3 \<or> rf_packet_type buf \<noteq> PKT_TYPE_KEY then None
      else let flags = nib_lo (buf ! 0) in
        Some \<lparr>ke_row = nib_hi (buf ! 1), ke_col = nib_lo (buf ! 1),
              ke_pressed = (flags AND 0x01 \<noteq> 0), ke_is_retry = (flags AND 0x02 \<noteq> 0),
              ke_seq = buf ! 2\<rparr>)"

definition rf_decode_heartbeat :: "bytes \<Rightarrow> rf_heartbeat option" where
  [wire_defs]: "rf_decode_heartbeat buf =
     (if length buf < 4 + RF_HALF_BITMAP_BYTES \<or> rf_packet_type buf \<noteq> PKT_TYPE_HEARTBEAT
      then None
      else Some \<lparr>hb_bitmap = take RF_HALF_BITMAP_BYTES (drop 1 buf),
                 hb_batt_dV = buf ! (1 + RF_HALF_BITMAP_BYTES),
                 hb_link_q = buf ! (2 + RF_HALF_BITMAP_BYTES),
                 hb_seq = buf ! (3 + RF_HALF_BITMAP_BYTES)\<rparr>)"

definition rf_decode_trackpad :: "bytes \<Rightarrow> rf_trackpad option" where
  [wire_defs]: "rf_decode_trackpad buf =
     (if length buf < 9 \<or> rf_packet_type buf \<noteq> PKT_TYPE_TRACKPAD then None
      else Some \<lparr>tp_ge0 = buf ! 1, tp_ge1 = buf ! 2, tp_n_fingers = buf ! 3,
                 tp_rel_x = be16 (buf ! 4) (buf ! 5), tp_rel_y = be16 (buf ! 6) (buf ! 7),
                 tp_seq = buf ! 8\<rparr>)"

definition rf_decode_pair_req :: "bytes \<Rightarrow> (bytes \<times> u8) option" where
  [wire_defs]: "rf_decode_pair_req buf =
     (if length buf < 7 \<or> rf_packet_type buf \<noteq> PKT_TYPE_PAIR_REQ then None
      else Some (take 6 (drop 1 buf), if length buf \<ge> 8 then buf ! 7 else 0))"

definition rf_decode_pair_req2 :: "bytes \<Rightarrow> rf_pair_req option" where
  [wire_defs]: "rf_decode_pair_req2 buf =
     (if length buf < 8 \<or> rf_packet_type buf \<noteq> PKT_TYPE_PAIR_REQ then None
      else Some \<lparr>pr_mac = take 6 (drop 1 buf), pr_slot = buf ! 7,
                 pr_devtype = (if length buf \<ge> 9 then buf ! 8 else RF_DEV_DUMB_HALF)\<rparr>)"

definition rf_decode_pair_ack :: "bytes \<Rightarrow> rf_pair_ack option" where
  [wire_defs]: "rf_decode_pair_ack buf =
     (if length buf < 10 \<or> rf_packet_type buf \<noteq> PKT_TYPE_PAIR_ACK then None
      else Some \<lparr>pa_set_id = be16 (buf ! 1) (buf ! 2), pa_mac = take 6 (drop 3 buf),
                 pa_slot = buf ! 9\<rparr>)"

section \<open>Bitmap helpers\<close>

definition rf_bitmap_idx :: "u8 \<Rightarrow> u8 \<Rightarrow> u8" where
  "rf_bitmap_idx row col = row * RF_HALF_COLS + col"

definition rf_bitmap_get :: "bytes \<Rightarrow> u8 \<Rightarrow> u8 \<Rightarrow> bool option" where
  "rf_bitmap_get bm row col =
     (let idx = rf_bitmap_idx row col; i = unat (drop_bit 3 idx)
      in if i < length bm
         then Some (drop_bit (7 - unat (idx AND 7)) (bm ! i) AND 1 \<noteq> 0)
         else None)"

definition rf_bitmap_set :: "bytes \<Rightarrow> u8 \<Rightarrow> u8 \<Rightarrow> bool \<Rightarrow> bytes option" where
  "rf_bitmap_set bm row col val =
     (let idx = rf_bitmap_idx row col; i = unat (drop_bit 3 idx);
          mask = push_bit (7 - unat (idx AND 7)) 1
      in if i < length bm
         then Some (bm[i := if val then bm ! i OR mask else bm ! i AND NOT mask])
         else None)"

section \<open>The contract of a packet format\<close>

text \<open>
  What both ends of a radio link rely on: an encoded packet is decoded to the same value
  whatever bytes follow it (the radio pads a payload), a decoder accepts only its own type
  and yields only encodable values.
\<close>

locale packet =
  fixes enc :: "'a \<Rightarrow> bytes" and dec :: "bytes \<Rightarrow> 'a option"
    and wf :: "'a \<Rightarrow> bool" and tag :: u8
  assumes dec_enc: "wf x \<Longrightarrow> dec (enc x @ junk) = Some x"
    and dec_tag: "dec buf = Some x \<Longrightarrow> rf_packet_type buf = tag"
    and dec_wf: "dec buf = Some x \<Longrightarrow> wf x"
begin

lemma dec_enc_exact: "wf x \<Longrightarrow> dec (enc x) = Some x"
  using dec_enc [of x "[]"] by simp

lemma enc_prefix_free:
  assumes "wf x" "wf y" "enc x @ j = enc y @ k"
  shows "x = y"
  using dec_enc [OF assms(1), of j] dec_enc [OF assms(2), of k] assms(3) by simp

lemma enc_type: "wf x \<Longrightarrow> rf_packet_type (enc x @ junk) = tag"
  by (rule dec_tag [OF dec_enc])

lemma wrong_type: "rf_packet_type buf \<noteq> tag \<Longrightarrow> dec buf = None"
  using dec_tag by (cases "dec buf") auto

lemma reencode: "dec buf = Some x \<Longrightarrow> dec (enc x) = Some x"
  by (rule dec_enc_exact [OF dec_wf])

end

definition wf_key :: "rf_key_event \<Rightarrow> bool" where
  "wf_key e \<longleftrightarrow> ke_row e \<le> 15 \<and> ke_col e \<le> 15"

definition wf_heartbeat :: "rf_heartbeat \<Rightarrow> bool" where
  "wf_heartbeat h \<longleftrightarrow> length (hb_bitmap h) = RF_HALF_BITMAP_BYTES"

definition wf_pair_ack :: "rf_pair_ack \<Rightarrow> bool" where
  "wf_pair_ack a \<longleftrightarrow> length (pa_mac a) = 6"

definition wf_pair_req :: "rf_pair_req \<Rightarrow> bool" where
  "wf_pair_req r \<longleftrightarrow> length (pr_mac r) = 6"

fun wf_hid :: "rf_hid \<Rightarrow> bool" where
  "wf_hid (HidKbd m kb) \<longleftrightarrow> length kb = 6"
| "wf_hid (HidMouse b x y w) \<longleftrightarrow> True"

fun rf_encode_hid :: "rf_hid \<Rightarrow> bytes" where
  "rf_encode_hid (HidKbd m kb) = rf_encode_hidreport_kbd m kb"
| "rf_encode_hid (HidMouse b x y w) = rf_encode_hidreport_mouse b x y w"

definition rf_encode_pair_req_rec :: "rf_pair_req \<Rightarrow> bytes" where
  [wire_defs]: "rf_encode_pair_req_rec r = rf_encode_pair_req2 (pr_mac r) (pr_slot r) (pr_devtype r)"

lemma le_15_nib: "w \<le> 15 \<Longrightarrow> w AND 0x0F = w" for w :: u8
proof -
  assume "w \<le> 15"
  then have "unat w < 2 ^ 4" by (simp add: word_le_nat_alt)
  then have "unat (take_bit 4 w) = unat w"
    by (simp add: unsigned_take_bit_eq take_bit_nat_eq_self)
  then have "take_bit 4 w = w" by (rule unsigned_word_eqI)
  then show ?thesis by (simp add: take_bit_eq_mask mask_eq_exp_minus_1)
qed

lemma nib_le_15 [simp]: "nib_hi b \<le> 15" "nib_lo b \<le> 15"
  by (simp_all add: nib_hi_def nib_lo_def word_and_le1)

lemma key_flags_bits [simp]:
  "(key_flags e AND 0x0F) AND 1 \<noteq> 0 \<longleftrightarrow> ke_pressed e"
  "(key_flags e AND 0x0F) AND 2 \<noteq> 0 \<longleftrightarrow> ke_is_retry e"
  by (auto simp: key_flags_def)

lemma key_tag [simp]: "PKT_TYPE_KEY AND 0x0F = PKT_TYPE_KEY"
  by (simp add: PKT_TYPE_KEY_def)

lemma type_of_cons [simp]: "rf_packet_type (b # bs) = nib_hi b"
  by (simp add: rf_packet_type_def)

lemma nib_hi_push [simp]:
  "nib_hi 0x20 = 2" "nib_hi 0x30 = 3" "nib_hi 0x50 = 5" "nib_hi 0x60 = 6"
  "nib_hi 0xE0 = 0xE" "nib_hi 0xF0 = 0xF"
  by (simp_all add: nib_hi_def drop_bit_eq_div)

lemma len6_cases: "length xs = 6 \<Longrightarrow> \<exists>a b c d e f. xs = [a, b, c, d, e, f]"
  by (auto simp: numeral_eq_Suc length_Suc_conv)

lemma len4_cases: "length xs = 4 \<Longrightarrow> \<exists>a b c d. xs = [a, b, c, d]"
  by (auto simp: numeral_eq_Suc length_Suc_conv)

interpretation key_pkt: packet rf_encode_key rf_decode_key wf_key PKT_TYPE_KEY
  by unfold_locales
    (auto simp: rf_encode_key_def rf_decode_key_def wf_key_def Let_def le_15_nib
      not_less split: if_splits)

interpretation status_pkt: packet rf_encode_status rf_decode_status "\<lambda>_. True" PKT_TYPE_STATUS
  by unfold_locales
    (auto simp: rf_encode_status_def rf_decode_status_def pkt_consts split: if_splits)

interpretation trackpad_pkt: packet rf_encode_trackpad rf_decode_trackpad "\<lambda>_. True" PKT_TYPE_TRACKPAD
  by unfold_locales
    (auto simp: rf_encode_trackpad_def rf_decode_trackpad_def pkt_consts split: if_splits)

interpretation heartbeat_pkt:
  packet rf_encode_heartbeat rf_decode_heartbeat wf_heartbeat PKT_TYPE_HEARTBEAT
  by unfold_locales
    (auto simp: rf_encode_heartbeat_def rf_decode_heartbeat_def wf_heartbeat_def pkt_consts
      dest!: len4_cases split: if_splits)

interpretation pair_ack_pkt:
  packet rf_encode_pair_ack rf_decode_pair_ack wf_pair_ack PKT_TYPE_PAIR_ACK
  by unfold_locales
    (auto simp: rf_encode_pair_ack_def rf_decode_pair_ack_def wf_pair_ack_def pkt_consts
      dest!: len6_cases split: if_splits)

interpretation pair_req_pkt:
  packet rf_encode_pair_req_rec rf_decode_pair_req2 wf_pair_req PKT_TYPE_PAIR_REQ
  by unfold_locales
    (auto simp: rf_encode_pair_req_rec_def rf_encode_pair_req2_def rf_decode_pair_req2_def
      wf_pair_req_def pkt_consts dest!: len6_cases split: if_splits)

interpretation hid_pkt: packet rf_encode_hid rf_decode_hidreport wf_hid PKT_TYPE_HIDREPORT
proof unfold_locales
  show "rf_decode_hidreport (rf_encode_hid x @ junk) = Some x" if "wf_hid x" for x junk
    using that
    by (cases x) (auto simp: rf_encode_hidreport_kbd_def rf_encode_hidreport_mouse_def
        rf_decode_hidreport_def pkt_consts dest!: len6_cases)
  show "rf_packet_type buf = PKT_TYPE_HIDREPORT" if "rf_decode_hidreport buf = Some x" for buf x
    using that by (auto simp: rf_decode_hidreport_def split: if_splits)
  show "wf_hid x" if "rf_decode_hidreport buf = Some x" for buf x
    using that by (auto simp: rf_decode_hidreport_def split: if_splits)
qed

section \<open>Properties\<close>

text \<open>
  Every well-formed record of the seven radio formats survives the air: the decoder of its
  format rebuilds it from the encoder's bytes, whatever padding the radio appends.
\<close>

theorem rf_packets_roundtrip:
  "(wf_key e \<longrightarrow> rf_decode_key (rf_encode_key e @ junk) = Some e)
   \<and> (wf_heartbeat h \<longrightarrow> rf_decode_heartbeat (rf_encode_heartbeat h @ junk) = Some h)
   \<and> (wf_pair_ack a \<longrightarrow> rf_decode_pair_ack (rf_encode_pair_ack a @ junk) = Some a)
   \<and> (wf_pair_req r \<longrightarrow>
        rf_decode_pair_req2 (rf_encode_pair_req2 (pr_mac r) (pr_slot r) (pr_devtype r) @ junk) = Some r)
   \<and> (wf_hid r' \<longrightarrow> rf_decode_hidreport (rf_encode_hid r' @ junk) = Some r')
   \<and> rf_decode_trackpad (rf_encode_trackpad t @ junk) = Some t
   \<and> rf_decode_status (rf_encode_status s @ junk) = Some s"
  using key_pkt.dec_enc heartbeat_pkt.dec_enc pair_ack_pkt.dec_enc pair_req_pkt.dec_enc
    hid_pkt.dec_enc trackpad_pkt.dec_enc status_pkt.dec_enc
  by (simp add: rf_encode_pair_req_rec_def)

lemma rf_packets_roundtrip_witness:
  "rf_decode_key (rf_encode_key \<lparr>ke_row = 3, ke_col = 6, ke_pressed = True, ke_is_retry = False,
      ke_seq = 9\<rparr> @ [0xAA]) = Some \<lparr>ke_row = 3, ke_col = 6, ke_pressed = True,
      ke_is_retry = False, ke_seq = 9\<rparr>
   \<and> rf_decode_heartbeat (rf_encode_heartbeat \<lparr>hb_bitmap = [1, 2, 3, 4], hb_batt_dV = 37,
      hb_link_q = 5, hb_seq = 255\<rparr> @ [0xAA]) = Some \<lparr>hb_bitmap = [1, 2, 3, 4], hb_batt_dV = 37,
      hb_link_q = 5, hb_seq = 255\<rparr>
   \<and> rf_decode_pair_ack (rf_encode_pair_ack \<lparr>pa_set_id = 0xBEEF, pa_mac = [1, 2, 3, 4, 5, 6],
      pa_slot = 1\<rparr> @ [0xAA]) = Some \<lparr>pa_set_id = 0xBEEF, pa_mac = [1, 2, 3, 4, 5, 6], pa_slot = 1\<rparr>
   \<and> rf_decode_pair_req2 (rf_encode_pair_req2 [1, 2, 3, 4, 5, 6] 2 1 @ [0xAA])
       = Some \<lparr>pr_mac = [1, 2, 3, 4, 5, 6], pr_slot = 2, pr_devtype = 1\<rparr>
   \<and> rf_decode_hidreport (rf_encode_hid (HidKbd 2 [4, 0, 0, 0, 0, 0]) @ [0xAA])
       = Some (HidKbd 2 [4, 0, 0, 0, 0, 0])"
  using rf_packets_roundtrip [of "\<lparr>ke_row = 3, ke_col = 6, ke_pressed = True,
      ke_is_retry = False, ke_seq = 9\<rparr>" "[0xAA]"
      "\<lparr>hb_bitmap = [1, 2, 3, 4], hb_batt_dV = 37, hb_link_q = 5, hb_seq = 255\<rparr>"
      "\<lparr>pa_set_id = 0xBEEF, pa_mac = [1, 2, 3, 4, 5, 6], pa_slot = 1\<rparr>"
      "\<lparr>pr_mac = [1, 2, 3, 4, 5, 6], pr_slot = 2, pr_devtype = 1\<rparr>" "HidKbd 2 [4, 0, 0, 0, 0, 0]"]
  by (simp add: wf_key_def wf_heartbeat_def wf_pair_ack_def wf_pair_req_def RF_HALF_BITMAP_BYTES_def)

lemma one_tag:
  "(a \<longrightarrow> t = 1) \<Longrightarrow> (b \<longrightarrow> t = 2) \<Longrightarrow> (c \<longrightarrow> t = 3) \<Longrightarrow> (d \<longrightarrow> t = 5) \<Longrightarrow> (e \<longrightarrow> t = 6)
     \<Longrightarrow> (f \<longrightarrow> t = 14) \<Longrightarrow> (g \<longrightarrow> t = 15) \<Longrightarrow> length (filter id [a, b, c, d, e, f, g]) \<le> 1"
  for t :: u8
  by (cases a; cases b; cases c; cases d; cases e; cases f; cases g) simp_all

text \<open>
  No received buffer is a valid packet of two formats: at most one of the seven decoders
  accepts it, so the dispatch on the packet type loses nothing.
\<close>

theorem rf_formats_exclusive:
  "length (filter id [rf_decode_key buf \<noteq> None, rf_decode_heartbeat buf \<noteq> None,
      rf_decode_trackpad buf \<noteq> None, rf_decode_hidreport buf \<noteq> None, rf_decode_status buf \<noteq> None,
      rf_decode_pair_ack buf \<noteq> None, rf_decode_pair_req2 buf \<noteq> None]) \<le> 1"
proof -
  have "rf_decode_key buf \<noteq> None \<longrightarrow> rf_packet_type buf = 1"
    "rf_decode_heartbeat buf \<noteq> None \<longrightarrow> rf_packet_type buf = 2"
    "rf_decode_trackpad buf \<noteq> None \<longrightarrow> rf_packet_type buf = 3"
    "rf_decode_hidreport buf \<noteq> None \<longrightarrow> rf_packet_type buf = 5"
    "rf_decode_status buf \<noteq> None \<longrightarrow> rf_packet_type buf = 6"
    "rf_decode_pair_ack buf \<noteq> None \<longrightarrow> rf_packet_type buf = 14"
    "rf_decode_pair_req2 buf \<noteq> None \<longrightarrow> rf_packet_type buf = 15"
    using key_pkt.dec_tag [of buf] heartbeat_pkt.dec_tag [of buf] trackpad_pkt.dec_tag [of buf]
      hid_pkt.dec_tag [of buf] status_pkt.dec_tag [of buf] pair_ack_pkt.dec_tag [of buf]
      pair_req_pkt.dec_tag [of buf]
    by (auto simp: pkt_consts)
  then show ?thesis by (rule one_tag)
qed

end
