(* ===== verification/Link_Supervision.thy ===== *)
theory Link_Supervision
  imports Rf_Packet
begin

unbundle bit_operations_syntax

text \<open>
  Silence detection on the radio links: \<open>rf_slot.h\<close> (the two slots of the dongle) and
  \<open>half_link.h\<close> (the remote half seen by the master). Both are a watchdog: reception marks
  the link up, a periodic check with an unsigned clock difference declares it lost once. The
  interface \<open>watchdog\<close> states that, and the two components are its interpretations.
\<close>

section \<open>The watchdog interface\<close>

datatype wd_event = WdRx u32 | WdCheck u32

fun wd_run :: "('s \<Rightarrow> u32 \<Rightarrow> 's) \<Rightarrow> ('s \<Rightarrow> u32 \<Rightarrow> 's \<times> bool) \<Rightarrow> 's \<Rightarrow> wd_event list \<Rightarrow> 's \<times> nat" where
  "wd_run rx check s [] = (s, 0)"
| "wd_run rx check s (WdRx t # es) = wd_run rx check (rx s t) es"
| "wd_run rx check s (WdCheck t # es) =
     (let (s', f) = check s t; (s'', n) = wd_run rx check s' es
      in (s'', n + (if f then 1 else 0)))"

fun rx_count :: "wd_event list \<Rightarrow> nat" where
  "rx_count [] = 0"
| "rx_count (WdRx t # es) = Suc (rx_count es)"
| "rx_count (WdCheck t # es) = rx_count es"

locale watchdog =
  fixes up :: "'s \<Rightarrow> bool" and last :: "'s \<Rightarrow> u32"
    and rx :: "'s \<Rightarrow> u32 \<Rightarrow> 's" and check :: "'s \<Rightarrow> u32 \<Rightarrow> 's \<times> bool"
    and late :: "u32 \<Rightarrow> bool"
  assumes rx_up: "up (rx s t)"
    and rx_last: "last (rx s t) = t"
    and check_down: "\<not> up s \<Longrightarrow> check s t = (s, False)"
    and check_fresh: "up s \<Longrightarrow> \<not> late (t - last s) \<Longrightarrow> check s t = (s, False)"
    and check_late: "up s \<Longrightarrow> late (t - last s) \<Longrightarrow> snd (check s t) \<and> \<not> up (fst (check s t))"
begin

lemma check_cases:
  obtains "check s t = (s, False)" | "up s" "snd (check s t)" "\<not> up (fst (check s t))"
  using check_down check_fresh check_late by metis

text \<open>A check fires exactly on a link that is up and has been silent too long.\<close>

lemma fires_iff: "snd (check s t) \<longleftrightarrow> up s \<and> late (t - last s)"
  using check_down [of s t] check_fresh [of s t] check_late [of s t] by fastforce

lemma no_second_fire: "snd (check s t) \<Longrightarrow> \<not> snd (check (fst (check s t)) t')"
  using check_down check_late fires_iff by fastforce

text \<open>One alarm per loss: there are never more alarms than receptions.\<close>

lemma alarms_le:
  "snd (wd_run rx check s es) \<le> rx_count es + (if up s then 1 else 0)"
proof (induction es arbitrary: s)
  case Nil
  show ?case by simp
next
  case (Cons e es)
  show ?case
  proof (cases e)
    case (WdRx t)
    with Cons [of "rx s t"] show ?thesis by (simp add: rx_up)
  next
    case (WdCheck t)
    show ?thesis
      using WdCheck Cons [of "fst (check s t)"] fires_iff [of s t] check_late [of s t]
        check_down [of s t] check_fresh [of s t]
      by (auto simp: split_beta Let_def split: if_splits)
  qed
qed

text \<open>A reception followed by a late check raises the alarm, whatever came before.\<close>

lemma rx_then_late: "late (t' - t) \<Longrightarrow> snd (check (rx s t) t')"
  by (simp add: fires_iff rx_up rx_last)

lemma rx_then_soon: "\<not> late (t' - t) \<Longrightarrow> check (rx s t) t' = (rx s t, False)"
  by (simp add: check_fresh rx_up rx_last)

end

section \<open>The dongle's slots (rf_slot.h)\<close>

definition RF_SLOT_KBD :: u8 where "RF_SLOT_KBD = 0"
definition RF_SLOT_MOUSE :: u8 where "RF_SLOT_MOUSE = 1"

datatype rf_safe_action = RF_SAFE_NONE | RF_SAFE_RELEASE_KEYS | RF_SAFE_RELEASE_BUTTONS

record rf_slot_link =
  sl_last_rx_ms :: u32
  sl_up :: bool

definition rf_slot_link_rx :: "rf_slot_link \<Rightarrow> u32 \<Rightarrow> rf_slot_link" where
  "rf_slot_link_rx l now_ms = l\<lparr>sl_last_rx_ms := now_ms, sl_up := True\<rparr>"

definition rf_slot_link_check ::
  "rf_slot_link \<Rightarrow> u8 \<Rightarrow> u32 \<Rightarrow> u32 \<Rightarrow> rf_slot_link \<times> rf_safe_action" where
  "rf_slot_link_check l slot now_ms timeout_ms =
     (if \<not> sl_up l then (l, RF_SAFE_NONE)
      else if now_ms - sl_last_rx_ms l < timeout_ms then (l, RF_SAFE_NONE)
      else (l\<lparr>sl_up := False\<rparr>,
            if slot = RF_SLOT_MOUSE then RF_SAFE_RELEASE_BUTTONS else RF_SAFE_RELEASE_KEYS))"

definition slot_check :: "u8 \<Rightarrow> u32 \<Rightarrow> rf_slot_link \<Rightarrow> u32 \<Rightarrow> rf_slot_link \<times> bool" where
  "slot_check slot timeout l now =
     (let (l', a) = rf_slot_link_check l slot now timeout in (l', a \<noteq> RF_SAFE_NONE))"

interpretation slot_wd: watchdog sl_up sl_last_rx_ms rf_slot_link_rx "slot_check slot timeout"
  "\<lambda>d. timeout \<le> d" for slot timeout
  by unfold_locales
    (auto simp: rf_slot_link_rx_def slot_check_def rf_slot_link_check_def split: if_splits)

lemma slot_check_release:
  "snd (rf_slot_link_check l slot now t) = RF_SAFE_RELEASE_KEYS \<Longrightarrow> slot \<noteq> RF_SLOT_MOUSE"
  "snd (rf_slot_link_check l slot now t) = RF_SAFE_RELEASE_BUTTONS \<Longrightarrow> slot = RF_SLOT_MOUSE"
  by (auto simp: rf_slot_link_check_def split: if_splits)

section \<open>The remote half seen by the master (half_link.h)\<close>

record half_state =
  hs_bitmap :: bytes
  hs_derniere_ms :: u32
  hs_vivant :: bool

definition half_state_recu :: "half_state \<Rightarrow> bytes \<Rightarrow> u32 \<Rightarrow> half_state" where
  "half_state_recu st bitmap now_ms =
     st\<lparr>hs_bitmap := take RF_HALF_BITMAP_BYTES bitmap, hs_derniere_ms := now_ms, hs_vivant := True\<rparr>"

definition half_state_timeout :: "half_state \<Rightarrow> u32 \<Rightarrow> u32 \<Rightarrow> half_state \<times> bool" where
  "half_state_timeout st now_ms delai_ms =
     (if \<not> hs_vivant st then (st, False)
      else if now_ms - hs_derniere_ms st < delai_ms then (st, False)
      else (st\<lparr>hs_bitmap := replicate RF_HALF_BITMAP_BYTES 0, hs_vivant := False\<rparr>, True))"

definition half_state_pressed :: "half_state \<Rightarrow> u8 \<Rightarrow> u8 \<Rightarrow> bool option" where
  "half_state_pressed st row col = rf_bitmap_get (hs_bitmap st) row col"

interpretation half_wd: watchdog hs_vivant hs_derniere_ms "\<lambda>s t. half_state_recu s bm t"
  "\<lambda>s t. half_state_timeout s t delai" "\<lambda>d. delai \<le> d" for bm delai
  by unfold_locales (auto simp: half_state_recu_def half_state_timeout_def split: if_splits)

end
