(* ===== verification/Heartbeat.thy ===== *)
theory Heartbeat
  imports Link_Supervision
begin

unbundle bit_operations_syntax

text \<open>
  \<open>main/comm/rf/heartbeat.c\<close>: the dongle's view of a half keyboard. Key events are applied to
  a local bitmap with a duplicate filter; a heartbeat carries the half's whole bitmap and the
  dongle forces the differences; silence releases every key. A callback is an event in a list
  (nothing when the callback pointer is null) and an access outside a bitmap is \<open>None\<close>.
\<close>

section \<open>Definitions\<close>

record hb_half_state =
  hbs_local_bitmap :: bytes
  hbs_last_seq :: u8
  hbs_last_hb_seq :: u8
  hbs_last_hb_ms :: u32
  hbs_link_up :: bool
  hbs_seq_valid :: bool

datatype hb_event = ForcePress u8 u8 u8 | ForceRelease u8 u8 u8

record hb_callbacks =
  cb_force_press :: bool
  cb_force_release :: bool

definition half_keys :: "(u8 \<times> u8) list" where
  "half_keys = List.product [0, 1, 2, 3] [0, 1, 2, 3, 4, 5, 6]"

fun fold_opt :: "('k \<Rightarrow> 's \<Rightarrow> 's option) \<Rightarrow> 'k list \<Rightarrow> 's \<Rightarrow> 's option" where
  "fold_opt f [] s = Some s"
| "fold_opt f (k # ks) s = (case f k s of None \<Rightarrow> None | Some s' \<Rightarrow> fold_opt f ks s')"

definition hb_apply_key :: "hb_half_state \<Rightarrow> rf_key_event \<Rightarrow> (hb_half_state \<times> bool) option" where
  "hb_apply_key st e =
     (if ke_row e \<ge> RF_HALF_ROWS \<or> ke_col e \<ge> RF_HALF_COLS then Some (st, False)
      else if hbs_seq_valid st \<and> ke_seq e = hbs_last_seq st \<and> \<not> ke_is_retry e
      then Some (st, False)
      else
        let st' = st\<lparr>hbs_last_seq := ke_seq e, hbs_seq_valid := True\<rparr>
        in case rf_bitmap_get (hbs_local_bitmap st') (ke_row e) (ke_col e) of
             None \<Rightarrow> None
           | Some cur \<Rightarrow>
               (if cur = ke_pressed e then Some (st', False)
                else map_option (\<lambda>bm. (st'\<lparr>hbs_local_bitmap := bm\<rparr>, True))
                       (rf_bitmap_set (hbs_local_bitmap st') (ke_row e) (ke_col e) (ke_pressed e))))"

definition hb_press_cb :: "hb_callbacks option \<Rightarrow> u8 \<Rightarrow> u8 \<times> u8 \<Rightarrow> hb_event list" where
  "hb_press_cb cb half k =
     (case cb of Some c \<Rightarrow> if cb_force_press c then [ForcePress half (fst k) (snd k)] else []
               | None \<Rightarrow> [])"

definition hb_release_cb :: "hb_callbacks option \<Rightarrow> u8 \<Rightarrow> u8 \<times> u8 \<Rightarrow> hb_event list" where
  "hb_release_cb cb half k =
     (case cb of Some c \<Rightarrow> if cb_force_release c then [ForceRelease half (fst k) (snd k)] else []
               | None \<Rightarrow> [])"

definition hb_reconcile_key ::
  "hb_callbacks option \<Rightarrow> u8 \<Rightarrow> bytes \<Rightarrow> u8 \<times> u8 \<Rightarrow> bytes \<times> hb_event list
     \<Rightarrow> (bytes \<times> hb_event list) option" where
  "hb_reconcile_key cb half hbm k s =
     (case (rf_bitmap_get hbm (fst k) (snd k), rf_bitmap_get (fst s) (fst k) (snd k)) of
        (Some want, Some have_) \<Rightarrow>
          if want = have_ then Some s
          else if want then
            map_option (\<lambda>bm. (bm, snd s @ hb_press_cb cb half k))
              (rf_bitmap_set (fst s) (fst k) (snd k) True)
          else
            map_option (\<lambda>bm. (bm, snd s @ hb_release_cb cb half k))
              (rf_bitmap_set (fst s) (fst k) (snd k) False)
      | _ \<Rightarrow> None)"

definition hb_reconcile ::
  "hb_half_state \<Rightarrow> u8 \<Rightarrow> rf_heartbeat \<Rightarrow> hb_callbacks option \<Rightarrow> u32
     \<Rightarrow> (hb_half_state \<times> hb_event list) option" where
  "hb_reconcile st half h cb now_ms =
     map_option (\<lambda>(bm, evs).
         (st\<lparr>hbs_local_bitmap := bm, hbs_last_hb_seq := hb_seq h, hbs_last_hb_ms := now_ms,
             hbs_link_up := True\<rparr>, evs))
       (fold_opt (hb_reconcile_key cb half (hb_bitmap h)) half_keys (hbs_local_bitmap st, []))"

definition hb_release_key ::
  "hb_callbacks option \<Rightarrow> u8 \<Rightarrow> u8 \<times> u8 \<Rightarrow> bytes \<times> hb_event list
     \<Rightarrow> (bytes \<times> hb_event list) option" where
  "hb_release_key cb half k s =
     (case rf_bitmap_get (fst s) (fst k) (snd k) of
        None \<Rightarrow> None
      | Some have_ \<Rightarrow>
          if have_ then
            map_option (\<lambda>bm. (bm, snd s @ hb_release_cb cb half k))
              (rf_bitmap_set (fst s) (fst k) (snd k) False)
          else Some s)"

definition hb_check_timeout ::
  "hb_half_state \<Rightarrow> u8 \<Rightarrow> hb_callbacks option \<Rightarrow> u32 \<Rightarrow> u32
     \<Rightarrow> (hb_half_state \<times> hb_event list) option" where
  "hb_check_timeout st half cb now_ms timeout_ms =
     (if \<not> hbs_link_up st then Some (st, [])
      else if now_ms - hbs_last_hb_ms st \<le> timeout_ms then Some (st, [])
      else map_option (\<lambda>(bm, evs). (st\<lparr>hbs_local_bitmap := bm, hbs_link_up := False\<rparr>, evs))
             (fold_opt (hb_release_key cb half) half_keys (hbs_local_bitmap st, [])))"

section \<open>Grids of keys\<close>

text \<open>
  What the reconciliation loops rely on: inside the grid a key can be read and written, and a
  write changes that key only.
\<close>

definition sync_step ::
  "('b \<Rightarrow> 'k \<Rightarrow> bool option) \<Rightarrow> ('b \<Rightarrow> 'k \<Rightarrow> bool \<Rightarrow> 'b option) \<Rightarrow> ('k \<Rightarrow> bool) \<Rightarrow> ('k \<Rightarrow> bool \<Rightarrow> 'e list)
     \<Rightarrow> 'k \<Rightarrow> 'b \<times> 'e list \<Rightarrow> ('b \<times> 'e list) option" where
  "sync_step rd wr want ev k s =
     (case rd (fst s) k of
        None \<Rightarrow> None
      | Some v \<Rightarrow> if want k = v then Some s
                  else map_option (\<lambda>b. (b, snd s @ ev k (want k))) (wr (fst s) k (want k)))"

locale key_grid =
  fixes rd :: "'b \<Rightarrow> 'k \<Rightarrow> bool option" and wr :: "'b \<Rightarrow> 'k \<Rightarrow> bool \<Rightarrow> 'b option"
    and wf :: "'b \<Rightarrow> bool" and keys :: "'k list"
  assumes rd_in: "wf b \<Longrightarrow> k \<in> set keys \<Longrightarrow> \<exists>v. rd b k = Some v"
    and wr_in: "wf b \<Longrightarrow> k \<in> set keys \<Longrightarrow> \<exists>b'. wr b k v = Some b' \<and> wf b'"
    and rd_wr: "wf b \<Longrightarrow> k \<in> set keys \<Longrightarrow> j \<in> set keys \<Longrightarrow> wr b k v = Some b'
                  \<Longrightarrow> rd b' j = (if j = k then Some v else rd b j)"
    and keys_distinct: "distinct keys"
begin

definition down :: "'b \<Rightarrow> 'k \<Rightarrow> bool" where
  "down b k = (rd b k = Some True)"

lemma step_ok:
  assumes "wf b" "k \<in> set keys"
  shows "\<exists>b'. sync_step rd wr want ev k (b, es)
                = Some (b', es @ (if want k = down b k then [] else ev k (want k)))
           \<and> wf b' \<and> (\<forall>j\<in>set keys. down b' j = (if j = k then want k else down b j))"
proof -
  obtain v where v: "rd b k = Some v" using rd_in [OF assms] by blast
  obtain b' where b': "wr b k (want k) = Some b'" "wf b'" using wr_in [OF assms] by blast
  show ?thesis
  proof (cases "want k = v")
    case True
    then show ?thesis using v assms by (auto simp: sync_step_def down_def)
  next
    case False
    then show ?thesis
      using v b' rd_wr [OF assms _ b'(1)] by (auto simp: sync_step_def down_def)
  qed
qed

text \<open>
  The loop never leaves the grid, ends with the wanted bitmap, and emits one event per key
  that differed, in grid order.
\<close>

lemma sync_loop:
  assumes "wf b" "set ks \<subseteq> set keys" "distinct ks"
  shows "\<exists>b'. fold_opt (sync_step rd wr want ev) ks (b, es)
                = Some (b', es @ concat (map (\<lambda>k. ev k (want k)) (filter (\<lambda>k. want k \<noteq> down b k) ks)))
           \<and> wf b' \<and> (\<forall>j\<in>set keys. down b' j = (if j \<in> set ks then want j else down b j))"
  using assms
proof (induction ks arbitrary: b es)
  case Nil
  then show ?case by simp
next
  case (Cons k ks)
  from Cons.prems obtain b1 where b1:
    "sync_step rd wr want ev k (b, es)
       = Some (b1, es @ (if want k = down b k then [] else ev k (want k)))"
    "wf b1" "\<forall>j\<in>set keys. down b1 j = (if j = k then want k else down b j)"
    using step_ok [of b k want ev es] by auto
  have "down b1 x = down b x" if "x \<in> set ks" for x
  proof -
    have "x \<in> set keys" "x \<noteq> k" using that Cons.prems by auto
    then show ?thesis using b1(3) by simp
  qed
  then have same: "filter (\<lambda>k. want k \<noteq> down b1 k) ks = filter (\<lambda>k. want k \<noteq> down b k) ks"
    by (intro filter_cong) auto
  show ?case
    using Cons.IH [OF b1(2), of "es @ (if want k = down b k then [] else ev k (want k))"]
      Cons.prems b1 same by auto
qed

lemma sync_all:
  assumes "wf b"
  shows "\<exists>b'. fold_opt (sync_step rd wr want ev) keys (b, [])
                = Some (b', concat (map (\<lambda>k. ev k (want k)) (filter (\<lambda>k. want k \<noteq> down b k) keys)))
           \<and> wf b' \<and> (\<forall>j\<in>set keys. down b' j = want j)"
  using sync_loop [OF assms subset_refl keys_distinct, of want ev "[]"] by auto

end

section \<open>The bitmap of a half is a grid\<close>

definition bm_bit :: "bytes \<Rightarrow> nat \<Rightarrow> bool" where
  "bm_bit bm n = bit (bm ! (n div 8)) (7 - n mod 8)"

lemma unat_drop3 [simp]: "unat (drop_bit 3 w) = unat w div 8" for w :: u8
  unfolding drop_bit_eq_div by (simp add: unat_div_distrib)

lemma unat_and7 [simp]: "unat (w AND 7) = unat w mod 8" for w :: u8
proof -
  have "w AND 7 = take_bit 3 w" by (simp add: take_bit_eq_mask mask_eq_exp_minus_1)
  then show ?thesis unfolding take_bit_eq_mod by (simp add: unat_mod_distrib)
qed

lemma drop_bit_test: "drop_bit k w AND 1 \<noteq> 0 \<longleftrightarrow> bit w k" for w :: u8
  by (simp add: bit_iff_odd_drop_bit and_one_eq odd_iff_mod_2_eq_one)

lemma rf_bitmap_get_bit:
  "rf_bitmap_get bm r c =
     (let n = unat (rf_bitmap_idx r c) in if n div 8 < length bm then Some (bm_bit bm n) else None)"
  by (simp add: rf_bitmap_get_def Let_def bm_bit_def drop_bit_test)

lemma rf_bitmap_set_bit:
  "rf_bitmap_set bm r c v =
     (let n = unat (rf_bitmap_idx r c) in
      if n div 8 < length bm
      then Some (bm[n div 8 := (if v then set_bit else unset_bit) (7 - n mod 8) (bm ! (n div 8))])
      else None)"
  by (simp add: rf_bitmap_set_def Let_def set_bit_eq_or unset_bit_eq_and_not)

lemma div_mod_8_eq: "m = n \<longleftrightarrow> m div 8 = n div 8 \<and> 7 - m mod 8 = 7 - n mod (8::nat)" (is "_ \<longleftrightarrow> ?R")
proof
  assume ?R
  moreover have "m mod 8 < 8" "n mod 8 < 8" by simp_all
  ultimately have "m div 8 = n div 8" "m mod 8 = n mod 8" by linarith+
  then show "m = n" by (metis div_mult_mod_eq)
qed simp

lemma bm_bit_update:
  assumes "n div 8 < length bm"
  shows "bm_bit (bm[n div 8 := (if v then set_bit else unset_bit) (7 - n mod 8) (bm ! (n div 8))]) m
           = (if m = n then v else bm_bit bm m)"
  using assms div_mod_8_eq [of m n]
  by (auto simp: bm_bit_def nth_list_update bit_set_bit_iff bit_unset_bit_iff)

lemma half_keys_idx:
  "\<forall>k\<in>set half_keys. rf_bitmap_idx (fst k) (snd k) \<le> 27"
  by code_simp

lemma half_keys_idx_distinct:
  "distinct (map (\<lambda>k. rf_bitmap_idx (fst k) (snd k)) half_keys)"
  by code_simp

lemma half_keys_distinct: "distinct half_keys"
  using half_keys_idx_distinct by (simp add: distinct_map)

lemma half_keys_bound: "k \<in> set half_keys \<Longrightarrow> unat (rf_bitmap_idx (fst k) (snd k)) div 8 < 4"
  using half_keys_idx by (auto simp: word_le_nat_alt)

lemma half_keys_inj:
  "k \<in> set half_keys \<Longrightarrow> j \<in> set half_keys \<Longrightarrow>
     unat (rf_bitmap_idx (fst k) (snd k)) = unat (rf_bitmap_idx (fst j) (snd j)) \<longleftrightarrow> k = j"
  using half_keys_idx_distinct by (auto simp: distinct_map inj_on_def word_unat_eq_iff)

definition bm_rd :: "bytes \<Rightarrow> u8 \<times> u8 \<Rightarrow> bool option" where
  "bm_rd bm k = rf_bitmap_get bm (fst k) (snd k)"

definition bm_wr :: "bytes \<Rightarrow> u8 \<times> u8 \<Rightarrow> bool \<Rightarrow> bytes option" where
  "bm_wr bm k v = rf_bitmap_set bm (fst k) (snd k) v"

definition bm_wf :: "bytes \<Rightarrow> bool" where
  "bm_wf bm \<longleftrightarrow> length bm = RF_HALF_BITMAP_BYTES"

interpretation half_grid: key_grid bm_rd bm_wr bm_wf half_keys
proof unfold_locales
  fix b b' :: bytes and k j :: "u8 \<times> u8" and v :: bool
  assume b: "bm_wf b" and k: "k \<in> set half_keys"
  have k4: "unat (rf_bitmap_idx (fst k) (snd k)) div 8 < length b"
    using half_keys_bound [OF k] b by (simp add: bm_wf_def RF_HALF_BITMAP_BYTES_def)
  show "\<exists>v. bm_rd b k = Some v"
    using k4 by (simp add: bm_rd_def rf_bitmap_get_bit Let_def)
  show "\<exists>b'. bm_wr b k v = Some b' \<and> bm_wf b'"
    using k4 b by (simp add: bm_wr_def rf_bitmap_set_bit Let_def bm_wf_def)
  assume j: "j \<in> set half_keys" and w: "bm_wr b k v = Some b'"
  have j4: "unat (rf_bitmap_idx (fst j) (snd j)) div 8 < length b"
    using half_keys_bound [OF j] b by (simp add: bm_wf_def RF_HALF_BITMAP_BYTES_def)
  from w k4 have "b' = b[unat (rf_bitmap_idx (fst k) (snd k)) div 8 :=
      (if v then set_bit else unset_bit) (7 - unat (rf_bitmap_idx (fst k) (snd k)) mod 8)
        (b ! (unat (rf_bitmap_idx (fst k) (snd k)) div 8))]"
    by (simp add: bm_wr_def rf_bitmap_set_bit Let_def)
  then show "bm_rd b' j = (if j = k then Some v else bm_rd b j)"
    using bm_bit_update [OF k4, of v] j4 half_keys_inj [OF j k]
    by (simp add: bm_rd_def rf_bitmap_get_bit Let_def)
qed (rule half_keys_distinct)

lemma lt4_cases: "r < 4 \<Longrightarrow> r \<in> {0, 1, 2, 3}" for r :: u8
proof -
  assume "r < 4"
  then have "unat r < 4" by (simp add: word_less_nat_alt)
  then have "unat r = 0 \<or> unat r = 1 \<or> unat r = 2 \<or> unat r = 3" by linarith
  then show ?thesis by (auto simp: word_unat_eq_iff)
qed
lemma lt7_cases: "r < 7 \<Longrightarrow> r \<in> {0, 1, 2, 3, 4, 5, 6}" for r :: u8
proof -
  assume "r < 7"
  then have "unat r < 7" by (simp add: word_less_nat_alt)
  then have "unat r = 0 \<or> unat r = 1 \<or> unat r = 2 \<or> unat r = 3 \<or> unat r = 4 \<or> unat r = 5 \<or> unat r = 6"
    by linarith
  then show ?thesis by (auto simp: word_unat_eq_iff)
qed

lemma in_half_keys: "r < RF_HALF_ROWS \<Longrightarrow> c < RF_HALF_COLS \<Longrightarrow> (r, c) \<in> set half_keys"
  using lt4_cases [of r] lt7_cases [of c]
  unfolding half_keys_def set_product RF_HALF_ROWS_def RF_HALF_COLS_def
  by (intro SigmaI) simp_all

section \<open>The code's loops as grid loops\<close>

definition reconcile_ev :: "hb_callbacks option \<Rightarrow> u8 \<Rightarrow> u8 \<times> u8 \<Rightarrow> bool \<Rightarrow> hb_event list" where
  "reconcile_ev cb half k v = (if v then hb_press_cb cb half k else hb_release_cb cb half k)"

definition key_down :: "bytes \<Rightarrow> u8 \<times> u8 \<Rightarrow> bool" where
  "key_down bm k \<longleftrightarrow> bm_rd bm k = Some True"

lemma fold_opt_cong:
  "(\<And>k s. k \<in> set ks \<Longrightarrow> f k s = g k s) \<Longrightarrow> fold_opt f ks s = fold_opt g ks s"
  by (induction ks arbitrary: s) (auto split: option.splits)

lemma reconcile_loop:
  assumes "bm_wf bm" "bm_wf hbm"
  shows "\<exists>bm'. fold_opt (hb_reconcile_key cb half hbm) half_keys (bm, [])
      = Some (bm', concat (map (\<lambda>k. reconcile_ev cb half k (key_down hbm k))
                 (filter (\<lambda>k. key_down hbm k \<noteq> key_down bm k) half_keys)))
      \<and> bm_wf bm' \<and> (\<forall>k\<in>set half_keys. key_down bm' k = key_down hbm k)"
proof -
  have step: "hb_reconcile_key cb half hbm k s
      = sync_step bm_rd bm_wr (key_down hbm) (reconcile_ev cb half) k s"
    if "k \<in> set half_keys" for k s
    using half_grid.rd_in [OF assms(2) that]
    by (auto simp: hb_reconcile_key_def sync_step_def key_down_def reconcile_ev_def bm_rd_def bm_wr_def
        split: option.splits)
  have loop: "fold_opt (hb_reconcile_key cb half hbm) half_keys (bm, [])
      = fold_opt (sync_step bm_rd bm_wr (key_down hbm) (reconcile_ev cb half)) half_keys (bm, [])"
    by (rule fold_opt_cong) (rule step)
  show ?thesis
    unfolding loop
    using half_grid.sync_all [OF assms(1), of "key_down hbm" "reconcile_ev cb half"]
    by (simp add: half_grid.down_def key_down_def)
qed

lemma release_loop:
  assumes "bm_wf bm"
  shows "\<exists>bm'. fold_opt (hb_release_key cb half) half_keys (bm, [])
      = Some (bm', concat (map (hb_release_cb cb half) (filter (key_down bm) half_keys)))
      \<and> bm_wf bm' \<and> (\<forall>k\<in>set half_keys. \<not> key_down bm' k)"
proof -
  have step: "hb_release_key cb half k s
      = sync_step bm_rd bm_wr (\<lambda>_. False) (reconcile_ev cb half) k s" for k s
    by (auto simp: hb_release_key_def sync_step_def reconcile_ev_def bm_rd_def bm_wr_def
        split: option.splits)
  show ?thesis
    unfolding step [abs_def]
    using half_grid.sync_all [OF assms(1), of "\<lambda>_. False" "reconcile_ev cb half"]
    by (simp add: half_grid.down_def key_down_def [abs_def] reconcile_ev_def)
qed

section \<open>Properties\<close>

definition hb_fresh :: "hb_half_state \<Rightarrow> rf_key_event \<Rightarrow> bool" where
  "hb_fresh st e \<longleftrightarrow> ke_row e < RF_HALF_ROWS \<and> ke_col e < RF_HALF_COLS
     \<and> (hbs_seq_valid st \<longrightarrow> ke_seq e \<noteq> hbs_last_seq st \<or> ke_is_retry e)"

lemma hb_apply_key_stale: "\<not> hb_fresh st e \<Longrightarrow> hb_apply_key st e = Some (st, False)"
  by (auto simp: hb_apply_key_def hb_fresh_def)

lemma hb_apply_key_fresh:
  assumes "hb_fresh st e" "bm_wf (hbs_local_bitmap st)"
  shows "\<exists>bm'. hb_apply_key st e
      = Some (st\<lparr>hbs_last_seq := ke_seq e, hbs_seq_valid := True, hbs_local_bitmap := bm'\<rparr>,
              key_down (hbs_local_bitmap st) (ke_row e, ke_col e) \<noteq> ke_pressed e)
    \<and> bm_wf bm' \<and> (\<forall>k\<in>set half_keys. key_down bm' k =
          (if k = (ke_row e, ke_col e) then ke_pressed e else key_down (hbs_local_bitmap st) k))"
proof -
  let ?b = "hbs_local_bitmap st" and ?k = "(ke_row e, ke_col e)"
  have k: "?k \<in> set half_keys" using assms(1) by (auto simp: hb_fresh_def intro: in_half_keys)
  obtain cur where cur: "rf_bitmap_get ?b (ke_row e) (ke_col e) = Some cur"
    using half_grid.rd_in [OF assms(2) k] by (auto simp: bm_rd_def)
  obtain b' where b': "rf_bitmap_set ?b (ke_row e) (ke_col e) (ke_pressed e) = Some b'" "bm_wf b'"
    using half_grid.wr_in [OF assms(2) k, of "ke_pressed e"] by (auto simp: bm_wr_def)
  have rd: "\<forall>j\<in>set half_keys. bm_rd b' j = (if j = ?k then Some (ke_pressed e) else bm_rd ?b j)"
    using half_grid.rd_wr [OF assms(2) k, of _ "ke_pressed e" b'] b'(1) by (auto simp: bm_wr_def)
  have same: "hbs_local_bitmap_update (\<lambda>_. ?b) st = st" by simp
  show ?thesis
  proof (cases "cur = ke_pressed e")
    case True
    then have "hb_apply_key st e
        = Some (st\<lparr>hbs_last_seq := ke_seq e, hbs_seq_valid := True, hbs_local_bitmap := ?b\<rparr>, False)"
      using assms(1) cur by (auto simp: hb_apply_key_def hb_fresh_def not_le)
    then show ?thesis
      using True cur assms(2) by (intro exI [of _ ?b]) (auto simp: key_down_def bm_rd_def)
  next
    case False
    then have "hb_apply_key st e
        = Some (st\<lparr>hbs_last_seq := ke_seq e, hbs_seq_valid := True, hbs_local_bitmap := b'\<rparr>, True)"
      using assms(1) cur b' by (auto simp: hb_apply_key_def hb_fresh_def not_le)
    then show ?thesis
      using False cur b'(2) rd by (intro exI [of _ b']) (auto simp: key_down_def bm_rd_def)
  qed
qed

text \<open>
  A key packet received from the radio, whatever its bytes, never makes the dongle
  access its bitmap of the half out of bounds; a stale or out-of-grid event changes nothing,
  and a fresh one sets exactly the key it names and reports whether that key changed.
\<close>

theorem hb_apply_key_in_bounds:
  assumes "rf_decode_key buf = Some e" "bm_wf (hbs_local_bitmap st)"
  shows "\<exists>st' ch. hb_apply_key st e = Some (st', ch) \<and> bm_wf (hbs_local_bitmap st')
    \<and> ch = (hb_fresh st e
            \<and> key_down (hbs_local_bitmap st) (ke_row e, ke_col e) \<noteq> ke_pressed e)
    \<and> (\<forall>k\<in>set half_keys. key_down (hbs_local_bitmap st') k =
          (if hb_fresh st e \<and> k = (ke_row e, ke_col e) then ke_pressed e
           else key_down (hbs_local_bitmap st) k))"
proof (cases "hb_fresh st e")
  case True
  with hb_apply_key_fresh [OF True assms(2)] show ?thesis by auto
next
  case False
  with hb_apply_key_stale [OF False] assms(2) show ?thesis by auto
qed

lemma hb_apply_key_in_bounds_witness:
  "\<exists>st' ch. hb_apply_key \<lparr>hbs_local_bitmap = [0, 0, 0, 0], hbs_last_seq = 0, hbs_last_hb_seq = 0,
      hbs_last_hb_ms = 0, hbs_link_up = True, hbs_seq_valid = False\<rparr>
      \<lparr>ke_row = 15, ke_col = 15, ke_pressed = True, ke_is_retry = False, ke_seq = 7\<rparr>
    = Some (st', ch) \<and> bm_wf (hbs_local_bitmap st')"
  using hb_apply_key_in_bounds [of "[0x11, 0xFF, 7]"
      "\<lparr>ke_row = 15, ke_col = 15, ke_pressed = True, ke_is_retry = False, ke_seq = 7\<rparr>"
      "\<lparr>hbs_local_bitmap = [0, 0, 0, 0], hbs_last_seq = 0, hbs_last_hb_seq = 0,
        hbs_last_hb_ms = 0, hbs_link_up = True, hbs_seq_valid = False\<rparr>"]
  by (auto simp: rf_decode_key_def Let_def PKT_TYPE_KEY_def nib_hi_def nib_lo_def drop_bit_eq_div
      bm_wf_def RF_HALF_BITMAP_BYTES_def)

text \<open>
  After a heartbeat the dongle's 28 keys of the half equal those of the heartbeat, the
  link is up, and the callbacks forced are exactly one press or release per key that
  differed, in row-major order: no key stays stuck and no key is forced without cause.
\<close>

theorem hb_reconcile_converges:
  assumes "bm_wf (hbs_local_bitmap st)" "rf_decode_heartbeat buf = Some h"
  shows "\<exists>st' evs. hb_reconcile st half h cb now = Some (st', evs)
    \<and> hbs_link_up st' \<and> hbs_last_hb_ms st' = now \<and> bm_wf (hbs_local_bitmap st')
    \<and> (\<forall>k\<in>set half_keys. key_down (hbs_local_bitmap st') k = key_down (hb_bitmap h) k)
    \<and> evs = concat (map (\<lambda>k. if key_down (hb_bitmap h) k then hb_press_cb cb half k
                              else hb_release_cb cb half k)
          (filter (\<lambda>k. key_down (hb_bitmap h) k \<noteq> key_down (hbs_local_bitmap st) k) half_keys))"
proof -
  have "bm_wf (hb_bitmap h)"
    using heartbeat_pkt.dec_wf [OF assms(2)] by (simp add: wf_heartbeat_def bm_wf_def)
  from reconcile_loop [OF assms(1) this, of cb half] show ?thesis
    by (auto simp: hb_reconcile_def reconcile_ev_def)
qed

lemma hb_reconcile_converges_witness:
  "\<exists>st' evs. hb_reconcile \<lparr>hbs_local_bitmap = [0x80, 0, 0, 0], hbs_last_seq = 0,
      hbs_last_hb_seq = 0, hbs_last_hb_ms = 0, hbs_link_up = True, hbs_seq_valid = False\<rparr> 1
      \<lparr>hb_bitmap = [0x40, 0, 0, 0], hb_batt_dV = 37, hb_link_q = 9, hb_seq = 3\<rparr>
      (Some \<lparr>cb_force_press = True, cb_force_release = True\<rparr>) 5 = Some (st', evs) \<and> hbs_link_up st'"
  using hb_reconcile_converges [of "\<lparr>hbs_local_bitmap = [0x80, 0, 0, 0], hbs_last_seq = 0,
      hbs_last_hb_seq = 0, hbs_last_hb_ms = 0, hbs_link_up = True, hbs_seq_valid = False\<rparr>"
      "[0x20, 0x40, 0, 0, 0, 37, 9, 3]"
      "\<lparr>hb_bitmap = [0x40, 0, 0, 0], hb_batt_dV = 37, hb_link_q = 9, hb_seq = 3\<rparr>" 1
      "Some \<lparr>cb_force_press = True, cb_force_release = True\<rparr>" 5]
  by (auto simp: rf_decode_heartbeat_def pkt_consts bm_wf_def)

text \<open>
  When a half that was up has been silent longer than the timeout, the check releases
  exactly the keys that were down, leaves none down and marks the link lost, so that a second
  check does nothing; before the timeout it changes nothing.
\<close>

theorem hb_timeout_releases_all:
  assumes "bm_wf (hbs_local_bitmap st)"
  shows "\<exists>st' evs. hb_check_timeout st half cb now timeout = Some (st', evs)
    \<and> (if hbs_link_up st \<and> timeout < now - hbs_last_hb_ms st
       then \<not> hbs_link_up st' \<and> (\<forall>k\<in>set half_keys. \<not> key_down (hbs_local_bitmap st') k)
            \<and> evs = concat (map (hb_release_cb cb half) (filter (key_down (hbs_local_bitmap st)) half_keys))
            \<and> (\<forall>later. hb_check_timeout st' half cb later timeout = Some (st', []))
       else st' = st \<and> evs = [])"
  using release_loop [OF assms, of cb half] by (auto simp: hb_check_timeout_def not_le)

lemma hb_timeout_releases_all_witness:
  "\<exists>st' evs. hb_check_timeout \<lparr>hbs_local_bitmap = [0x80, 0, 0, 0x10], hbs_last_seq = 0,
      hbs_last_hb_seq = 0, hbs_last_hb_ms = 100, hbs_link_up = True, hbs_seq_valid = True\<rparr> 0 None
      5000 1000 = Some (st', evs) \<and> \<not> hbs_link_up st'"
  using hb_timeout_releases_all [of "\<lparr>hbs_local_bitmap = [0x80, 0, 0, 0x10], hbs_last_seq = 0,
      hbs_last_hb_seq = 0, hbs_last_hb_ms = 100, hbs_link_up = True, hbs_seq_valid = True\<rparr>"
      0 None 5000 1000]
  by (auto simp: bm_wf_def RF_HALF_BITMAP_BYTES_def)

end
