(* ===== verification/Link_Frame.thy ===== *)
theory Link_Frame
  imports Rf_Packet Crc
begin

text \<open>
  \<open>main/comm/link/link_frame.h\<close>: the framing of the wired link between two halves. The null
  pointer guards of the encoders and of the decoder are the caller's side of the contract: a
  buffer here is a byte list. \<open>link_decode\<close> returns its status together with the consumed
  length and, for a frame, its content.
\<close>

section \<open>Definitions\<close>

definition LINK_SOF :: u8 where "LINK_SOF = 0x4E"
definition LINK_TYPE_MATRIX :: u8 where "LINK_TYPE_MATRIX = 0x01"
definition LINK_TYPE_PROBE :: u8 where "LINK_TYPE_PROBE = 0x02"
definition LINK_TYPE_ACK :: u8 where "LINK_TYPE_ACK = 0x03"
definition LINK_PAYLOAD_CTRL :: nat where "LINK_PAYLOAD_CTRL = 2"
definition LINK_PAYLOAD_MATRIX :: nat where "LINK_PAYLOAD_MATRIX = 2 + RF_HALF_BITMAP_BYTES"
definition LINK_PAYLOAD_MAX :: nat where "LINK_PAYLOAD_MAX = LINK_PAYLOAD_MATRIX"
definition LINK_FRAME_MAX :: nat where "LINK_FRAME_MAX = 2 + LINK_PAYLOAD_MAX + 1"
definition LINK_FRAME_MIN :: nat where "LINK_FRAME_MIN = 2 + LINK_PAYLOAD_CTRL + 1"

lemmas link_consts = LINK_SOF_def LINK_TYPE_MATRIX_def LINK_TYPE_PROBE_def LINK_TYPE_ACK_def
  LINK_PAYLOAD_CTRL_def LINK_PAYLOAD_MATRIX_def LINK_PAYLOAD_MAX_def LINK_FRAME_MAX_def
  LINK_FRAME_MIN_def RF_HALF_BITMAP_BYTES_def

record link_frame =
  lf_type :: u8
  lf_seq :: u8
  lf_bitmap :: bytes

datatype 'f link_decoded = NeedMore | Frame 'f nat | Skip nat

definition link_crc8 :: "bytes \<Rightarrow> u8" where
  "link_crc8 data = ks_crc8 data"

definition link_encode_matrix :: "bytes \<Rightarrow> u8 \<Rightarrow> bytes" where
  "link_encode_matrix bitmap seq =
     (let body = [of_nat LINK_PAYLOAD_MATRIX, LINK_TYPE_MATRIX, seq]
                   @ take RF_HALF_BITMAP_BYTES bitmap
      in LINK_SOF # body @ [link_crc8 body])"

definition link_encode_ctrl :: "u8 \<Rightarrow> u8 \<Rightarrow> bytes" where
  "link_encode_ctrl ty seq =
     (let body = [of_nat LINK_PAYLOAD_CTRL, ty, seq] in LINK_SOF # body @ [link_crc8 body])"

definition link_decode :: "bytes \<Rightarrow> link_frame link_decoded" where
  "link_decode buf =
     (if length buf = 0 then NeedMore
      else if buf ! 0 \<noteq> LINK_SOF then Skip 1
      else if length buf < 2 then NeedMore
      else
        let payload_len = unat (buf ! 1) in
        if payload_len < LINK_PAYLOAD_CTRL \<or> payload_len > LINK_PAYLOAD_MAX then Skip 1
        else
          let total = 2 + payload_len + 1 in
          if length buf < total then NeedMore
          else if link_crc8 (take (1 + payload_len) (drop 1 buf)) \<noteq> buf ! (total - 1) then Skip 1
          else
            let ty = buf ! 2 in
            if ty = LINK_TYPE_MATRIX \<and> payload_len \<noteq> LINK_PAYLOAD_MATRIX then Skip total
            else Frame \<lparr>lf_type = ty, lf_seq = buf ! 3,
                   lf_bitmap = (if ty = LINK_TYPE_MATRIX
                                then take RF_HALF_BITMAP_BYTES (drop 4 buf)
                                else replicate RF_HALF_BITMAP_BYTES 0)\<rparr> total)"

section \<open>The contract of a resynchronising decoder\<close>

text \<open>
  The header's contract: a decided outcome consumes at least one byte and never more than it
  has, does not depend on what follows, and an undecided one needs a bounded number of bytes.
  A receiver that drains its buffer under this contract terminates and is indifferent to how
  the stream was cut into reads.
\<close>

fun drain_fuel :: "nat \<Rightarrow> (bytes \<Rightarrow> 'f link_decoded) \<Rightarrow> bytes \<Rightarrow> 'f list \<times> bytes" where
  "drain_fuel 0 dec buf = ([], buf)"
| "drain_fuel (Suc n) dec buf =
     (case dec buf of
        NeedMore \<Rightarrow> ([], buf)
      | Skip k \<Rightarrow> drain_fuel n dec (drop k buf)
      | Frame f k \<Rightarrow> (let (fs, rest) = drain_fuel n dec (drop k buf) in (f # fs, rest)))"

definition drain :: "(bytes \<Rightarrow> 'f link_decoded) \<Rightarrow> bytes \<Rightarrow> 'f list \<times> bytes" where
  "drain dec buf = drain_fuel (length buf) dec buf"

locale stream_decoder =
  fixes dec :: "bytes \<Rightarrow> 'f link_decoded" and cap :: nat
  assumes progress_skip: "dec buf = Skip k \<Longrightarrow> 0 < k \<and> k \<le> length buf"
    and progress_frame: "dec buf = Frame f k \<Longrightarrow> 0 < k \<and> k \<le> length buf"
    and stable: "dec buf \<noteq> NeedMore \<Longrightarrow> dec (buf @ suf) = dec buf"
    and waits: "dec buf = NeedMore \<Longrightarrow> length buf < cap"
begin

lemma empty_waits: "dec [] = NeedMore"
  using progress_skip [of "[]"] progress_frame [of "[]"] by (cases "dec []") auto

lemma more_fuel:
  assumes "length buf \<le> n"
  shows "drain_fuel n dec buf = drain dec buf"
  using assms
proof (induction "length buf" arbitrary: buf n rule: less_induct)
  case less
  show ?case
  proof (cases buf)
    case Nil
    then show ?thesis by (cases n) (simp_all add: drain_def empty_waits)
  next
    case (Cons b bs)
    with less.prems obtain m where n: "n = Suc m" by (cases n) auto
    show ?thesis
    proof (cases "dec buf")
      case NeedMore
      then show ?thesis using Cons n by (simp add: drain_def)
    next
      case (Skip k)
      from progress_skip [OF this] have k: "0 < k" "k \<le> length buf" by auto
      then have l: "length (drop k buf) < length buf" "length (drop k buf) \<le> length bs"
        "length (drop k buf) \<le> m"
        using Cons n less.prems by auto
      show ?thesis
        using Skip Cons n less.hyps [OF l(1) l(2)] less.hyps [OF l(1) l(3)]
        by (simp add: drain_def)
    next
      case (Frame f k)
      from progress_frame [OF this] have k: "0 < k" "k \<le> length buf" by auto
      then have l: "length (drop k buf) < length buf" "length (drop k buf) \<le> length bs"
        "length (drop k buf) \<le> m"
        using Cons n less.prems by auto
      show ?thesis
        using Frame Cons n less.hyps [OF l(1) l(2)] less.hyps [OF l(1) l(3)]
        by (simp add: drain_def)
    qed
  qed
qed

lemma drain_unfold:
  "drain dec buf =
     (case dec buf of
        NeedMore \<Rightarrow> ([], buf)
      | Skip k \<Rightarrow> drain dec (drop k buf)
      | Frame f k \<Rightarrow> (let (fs, rest) = drain dec (drop k buf) in (f # fs, rest)))"
  using more_fuel [of buf "Suc (length buf)"]
  by (auto simp: more_fuel split: link_decoded.splits)

lemma drain_rest: "dec (snd (drain dec buf)) = NeedMore"
proof (induction "length buf" arbitrary: buf rule: less_induct)
  case less
  show ?case
  proof (cases "dec buf")
    case (Skip k)
    with less [of "drop k buf"] progress_skip [OF Skip] show ?thesis
      by (subst drain_unfold) auto
  next
    case (Frame f k)
    with less [of "drop k buf"] progress_frame [OF Frame] show ?thesis
      by (subst drain_unfold) (auto simp: split_beta)
  qed (subst drain_unfold, simp)
qed

lemma drain_bounded: "length (snd (drain dec buf)) < cap"
  by (rule waits [OF drain_rest])

text \<open>Cutting the stream anywhere changes nothing.\<close>

lemma drain_chunks:
  "drain dec (xs @ ys) =
     (let (fs, rest) = drain dec xs; (gs, rest') = drain dec (rest @ ys) in (fs @ gs, rest'))"
proof (induction "length xs" arbitrary: xs rule: less_induct)
  case less
  show ?case
  proof (cases "dec xs")
    case NeedMore
    then show ?thesis using drain_unfold [of xs] by (simp add: split_beta)
  next
    case (Skip k)
    from progress_skip [OF Skip] have k: "0 < k" "k \<le> length xs" by auto
    have "dec (xs @ ys) = Skip k" using Skip stable [of xs ys] by simp
    then show ?thesis
      using less [of "drop k xs"] k drain_unfold [of "xs @ ys"] drain_unfold [of xs] Skip by simp
  next
    case (Frame f k)
    from progress_frame [OF Frame] have k: "0 < k" "k \<le> length xs" by auto
    have "dec (xs @ ys) = Frame f k" using Frame stable [of xs ys] by simp
    then show ?thesis
      using less [of "drop k xs"] k drain_unfold [of "xs @ ys"] drain_unfold [of xs] Frame
      by (simp add: split_beta)
  qed
qed

text \<open>Bytes that are skipped one by one in front of a frame do not hide it.\<close>

lemma drain_noise:
  assumes "\<And>b bs. b \<in> set noise \<Longrightarrow> dec (b # bs) = Skip 1"
  shows "drain dec (noise @ buf) = drain dec buf"
  using assms
proof (induction noise)
  case (Cons b bs)
  have "drain dec ((b # bs) @ buf) = drain dec (bs @ buf)"
    using Cons.prems [of b] by (subst drain_unfold) simp
  also have "\<dots> = drain dec buf" using Cons.prems by (intro Cons.IH) auto
  finally show ?case .
qed simp

end

section \<open>The link's decoder honours the contract\<close>

lemma link_decode_stable:
  assumes "link_decode buf \<noteq> NeedMore"
  shows "link_decode (buf @ suf) = link_decode buf"
proof (cases "length buf < 2 \<or> buf ! 0 \<noteq> LINK_SOF")
  case True
  then show ?thesis using assms by (cases buf) (auto simp: link_decode_def split: if_splits)
next
  case False
  then obtain b r where buf: "buf = LINK_SOF # b # r" by (cases buf; cases "tl buf") auto
  define n where "n = unat b"
  show ?thesis
  proof (cases "n < LINK_PAYLOAD_CTRL \<or> n > LINK_PAYLOAD_MAX")
    case True
    then show ?thesis by (simp add: link_decode_def buf n_def)
  next
    case False
    then have len: "n < length r" "0 < n" "1 < length r"
      using assms by (auto simp: link_decode_def buf n_def [symmetric] link_consts split: if_splits)
    then have bitmap: "n = LINK_PAYLOAD_MATRIX \<Longrightarrow>
        take RF_HALF_BITMAP_BYTES (drop 2 (r @ suf)) = take RF_HALF_BITMAP_BYTES (drop 2 r)"
      by (simp add: link_consts)
    have "r \<noteq> []" using len by auto
    then show ?thesis
      using len False bitmap by (simp add: link_decode_def buf n_def [symmetric] nth_append Let_def)
  qed
qed

interpretation link: stream_decoder link_decode LINK_FRAME_MAX
proof unfold_locales
  show "0 < k \<and> k \<le> length buf" if "link_decode buf = Skip k" for buf k
    using that by (cases buf) (auto simp: link_decode_def Let_def link_consts split: if_splits)
  show "0 < k \<and> k \<le> length buf" if "link_decode buf = Frame f k" for buf k f
    using that by (cases buf) (auto simp: link_decode_def Let_def link_consts split: if_splits)
  show "link_decode (buf @ suf) = link_decode buf" if "link_decode buf \<noteq> NeedMore" for buf suf
    using that by (rule link_decode_stable)
  show "length buf < LINK_FRAME_MAX" if "link_decode buf = NeedMore" for buf
    using that by (auto simp: link_decode_def Let_def link_consts split: if_splits)
qed

lemma decode_matrix:
  "length bm = RF_HALF_BITMAP_BYTES \<Longrightarrow> link_decode (link_encode_matrix bm seq @ junk)
     = Frame \<lparr>lf_type = LINK_TYPE_MATRIX, lf_seq = seq, lf_bitmap = bm\<rparr> LINK_FRAME_MAX"
  by (auto simp: link_decode_def link_encode_matrix_def Let_def link_consts dest!: len4_cases)

lemma decode_ctrl:
  "ty \<noteq> LINK_TYPE_MATRIX \<Longrightarrow> link_decode (link_encode_ctrl ty seq @ junk)
     = Frame \<lparr>lf_type = ty, lf_seq = seq, lf_bitmap = replicate RF_HALF_BITMAP_BYTES 0\<rparr> LINK_FRAME_MIN"
  by (auto simp: link_decode_def link_encode_ctrl_def Let_def link_consts)

lemma skip_not_sof: "b \<noteq> LINK_SOF \<Longrightarrow> link_decode (b # bs) = Skip 1"
  by (simp add: link_decode_def)

section \<open>Properties\<close>

text \<open>
  The receiver's view of the byte stream does not depend on how the UART cut it: decoding
  a chunk, keeping the undecided rest and appending the next chunk yields the frames and the
  rest of the whole stream, and the kept rest is always shorter than one frame.
\<close>

theorem link_stream_chunks:
  "drain link_decode (xs @ ys) =
     (let (fs, rest) = drain link_decode xs; (gs, rest') = drain link_decode (rest @ ys)
      in (fs @ gs, rest'))
   \<and> length (snd (drain link_decode xs)) < LINK_FRAME_MAX"
  by (intro conjI link.drain_chunks link.drain_bounded)

text \<open>
  The decoder resynchronises: after any noise without a start byte, a matrix frame followed
  by a control frame is recovered exactly, with nothing left over.
\<close>

theorem link_resync:
  assumes "LINK_SOF \<notin> set noise" "length bm = RF_HALF_BITMAP_BYTES" "ty \<noteq> LINK_TYPE_MATRIX"
  shows "drain link_decode (noise @ link_encode_matrix bm s @ link_encode_ctrl ty t)
    = ([\<lparr>lf_type = LINK_TYPE_MATRIX, lf_seq = s, lf_bitmap = bm\<rparr>,
        \<lparr>lf_type = ty, lf_seq = t, lf_bitmap = replicate RF_HALF_BITMAP_BYTES 0\<rparr>], [])"
proof -
  have len: "length (link_encode_matrix bm s) = LINK_FRAME_MAX"
    "length (link_encode_ctrl ty t) = LINK_FRAME_MIN"
    using assms(2) by (simp_all add: link_encode_matrix_def link_encode_ctrl_def Let_def link_consts)
  have "drain link_decode (noise @ link_encode_matrix bm s @ link_encode_ctrl ty t)
      = drain link_decode (link_encode_matrix bm s @ link_encode_ctrl ty t)"
    using assms(1) skip_not_sof by (intro link.drain_noise) metis
  moreover have "drain link_decode (link_encode_ctrl ty t)
      = ([\<lparr>lf_type = ty, lf_seq = t, lf_bitmap = replicate RF_HALF_BITMAP_BYTES 0\<rparr>], [])"
    using decode_ctrl [OF assms(3), of t "[]"] len
    by (subst link.drain_unfold) (simp add: drain_def)
  ultimately show ?thesis
    using decode_matrix [OF assms(2), of s "link_encode_ctrl ty t"] len
    by (subst (asm) link.drain_unfold [of "link_encode_matrix bm s @ _"]) simp
qed

lemma link_resync_witness:
  "drain link_decode ([0x00, 0xFF] @ link_encode_matrix [1, 2, 3, 4] 7 @ link_encode_ctrl LINK_TYPE_ACK 8)
    = ([\<lparr>lf_type = LINK_TYPE_MATRIX, lf_seq = 7, lf_bitmap = [1, 2, 3, 4]\<rparr>,
        \<lparr>lf_type = LINK_TYPE_ACK, lf_seq = 8, lf_bitmap = replicate RF_HALF_BITMAP_BYTES 0\<rparr>], [])"
  using link_resync [of "[0x00, 0xFF]" "[1, 2, 3, 4]" LINK_TYPE_ACK 7 8]
  by (simp add: LINK_SOF_def LINK_TYPE_ACK_def LINK_TYPE_MATRIX_def RF_HALF_BITMAP_BYTES_def)

text \<open>
  A single corrupted byte in the type, sequence, bitmap or checksum of a matrix frame is
  always rejected, and the decoder gives up only the start byte so a true frame may follow.
\<close>

theorem link_corruption_detected:
  assumes "length bm = RF_HALF_BITMAP_BYTES" "2 \<le> i" "i < LINK_FRAME_MAX"
    "b \<noteq> link_encode_matrix bm seq ! i"
  shows "link_decode ((link_encode_matrix bm seq)[i := b] @ junk) = Skip 1"
proof -
  obtain m0 m1 m2 m3 where bm: "bm = [m0, m1, m2, m3]"
    using assms(1) len4_cases [of bm] by (auto simp: RF_HALF_BITMAP_BYTES_def)
  define body where "body = [6, LINK_TYPE_MATRIX, seq, m0, m1, m2, m3]"
  have body_len: "length body = 7" "body ! 0 = 6" by (simp_all add: body_def)
  have enc: "link_encode_matrix bm seq = LINK_SOF # body @ [ks_crc8 body]"
    by (simp add: link_encode_matrix_def Let_def link_consts bm body_def link_crc8_def)
  have dec: "link_decode (LINK_SOF # body' @ [c] @ junk) = Skip 1"
    if "length body' = 7" "body' ! 0 = 6" "ks_crc8 body' \<noteq> c" for body' c
    using that by (simp add: link_decode_def Let_def link_consts link_crc8_def nth_append)
  show ?thesis
  proof (cases "i = LINK_FRAME_MAX - 1")
    case True
    with assms(4) have "ks_crc8 body \<noteq> b" by (auto simp: enc link_consts body_def)
    with True dec [of body b] show ?thesis
      by (simp add: enc list_update_append link_consts body_def)
  next
    case False
    then obtain j where j: "i = Suc j" "0 < j" "j < length body"
      using assms(2,3) by (cases i) (auto simp: link_consts body_def)
    then have ne: "b \<noteq> body ! j" using assms(4) by (simp add: enc nth_append)
    have "ks_crc8 (body[j := b]) \<noteq> ks_crc8 body" using ne j(3) by (simp add: ks_crc8_one_byte)
    then show ?thesis
      using j dec [of "body[j := b]" "ks_crc8 body"] by (simp add: enc list_update_append body_len)
  qed
qed

lemma link_corruption_detected_witness:
  "link_decode ((link_encode_matrix [1, 2, 3, 4] 7)[5 := 0x42] @ [9]) = Skip 1"
  using link_corruption_detected [of "[1, 2, 3, 4]" 5 "0x42" 7 "[9]"]
  by (simp add: link_encode_matrix_def Let_def link_consts)

end
