(* ===== verification/Link_Handshake.thy ===== *)
theory Link_Handshake
  imports Prelude
begin

text \<open>
  \<open>main/comm/link/link_handshake.h\<close>: the handshake that decides when a half closes its 5 V
  load switch towards the other half. \<open>link_hs_step\<close> is the code's function; the runs of the
  machine are an inductive step relation over it. A state outside the C enumeration is
  \<open>LINK_HS_OTHER\<close> (the default branch of the switch).
\<close>

section \<open>Definitions\<close>

definition LINK_HS_PROBE_TIMEOUT_MS :: u32 where "LINK_HS_PROBE_TIMEOUT_MS = 200"
definition LINK_HS_PEER_TIMEOUT_MS :: u32 where "LINK_HS_PEER_TIMEOUT_MS = 500"
definition LINK_HS_REPROBE_INTERVAL_MS :: u32 where "LINK_HS_REPROBE_INTERVAL_MS = 300"

datatype link_hs_state = LINK_HS_IDLE | LINK_HS_PROBING | LINK_HS_UP | LINK_HS_OTHER

datatype link_hs_event = LINK_HS_EV_TICK | LINK_HS_EV_USB_PRESENT | LINK_HS_EV_USB_GONE
  | LINK_HS_EV_PEER_ACK | LINK_HS_EV_PEER_FRAME | LINK_HS_EV_PROBED

datatype link_hs_action = LINK_HS_ACT_NONE | LINK_HS_ACT_SEND_PROBE | LINK_HS_ACT_ENABLE_5V
  | LINK_HS_ACT_DISABLE_5V | LINK_HS_ACT_ACK_AND_ENABLE_5V

record link_hs =
  lh_state :: link_hs_state
  lh_since_ms :: u32
  lh_last_peer_ms :: u32
  lh_usb :: bool
  lh_en_5v :: bool

definition link_hs_init :: link_hs where
  "link_hs_init = \<lparr>lh_state = LINK_HS_IDLE, lh_since_ms = 0, lh_last_peer_ms = 0,
     lh_usb = False, lh_en_5v = False\<rparr>"

definition link_hs_5v_enabled :: "link_hs \<Rightarrow> bool" where
  "link_hs_5v_enabled h = lh_en_5v h"

definition hs_usb_gone :: "link_hs \<Rightarrow> u32 \<Rightarrow> link_hs \<times> link_hs_action" where
  "hs_usb_gone h now =
     (let h = h\<lparr>lh_usb := False\<rparr> in
      if lh_en_5v h
      then (h\<lparr>lh_en_5v := False, lh_state := LINK_HS_IDLE, lh_since_ms := now\<rparr>, LINK_HS_ACT_DISABLE_5V)
      else (h\<lparr>lh_state := LINK_HS_IDLE, lh_since_ms := now\<rparr>, LINK_HS_ACT_NONE))"

definition hs_note :: "link_hs \<Rightarrow> link_hs_event \<Rightarrow> u32 \<Rightarrow> link_hs" where
  "hs_note h ev now =
     (let h = (if ev = LINK_HS_EV_USB_PRESENT then h\<lparr>lh_usb := True\<rparr> else h)
      in if ev = LINK_HS_EV_PEER_ACK \<or> ev = LINK_HS_EV_PEER_FRAME \<or> ev = LINK_HS_EV_PROBED
         then h\<lparr>lh_last_peer_ms := now\<rparr> else h)"

definition hs_switch :: "link_hs \<Rightarrow> link_hs_event \<Rightarrow> u32 \<Rightarrow> link_hs \<times> link_hs_action" where
  "hs_switch h ev now =
     (case lh_state h of
        LINK_HS_IDLE \<Rightarrow>
          if ev = LINK_HS_EV_USB_PRESENT
          then (h\<lparr>lh_state := LINK_HS_PROBING, lh_since_ms := now\<rparr>, LINK_HS_ACT_SEND_PROBE)
          else if ev = LINK_HS_EV_TICK \<and> lh_usb h
                  \<and> now - lh_since_ms h \<ge> LINK_HS_REPROBE_INTERVAL_MS
          then (h\<lparr>lh_state := LINK_HS_PROBING, lh_since_ms := now\<rparr>, LINK_HS_ACT_SEND_PROBE)
          else (h, LINK_HS_ACT_NONE)
      | LINK_HS_PROBING \<Rightarrow>
          if ev = LINK_HS_EV_PEER_ACK
          then (h\<lparr>lh_state := LINK_HS_UP, lh_since_ms := now, lh_en_5v := True\<rparr>, LINK_HS_ACT_ENABLE_5V)
          else if now - lh_since_ms h \<ge> LINK_HS_PROBE_TIMEOUT_MS
          then (h\<lparr>lh_state := LINK_HS_IDLE, lh_since_ms := now\<rparr>, LINK_HS_ACT_NONE)
          else (h, LINK_HS_ACT_NONE)
      | LINK_HS_UP \<Rightarrow>
          if now - lh_last_peer_ms h \<ge> LINK_HS_PEER_TIMEOUT_MS
          then (h\<lparr>lh_en_5v := False, lh_state := LINK_HS_IDLE, lh_since_ms := now\<rparr>,
                LINK_HS_ACT_DISABLE_5V)
          else (h, LINK_HS_ACT_NONE)
      | LINK_HS_OTHER \<Rightarrow>
          (h\<lparr>lh_state := LINK_HS_IDLE, lh_en_5v := False\<rparr>, LINK_HS_ACT_NONE))"

definition link_hs_step :: "link_hs \<Rightarrow> link_hs_event \<Rightarrow> u32 \<Rightarrow> link_hs \<times> link_hs_action" where
  "link_hs_step h ev now =
     (if ev = LINK_HS_EV_USB_GONE then hs_usb_gone h now
      else
        let h = hs_note h ev now in
        if ev = LINK_HS_EV_PROBED
        then (h\<lparr>lh_state := LINK_HS_UP, lh_since_ms := now, lh_en_5v := True\<rparr>,
              LINK_HS_ACT_ACK_AND_ENABLE_5V)
        else hs_switch h ev now)"

text \<open>What the caller does with an action on the load switch pin.\<close>

definition hs_pin :: "link_hs_action \<Rightarrow> bool \<Rightarrow> bool" where
  "hs_pin a pin =
     (case a of LINK_HS_ACT_ENABLE_5V \<Rightarrow> True | LINK_HS_ACT_ACK_AND_ENABLE_5V \<Rightarrow> True
      | LINK_HS_ACT_DISABLE_5V \<Rightarrow> False | _ \<Rightarrow> pin)"

section \<open>Runs\<close>

type_synonym hs_input = "link_hs_event \<times> u32"

inductive hs_run :: "link_hs \<Rightarrow> bool \<Rightarrow> hs_input list \<Rightarrow> link_hs \<Rightarrow> bool \<Rightarrow> bool" where
  hs_start: "hs_run h pin [] h pin"
| hs_next: "hs_run h pin es h' pin' \<Longrightarrow> link_hs_step h' ev t = (h'', a)
     \<Longrightarrow> hs_run h pin (es @ [(ev, t)]) h'' (hs_pin a pin')"

inductive_cases hs_run_snocE: "hs_run h pin (es @ [e]) h'' pin''"

lemmas hs_defs = link_hs_step_def hs_usb_gone_def hs_note_def hs_switch_def Let_def

definition hs_ok :: "link_hs \<Rightarrow> bool" where
  "hs_ok h \<longleftrightarrow> (lh_en_5v h \<longleftrightarrow> lh_state h = LINK_HS_UP) \<and> lh_state h \<noteq> LINK_HS_OTHER"

lemma hs_ok_init [simp]: "hs_ok link_hs_init"
  by (simp add: hs_ok_def link_hs_init_def)

lemma hs_step_ok:
  assumes "hs_ok h" "link_hs_step h ev t = (h', a)"
  shows "hs_ok h' \<and> hs_pin a (lh_en_5v h) = lh_en_5v h'"
  using assms
  by (cases "lh_state h") (auto simp: hs_ok_def hs_defs hs_pin_def split: if_splits)

lemma hs_run_ok:
  "hs_run h pin es h' pin' \<Longrightarrow> hs_ok h \<Longrightarrow> pin = lh_en_5v h \<Longrightarrow> hs_ok h' \<and> pin' = lh_en_5v h'"
  by (induction rule: hs_run.induct) (auto dest: hs_step_ok)

text \<open>The exchanges that justify 5 V.\<close>

definition hs_verified :: "link_hs \<Rightarrow> link_hs_event \<Rightarrow> bool" where
  "hs_verified h ev \<longleftrightarrow> ev = LINK_HS_EV_PROBED \<or> ev = LINK_HS_EV_PEER_ACK \<and> lh_state h = LINK_HS_PROBING"

lemma hs_step_raises:
  "link_hs_step h ev t = (h', a) \<Longrightarrow> lh_en_5v h' \<Longrightarrow>
     ev \<noteq> LINK_HS_EV_USB_GONE \<and> (lh_en_5v h \<or> hs_verified h ev)"
  by (cases "lh_state h") (auto simp: hs_defs hs_verified_def split: if_splits)

lemma hs_run_exchange:
  "hs_run h pin es h' pin' \<Longrightarrow> \<not> lh_en_5v h \<Longrightarrow> lh_en_5v h' \<Longrightarrow>
     \<exists>pre ev t post h1 pin1. es = pre @ (ev, t) # post \<and> hs_run h pin pre h1 pin1 \<and> hs_verified h1 ev
       \<and> LINK_HS_EV_USB_GONE \<notin> fst ` set post"
proof (induction rule: hs_run.induct)
  case (hs_next h pin es h' pin' ev t h'' a)
  from hs_step_raises [OF hs_next.hyps(2) hs_next.prems(2)]
  have ev: "ev \<noteq> LINK_HS_EV_USB_GONE" "lh_en_5v h' \<or> hs_verified h' ev" by auto
  show ?case
  proof (cases "hs_verified h' ev")
    case True
    then show ?thesis
      using hs_next.hyps(1)
      by (intro exI [of _ es] exI [of _ ev] exI [of _ t] exI [of _ "[]"] exI [of _ h'] exI [of _ pin']) auto
  next
    case False
    with hs_next.IH [OF hs_next.prems(1)] ev obtain pre ev1 t1 post h1 pin1 where
      "es = pre @ (ev1, t1) # post" "hs_run h pin pre h1 pin1" "hs_verified h1 ev1"
      "LINK_HS_EV_USB_GONE \<notin> fst ` set post" by blast
    then show ?thesis
      using ev by (intro exI [of _ pre] exI [of _ ev1] exI [of _ t1] exI [of _ "post @ [(ev, t)]"]) auto
  qed
qed simp

lemma hs_run_total: "\<exists>h' pin'. hs_run h pin es h' pin'"
proof (induction es rule: rev_induct)
  case (snoc e es)
  then obtain h1 p1 where "hs_run h pin es h1 p1" by blast
  then show ?case
    using hs_run.hs_next [of h pin es h1 p1 "fst e" "snd e"] by (cases e) (metis fst_conv prod.exhaust snd_conv)
qed (blast intro: hs_start)

section \<open>Properties\<close>

text \<open>
  C37: Safety of the load switch: whatever happens on the link, if 5 V is on after some inputs
  then a verified exchange happened (the peer probed us, or it acknowledged a probe we were
  waiting on) and the host cable was not lost since; and the pin driven by the returned actions
  is always the commanded state.
\<close>

theorem hs_5v_only_after_exchange:
  assumes "hs_run link_hs_init False es h pin"
  shows "pin = link_hs_5v_enabled h
    \<and> (lh_state h = LINK_HS_UP \<longleftrightarrow> link_hs_5v_enabled h)
    \<and> (link_hs_5v_enabled h \<longrightarrow>
        (\<exists>pre ev t post h1 pin1. es = pre @ (ev, t) # post \<and> hs_run link_hs_init False pre h1 pin1
           \<and> (ev = LINK_HS_EV_PROBED \<or> ev = LINK_HS_EV_PEER_ACK \<and> lh_state h1 = LINK_HS_PROBING)
           \<and> LINK_HS_EV_USB_GONE \<notin> fst ` set post))"
  using hs_run_ok [OF assms] hs_run_exchange [OF assms]
  by (simp add: link_hs_5v_enabled_def hs_ok_def hs_verified_def link_hs_init_def)

lemma hs_5v_only_after_exchange_witness:
  "\<exists>pre ev t post. [(LINK_HS_EV_USB_PRESENT, 0 :: u32), (LINK_HS_EV_PEER_ACK, 50)] = pre @ (ev, t) # post
     \<and> (ev = LINK_HS_EV_PROBED \<or> ev = LINK_HS_EV_PEER_ACK)"
proof -
  define h1 where "h1 = fst (link_hs_step link_hs_init LINK_HS_EV_USB_PRESENT 0)"
  define h2 where "h2 = fst (link_hs_step h1 LINK_HS_EV_PEER_ACK 50)"
  have "hs_run link_hs_init False ([] @ [(LINK_HS_EV_USB_PRESENT, 0)]) h1
      (hs_pin LINK_HS_ACT_SEND_PROBE False)"
    by (rule hs_next [OF hs_start]) (simp add: h1_def hs_defs link_hs_init_def)
  then have "hs_run link_hs_init False (([] @ [(LINK_HS_EV_USB_PRESENT, 0)]) @ [(LINK_HS_EV_PEER_ACK, 50)])
      h2 (hs_pin LINK_HS_ACT_ENABLE_5V (hs_pin LINK_HS_ACT_SEND_PROBE False))"
    by (rule hs_next) (simp add: h2_def h1_def hs_defs link_hs_init_def)
  from hs_5v_only_after_exchange [OF this]
  show ?thesis by (auto simp: link_hs_5v_enabled_def h2_def h1_def hs_defs link_hs_init_def)
qed

text \<open>
  The switch opens again: losing the host cable always ends with 5 V off and the machine
  idle, and an established link on which the peer has been silent for the tolerated time is cut
  by any input that is not a sign of life.
\<close>

theorem hs_5v_cut:
  "(\<not> link_hs_5v_enabled (fst (link_hs_step h LINK_HS_EV_USB_GONE t))
      \<and> lh_state (fst (link_hs_step h LINK_HS_EV_USB_GONE t)) = LINK_HS_IDLE)
   \<and> (lh_state h = LINK_HS_UP \<longrightarrow> t - lh_last_peer_ms h \<ge> LINK_HS_PEER_TIMEOUT_MS \<longrightarrow>
      ev \<in> {LINK_HS_EV_TICK, LINK_HS_EV_USB_PRESENT} \<longrightarrow>
      snd (link_hs_step h ev t) = LINK_HS_ACT_DISABLE_5V
      \<and> \<not> link_hs_5v_enabled (fst (link_hs_step h ev t)))"
  by (auto simp: hs_defs link_hs_5v_enabled_def)

lemma hs_5v_cut_witness:
  "snd (link_hs_step \<lparr>lh_state = LINK_HS_UP, lh_since_ms = 0, lh_last_peer_ms = 100, lh_usb = True,
      lh_en_5v = True\<rparr> LINK_HS_EV_TICK 600) = LINK_HS_ACT_DISABLE_5V"
  using hs_5v_cut [of "\<lparr>lh_state = LINK_HS_UP, lh_since_ms = 0, lh_last_peer_ms = 100, lh_usb = True,
      lh_en_5v = True\<rparr>" 600 LINK_HS_EV_TICK]
  by (simp add: LINK_HS_PEER_TIMEOUT_MS_def)

text \<open>
  A lost probe never deadlocks the link: while the host cable stays, a probing half gives up
  at the probe timeout and probes again at the next tick after the reprobe interval, without
  ever raising 5 V on the way.
\<close>

theorem hs_reprobes:
  assumes "lh_state h = LINK_HS_PROBING" "lh_usb h" "\<not> lh_en_5v h"
    "t - lh_since_ms h \<ge> LINK_HS_PROBE_TIMEOUT_MS" "t' - t \<ge> LINK_HS_REPROBE_INTERVAL_MS"
  shows "\<exists>h1 h2. link_hs_step h LINK_HS_EV_TICK t = (h1, LINK_HS_ACT_NONE) \<and> lh_state h1 = LINK_HS_IDLE
    \<and> link_hs_step h1 LINK_HS_EV_TICK t' = (h2, LINK_HS_ACT_SEND_PROBE)
    \<and> lh_state h2 = LINK_HS_PROBING \<and> lh_usb h2 \<and> \<not> lh_en_5v h1 \<and> \<not> lh_en_5v h2"
  using assms by (simp add: hs_defs)

lemma hs_reprobes_witness:
  "\<exists>h1 h2. link_hs_step (fst (link_hs_step link_hs_init LINK_HS_EV_USB_PRESENT 0)) LINK_HS_EV_TICK 200
      = (h1, LINK_HS_ACT_NONE)
    \<and> link_hs_step h1 LINK_HS_EV_TICK 500 = (h2, LINK_HS_ACT_SEND_PROBE)"
  using hs_reprobes [of "fst (link_hs_step link_hs_init LINK_HS_EV_USB_PRESENT 0)" 200 500]
  by (auto simp: hs_defs link_hs_init_def LINK_HS_PROBE_TIMEOUT_MS_def LINK_HS_REPROBE_INTERVAL_MS_def)

end
