(* ===== verification/Nvs.thy ===== *)
theory Nvs
  imports Prelude
begin

text \<open>
  \<open>main/sys/nvs_utils.c\<close>: a blob saved with its version in the non-volatile storage. The
  ESP-IDF calls below it are parameters: \<open>rc n\<close> is what the \<open>n\<close>-th call of the environment
  returns. A failing call leaves it open whether the pending blob reached the flash, which is
  the flag of \<open>NvsErr\<close>. Call numbers are threaded as a counter.
\<close>

datatype nvs_rc = NvsOk | NvsErr bool

definition nvs_kept :: "bool \<Rightarrow> 'b option \<Rightarrow> 'b \<Rightarrow> 'b option" where
  "nvs_kept kept old_blob blob = (if kept then Some blob else old_blob)"

definition nvs_save_blob_with_total ::
  "(nat \<Rightarrow> nvs_rc) \<Rightarrow> nat \<Rightarrow> 'b option \<Rightarrow> 'b \<Rightarrow> 'b option \<times> bool \<times> nat" where
  "nvs_save_blob_with_total rc io old_blob blob =
     (case rc io of
        NvsErr _ \<Rightarrow> (old_blob, False, io + 1)
      | NvsOk \<Rightarrow>
      case rc (io + 1) of
        NvsErr kept \<Rightarrow> (nvs_kept kept old_blob blob, False, io + 2)
      | NvsOk \<Rightarrow>
      case rc (io + 2) of
        NvsErr kept \<Rightarrow> (nvs_kept kept old_blob blob, False, io + 3)
      | NvsOk \<Rightarrow>
      case rc (io + 3) of
        NvsErr kept \<Rightarrow> (nvs_kept kept old_blob blob, False, io + 4)
      | NvsOk \<Rightarrow> (Some blob, True, io + 4))"

text \<open>A load whose opening fails, or that finds no blob of the expected size, yields \<open>None\<close>.\<close>

definition nvs_load_blob_with_total :: "(nat \<Rightarrow> nvs_rc) \<Rightarrow> nat \<Rightarrow> 'b option \<Rightarrow> 'b option" where
  "nvs_load_blob_with_total rc io stored =
     (case rc io of
        NvsErr _ \<Rightarrow> None
      | NvsOk \<Rightarrow> (case rc (io + 1) of NvsErr _ \<Rightarrow> None | NvsOk \<Rightarrow> stored))"

lemma nvs_save_ok:
  "nvs_save_blob_with_total rc io old_blob blob = (st, True, io') \<Longrightarrow> st = Some blob"
  by (auto simp: nvs_save_blob_with_total_def split: nvs_rc.splits)

lemma nvs_save_cases:
  "nvs_save_blob_with_total rc io old_blob blob = (st, ok, io') \<Longrightarrow>
     io < io' \<and> (st = Some blob \<or> st = old_blob \<and> \<not> ok)"
  by (auto simp: nvs_save_blob_with_total_def nvs_kept_def split: nvs_rc.splits if_splits)

lemma nvs_save_all_ok:
  "(\<And>n. rc n = NvsOk) \<Longrightarrow> nvs_save_blob_with_total rc io old_blob blob = (Some blob, True, io + 4)"
  by (simp add: nvs_save_blob_with_total_def)

lemma nvs_load_stored:
  "nvs_load_blob_with_total rc io stored = Some b \<Longrightarrow> stored = Some b"
  by (auto simp: nvs_load_blob_with_total_def split: nvs_rc.splits)

section \<open>A namespace of the flash\<close>

text \<open>A map from keys to typed values.\<close>

datatype nvs_val = NvU8 u8 | NvU16 u16 | NvU32 u32 | NvBlob bytes

type_synonym kv = "string \<Rightarrow> nvs_val option"

text \<open>A writing session: values set one after the other, then committed; the first call that
  fails ends it.\<close>

fun nvs_puts :: "(nat \<Rightarrow> nvs_rc) \<Rightarrow> nat \<Rightarrow> (string \<times> nvs_val) list \<Rightarrow> kv \<Rightarrow> kv \<Rightarrow> kv \<times> bool \<times> nat" where
  "nvs_puts rc io [] flash cur =
     (case rc io of NvsOk \<Rightarrow> (cur, True, io + 1)
      | NvsErr kept \<Rightarrow> (if kept then cur else flash, False, io + 1))"
| "nvs_puts rc io ((k, v) # ws) flash cur =
     (case rc io of NvsOk \<Rightarrow> nvs_puts rc (io + 1) ws flash (cur(k \<mapsto> v))
      | NvsErr kept \<Rightarrow> (if kept then cur else flash, False, io + 1))"

definition nvs_session :: "(nat \<Rightarrow> nvs_rc) \<Rightarrow> nat \<Rightarrow> (string \<times> nvs_val) list \<Rightarrow> kv \<Rightarrow> kv \<times> bool \<times> nat" where
  "nvs_session rc io ws flash =
     (case rc io of NvsErr _ \<Rightarrow> (flash, False, io + 1) | NvsOk \<Rightarrow> nvs_puts rc (io + 1) ws flash flash)"

definition get_u8 :: "(nat \<Rightarrow> nvs_rc) \<Rightarrow> nat \<Rightarrow> string \<Rightarrow> kv \<Rightarrow> u8 option" where
  "get_u8 rc io k flash =
     (case (rc io, flash k) of (NvsOk, Some (NvU8 b)) \<Rightarrow> Some b | _ \<Rightarrow> None)"

definition get_u16 :: "(nat \<Rightarrow> nvs_rc) \<Rightarrow> nat \<Rightarrow> string \<Rightarrow> kv \<Rightarrow> u16 option" where
  "get_u16 rc io k flash =
     (case (rc io, flash k) of (NvsOk, Some (NvU16 w)) \<Rightarrow> Some w | _ \<Rightarrow> None)"

definition get_u32 :: "(nat \<Rightarrow> nvs_rc) \<Rightarrow> nat \<Rightarrow> string \<Rightarrow> kv \<Rightarrow> u32 option" where
  "get_u32 rc io k flash =
     (case (rc io, flash k) of (NvsOk, Some (NvU32 w)) \<Rightarrow> Some w | _ \<Rightarrow> None)"

text \<open>The callers compare the size of a blob with that of their buffer.\<close>

definition get_blob :: "(nat \<Rightarrow> nvs_rc) \<Rightarrow> nat \<Rightarrow> string \<Rightarrow> kv \<Rightarrow> bytes option" where
  "get_blob rc io k flash =
     (case (rc io, flash k) of (NvsOk, Some (NvBlob b)) \<Rightarrow> Some b | _ \<Rightarrow> None)"

definition nvs_erase :: "nvs_rc \<Rightarrow> string \<Rightarrow> kv \<Rightarrow> kv" where
  "nvs_erase r k cur = (if r = NvsOk then cur(k := None) else cur)"

end
