(* ===== verification/Apdu.thy ===== *)
theory Apdu
  imports Prelude
begin

unbundle bit_operations_syntax

text \<open>
  \<open>main/security/apdu.c\<close>: the ISO 7816-4 command parser of the security key. The parsed
  command points into the input buffer: \<open>ap_data\<close> is \<open>None\<close> for the null pointer and the
  \<open>lc\<close> bytes it points to otherwise. The null guards of the function are the caller's side.
\<close>

record apdu =
  ap_cla :: u8
  ap_ins :: u8
  ap_p1 :: u8
  ap_p2 :: u8
  ap_lc :: u16
  ap_data :: "bytes option"
  ap_le :: u32
  ap_le_present :: bool

definition apdu_header :: "bytes \<Rightarrow> apdu" where
  "apdu_header buf = \<lparr>ap_cla = buf ! 0, ap_ins = buf ! 1, ap_p1 = buf ! 2, ap_p2 = buf ! 3,
     ap_lc = 0, ap_data = None, ap_le = 0, ap_le_present = False\<rparr>"

definition apdu_parse_ext :: "bytes \<Rightarrow> apdu option" where
  "apdu_parse_ext buf =
     (let a = apdu_header buf; ext = be16 (buf ! 5) (buf ! 6) in
      if length buf = 7 then Some (a\<lparr>ap_le := ucast ext, ap_le_present := True\<rparr>)
      else
        let data_end = 7 + unat ext in
        if length buf < data_end then None
        else
          let a = a\<lparr>ap_lc := ext, ap_data := Some (take (unat ext) (drop 7 buf))\<rparr> in
          if length buf = data_end then Some a
          else if length buf = data_end + 2
          then Some (a\<lparr>ap_le := ucast (be16 (buf ! data_end) (buf ! (data_end + 1))),
                       ap_le_present := True\<rparr>)
          else None)"

definition apdu_parse_short :: "bytes \<Rightarrow> apdu option" where
  "apdu_parse_short buf =
     (let a = apdu_header buf; lc = buf ! 4; data_end = 5 + unat lc in
      if length buf < data_end then None
      else
        let a = a\<lparr>ap_lc := ucast lc, ap_data := Some (take (unat lc) (drop 5 buf))\<rparr> in
        if length buf = data_end then Some a
        else if length buf = data_end + 1
        then Some (a\<lparr>ap_le := ucast (buf ! data_end), ap_le_present := True\<rparr>)
        else None)"

definition apdu_parse :: "bytes \<Rightarrow> apdu option" where
  "apdu_parse buf =
     (if length buf < 4 then None
      else if length buf = 4 then Some (apdu_header buf)
      else if buf ! 4 = 0 \<and> length buf \<ge> 7 then apdu_parse_ext buf
      else if length buf = 5
      then Some ((apdu_header buf)\<lparr>ap_le := ucast (buf ! 4), ap_le_present := True\<rparr>)
      else if buf ! 4 = 0 then None
      else apdu_parse_short buf)"

lemmas apdu_defs = apdu_parse_def apdu_parse_ext_def apdu_parse_short_def apdu_header_def Let_def

text \<open>The data pointer and its length agree, and the data lies inside the buffer.\<close>

definition apdu_wf :: "apdu \<Rightarrow> bool" where
  "apdu_wf a \<longleftrightarrow> (case ap_data a of None \<Rightarrow> ap_lc a = 0 | Some d \<Rightarrow> length d = unat (ap_lc a))"

lemma unat_ucast_8_16 [simp]: "unat (ucast b :: u16) = unat b" for b :: u8
proof -
  have "unat b < 2 ^ 8" using unsigned_less [of b] by simp
  then have "take_bit 16 (unat b) = unat b" by (intro take_bit_nat_eq_self) simp
  then show ?thesis by (simp add: unsigned_ucast_eq)
qed

lemma apdu_parse_wf: "apdu_parse buf = Some a \<Longrightarrow> apdu_wf a"
  by (auto simp: apdu_defs apdu_wf_def split: if_splits)

lemma apdu_parse_inside:
  "apdu_parse buf = Some a \<Longrightarrow> ap_data a = Some d \<Longrightarrow>
     5 + length d \<le> length buf \<and> d = take (length d) (drop 5 buf)
     \<or> 7 + length d \<le> length buf \<and> d = take (length d) (drop 7 buf)"
  by (auto simp: apdu_defs split: if_splits)

section \<open>Properties\<close>

definition be16_bytes :: "nat \<Rightarrow> bytes" where
  "be16_bytes n = [hi8 (of_nat n), lo8 (of_nat n)]"

text \<open>
  The parser accepts every command a reader can build in the seven ISO 7816-4 forms and
  recovers its header, data and expected length: header only, short Le, short Lc with and
  without Le, extended Le, extended Lc with and without Le.
\<close>

theorem apdu_parse_complete:
  fixes cla ins p1 p2 :: u8
  defines "h \<equiv> [cla, ins, p1, p2]"
  defines "r \<equiv> \<lambda>lc dat le lep. Some \<lparr>ap_cla = cla, ap_ins = ins, ap_p1 = p1, ap_p2 = p2, ap_lc = lc,
      ap_data = dat, ap_le = le, ap_le_present = lep\<rparr>"
  shows "apdu_parse h = r 0 None 0 False
    \<and> apdu_parse (h @ [b]) = r 0 None (ucast b) True
    \<and> (0 < length d \<longrightarrow> length d < 256 \<longrightarrow>
        apdu_parse (h @ of_nat (length d) # d) = r (of_nat (length d)) (Some d) 0 False
        \<and> apdu_parse (h @ of_nat (length d) # d @ [b]) = r (of_nat (length d)) (Some d) (ucast b) True)
    \<and> apdu_parse (h @ [0, hi8 w, lo8 w]) = r 0 None (ucast w) True
    \<and> (0 < length e \<longrightarrow> length e < 65536 \<longrightarrow>
        apdu_parse (h @ 0 # be16_bytes (length e) @ e) = r (of_nat (length e)) (Some e) 0 False
        \<and> apdu_parse (h @ 0 # be16_bytes (length e) @ e @ [hi8 w, lo8 w])
            = r (of_nat (length e)) (Some e) (ucast w) True)"
proof (intro conjI impI)
  show "apdu_parse h = r 0 None 0 False" "apdu_parse (h @ [b]) = r 0 None (ucast b) True"
    "apdu_parse (h @ [0, hi8 w, lo8 w]) = r 0 None (ucast w) True"
    by (simp_all add: apdu_defs h_def r_def)
  assume d: "0 < length d" "length d < 256"
  then have u: "unat (of_nat (length d) :: u8) = length d" by (simp add: unat_of_nat)
  with d have nz: "(of_nat (length d) :: u8) \<noteq> 0" by (metis less_nat_zero_code unat_0)
  have uc: "(ucast (of_nat (length d) :: u8) :: u16) = of_nat (length d)"
    using d by (simp add: unsigned_of_nat take_bit_nat_eq_self)
  show "apdu_parse (h @ of_nat (length d) # d) = r (of_nat (length d)) (Some d) 0 False"
    "apdu_parse (h @ of_nat (length d) # d @ [b]) = r (of_nat (length d)) (Some d) (ucast b) True"
    using d u nz uc by (simp_all add: apdu_defs h_def r_def nth_append)
next
  assume e: "0 < length e" "length e < 65536"
  then have u: "unat (of_nat (length e) :: u16) = length e" by (simp add: unat_of_nat)
  show "apdu_parse (h @ 0 # be16_bytes (length e) @ e) = r (of_nat (length e)) (Some e) 0 False"
    "apdu_parse (h @ 0 # be16_bytes (length e) @ e @ [hi8 w, lo8 w])
       = r (of_nat (length e)) (Some e) (ucast w) True"
    using e u by (simp_all add: apdu_defs h_def r_def be16_bytes_def nth_append)
qed

lemma apdu_parse_complete_witness:
  "apdu_parse [0x00, 0x20, 0x00, 0x81, 3, 1, 2, 3, 9]
    = Some \<lparr>ap_cla = 0, ap_ins = 0x20, ap_p1 = 0, ap_p2 = 0x81, ap_lc = 3, ap_data = Some [1, 2, 3],
        ap_le = 9, ap_le_present = True\<rparr>"
  using apdu_parse_complete [of 0 "0x20" 0 "0x81" 9 "[1, 2, 3]" 0 "[1, 2]"] by simp

end
