(* ===== verification/Tlv.thy ===== *)
theory Tlv
  imports Prelude
begin

unbundle bit_operations_syntax

text \<open>
  The BER-TLV helpers of \<open>main/security/openpgp_card.c\<close>. \<open>tlv_append\<close> extends what is already
  written (the buffer up to the offset); the scanners read a buffer by index, and a read
  outside it is a fault: the outer \<open>None\<close>. The inner option is the null pointer or false the
  code returns.
\<close>

section \<open>Definitions\<close>

definition tlv_append :: "nat \<Rightarrow> bytes \<Rightarrow> u16 \<Rightarrow> bytes \<Rightarrow> bytes option" where
  "tlv_append mx acc tag v =
     (let n = length v;
          tag_bytes = (if tag > 0xFF then 2 else 1);
          len_bytes = (if n \<ge> 128 then 2 else 1)
      in if n > 255 then None
         else if length acc + (tag_bytes + len_bytes + n) > mx then None
         else Some (acc @ (if tag > 0xFF then [hi8 tag, lo8 tag] else [ucast tag])
                        @ (if n \<ge> 128 then [0x81, of_nat n] else [of_nat n]) @ v))"

definition tlv_appends :: "nat \<Rightarrow> (u16 \<times> bytes) list \<Rightarrow> bytes option" where
  "tlv_appends mx items =
     foldl (\<lambda>acc (t, v). Option.bind acc (\<lambda>b. tlv_append mx b t v)) (Some []) items"

definition rd :: "bytes \<Rightarrow> nat \<Rightarrow> (u8 \<Rightarrow> 'a option) \<Rightarrow> 'a option" where
  "rd buf i k = (if i < length buf then k (buf ! i) else None)"

definition tlv_len :: "bytes \<Rightarrow> nat \<Rightarrow> (nat \<times> nat) option option" where
  "tlv_len buf pos =
     rd buf pos (\<lambda>b.
       if b < 0x80 then Some (Some (unat b, pos + 1))
       else if b = 0x81 then
         (if pos + 1 \<ge> length buf then Some None
          else rd buf (pos + 1) (\<lambda>l. Some (Some (unat l, pos + 2))))
       else if b = 0x82 then
         (if pos + 2 \<ge> length buf then Some None
          else rd buf (pos + 1) (\<lambda>h. rd buf (pos + 2) (\<lambda>l.
                 Some (Some (unat (be16 h l), pos + 3)))))
       else Some None)"

definition tlv_tag :: "bytes \<Rightarrow> nat \<Rightarrow> (u16 \<times> nat) option option" where
  "tlv_tag buf pos =
     rd buf pos (\<lambda>b.
       if b AND 0x1F = 0x1F then
         (if pos + 1 \<ge> length buf then Some None
          else rd buf (pos + 1) (\<lambda>l. Some (Some (be16 b l, pos + 2))))
       else Some (Some (ucast b, pos + 1)))"

definition tlv_header :: "bytes \<Rightarrow> nat \<Rightarrow> (u16 \<times> nat \<times> nat) option option" where
  "tlv_header buf pos =
     (case tlv_tag buf pos of
        None \<Rightarrow> None
      | Some None \<Rightarrow> Some None
      | Some (Some (tag, p)) \<Rightarrow>
          if p \<ge> length buf then Some None
          else map_option (map_option (\<lambda>(n, q). (tag, n, q))) (tlv_len buf p))"

definition tlv_iter_next :: "bytes \<Rightarrow> nat \<Rightarrow> (u16 \<times> nat \<times> nat) option option" where
  "tlv_iter_next buf pos = (if pos \<ge> length buf then Some None else tlv_header buf pos)"

lemma tlv_tag_advances: "tlv_tag buf pos = Some (Some (t, p)) \<Longrightarrow> pos < p \<and> p \<le> length buf"
  by (auto simp: tlv_tag_def rd_def split: if_splits)

lemma tlv_len_advances: "tlv_len buf pos = Some (Some (n, p)) \<Longrightarrow> pos < p \<and> p \<le> length buf"
  by (auto simp: tlv_len_def rd_def split: if_splits)

lemma tlv_header_advances:
  "tlv_header buf pos = Some (Some (t, n, p)) \<Longrightarrow> pos < p \<and> p \<le> length buf"
  by (auto simp: tlv_header_def split: option.splits if_splits
      dest!: tlv_tag_advances tlv_len_advances)

function tlv_find_from :: "bytes \<Rightarrow> u16 \<Rightarrow> nat \<Rightarrow> bytes option option" where
  "tlv_find_from buf tag pos =
     (if pos < length buf then
        case tlv_header buf pos of
          None \<Rightarrow> None
        | Some None \<Rightarrow> Some None
        | Some (Some (cur_tag, vlen, p)) \<Rightarrow>
            if p + vlen > length buf then Some None
            else if cur_tag = tag then Some (Some (take vlen (drop p buf)))
            else tlv_find_from buf tag (p + vlen)
      else Some None)"
  by pat_completeness auto
termination
  by (relation "measure (\<lambda>(buf, tag, pos). length buf - pos)") (auto dest: tlv_header_advances)

declare tlv_find_from.simps [simp del]

definition tlv_find :: "bytes \<Rightarrow> u16 \<Rightarrow> bytes option option" where
  "tlv_find buf tag = tlv_find_from buf tag 0"

section \<open>No read outside the buffer\<close>

lemma tlv_len_no_fault: "pos < length buf \<Longrightarrow> tlv_len buf pos \<noteq> None"
  by (auto simp: tlv_len_def rd_def)

lemma tlv_tag_no_fault: "pos < length buf \<Longrightarrow> tlv_tag buf pos \<noteq> None"
  by (auto simp: tlv_tag_def rd_def)

lemma tlv_header_no_fault: "pos < length buf \<Longrightarrow> tlv_header buf pos \<noteq> None"
  using tlv_tag_no_fault [of pos buf] tlv_len_no_fault
  by (fastforce simp: tlv_header_def split: option.splits)

lemma tlv_find_from_no_fault: "tlv_find_from buf tag pos \<noteq> None"
proof (induction buf tag pos rule: tlv_find_from.induct)
  case (1 buf tag pos)
  then show ?case
    using tlv_header_no_fault [of pos buf]
    by (subst tlv_find_from.simps) (auto split: option.splits)
qed

lemma tlv_find_from_step:
  "pos < length buf \<Longrightarrow> tlv_header buf pos = Some (Some (t, n, p)) \<Longrightarrow> p + n \<le> length buf \<Longrightarrow>
     tlv_find_from buf tag pos
       = (if t = tag then Some (Some (take n (drop p buf))) else tlv_find_from buf tag (p + n))"
  by (subst tlv_find_from.simps) simp

lemma tlv_find_fromE:
  assumes "tlv_find_from buf tag pos = Some (Some v)"
  obtains t n p where "pos < length buf" "tlv_header buf pos = Some (Some (t, n, p))"
    "p + n \<le> length buf"
    "t = tag \<and> v = take n (drop p buf) \<or> t \<noteq> tag \<and> tlv_find_from buf tag (p + n) = Some (Some v)"
  using assms
  by (subst (asm) tlv_find_from.simps) (auto simp: not_less split: option.splits if_splits prod.splits)

lemma tlv_find_from_slice:
  "tlv_find_from buf tag pos = Some (Some v) \<Longrightarrow>
     \<exists>p. p + length v \<le> length buf \<and> v = take (length v) (drop p buf)"
proof (induction "length buf - pos" arbitrary: pos rule: less_induct)
  case less
  from less.prems show ?case
  proof (cases rule: tlv_find_fromE)
    case (1 t n p)
    from tlv_header_advances [OF 1(2)] have adv: "pos < p" by simp
    from 1(4) show ?thesis
    proof
      assume "t = tag \<and> v = take n (drop p buf)"
      then show ?thesis using 1(3) by (intro exI [of _ p]) auto
    next
      assume "t \<noteq> tag \<and> tlv_find_from buf tag (p + n) = Some (Some v)"
      then show ?thesis using less.hyps [of "p + n"] adv 1(1) by auto
    qed
  qed
qed

section \<open>Reading back what was appended\<close>

definition tlv_enc :: "u16 \<Rightarrow> bytes \<Rightarrow> bytes" where
  "tlv_enc tag v = (if tag > 0xFF then [hi8 tag, lo8 tag] else [ucast tag])
                   @ (if length v \<ge> 128 then [0x81, of_nat (length v)] else [of_nat (length v)]) @ v"

definition tlv_tag_ok :: "u16 \<Rightarrow> bool" where
  "tlv_tag_ok tag \<longleftrightarrow> (if tag > 0xFF then hi8 tag AND 0x1F = 0x1F
                    else (ucast tag :: u8) AND 0x1F \<noteq> 0x1F)"

lemma tlv_append_iff:
  "tlv_append mx acc tag v = Some acc' \<longleftrightarrow>
     length v \<le> 255 \<and> length (acc @ tlv_enc tag v) \<le> mx \<and> acc' = acc @ tlv_enc tag v"
  by (auto simp: tlv_append_def tlv_enc_def Let_def)

lemma length_tlv_enc:
  "length (tlv_enc tag v) = (if tag > 0xFF then 2 else 1) + (if length v \<ge> 128 then 2 else 1) + length v"
  by (simp add: tlv_enc_def)

lemma ucast_8_of_le_255: "tag \<le> 0xFF \<Longrightarrow> (ucast (ucast tag :: u8) :: u16) = tag" for tag :: u16
proof -
  assume "tag \<le> 0xFF"
  then have "unat tag < 2 ^ 8" by (simp add: word_le_nat_alt)
  then have "take_bit 8 tag = tag"
    by (simp add: word_unat_eq_iff unsigned_take_bit_eq take_bit_nat_eq_self)
  moreover have "(ucast (ucast tag :: u8) :: u16) = take_bit 8 tag"
    by (rule bit_word_eqI) (auto simp: bit_simps)
  ultimately show ?thesis by simp
qed

lemma tlv_header_enc:
  assumes "tlv_tag_ok tag" "length v \<le> 255"
  shows "tlv_header (pre @ tlv_enc tag v @ post) (length pre)
    = Some (Some (tag, length v, length pre + length (tlv_enc tag v) - length v))"
proof -
  have n: "unat (of_nat (length v) :: u8) = length v" using assms(2) by (simp add: unat_of_nat)
  have short: "(of_nat (length v) :: u8) < 0x80" if "length v < 128"
    using that n by (simp add: word_less_nat_alt)
  show ?thesis
  proof (cases "tag > 0xFF")
    case True
    then show ?thesis
      using assms n short
      by (auto simp: tlv_header_def tlv_tag_def tlv_len_def tlv_enc_def tlv_tag_ok_def rd_def nth_append)
  next
    case False
    then show ?thesis
      using assms n short ucast_8_of_le_255 [of tag]
      by (auto simp: tlv_header_def tlv_tag_def tlv_len_def tlv_enc_def tlv_tag_ok_def rd_def nth_append)
  qed
qed

definition tlv_seq :: "(u16 \<times> bytes) list \<Rightarrow> bytes" where
  "tlv_seq items = concat (map (\<lambda>(t, v). tlv_enc t v) items)"

definition tlv_item_ok :: "u16 \<times> bytes \<Rightarrow> bool" where
  "tlv_item_ok tv \<longleftrightarrow> tlv_tag_ok (fst tv) \<and> length (snd tv) \<le> 255"

lemma tlv_find_from_seq:
  "list_all tlv_item_ok items \<Longrightarrow>
     tlv_find_from (pre @ tlv_seq items) tag (length pre) = Some (map_of items tag)"
proof (induction items arbitrary: pre)
  case Nil
  show ?case by (subst tlv_find_from.simps) (simp add: tlv_seq_def)
next
  case (Cons tv items)
  obtain t v where tv: "tv = (t, v)" by (cases tv)
  have ok: "tlv_tag_ok t" "length v \<le> 255" using Cons.prems tv by (auto simp: tlv_item_ok_def)
  let ?buf = "pre @ tlv_enc t v @ tlv_seq items"
  have buf: "pre @ tlv_seq ((t, v) # items) = ?buf" by (simp add: tlv_seq_def)
  obtain hdr where hdr: "tlv_enc t v = hdr @ v" "hdr \<noteq> []" by (auto simp: tlv_enc_def)
  have h: "tlv_header ?buf (length pre) = Some (Some (t, length v, length pre + length hdr))"
    using tlv_header_enc [OF ok, of pre "tlv_seq items"] by (simp add: hdr)
  have "tlv_find_from ?buf tag (length pre)
      = (if t = tag then Some (Some v)
         else tlv_find_from ((pre @ tlv_enc t v) @ tlv_seq items) tag (length (pre @ tlv_enc t v)))"
    using tlv_find_from_step [OF _ h, of tag] hdr by (cases "t = tag") (simp_all add: add.assoc)
  then show ?case using Cons.IH [of "pre @ tlv_enc t v"] Cons.prems by (simp add: buf tv)
qed

lemma tlv_appends_from:
  "list_all tlv_item_ok items \<Longrightarrow> length (pre @ tlv_seq items) \<le> mx \<Longrightarrow>
     foldl (\<lambda>acc (t, v). Option.bind acc (\<lambda>b. tlv_append mx b t v)) (Some pre) items
       = Some (pre @ tlv_seq items)"
proof (induction items arbitrary: pre)
  case (Cons tv items)
  then show ?case
    by (cases tv) (auto simp: tlv_item_ok_def tlv_seq_def tlv_append_iff [THEN iffD2])
qed (simp add: tlv_seq_def)

lemma tlv_appends_ok:
  "list_all tlv_item_ok items \<Longrightarrow> length (tlv_seq items) \<le> mx \<Longrightarrow> tlv_appends mx items = Some (tlv_seq items)"
  using tlv_appends_from [of items "[]"] by (simp add: tlv_appends_def)

lemma tlv_find_seq: "list_all tlv_item_ok items \<Longrightarrow> tlv_find (tlv_seq items) tag = Some (map_of items tag)"
  using tlv_find_from_seq [of items "[]"] by (simp add: tlv_find_def)

lemma tlv_appends_bound:
  "foldl (\<lambda>acc (t, v). Option.bind acc (\<lambda>b. tlv_append mx b t v)) (Some pre) items = Some out
     \<Longrightarrow> length pre \<le> mx \<Longrightarrow> out = pre @ tlv_seq items \<and> length out \<le> mx"
proof (induction items arbitrary: pre)
  case (Cons tv items)
  obtain t v where tv: "tv = (t, v)" by (cases tv)
  show ?case
  proof (cases "tlv_append mx pre t v")
    case None
    have "foldl (\<lambda>acc (t, v). Option.bind acc (\<lambda>b. tlv_append mx b t v)) None items = None" for items
      by (induction items) auto
    with None Cons.prems tv show ?thesis by simp
  next
    case (Some b)
    with Cons.IH [of b] Cons.prems tv show ?thesis by (auto simp: tlv_append_iff tlv_seq_def)
  qed
qed (simp add: tlv_seq_def)

section \<open>Properties\<close>

text \<open>
  The scanner of host-supplied TLV data never reads outside the buffer, whatever the
  bytes, and what it returns is a slice of the buffer.
\<close>

theorem tlv_find_safe:
  "\<exists>r. tlv_find buf tag = Some r
     \<and> (\<forall>v. r = Some v \<longrightarrow> (\<exists>p. p + length v \<le> length buf \<and> v = take (length v) (drop p buf)))"
  using tlv_find_from_no_fault [of buf tag 0] tlv_find_from_slice [of buf tag 0]
  by (auto simp: tlv_find_def)

lemma tlv_find_safe_witness:
  "\<exists>p. p + length [7, 9 :: u8] \<le> length [0x4D, 2, 7, 9 :: u8]
     \<and> [7, 9] = take (length [7, 9 :: u8]) (drop p [0x4D, 2, 7, 9 :: u8])"
proof -
  have "tlv_find [0x4D, 2, 7, 9] 0x4D = Some (Some [7, 9])" by code_simp
  then show ?thesis using tlv_find_safe [of "[0x4D, 2, 7, 9]" "0x4D"] by simp
qed

text \<open>
  Objects appended one after the other are read back: scanning the built buffer for a tag
  yields the value appended first under that tag, and nothing for an absent tag.
\<close>

theorem tlv_append_find:
  assumes "list_all tlv_item_ok items" "length (tlv_seq items) \<le> mx"
  shows "tlv_appends mx items = Some (tlv_seq items)
    \<and> tlv_find (tlv_seq items) tag = Some (map_of items tag)"
  using tlv_appends_ok [OF assms] tlv_find_seq [OF assms(1)] by simp

lemma tlv_append_find_witness:
  "tlv_find (tlv_seq [(0x4F, [1, 2, 3]), (0x5F52, [4])]) 0x5F52 = Some (Some [4])"
  using tlv_append_find [of "[(0x4F, [1, 2, 3]), (0x5F52, [4])]" 256 "0x5F52"]
  by (simp add: tlv_item_ok_def tlv_tag_ok_def tlv_seq_def tlv_enc_def hi8_def)

end
