(* ===== verification/Openpgp_Do.thy ===== *)
theory Openpgp_Do
  imports Nvs
begin

text \<open>
  \<open>main/security/openpgp_do.c\<close>: the table of data objects of the OpenPGP card, 24 entries of
  at most 255 bytes, saved as a whole on every write. A null value pointer is \<open>None\<close> (the
  code zero-fills). The table with its saved copy and the environment's call counter is the
  base record of the card's state.
\<close>

section \<open>Definitions\<close>

definition OPENPGP_DO_MAX_LEN :: nat where "OPENPGP_DO_MAX_LEN = 255"
definition OPENPGP_DO_MAX_ENTRIES :: nat where "OPENPGP_DO_MAX_ENTRIES = 24"

record do_entry =
  de_tag :: u16
  de_len :: nat
  de_data :: bytes
  de_set :: bool

record do_store =
  ds_dos :: "do_entry list"
  ds_nvs :: "do_entry list option"
  ds_io :: nat

definition do_entry_zero :: do_entry where
  "do_entry_zero = \<lparr>de_tag = 0, de_len = 0, de_data = replicate OPENPGP_DO_MAX_LEN 0, de_set = False\<rparr>"

definition do_table_zero :: "do_entry list" where
  "do_table_zero = replicate OPENPGP_DO_MAX_ENTRIES do_entry_zero"

definition find_entry :: "do_entry list \<Rightarrow> u16 \<Rightarrow> nat option" where
  "find_entry dos tag = find_index (\<lambda>e. de_set e \<and> de_tag e = tag) dos"

definition find_or_alloc :: "do_entry list \<Rightarrow> u16 \<Rightarrow> nat option" where
  "find_or_alloc dos tag =
     (case find_entry dos tag of
        Some i \<Rightarrow> Some i
      | None \<Rightarrow> find_index (\<lambda>e. \<not> de_set e) dos)"

definition openpgp_do_persist ::
  "(nat \<Rightarrow> nvs_rc) \<Rightarrow> 'z do_store_scheme \<Rightarrow> 'z do_store_scheme \<times> bool" where
  "openpgp_do_persist rc s =
     (let (blob, ok, io) = nvs_save_blob_with_total rc (ds_io s) (ds_nvs s) (ds_dos s)
      in (s\<lparr>ds_nvs := blob, ds_io := io\<rparr>, ok))"

definition openpgp_do_put ::
  "(nat \<Rightarrow> nvs_rc) \<Rightarrow> u16 \<Rightarrow> bytes option \<Rightarrow> nat \<Rightarrow> 'z do_store_scheme \<Rightarrow> 'z do_store_scheme \<times> bool" where
  "openpgp_do_put rc tag v n s =
     (if n > OPENPGP_DO_MAX_LEN then (s, False)
      else case find_or_alloc (ds_dos s) tag of
        None \<Rightarrow> (s, False)
      | Some i \<Rightarrow>
          let e = ds_dos s ! i;
              src = (case v of Some d \<Rightarrow> take n d | None \<Rightarrow> replicate n 0);
              e' = e\<lparr>de_tag := tag, de_len := n, de_data := src @ drop n (de_data e), de_set := True\<rparr>
          in openpgp_do_persist rc (s\<lparr>ds_dos := (ds_dos s)[i := e']\<rparr>))"

definition openpgp_do_get :: "u16 \<Rightarrow> 'z do_store_scheme \<Rightarrow> bytes option" where
  "openpgp_do_get tag s =
     map_option (\<lambda>i. let e = ds_dos s ! i in take (de_len e) (de_data e)) (find_entry (ds_dos s) tag)"

definition openpgp_do_reset :: "'z do_store_scheme \<Rightarrow> 'z do_store_scheme" where
  "openpgp_do_reset s = s\<lparr>ds_dos := do_table_zero\<rparr>"

definition openpgp_do_init :: "(nat \<Rightarrow> nvs_rc) \<Rightarrow> 'z do_store_scheme \<Rightarrow> 'z do_store_scheme" where
  "openpgp_do_init rc s =
     (let s' = s\<lparr>ds_io := ds_io s + 2\<rparr> in
      case nvs_load_blob_with_total rc (ds_io s) (ds_nvs s) of
        Some dos \<Rightarrow> s'\<lparr>ds_dos := dos\<rparr>
      | None \<Rightarrow> s')"

section \<open>The interface of a keyed store\<close>

text \<open>
  What the applet relies on: an accepted write is read back, whatever the write does to its
  own key no other key changes, and a refused write that kept the table changes nothing.
\<close>

locale kv_store =
  fixes put :: "'k \<Rightarrow> 'v \<Rightarrow> 's \<Rightarrow> 's \<times> bool" and get :: "'k \<Rightarrow> 's \<Rightarrow> 'v option"
    and fits :: "'k \<Rightarrow> 'v \<Rightarrow> 's \<Rightarrow> bool"
  assumes put_get: "fits k v s \<Longrightarrow> get k (fst (put k v s)) = Some v"
    and put_other: "j \<noteq> k \<Longrightarrow> get j (fst (put k v s)) = get j s"
    and put_refused: "\<not> fits k v s \<Longrightarrow> put k v s = (s, False)"
begin

lemma put_ok_get: "put k v s = (s', True) \<Longrightarrow> get k s' = Some v"
  using put_get [of k v s] put_refused [of k v s] by (cases "fits k v s") auto

lemma get_put: "get j (fst (put k v s)) = (if fits k v s \<and> j = k then Some v else get j s)"
  using put_get put_other put_refused by (metis fst_conv)

lemma put_twice: "fits k v s \<Longrightarrow> fits k w (fst (put k v s)) \<Longrightarrow>
    get j (fst (put k w (fst (put k v s)))) = get j (fst (put k w s)) \<or> \<not> fits k w s"
  by (simp add: get_put)

lemma put_preserves_dom: "get j s \<noteq> None \<Longrightarrow> get j (fst (put k v s)) \<noteq> None"
  by (simp add: get_put)

end

section \<open>The table is a keyed store\<close>

definition do_fits :: "u16 \<Rightarrow> bytes \<Rightarrow> 'z do_store_scheme \<Rightarrow> bool" where
  "do_fits tag v s \<longleftrightarrow> length v \<le> OPENPGP_DO_MAX_LEN \<and> find_or_alloc (ds_dos s) tag \<noteq> None"

definition do_put :: "(nat \<Rightarrow> nvs_rc) \<Rightarrow> u16 \<Rightarrow> bytes \<Rightarrow> 'z do_store_scheme \<Rightarrow> 'z do_store_scheme \<times> bool" where
  "do_put rc tag v s = openpgp_do_put rc tag (Some v) (length v) s"

lemma persist_dos [simp]: "ds_dos (fst (openpgp_do_persist rc s)) = ds_dos s"
  by (simp add: openpgp_do_persist_def split_beta Let_def)

lemma openpgp_do_put_null: "openpgp_do_put rc tag None n s = do_put rc tag (replicate n 0) s"
  by (simp add: do_put_def openpgp_do_put_def Let_def split: option.splits)

lemma openpgp_do_put_Some: "length d = n \<Longrightarrow> openpgp_do_put rc tag (Some d) n s = do_put rc tag d s"
  by (simp add: do_put_def)

lemma find_or_alloc_SomeD:
  assumes "find_or_alloc dos tag = Some i"
  shows "i < length dos \<and> (de_set (dos ! i) \<longrightarrow> de_tag (dos ! i) = tag)
    \<and> (\<forall>j<i. \<not> (de_set (dos ! j) \<and> de_tag (dos ! j) = tag))"
proof (cases "find_entry dos tag")
  case None
  then have free: "\<forall>e\<in>set dos. \<not> (de_set e \<and> de_tag e = tag)"
    by (simp add: find_entry_def find_index_None_iff)
  from None assms have "find_index (\<lambda>e. \<not> de_set e) dos = Some i" by (simp add: find_or_alloc_def)
  from find_index_SomeD [OF this] have i: "i < length dos" "\<not> de_set (dos ! i)" by auto
  have "\<not> (de_set (dos ! j) \<and> de_tag (dos ! j) = tag)" if "j < i" for j
    using free that i(1) by simp
  with i show ?thesis by blast
next
  case (Some k)
  with assms have "find_index (\<lambda>e. de_set e \<and> de_tag e = tag) dos = Some i"
    by (simp add: find_or_alloc_def find_entry_def)
  from find_index_SomeD [OF this] show ?thesis by auto
qed

interpretation do_kv: kv_store "do_put rc" openpgp_do_get do_fits
proof unfold_locales
  fix k :: u16 and v :: bytes and s :: "'a do_store_scheme"
  assume f: "do_fits k v s"
  then obtain i where i: "find_or_alloc (ds_dos s) k = Some i" by (auto simp: do_fits_def)
  from find_or_alloc_SomeD [OF i] f show "openpgp_do_get k (fst (do_put rc k v s)) = Some v"
    by (simp add: do_put_def openpgp_do_put_def openpgp_do_get_def i Let_def do_fits_def not_less
        find_entry_def find_index_update_same)
next
  fix j k :: u16 and v :: bytes and s :: "'a do_store_scheme"
  assume jk: "j \<noteq> k"
  show "openpgp_do_get j (fst (do_put rc k v s)) = openpgp_do_get j s"
  proof (cases "length v > OPENPGP_DO_MAX_LEN \<or> find_or_alloc (ds_dos s) k = None")
    case True
    then show ?thesis by (auto simp: do_put_def openpgp_do_put_def)
  next
    case False
    then obtain i where i: "find_or_alloc (ds_dos s) k = Some i" by auto
    let ?e = "(ds_dos s ! i)\<lparr>de_tag := k, de_len := length v,
      de_data := v @ drop (length v) (de_data (ds_dos s ! i)), de_set := True\<rparr>"
    have same: "find_entry ((ds_dos s)[i := ?e]) j = find_entry (ds_dos s) j"
      using find_or_alloc_SomeD [OF i] jk
      unfolding find_entry_def by (intro find_index_update_other) auto
    have ne: "m \<noteq> i" if "find_entry (ds_dos s) j = Some m" for m
      using find_index_SomeD [OF that [unfolded find_entry_def]] find_or_alloc_SomeD [OF i] jk by auto
    show ?thesis
      using False i same ne
      by (cases "find_entry (ds_dos s) j")
        (simp_all add: do_put_def openpgp_do_put_def openpgp_do_get_def Let_def)
  qed
next
  show "do_put rc k v s = (s, False)" if "\<not> do_fits k v s" for k :: u16 and v :: bytes and s :: "'a do_store_scheme"
    using that by (auto simp: do_fits_def do_put_def openpgp_do_put_def not_le)
qed

end
