(* ===== verification/Openpgp_Card.thy ===== *)
theory Openpgp_Card
  imports Apdu Tlv Openpgp_Do
begin

unbundle bit_operations_syntax

text \<open>
  \<open>main/security/openpgp_card.c\<close>: the OpenPGP applet. The file statics are the record
  \<open>card\<close>, an extension of the data-object store, together with what the non-volatile storage
  holds. The crypto and touch hooks and the storage calls are the environment \<open>pgp_env\<close>: the
  \<open>n\<close>-th external call may answer anything, \<open>n\<close> being the counter in the state. Each INS of
  \<open>openpgp_card_apdu\<close> is one definition; a response is the list of bytes written to \<open>out\<close>.
\<close>

section \<open>Constants\<close>

definition OPGP_AID_PREFIX :: bytes where "OPGP_AID_PREFIX = [0xD2, 0x76, 0x00, 0x01, 0x24, 0x01]"
definition PW1_DEFAULT :: bytes where "PW1_DEFAULT = [0x31, 0x32, 0x33, 0x34, 0x35, 0x36]"
definition PW3_DEFAULT :: bytes where
  "PW3_DEFAULT = [0x31, 0x32, 0x33, 0x34, 0x35, 0x36, 0x37, 0x38]"
definition PW1_DEFAULT_LEN :: u8 where "PW1_DEFAULT_LEN = 6"
definition PW3_DEFAULT_LEN :: u8 where "PW3_DEFAULT_LEN = 8"
definition PW1_RETRY_MAX :: u8 where "PW1_RETRY_MAX = 3"
definition PW3_RETRY_MAX :: u8 where "PW3_RETRY_MAX = 3"
definition PW_MAX_LEN :: u8 where "PW_MAX_LEN = 16"
definition FP_SLICE_LEN :: nat where "FP_SLICE_LEN = 20"
definition TS_SLICE_LEN :: nat where "TS_SLICE_LEN = 4"
definition PGP_ALGO_ECDSA_P256 :: u8 where "PGP_ALGO_ECDSA_P256 = 0x13"
definition PGP_ALGO_ECDH :: u8 where "PGP_ALGO_ECDH = 0x12"
definition PGP_P256_SCALAR_BYTES :: nat where "PGP_P256_SCALAR_BYTES = 32"

definition SW_OK :: u16 where "SW_OK = 0x9000"
definition SW_SEC_NOT_SAT :: u16 where "SW_SEC_NOT_SAT = 0x6982"
definition SW_COND_NOT_SAT :: u16 where "SW_COND_NOT_SAT = 0x6985"
definition SW_AUTH_BLOCKED :: u16 where "SW_AUTH_BLOCKED = 0x6983"
definition SW_REF_NOT_FOUND :: u16 where "SW_REF_NOT_FOUND = 0x6A88"
definition SW_INS_NOT_SUP :: u16 where "SW_INS_NOT_SUP = 0x6D00"
definition SW_WRONG_P1P2 :: u16 where "SW_WRONG_P1P2 = 0x6A86"
definition SW_WRONG_DATA :: u16 where "SW_WRONG_DATA = 0x6A80"
definition SW_INTERNAL :: u16 where "SW_INTERNAL = 0x6F00"
definition SW_CRYPTO_FAIL :: u16 where "SW_CRYPTO_FAIL = 0x6581"

lemmas pw_consts = PW1_DEFAULT_LEN_def PW3_DEFAULT_LEN_def PW1_RETRY_MAX_def PW3_RETRY_MAX_def
  PW_MAX_LEN_def

lemmas sw_consts = SW_OK_def SW_SEC_NOT_SAT_def SW_COND_NOT_SAT_def SW_AUTH_BLOCKED_def
  SW_REF_NOT_FOUND_def SW_INS_NOT_SUP_def SW_WRONG_P1P2_def SW_WRONG_DATA_def SW_INTERNAL_def
  SW_CRYPTO_FAIL_def

definition FACTORY_AID :: bytes where
  "FACTORY_AID = [0xD2, 0x76, 0x00, 0x01, 0x24, 0x01, 0x03, 0x04, 0xFF, 0x00, 0, 0, 0, 0, 0, 0]"
definition FACTORY_HIST :: bytes where
  "FACTORY_HIST = [0x00, 0x31, 0x84, 0x73, 0x80, 0x01, 0x80, 0x05, 0x90, 0x00]"
definition FACTORY_C0 :: bytes where
  "FACTORY_C0 = [0x34, 0x00, 0x00, 0x00, 0x00, 0x00, 0x01, 0x00, 0x00, 0x00]"
definition FACTORY_C1 :: bytes where
  "FACTORY_C1 = [0x13, 0x2A, 0x86, 0x48, 0xCE, 0x3D, 0x03, 0x01, 0x07]"
definition FACTORY_C2 :: bytes where
  "FACTORY_C2 = [0x12, 0x2B, 0x06, 0x01, 0x04, 0x01, 0x97, 0x55, 0x01, 0x05, 0x01]"
definition FACTORY_C3 :: bytes where
  "FACTORY_C3 = [0x13, 0x2A, 0x86, 0x48, 0xCE, 0x3D, 0x03, 0x01, 0x07]"
definition FACTORY_D6 :: bytes where "FACTORY_D6 = [0x01, 0x20]"
definition FACTORY_D7 :: bytes where "FACTORY_D7 = [0x00, 0x20]"
definition FACTORY_D8 :: bytes where "FACTORY_D8 = [0x00, 0x20]"
definition FACTORY_7F74 :: bytes where "FACTORY_7F74 = [0x81, 0x01, 0x20]"
definition LEGACY_C2_P256 :: bytes where
  "LEGACY_C2_P256 = [0x12, 0x2A, 0x86, 0x48, 0xCE, 0x3D, 0x03, 0x01, 0x07]"

section \<open>State and environment\<close>

datatype pgp_slot = SLOT_SIG | SLOT_DEC | SLOT_AUT

record pgp_key =
  pk_set :: bool
  pk_algo :: u8
  pk_origin :: u8
  pk_d :: bytes

definition pgp_key_zero :: pgp_key where
  "pgp_key_zero = \<lparr>pk_set = False, pk_algo = 0, pk_origin = 0,
     pk_d = replicate PGP_P256_SCALAR_BYTES 0\<rparr>"

record pgp_pins_blob =
  pb_pw1 :: bytes
  pb_pw1_len :: u8
  pb_pw1_retry :: u8
  pb_pw3 :: bytes
  pb_pw3_len :: u8
  pb_pw3_retry :: u8

record card = do_store +
  c_selected :: bool
  c_terminated :: bool
  c_pw1_sign :: bool
  c_pw1_user :: bool
  c_pw3_ok :: bool
  c_pw1_retry :: u8
  c_pw3_retry :: u8
  c_crypto_ok :: bool
  c_pw1 :: bytes
  c_pw1_len :: u8
  c_pw3 :: bytes
  c_pw3_len :: u8
  c_keys :: "pgp_slot \<Rightarrow> pgp_key"
  c_serial :: bytes
  c_serial_set :: bool
  c_nvs_pins :: "pgp_pins_blob option"
  c_nvs_keys :: "(pgp_slot \<Rightarrow> pgp_key) option"
  c_nvs_key_v1 :: "pgp_key option"

record pgp_env =
  pe_nvs :: "nat \<Rightarrow> nvs_rc"
  pe_sign :: "nat \<Rightarrow> bytes \<Rightarrow> bytes \<Rightarrow> bytes option"
  pe_confirm :: "nat \<Rightarrow> nat"
  pe_pubkey :: "(nat \<Rightarrow> u8 \<Rightarrow> bytes \<Rightarrow> bytes option) option"
  pe_ecdh :: "(nat \<Rightarrow> bytes \<Rightarrow> bytes \<Rightarrow> bytes option) option"
  pe_genkey :: "(nat \<Rightarrow> u8 \<Rightarrow> bytes option) option"

definition tick :: "card \<Rightarrow> card" where
  "tick c = c\<lparr>ds_io := Suc (ds_io c)\<rparr>"

section \<open>Helpers\<close>

definition respond :: "nat \<Rightarrow> bytes \<Rightarrow> u16 \<Rightarrow> bytes" where
  "respond out_max data sw =
     (if out_max < 2 then [] else take (out_max - 2) data @ [hi8 sw, lo8 sw])"

definition sw_only :: "nat \<Rightarrow> u16 \<Rightarrow> bytes" where
  "sw_only out_max sw = respond out_max [] sw"

definition key_persist :: "pgp_env \<Rightarrow> card \<Rightarrow> card \<times> bool" where
  "key_persist e c =
     (let (blob, ok, io) = nvs_save_blob_with_total (pe_nvs e) (ds_io c) (c_nvs_keys c) (c_keys c)
      in (c\<lparr>c_nvs_keys := blob, ds_io := io\<rparr>, ok))"

definition pins_blob :: "card \<Rightarrow> pgp_pins_blob" where
  "pins_blob c = \<lparr>pb_pw1 = c_pw1 c, pb_pw1_len = c_pw1_len c, pb_pw1_retry = c_pw1_retry c,
     pb_pw3 = c_pw3 c, pb_pw3_len = c_pw3_len c, pb_pw3_retry = c_pw3_retry c\<rparr>"

definition pin_persist :: "pgp_env \<Rightarrow> card \<Rightarrow> card \<times> bool" where
  "pin_persist e c =
     (let (blob, ok, io) = nvs_save_blob_with_total (pe_nvs e) (ds_io c) (c_nvs_pins c) (pins_blob c)
      in (c\<lparr>c_nvs_pins := blob, ds_io := io\<rparr>, ok))"

definition pins_factory :: "card \<Rightarrow> card" where
  "pins_factory c = c\<lparr>c_pw1 := PW1_DEFAULT @ drop 6 (c_pw1 c), c_pw1_len := PW1_DEFAULT_LEN,
     c_pw3 := PW3_DEFAULT @ drop 8 (c_pw3 c), c_pw3_len := PW3_DEFAULT_LEN,
     c_pw1_retry := PW1_RETRY_MAX, c_pw3_retry := PW3_RETRY_MAX\<rparr>"

definition do_val :: "u16 \<Rightarrow> card \<Rightarrow> bytes" where
  "do_val tag c = (case openpgp_do_get tag c of None \<Rightarrow> [] | Some v \<Rightarrow> v)"

definition fill_pw_status :: "card \<Rightarrow> bytes" where
  "fill_pw_status c =
     [(case openpgp_do_get 0x00C4 c of Some (b # _) \<Rightarrow> b | _ \<Rightarrow> 0x00),
      PW_MAX_LEN, 0x00, PW_MAX_LEN, c_pw1_retry c, 0x00, c_pw3_retry c]"

definition key_info :: "card \<Rightarrow> pgp_slot \<Rightarrow> u8" where
  "key_info c s = (if pk_set (c_keys c s) then pk_origin (c_keys c s) else 0x00)"

definition fill_key_info :: "card \<Rightarrow> bytes" where
  "fill_key_info c = [1, key_info c SLOT_SIG, 2, key_info c SLOT_DEC, 3, key_info c SLOT_AUT]"

definition uif_required :: "u16 \<Rightarrow> card \<Rightarrow> bool" where
  "uif_required uif_tag c =
     (case openpgp_do_get uif_tag c of Some (b # _) \<Rightarrow> b \<noteq> 0x00 | _ \<Rightarrow> False)"

definition algo_attrs_acceptable :: "u16 \<Rightarrow> bytes \<Rightarrow> bool" where
  "algo_attrs_acceptable tag v =
     (if tag = 0x00C1 \<or> tag = 0x00C3 then v = FACTORY_C1
      else if tag = 0x00C2 then v = FACTORY_C2
      else True)"

definition slot_from_crt :: "u8 \<Rightarrow> pgp_slot option" where
  "slot_from_crt crt =
     (if crt = 0xB6 then Some SLOT_SIG
      else if crt = 0xB8 then Some SLOT_DEC
      else if crt = 0xA4 then Some SLOT_AUT
      else None)"

definition ds_counter_reset :: "pgp_env \<Rightarrow> card \<Rightarrow> card" where
  "ds_counter_reset e c = fst (openpgp_do_put (pe_nvs e) 0x0093 (Some [0, 0, 0]) 3 c)"

definition attr_tag :: "pgp_slot \<Rightarrow> u16" where
  "attr_tag s = (case s of SLOT_SIG \<Rightarrow> 0x00C1 | SLOT_DEC \<Rightarrow> 0x00C2 | SLOT_AUT \<Rightarrow> 0x00C3)"

definition slot_algo :: "pgp_slot \<Rightarrow> card \<Rightarrow> u8" where
  "slot_algo s c =
     (case openpgp_do_get (attr_tag s) c of Some (b # _) \<Rightarrow> b | _ \<Rightarrow> PGP_ALGO_ECDSA_P256)"

definition ct_diff :: "bytes \<Rightarrow> bytes \<Rightarrow> nat \<Rightarrow> u8 \<Rightarrow> u8" where
  "ct_diff a b n diff = foldl (\<lambda>d i. d OR (a ! i XOR b ! i)) diff [0..<n]"

definition ct_pin_equal :: "bytes \<Rightarrow> u16 \<Rightarrow> bytes \<Rightarrow> u16 \<Rightarrow> bool" where
  "ct_pin_equal a alen b blen =
     (let n = (if alen < blen then alen else blen);
          diff = ct_diff a b (unat n) (ucast (alen XOR blen))
      in diff = 0 \<and> alen = blen)"

definition apdu_bytes :: "apdu \<Rightarrow> bytes" where
  "apdu_bytes a = (case ap_data a of None \<Rightarrow> [] | Some d \<Rightarrow> d)"

text \<open>The scanners never fault (\<open>tlv_find_safe\<close>); here their result is the returned pointer.\<close>

definition unfault :: "'a option option \<Rightarrow> 'a option" where
  "unfault r = (case r of None \<Rightarrow> None | Some x \<Rightarrow> x)"

definition tlv_lookup :: "bytes \<Rightarrow> u16 \<Rightarrow> bytes option" where
  "tlv_lookup buf tag = unfault (tlv_find buf tag)"

definition build_pubkey_response :: "pgp_env \<Rightarrow> pgp_slot \<Rightarrow> nat \<Rightarrow> card \<Rightarrow> card \<times> bytes" where
  "build_pubkey_response e s out_max c =
     (let k = c_keys c s in
      case pe_pubkey e of
        None \<Rightarrow> (c, sw_only out_max SW_REF_NOT_FOUND)
      | Some pubkey \<Rightarrow>
      case pubkey (ds_io c) (pk_algo k) (pk_d k) of
        None \<Rightarrow> (tick c, sw_only out_max SW_REF_NOT_FOUND)
      | Some raw \<Rightarrow>
          let c = tick c in
          if length raw \<noteq> (if pk_algo k = PGP_ALGO_ECDH then 32 else 65)
          then (c, sw_only out_max SW_INTERNAL)
          else case tlv_append 70 [] 0x86 raw of
            None \<Rightarrow> (c, sw_only out_max SW_INTERNAL)
          | Some inner \<Rightarrow>
          case tlv_append 80 [] 0x7F49 inner of
            None \<Rightarrow> (c, sw_only out_max SW_INTERNAL)
          | Some body \<Rightarrow> (c, respond out_max body SW_OK))"

section \<open>Lifecycle\<close>

definition openpgp_card_init :: "card \<Rightarrow> card" where
  "openpgp_card_init c = pins_factory (c\<lparr>c_selected := False, c_terminated := False,
     c_pw1_sign := False, c_pw1_user := False, c_pw3_ok := False\<rparr>)"

definition factory_dos :: "(u16 \<times> bytes option \<times> nat) list" where
  "factory_dos =
     [(0x004F, Some FACTORY_AID, 16), (0x5F52, Some FACTORY_HIST, 10), (0x00C0, Some FACTORY_C0, 10),
      (0x00C1, Some FACTORY_C1, 9), (0x00C2, Some FACTORY_C2, 11), (0x00C3, Some FACTORY_C3, 9),
      (0x00C5, None, 60), (0x00C6, None, 60), (0x00CD, None, 12),
      (0x00D6, Some FACTORY_D6, 2), (0x00D7, Some FACTORY_D7, 2), (0x00D8, Some FACTORY_D8, 2),
      (0x005B, None, 0), (0x5F2D, Some [0x65, 0x6E], 2), (0x5F35, Some [0x39], 1),
      (0x5F50, None, 0), (0x005E, None, 0), (0x7F74, Some FACTORY_7F74, 3), (0x0093, None, 3)]"

definition ensure_do :: "pgp_env \<Rightarrow> u16 \<times> bytes option \<times> nat \<Rightarrow> card \<times> nat \<Rightarrow> card \<times> nat" where
  "ensure_do e d cf =
     (case d of (tag, v, n) \<Rightarrow>
      case openpgp_do_get tag (fst cf) of
        Some _ \<Rightarrow> cf
      | None \<Rightarrow> (let (c', ok) = openpgp_do_put (pe_nvs e) tag v n (fst cf)
                 in (c', if ok then snd cf else Suc (snd cf))))"

definition upgrade_c2 :: "pgp_env \<Rightarrow> card \<times> nat \<Rightarrow> card \<times> nat" where
  "upgrade_c2 e cf =
     (if openpgp_do_get 0x00C2 (fst cf) = Some LEGACY_C2_P256
      then let (c', ok) = openpgp_do_put (pe_nvs e) 0x00C2 (Some FACTORY_C2) 11 (fst cf)
           in (c', if ok then snd cf else Suc (snd cf))
      else cf)"

definition openpgp_card_ensure_defaults :: "pgp_env \<Rightarrow> card \<Rightarrow> card \<times> bool" where
  "openpgp_card_ensure_defaults e c =
     (let (c', failures) = upgrade_c2 e (foldl (\<lambda>cf d. ensure_do e d cf) (c, 0) factory_dos)
      in (c', failures = 0))"

definition openpgp_card_set_serial :: "pgp_env \<Rightarrow> bytes \<Rightarrow> card \<Rightarrow> card" where
  "openpgp_card_set_serial e serial c =
     (let c = c\<lparr>c_serial := take 4 serial, c_serial_set := True\<rparr>;
          aid = (case openpgp_do_get 0x004F c of
                   Some v \<Rightarrow> if length v = 16 then v else FACTORY_AID
                 | None \<Rightarrow> FACTORY_AID);
          aid' = take 10 aid @ take 4 serial @ drop 14 aid
      in fst (openpgp_do_put (pe_nvs e) 0x004F (Some aid') 16 c))"

definition openpgp_card_factory_reset :: "pgp_env \<Rightarrow> card \<Rightarrow> card \<times> bool" where
  "openpgp_card_factory_reset e c =
     (let c = c\<lparr>c_selected := False, c_pw1_sign := False, c_pw1_user := False, c_pw3_ok := False,
                c_keys := (\<lambda>_. pgp_key_zero)\<rparr>;
          (c, ok1) = key_persist e c;
          c = openpgp_do_reset c;
          (c, ok2) = pin_persist e (pins_factory c);
          (c, ok3) = openpgp_card_ensure_defaults e c;
          c = (if c_serial_set c then openpgp_card_set_serial e (c_serial c) c else c)
      in (c, ok1 \<and> ok2 \<and> ok3))"

definition openpgp_card_key_is_set :: "card \<Rightarrow> bool" where
  "openpgp_card_key_is_set c = pk_set (c_keys c SLOT_SIG)"

definition openpgp_card_set_crypto_health :: "bool \<Rightarrow> card \<Rightarrow> card" where
  "openpgp_card_set_crypto_health ok c = c\<lparr>c_crypto_ok := ok\<rparr>"

definition card_load_pins :: "pgp_env \<Rightarrow> card \<Rightarrow> card" where
  "card_load_pins e c =
     (let c' = c\<lparr>ds_io := ds_io c + 2\<rparr> in
      case nvs_load_blob_with_total (pe_nvs e) (ds_io c) (c_nvs_pins c) of
        None \<Rightarrow> c'
      | Some b \<Rightarrow>
          if pb_pw1_len b < PW1_DEFAULT_LEN \<or> pb_pw1_len b > PW_MAX_LEN
             \<or> pb_pw3_len b < PW3_DEFAULT_LEN \<or> pb_pw3_len b > PW_MAX_LEN then c'
          else c'\<lparr>c_pw1 := pb_pw1 b, c_pw1_len := pb_pw1_len b,
                  c_pw1_retry := (if pb_pw1_retry b \<le> PW1_RETRY_MAX then pb_pw1_retry b
                                  else PW1_RETRY_MAX),
                  c_pw3 := pb_pw3 b, c_pw3_len := pb_pw3_len b,
                  c_pw3_retry := (if pb_pw3_retry b \<le> PW3_RETRY_MAX then pb_pw3_retry b
                                  else PW3_RETRY_MAX)\<rparr>)"

definition card_load_keys :: "pgp_env \<Rightarrow> card \<Rightarrow> card" where
  "card_load_keys e c =
     (let c' = c\<lparr>ds_io := ds_io c + 2\<rparr> in
      case nvs_load_blob_with_total (pe_nvs e) (ds_io c) (c_nvs_keys c) of
        Some ks \<Rightarrow> c'\<lparr>c_keys := ks\<rparr>
      | None \<Rightarrow>
          let c'' = c'\<lparr>ds_io := ds_io c' + 2\<rparr> in
          case nvs_load_blob_with_total (pe_nvs e) (ds_io c') (c_nvs_key_v1 c) of
            Some v1 \<Rightarrow>
              if pk_set v1
              then fst (key_persist e (c''\<lparr>c_keys := (c_keys c'')(SLOT_SIG :=
                     \<lparr>pk_set = True, pk_algo = pk_algo v1, pk_origin = 2, pk_d = pk_d v1\<rparr>)\<rparr>))
              else c''
          | None \<Rightarrow> c'')"

definition openpgp_card_load :: "pgp_env \<Rightarrow> card \<Rightarrow> card" where
  "openpgp_card_load e c = card_load_keys e (card_load_pins e c)"

section \<open>PIN commands\<close>

text \<open>The code's \<open>retry\<close>, \<open>pin\<close> and \<open>pin_len\<close> pointers, chosen by PW1 or PW3.\<close>

definition pw_retry :: "bool \<Rightarrow> card \<Rightarrow> u8" where
  "pw_retry is_pw1 c = (if is_pw1 then c_pw1_retry c else c_pw3_retry c)"

definition set_retry :: "bool \<Rightarrow> u8 \<Rightarrow> card \<Rightarrow> card" where
  "set_retry is_pw1 r c = (if is_pw1 then c\<lparr>c_pw1_retry := r\<rparr> else c\<lparr>c_pw3_retry := r\<rparr>)"

definition pw_pin :: "bool \<Rightarrow> card \<Rightarrow> bytes" where
  "pw_pin is_pw1 c = (if is_pw1 then c_pw1 c else c_pw3 c)"

definition pw_len :: "bool \<Rightarrow> card \<Rightarrow> u8" where
  "pw_len is_pw1 c = (if is_pw1 then c_pw1_len c else c_pw3_len c)"

definition pw_max :: "bool \<Rightarrow> u8" where
  "pw_max is_pw1 = (if is_pw1 then PW1_RETRY_MAX else PW3_RETRY_MAX)"

definition retry_sw :: "nat \<Rightarrow> u8 \<Rightarrow> bytes" where
  "retry_sw out_max r = sw_only out_max (0x63C0 OR ucast r)"

definition set_verified :: "u8 \<Rightarrow> card \<Rightarrow> card" where
  "set_verified p2 c =
     (if p2 = 0x81 then c\<lparr>c_pw1_sign := True\<rparr>
      else if p2 = 0x82 then c\<lparr>c_pw1_user := True\<rparr>
      else c\<lparr>c_pw3_ok := True\<rparr>)"

definition card_select :: "nat \<Rightarrow> apdu \<Rightarrow> card \<Rightarrow> card \<times> bytes" where
  "card_select out_max a c =
     (if ap_p1 a \<noteq> 0x04 then (c, sw_only out_max SW_REF_NOT_FOUND)
      else if ap_lc a < 6 \<or> ap_data a = None \<or> take 6 (apdu_bytes a) \<noteq> OPGP_AID_PREFIX
      then (c, sw_only out_max SW_REF_NOT_FOUND)
      else (c\<lparr>c_selected := True, c_pw1_sign := False, c_pw1_user := False, c_pw3_ok := False\<rparr>,
            sw_only out_max SW_OK))"

definition card_terminate :: "pgp_env \<Rightarrow> nat \<Rightarrow> card \<Rightarrow> card \<times> bytes" where
  "card_terminate e out_max c =
     (if \<not> (c_pw3_ok c \<or> (c_pw1_retry c = 0 \<and> c_pw3_retry c = 0))
      then (c, sw_only out_max SW_SEC_NOT_SAT)
      else ((fst (openpgp_card_factory_reset e c))\<lparr>c_terminated := True\<rparr>, sw_only out_max SW_OK))"

definition card_verify :: "pgp_env \<Rightarrow> nat \<Rightarrow> apdu \<Rightarrow> card \<Rightarrow> card \<times> bytes" where
  "card_verify e out_max a c =
     (let is_pw1 = (ap_p2 a = 0x81 \<or> ap_p2 a = 0x82); is_pw3 = (ap_p2 a = 0x83) in
      if \<not> is_pw1 \<and> \<not> is_pw3 then (c, sw_only out_max SW_WRONG_P1P2)
      else
        let retry = pw_retry is_pw1 c in
        if retry = 0 then (c, sw_only out_max SW_AUTH_BLOCKED)
        else if ap_lc a = 0 then (c, retry_sw out_max retry)
        else if \<not> ct_pin_equal (apdu_bytes a) (ap_lc a) (pw_pin is_pw1 c) (ucast (pw_len is_pw1 c))
        then (fst (pin_persist e (set_retry is_pw1 (retry - 1) c)), retry_sw out_max (retry - 1))
        else
          let c' = set_verified (ap_p2 a) (set_retry is_pw1 (pw_max is_pw1) c)
          in (if retry \<noteq> pw_max is_pw1 then fst (pin_persist e c') else c', sw_only out_max SW_OK))"

definition set_pin :: "bool \<Rightarrow> bytes \<Rightarrow> card \<Rightarrow> card" where
  "set_pin is_pw1 new c =
     (if is_pw1 then c\<lparr>c_pw1 := new @ drop (length new) (c_pw1 c), c_pw1_len := of_nat (length new)\<rparr>
      else c\<lparr>c_pw3 := new @ drop (length new) (c_pw3 c), c_pw3_len := of_nat (length new)\<rparr>)"

definition clear_verified :: "bool \<Rightarrow> card \<Rightarrow> card" where
  "clear_verified is_pw1 c =
     (if is_pw1 then c\<lparr>c_pw1_sign := False, c_pw1_user := False\<rparr> else c\<lparr>c_pw3_ok := False\<rparr>)"

definition card_change_ref :: "pgp_env \<Rightarrow> nat \<Rightarrow> apdu \<Rightarrow> card \<Rightarrow> card \<times> bytes" where
  "card_change_ref e out_max a c =
     (let is_pw1 = (ap_p2 a = 0x81); is_pw3 = (ap_p2 a = 0x83) in
      if ap_p1 a \<noteq> 0x00 then (c, sw_only out_max SW_WRONG_P1P2)
      else if \<not> is_pw1 \<and> \<not> is_pw3 then (c, sw_only out_max SW_WRONG_P1P2)
      else
        let retry = pw_retry is_pw1 c;
            min_len = (if is_pw1 then PW1_DEFAULT_LEN else PW3_DEFAULT_LEN);
            old_len = pw_len is_pw1 c;
            new_len16 = ap_lc a - ucast old_len in
        if retry = 0 then (c, sw_only out_max SW_AUTH_BLOCKED)
        else if ap_lc a \<le> ucast old_len then (c, sw_only out_max SW_WRONG_DATA)
        else if new_len16 < ucast min_len \<or> new_len16 > ucast PW_MAX_LEN
        then (c, sw_only out_max SW_WRONG_DATA)
        else if \<not> ct_pin_equal (apdu_bytes a) (ucast old_len) (pw_pin is_pw1 c) (ucast old_len)
        then (fst (pin_persist e (set_retry is_pw1 (retry - 1) c)), retry_sw out_max (retry - 1))
        else
          let new_len = unat (ucast new_len16 :: u8);
              new = take new_len (drop (unat old_len) (apdu_bytes a));
              c' = clear_verified is_pw1 (set_retry is_pw1 (pw_max is_pw1) (set_pin is_pw1 new c))
          in (fst (pin_persist e c'), sw_only out_max SW_OK))"

section \<open>GET DATA\<close>

definition related_inner :: "card \<Rightarrow> (u16 \<times> bytes) list" where
  "related_inner c =
     [(0xC0, do_val 0x00C0 c), (0xC1, do_val 0x00C1 c), (0xC2, do_val 0x00C2 c),
      (0xC3, do_val 0x00C3 c), (0xC4, fill_pw_status c), (0xC5, do_val 0x00C5 c),
      (0xC6, do_val 0x00C6 c), (0xCD, do_val 0x00CD c), (0xD6, do_val 0x00D6 c),
      (0xD7, do_val 0x00D7 c), (0xD8, do_val 0x00D8 c), (0xDE, fill_key_info c)]"

definition related_outer :: "card \<Rightarrow> bytes \<Rightarrow> (u16 \<times> bytes) list" where
  "related_outer c inner =
     [(0x004F, do_val 0x004F c), (0x5F52, do_val 0x5F52 c), (0x7F74, do_val 0x7F74 c), (0x73, inner)]"

definition append_or_fail :: "nat \<Rightarrow> bytes option \<Rightarrow> bytes" where
  "append_or_fail out_max body =
     (case body of None \<Rightarrow> sw_only out_max SW_INTERNAL | Some b \<Rightarrow> respond out_max b SW_OK)"

definition get_data_6e :: "nat \<Rightarrow> card \<Rightarrow> bytes" where
  "get_data_6e out_max c =
     append_or_fail out_max
       (Option.bind (tlv_appends 256 (related_inner c))
         (\<lambda>inner. tlv_appends 256 (related_outer c inner)))"

definition get_data_65 :: "nat \<Rightarrow> card \<Rightarrow> bytes" where
  "get_data_65 out_max c =
     append_or_fail out_max (tlv_appends 64
       [(0x5B, do_val 0x005B c), (0x5F2D, do_val 0x5F2D c), (0x5F35, do_val 0x5F35 c)])"

definition get_data_7a :: "nat \<Rightarrow> card \<Rightarrow> bytes" where
  "get_data_7a out_max c = append_or_fail out_max (tlv_appends 16 [(0x93, do_val 0x0093 c)])"

definition card_get_data :: "nat \<Rightarrow> apdu \<Rightarrow> card \<Rightarrow> card \<times> bytes" where
  "card_get_data out_max a c =
     (let tag = be16 (ap_p1 a) (ap_p2 a) in
      (c, if tag = 0x006E then get_data_6e out_max c
          else if tag = 0x0065 then get_data_65 out_max c
          else if tag = 0x007A then get_data_7a out_max c
          else if tag = 0x00C4 then respond out_max (fill_pw_status c) SW_OK
          else if tag = 0x00DE then respond out_max (fill_key_info c) SW_OK
          else case openpgp_do_get tag c of
                 None \<Rightarrow> sw_only out_max SW_REF_NOT_FOUND
               | Some v \<Rightarrow> respond out_max v SW_OK))"

section \<open>PUT DATA\<close>

definition put_sw :: "nat \<Rightarrow> card \<times> bool \<Rightarrow> card \<times> bytes" where
  "put_sw out_max r = (fst r, sw_only out_max (if snd r then SW_OK else SW_WRONG_DATA))"

definition put_pw_status :: "pgp_env \<Rightarrow> nat \<Rightarrow> apdu \<Rightarrow> card \<Rightarrow> card \<times> bytes" where
  "put_pw_status e out_max a c =
     (if ap_lc a < 1 \<or> (apdu_bytes a ! 0 \<noteq> 0x00 \<and> apdu_bytes a ! 0 \<noteq> 0x01)
      then (c, sw_only out_max SW_WRONG_DATA)
      else put_sw out_max (openpgp_do_put (pe_nvs e) 0x00C4 (Some [apdu_bytes a ! 0]) 1 c))"

definition put_slice :: "pgp_env \<Rightarrow> nat \<Rightarrow> u16 \<Rightarrow> nat \<Rightarrow> nat \<Rightarrow> apdu \<Rightarrow> card \<Rightarrow> card \<times> bytes" where
  "put_slice e out_max tag len slot a c =
     (if unat (ap_lc a) \<noteq> len then (c, sw_only out_max SW_WRONG_DATA)
      else
        let cur = (case openpgp_do_get tag c of
                     Some v \<Rightarrow> if length v = 3 * len then v else replicate (3 * len) 0
                   | None \<Rightarrow> replicate (3 * len) 0);
            off = slot * len;
            new = take off cur @ take len (apdu_bytes a) @ drop (off + len) cur
        in put_sw out_max (openpgp_do_put (pe_nvs e) tag (Some new) (3 * len) c))"

definition card_put_data :: "pgp_env \<Rightarrow> nat \<Rightarrow> apdu \<Rightarrow> card \<Rightarrow> card \<times> bytes" where
  "card_put_data e out_max a c =
     (if \<not> c_pw3_ok c then (c, sw_only out_max SW_SEC_NOT_SAT)
      else
        let tag = be16 (ap_p1 a) (ap_p2 a) in
        if tag = 0x00C4 then put_pw_status e out_max a c
        else if tag = 0x00C7 \<or> tag = 0x00C8 \<or> tag = 0x00C9
        then put_slice e out_max 0x00C5 FP_SLICE_LEN
               (if tag = 0x00C7 then 0 else if tag = 0x00C8 then 1 else 2) a c
        else if tag = 0x00CE \<or> tag = 0x00CF \<or> tag = 0x00D0
        then put_slice e out_max 0x00CD TS_SLICE_LEN
               (if tag = 0x00CE then 0 else if tag = 0x00CF then 1 else 2) a c
        else if (tag = 0x00C1 \<or> tag = 0x00C2 \<or> tag = 0x00C3)
                \<and> \<not> algo_attrs_acceptable tag (apdu_bytes a)
        then (c, sw_only out_max SW_WRONG_DATA)
        else put_sw out_max (openpgp_do_put (pe_nvs e) tag (ap_data a) (unat (ap_lc a)) c))"

section \<open>Key import (PUT DATA odd)\<close>

definition import_slot :: "bytes \<Rightarrow> pgp_slot option" where
  "import_slot inner =
     (if tlv_lookup inner 0x00B6 \<noteq> None then slot_from_crt 0xB6
      else if tlv_lookup inner 0x00B8 \<noteq> None then slot_from_crt 0xB8
      else if tlv_lookup inner 0x00A4 \<noteq> None then slot_from_crt 0xA4
      else None)"

text \<open>
  The walk over the 7F48 template: the offset of element 92 in the key material and its length.
  The sum of the lengths before it stays far below \<open>2 ^ 32\<close> (at most 32767 pairs of at most
  65535), so the code's 32-bit offset is a natural number here.
\<close>

function template_walk :: "u8 \<Rightarrow> bytes \<Rightarrow> nat \<Rightarrow> nat \<Rightarrow> (nat \<times> nat) option" where
  "template_walk algo tmpl ti d_offset =
     (case unfault (tlv_iter_next tmpl ti) of
        None \<Rightarrow> None
      | Some (etag, elen, ti') \<Rightarrow>
          if etag = 0x92 then
            (if algo = PGP_ALGO_ECDH
             then (if elen < 1 \<or> elen > PGP_P256_SCALAR_BYTES then None else Some (d_offset, elen))
             else (if elen \<noteq> PGP_P256_SCALAR_BYTES then None else Some (d_offset, elen)))
          else template_walk algo tmpl ti' (d_offset + elen))"
  by pat_completeness auto
termination
  by (relation "measure (\<lambda>(algo, tmpl, ti, off). length tmpl - ti)")
    (auto simp: unfault_def tlv_iter_next_def split: option.splits if_splits
      dest!: tlv_header_advances)

declare template_walk.simps [simp del]

definition padded_scalar :: "bytes \<Rightarrow> bytes" where
  "padded_scalar d = replicate (PGP_P256_SCALAR_BYTES - length d) 0 @ d"

text \<open>The key material of a command: the slot it names and the padded scalar.\<close>

definition import_scalar :: "bytes \<Rightarrow> card \<Rightarrow> (pgp_slot \<times> bytes) option" where
  "import_scalar data c =
     (case tlv_lookup data 0x4D of
        None \<Rightarrow> None
      | Some inner \<Rightarrow>
      case import_slot inner of
        None \<Rightarrow> None
      | Some slot \<Rightarrow>
      case tlv_lookup inner 0x7F48 of
        None \<Rightarrow> None
      | Some tmpl \<Rightarrow>
      case template_walk (slot_algo slot c) tmpl 0 0 of
        None \<Rightarrow> None
      | Some (d_offset, scalar_len) \<Rightarrow>
      case tlv_lookup inner 0x5F48 of
        None \<Rightarrow> None
      | Some km \<Rightarrow>
          if d_offset + scalar_len > length km then None
          else
            let d = padded_scalar (take scalar_len (drop d_offset km)) in
            if list_all (\<lambda>b. b = 0) d then None else Some (slot, d))"

definition install_key :: "pgp_env \<Rightarrow> pgp_slot \<Rightarrow> pgp_key \<Rightarrow> card \<Rightarrow> card \<times> bool" where
  "install_key e slot k c =
     (let (c', ok) = key_persist e (c\<lparr>c_keys := (c_keys c)(slot := k)\<rparr>) in
      if \<not> ok then (c'\<lparr>c_keys := (c_keys c')(slot := pgp_key_zero)\<rparr>, False)
      else (if slot = SLOT_SIG then ds_counter_reset e c' else c', True))"

definition card_import :: "pgp_env \<Rightarrow> nat \<Rightarrow> apdu \<Rightarrow> card \<Rightarrow> card \<times> bytes" where
  "card_import e out_max a c =
     (if ap_p1 a \<noteq> 0x3F \<or> ap_p2 a \<noteq> 0xFF then (c, sw_only out_max SW_WRONG_P1P2)
      else if \<not> c_pw3_ok c then (c, sw_only out_max SW_SEC_NOT_SAT)
      else case import_scalar (apdu_bytes a) c of
        None \<Rightarrow> (c, sw_only out_max SW_WRONG_DATA)
      | Some (slot, d) \<Rightarrow>
          let (c', ok) = install_key e slot
                \<lparr>pk_set = True, pk_algo = slot_algo slot c, pk_origin = 2, pk_d = d\<rparr> c
          in (c', sw_only out_max (if ok then SW_OK else SW_INTERNAL)))"

section \<open>Cryptographic operations\<close>

definition confirm_touch :: "pgp_env \<Rightarrow> u16 \<Rightarrow> card \<Rightarrow> card \<times> bool" where
  "confirm_touch e uif_tag c =
     (if uif_required uif_tag c then (tick c, pe_confirm e (ds_io c) = 1) else (c, True))"

definition decipher_point :: "bytes \<Rightarrow> bytes option" where
  "decipher_point data =
     (case tlv_lookup data 0x00A6 of
        None \<Rightarrow> None
      | Some a6 \<Rightarrow>
      case tlv_lookup a6 0x7F49 of
        None \<Rightarrow> None
      | Some t \<Rightarrow>
      case tlv_lookup t 0x0086 of
        None \<Rightarrow> None
      | Some p \<Rightarrow>
          let p = (if length p = 33 \<and> p ! 0 = 0x40 then drop 1 p else p)
          in if length p \<noteq> 32 then None else Some p)"

definition card_decipher :: "pgp_env \<Rightarrow> nat \<Rightarrow> apdu \<Rightarrow> card \<Rightarrow> card \<times> bytes" where
  "card_decipher e out_max a c =
     (let k = c_keys c SLOT_DEC in
      if \<not> c_crypto_ok c then (c, sw_only out_max SW_CRYPTO_FAIL)
      else if \<not> pk_set k then (c, sw_only out_max SW_REF_NOT_FOUND)
      else if pk_algo k \<noteq> PGP_ALGO_ECDH then (c, sw_only out_max SW_COND_NOT_SAT)
      else if \<not> c_pw1_user c then (c, sw_only out_max SW_SEC_NOT_SAT)
      else case decipher_point (apdu_bytes a) of
        None \<Rightarrow> (c, sw_only out_max SW_WRONG_DATA)
      | Some p \<Rightarrow>
          let (c, touched) = confirm_touch e 0x00D7 c in
          if \<not> touched then (c, sw_only out_max SW_COND_NOT_SAT)
          else case pe_ecdh e of
            None \<Rightarrow> (c, sw_only out_max SW_COND_NOT_SAT)
          | Some ecdh \<Rightarrow>
          case ecdh (ds_io c) (pk_d k) p of
            None \<Rightarrow> (tick c, sw_only out_max SW_COND_NOT_SAT)
          | Some shared \<Rightarrow> (tick c, respond out_max (take 32 shared) SW_OK))"

definition be24 :: "bytes \<Rightarrow> u32" where
  "be24 b = push_bit 16 (ucast (b ! 0)) OR push_bit 8 (ucast (b ! 1)) OR ucast (b ! 2)"

definition be24_bytes :: "u32 \<Rightarrow> bytes" where
  "be24_bytes n = [ucast (drop_bit 16 n), ucast (drop_bit 8 n AND 0xFF), ucast (n AND 0xFF)]"

definition ds_counter_bump :: "pgp_env \<Rightarrow> card \<Rightarrow> card" where
  "ds_counter_bump e c =
     (let ctr = (case openpgp_do_get 0x0093 c of
                   Some v \<Rightarrow> if length v = 3 then v else [0, 0, 0]
                 | None \<Rightarrow> [0, 0, 0])
      in fst (openpgp_do_put (pe_nvs e) 0x0093 (Some (be24_bytes (be24 ctr + 1))) 3 c))"

definition pw1_multi :: "card \<Rightarrow> bool" where
  "pw1_multi c = (case openpgp_do_get 0x00C4 c of Some (b # _) \<Rightarrow> b = 0x01 | _ \<Rightarrow> False)"

definition card_sign :: "pgp_env \<Rightarrow> nat \<Rightarrow> apdu \<Rightarrow> card \<Rightarrow> card \<times> bytes" where
  "card_sign e out_max a c =
     (if \<not> c_crypto_ok c then (c, sw_only out_max SW_CRYPTO_FAIL)
      else if \<not> pk_set (c_keys c SLOT_SIG) then (c, sw_only out_max SW_REF_NOT_FOUND)
      else if \<not> c_pw1_sign c then (c, sw_only out_max SW_SEC_NOT_SAT)
      else if ap_lc a < 20 \<or> ap_lc a > 64 then (c, sw_only out_max SW_WRONG_DATA)
      else
        let (c, touched) = confirm_touch e 0x00D6 c in
        if \<not> touched then (c, sw_only out_max SW_COND_NOT_SAT)
        else
          let c = (if pw1_multi c then c else c\<lparr>c_pw1_sign := False\<rparr>) in
          case pe_sign e (ds_io c) (pk_d (c_keys c SLOT_SIG)) (apdu_bytes a) of
            None \<Rightarrow> (tick c, sw_only out_max SW_COND_NOT_SAT)
          | Some sig \<Rightarrow> (ds_counter_bump e (tick c), respond out_max sig SW_OK))"

definition card_pso :: "pgp_env \<Rightarrow> nat \<Rightarrow> apdu \<Rightarrow> card \<Rightarrow> card \<times> bytes" where
  "card_pso e out_max a c =
     (if ap_p1 a = 0x80 \<and> ap_p2 a = 0x86 then card_decipher e out_max a c
      else if ap_p1 a \<noteq> 0x9E \<or> ap_p2 a \<noteq> 0x9A then (c, sw_only out_max SW_WRONG_P1P2)
      else card_sign e out_max a c)"

definition card_int_auth :: "pgp_env \<Rightarrow> nat \<Rightarrow> apdu \<Rightarrow> card \<Rightarrow> card \<times> bytes" where
  "card_int_auth e out_max a c =
     (let k = c_keys c SLOT_AUT in
      if ap_p1 a \<noteq> 0x00 \<or> ap_p2 a \<noteq> 0x00 then (c, sw_only out_max SW_WRONG_P1P2)
      else if \<not> c_crypto_ok c then (c, sw_only out_max SW_CRYPTO_FAIL)
      else if \<not> pk_set k then (c, sw_only out_max SW_REF_NOT_FOUND)
      else if pk_algo k \<noteq> PGP_ALGO_ECDSA_P256 then (c, sw_only out_max SW_COND_NOT_SAT)
      else if \<not> c_pw1_user c then (c, sw_only out_max SW_SEC_NOT_SAT)
      else if ap_lc a = 0 \<or> ap_lc a > 64 \<or> ap_data a = None
      then (c, sw_only out_max SW_WRONG_DATA)
      else
        let (c, touched) = confirm_touch e 0x00D8 c in
        if \<not> touched then (c, sw_only out_max SW_COND_NOT_SAT)
        else case pe_sign e (ds_io c) (pk_d k) (apdu_bytes a) of
            None \<Rightarrow> (tick c, sw_only out_max SW_COND_NOT_SAT)
          | Some sig \<Rightarrow> (tick c, respond out_max (take 256 sig) SW_OK))"

definition card_read_pubkey :: "pgp_env \<Rightarrow> nat \<Rightarrow> apdu \<Rightarrow> card \<Rightarrow> card \<times> bytes" where
  "card_read_pubkey e out_max a c =
     (if ap_lc a = 0 \<or> ap_data a = None then (c, sw_only out_max SW_REF_NOT_FOUND)
      else case slot_from_crt (apdu_bytes a ! 0) of
        None \<Rightarrow> (c, sw_only out_max SW_REF_NOT_FOUND)
      | Some slot \<Rightarrow>
          if \<not> c_crypto_ok c then (c, sw_only out_max SW_CRYPTO_FAIL)
          else if \<not> pk_set (c_keys c slot) then (c, sw_only out_max SW_REF_NOT_FOUND)
          else if pe_pubkey e = None then (c, sw_only out_max SW_REF_NOT_FOUND)
          else build_pubkey_response e slot out_max c)"

definition card_generate :: "pgp_env \<Rightarrow> nat \<Rightarrow> apdu \<Rightarrow> card \<Rightarrow> card \<times> bytes" where
  "card_generate e out_max a c =
     (if ap_lc a = 0 \<or> ap_data a = None then (c, sw_only out_max SW_WRONG_DATA)
      else case slot_from_crt (apdu_bytes a ! 0) of
        None \<Rightarrow> (c, sw_only out_max SW_REF_NOT_FOUND)
      | Some slot \<Rightarrow>
          if \<not> c_crypto_ok c then (c, sw_only out_max SW_CRYPTO_FAIL)
          else if \<not> c_pw3_ok c then (c, sw_only out_max SW_SEC_NOT_SAT)
          else case pe_genkey e of
            None \<Rightarrow> (c, sw_only out_max SW_COND_NOT_SAT)
          | Some genkey \<Rightarrow>
          let algo = slot_algo slot c in
          case genkey (ds_io c) algo of
            None \<Rightarrow> (tick c, sw_only out_max SW_COND_NOT_SAT)
          | Some d \<Rightarrow>
              let (c', ok) = install_key e slot
                    \<lparr>pk_set = True, pk_algo = algo, pk_origin = 1, pk_d = d\<rparr> (tick c)
              in if \<not> ok then (c', sw_only out_max SW_INTERNAL)
                 else build_pubkey_response e slot out_max c')"

section \<open>Dispatch\<close>

definition openpgp_card_apdu :: "pgp_env \<Rightarrow> nat \<Rightarrow> bytes \<Rightarrow> card \<Rightarrow> card \<times> bytes" where
  "openpgp_card_apdu e out_max inp c =
     (case apdu_parse inp of
        None \<Rightarrow> (c, sw_only out_max 0x6700)
      | Some a \<Rightarrow>
      if c_terminated c then
        (if ap_ins a = 0x44
         then (fst (openpgp_card_factory_reset e (c\<lparr>c_terminated := False\<rparr>)), sw_only out_max SW_OK)
         else (c, sw_only out_max 0x6285))
      else if ap_ins a = 0xA4 then card_select out_max a c
      else if ap_ins a = 0xE6 then card_terminate e out_max c
      else if ap_ins a = 0x44 then (c, sw_only out_max SW_OK)
      else if \<not> c_selected c then (c, sw_only out_max SW_COND_NOT_SAT)
      else if ap_ins a = 0x20 then card_verify e out_max a c
      else if ap_ins a = 0x24 then card_change_ref e out_max a c
      else if ap_ins a = 0xCA then card_get_data out_max a c
      else if ap_ins a = 0xDA then card_put_data e out_max a c
      else if ap_ins a = 0xDB then card_import e out_max a c
      else if ap_ins a = 0x2A then card_pso e out_max a c
      else if ap_ins a = 0x88 then card_int_auth e out_max a c
      else if ap_ins a = 0x47 \<and> ap_p1 a = 0x81 then card_read_pubkey e out_max a c
      else if ap_ins a = 0x47 \<and> ap_p1 a = 0x80 then card_generate e out_max a c
      else (c, sw_only out_max SW_INS_NOT_SUP))"

end
