(* ===== verification/Openpgp_Props.thy ===== *)
theory Openpgp_Props
  imports Openpgp_Card
begin

unbundle bit_operations_syntax

text \<open>
  What the OpenPGP applet promises: authorisation flags rise only on the right PIN, the retry
  counters bound the guesses, objects and keys change only for the administrator, a signature
  consumes its authorisation and moves the counter, and what is saved is what is loaded.
\<close>

section \<open>Frames\<close>

definition pin_view :: "card \<Rightarrow> u8 \<times> u8 \<times> bytes \<times> u8 \<times> bytes \<times> u8" where
  "pin_view c = (c_pw1_retry c, c_pw3_retry c, c_pw1 c, c_pw1_len c, c_pw3 c, c_pw3_len c)"

definition flag_view :: "card \<Rightarrow> bool \<times> bool \<times> bool" where
  "flag_view c = (c_pw1_sign c, c_pw1_user c, c_pw3_ok c)"

lemma persist_shape:
  "\<exists>nvs io. fst (openpgp_do_persist rc c) = c\<lparr>ds_nvs := nvs, ds_io := io\<rparr>"
  by (auto simp: openpgp_do_persist_def Let_def split_beta)

lemma put_shape:
  "\<exists>dos nvs io. fst (openpgp_do_put rc t v n c) = c\<lparr>ds_dos := dos, ds_nvs := nvs, ds_io := io\<rparr>"
proof (cases "OPENPGP_DO_MAX_LEN < n \<or> find_or_alloc (ds_dos c) t = None")
  case True
  then have "fst (openpgp_do_put rc t v n c) = c\<lparr>ds_dos := ds_dos c, ds_nvs := ds_nvs c, ds_io := ds_io c\<rparr>"
    by (auto simp: openpgp_do_put_def)
  then show ?thesis by blast
next
  case False
  then obtain i where "find_or_alloc (ds_dos c) t = Some i" by auto
  then show ?thesis
    using False persist_shape [of rc "c\<lparr>ds_dos := _\<rparr>"]
    by (simp add: openpgp_do_put_def Let_def) (metis)
qed

lemma put_frame [simp]:
  "pin_view (fst (openpgp_do_put rc t v n c)) = pin_view c"
  "flag_view (fst (openpgp_do_put rc t v n c)) = flag_view c"
  "c_keys (fst (openpgp_do_put rc t v n c)) = c_keys c"
  "c_selected (fst (openpgp_do_put rc t v n c)) = c_selected c"
  "c_terminated (fst (openpgp_do_put rc t v n c)) = c_terminated c"
  "c_nvs_pins (fst (openpgp_do_put rc t v n c)) = c_nvs_pins c"
  "c_nvs_keys (fst (openpgp_do_put rc t v n c)) = c_nvs_keys c"
  using put_shape [of rc t v n c] by (auto simp: pin_view_def flag_view_def)

lemma key_persist_frame [simp]:
  "pin_view (fst (key_persist e c)) = pin_view c"
  "flag_view (fst (key_persist e c)) = flag_view c"
  "c_keys (fst (key_persist e c)) = c_keys c"
  "ds_dos (fst (key_persist e c)) = ds_dos c"
  "c_selected (fst (key_persist e c)) = c_selected c"
  "c_terminated (fst (key_persist e c)) = c_terminated c"
  "c_nvs_pins (fst (key_persist e c)) = c_nvs_pins c"
  by (simp_all add: key_persist_def split_beta Let_def pin_view_def flag_view_def)

lemma pin_persist_frame [simp]:
  "pin_view (fst (pin_persist e c)) = pin_view c"
  "flag_view (fst (pin_persist e c)) = flag_view c"
  "c_keys (fst (pin_persist e c)) = c_keys c"
  "ds_dos (fst (pin_persist e c)) = ds_dos c"
  "c_selected (fst (pin_persist e c)) = c_selected c"
  "c_terminated (fst (pin_persist e c)) = c_terminated c"
  "c_nvs_keys (fst (pin_persist e c)) = c_nvs_keys c"
  by (simp_all add: pin_persist_def split_beta Let_def pin_view_def flag_view_def)

lemma tick_frame [simp]:
  "pin_view (tick c) = pin_view c" "flag_view (tick c) = flag_view c" "c_keys (tick c) = c_keys c"
  "ds_dos (tick c) = ds_dos c" "c_selected (tick c) = c_selected c"
  "c_terminated (tick c) = c_terminated c"
  by (simp_all add: tick_def pin_view_def flag_view_def)

lemma ds_counter_frame [simp]:
  "pin_view (ds_counter_reset e c) = pin_view c" "flag_view (ds_counter_reset e c) = flag_view c"
  "c_keys (ds_counter_reset e c) = c_keys c" "c_terminated (ds_counter_reset e c) = c_terminated c"
  "pin_view (ds_counter_bump e c) = pin_view c" "flag_view (ds_counter_bump e c) = flag_view c"
  "c_keys (ds_counter_bump e c) = c_keys c" "c_terminated (ds_counter_bump e c) = c_terminated c"
  by (simp_all add: ds_counter_reset_def ds_counter_bump_def Let_def)

lemma keys_update_frame [simp]:
  "pin_view (c\<lparr>c_keys := k\<rparr>) = pin_view c" "flag_view (c\<lparr>c_keys := k\<rparr>) = flag_view c"
  by (simp_all add: pin_view_def flag_view_def)

lemma confirm_frame [simp]:
  "pin_view (fst (confirm_touch e t c)) = pin_view c"
  "flag_view (fst (confirm_touch e t c)) = flag_view c"
  "c_keys (fst (confirm_touch e t c)) = c_keys c"
  "ds_dos (fst (confirm_touch e t c)) = ds_dos c"
  "c_terminated (fst (confirm_touch e t c)) = c_terminated c"
  by (simp_all add: confirm_touch_def)

lemma install_frame [simp]:
  "pin_view (fst (install_key e s k c)) = pin_view c"
  "flag_view (fst (install_key e s k c)) = flag_view c"
  "c_terminated (fst (install_key e s k c)) = c_terminated c"
  by (simp_all add: install_key_def split_beta Let_def)

lemma build_pubkey_frame [simp]:
  "pin_view (fst (build_pubkey_response e s mx c)) = pin_view c"
  "flag_view (fst (build_pubkey_response e s mx c)) = flag_view c"
  "c_keys (fst (build_pubkey_response e s mx c)) = c_keys c"
  "ds_dos (fst (build_pubkey_response e s mx c)) = ds_dos c"
  "c_terminated (fst (build_pubkey_response e s mx c)) = c_terminated c"
  by (auto simp: build_pubkey_response_def Let_def split: option.splits)

lemma put_slice_frame [simp]:
  "pin_view (fst (put_slice e mx t l i a c)) = pin_view c"
  "flag_view (fst (put_slice e mx t l i a c)) = flag_view c"
  "c_keys (fst (put_slice e mx t l i a c)) = c_keys c"
  "c_terminated (fst (put_slice e mx t l i a c)) = c_terminated c"
  by (simp_all add: put_slice_def put_sw_def Let_def)

lemma put_data_frame [simp]:
  "pin_view (fst (card_put_data e mx a c)) = pin_view c"
  "flag_view (fst (card_put_data e mx a c)) = flag_view c"
  "c_keys (fst (card_put_data e mx a c)) = c_keys c"
  "c_terminated (fst (card_put_data e mx a c)) = c_terminated c"
  by (simp_all add: card_put_data_def put_pw_status_def put_sw_def Let_def)

lemma get_data_frame [simp]: "fst (card_get_data mx a c) = c"
  by (simp add: card_get_data_def Let_def)

lemma import_frame [simp]:
  "pin_view (fst (card_import e mx a c)) = pin_view c"
  "flag_view (fst (card_import e mx a c)) = flag_view c"
  "c_terminated (fst (card_import e mx a c)) = c_terminated c"
  by (auto simp: card_import_def split_beta Let_def split: option.splits)

lemma decipher_frame [simp]:
  "pin_view (fst (card_decipher e mx a c)) = pin_view c"
  "flag_view (fst (card_decipher e mx a c)) = flag_view c"
  "c_keys (fst (card_decipher e mx a c)) = c_keys c"
  "ds_dos (fst (card_decipher e mx a c)) = ds_dos c"
  "c_terminated (fst (card_decipher e mx a c)) = c_terminated c"
  by (auto simp: card_decipher_def split_beta Let_def split: option.splits)

lemma int_auth_frame [simp]:
  "pin_view (fst (card_int_auth e mx a c)) = pin_view c"
  "flag_view (fst (card_int_auth e mx a c)) = flag_view c"
  "c_keys (fst (card_int_auth e mx a c)) = c_keys c"
  "ds_dos (fst (card_int_auth e mx a c)) = ds_dos c"
  "c_terminated (fst (card_int_auth e mx a c)) = c_terminated c"
  by (auto simp: card_int_auth_def split_beta Let_def split: option.splits)

lemma read_pubkey_frame [simp]:
  "pin_view (fst (card_read_pubkey e mx a c)) = pin_view c"
  "flag_view (fst (card_read_pubkey e mx a c)) = flag_view c"
  "c_keys (fst (card_read_pubkey e mx a c)) = c_keys c"
  "ds_dos (fst (card_read_pubkey e mx a c)) = ds_dos c"
  "c_terminated (fst (card_read_pubkey e mx a c)) = c_terminated c"
  by (auto simp: card_read_pubkey_def split: option.splits)

lemma generate_frame [simp]:
  "pin_view (fst (card_generate e mx a c)) = pin_view c"
  "flag_view (fst (card_generate e mx a c)) = flag_view c"
  "c_terminated (fst (card_generate e mx a c)) = c_terminated c"
  by (auto simp: card_generate_def split_beta Let_def split: option.splits)

lemma pw1_sign_update_frame [simp]:
  "pin_view (c\<lparr>c_pw1_sign := b\<rparr>) = pin_view c"
  "flag_view (c\<lparr>c_pw1_sign := b\<rparr>) = (b, c_pw1_user c, c_pw3_ok c)"
  by (simp_all add: pin_view_def flag_view_def)

lemma sign_frame [simp]:
  "pin_view (fst (card_sign e mx a c)) = pin_view c"
  "c_keys (fst (card_sign e mx a c)) = c_keys c"
  "c_terminated (fst (card_sign e mx a c)) = c_terminated c"
  by (auto simp: card_sign_def split_beta Let_def split: option.splits)

lemma flag_view_iff:
  "flag_view c = (x, y, z) \<longleftrightarrow> c_pw1_sign c = x \<and> c_pw1_user c = y \<and> c_pw3_ok c = z"
  by (auto simp: flag_view_def)

lemma flags_eq:
  assumes "flag_view c' = flag_view c"
  shows "c_pw1_sign c' = c_pw1_sign c" "c_pw1_user c' = c_pw1_user c" "c_pw3_ok c' = c_pw3_ok c"
  using assms by (auto simp: flag_view_def)

lemma sign_flags:
  "flag_view (fst (card_sign e mx a c)) = flag_view c
   \<or> flag_view (fst (card_sign e mx a c)) = (False, c_pw1_user c, c_pw3_ok c)"
  using flags_eq [OF confirm_frame(2), of e "0x00D6" c]
  by (auto simp: card_sign_def split_beta Let_def split: option.splits)

section \<open>The constant-time comparison\<close>

lemma or_eq_0: "x OR y = 0 \<longleftrightarrow> x = 0 \<and> y = 0" for x y :: u8
  by (auto simp: bit_eq_iff bit_or_iff)

lemma xor_eq_0: "x XOR y = 0 \<longleftrightarrow> x = y" for x y :: u8
  by (auto simp: bit_eq_iff bit_xor_iff)

lemma ct_diff_0: "ct_diff a b n d = 0 \<longleftrightarrow> d = 0 \<and> (\<forall>i<n. a ! i = b ! i)"
proof (induction n)
  case (Suc n)
  have "ct_diff a b (Suc n) d = (ct_diff a b n d OR (a ! n XOR b ! n))"
    by (simp add: ct_diff_def)
  then show ?case using Suc by (auto simp: less_Suc_eq or_eq_0 xor_eq_0)
qed (simp add: ct_diff_def)

lemma ct_pin_equal_iff:
  assumes "unat alen \<le> length a" "unat blen \<le> length b"
  shows "ct_pin_equal a alen b blen \<longleftrightarrow> take (unat alen) a = take (unat blen) b"
proof (cases "alen = blen")
  case True
  then have "ct_pin_equal a alen b blen \<longleftrightarrow> (\<forall>i<unat alen. a ! i = b ! i)"
    by (simp add: ct_pin_equal_def Let_def ct_diff_0)
  also have "\<dots> \<longleftrightarrow> take (unat alen) a = take (unat blen) b"
    using True assms by (auto simp: list_eq_iff_nth_eq)
  finally show ?thesis .
next
  case False
  then have "length (take (unat alen) a) \<noteq> length (take (unat blen) b)"
    using assms by (simp add: word_unat_eq_iff)
  then have "take (unat alen) a \<noteq> take (unat blen) b" by metis
  then show ?thesis using False by (simp add: ct_pin_equal_def Let_def)
qed

section \<open>Well-formed cards\<close>

definition card_ok :: "card \<Rightarrow> bool" where
  "card_ok c \<longleftrightarrow> length (c_pw1 c) = 16 \<and> 6 \<le> c_pw1_len c \<and> c_pw1_len c \<le> 16
     \<and> length (c_pw3 c) = 16 \<and> 8 \<le> c_pw3_len c \<and> c_pw3_len c \<le> 16
     \<and> c_pw1_retry c \<le> 3 \<and> c_pw3_retry c \<le> 3"

lemma card_ok_cong: "pin_view c' = pin_view c \<Longrightarrow> card_ok c' = card_ok c"
  by (simp add: card_ok_def pin_view_def)

definition pin_of :: "bool \<Rightarrow> card \<Rightarrow> bytes" where
  "pin_of is_pw1 c = take (unat (pw_len is_pw1 c)) (pw_pin is_pw1 c)"

lemma pw_len_ok: "card_ok c \<Longrightarrow> unat (pw_len p c) \<le> length (pw_pin p c) \<and> pw_len p c \<le> 16
    \<and> (if p then 6 else 8) \<le> pw_len p c"
  by (auto simp: card_ok_def pw_len_def pw_pin_def word_le_nat_alt)

lemma unat_ucast_len [simp]: "unat (ucast b :: u16) = unat b" for b :: u8
  by simp

lemma verify_right:
  assumes "card_ok c" "apdu_wf a"
  shows "ct_pin_equal (apdu_bytes a) (ap_lc a) (pw_pin p c) (ucast (pw_len p c))
     \<longleftrightarrow> apdu_bytes a = pin_of p c"
proof -
  have "length (apdu_bytes a) = unat (ap_lc a)"
    using assms(2) by (auto simp: apdu_wf_def apdu_bytes_def split: option.splits)
  then show ?thesis
    using ct_pin_equal_iff [of "ap_lc a" "apdu_bytes a" "ucast (pw_len p c)" "pw_pin p c"]
      pw_len_ok [OF assms(1), of p] by (simp add: pin_of_def)
qed

lemma change_right:
  assumes "card_ok c" "unat (pw_len p c) \<le> length (apdu_bytes a)"
  shows "ct_pin_equal (apdu_bytes a) (ucast (pw_len p c)) (pw_pin p c) (ucast (pw_len p c))
     \<longleftrightarrow> take (unat (pw_len p c)) (apdu_bytes a) = pin_of p c"
  using ct_pin_equal_iff [of "ucast (pw_len p c)" "apdu_bytes a" "ucast (pw_len p c)" "pw_pin p c"]
    pw_len_ok [OF assms(1), of p] assms(2) by (simp add: pin_of_def)

section \<open>Factory reset\<close>

lemma ensure_do_frame [simp]:
  "pin_view (fst (ensure_do e d cf)) = pin_view (fst cf)"
  "flag_view (fst (ensure_do e d cf)) = flag_view (fst cf)"
  "c_keys (fst (ensure_do e d cf)) = c_keys (fst cf)"
  "c_terminated (fst (ensure_do e d cf)) = c_terminated (fst cf)"
  "c_nvs_keys (fst (ensure_do e d cf)) = c_nvs_keys (fst cf)"
  "c_nvs_pins (fst (ensure_do e d cf)) = c_nvs_pins (fst cf)"
  by (auto simp: ensure_do_def split_beta Let_def split: option.splits)

lemma ensure_fold_frame:
  assumes "\<And>d cf. f (fst (ensure_do e d cf)) = f (fst cf)"
  shows "f (fst (foldl (\<lambda>cf d. ensure_do e d cf) cf ds)) = f (fst cf)"
  by (induction ds arbitrary: cf) (simp_all add: assms)

lemma upgrade_frame [simp]:
  "pin_view (fst (upgrade_c2 e cf)) = pin_view (fst cf)"
  "flag_view (fst (upgrade_c2 e cf)) = flag_view (fst cf)"
  "c_keys (fst (upgrade_c2 e cf)) = c_keys (fst cf)"
  "c_terminated (fst (upgrade_c2 e cf)) = c_terminated (fst cf)"
  "c_nvs_keys (fst (upgrade_c2 e cf)) = c_nvs_keys (fst cf)"
  "c_nvs_pins (fst (upgrade_c2 e cf)) = c_nvs_pins (fst cf)"
  by (auto simp: upgrade_c2_def split_beta Let_def)

lemma ensure_defaults_frame [simp]:
  "pin_view (fst (openpgp_card_ensure_defaults e c)) = pin_view c"
  "flag_view (fst (openpgp_card_ensure_defaults e c)) = flag_view c"
  "c_keys (fst (openpgp_card_ensure_defaults e c)) = c_keys c"
  "c_terminated (fst (openpgp_card_ensure_defaults e c)) = c_terminated c"
  "c_nvs_keys (fst (openpgp_card_ensure_defaults e c)) = c_nvs_keys c"
  "c_nvs_pins (fst (openpgp_card_ensure_defaults e c)) = c_nvs_pins c"
  by (simp_all add: openpgp_card_ensure_defaults_def split_beta Let_def
      ensure_fold_frame [of pin_view] ensure_fold_frame [of flag_view] ensure_fold_frame [of c_keys]
      ensure_fold_frame [of c_terminated] ensure_fold_frame [of c_nvs_keys]
      ensure_fold_frame [of c_nvs_pins])

lemma set_serial_frame [simp]:
  "pin_view (openpgp_card_set_serial e sn c) = pin_view c"
  "flag_view (openpgp_card_set_serial e sn c) = flag_view c"
  "c_keys (openpgp_card_set_serial e sn c) = c_keys c"
  "c_terminated (openpgp_card_set_serial e sn c) = c_terminated c"
  "c_nvs_keys (openpgp_card_set_serial e sn c) = c_nvs_keys c"
  "c_nvs_pins (openpgp_card_set_serial e sn c) = c_nvs_pins c"
  by (simp_all add: openpgp_card_set_serial_def Let_def) (simp_all add: pin_view_def flag_view_def)

lemma reset_frame [simp]:
  "pin_view (openpgp_do_reset c) = pin_view c" "flag_view (openpgp_do_reset c) = flag_view c"
  "c_keys (openpgp_do_reset c) = c_keys c" "c_terminated (openpgp_do_reset c) = c_terminated c"
  "flag_view (pins_factory c) = flag_view c" "c_keys (pins_factory c) = c_keys c"
  "c_terminated (pins_factory c) = c_terminated c"
  by (simp_all add: openpgp_do_reset_def pins_factory_def pin_view_def flag_view_def)

lemma factory_reset_state:
  "flag_view (fst (openpgp_card_factory_reset e c)) = (False, False, False)"
  "pin_view (fst (openpgp_card_factory_reset e c)) = pin_view (pins_factory c)"
  "c_keys (fst (openpgp_card_factory_reset e c)) = (\<lambda>_. pgp_key_zero)"
  "c_terminated (fst (openpgp_card_factory_reset e c)) = c_terminated c"
proof -
  have pv: "pin_view (pins_factory c') = pin_view (pins_factory c'')" if "pin_view c' = pin_view c''" for c' c''
    using that by (simp add: pins_factory_def pin_view_def)
  show "pin_view (fst (openpgp_card_factory_reset e c)) = pin_view (pins_factory c)"
    by (simp add: openpgp_card_factory_reset_def Let_def split_beta)
      (rule pv, simp only: reset_frame key_persist_frame, simp add: pin_view_def)
qed (simp_all add: openpgp_card_factory_reset_def Let_def split_beta flag_view_def [of "_\<lparr>c_keys := _\<rparr>"]
    flag_view_def [of "c_pw3_ok_update _ _"])

section \<open>Guesses and retry counters\<close>

definition card_resets :: "bytes \<Rightarrow> card \<Rightarrow> bool" where
  "card_resets inp c =
     (case apdu_parse inp of
        None \<Rightarrow> False
      | Some a \<Rightarrow> if c_terminated c then ap_ins a = 0x44
                  else ap_ins a = 0xE6 \<and> (c_pw3_ok c \<or> c_pw1_retry c = 0 \<and> c_pw3_retry c = 0))"

definition verify_names :: "bool \<Rightarrow> u8 \<Rightarrow> bool" where
  "verify_names p p2 = (if p then p2 = 0x81 \<or> p2 = 0x82 else p2 = 0x83)"

definition change_names :: "bool \<Rightarrow> u8 \<Rightarrow> bool" where
  "change_names p p2 = (p2 = (if p then 0x81 else 0x83))"

text \<open>The secret a command compares with PIN \<open>p\<close> (PW1 for true), if it compares one.\<close>

definition pin_guess :: "bool \<Rightarrow> bytes \<Rightarrow> card \<Rightarrow> bytes option" where
  "pin_guess p inp c =
     (case apdu_parse inp of
        None \<Rightarrow> None
      | Some a \<Rightarrow>
          if c_terminated c \<or> \<not> c_selected c \<or> pw_retry p c = 0 then None
          else if ap_ins a = 0x20 \<and> verify_names p (ap_p2 a) \<and> ap_lc a \<noteq> 0 then Some (apdu_bytes a)
          else if ap_ins a = 0x24 \<and> ap_p1 a = 0 \<and> change_names p (ap_p2 a)
                  \<and> ap_lc a > ucast (pw_len p c)
                  \<and> \<not> (ap_lc a - ucast (pw_len p c) < ucast (if p then PW1_DEFAULT_LEN else PW3_DEFAULT_LEN)
                       \<or> ap_lc a - ucast (pw_len p c) > ucast PW_MAX_LEN)
          then Some (take (unat (pw_len p c)) (apdu_bytes a))
          else None)"

lemma pw_set_retry [simp]:
  "pw_retry p (set_retry q r c) = (if p = q then r else pw_retry p c)"
  "pw_pin p (set_retry q r c) = pw_pin p c" "pw_len p (set_retry q r c) = pw_len p c"
  by (auto simp: pw_retry_def set_retry_def pw_pin_def pw_len_def)

lemma pw_set_verified [simp]:
  "pin_view (set_verified p2 c) = pin_view c"
  by (simp add: set_verified_def pin_view_def)

lemma pw_clear_verified [simp]: "pin_view (clear_verified p c) = pin_view c"
  by (simp add: clear_verified_def pin_view_def)

lemma pw_cong:
  "pin_view c' = pin_view c \<Longrightarrow> pw_retry p c' = pw_retry p c"
  "pin_view c' = pin_view c \<Longrightarrow> pw_len p c' = pw_len p c"
  "pin_view c' = pin_view c \<Longrightarrow> pw_pin p c' = pw_pin p c"
  "pin_view c' = pin_view c \<Longrightarrow> pin_of p c' = pin_of p c"
  by (auto simp: pin_view_def pw_retry_def pw_len_def pw_pin_def pin_of_def)

lemma pw_max_3 [simp]: "pw_max p = 3"
  by (simp add: pw_max_def pw_consts)

lemma pw_retry_le: "card_ok c \<Longrightarrow> pw_retry p c \<le> 3"
  by (simp add: card_ok_def pw_retry_def)

lemma retry_dec_le: "r \<le> 3 \<Longrightarrow> r \<noteq> 0 \<Longrightarrow> r - 1 \<le> 3" for r :: u8
  by (simp add: word_le_nat_alt unat_minus_one)

lemma card_ok_set_retry: "card_ok c \<Longrightarrow> r \<le> 3 \<Longrightarrow> card_ok (set_retry p r c)"
  by (simp add: card_ok_def set_retry_def)

lemma card_ok_set_pin:
  assumes "card_ok c" "(if p then 6 else 8) \<le> length new" "length new \<le> 16"
  shows "card_ok (set_pin p new c)"
proof -
  have "unat (of_nat (length new) :: u8) = length new" using assms(3) by (simp add: unat_of_nat)
  then show ?thesis using assms by (auto simp: card_ok_def set_pin_def word_le_nat_alt split: if_splits)
qed

lemma verify_step:
  assumes "card_ok c" "apdu_wf a" and c'_def: "c' = fst (card_verify e mx a c)"
  shows "card_ok c' \<and> pw_retry p c' =
     (if verify_names p (ap_p2 a) \<and> pw_retry p c \<noteq> 0 \<and> ap_lc a \<noteq> 0
      then if apdu_bytes a = pin_of p c then 3 else pw_retry p c - 1
      else pw_retry p c)
    \<and> pin_of q c' = pin_of q c"
proof -
  define b where "b \<longleftrightarrow> ap_p2 a = 0x81 \<or> ap_p2 a = 0x82"
  have names: "verify_names p (ap_p2 a) \<longleftrightarrow> p = b \<and> (b \<or> ap_p2 a = 0x83)" for p
    by (auto simp: verify_names_def b_def)
  have right: "ct_pin_equal (apdu_bytes a) (ap_lc a) (pw_pin b c) (ucast (pw_len b c))
      \<longleftrightarrow> apdu_bytes a = pin_of b c"
    by (rule verify_right [OF assms(1,2)])
  have pv: "pin_view c' = pin_view (if (b \<or> ap_p2 a = 0x83) \<and> pw_retry b c \<noteq> 0 \<and> ap_lc a \<noteq> 0
      then set_retry b (if apdu_bytes a = pin_of b c then 3 else pw_retry b c - 1) c else c)"
    unfolding c'_def card_verify_def Let_def b_def [symmetric] right by simp
  have "card_ok (set_retry b (if apdu_bytes a = pin_of b c then 3 else pw_retry b c - 1) c)"
    if "pw_retry b c \<noteq> 0"
    using that assms(1) by (auto intro!: card_ok_set_retry retry_dec_le pw_retry_le)
  then have "card_ok c'" using assms(1) by (simp add: card_ok_cong [OF pv])
  then show ?thesis by (auto simp: pw_cong [OF pv] names pin_of_def)
qed

lemma pin_of_set_pin: "length new \<le> 16 \<Longrightarrow> pin_of p (set_pin p new c) = new"
  by (simp add: pin_of_def set_pin_def pw_len_def pw_pin_def unat_of_nat)

lemma pin_of_set_pin_other: "p \<noteq> q \<Longrightarrow> pin_of q (set_pin p new c) = pin_of q c"
  by (auto simp: pin_of_def set_pin_def pw_len_def pw_pin_def)

lemma pw_retry_set_pin [simp]: "pw_retry q (set_pin p new c) = pw_retry q c"
  by (simp add: pw_retry_def set_pin_def)

text \<open>A CHANGE REFERENCE DATA frame of acceptable shape for PIN \<open>p\<close>.\<close>

definition change_frame :: "bool \<Rightarrow> apdu \<Rightarrow> card \<Rightarrow> bool" where
  "change_frame p a c \<longleftrightarrow>
     ap_lc a > ucast (pw_len p c)
     \<and> \<not> (ap_lc a - ucast (pw_len p c) < ucast (if p then PW1_DEFAULT_LEN else PW3_DEFAULT_LEN)
          \<or> ap_lc a - ucast (pw_len p c) > ucast PW_MAX_LEN)"

lemma change_frame_lengths:
  assumes "change_frame p a c" "apdu_wf a"
  defines "n \<equiv> unat (ap_lc a - ucast (pw_len p c))"
  shows "unat (pw_len p c) + n = length (apdu_bytes a)" "(if p then 6 else 8) \<le> n" "n \<le> 16"
    "unat (ucast (ap_lc a - ucast (pw_len p c)) :: u8) = n"
proof -
  have len: "length (apdu_bytes a) = unat (ap_lc a)"
    using assms(2) by (auto simp: apdu_wf_def apdu_bytes_def split: option.splits)
  have gt: "unat (pw_len p c) < unat (ap_lc a)"
    using assms(1) by (simp add: change_frame_def word_less_nat_alt)
  have n: "n = unat (ap_lc a) - unat (pw_len p c)"
    using gt by (simp add: n_def unat_sub word_le_nat_alt)
  show "unat (pw_len p c) + n = length (apdu_bytes a)" using n gt len by simp
  show le: "n \<le> 16" "(if p then 6 else 8) \<le> n"
    using assms(1) by (auto simp: change_frame_def n_def pw_consts word_less_nat_alt not_less
        split: if_splits)
  have "take_bit 8 n = n" using le(1) by (intro take_bit_nat_eq_self) simp
  then show "unat (ucast (ap_lc a - ucast (pw_len p c)) :: u8) = n"
    by (simp add: unsigned_ucast_eq n_def)
qed

lemma change_step:
  assumes "card_ok c" "apdu_wf a" and c'_def: "c' = fst (card_change_ref e mx a c)"
  shows "card_ok c' \<and> pw_retry p c' =
     (if ap_p1 a = 0 \<and> change_names p (ap_p2 a) \<and> pw_retry p c \<noteq> 0 \<and> change_frame p a c
      then if take (unat (pw_len p c)) (apdu_bytes a) = pin_of p c then 3 else pw_retry p c - 1
      else pw_retry p c)"
proof -
  define b where "b \<longleftrightarrow> ap_p2 a = 0x81"
  have names: "change_names p (ap_p2 a) \<longleftrightarrow> p = b \<and> (b \<or> ap_p2 a = 0x83)" for p
    by (auto simp: change_names_def b_def)
  let ?go = "ap_p1 a = 0 \<and> (b \<or> ap_p2 a = 0x83) \<and> pw_retry b c \<noteq> 0 \<and> change_frame b a c"
  let ?right = "take (unat (pw_len b c)) (apdu_bytes a) = pin_of b c"
  let ?new = "take (unat (ucast (ap_lc a - ucast (pw_len b c)) :: u8)) (drop (unat (pw_len b c)) (apdu_bytes a))"
  have right: "ct_pin_equal (apdu_bytes a) (ucast (pw_len b c)) (pw_pin b c) (ucast (pw_len b c)) \<longleftrightarrow> ?right"
    if "change_frame b a c"
    using change_right [OF assms(1), of b a] change_frame_lengths [OF that assms(2)] by linarith
  have pv: "pin_view c' = pin_view (if \<not> ?go then c
      else if ?right then set_retry b 3 (set_pin b ?new c) else set_retry b (pw_retry b c - 1) c)"
  proof (cases "change_frame b a c")
    case True
    then show ?thesis
      unfolding c'_def card_change_ref_def Let_def b_def [symmetric] right [OF True]
      by (cases b) (simp_all add: change_frame_def not_le [symmetric])
  next
    case False
    then show ?thesis
      unfolding c'_def card_change_ref_def Let_def b_def [symmetric]
      by (cases b) (auto simp: change_frame_def not_le [symmetric])
  qed
  have "card_ok (if \<not> ?go then c
      else if ?right then set_retry b 3 (set_pin b ?new c) else set_retry b (pw_retry b c - 1) c)"
    using assms(1) change_frame_lengths [of b a c, OF _ assms(2)]
    by (auto intro!: card_ok_set_retry card_ok_set_pin retry_dec_le pw_retry_le)
  then have "card_ok c'" by (simp only: card_ok_cong [OF pv])
  then show ?thesis by (auto simp: pw_cong [OF pv] names)
qed

lemma card_ok_pins_factory: "card_ok c \<Longrightarrow> card_ok (pins_factory c)"
  by (simp add: card_ok_def pins_factory_def pw_consts PW1_DEFAULT_def PW3_DEFAULT_def)

lemma card_ok_reset: "card_ok c \<Longrightarrow> card_ok (fst (openpgp_card_factory_reset e c))"
  by (simp add: card_ok_cong [OF factory_reset_state(2)] card_ok_pins_factory)

lemma pins_factory_retry: "pw_retry p (pins_factory c) = 3"
  by (simp add: pw_retry_def pins_factory_def pw_consts)

lemma apdu_other:
  assumes "apdu_parse inp = Some a" "\<not> card_resets inp c"
    "c_terminated c \<or> \<not> c_selected c \<or> ap_ins a \<noteq> 0x20 \<and> ap_ins a \<noteq> 0x24"
  shows "pin_view (fst (openpgp_card_apdu e mx inp c)) = pin_view c"
proof -
  have "pin_view (fst (card_select mx a c)) = pin_view c"
    by (simp add: card_select_def pin_view_def)
  moreover have "pin_view (fst (card_terminate e mx c)) = pin_view c" if "ap_ins a = 0xE6" "\<not> c_terminated c"
    using that assms(1,2) by (auto simp: card_terminate_def card_resets_def)
  ultimately show ?thesis
    using assms by (auto simp: openpgp_card_apdu_def card_pso_def card_resets_def)
qed

lemma apdu_reset:
  assumes "card_resets inp c"
  shows "\<exists>t. pin_view (fst (openpgp_card_apdu e mx inp c))
        = pin_view (fst (openpgp_card_factory_reset e (c\<lparr>c_terminated := t\<rparr>)))
      \<and> flag_view (fst (openpgp_card_apdu e mx inp c)) = (False, False, False)
      \<and> c_keys (fst (openpgp_card_apdu e mx inp c)) = (\<lambda>_. pgp_key_zero)"
proof -
  obtain a where a: "apdu_parse inp = Some a" using assms by (auto simp: card_resets_def split: option.splits)
  show ?thesis
  proof (cases "c_terminated c")
    case True
    then show ?thesis
      using assms a by (auto simp: openpgp_card_apdu_def card_resets_def factory_reset_state)
  next
    case False
    then have t: "c\<lparr>c_terminated := False\<rparr> = c" by simp
    have "pin_view (c'\<lparr>c_terminated := True\<rparr>) = pin_view c'"
      "flag_view (c'\<lparr>c_terminated := True\<rparr>) = flag_view c'" for c'
      by (simp_all add: pin_view_def flag_view_def)
    with False assms a show ?thesis
      by (intro exI [of _ False])
        (auto simp: openpgp_card_apdu_def card_resets_def card_terminate_def factory_reset_state t)
  qed
qed

text \<open>What one command does to a retry counter.\<close>

lemma apdu_retry:
  assumes "card_ok c"
  shows "card_ok (fst (openpgp_card_apdu e mx inp c))
    \<and> pw_retry p (fst (openpgp_card_apdu e mx inp c)) =
       (if card_resets inp c then 3
        else case pin_guess p inp c of
               None \<Rightarrow> pw_retry p c
             | Some g \<Rightarrow> if g = pin_of p c then 3 else pw_retry p c - 1)"
proof (cases "apdu_parse inp")
  case None
  then show ?thesis
    using assms by (simp add: openpgp_card_apdu_def pin_guess_def card_resets_def)
next
  case (Some a)
  have wf: "apdu_wf a" by (rule apdu_parse_wf [OF Some])
  show ?thesis
  proof (cases "card_resets inp c")
    case True
    then obtain t where "pin_view (fst (openpgp_card_apdu e mx inp c))
        = pin_view (fst (openpgp_card_factory_reset e (c\<lparr>c_terminated := t\<rparr>)))"
      using apdu_reset by blast
    also have "\<dots> = pin_view (pins_factory (c\<lparr>c_terminated := t\<rparr>))"
      by (rule factory_reset_state)
    finally have pv: "pin_view (fst (openpgp_card_apdu e mx inp c))
        = pin_view (pins_factory (c\<lparr>c_terminated := t\<rparr>))" .
    have "card_ok (c\<lparr>c_terminated := t\<rparr>)" using assms by (simp add: card_ok_def)
    then show ?thesis
      using True by (simp add: card_ok_cong [OF pv] pw_cong [OF pv] card_ok_pins_factory pins_factory_retry)
  next
    case False
    show ?thesis
    proof (cases "c_terminated c \<or> \<not> c_selected c \<or> ap_ins a \<noteq> 0x20 \<and> ap_ins a \<noteq> 0x24")
      case True
      note pv = apdu_other [OF Some False True, of e mx]
      show ?thesis
        using assms True Some False by (auto simp: card_ok_cong [OF pv] pw_cong [OF pv] pin_guess_def)
    next
      case nt: False
      then have ins: "ap_ins a = 0x20 \<or> ap_ins a = 0x24" by auto
      then show ?thesis
      proof
        assume i: "ap_ins a = 0x20"
        have "openpgp_card_apdu e mx inp c = card_verify e mx a c"
          using nt i Some by (simp add: openpgp_card_apdu_def)
        with verify_step [OF assms wf, of _ e mx p] i nt Some False show ?thesis
          by (auto simp: pin_guess_def)
      next
        assume i: "ap_ins a = 0x24"
        have "openpgp_card_apdu e mx inp c = card_change_ref e mx a c"
          using nt i Some by (simp add: openpgp_card_apdu_def)
        with change_step [OF assms wf, of _ e mx p] i nt Some False show ?thesis
          by (auto simp: pin_guess_def change_frame_def)
      qed
    qed
  qed
qed

section \<open>Guesses over a session\<close>

fun card_run :: "pgp_env \<Rightarrow> nat \<Rightarrow> bytes list \<Rightarrow> card \<Rightarrow> card" where
  "card_run e mx [] c = c"
| "card_run e mx (inp # inps) c = card_run e mx inps (fst (openpgp_card_apdu e mx inp c))"

text \<open>
  The number of wrong guesses of PIN \<open>p\<close> in a session, \<open>None\<close> when a guess was right or the card
  was reset.
\<close>

fun wrong_guesses :: "pgp_env \<Rightarrow> nat \<Rightarrow> bool \<Rightarrow> bytes list \<Rightarrow> card \<Rightarrow> nat option" where
  "wrong_guesses e mx p [] c = Some 0"
| "wrong_guesses e mx p (inp # inps) c =
     (if card_resets inp c \<or> pin_guess p inp c = Some (pin_of p c) then None
      else map_option (\<lambda>n. n + (if pin_guess p inp c = None then 0 else 1))
             (wrong_guesses e mx p inps (fst (openpgp_card_apdu e mx inp c))))"

lemma card_run_ok: "card_ok c \<Longrightarrow> card_ok (card_run e mx inps c)"
  by (induction inps arbitrary: c) (auto dest: apdu_retry)

text \<open>
  C1: The retry counter bounds an attacker: in any session of arbitrary commands in which no
  guess of the PIN is right and the card is not reset, at most as many guesses are compared as
  the counter held (three on a fresh card), and the counter has dropped by exactly that many.
\<close>

theorem pin_bruteforce_bounded:
  assumes "card_ok c" "wrong_guesses e mx p inps c = Some n"
  shows "n \<le> unat (pw_retry p c) \<and> n \<le> 3
    \<and> unat (pw_retry p (card_run e mx inps c)) = unat (pw_retry p c) - n"
proof -
  have "n \<le> unat (pw_retry p c) \<and> unat (pw_retry p (card_run e mx inps c)) = unat (pw_retry p c) - n"
    using assms
  proof (induction inps arbitrary: c n)
    case (Cons inp inps)
    let ?c = "fst (openpgp_card_apdu e mx inp c)"
    from Cons.prems(2) obtain m where m: "wrong_guesses e mx p inps ?c = Some m"
      "\<not> card_resets inp c" "pin_guess p inp c \<noteq> Some (pin_of p c)"
      "n = m + (if pin_guess p inp c = None then 0 else 1)"
      by (auto split: if_splits)
    note step = apdu_retry [OF Cons.prems(1), of e mx inp p]
    have IH: "m \<le> unat (pw_retry p ?c)" "unat (pw_retry p (card_run e mx inps ?c)) = unat (pw_retry p ?c) - m"
      using Cons.IH [of ?c m] m(1) step by auto
    show ?case
    proof (cases "pin_guess p inp c")
      case None
      with IH m step show ?thesis by simp
    next
      case (Some g)
      then have nz: "pw_retry p c \<noteq> 0" by (auto simp: pin_guess_def split: option.splits if_splits)
      have "unat (pw_retry p ?c) = unat (pw_retry p c) - 1"
        using step Some m(2,3) nz by (simp add: unat_minus_one)
      moreover have "unat (pw_retry p c) \<noteq> 0" using nz by (simp add: unat_eq_zero)
      ultimately show ?thesis using IH m(4) Some by simp
    qed
  qed simp
  moreover have "unat (pw_retry p c) \<le> 3"
    using pw_retry_le [OF assms(1), of p] by (simp add: word_le_nat_alt)
  ultimately show ?thesis by simp
qed

section \<open>A concrete card\<close>

text \<open>A blank card (all statics zero) with an environment whose every call succeeds.\<close>

definition blank_card :: card where
  "blank_card = \<lparr>ds_dos = do_table_zero, ds_nvs = None, ds_io = 0, c_selected = False,
     c_terminated = False, c_pw1_sign = False, c_pw1_user = False, c_pw3_ok = False,
     c_pw1_retry = 0, c_pw3_retry = 0, c_crypto_ok = True,
     c_pw1 = replicate 16 0, c_pw1_len = 0, c_pw3 = replicate 16 0, c_pw3_len = 0,
     c_keys = (\<lambda>_. pgp_key_zero), c_serial = [0, 0, 0, 0], c_serial_set = False,
     c_nvs_pins = None, c_nvs_keys = None, c_nvs_key_v1 = None\<rparr>"

definition good_env :: pgp_env where
  "good_env = \<lparr>pe_nvs = (\<lambda>_. NvsOk), pe_sign = (\<lambda>_ _ h. Some (take 20 h)), pe_confirm = (\<lambda>_. 1),
     pe_pubkey = Some (\<lambda>_ _ d. Some (replicate 65 1)), pe_ecdh = Some (\<lambda>_ _ p. Some p),
     pe_genkey = Some (\<lambda>_ _. Some (replicate 32 7))\<rparr>"

definition fresh_card :: card where
  "fresh_card = fst (openpgp_card_ensure_defaults good_env (openpgp_card_init blank_card))"

definition apdu_select :: bytes where
  "apdu_select = [0x00, 0xA4, 0x04, 0x00, 6] @ OPGP_AID_PREFIX"

definition apdu_verify :: "u8 \<Rightarrow> bytes \<Rightarrow> bytes" where
  "apdu_verify p2 pin = [0x00, 0x20, 0x00, p2, of_nat (length pin)] @ pin"

definition ready_card :: card where
  "ready_card = openpgp_card_init blank_card"

lemma ready_card_ok: "card_ok ready_card"
  by (simp add: ready_card_def openpgp_card_init_def card_ok_def pins_factory_def blank_card_def
      pw_consts PW1_DEFAULT_def PW3_DEFAULT_def)

lemma ready_wrong_guesses:
  "wrong_guesses good_env 512 True [apdu_select, apdu_verify 0x81 [0x30, 0x30, 0x30]] ready_card = Some 1"
  by code_simp

lemma pin_bruteforce_bounded_witness:
  "unat (pw_retry True (card_run good_env 512
      [apdu_select, apdu_verify 0x81 [0x30, 0x30, 0x30]] ready_card)) = unat (pw_retry True ready_card) - 1"
  using pin_bruteforce_bounded [OF ready_card_ok ready_wrong_guesses] by simp

end
