(* ===== verification/Openpgp_Auth.thy ===== *)
theory Openpgp_Auth
  imports Openpgp_Props
begin

unbundle bit_operations_syntax

text \<open>
  Authorisation in the OpenPGP applet: which commands raise the verified flags, write objects
  or keys, and sign; and what survives a power cycle.
\<close>

section \<open>Flags rise only on the right PIN\<close>

lemma set_retry_flags [simp]: "flag_view (set_retry p r c) = flag_view c"
  by (simp add: set_retry_def flag_view_def)

lemma set_pin_flags [simp]: "flag_view (set_pin p new c) = flag_view c"
  by (simp add: set_pin_def flag_view_def)

lemma set_verified_flags:
  "flag_view (set_verified p2 c) = (c_pw1_sign c \<or> p2 = 0x81, c_pw1_user c \<or> p2 = 0x82,
     c_pw3_ok c \<or> p2 \<noteq> 0x81 \<and> p2 \<noteq> 0x82)"
  by (auto simp: set_verified_def flag_view_def)

lemma verify_flags:
  assumes "card_ok c" "apdu_wf a"
  shows "flag_view (fst (card_verify e mx a c)) =
     (let p = (ap_p2 a \<noteq> 0x83) in
      if ap_p2 a \<in> {0x81, 0x82, 0x83} \<and> pw_retry p c \<noteq> 0 \<and> ap_lc a \<noteq> 0 \<and> apdu_bytes a = pin_of p c
      then flag_view (set_verified (ap_p2 a) c) else flag_view c)"
proof -
  define b where "b \<longleftrightarrow> ap_p2 a = 0x81 \<or> ap_p2 a = 0x82"
  have right: "ct_pin_equal (apdu_bytes a) (ap_lc a) (pw_pin b c) (ucast (pw_len b c))
      \<longleftrightarrow> apdu_bytes a = pin_of b c"
    by (rule verify_right [OF assms])
  have sv: "flag_view (set_verified x (set_retry y z c)) = flag_view (set_verified x c)" for x y z
    using flags_eq [OF set_retry_flags, of y z c] by (simp add: set_verified_flags)
  have "flag_view (fst (card_verify e mx a c)) =
     (if (b \<or> ap_p2 a = 0x83) \<and> pw_retry b c \<noteq> 0 \<and> ap_lc a \<noteq> 0 \<and> apdu_bytes a = pin_of b c
      then flag_view (set_verified (ap_p2 a) c) else flag_view c)"
    unfolding card_verify_def Let_def b_def [symmetric] right by (simp add: sv)
  moreover have "(ap_p2 a \<noteq> 0x83) = b" if "ap_p2 a \<in> {0x81, 0x82, 0x83}"
    using that by (auto simp: b_def)
  ultimately show ?thesis by (auto simp: Let_def b_def)
qed

lemma change_flags:
  "fst (flag_view (fst (card_change_ref e mx a c))) \<longrightarrow> c_pw1_sign c"
  "fst (snd (flag_view (fst (card_change_ref e mx a c)))) \<longrightarrow> c_pw1_user c"
  "snd (snd (flag_view (fst (card_change_ref e mx a c)))) \<longrightarrow> c_pw3_ok c"
  by (simp_all add: card_change_ref_def Let_def)
    (simp_all add: flag_view_def clear_verified_def set_retry_def set_pin_def)

text \<open>A command of the session that raises no flag: anything but VERIFY.\<close>

definition flags_le :: "card \<Rightarrow> card \<Rightarrow> bool" where
  "flags_le c' c \<longleftrightarrow> (c_pw1_sign c' \<longrightarrow> c_pw1_sign c) \<and> (c_pw1_user c' \<longrightarrow> c_pw1_user c)
     \<and> (c_pw3_ok c' \<longrightarrow> c_pw3_ok c)"

lemma flags_le_refl: "flag_view c' = flag_view c \<Longrightarrow> flags_le c' c"
  by (simp add: flags_le_def flag_view_def)

lemma change_flags_le: "flags_le (fst (card_change_ref e mx a c)) c"
  using change_flags [of e mx a c] by (simp add: flags_le_def flag_view_def)

lemma sign_flags_le: "flags_le (fst (card_sign e mx a c)) c"
  using sign_flags [of e mx a c] by (auto simp: flags_le_def flag_view_def)

lemma select_flags_le: "flags_le (fst (card_select mx a c)) c"
  by (simp add: card_select_def flags_le_def)

lemma reset_flags_le: "card_resets inp c \<Longrightarrow> flags_le (fst (openpgp_card_apdu e mx inp c)) c"
  using apdu_reset [of inp c e mx] by (auto simp: flags_le_def flag_view_def)

lemma apdu_flags_le:
  assumes "apdu_parse inp = Some a" "c_terminated c \<or> \<not> c_selected c \<or> ap_ins a \<noteq> 0x20"
  shows "flags_le (fst (openpgp_card_apdu e mx inp c)) c"
proof (cases "card_resets inp c")
  case False
  then have "\<not> c_terminated c \<Longrightarrow> ap_ins a = 0xE6 \<Longrightarrow> fst (card_terminate e mx c) = c"
    using assms(1) by (auto simp: card_resets_def card_terminate_def)
  with False assms show ?thesis
    by (auto simp: openpgp_card_apdu_def card_pso_def card_resets_def flags_le_refl change_flags_le
        sign_flags_le select_flags_le)
qed (rule reset_flags_le)

lemma verify_flag_rise:
  assumes "card_ok c" "apdu_wf a" and c': "c' = fst (card_verify e mx a c)"
  shows "(c_pw1_sign c' \<and> \<not> c_pw1_sign c \<longrightarrow> ap_p2 a = 0x81 \<and> pw_retry True c \<noteq> 0 \<and> ap_lc a \<noteq> 0 \<and> apdu_bytes a = pin_of True c)
    \<and> (c_pw1_user c' \<and> \<not> c_pw1_user c \<longrightarrow> ap_p2 a = 0x82 \<and> pw_retry True c \<noteq> 0 \<and> ap_lc a \<noteq> 0 \<and> apdu_bytes a = pin_of True c)
    \<and> (c_pw3_ok c' \<and> \<not> c_pw3_ok c \<longrightarrow> ap_p2 a = 0x83 \<and> pw_retry False c \<noteq> 0 \<and> ap_lc a \<noteq> 0 \<and> apdu_bytes a = pin_of False c)"
proof -
  have "(c_pw1_sign c', c_pw1_user c', c_pw3_ok c') =
     (let p = (ap_p2 a \<noteq> 0x83) in
      if ap_p2 a \<in> {0x81, 0x82, 0x83} \<and> pw_retry p c \<noteq> 0 \<and> ap_lc a \<noteq> 0 \<and> apdu_bytes a = pin_of p c
      then (c_pw1_sign c \<or> ap_p2 a = 0x81, c_pw1_user c \<or> ap_p2 a = 0x82,
            c_pw3_ok c \<or> ap_p2 a \<noteq> 0x81 \<and> ap_p2 a \<noteq> 0x82)
      else (c_pw1_sign c, c_pw1_user c, c_pw3_ok c))"
    using verify_flags [OF assms(1,2), of e mx] unfolding c' set_verified_flags unfolding flag_view_def .
  then show ?thesis by (auto simp: Let_def split: if_splits)
qed

lemma apdu_flag_rise:
  assumes "card_ok c" and c': "c' = fst (openpgp_card_apdu e mx inp c)"
  shows "(c_pw1_sign c' \<and> \<not> c_pw1_sign c \<longrightarrow> pin_guess True inp c = Some (pin_of True c)
            \<and> (\<exists>a. apdu_parse inp = Some a \<and> ap_ins a = 0x20 \<and> ap_p2 a = 0x81))
    \<and> (c_pw1_user c' \<and> \<not> c_pw1_user c \<longrightarrow> pin_guess True inp c = Some (pin_of True c)
            \<and> (\<exists>a. apdu_parse inp = Some a \<and> ap_ins a = 0x20 \<and> ap_p2 a = 0x82))
    \<and> (c_pw3_ok c' \<and> \<not> c_pw3_ok c \<longrightarrow> pin_guess False inp c = Some (pin_of False c)
            \<and> (\<exists>a. apdu_parse inp = Some a \<and> ap_ins a = 0x20 \<and> ap_p2 a = 0x83))"
proof (cases "apdu_parse inp")
  case None
  then show ?thesis by (simp add: c' openpgp_card_apdu_def)
next
  case (Some a)
  show ?thesis
  proof (cases "c_terminated c \<or> \<not> c_selected c \<or> ap_ins a \<noteq> 0x20")
    case True
    then show ?thesis using apdu_flags_le [OF Some True, of e mx] by (auto simp: c' flags_le_def)
  next
    case False
    then have "c' = fst (card_verify e mx a c)" using Some by (simp add: c' openpgp_card_apdu_def)
    from verify_flag_rise [OF assms(1) apdu_parse_wf [OF Some] this] False Some show ?thesis
      by (auto simp: pin_guess_def verify_names_def)
  qed
qed

text \<open>
  A verified flag of the card rises only through a VERIFY command that names it (81 to
  sign, 82 to decrypt and authenticate, 83 for the administrator) and carries exactly the PIN,
  while that PIN is not blocked.
\<close>

theorem flags_need_pin:
  assumes "card_ok c" and c': "c' = fst (openpgp_card_apdu e mx inp c)"
  shows "(c_pw1_sign c' \<and> \<not> c_pw1_sign c \<longrightarrow> pin_guess True inp c = Some (pin_of True c)
            \<and> (\<exists>a. apdu_parse inp = Some a \<and> ap_ins a = 0x20 \<and> ap_p2 a = 0x81))
    \<and> (c_pw1_user c' \<and> \<not> c_pw1_user c \<longrightarrow> pin_guess True inp c = Some (pin_of True c)
            \<and> (\<exists>a. apdu_parse inp = Some a \<and> ap_ins a = 0x20 \<and> ap_p2 a = 0x82))
    \<and> (c_pw3_ok c' \<and> \<not> c_pw3_ok c \<longrightarrow> pin_guess False inp c = Some (pin_of False c)
            \<and> (\<exists>a. apdu_parse inp = Some a \<and> ap_ins a = 0x20 \<and> ap_p2 a = 0x83))"
  by (rule apdu_flag_rise [OF assms])

lemma flags_need_pin_witness:
  "pin_guess True (apdu_verify 0x81 PW1_DEFAULT) (ready_card\<lparr>c_selected := True\<rparr>)
     = Some (pin_of True (ready_card\<lparr>c_selected := True\<rparr>))"
proof -
  have ok: "card_ok (ready_card\<lparr>c_selected := True\<rparr>)"
    using ready_card_ok by (simp add: card_ok_def)
  have "c_pw1_sign (fst (openpgp_card_apdu good_env 512 (apdu_verify 0x81 PW1_DEFAULT)
      (ready_card\<lparr>c_selected := True\<rparr>))) \<and> \<not> c_pw1_sign (ready_card\<lparr>c_selected := True\<rparr>)"
    by code_simp
  then show ?thesis
    using flags_need_pin [OF ok refl, of good_env 512 "apdu_verify 0x81 PW1_DEFAULT"] by blast
qed

section \<open>Objects and keys change for the administrator only\<close>

lemma do_get_cong: "ds_dos c' = ds_dos c \<Longrightarrow> openpgp_do_get t c' = openpgp_do_get t c" for c c' :: card
  by (simp add: openpgp_do_get_def)

lemma put_other_get:
  assumes "t' \<noteq> t" "length d = n"
  shows "openpgp_do_get t' (fst (openpgp_do_put rc t (Some d) n c)) = openpgp_do_get t' c"
  using do_kv.put_other [OF assms(1), of rc d c] by (simp add: openpgp_do_put_Some assms(2))

lemma be24_bytes_length [simp]: "length (be24_bytes n) = 3"
  by (simp add: be24_bytes_def)

lemma bump_other: "t \<noteq> 0x93 \<Longrightarrow> openpgp_do_get t (ds_counter_bump e c) = openpgp_do_get t c"
  by (simp add: ds_counter_bump_def Let_def put_other_get)

lemma sign_dos:
  "openpgp_do_get t (fst (card_sign e mx a c)) \<noteq> openpgp_do_get t c \<Longrightarrow> t = 0x93 \<and> c_pw1_sign c"
proof -
  have same: "openpgp_do_get t (fst (confirm_touch e u c)) = openpgp_do_get t c"
    "openpgp_do_get t (tick c') = openpgp_do_get t c'"
    "openpgp_do_get t (c'\<lparr>c_pw1_sign := b\<rparr>) = openpgp_do_get t c'" for u c' b
    by (rule do_get_cong, simp)+
  assume ne: "openpgp_do_get t (fst (card_sign e mx a c)) \<noteq> openpgp_do_get t c"
  have "c_pw1_sign c" using ne by (rule contrapos_np) (simp add: card_sign_def)
  moreover have "t = 0x93"
    using ne
    by (rule contrapos_np)
      (simp add: card_sign_def Let_def split_beta same bump_other split: option.splits)
  ultimately show "t = 0x93 \<and> c_pw1_sign c" by simp
qed

lemma pin_cmds_dos [simp]:
  "ds_dos (set_retry p r c) = ds_dos c" "ds_dos (set_pin p new c) = ds_dos c"
  "ds_dos (set_verified p2 c) = ds_dos c" "ds_dos (clear_verified p c) = ds_dos c"
  "c_keys (set_retry p r c) = c_keys c" "c_keys (set_pin p new c) = c_keys c"
  "c_keys (set_verified p2 c) = c_keys c" "c_keys (clear_verified p c) = c_keys c"
  by (simp_all add: set_retry_def set_pin_def set_verified_def clear_verified_def)

lemma pin_commands_frame [simp]:
  "ds_dos (fst (card_verify e mx a c)) = ds_dos c" "c_keys (fst (card_verify e mx a c)) = c_keys c"
  "ds_dos (fst (card_change_ref e mx a c)) = ds_dos c"
  "c_keys (fst (card_change_ref e mx a c)) = c_keys c"
  "ds_dos (fst (card_select mx a c)) = ds_dos c" "c_keys (fst (card_select mx a c)) = c_keys c"
  by (simp_all add: card_verify_def card_change_ref_def card_select_def Let_def)

lemma admin_commands:
  assumes "\<not> c_pw3_ok c"
  shows "fst (card_put_data e mx a c) = c" "fst (card_import e mx a c) = c"
    "fst (card_generate e mx a c) = c"
  using assms by (simp_all add: card_put_data_def card_import_def card_generate_def split: option.splits)

text \<open>
  C3: Whatever a host sends, a data object or a private key slot changes only while the
  administrator PIN is verified or by a permitted factory reset; the one exception is the
  signature counter, which only a signing session moves.
\<close>

theorem writes_need_admin:
  assumes c': "c' = fst (openpgp_card_apdu e mx inp c)"
  shows "(openpgp_do_get t c' \<noteq> openpgp_do_get t c \<longrightarrow>
            c_pw3_ok c \<or> card_resets inp c \<or> t = 0x93 \<and> c_pw1_sign c)
    \<and> (c_keys c' \<noteq> c_keys c \<longrightarrow> c_pw3_ok c \<or> card_resets inp c)"
proof (cases "c_pw3_ok c \<or> card_resets inp c")
  case False
  then have nt: "\<not> c_terminated c \<Longrightarrow> apdu_parse inp = Some a \<Longrightarrow> ap_ins a = 0xE6 \<Longrightarrow>
      card_terminate e mx c = (c, sw_only mx SW_SEC_NOT_SAT)" for a
    by (auto simp: card_resets_def card_terminate_def)
  have "(ds_dos c' = ds_dos c \<or> (\<exists>a. c' = fst (card_sign e mx a c))) \<and> c_keys c' = c_keys c"
  proof (cases "apdu_parse inp")
    case (Some a)
    have "c_terminated c \<Longrightarrow> ap_ins a \<noteq> 0x44" using False Some by (simp add: card_resets_def)
    then show ?thesis
      using False nt [OF _ Some] Some
      by (cases "c_terminated c"; cases "ap_ins a = 0x2A")
        (auto simp: c' openpgp_card_apdu_def card_pso_def admin_commands)
  qed (simp add: c' openpgp_card_apdu_def)
  then show ?thesis using sign_dos [of t e mx _ c] do_get_cong [of c' c t] by auto
qed auto

lemma writes_need_admin_witness:
  "openpgp_do_get 0x5B (fst (openpgp_card_apdu good_env 512 [0, 0xDA, 0, 0x5B, 1, 0x41]
      (ready_card\<lparr>c_selected := True\<rparr>))) = openpgp_do_get 0x5B (ready_card\<lparr>c_selected := True\<rparr>)"
proof -
  have "\<not> c_pw3_ok (ready_card\<lparr>c_selected := True\<rparr>)" by (simp add: ready_card_def openpgp_card_init_def pins_factory_def)
  moreover have "\<not> card_resets [0, 0xDA, 0, 0x5B, 1, 0x41] (ready_card\<lparr>c_selected := True\<rparr>)"
    by code_simp
  ultimately show ?thesis
    using writes_need_admin [OF refl, of "0x5B" good_env 512 "[0, 0xDA, 0, 0x5B, 1, 0x41]"
        "ready_card\<lparr>c_selected := True\<rparr>"] by auto
qed

section \<open>Signatures\<close>

definition rsp_sw :: "bytes \<Rightarrow> u16" where
  "rsp_sw r = (if length r < 2 then 0 else be16 (r ! (length r - 2)) (r ! (length r - 1)))"

lemma rsp_sw_snoc: "rsp_sw (xs @ [a, b]) = be16 a b"
  by (simp add: rsp_sw_def nth_append)

lemma rsp_sw_respond [simp]: "2 \<le> mx \<Longrightarrow> rsp_sw (respond mx d sw) = sw"
  by (simp add: respond_def rsp_sw_snoc)

lemma rsp_sw_only [simp]: "2 \<le> mx \<Longrightarrow> rsp_sw (sw_only mx sw) = sw"
  by (simp add: sw_only_def)

definition is_sign_cmd :: "bytes \<Rightarrow> bool" where
  "is_sign_cmd inp = (case apdu_parse inp of None \<Rightarrow> False
     | Some a \<Rightarrow> ap_ins a = 0x2A \<and> ap_p1 a = 0x9E \<and> ap_p2 a = 0x9A)"

definition ds_counter :: "card \<Rightarrow> u32" where
  "ds_counter c = (case openpgp_do_get 0x93 c of Some v \<Rightarrow> if length v = 3 then be24 v else 0 | None \<Rightarrow> 0)"

lemma be24_be24_bytes: "be24 (be24_bytes n) = take_bit 24 n"
proof (rule bit_word_eqI)
  fix k assume "k < LENGTH(32)"
  then show "bit (be24 (be24_bytes n)) k = bit (take_bit 24 n) k"
    by (cases "k < 8"; cases "k < 16") (auto simp: be24_def be24_bytes_def bit_simps)
qed

lemma be24_zero: "be24 [0, 0, 0] = 0"
  by (simp add: be24_def)

lemma bump_counter:
  assumes "do_fits 0x93 (be24_bytes (ds_counter c + 1)) c"
  shows "ds_counter (ds_counter_bump e c) = take_bit 24 (ds_counter c + 1)"
proof -
  have "ds_counter_bump e c = fst (do_put (pe_nvs e) 0x93 (be24_bytes (ds_counter c + 1)) c)"
    by (simp add: ds_counter_bump_def ds_counter_def Let_def openpgp_do_put_Some be24_zero
        split: option.splits)
  with do_kv.put_get [OF assms, of "pe_nvs e"] show ?thesis
    by (simp add: ds_counter_def be24_be24_bytes)
qed

lemma do_fits_present:
  assumes "openpgp_do_get t c = Some w" "length v \<le> 255"
  shows "do_fits t v c"
  using assms by (auto simp: do_fits_def openpgp_do_get_def find_or_alloc_def OPENPGP_DO_MAX_LEN_def
      split: option.splits)

lemma multi_cong: "ds_dos c' = ds_dos c \<Longrightarrow> pw1_multi c' = pw1_multi c"
  by (simp add: pw1_multi_def do_get_cong [of c' c])

lemma counter_cong: "ds_dos c' = ds_dos c \<Longrightarrow> ds_counter c' = ds_counter c"
  by (simp add: ds_counter_def do_get_cong [of c' c])

lemma sw_not_ok [simp]:
  "SW_CRYPTO_FAIL \<noteq> SW_OK" "SW_REF_NOT_FOUND \<noteq> SW_OK" "SW_SEC_NOT_SAT \<noteq> SW_OK"
  "SW_WRONG_DATA \<noteq> SW_OK" "SW_COND_NOT_SAT \<noteq> SW_OK" "SW_INTERNAL \<noteq> SW_OK"
  "SW_WRONG_P1P2 \<noteq> SW_OK" "SW_AUTH_BLOCKED \<noteq> SW_OK" "SW_INS_NOT_SUP \<noteq> SW_OK"
  by (simp_all add: sw_consts)

lemma card_sign_ok:
  assumes "2 \<le> mx" "rsp_sw (snd (card_sign e mx a c)) = SW_OK"
  shows "c_crypto_ok c \<and> pk_set (c_keys c SLOT_SIG) \<and> c_pw1_sign c \<and> \<not> ap_lc a < 20 \<and> \<not> 64 < ap_lc a
    \<and> snd (confirm_touch e 0xD6 c)
    \<and> (\<exists>c1. fst (card_sign e mx a c) = ds_counter_bump e c1 \<and> ds_dos c1 = ds_dos c
            \<and> (\<not> pw1_multi c \<longrightarrow> \<not> c_pw1_sign c1))"
proof -
  let ?c = "fst (confirm_touch e 0xD6 c)"
  let ?c2 = "if pw1_multi ?c then ?c else ?c\<lparr>c_pw1_sign := False\<rparr>"
  have gates: "c_crypto_ok c \<and> pk_set (c_keys c SLOT_SIG) \<and> c_pw1_sign c \<and> \<not> ap_lc a < 20 \<and> \<not> 64 < ap_lc a
      \<and> snd (confirm_touch e 0xD6 c)"
    using assms by (auto simp: card_sign_def split_beta Let_def split: if_splits)
  then obtain sig where sig: "pe_sign e (ds_io ?c2) (pk_d (c_keys ?c2 SLOT_SIG)) (apdu_bytes a) = Some sig"
    using assms by (auto simp: card_sign_def split_beta Let_def split: option.splits)
  have "fst (card_sign e mx a c) = ds_counter_bump e (tick ?c2)"
    using gates sig unfolding card_sign_def Let_def split_beta by simp
  moreover have "\<not> pw1_multi c \<longrightarrow> \<not> c_pw1_sign (tick ?c2)"
    using multi_cong [of ?c c] by (simp add: tick_def)
  moreover have "ds_dos (tick ?c2) = ds_dos c" by simp
  ultimately show ?thesis using gates by blast
qed

lemma sign_cmd_ok:
  assumes "2 \<le> mx" "is_sign_cmd inp" "rsp_sw (snd (openpgp_card_apdu e mx inp c)) = SW_OK"
  obtains a where "openpgp_card_apdu e mx inp c = card_sign e mx a c"
    "rsp_sw (snd (card_sign e mx a c)) = SW_OK"
  using assms
  by (auto simp: is_sign_cmd_def openpgp_card_apdu_def card_pso_def sw_consts split: option.splits if_splits)

text \<open>
  A signature is delivered only by a healthy card with a signature key, after the signing
  PIN (mode 81) was verified and, when the touch object asks for it, after a touch; unless the
  card is in multi-signature mode the authorisation is spent, and the signature counter moves
  by exactly one (modulo its 24 bits).
\<close>

theorem sign_spends_authorisation:
  assumes "2 \<le> mx" "is_sign_cmd inp" "openpgp_card_apdu e mx inp c = (c', r)" "rsp_sw r = SW_OK"
  shows "c_crypto_ok c \<and> pk_set (c_keys c SLOT_SIG) \<and> c_pw1_sign c
    \<and> (uif_required 0xD6 c \<longrightarrow> pe_confirm e (ds_io c) = 1)
    \<and> (\<not> pw1_multi c \<longrightarrow> \<not> c_pw1_sign c')
    \<and> (openpgp_do_get 0x93 c \<noteq> None \<longrightarrow> ds_counter c' = take_bit 24 (ds_counter c + 1))"
proof -
  obtain a where a: "openpgp_card_apdu e mx inp c = card_sign e mx a c"
    "rsp_sw (snd (card_sign e mx a c)) = SW_OK"
    using sign_cmd_ok [OF assms(1,2)] assms(3,4) by (metis snd_conv)
  have c': "c' = fst (card_sign e mx a c)" using a(1) assms(3) by (metis fst_conv)
  from card_sign_ok [OF assms(1) a(2)] obtain c1 where c1: "c' = ds_counter_bump e c1"
    "ds_dos c1 = ds_dos c" "\<not> pw1_multi c \<longrightarrow> \<not> c_pw1_sign c1" and gates: "c_crypto_ok c"
    "pk_set (c_keys c SLOT_SIG)" "c_pw1_sign c" "snd (confirm_touch e 0xD6 c)"
    unfolding c' by blast
  have "ds_counter c' = take_bit 24 (ds_counter c + 1)" if "openpgp_do_get 0x93 c \<noteq> None"
  proof -
    from that obtain w where "openpgp_do_get 0x93 c1 = Some w" using do_get_cong [OF c1(2)] by auto
    then have "do_fits 0x93 (be24_bytes (ds_counter c1 + 1)) c1" by (rule do_fits_present) simp
    from bump_counter [OF this, of e] show ?thesis by (simp add: c1(1) counter_cong [OF c1(2)])
  qed
  moreover have "c_pw1_sign c' = c_pw1_sign c1" unfolding c1(1) by (rule flags_eq) simp
  ultimately show ?thesis using gates c1(3) by (auto simp: confirm_touch_def)
qed

definition sign_card :: card where
  "sign_card = ready_card\<lparr>c_selected := True, c_pw1_sign := True,
     c_keys := (\<lambda>_. pgp_key_zero)(SLOT_SIG := \<lparr>pk_set = True, pk_algo = 0x13, pk_origin = 2, pk_d = replicate 32 9\<rparr>)\<rparr>"

definition apdu_sign :: bytes where
  "apdu_sign = [0x00, 0x2A, 0x9E, 0x9A, 20] @ replicate 20 0x55"

lemma sign_spends_authorisation_witness:
  "\<not> c_pw1_sign (fst (openpgp_card_apdu good_env 512 apdu_sign sign_card))"
proof -
  have "rsp_sw (snd (openpgp_card_apdu good_env 512 apdu_sign sign_card)) = SW_OK"
    "is_sign_cmd apdu_sign" "\<not> pw1_multi sign_card"
    by code_simp+
  then show ?thesis
    using sign_spends_authorisation [of 512 apdu_sign good_env sign_card
        "fst (openpgp_card_apdu good_env 512 apdu_sign sign_card)"
        "snd (openpgp_card_apdu good_env 512 apdu_sign sign_card)"] by simp
qed

section \<open>Signatures in a session\<close>

definition signs :: "pgp_env \<Rightarrow> nat \<Rightarrow> bytes \<Rightarrow> card \<Rightarrow> bool" where
  "signs e mx inp c \<longleftrightarrow> is_sign_cmd inp \<and> rsp_sw (snd (openpgp_card_apdu e mx inp c)) = SW_OK"

definition grants :: "bytes \<Rightarrow> card \<Rightarrow> bool" where
  "grants inp c \<longleftrightarrow> pin_guess True inp c = Some (pin_of True c)
     \<and> (case apdu_parse inp of None \<Rightarrow> False | Some a \<Rightarrow> ap_ins a = 0x20 \<and> ap_p2 a = 0x81)"

fun count_session ::
  "pgp_env \<Rightarrow> nat \<Rightarrow> (bytes \<Rightarrow> card \<Rightarrow> bool) \<Rightarrow> bytes list \<Rightarrow> card \<Rightarrow> nat" where
  "count_session e mx P [] c = 0"
| "count_session e mx P (inp # inps) c =
     (if P inp c then 1 else 0) + count_session e mx P inps (fst (openpgp_card_apdu e mx inp c))"

fun single_mode :: "pgp_env \<Rightarrow> nat \<Rightarrow> bytes list \<Rightarrow> card \<Rightarrow> bool" where
  "single_mode e mx [] c \<longleftrightarrow> True"
| "single_mode e mx (inp # inps) c \<longleftrightarrow>
     \<not> pw1_multi c \<and> single_mode e mx inps (fst (openpgp_card_apdu e mx inp c))"

text \<open>
  C2: In single-signature mode no session delivers more signatures than the signing PIN was
  entered correctly in it (plus one if it started authorised).
\<close>

theorem one_signature_per_pin:
  assumes "card_ok c" "2 \<le> mx" "single_mode e mx inps c"
  shows "count_session e mx (signs e mx) inps c
    \<le> count_session e mx grants inps c + (if c_pw1_sign c then 1 else 0)"
  using assms
proof (induction inps arbitrary: c)
  case (Cons inp inps)
  let ?c = "fst (openpgp_card_apdu e mx inp c)"
  have ok: "card_ok ?c" using apdu_retry [OF Cons.prems(1)] by blast
  have IH: "count_session e mx (signs e mx) inps ?c
      \<le> count_session e mx grants inps ?c + (if c_pw1_sign ?c then 1 else 0)"
    using Cons.IH [OF ok Cons.prems(2)] Cons.prems(3) by simp
  have rise: "c_pw1_sign ?c \<longrightarrow> c_pw1_sign c \<or> grants inp c"
    using apdu_flag_rise [OF Cons.prems(1) refl, of e mx inp] by (auto simp: grants_def)
  have spend: "c_pw1_sign c \<and> \<not> c_pw1_sign ?c" if "signs e mx inp c"
  proof -
    from that obtain a where a: "openpgp_card_apdu e mx inp c = card_sign e mx a c"
      "rsp_sw (snd (card_sign e mx a c)) = SW_OK"
      using sign_cmd_ok [OF Cons.prems(2), of inp e c] by (auto simp: signs_def)
    from card_sign_ok [OF Cons.prems(2) a(2)] obtain c1 where
      "?c = ds_counter_bump e c1" "\<not> c_pw1_sign c1" "c_pw1_sign c"
      using a(1) Cons.prems(3) by auto
    moreover have "c_pw1_sign (ds_counter_bump e c1) = c_pw1_sign c1" by (rule flags_eq) simp
    ultimately show ?thesis by simp
  qed
  show ?case using IH rise spend by (auto split: if_splits)
qed simp

lemma one_signature_per_pin_witness:
  "count_session good_env 512 (signs good_env 512) [apdu_sign, apdu_sign] sign_card
    \<le> count_session good_env 512 grants [apdu_sign, apdu_sign] sign_card + 1"
proof -
  have "single_mode good_env 512 [apdu_sign, apdu_sign] sign_card" by code_simp
  moreover have "card_ok sign_card" using ready_card_ok by (simp add: sign_card_def card_ok_def)
  ultimately show ?thesis
    using one_signature_per_pin [of sign_card 512 good_env "[apdu_sign, apdu_sign]"]
    by (simp add: sign_card_def)
qed

end
