(* ===== verification/Openpgp_Power.thy ===== *)
theory Openpgp_Power
  imports Openpgp_Auth
begin

unbundle bit_operations_syntax

text \<open>
  Boot and power loss: the crash-loop counter and the start-up of the security key in
  \<open>main/main.c\<close>, and what the OpenPGP applet recovers from the storage afterwards.
\<close>

section \<open>The boot of the firmware\<close>

definition BOOT_CRASH_MAGIC :: u32 where "BOOT_CRASH_MAGIC = 0xB007FA11"
definition BOOT_CRASH_LIMIT :: u32 where "BOOT_CRASH_LIMIT = 3"

record boot_rtc =
  br_magic :: u32
  br_count :: u32

text \<open>The counter at the start of \<open>app_main\<close>: the new memory and whether this boot is safe mode.\<close>

definition boot_crash_check :: "boot_rtc \<Rightarrow> boot_rtc \<times> bool" where
  "boot_crash_check r =
     (let r = (if br_magic r \<noteq> BOOT_CRASH_MAGIC \<or> br_count r > 100
               then \<lparr>br_magic = BOOT_CRASH_MAGIC, br_count = 0\<rparr> else r);
          r = r\<lparr>br_count := br_count r + 1\<rparr>
      in if br_count r > BOOT_CRASH_LIMIT then (r\<lparr>br_count := 0\<rparr>, True) else (r, False))"

definition boot_ok :: "boot_rtc \<Rightarrow> boot_rtc" where
  "boot_ok r = r\<lparr>br_count := 0\<rparr>"

fun crash_boots :: "nat \<Rightarrow> boot_rtc \<Rightarrow> boot_rtc" where
  "crash_boots 0 r = r"
| "crash_boots (Suc n) r = crash_boots n (fst (boot_crash_check r))"

definition boot_openpgp :: "pgp_env \<Rightarrow> bool \<Rightarrow> bytes \<Rightarrow> card \<Rightarrow> card" where
  "boot_openpgp e safe_mode serial c =
     (let c = openpgp_card_init c in
      if safe_mode then c
      else
        let c = openpgp_do_init (pe_nvs e) c;
            c = openpgp_card_load e c;
            c = fst (openpgp_card_ensure_defaults e c)
        in openpgp_card_set_serial e serial c)"

text \<open>Losing power: every static is back to its initial value, the storage stays.\<close>

definition power_off :: "card \<Rightarrow> card" where
  "power_off c = blank_card\<lparr>ds_nvs := ds_nvs c, ds_io := ds_io c, c_nvs_pins := c_nvs_pins c,
     c_nvs_keys := c_nvs_keys c, c_nvs_key_v1 := c_nvs_key_v1 c\<rparr>"

definition power_cycle :: "pgp_env \<Rightarrow> bool \<Rightarrow> bytes \<Rightarrow> card \<Rightarrow> card" where
  "power_cycle e safe_mode serial c = boot_openpgp e safe_mode serial (power_off c)"

section \<open>The PIN blob follows the state\<close>

definition pins_synced :: "card \<Rightarrow> bool" where
  "pins_synced c \<longleftrightarrow> c_nvs_pins c = Some (pins_blob c)"

definition nvs_all_ok :: "pgp_env \<Rightarrow> bool" where
  "nvs_all_ok e \<longleftrightarrow> pe_nvs e = (\<lambda>_. NvsOk)"

lemma pins_blob_cong: "pin_view c' = pin_view c \<Longrightarrow> pins_blob c' = pins_blob c"
  by (simp add: pins_blob_def pin_view_def)

lemma pins_synced_cong:
  "pin_view c' = pin_view c \<Longrightarrow> c_nvs_pins c' = c_nvs_pins c \<Longrightarrow> pins_synced c' = pins_synced c"
  by (simp add: pins_synced_def pins_blob_cong [of c' c])

lemma pin_persist_synced [simp]: "nvs_all_ok e \<Longrightarrow> pins_synced (fst (pin_persist e c))"
  by (simp add: nvs_all_ok_def pin_persist_def nvs_save_all_ok pins_synced_def pins_blob_def)

lemma nvs_pins_frame [simp]:
  "c_nvs_pins (tick c) = c_nvs_pins c"
  "c_nvs_pins (ds_counter_reset e c) = c_nvs_pins c"
  "c_nvs_pins (ds_counter_bump e c) = c_nvs_pins c"
  "c_nvs_pins (fst (confirm_touch e t c)) = c_nvs_pins c"
  by (simp_all add: tick_def ds_counter_reset_def ds_counter_bump_def Let_def confirm_touch_def)

lemma nvs_pins_frame2 [simp]:
  "c_nvs_pins (fst (install_key e s k c)) = c_nvs_pins c"
  "c_nvs_pins (fst (build_pubkey_response e s mx c)) = c_nvs_pins c"
  "c_nvs_pins (fst (put_slice e mx t l i a c)) = c_nvs_pins c"
  "c_nvs_pins (fst (card_select mx a c)) = c_nvs_pins c"
  by (auto simp: install_key_def build_pubkey_response_def put_slice_def put_sw_def card_select_def
      split_beta Let_def split: option.splits)

lemma nvs_pins_frame3 [simp]:
  "c_nvs_pins (fst (card_put_data e mx a c)) = c_nvs_pins c"
  "c_nvs_pins (fst (card_import e mx a c)) = c_nvs_pins c"
  "c_nvs_pins (fst (card_decipher e mx a c)) = c_nvs_pins c"
  "c_nvs_pins (fst (card_sign e mx a c)) = c_nvs_pins c"
  "c_nvs_pins (fst (card_int_auth e mx a c)) = c_nvs_pins c"
  "c_nvs_pins (fst (card_read_pubkey e mx a c)) = c_nvs_pins c"
  "c_nvs_pins (fst (card_generate e mx a c)) = c_nvs_pins c"
        apply (simp add: card_put_data_def put_pw_status_def put_sw_def Let_def)
       apply (auto simp: card_import_def split_beta Let_def split: option.splits)[1]
      apply (auto simp: card_decipher_def split_beta Let_def split: option.splits)[1]
     apply (auto simp: card_sign_def split_beta Let_def split: option.splits)[1]
    apply (auto simp: card_int_auth_def split_beta Let_def split: option.splits)[1]
   apply (auto simp: card_read_pubkey_def split: option.splits)[1]
  apply (auto simp: card_generate_def split_beta Let_def split: option.splits)[1]
  done

lemma synced_frame [simp]:
  "pins_synced (fst (card_put_data e mx a c)) = pins_synced c"
  "pins_synced (fst (card_import e mx a c)) = pins_synced c"
  "pins_synced (fst (card_decipher e mx a c)) = pins_synced c"
  "pins_synced (fst (card_sign e mx a c)) = pins_synced c"
  "pins_synced (fst (card_int_auth e mx a c)) = pins_synced c"
  "pins_synced (fst (card_read_pubkey e mx a c)) = pins_synced c"
  "pins_synced (fst (card_generate e mx a c)) = pins_synced c"
  "pins_synced (fst (openpgp_card_ensure_defaults e c)) = pins_synced c"
  "pins_synced (openpgp_card_set_serial e sn c) = pins_synced c"
  by (rule pins_synced_cong; simp)+

lemma verify_synced:
  assumes "nvs_all_ok e" "pins_synced c"
  shows "pins_synced (fst (card_verify e mx a c))"
proof -
  have "pins_synced (set_verified x (set_retry p 3 c))" if "pw_retry p c = 3" for x p
    using that assms(2)
    by (auto simp: pins_synced_def pins_blob_def set_verified_def set_retry_def pw_retry_def)
  then show ?thesis using assms by (simp add: card_verify_def Let_def)
qed

lemma change_synced:
  "nvs_all_ok e \<Longrightarrow> pins_synced c \<Longrightarrow> pins_synced (fst (card_change_ref e mx a c))"
  by (simp add: card_change_ref_def Let_def)

lemma reset_synced:
  assumes "nvs_all_ok e"
  shows "pins_synced (fst (openpgp_card_factory_reset e c))"
  using assms by (simp add: openpgp_card_factory_reset_def Let_def split_beta)

lemma apdu_synced:
  assumes "nvs_all_ok e" "pins_synced c"
  shows "pins_synced (fst (openpgp_card_apdu e mx inp c))"
proof (cases "apdu_parse inp")
  case None
  then show ?thesis using assms by (simp add: openpgp_card_apdu_def)
next
  case (Some a)
  have t: "pins_synced (c'\<lparr>c_terminated := b\<rparr>) = pins_synced c'" for c' b
    by (simp add: pins_synced_def pins_blob_def)
  have sel: "pins_synced (fst (card_select mx a c))"
    using assms(2) by (simp add: card_select_def pins_synced_def pins_blob_def)
  have "pins_synced (fst (card_terminate e mx c))"
    using assms by (simp add: card_terminate_def t reset_synced)
  then show ?thesis
    using Some assms sel
    by (simp add: openpgp_card_apdu_def card_pso_def verify_synced change_synced reset_synced t)
qed

lemma run_synced: "nvs_all_ok e \<Longrightarrow> pins_synced c \<Longrightarrow> pins_synced (card_run e mx inps c)"
  by (induction inps arbitrary: c) (auto intro: apdu_synced)

section \<open>What a boot recovers\<close>

lemma nvs_load_ok: "nvs_all_ok e \<Longrightarrow> nvs_load_blob_with_total (pe_nvs e) io st = st"
  by (simp add: nvs_all_ok_def nvs_load_blob_with_total_def)

lemma do_init_frame [simp]:
  "pin_view (openpgp_do_init rc c) = pin_view c" "flag_view (openpgp_do_init rc c) = flag_view c"
  "c_nvs_pins (openpgp_do_init rc c) = c_nvs_pins c" "c_nvs_keys (openpgp_do_init rc c) = c_nvs_keys c"
  "c_keys (openpgp_do_init rc c) = c_keys c"
  by (simp_all add: openpgp_do_init_def Let_def split: option.splits)
    (simp_all add: pin_view_def flag_view_def)

lemma load_keys_frame [simp]:
  "pin_view (card_load_keys e c) = pin_view c" "flag_view (card_load_keys e c) = flag_view c"
  by (simp_all add: card_load_keys_def Let_def split: option.splits)
    (simp_all add: pin_view_def flag_view_def)

lemma load_pins_frame [simp]:
  "flag_view (card_load_pins e c) = flag_view c" "c_nvs_keys (card_load_pins e c) = c_nvs_keys c"
  by (simp_all add: card_load_pins_def Let_def split: option.splits) (simp_all add: flag_view_def)

lemma load_keys_some:
  "nvs_all_ok e \<Longrightarrow> c_nvs_keys c = Some ks \<Longrightarrow> c_keys (card_load_keys e c) = ks"
  by (simp add: card_load_keys_def Let_def nvs_load_ok)

lemma load_pins_blob:
  assumes "nvs_all_ok e" "card_ok b" "c_nvs_pins c = Some (pins_blob b)"
  shows "pin_view (card_load_pins e c) = pin_view b"
proof -
  have "\<not> c_pw1_len b < 6" "\<not> 16 < c_pw1_len b" "\<not> c_pw3_len b < 8" "\<not> 16 < c_pw3_len b"
    "c_pw1_retry b \<le> 3" "c_pw3_retry b \<le> 3"
    using assms(2) by (auto simp: card_ok_def)
  then show ?thesis
    using assms(1,3)
    by (simp add: card_load_pins_def Let_def nvs_load_ok pins_blob_def pw_consts pin_view_def)
qed

lemma init_frame [simp]:
  "flag_view (openpgp_card_init c) = (False, False, False)"
  "c_nvs_pins (openpgp_card_init c) = c_nvs_pins c" "c_nvs_keys (openpgp_card_init c) = c_nvs_keys c"
  by (simp_all add: openpgp_card_init_def pins_factory_def flag_view_def)

lemma power_off_nvs [simp]:
  "c_nvs_pins (power_off c) = c_nvs_pins c" "c_nvs_keys (power_off c) = c_nvs_keys c"
  by (simp_all add: power_off_def)

lemma boot_pins:
  assumes "nvs_all_ok e" "card_ok b" "c_nvs_pins c = Some (pins_blob b)"
  shows "pin_view (power_cycle e False sn c) = pin_view b"
  using assms by (simp add: power_cycle_def boot_openpgp_def Let_def openpgp_card_load_def load_pins_blob)

lemma boot_keys:
  assumes "nvs_all_ok e" "c_nvs_keys c = Some ks"
  shows "c_keys (power_cycle e False sn c) = ks"
  using assms by (simp add: power_cycle_def boot_openpgp_def Let_def openpgp_card_load_def load_keys_some)

lemma boot_flags: "flag_view (power_cycle e safe sn c) = (False, False, False)"
  by (simp add: power_cycle_def boot_openpgp_def Let_def openpgp_card_load_def)



section \<open>Where the storage is left behind\<close>

text \<open>
  A safe-mode boot skips the load of the card's state but leaves the applet reachable with the
  factory PINs, and CHANGE REFERENCE DATA then saves them: after the next normal boot the
  owner's keys are served under a PIN chosen by whoever was there.
\<close>

definition apdu_change_pw1 :: bytes where
  "apdu_change_pw1 = [0x00, 0x24, 0x00, 0x81, 12] @ PW1_DEFAULT @ replicate 6 0x30"

lemma safe_boot_card:
  "power_cycle e True sn c = openpgp_card_init (power_off c)"
  by (simp add: power_cycle_def boot_openpgp_def)

lemma take_over_session:
  assumes "nvs_all_ok e" and c1_def: "c1 = openpgp_card_init (power_off c)"
    and c2_def: "c2 = card_run e 512 [apdu_select, apdu_change_pw1] c1"
  shows "c_nvs_keys c2 = c_nvs_keys c \<and> card_ok c2 \<and> pins_synced c2
    \<and> pin_of True c2 = replicate 6 0x30 \<and> pw_retry True c2 = 3"
proof -
  have c1: "c_selected c1 = False" "c_terminated c1 = False" "c_pw1 c1 = PW1_DEFAULT @ replicate 10 0"
    "c_pw1_len c1 = 6" "c_pw1_retry c1 = 3" "c_pw3 c1 = PW3_DEFAULT @ replicate 8 0" "c_pw3_len c1 = 8"
    "c_pw3_retry c1 = 3" "c_nvs_keys c1 = c_nvs_keys c"
    by (simp_all add: c1_def openpgp_card_init_def pins_factory_def power_off_def blank_card_def pw_consts)
  let ?s = "fst (openpgp_card_apdu e 512 apdu_select c1)"
  have psel: "apdu_parse apdu_select = Some \<lparr>ap_cla = 0, ap_ins = 0xA4, ap_p1 = 4, ap_p2 = 0, ap_lc = 6,
      ap_data = Some OPGP_AID_PREFIX, ap_le = 0, ap_le_present = False\<rparr>"
    by (simp add: apdu_select_def apdu_defs OPGP_AID_PREFIX_def)
  have s: "?s = c1\<lparr>c_selected := True, c_pw1_sign := False, c_pw1_user := False, c_pw3_ok := False\<rparr>"
    unfolding openpgp_card_apdu_def psel
    by (simp add: c1 card_select_def apdu_bytes_def OPGP_AID_PREFIX_def)
  have pchg: "apdu_parse apdu_change_pw1 = Some \<lparr>ap_cla = 0, ap_ins = 0x24, ap_p1 = 0, ap_p2 = 0x81,
      ap_lc = 12, ap_data = Some (PW1_DEFAULT @ replicate 6 0x30), ap_le = 0, ap_le_present = False\<rparr>"
    by code_simp
  have ct: "ct_pin_equal (PW1_DEFAULT @ replicate 6 0x30) 6 (PW1_DEFAULT @ replicate 10 0) 6"
    by (subst ct_pin_equal_iff) (simp_all add: PW1_DEFAULT_def)
  have c2: "c2 = fst (pin_persist e (?s\<lparr>c_pw1 := replicate 6 0x30 @ drop 6 (c_pw1 c1), c_pw1_len := 6,
      c_pw1_retry := 3, c_pw1_sign := False, c_pw1_user := False\<rparr>))"
    unfolding c2_def card_run.simps openpgp_card_apdu_def [of _ _ apdu_change_pw1] pchg
    by (simp add: s c1 card_change_ref_def pw_retry_def pw_len_def pw_pin_def pw_consts apdu_bytes_def
        ct [unfolded PW1_DEFAULT_def, simplified] set_retry_def set_pin_def clear_verified_def PW1_DEFAULT_def Let_def)
  have view: "pin_view c2 = (3, 3, replicate 6 0x30 @ replicate 10 0, 6, PW3_DEFAULT @ replicate 8 0, 8)"
    unfolding c2 pin_persist_frame by (simp add: s pin_view_def c1 PW1_DEFAULT_def)
  have "c_nvs_keys c2 = c_nvs_keys c" by (simp add: c2 s c1)
  moreover have "pins_synced c2" unfolding c2 using assms(1) by (rule pin_persist_synced)
  ultimately show ?thesis
    using view by (simp add: pin_view_def card_ok_def pin_of_def pw_pin_def pw_len_def pw_retry_def
        PW3_DEFAULT_def)
qed

text \<open>
  C39: A defect of the start-up: whatever PIN the owner chose, a safe-mode boot followed by one
  CHANGE REFERENCE DATA with the factory PIN and a normal reboot serves the stored private
  keys under the new PIN, with a full retry counter.
\<close>

theorem safe_mode_pin_takeover:
  assumes "nvs_all_ok e" "c_nvs_keys c = Some ks"
  shows "let c2 = card_run e 512 [apdu_select, apdu_change_pw1] (power_cycle e True sn c);
             c3 = power_cycle e False sn c2
         in c_keys c3 = ks \<and> pin_of True c3 = replicate 6 0x30 \<and> pw_retry True c3 = 3"
proof -
  let ?c2 = "card_run e 512 [apdu_select, apdu_change_pw1] (power_cycle e True sn c)"
  have c2: "c_nvs_keys ?c2 = Some ks" "card_ok ?c2" "c_nvs_pins ?c2 = Some (pins_blob ?c2)"
    "pin_of True ?c2 = replicate 6 0x30" "pw_retry True ?c2 = 3"
    using take_over_session [OF assms(1) refl refl, of c] assms(2) by (auto simp: safe_boot_card pins_synced_def)
  note pv = boot_pins [OF assms(1) c2(2,3), of sn]
  show ?thesis
    using boot_keys [OF assms(1) c2(1), of sn] c2(4,5)
    by (simp add: Let_def pw_cong [OF pv] del: card_run.simps)
qed

lemma safe_mode_pin_takeover_witness:
  "let c3 = power_cycle good_env False [0, 0, 0, 1]
        (card_run good_env 512 [apdu_select, apdu_change_pw1]
          (power_cycle good_env True [0, 0, 0, 1] (blank_card\<lparr>c_nvs_keys := Some (c_keys sign_card)\<rparr>)))
   in pk_set (c_keys c3 SLOT_SIG) \<and> pin_of True c3 = replicate 6 0x30"
  using safe_mode_pin_takeover [of good_env "blank_card\<lparr>c_nvs_keys := Some (c_keys sign_card)\<rparr>"
      "c_keys sign_card" "[0, 0, 0, 1]"]
  by (simp add: nvs_all_ok_def good_env_def Let_def sign_card_def)

definition dead_nvs :: "pgp_env \<Rightarrow> pgp_env" where
  "dead_nvs e = e\<lparr>pe_nvs := (\<lambda>_. NvsErr False)\<rparr>"

lemma dead_save: "nvs_save_blob_with_total (\<lambda>_. NvsErr False) io st b = (st, False, io + 1)"
  by (simp add: nvs_save_blob_with_total_def)

lemma dead_persist [simp]:
  "c_nvs_keys (fst (key_persist (dead_nvs e) c)) = c_nvs_keys c"
  "c_nvs_pins (fst (pin_persist (dead_nvs e) c)) = c_nvs_pins c"
  by (simp_all add: key_persist_def pin_persist_def dead_nvs_def dead_save)

lemma dead_reset:
  "c_nvs_keys (fst (openpgp_card_factory_reset (dead_nvs e) c)) = c_nvs_keys c"
  "c_nvs_pins (fst (openpgp_card_factory_reset (dead_nvs e) c)) = c_nvs_pins c"
  by (simp_all add: openpgp_card_factory_reset_def Let_def split_beta openpgp_do_reset_def
      pins_factory_def)

text \<open>
  A defect of TERMINATE DF: the result of the wipe is dropped, so with a storage that
  refuses every write the command still answers 9000, while the next boot brings back the
  private keys and the PINs that were to be destroyed.
\<close>

theorem terminate_reports_unwiped:
  assumes "c_selected c" "\<not> c_terminated c" "c_pw3_ok c" "apdu_parse inp = Some a" "ap_ins a = 0xE6"
    "2 \<le> mx" "c_nvs_keys c = Some ks" "pins_synced c" "card_ok c" "nvs_all_ok e'"
  shows "let (c', r) = openpgp_card_apdu (dead_nvs e) mx inp c
         in rsp_sw r = SW_OK \<and> c_keys c' = (\<lambda>_. pgp_key_zero)
            \<and> c_keys (power_cycle e' False sn c') = ks
            \<and> pin_view (power_cycle e' False sn c') = pin_view c"
proof -
  let ?c' = "(fst (openpgp_card_factory_reset (dead_nvs e) c))\<lparr>c_terminated := True\<rparr>"
  have run: "openpgp_card_apdu (dead_nvs e) mx inp c = (?c', sw_only mx SW_OK)"
    using assms by (simp add: openpgp_card_apdu_def card_terminate_def)
  have nvs: "c_nvs_keys ?c' = Some ks" "c_nvs_pins ?c' = Some (pins_blob c)"
    using assms(7,8) by (simp_all add: dead_reset pins_synced_def)
  have "c_keys ?c' = (\<lambda>_. pgp_key_zero)" by (simp add: factory_reset_state)
  then show ?thesis
    using boot_keys [OF assms(10) nvs(1), of sn] boot_pins [OF assms(10,9) nvs(2), of sn] assms(6)
    by (simp add: run)
qed

lemma terminate_reports_unwiped_witness:
  "\<exists>c. pk_set (c_keys (power_cycle good_env False [0, 0, 0, 1]
      (fst (openpgp_card_apdu (dead_nvs good_env) 512 [0, 0xE6, 0, 0] c))) SLOT_SIG)"
proof -
  define c where "c = fst (pin_persist good_env (ready_card\<lparr>c_selected := True, c_pw3_ok := True,
    c_nvs_keys := Some (c_keys sign_card)\<rparr>))"
  have env: "nvs_all_ok good_env" by (simp add: nvs_all_ok_def good_env_def)
  have c: "c_selected c" "\<not> c_terminated c" "c_nvs_keys c = Some (c_keys sign_card)" "pins_synced c"
    using env by (simp_all add: c_def ready_card_def openpgp_card_init_def pins_factory_def)
  have "c_pw3_ok c" using flags_eq(3) [OF pin_persist_frame(2)] by (simp add: c_def)
  moreover have "card_ok c"
    using ready_card_ok card_ok_cong [OF pin_persist_frame(1)] by (simp add: c_def card_ok_def)
  moreover have "apdu_parse [0, 0xE6, 0, 0] = Some \<lparr>ap_cla = 0, ap_ins = 0xE6, ap_p1 = 0, ap_p2 = 0,
      ap_lc = 0, ap_data = None, ap_le = 0, ap_le_present = False\<rparr>"
    by (simp add: apdu_defs)
  ultimately have "c_keys (power_cycle good_env False [0, 0, 0, 1]
      (fst (openpgp_card_apdu (dead_nvs good_env) 512 [0, 0xE6, 0, 0] c))) = c_keys sign_card"
    using terminate_reports_unwiped [of c "[0, 0xE6, 0, 0]" _ 512 "c_keys sign_card" good_env good_env
        "[0, 0, 0, 1]"] c env by (auto simp: Let_def split_beta)
  then show ?thesis by (intro exI [of _ c]) (simp add: sign_card_def)
qed

section \<open>The crash-loop counter\<close>

definition rtc_ok :: "boot_rtc \<Rightarrow> bool" where
  "rtc_ok r \<longleftrightarrow> br_magic r = BOOT_CRASH_MAGIC \<and> br_count r \<le> 3"

lemma boot_check_ok: "rtc_ok (fst (boot_crash_check r))"
proof (cases "br_magic r \<noteq> BOOT_CRASH_MAGIC \<or> br_count r > 100")
  case True
  then show ?thesis by (simp add: boot_crash_check_def rtc_ok_def BOOT_CRASH_LIMIT_def Let_def)
next
  case False
  then show ?thesis
    by (auto simp: boot_crash_check_def rtc_ok_def BOOT_CRASH_LIMIT_def Let_def)
qed

lemma boot_check_count:
  assumes "rtc_ok r"
  shows "boot_crash_check r = (if br_count r = 3 then (r\<lparr>br_count := 0\<rparr>, True)
                               else (r\<lparr>br_count := br_count r + 1\<rparr>, False))"
proof -
  have le: "unat (br_count r) \<le> 3" using assms by (simp add: rtc_ok_def word_le_nat_alt)
  then have small: "\<not> br_count r > 100" by (simp add: word_less_nat_alt)
  have u: "unat (br_count r + 1) = unat (br_count r) + 1" using le by (simp add: unat_word_ariths)
  have "br_count r + 1 > 3 \<longleftrightarrow> br_count r = 3"
    using le u by (auto simp: word_less_nat_alt word_unat_eq_iff)
  then show ?thesis
    using assms small by (auto simp: boot_crash_check_def rtc_ok_def BOOT_CRASH_LIMIT_def Let_def)
qed

text \<open>
  Safe mode is reached by the fourth consecutive boot that did not complete, never earlier,
  whatever the memory held at power-on, and a completed boot starts the count again.
\<close>

theorem safe_mode_after_three_crashes:
  assumes "br_magic r \<noteq> BOOT_CRASH_MAGIC \<or> br_count r = 0 \<or> br_count r > 100"
  shows "map (\<lambda>n. snd (boot_crash_check (crash_boots n r))) [0, 1, 2, 3] = [False, False, False, True]
    \<and> br_count (boot_ok (crash_boots 3 r)) = 0"
proof -
  have first: "boot_crash_check r = (\<lparr>br_magic = BOOT_CRASH_MAGIC, br_count = 1\<rparr>, False)"
    using assms by (auto simp: boot_crash_check_def BOOT_CRASH_LIMIT_def Let_def)
  have "crash_boots (Suc 0) r = \<lparr>br_magic = BOOT_CRASH_MAGIC, br_count = 1\<rparr>" by (simp add: first)
  then show ?thesis
    by (simp add: first numeral_eq_Suc boot_ok_def)
      (simp add: boot_crash_check_def BOOT_CRASH_LIMIT_def Let_def)
qed

lemma safe_mode_after_three_crashes_witness:
  "snd (boot_crash_check (crash_boots 3 \<lparr>br_magic = 0x1234, br_count = 77\<rparr>))"
  using safe_mode_after_three_crashes [of "\<lparr>br_magic = 0x1234, br_count = 77\<rparr>"]
  by (simp add: BOOT_CRASH_MAGIC_def)

end
