(* ===== verification/Openpgp_Data.thy ===== *)
theory Openpgp_Data
  imports Openpgp_Auth
begin

unbundle bit_operations_syntax

text \<open>
  The data of the OpenPGP card: the composite object a host reads first (GET DATA 6E), what a
  PUT DATA can do to it, and the import of a private key.
\<close>

section \<open>The composite object\<close>

lemma tlv_seq_Cons: "tlv_seq ((t, v) # items) = tlv_enc t v @ tlv_seq items"
  by (simp add: tlv_seq_def)

lemma tlv_seq_item_le: "(t, v) \<in> set items \<Longrightarrow> length v < length (tlv_seq items)"
proof (induction items)
  case (Cons tv items)
  then show ?case by (cases tv) (auto simp: tlv_seq_Cons length_tlv_enc split: if_splits)
qed simp

lemma tlv_appends_eq:
  assumes "list_all (\<lambda>tv. tlv_tag_ok (fst tv)) items"
  shows "tlv_appends mx items
    = (if list_all (\<lambda>tv. length (snd tv) \<le> 255) items \<and> length (tlv_seq items) \<le> mx
       then Some (tlv_seq items) else None)"
proof (cases "list_all (\<lambda>tv. length (snd tv) \<le> 255) items \<and> length (tlv_seq items) \<le> mx")
  case True
  then have "list_all tlv_item_ok items" using assms by (simp add: tlv_item_ok_def list_all_iff)
  then show ?thesis using True tlv_appends_ok [of items mx] by simp
next
  case False
  have none: "foldl (\<lambda>acc (t, v). Option.bind acc (\<lambda>b. tlv_append mx b t v)) None is = None" for "is"
    by (induction "is") auto
  have "foldl (\<lambda>acc (t, v). Option.bind acc (\<lambda>b. tlv_append mx b t v)) (Some pre) is = None"
    if "length pre \<le> mx"
      "\<not> (list_all (\<lambda>tv. length (snd tv) \<le> 255) is \<and> length (pre @ tlv_seq is) \<le> mx)" for pre "is"
    using that
  proof (induction "is" arbitrary: pre)
    case (Cons tv "is")
    obtain t v where tv: "tv = (t, v)" by (cases tv)
    show ?case
    proof (cases "tlv_append mx pre t v")
      case (Some b)
      then have "length v \<le> 255" "length (pre @ tlv_enc t v) \<le> mx" "b = pre @ tlv_enc t v"
        by (simp_all add: tlv_append_iff)
      with Some Cons.IH [of b] Cons.prems show ?thesis by (auto simp: tv tlv_seq_Cons)
    qed (simp add: tv none)
  qed (simp add: tlv_seq_def)
  from this [of "[]" items] False show ?thesis by (simp add: tlv_appends_def)
qed

lemma related_tags:
  "list_all (\<lambda>tv. tlv_tag_ok (fst tv)) (related_inner c)"
  "list_all (\<lambda>tv. tlv_tag_ok (fst tv)) (related_outer c inner)"
  by (simp_all add: related_inner_def related_outer_def tlv_tag_ok_def hi8_def)

definition related_body :: "card \<Rightarrow> bytes" where
  "related_body c = tlv_seq (related_outer c (tlv_seq (related_inner c)))"

definition related_fits :: "card \<Rightarrow> bool" where
  "related_fits c \<longleftrightarrow> length (tlv_seq (related_inner c)) \<le> 255 \<and> length (related_body c) \<le> 256"

lemma related_fits_items:
  assumes "related_fits c"
  shows "list_all (\<lambda>tv. length (snd tv) \<le> 255) (related_inner c)"
    "list_all (\<lambda>tv. length (snd tv) \<le> 255) (related_outer c (tlv_seq (related_inner c)))"
proof -
  have "length v \<le> 255" if "(t, v) \<in> set (related_inner c)" for t v
    using tlv_seq_item_le [OF that] assms by (simp add: related_fits_def)
  then show "list_all (\<lambda>tv. length (snd tv) \<le> 255) (related_inner c)" by (auto simp: list_all_iff)
  have "length v \<le> 255" if "(t, v) \<in> set (related_outer c (tlv_seq (related_inner c)))" for t v
    using tlv_seq_item_le [OF that] assms by (simp add: related_fits_def related_body_def)
  then show "list_all (\<lambda>tv. length (snd tv) \<le> 255) (related_outer c (tlv_seq (related_inner c)))"
    by (auto simp: list_all_iff)
qed

lemma get_data_6e_eq:
  "get_data_6e mx c = (if related_fits c then respond mx (related_body c) SW_OK
                       else sw_only mx SW_INTERNAL)"
proof -
  let ?inner = "tlv_seq (related_inner c)"
  have big: "\<not> list_all (\<lambda>tv. length (snd tv) \<le> 255) (related_outer c ?inner)" if "length ?inner > 255"
    using that by (simp add: related_outer_def)
  show ?thesis
    using related_fits_items [of c] big
    by (auto simp: get_data_6e_def append_or_fail_def tlv_appends_eq [OF related_tags(1)]
        tlv_appends_eq [OF related_tags(2)] related_body_def related_fits_def not_le)
qed

text \<open>
  The application-related data is either complete or refused: when the objects fit the 256
  byte frame, the host can read every object back from the answer (the AID and the template,
  and inside it the PIN status with the live retry counters and the key information), and
  otherwise the card answers 6F00 and nothing else.
\<close>

theorem related_data_readable:
  "if related_fits c
   then get_data_6e mx c = respond mx (related_body c) SW_OK
     \<and> tlv_find (related_body c) 0x4F = Some (Some (do_val 0x4F c))
     \<and> tlv_find (related_body c) 0x73 = Some (Some (tlv_seq (related_inner c)))
     \<and> tlv_find (tlv_seq (related_inner c)) 0xC4 = Some (Some (fill_pw_status c))
     \<and> tlv_find (tlv_seq (related_inner c)) 0xDE = Some (Some (fill_key_info c))
     \<and> (\<forall>t\<in>{0xC0, 0xC1, 0xC2, 0xC3, 0xC5, 0xC6, 0xCD, 0xD6, 0xD7, 0xD8}.
          tlv_find (tlv_seq (related_inner c)) t = Some (Some (do_val t c)))
   else get_data_6e mx c = sw_only mx SW_INTERNAL"
proof (cases "related_fits c")
  case True
  have "list_all tlv_item_ok (related_inner c)"
    "list_all tlv_item_ok (related_outer c (tlv_seq (related_inner c)))"
    using related_fits_items [OF True] related_tags by (auto simp: list_all_iff tlv_item_ok_def)
  from tlv_find_seq [OF this(1)] tlv_find_seq [OF this(2)] True show ?thesis
    by (simp add: get_data_6e_eq related_body_def) (simp add: related_inner_def related_outer_def)
qed (simp add: get_data_6e_eq)

lemma related_data_readable_witness:
  "get_data_6e 512 ready_card = respond 512 (related_body ready_card) SW_OK
   \<and> tlv_find (tlv_seq (related_inner ready_card)) 0xC4 = Some (Some (fill_pw_status ready_card))"
proof -
  have "related_fits ready_card" by code_simp
  then show ?thesis using related_data_readable [of ready_card 512] by simp
qed

section \<open>A stored object can make the composite object unreadable\<close>

text \<open>The objects of the composite answer have their factory lengths.\<close>

definition factory_lengths :: "card \<Rightarrow> bool" where
  "factory_lengths c \<longleftrightarrow>
     map (\<lambda>t. length (do_val t c)) [0x4F, 0x5F52, 0x7F74, 0xC0, 0xC1, 0xC2, 0xC3, 0xC5, 0xC6, 0xCD, 0xD6, 0xD7, 0xD8]
       = [16, 10, 3, 10, 9, 11, 9, 60, 60, 12, 2, 2, 2]"

lemma length_related_inner:
  "length (tlv_seq (related_inner c)) = 12 * 2 + 13
     + sum_list (map (\<lambda>t. let n = length (do_val t c) in n + (if n \<ge> 128 then 1 else 0))
         [0xC0, 0xC1, 0xC2, 0xC3, 0xC5, 0xC6, 0xCD, 0xD6, 0xD7, 0xD8])"
  by (simp add: related_inner_def tlv_seq_Cons length_tlv_enc fill_pw_status_def fill_key_info_def
      tlv_seq_def Let_def)

lemma factory_lengths_inner: "factory_lengths c \<Longrightarrow> length (tlv_seq (related_inner c)) = 214"
  by (simp add: factory_lengths_def length_related_inner)

lemma factory_lengths_body: "factory_lengths c \<Longrightarrow> length (related_body c) = 254"
  using factory_lengths_inner [of c]
  by (simp add: factory_lengths_def related_body_def related_outer_def tlv_seq_Cons length_tlv_enc)
    (simp add: tlv_seq_def)

lemma factory_lengths_fit: "factory_lengths c \<Longrightarrow> related_fits c"
  by (simp add: related_fits_def factory_lengths_inner factory_lengths_body)

lemma do_val_put:
  assumes "do_fits t v c"
  shows "do_val t (fst (do_put rc t v c)) = v"
    "u \<noteq> t \<Longrightarrow> do_val u (fst (do_put rc t v c)) = do_val u c"
  by (simp_all add: do_val_def do_kv.put_get [OF assms] do_kv.put_other)

text \<open>
  The cap of 255 bytes per object does not protect the composite answer: on a card with
  factory-sized objects (answer of 254 bytes), an administrator's PUT DATA of any touch policy
  of 5 to 100 bytes is accepted and every later GET DATA 6E is answered 6F00.
\<close>

theorem put_data_breaks_composite:
  assumes "factory_lengths c" "openpgp_do_get 0xD6 c \<noteq> None" "c_pw3_ok c"
    "ap_p1 a = 0" "ap_p2 a = 0xD6" "ap_data a = Some v" "apdu_wf a" "5 \<le> length v" "length v \<le> 100"
    "pe_nvs e = (\<lambda>_. NvsOk)"
  shows "let (c', r) = card_put_data e mx a c
         in r = sw_only mx SW_OK \<and> get_data_6e mx c = respond mx (related_body c) SW_OK
            \<and> get_data_6e mx c' = sw_only mx SW_INTERNAL"
proof -
  let ?c = "fst (do_put (pe_nvs e) 0xD6 v c)"
  obtain w where w: "openpgp_do_get 0xD6 c = Some w" using assms(2) by auto
  have fits: "do_fits 0xD6 v c" using assms(9) by (intro do_fits_present [OF w]) simp
  have tag: "be16 0 0xD6 = 0xD6" by (simp add: be16_def)
  have len: "unat (ap_lc a) = length v" using assms(6,7) by (simp add: apdu_wf_def)
  have "snd (do_put (pe_nvs e) 0xD6 v c)"
    using fits assms(10)
    by (auto simp: do_put_def openpgp_do_put_def openpgp_do_persist_def nvs_save_all_ok do_fits_def
        Let_def split: option.splits)
  then have run: "card_put_data e mx a c = (?c, sw_only mx SW_OK)"
    using assms(3-6) len by (simp add: card_put_data_def tag put_sw_def do_put_def)
  have "length (tlv_seq (related_inner ?c)) = 212 + length v"
    using assms(1,9) by (simp add: length_related_inner do_val_put [OF fits] factory_lengths_def)
  moreover have "length (related_body ?c) = 40 + length (tlv_seq (related_inner ?c))"
    using assms(1) calculation
    by (simp add: related_body_def related_outer_def tlv_seq_Cons length_tlv_enc
        do_val_put [OF fits] factory_lengths_def) (simp add: tlv_seq_def)
  ultimately have "\<not> related_fits ?c" using assms(8) by (simp add: related_fits_def)
  then show ?thesis by (simp add: run get_data_6e_eq factory_lengths_fit [OF assms(1)])
qed

definition data_card :: card where
  "data_card = ready_card\<lparr>c_selected := True, c_pw3_ok := True,
     ds_dos := map (\<lambda>(t, n). \<lparr>de_tag = t, de_len = n, de_data = replicate n 1, de_set = True\<rparr>)
       [(0x4F, 16), (0x5F52, 10), (0x7F74, 3), (0xC0, 10), (0xC1, 9), (0xC2, 11), (0xC3, 9),
        (0xC5, 60), (0xC6, 60), (0xCD, 12), (0xD6, 2), (0xD7, 2), (0xD8, 2)]\<rparr>"

lemma put_data_breaks_composite_witness:
  "get_data_6e 512 (fst (card_put_data good_env 512
      \<lparr>ap_cla = 0, ap_ins = 0xDA, ap_p1 = 0, ap_p2 = 0xD6, ap_lc = 5, ap_data = Some [1, 32, 0, 0, 0],
       ap_le = 0, ap_le_present = False\<rparr> data_card)) = sw_only 512 SW_INTERNAL"
proof -
  have "factory_lengths data_card" "openpgp_do_get 0xD6 data_card \<noteq> None" by code_simp+
  moreover have "c_pw3_ok data_card" by (simp add: data_card_def)
  ultimately show ?thesis
    using put_data_breaks_composite [of data_card "\<lparr>ap_cla = 0, ap_ins = 0xDA, ap_p1 = 0, ap_p2 = 0xD6,
        ap_lc = 5, ap_data = Some [1, 32, 0, 0, 0], ap_le = 0, ap_le_present = False\<rparr>"
        "[1, 32, 0, 0, 0]" good_env 512]
    by (simp add: Let_def split_beta apdu_wf_def good_env_def)
qed

section \<open>Key import\<close>

text \<open>The extended header list a host sends: control reference, template and key material.\<close>

definition crt_of :: "pgp_slot \<Rightarrow> u16" where
  "crt_of s = (case s of SLOT_SIG \<Rightarrow> 0xB6 | SLOT_DEC \<Rightarrow> 0xB8 | SLOT_AUT \<Rightarrow> 0xA4)"

definition key_list :: "pgp_slot \<Rightarrow> bytes \<Rightarrow> bytes \<Rightarrow> bytes" where
  "key_list s pre d = tlv_enc 0x4D (tlv_seq
     [(crt_of s, []), (0x7F48, [0x91, of_nat (length pre), 0x92, of_nat (length d)]), (0x5F48, pre @ d)])"

definition scalar_len_ok :: "u8 \<Rightarrow> nat \<Rightarrow> bool" where
  "scalar_len_ok algo n \<longleftrightarrow> (if algo = PGP_ALGO_ECDH then 1 \<le> n \<and> n \<le> 32 else n = 32)"

lemma template_walk_two:
  assumes "k < 128" "n < 128" "scalar_len_ok algo n"
  shows "template_walk algo [0x91, of_nat k, 0x92, of_nat n] 0 0 = Some (k, n)"
proof -
  have u: "unat (of_nat k :: u8) = k" "unat (of_nat n :: u8) = n" using assms by (simp_all add: unat_of_nat)
  then have lt: "(of_nat k :: u8) < 0x80" "(of_nat n :: u8) < 0x80"
    using assms by (simp_all add: word_less_nat_alt)
  have first: "tlv_iter_next [0x91, of_nat k, 0x92, of_nat n] 0 = Some (Some (0x91, k, 2))"
    using lt u by (simp add: tlv_iter_next_def tlv_header_def tlv_tag_def tlv_len_def rd_def)
  have second: "tlv_iter_next [0x91, of_nat k, 0x92, of_nat n] 2 = Some (Some (0x92, n, 4))"
    using lt u by (simp add: tlv_iter_next_def tlv_header_def tlv_tag_def tlv_len_def rd_def)
  show ?thesis
    using assms(3)
    by (subst template_walk.simps, simp add: first unfault_def, subst template_walk.simps,
        simp add: second unfault_def scalar_len_ok_def PGP_P256_SCALAR_BYTES_def split: if_splits)
qed

lemma import_scalar_key_list:
  assumes "length pre + length d \<le> 200" "length d \<le> 32" "length pre < 128"
    "scalar_len_ok (slot_algo s c) (length d)" "\<exists>b\<in>set d. b \<noteq> 0"
  shows "import_scalar (key_list s pre d) c = Some (s, padded_scalar d)"
proof -
  let ?items = "[(crt_of s, []), (0x7F48, [0x91, of_nat (length pre), 0x92, of_nat (length d)]),
                 (0x5F48, pre @ d)]"
  have tags: "tlv_tag_ok (crt_of s)" "tlv_tag_ok 0x7F48" "tlv_tag_ok 0x5F48" "tlv_tag_ok 0x4D"
    by (auto simp: tlv_tag_ok_def crt_of_def hi8_def split: pgp_slot.splits)
  have small: "crt_of s \<le> 0xFF" by (simp add: crt_of_def split: pgp_slot.splits)
  have ok: "list_all tlv_item_ok ?items" using tags assms(1) by (simp add: tlv_item_ok_def)
  have "length (tlv_seq ?items) \<le> 255"
    using assms(1) small by (auto simp: tlv_seq_Cons length_tlv_enc tlv_seq_def not_less)
  then have outer: "tlv_lookup (key_list s pre d) 0x4D = Some (tlv_seq ?items)"
    using tlv_find_seq [of "[(0x4D, tlv_seq ?items)]" "0x4D"] tags
    by (simp add: tlv_lookup_def unfault_def key_list_def tlv_item_ok_def tlv_seq_def)
  have inner: "tlv_lookup (tlv_seq ?items) t = map_of ?items t" for t
    using tlv_find_seq [OF ok, of t] by (simp add: tlv_lookup_def unfault_def)
  have slot: "import_slot (tlv_seq ?items) = Some s"
    unfolding import_slot_def inner by (cases s) (simp_all add: crt_of_def slot_from_crt_def)
  have "tlv_lookup (tlv_seq ?items) 0x7F48 = Some [0x91, of_nat (length pre), 0x92, of_nat (length d)]"
    "tlv_lookup (tlv_seq ?items) 0x5F48 = Some (pre @ d)"
    unfolding inner by (cases s; simp add: crt_of_def)+
  moreover have "template_walk (slot_algo s c) [0x91, of_nat (length pre), 0x92, of_nat (length d)] 0 0
      = Some (length pre, length d)"
    using assms by (intro template_walk_two) auto
  moreover have "\<not> list_all (\<lambda>b. b = 0) (padded_scalar d)"
    using assms(5) by (auto simp: padded_scalar_def list_all_iff)
  ultimately show ?thesis by (simp add: import_scalar_def outer slot Let_def)
qed

lemma install_key_result:
  assumes "install_key e s k c = (c', ok)"
  shows "c_keys c' = (c_keys c)(s := if ok then k else pgp_key_zero)
    \<and> (ok \<longrightarrow> c_nvs_keys c' = Some ((c_keys c)(s := k)))"
proof -
  obtain blob ok' io where sv: "nvs_save_blob_with_total (pe_nvs e) (ds_io c) (c_nvs_keys c)
      ((c_keys c)(s := k)) = (blob, ok', io)" by (cases "nvs_save_blob_with_total (pe_nvs e) (ds_io c)
      (c_nvs_keys c) ((c_keys c)(s := k))") auto
  show ?thesis
    using assms nvs_save_ok [of "pe_nvs e" "ds_io c" "c_nvs_keys c" "(c_keys c)(s := k)" blob io] sv
    by (cases ok') (auto simp: install_key_def key_persist_def ds_counter_reset_def Let_def split: if_splits)
qed

text \<open>
  A private key sent by the host in an extended header list, with any element before the
  scalar and, for X25519, a scalar of any length up to 32 bytes, ends in the slot the control
  reference names, right-aligned in 32 bytes and marked imported, and is in the storage when
  the card answers 9000; when the storage refuses it the slot is emptied and the answer is
  6F00. No other slot changes.
\<close>

theorem key_import_installs:
  assumes "ap_p1 a = 0x3F" "ap_p2 a = 0xFF" "c_pw3_ok c" "apdu_bytes a = key_list s pre d"
    "length pre + length d \<le> 200" "length d \<le> 32" "length pre < 128"
    "scalar_len_ok (slot_algo s c) (length d)" "\<exists>b\<in>set d. b \<noteq> 0"
  defines "k \<equiv> \<lparr>pk_set = True, pk_algo = slot_algo s c, pk_origin = 2,
      pk_d = replicate (32 - length d) 0 @ d\<rparr>"
  shows "\<exists>c' ok. card_import e mx a c = (c', sw_only mx (if ok then SW_OK else SW_INTERNAL))
    \<and> c_keys c' = (c_keys c)(s := if ok then k else pgp_key_zero)
    \<and> (ok \<longrightarrow> c_nvs_keys c' = Some ((c_keys c)(s := k)))"
proof -
  have imp: "import_scalar (apdu_bytes a) c = Some (s, pk_d k)"
    using import_scalar_key_list [of pre d s c] assms
    by (simp add: padded_scalar_def PGP_P256_SCALAR_BYTES_def)
  obtain c' ok where inst: "install_key e s k c = (c', ok)" by (cases "install_key e s k c")
  have "card_import e mx a c = (c', sw_only mx (if ok then SW_OK else SW_INTERNAL))"
    using assms(1-3) inst by (simp add: card_import_def imp) (simp add: k_def)
  then show ?thesis using install_key_result [OF inst] by blast
qed

definition import_apdu :: apdu where
  "import_apdu = \<lparr>ap_cla = 0, ap_ins = 0xDB, ap_p1 = 0x3F, ap_p2 = 0xFF, ap_lc = 49,
     ap_data = Some (key_list SLOT_SIG [1, 0, 1] (replicate 32 5)), ap_le = 0, ap_le_present = False\<rparr>"

lemma key_import_installs_witness:
  "\<exists>c' ok. card_import good_env 512 import_apdu (ready_card\<lparr>c_pw3_ok := True\<rparr>)
      = (c', sw_only 512 (if ok then SW_OK else SW_INTERNAL))"
proof -
  have "slot_algo SLOT_SIG (ready_card\<lparr>c_pw3_ok := True\<rparr>) = PGP_ALGO_ECDSA_P256" by code_simp
  then have "scalar_len_ok (slot_algo SLOT_SIG (ready_card\<lparr>c_pw3_ok := True\<rparr>)) (length (replicate 32 (5 :: u8)))"
    by (simp add: scalar_len_ok_def PGP_ALGO_ECDSA_P256_def PGP_ALGO_ECDH_def)
  moreover have "ap_p1 import_apdu = 0x3F" "ap_p2 import_apdu = 0xFF"
    "apdu_bytes import_apdu = key_list SLOT_SIG [1, 0, 1] (replicate 32 5)"
    by (simp_all add: import_apdu_def apdu_bytes_def)
  moreover have "\<exists>b\<in>set (replicate 32 (5 :: u8)). b \<noteq> 0" by simp
  ultimately show ?thesis
    using key_import_installs [of import_apdu "ready_card\<lparr>c_pw3_ok := True\<rparr>" SLOT_SIG "[1, 0, 1]"
        "replicate 32 5" good_env 512] by fastforce
qed

end
