(* ===== verification/Cfg_Bridge.thy ===== *)
theory Cfg_Bridge
  imports Prelude
begin

text \<open>
  \<open>main/comm/rf/cfg_bridge.c\<close>: a command frame is cut into numbered chunks and put together
  again by an accumulator that takes the chunks in any order, and the predicate that says which
  commands the dongle answers itself. Frame and slice lengths are numbers: the largest offset
  the code forms is \<open>255 * 200\<close>, within its 16 bits.
\<close>

definition CFG_CHUNK_PAYLOAD :: nat where "CFG_CHUNK_PAYLOAD = 200"
definition CFG_FRAME_MAX :: nat where "CFG_FRAME_MAX = 6144"
definition CFG_CHUNK_HDR :: nat where "CFG_CHUNK_HDR = 2"

lemmas cfg_consts = CFG_CHUNK_PAYLOAD_def CFG_FRAME_MAX_def CFG_CHUNK_HDR_def

section \<open>Cutting\<close>

definition cfg_chunk_count :: "nat \<Rightarrow> u8" where
  "cfg_chunk_count frame_len =
     (if frame_len = 0 \<or> frame_len > CFG_FRAME_MAX then 0
      else word_of_nat ((frame_len + CFG_CHUNK_PAYLOAD - 1) div CFG_CHUNK_PAYLOAD))"

definition cfg_chunk_make :: "bytes \<Rightarrow> u8 \<Rightarrow> bytes option" where
  "cfg_chunk_make frame idx =
     (if length frame = 0 \<or> length frame > CFG_FRAME_MAX then None
      else let total = cfg_chunk_count (length frame) in
      if total = 0 \<or> idx \<ge> total then None
      else let offset = unat idx * CFG_CHUNK_PAYLOAD;
               remaining = length frame - offset;
               slice = (if remaining > CFG_CHUNK_PAYLOAD then CFG_CHUNK_PAYLOAD else remaining)
           in Some (idx # total # take slice (drop offset frame)))"

section \<open>Putting together\<close>

record cfg_reasm =
  rs_total :: u8
  rs_got :: u8
  rs_seen :: "u8 list"
  rs_len :: nat
  rs_buf :: bytes

definition cfg_reasm_zero :: cfg_reasm where
  "cfg_reasm_zero = \<lparr>rs_total = 0, rs_got = 0, rs_seen = replicate 32 0, rs_len = 0,
     rs_buf = replicate CFG_FRAME_MAX 0\<rparr>"

definition seen_get :: "u8 list \<Rightarrow> u8 \<Rightarrow> bool" where
  "seen_get seen idx = (seen ! unat (drop_bit 3 idx) AND push_bit (unat (idx AND 7)) 1 \<noteq> 0)"

definition seen_set :: "u8 list \<Rightarrow> u8 \<Rightarrow> u8 list" where
  "seen_set seen idx =
     seen[unat (drop_bit 3 idx) :=
       seen ! unat (drop_bit 3 idx) OR push_bit (unat (idx AND 7)) 1]"

text \<open>The result is the accumulator and, on the chunk that completes it, the frame length.\<close>

definition cfg_reasm_add :: "cfg_reasm \<Rightarrow> bytes \<Rightarrow> cfg_reasm \<times> nat option" where
  "cfg_reasm_add st chunk =
     (if length chunk < CFG_CHUNK_HDR + 1 then (st, None)
      else let idx = chunk ! 0; total = chunk ! 1; slice_len = length chunk - CFG_CHUNK_HDR in
      if total = 0 \<or> idx \<ge> total then (st, None)
      else if slice_len > CFG_CHUNK_PAYLOAD then (st, None)
      else if rs_total st \<noteq> 0 \<and> rs_total st \<noteq> total then (st, None)
      else let offset = unat idx * CFG_CHUNK_PAYLOAD in
      if offset + slice_len > CFG_FRAME_MAX then (st, None)
      else if seen_get (rs_seen st) idx then (st, None)
      else let st' = st \<lparr>
               rs_total := (if rs_total st = 0 then total else rs_total st),
               rs_buf := mem_write offset (drop CFG_CHUNK_HDR chunk) (rs_buf st),
               rs_len := (if offset + slice_len > rs_len st then offset + slice_len
                          else rs_len st),
               rs_seen := seen_set (rs_seen st) idx,
               rs_got := rs_got st + 1 \<rparr>
           in (st', if rs_got st' = rs_total st' then Some (rs_len st') else None))"

section \<open>The bitmap of received indices\<close>

lemma bitmap_bit_eq:
  "drop_bit 3 (i::u8) = drop_bit 3 j \<Longrightarrow> i AND 7 = j AND 7 \<Longrightarrow> i = j"
proof (rule bit_word_eqI)
  fix n assume a: "drop_bit 3 i = drop_bit 3 j" "i AND 7 = j AND 7" "n < LENGTH(8)"
  have m: "(7::u8) = mask 3" by (simp add: mask_eq_exp_minus_1)
  show "bit i n = bit j n"
  proof (cases "n < 3")
    case True
    then show ?thesis using a(2) unfolding m by (metis bit_take_bit_iff take_bit_eq_mask)
  next
    case False
    then have "bit (drop_bit 3 i) (n - 3) = bit (drop_bit 3 j) (n - 3)" using a(1) by simp
    then show ?thesis using False by (simp add: bit_drop_bit_eq)
  qed
qed

lemma and_push_bit_one: "(w::u8) AND push_bit k 1 \<noteq> 0 \<longleftrightarrow> bit w k"
  by (metis and.commute and_exp_eq_0_iff_not_bit push_bit_of_1)

lemma byte_index_lt: "unat (drop_bit 3 (i::u8)) < 32"
proof -
  have "unat i < 256" using unsigned_less [of i] by simp
  then show ?thesis by (simp add: drop_bit_eq_div unat_div)
qed

lemma bit_index_lt: "unat ((i::u8) AND 7) < 8"
proof -
  have "i AND 7 = take_bit 3 i" by (simp add: take_bit_eq_mask mask_eq_exp_minus_1)
  then show ?thesis by (simp add: take_bit_eq_mod unat_mod)
qed

lemma seen_set_length [simp]: "length (seen_set s i) = length s"
  by (simp add: seen_set_def)

lemma seen_get_set [simp]:
  "length s = 32 \<Longrightarrow> seen_get (seen_set s i) j \<longleftrightarrow> j = i \<or> seen_get s j"
  using byte_index_lt [of i] byte_index_lt [of j] bit_index_lt [of i] bit_index_lt [of j] bitmap_bit_eq [of i j]
  by (auto simp: seen_get_def seen_set_def and_push_bit_one nth_list_update bit_simps
      simp flip: push_bit_of_1 dest!: unsigned_word_eqI)

lemma seen_get_zero [simp]: "\<not> seen_get (replicate 32 0) i"
  using byte_index_lt [of i] by (simp add: seen_get_def)

section \<open>What a foreign peer can do to the accumulator\<close>

definition seen_ix :: "cfg_reasm \<Rightarrow> u8 set" where
  "seen_ix st = {i. seen_get (rs_seen st) i}"

definition reasm_ok :: "cfg_reasm \<Rightarrow> bool" where
  "reasm_ok st \<longleftrightarrow> length (rs_seen st) = 32 \<and> length (rs_buf st) = CFG_FRAME_MAX \<and>
     rs_len st \<le> CFG_FRAME_MAX \<and> unat (rs_got st) = card (seen_ix st) \<and>
     (\<forall>i\<in>seen_ix st. i < 31)"

lemma card_below: "card {i::u8. i < n} = unat n"
proof -
  have "unat ` {i. i < n} = {..<unat n}"
  proof
    show "{..<unat n} \<subseteq> unat ` {i. i < n}"
    proof
      fix k assume k: "k \<in> {..<unat n}"
      then have "k < 2 ^ LENGTH(8)" using unsigned_less [of n, where 'a = nat] by simp
      then have u: "unat (word_of_nat k :: u8) = k" by (simp add: unat_of_nat take_bit_nat_eq_self)
      then have "word_of_nat k \<in> {i. i < n}" using k by (simp add: word_less_nat_alt)
      then show "k \<in> unat ` {i. i < n}" using u by (metis image_eqI)
    qed
  qed (auto simp: word_less_nat_alt)
  moreover have "inj_on unat {i. i < n}" by (rule inj_onI) (rule unsigned_word_eqI)
  ultimately show ?thesis by (metis card_image card_lessThan)
qed

lemma reasm_ok_zero [simp]: "reasm_ok cfg_reasm_zero"
  by (simp add: reasm_ok_def cfg_reasm_zero_def seen_ix_def)

lemma seen_ix_set:
  "length (rs_seen st) = 32 \<Longrightarrow> rs_seen st' = seen_set (rs_seen st) i \<Longrightarrow>
     seen_ix st' = insert i (seen_ix st)"
  by (auto simp: seen_ix_def)

lemma reasm_ok_card: "reasm_ok st \<Longrightarrow> card (seen_ix st) \<le> 31"
  using card_mono [of "{i::u8. i < 31}" "seen_ix st"] card_below [of 31]
  by (auto simp: reasm_ok_def)

text \<open>Either the chunk is refused and nothing changes, or its index is new and recorded.\<close>

lemma cfg_reasm_add_cases:
  assumes "cfg_reasm_add st chunk = (st', r)"
  obtains (refused) "st' = st" "r = None"
  | (taken) idx sl where "idx = chunk ! 0" "sl = drop 2 chunk" "0 < length sl"
      "unat idx * 200 + length sl \<le> CFG_FRAME_MAX" "idx < chunk ! 1"
      "rs_total st = 0 \<or> rs_total st = chunk ! 1" "\<not> seen_get (rs_seen st) idx"
      "st' = st \<lparr>rs_total := chunk ! 1, rs_buf := mem_write (unat idx * 200) sl (rs_buf st),
          rs_len := max (rs_len st) (unat idx * 200 + length sl),
          rs_seen := seen_set (rs_seen st) idx, rs_got := rs_got st + 1\<rparr>"
      "r = (if rs_got st' = rs_total st' then Some (rs_len st') else None)"
proof (cases "st' = st \<and> r = None")
  case True then show ?thesis using refused by simp
next
  case False
  show ?thesis
    by (rule taken [of "chunk ! 0" "drop 2 chunk"])
      (use assms False in \<open>auto simp: cfg_reasm_add_def cfg_consts Let_def max_def not_le
        split: if_splits\<close>)
qed

lemma cfg_reasm_add_ok:
  assumes ok: "reasm_ok st" and r: "cfg_reasm_add st chunk = (st', r)"
  shows "reasm_ok st'"
  using r
proof (cases rule: cfg_reasm_add_cases)
  case refused then show ?thesis using ok by simp
next
  case (taken idx sl)
  have small: "idx < 31" using taken(3,4) by (simp add: word_less_nat_alt cfg_consts)
  have ix: "seen_ix st' = insert idx (seen_ix st)"
    using taken(8) ok by (intro seen_ix_set) (auto simp: reasm_ok_def)
  have new: "idx \<notin> seen_ix st" using taken(7) by (simp add: seen_ix_def)
  have "unat (rs_got st + 1) = unat (rs_got st) + 1"
    using reasm_ok_card [OF ok] ok by (simp add: reasm_ok_def unatSuc unat_word_ariths)
  then show ?thesis using ok taken new small unfolding reasm_ok_def ix by simp
qed

lemma cfg_reasm_add_complete:
  assumes ok: "reasm_ok st" and r: "cfg_reasm_add st chunk = (st', Some n)"
  shows "n \<le> CFG_FRAME_MAX \<and> rs_total st' \<le> 31 \<and> n = rs_len st' \<and>
    unat (rs_total st') = card (seen_ix st')"
  using r
proof (cases rule: cfg_reasm_add_cases)
  case (taken idx sl)
  have ok': "reasm_ok st'" by (rule cfg_reasm_add_ok [OF ok r])
  have g: "rs_got st' = rs_total st'" "n = rs_len st'"
    using taken(9) by (metis option.distinct(1), metis option.distinct(1) option.inject)
  then show ?thesis using ok' reasm_ok_card [OF ok'] by (simp add: reasm_ok_def word_le_nat_alt)
qed simp

text \<open>A run of the accumulator over the chunks as they arrive.\<close>

fun cfg_reasm_feed :: "cfg_reasm \<Rightarrow> bytes list \<Rightarrow> cfg_reasm \<times> nat list" where
  "cfg_reasm_feed st [] = (st, [])"
| "cfg_reasm_feed st (c # cs) =
     (let (st1, r) = cfg_reasm_add st c; (st2, rs) = cfg_reasm_feed st1 cs
      in (st2, (case r of None \<Rightarrow> rs | Some n \<Rightarrow> n # rs)))"

lemma cfg_reasm_total_keeps:
  "cfg_reasm_add st chunk = (st', r) \<Longrightarrow> rs_total st \<noteq> 0 \<Longrightarrow> rs_total st' = rs_total st"
  by (erule cfg_reasm_add_cases) auto

lemma cfg_feed_bounds:
  "reasm_ok st \<Longrightarrow> cfg_reasm_feed st cs = (st', outs) \<Longrightarrow>
     reasm_ok st' \<and> (\<forall>n\<in>set outs. n \<le> CFG_FRAME_MAX) \<and>
     (rs_total st \<noteq> 0 \<longrightarrow> rs_total st' = rs_total st) \<and>
     (outs \<noteq> [] \<longrightarrow> rs_total st' \<le> 31)"
proof (induction cs arbitrary: st st' outs)
  case Nil then show ?case by simp
next
  case (Cons c cs)
  obtain st1 r where a: "cfg_reasm_add st c = (st1, r)" by fastforce
  obtain rs where b: "cfg_reasm_feed st1 cs = (st', rs)"
    and o: "outs = (case r of None \<Rightarrow> rs | Some n \<Rightarrow> n # rs)"
    using Cons.prems(2) a by (auto split: prod.splits)
  have ok1: "reasm_ok st1" by (rule cfg_reasm_add_ok [OF Cons.prems(1) a])
  have t: "rs_total st \<noteq> 0 \<Longrightarrow> rs_total st1 = rs_total st"
    by (rule cfg_reasm_total_keeps [OF a])
  note ih = Cons.IH [OF ok1 b]
  show ?case
  proof (cases r)
    case None then show ?thesis using ih t o by auto
  next
    case (Some n)
    note fin = cfg_reasm_add_complete [OF Cons.prems(1) a [unfolded Some]]
    have "rs_total st1 \<noteq> 0"
      using a [unfolded Some] by (rule cfg_reasm_add_cases) auto
    then show ?thesis using ih t o Some fin by auto
  qed
qed

text \<open>
  A peer that sends arbitrary chunks, of any length, numbering and announced total, never
  makes the accumulator write outside its buffer of 6144 bytes nor report a frame longer than
  it; and a frame announced with more than 31 chunks is never reported.
\<close>

theorem cfg_reasm_bounds:
  "cfg_reasm_feed cfg_reasm_zero cs = (st, outs) \<Longrightarrow>
     length (rs_buf st) = CFG_FRAME_MAX \<and> rs_len st \<le> CFG_FRAME_MAX \<and>
     (\<forall>n\<in>set outs. n \<le> CFG_FRAME_MAX) \<and> (rs_total st > 31 \<longrightarrow> outs = [])"
  using cfg_feed_bounds [OF reasm_ok_zero, of cs st outs] by (auto simp: reasm_ok_def)

section \<open>What a faithful peer gets\<close>

definition cfg_indices :: "bytes \<Rightarrow> u8 set" where
  "cfg_indices f = {i. i < cfg_chunk_count (length f)}"

definition frame_fits :: "bytes \<Rightarrow> bool" where
  "frame_fits f \<longleftrightarrow> 0 < length f \<and> length f \<le> CFG_FRAME_MAX"

definition holds_slices :: "bytes \<Rightarrow> cfg_reasm \<Rightarrow> bool" where
  "holds_slices f st \<longleftrightarrow> seen_ix st \<subseteq> cfg_indices f \<and>
     rs_total st = (if seen_ix st = {} then 0 else cfg_chunk_count (length f)) \<and>
     rs_len st \<le> length f \<and>
     (cfg_chunk_count (length f) - 1 \<in> seen_ix st \<longrightarrow> rs_len st = length f) \<and>
     (\<forall>k < length f. word_of_nat (k div 200) \<in> seen_ix st \<longrightarrow> rs_buf st ! k = f ! k)"

lemma chunk_count_unat:
  assumes "frame_fits f"
  shows "unat (cfg_chunk_count (length f)) = (length f + 199) div 200"
proof -
  have "length f \<le> 6144" using assms by (simp add: frame_fits_def cfg_consts)
  then have "(length f + 199) div 200 \<le> 6343 div 200" by (intro div_le_mono) simp
  then have "(length f + 199) div 200 \<le> 31" by simp
  then show ?thesis using assms
    by (simp add: cfg_chunk_count_def frame_fits_def cfg_consts unat_of_nat take_bit_nat_eq_self)
qed

lemma chunk_count_pos: "frame_fits f \<Longrightarrow> cfg_chunk_count (length f) \<noteq> 0"
  using chunk_count_unat [of f] by (cases f) (auto simp: frame_fits_def)

lemma index_offset:
  assumes "frame_fits f" "i \<in> cfg_indices f"
  shows "unat i * 200 < length f"
  using assms chunk_count_unat [OF assms(1)]
  by (auto simp: cfg_indices_def word_less_nat_alt frame_fits_def)

lemma cfg_chunk_make_slice:
  assumes "frame_fits f" "i \<in> cfg_indices f"
  shows "cfg_chunk_make f i =
    Some (i # cfg_chunk_count (length f) # take 200 (drop (unat i * 200) f))"
  using assms chunk_count_pos [OF assms(1)] index_offset [OF assms]
  by (auto simp: cfg_chunk_make_def frame_fits_def cfg_indices_def cfg_consts Let_def)

lemma card_indices: "card (cfg_indices f) = unat (cfg_chunk_count (length f))"
  unfolding cfg_indices_def by (rule card_below)

lemma finite_ix: "finite (S :: u8 set)"
  by (rule finite_subset [OF subset_UNIV]) simp

lemma last_slice_end:
  assumes f: "frame_fits f" and i: "i = cfg_chunk_count (length f) - 1"
  shows "length f \<le> unat i * 200 + 200"
proof -
  let ?n = "cfg_chunk_count (length f)"
  have "unat i = unat ?n - 1" unfolding i using chunk_count_pos [OF f]
    by (simp add: unat_minus_one)
  moreover have "unat ?n = (length f + 199) div 200" by (rule chunk_count_unat [OF f])
  moreover have "length f + 199 < 200 * ((length f + 199) div 200) + 200"
    using dividend_less_times_div [of 200 "length f + 199"] by (simp add: add.commute)
  moreover have "0 < unat ?n" using chunk_count_pos [OF f] by (simp add: unat_gt_0)
  ultimately show ?thesis by simp
qed

lemma slice_index:
  assumes "unat (i::u8) * 200 \<le> k" "k < unat i * 200 + 200"
  shows "word_of_nat (k div 200) = i"
proof -
  have "k div 200 = unat i" using assms by (simp add: div_nat_eqI)
  then show ?thesis by simp
qed

lemma slice_index_unique:
  assumes "frame_fits f" "k < length f" "word_of_nat (k div 200) = (i::u8)"
  shows "unat i * 200 \<le> k \<and> k < unat i * 200 + 200"
proof -
  have "k < 256 * 200" using assms(1,2) by (simp add: frame_fits_def cfg_consts)
  then have "k div 200 < 256" by (simp add: less_mult_imp_div_less)
  then have "k div 200 = unat i" using assms(3) by (auto simp: unat_of_nat take_bit_nat_eq_self)
  then show ?thesis by (metis div_mod_decomp nat_add_left_cancel_less le_add1 mod_less_divisor zero_less_numeral)
qed

text \<open>One chunk of a frame: refused when already there, otherwise its slice is in place.\<close>

lemma cfg_reasm_add_slice:
  assumes f: "frame_fits f" and ok: "reasm_ok st" and h: "holds_slices f st"
    and i: "i \<in> cfg_indices f" and c: "cfg_chunk_make f i = Some c"
    and r: "cfg_reasm_add st c = (st', r)"
  shows "holds_slices f st' \<and> seen_ix st' = insert i (seen_ix st) \<and>
    r = (if i \<notin> seen_ix st \<and> insert i (seen_ix st) = cfg_indices f
         then Some (length f) else None)"
proof -
  let ?n = "cfg_chunk_count (length f)" and ?sl = "take 200 (drop (unat i * 200) f)"
  have cc: "c = i # ?n # ?sl" using c cfg_chunk_make_slice [OF f i] by simp
  have off: "unat i * 200 < length f" by (rule index_offset [OF f i])
  have len: "length f \<le> CFG_FRAME_MAX" using f by (simp add: frame_fits_def)
  have tot: "rs_total st = 0 \<or> rs_total st = ?n" using h by (auto simp: holds_slices_def)
  have lt: "i < ?n" "?n \<noteq> 0" using i chunk_count_pos [OF f] by (auto simp: cfg_indices_def)
  show ?thesis
  proof (cases "i \<in> seen_ix st")
    case True
    then have "st' = st \<and> r = None"
      using r by (auto simp: cc seen_ix_def cfg_reasm_add_def Let_def split: if_splits)
    then show ?thesis using True h by auto
  next
    case False
    let ?e = "unat i * 200 + length ?sl"
    have st': "st' = st \<lparr>rs_total := ?n, rs_buf := mem_write (unat i * 200) ?sl (rs_buf st),
          rs_len := max (rs_len st) ?e, rs_seen := seen_set (rs_seen st) i,
          rs_got := rs_got st + 1\<rparr>"
      and r': "r = (if rs_got st' = rs_total st' then Some (rs_len st') else None)"
      using r False off len tot lt
      by (auto simp: cc seen_ix_def cfg_reasm_add_def cfg_consts Let_def max_def not_less
          split: if_splits)
    have ix: "seen_ix st' = insert i (seen_ix st)"
      using ok st' by (intro seen_ix_set) (auto simp: reasm_ok_def)
    have ok': "reasm_ok st'" by (rule cfg_reasm_add_ok [OF ok r])
    have e: "?e \<le> length f" using off by simp
    have last: "i = ?n - 1 \<Longrightarrow> ?e = length f"
      using last_slice_end [OF f] off by (simp add: min_def)
    have buf: "rs_buf st' ! k = f ! k"
      if "k < length f" "word_of_nat (k div 200) \<in> insert i (seen_ix st)" for k
    proof (cases "word_of_nat (k div 200) = i")
      case True
      then have "unat i * 200 \<le> k \<and> k < unat i * 200 + 200"
        by (rule slice_index_unique [OF f that(1)])
      then have "off \<le> k \<and> k - off < 200 \<and> k < off + length ?sl" if "off = unat i * 200" for off
        using that \<open>k < length f\<close> by auto
      moreover have "?e \<le> length (rs_buf st)" using e len ok by (simp add: reasm_ok_def)
      ultimately have "rs_buf st' ! k = ?sl ! (k - unat i * 200)" "k - unat i * 200 < 200"
        using st' \<open>k < length f\<close> len ok by (simp_all add: nth_mem_write reasm_ok_def)
      then show ?thesis using off \<open>unat i * 200 \<le> k \<and> _\<close> by simp
    next
      case False
      then have "\<not> (unat i * 200 \<le> k \<and> k < unat i * 200 + 200)" using slice_index by blast
      then show ?thesis using that False st' ok len off h
        by (auto simp: nth_mem_write reasm_ok_def holds_slices_def)
    qed
    have holds: "holds_slices f st'"
      using h e last buf i st' unfolding holds_slices_def ix
      by (auto simp: max_def)
    have sub: "insert i (seen_ix st) \<subseteq> cfg_indices f" using h i by (simp add: holds_slices_def)
    have "rs_got st' = rs_total st' \<longleftrightarrow> unat (rs_got st') = unat (rs_total st')"
      by (metis unsigned_word_eqI)
    also have "\<dots> \<longleftrightarrow> card (seen_ix st') = unat (rs_total st')"
      using ok' unfolding reasm_ok_def by simp
    also have "rs_total st' = ?n" using st' by simp
    also have "unat ?n = card (cfg_indices f)" by (rule card_indices [symmetric])
    also have "card (seen_ix st') = card (cfg_indices f) \<longleftrightarrow>
        card (insert i (seen_ix st)) = card (cfg_indices f)" unfolding ix ..
    also have "\<dots> \<longleftrightarrow> insert i (seen_ix st) = cfg_indices f"
      by (metis sub card_subset_eq [OF finite_ix])
    finally have full: "rs_got st' = ?n \<longleftrightarrow> insert i (seen_ix st) = cfg_indices f" .
    have t: "rs_total st' = ?n" using st' by simp
    have "?n - 1 \<in> cfg_indices f" using lt(2) by (simp add: cfg_indices_def word_less_nat_alt unat_minus_one unat_gt_0)
    then have "insert i (seen_ix st) = cfg_indices f \<Longrightarrow> rs_len st' = length f"
      using holds unfolding holds_slices_def ix by auto
    then show ?thesis using r' full holds ix False unfolding t by auto
  qed
qed

lemma cfg_feed_slices:
  "frame_fits f \<Longrightarrow> reasm_ok st \<Longrightarrow> holds_slices f st \<Longrightarrow> set is \<subseteq> cfg_indices f \<Longrightarrow>
     cfg_reasm_feed st (map (\<lambda>i. the (cfg_chunk_make f i)) is) = (st', outs) \<Longrightarrow>
     reasm_ok st' \<and> holds_slices f st' \<and> seen_ix st' = seen_ix st \<union> set is \<and>
     outs = (if seen_ix st \<noteq> cfg_indices f \<and> seen_ix st \<union> set is = cfg_indices f
             then [length f] else [])"
proof (induction "is" arbitrary: st st' outs)
  case Nil then show ?case by auto
next
  case (Cons i xs)
  note f = Cons.prems(1)
  have i: "i \<in> cfg_indices f" using Cons.prems(4) by simp
  obtain c where c: "cfg_chunk_make f i = Some c" using cfg_chunk_make_slice [OF f i] by simp
  obtain st1 r where a: "cfg_reasm_add st c = (st1, r)" by fastforce
  obtain rs where b: "cfg_reasm_feed st1 (map (\<lambda>i. the (cfg_chunk_make f i)) xs) = (st', rs)"
    and o: "outs = (case r of None \<Rightarrow> rs | Some n \<Rightarrow> n # rs)"
    using Cons.prems(5) a c by (auto split: prod.splits)
  note s = cfg_reasm_add_slice [OF f Cons.prems(2,3) i c a]
  have sub: "seen_ix st \<subseteq> cfg_indices f" using Cons.prems(3) by (simp add: holds_slices_def)
  note ih = Cons.IH [OF f cfg_reasm_add_ok [OF Cons.prems(2) a] conjunct1 [OF s] _ b]
  show ?case using ih s o sub Cons.prems(4) i by (auto split: if_splits)
qed

text \<open>
  The chunks of a frame of at most 6144 bytes, in any order and with any of them repeated,
  are reassembled into that frame: the accumulator reports the frame exactly once, with its
  exact length and its bytes in the buffer, when and only when every chunk has arrived.
\<close>

theorem cfg_reasm_any_order:
  assumes "frame_fits f" "set is \<subseteq> cfg_indices f"
    and "cfg_reasm_feed cfg_reasm_zero (map (\<lambda>i. the (cfg_chunk_make f i)) is) = (st, outs)"
  shows "(if set is = cfg_indices f then outs = [length f] \<and> take (length f) (rs_buf st) = f
          else outs = [])"
proof -
  have z: "seen_ix cfg_reasm_zero = {}" by (simp add: seen_ix_def cfg_reasm_zero_def)
  have h: "holds_slices f cfg_reasm_zero"
    by (simp add: holds_slices_def z) (simp add: cfg_reasm_zero_def)
  have ne: "cfg_indices f \<noteq> {}"
    using card_indices [of f] chunk_count_pos [OF assms(1)] by (auto simp: unat_eq_zero)
  note r = cfg_feed_slices [OF assms(1) reasm_ok_zero h assms(2) assms(3), unfolded z]
  show ?thesis
  proof (cases "set is = cfg_indices f")
    case True
    have "rs_buf st ! k = f ! k" if k: "k < length f" for k
    proof -
      have "k < 6144" using k assms(1) by (simp add: frame_fits_def cfg_consts)
      then have "k div 200 < 256" by (simp add: less_mult_imp_div_less)
      then have "unat (word_of_nat (k div 200) :: u8) = k div 200"
        by (simp add: unat_of_nat take_bit_nat_eq_self)
      moreover have "k div 200 < (length f + 199) div 200"
        using k by (simp add: div_less_iff_less_mult dividend_less_times_div)
      ultimately have "word_of_nat (k div 200) \<in> cfg_indices f"
        using chunk_count_unat [OF assms(1)] by (simp add: cfg_indices_def word_less_nat_alt)
      then show ?thesis using r True k by (auto simp: holds_slices_def)
    qed
    then have "take (length f) (rs_buf st) = f"
      using r assms(1) by (intro nth_equalityI) (auto simp: reasm_ok_def frame_fits_def)
    then show ?thesis using r True ne by auto
  qed (use r in auto)
qed

lemma cfg_reasm_any_order_witness:
  "snd (cfg_reasm_feed cfg_reasm_zero
     (map (\<lambda>i. the (cfg_chunk_make (replicate 201 7) i)) [1, 0, 1])) = [201]"
proof -
  have n: "cfg_chunk_count 201 = 2" by (simp add: cfg_chunk_count_def cfg_consts)
  have ix: "cfg_indices (replicate 201 7) = {0, 1}"
  proof -
    have "i < 2 \<longleftrightarrow> i = 0 \<or> i = 1" for i :: u8
    proof -
      have "i < 2 \<longleftrightarrow> unat i = 0 \<or> unat i = 1" by (auto simp: word_less_nat_alt)
      then show ?thesis by (metis unsigned_0 unsigned_1 unsigned_word_eqI)
    qed
    then show ?thesis by (auto simp: cfg_indices_def n)
  qed
  show ?thesis
    using cfg_reasm_any_order [of "replicate 201 7" "[1, 0, 1]"
        "fst (cfg_reasm_feed cfg_reasm_zero
          (map (\<lambda>i. the (cfg_chunk_make (replicate 201 7) i)) [1, 0, 1]))"
        "snd (cfg_reasm_feed cfg_reasm_zero
          (map (\<lambda>i. the (cfg_chunk_make (replicate 201 7) i)) [1, 0, 1]))"]
    by (simp only: ix prod.collapse frame_fits_def cfg_consts) (simp add: insert_commute)
qed

lemma cfg_reasm_bounds_witness:
  "length (rs_buf (fst (cfg_reasm_feed cfg_reasm_zero [[0, 1, 0xAA], [30, 255, 1]]))) =
     CFG_FRAME_MAX"
  using cfg_reasm_bounds [of "[[0, 1, 0xAA], [30, 255, 1]]"
      "fst (cfg_reasm_feed cfg_reasm_zero [[0, 1, 0xAA], [30, 255, 1]])"
      "snd (cfg_reasm_feed cfg_reasm_zero [[0, 1, 0xAA], [30, 255, 1]])"]
  by (simp only: prod.collapse)

section \<open>Which commands the dongle answers itself\<close>

text \<open>The transport to a remote keyboard is gone: the first predicate is constantly false and
  forwarding does nothing.\<close>

definition cfg_bridge_have_smart_kbd :: bool where
  "cfg_bridge_have_smart_kbd = False"

definition cfg_bridge_forward_frame :: "bytes \<Rightarrow> 's \<Rightarrow> 's" where
  "cfg_bridge_forward_frame frame s = s"

definition cfg_is_dongle_local :: "u8 \<Rightarrow> bool" where
  "cfg_is_dongle_local cmd_id \<longleftrightarrow> cmd_id \<in>
     {0x03, 0xB1, 0xB2, 0xB3, 0xB4, 0xB5, 0xB6, 0xB7, 0xC0, 0xC1, 0xC2, 0xC3, 0xF0, 0xF1, 0xF2}"

end
