(* ===== verification/Cdc_Protocol.thy ===== *)
theory Cdc_Protocol
  imports Crc Cfg_Bridge "HOL-Library.Sublist"
begin

text \<open>
  \<open>main/comm/cdc/cdc_binary_protocol.c\<close> and the receive side of \<open>cdc_acm_com.c\<close>: the
  command channel of the host tool. The receive state machine assembles a request byte by
  byte, hands a validated copy to the dispatcher through \<open>ready_frame\<close>, and the dispatcher
  runs the handler registered for the command. Handlers are a parameter \<open>run\<close>; a table entry
  holds a handler name. The bytes handed to the USB write queue are the field \<open>usb_out\<close>.
\<close>

definition KS_MAGIC_0 :: u8 where "KS_MAGIC_0 = 0x4B"
definition KS_MAGIC_1 :: u8 where "KS_MAGIC_1 = 0x53"
definition KR_MAGIC_1 :: u8 where "KR_MAGIC_1 = 0x52"
definition KS_PAYLOAD_MAX :: nat where "KS_PAYLOAD_MAX = 4096"
definition KS_MAX_BIN_CMD_TABLES :: nat where "KS_MAX_BIN_CMD_TABLES = 4"

datatype ks_status = KS_STATUS_OK | KS_STATUS_ERR_UNKNOWN | KS_STATUS_ERR_CRC
  | KS_STATUS_ERR_INVALID | KS_STATUS_ERR_RANGE | KS_STATUS_ERR_BUSY
  | KS_STATUS_ERR_OVERFLOW | KS_STATUS_ERR_STORAGE

fun ks_status_code :: "ks_status \<Rightarrow> u8" where
  "ks_status_code KS_STATUS_OK = 0x00"
| "ks_status_code KS_STATUS_ERR_UNKNOWN = 0x01"
| "ks_status_code KS_STATUS_ERR_CRC = 0x02"
| "ks_status_code KS_STATUS_ERR_INVALID = 0x03"
| "ks_status_code KS_STATUS_ERR_RANGE = 0x04"
| "ks_status_code KS_STATUS_ERR_BUSY = 0x05"
| "ks_status_code KS_STATUS_ERR_OVERFLOW = 0x06"
| "ks_status_code KS_STATUS_ERR_STORAGE = 0x07"

datatype ks_rx_state = KS_RX_IDLE | KS_RX_MAGIC1 | KS_RX_HEADER | KS_RX_PAYLOAD | KS_RX_CRC

record ks_rx =
  rx_state :: ks_rx_state
  rx_cmd_id :: u8
  rx_payload_len :: u16
  rx_payload_pos :: u16
  rx_hdr_buf :: bytes
  rx_hdr_pos :: nat
  rx_payload :: bytes

record ks_ready =
  rf_cmd_id :: u8
  rf_payload_len :: u16
  rf_payload :: bytes
  rf_ready :: bool

record 'h ks_cdc =
  resp_redirect :: bool
  redirect_buf :: bytes
  redirect_len :: nat
  bin_tables :: "(u8 \<times> 'h) list list"
  usb_out :: bytes
  stream_crc :: u8
  bin_rx :: ks_rx
  ready_frame :: ks_ready

type_synonym 'h ks_run = "'h \<Rightarrow> u8 \<Rightarrow> bytes \<Rightarrow> 'h ks_cdc \<Rightarrow> 'h ks_cdc"

text \<open>Static storage is zero-initialised.\<close>

definition ks_cdc_init :: "'h ks_cdc" where
  "ks_cdc_init = \<lparr>resp_redirect = False, redirect_buf = replicate CFG_FRAME_MAX 0,
     redirect_len = 0, bin_tables = [], usb_out = [], stream_crc = 0,
     bin_rx = \<lparr>rx_state = KS_RX_IDLE, rx_cmd_id = 0, rx_payload_len = 0, rx_payload_pos = 0,
       rx_hdr_buf = [0, 0, 0], rx_hdr_pos = 0, rx_payload = replicate KS_PAYLOAD_MAX 0\<rparr>,
     ready_frame = \<lparr>rf_cmd_id = 0, rf_payload_len = 0,
       rf_payload = replicate KS_PAYLOAD_MAX 0, rf_ready = False\<rparr>\<rparr>"

section \<open>Responses\<close>

definition resp_redirect_append :: "bytes \<Rightarrow> 'h ks_cdc \<Rightarrow> 'h ks_cdc" where
  "resp_redirect_append data s =
     (if data = [] then s
      else let room = (if redirect_len s < CFG_FRAME_MAX then CFG_FRAME_MAX - redirect_len s else 0);
               n = (if length data < room then length data else room)
           in if n \<noteq> 0 then s \<lparr>redirect_buf := mem_write (redirect_len s) (take n data) (redirect_buf s),
                redirect_len := redirect_len s + n\<rparr> else s)"

definition ks_resp_redirect_begin :: "'h ks_cdc \<Rightarrow> 'h ks_cdc" where
  "ks_resp_redirect_begin s = s \<lparr>resp_redirect := True, redirect_len := 0\<rparr>"

definition ks_resp_redirect_end :: "'h ks_cdc \<Rightarrow> 'h ks_cdc \<times> bytes" where
  "ks_resp_redirect_end s = (s \<lparr>resp_redirect := False\<rparr>, take (redirect_len s) (redirect_buf s))"

definition usb_write :: "bytes \<Rightarrow> 'h ks_cdc \<Rightarrow> 'h ks_cdc" where
  "usb_write data s = s \<lparr>usb_out := usb_out s @ data\<rparr>"

definition ks_emit :: "bytes \<Rightarrow> 'h ks_cdc \<Rightarrow> 'h ks_cdc" where
  "ks_emit data s = (if resp_redirect s then resp_redirect_append data s else usb_write data s)"

definition kr_header :: "u8 \<Rightarrow> ks_status \<Rightarrow> u16 \<Rightarrow> bytes" where
  "kr_header cmd_id status len =
     [KS_MAGIC_0, KR_MAGIC_1, cmd_id, ks_status_code status, lo8 len, hi8 len]"

definition ks_respond :: "u8 \<Rightarrow> ks_status \<Rightarrow> bytes \<Rightarrow> 'h ks_cdc \<Rightarrow> 'h ks_cdc" where
  "ks_respond cmd_id status payload s =
     (let len = word_of_nat (length payload); crc = ks_crc8 payload;
          s1 = ks_emit (kr_header cmd_id status len) s;
          s2 = (if payload \<noteq> [] then ks_emit payload s1 else s1)
      in ks_emit [crc] s2)"

definition ks_respond_ok :: "u8 \<Rightarrow> 'h ks_cdc \<Rightarrow> 'h ks_cdc" where
  "ks_respond_ok cmd_id = ks_respond cmd_id KS_STATUS_OK []"

definition ks_respond_err :: "u8 \<Rightarrow> ks_status \<Rightarrow> 'h ks_cdc \<Rightarrow> 'h ks_cdc" where
  "ks_respond_err cmd_id status = ks_respond cmd_id status []"

definition ks_respond_begin :: "u8 \<Rightarrow> ks_status \<Rightarrow> u16 \<Rightarrow> 'h ks_cdc \<Rightarrow> 'h ks_cdc" where
  "ks_respond_begin cmd_id status total_len s =
     (ks_emit (kr_header cmd_id status total_len) s) \<lparr>stream_crc := 0\<rparr>"

definition ks_respond_write :: "bytes \<Rightarrow> 'h ks_cdc \<Rightarrow> 'h ks_cdc" where
  "ks_respond_write data s =
     (ks_emit data s) \<lparr>stream_crc := foldl crc8_byte (stream_crc s) data\<rparr>"

definition ks_respond_end :: "'h ks_cdc \<Rightarrow> 'h ks_cdc" where
  "ks_respond_end s = ks_emit [stream_crc s] s"

section \<open>Command tables\<close>

definition ks_register_binary_commands :: "(u8 \<times> 'h) list \<Rightarrow> 'h ks_cdc \<Rightarrow> 'h ks_cdc" where
  "ks_register_binary_commands table s =
     (if length (bin_tables s) < KS_MAX_BIN_CMD_TABLES
      then s \<lparr>bin_tables := bin_tables s @ [table]\<rparr> else s)"

fun find_in_table :: "(u8 \<times> 'h) list \<Rightarrow> u8 \<Rightarrow> 'h option" where
  "find_in_table [] cmd_id = None"
| "find_in_table ((c, h) # tbl) cmd_id = (if c = cmd_id then Some h else find_in_table tbl cmd_id)"

fun find_handler :: "(u8 \<times> 'h) list list \<Rightarrow> u8 \<Rightarrow> 'h option" where
  "find_handler [] cmd_id = None"
| "find_handler (t # ts) cmd_id =
     (case find_in_table t cmd_id of Some h \<Rightarrow> Some h | None \<Rightarrow> find_handler ts cmd_id)"

section \<open>Receiving\<close>

definition ks_rx_reset :: "'h ks_cdc \<Rightarrow> 'h ks_cdc" where
  "ks_rx_reset s = s \<lparr>bin_rx := (bin_rx s) \<lparr>rx_state := KS_RX_IDLE, rx_hdr_pos := 0,
       rx_payload_pos := 0\<rparr>,
     ready_frame := (ready_frame s) \<lparr>rf_ready := False\<rparr>\<rparr>"

text \<open>The end of a header: the payload length decides what follows.\<close>

definition ks_rx_header_done :: "'h ks_cdc \<Rightarrow> 'h ks_cdc" where
  "ks_rx_header_done s =
     (let rx = bin_rx s; cmd = rx_hdr_buf rx ! 0;
          plen = (ucast (rx_hdr_buf rx ! 1) :: u16) OR push_bit 8 (ucast (rx_hdr_buf rx ! 2));
          rx1 = rx \<lparr>rx_cmd_id := cmd, rx_payload_len := plen, rx_payload_pos := 0\<rparr>
      in if unat plen > KS_PAYLOAD_MAX
         then (ks_respond_err cmd KS_STATUS_ERR_OVERFLOW (s \<lparr>bin_rx := rx1\<rparr>))
                \<lparr>bin_rx := rx1 \<lparr>rx_state := KS_RX_IDLE\<rparr>\<rparr>
         else if plen = 0 then s \<lparr>bin_rx := rx1 \<lparr>rx_state := KS_RX_CRC\<rparr>\<rparr>
         else s \<lparr>bin_rx := rx1 \<lparr>rx_state := KS_RX_PAYLOAD\<rparr>\<rparr>)"

text \<open>The checksum byte: a validated frame is copied out unless the last one is pending.\<close>

definition ks_rx_crc :: "u8 \<Rightarrow> 'h ks_cdc \<Rightarrow> 'h ks_cdc" where
  "ks_rx_crc b s =
     (let rx = bin_rx s; n = unat (rx_payload_len rx);
          expected = ks_crc8 (take n (rx_payload rx));
          s1 = (if b = expected
                then if \<not> rf_ready (ready_frame s)
                     then s \<lparr>ready_frame := \<lparr>rf_cmd_id = rx_cmd_id rx,
                         rf_payload_len = rx_payload_len rx,
                         rf_payload = mem_write 0 (take n (rx_payload rx))
                           (rf_payload (ready_frame s)),
                         rf_ready = True\<rparr>\<rparr>
                     else s
                else ks_respond_err (rx_cmd_id rx) KS_STATUS_ERR_CRC s)
      in s1 \<lparr>bin_rx := rx \<lparr>rx_state := KS_RX_IDLE\<rparr>\<rparr>)"

text \<open>One byte: \<open>Text\<close> is \<open>return 0\<close>, \<open>Stop\<close> the return at the end of a frame; \<open>More\<close> says
  whether the byte counts as consumed and whether a frame header was committed.\<close>

datatype ks_step = Text | Stop | More (eaten: bool) (committed: bool)

definition ks_rx_byte :: "bool \<Rightarrow> u8 \<Rightarrow> 'h ks_cdc \<Rightarrow> 'h ks_cdc \<times> ks_step" where
  "ks_rx_byte progressed b s =
     (let rx = bin_rx s in
      case rx_state rx of
        KS_RX_IDLE \<Rightarrow>
          if b = KS_MAGIC_0 then (s \<lparr>bin_rx := rx \<lparr>rx_state := KS_RX_MAGIC1\<rparr>\<rparr>, More True progressed)
          else if \<not> progressed then (s, Text)
          else (s, More False progressed)
      | KS_RX_MAGIC1 \<Rightarrow>
          if b = KS_MAGIC_1
          then (s \<lparr>bin_rx := rx \<lparr>rx_state := KS_RX_HEADER, rx_hdr_pos := 0\<rparr>\<rparr>, More True True)
          else (s \<lparr>bin_rx := rx \<lparr>rx_state := KS_RX_IDLE\<rparr>\<rparr>,
                if \<not> progressed then Text else More False progressed)
      | KS_RX_HEADER \<Rightarrow>
          (let s1 = s \<lparr>bin_rx := rx \<lparr>rx_hdr_buf := mem_write (rx_hdr_pos rx) [b] (rx_hdr_buf rx),
                 rx_hdr_pos := rx_hdr_pos rx + 1\<rparr>\<rparr>
           in (if rx_hdr_pos (bin_rx s1) = 3 then ks_rx_header_done s1 else s1,
               More True progressed))
      | KS_RX_PAYLOAD \<Rightarrow>
          (let pos = rx_payload_pos rx + 1;
               rx1 = rx \<lparr>rx_payload := mem_write (unat (rx_payload_pos rx)) [b] (rx_payload rx),
                 rx_payload_pos := pos\<rparr>
           in (s \<lparr>bin_rx := if pos \<ge> rx_payload_len rx then rx1 \<lparr>rx_state := KS_RX_CRC\<rparr> else rx1\<rparr>,
               More True progressed))
      | KS_RX_CRC \<Rightarrow> (ks_rx_crc b s, Stop))"

fun ks_rx_loop :: "nat \<Rightarrow> nat \<Rightarrow> bool \<Rightarrow> bytes \<Rightarrow> 'h ks_cdc \<Rightarrow> 'h ks_cdc \<times> nat" where
  "ks_rx_loop i consumed progressed [] s = (s, consumed)"
| "ks_rx_loop i consumed progressed (b # data) s =
     (case ks_rx_byte progressed b s of
        (s1, Text) \<Rightarrow> (s1, 0)
      | (s1, Stop) \<Rightarrow> (s1, i + 1)
      | (s1, More e p) \<Rightarrow> ks_rx_loop (i + 1) (if e then i + 1 else consumed) p data s1)"

definition ks_rx_feed :: "bytes \<Rightarrow> 'h ks_cdc \<Rightarrow> 'h ks_cdc \<times> nat" where
  "ks_rx_feed data s = ks_rx_loop 0 0 False data s"

text \<open>The USB callback looks at the number of consumed bytes only to log it.\<close>

definition receive_data :: "bytes \<Rightarrow> 'h ks_cdc \<Rightarrow> 'h ks_cdc" where
  "receive_data data s = fst (ks_rx_feed data s)"

section \<open>Dispatching\<close>

definition ks_run_command :: "'h ks_run \<Rightarrow> u8 \<Rightarrow> bytes \<Rightarrow> 'h ks_cdc \<Rightarrow> 'h ks_cdc" where
  "ks_run_command run cmd_id payload s =
     (case find_handler (bin_tables s) cmd_id of
        Some h \<Rightarrow> run h cmd_id payload s
      | None \<Rightarrow> ks_respond_err cmd_id KS_STATUS_ERR_UNKNOWN s)"

definition ks_dispatch_frame :: "'h ks_run \<Rightarrow> bytes \<Rightarrow> 'h ks_cdc \<Rightarrow> 'h ks_cdc" where
  "ks_dispatch_frame run frame s =
     (if length frame < 6 then s
      else if frame ! 0 \<noteq> KS_MAGIC_0 \<or> frame ! 1 \<noteq> KS_MAGIC_1 then s
      else let cmd_id = frame ! 2;
               plen = unat ((ucast (frame ! 3) :: u16) OR push_bit 8 (ucast (frame ! 4)))
      in if plen + 6 \<noteq> length frame then s
      else let payload = take plen (drop 5 frame); crc = frame ! (5 + plen)
      in if ks_crc8 payload \<noteq> crc then ks_respond_err cmd_id KS_STATUS_ERR_CRC s
         else ks_run_command run cmd_id payload s)"

text \<open>On the dongle, commands of a remote keyboard would be tunnelled to it.\<close>

definition ks_process_one :: "'h ks_run \<Rightarrow> 'h ks_cdc \<Rightarrow> 'h ks_cdc \<times> bool" where
  "ks_process_one run s =
     (if \<not> rf_ready (ready_frame s) then (s, False)
      else let cmd_id = rf_cmd_id (ready_frame s);
               payload = take (unat (rf_payload_len (ready_frame s))) (rf_payload (ready_frame s));
               s1 = (if \<not> cfg_is_dongle_local cmd_id \<and> cfg_bridge_have_smart_kbd
                     then if 6 + length payload \<le> CFG_FRAME_MAX
                          then cfg_bridge_forward_frame
                            ([KS_MAGIC_0, KS_MAGIC_1, cmd_id, lo8 (rf_payload_len (ready_frame s)),
                              hi8 (rf_payload_len (ready_frame s))] @ payload @ [ks_crc8 payload]) s
                          else ks_respond_err cmd_id KS_STATUS_ERR_OVERFLOW s
                     else ks_run_command run cmd_id payload s)
           in (s1 \<lparr>ready_frame := (ready_frame s1) \<lparr>rf_ready := False\<rparr>\<rparr>, True))"

section \<open>Everything sent goes through one sink\<close>

locale byte_sink =
  fixes emit :: "'b list \<Rightarrow> 's \<Rightarrow> 's" and ok :: "'s \<Rightarrow> bool"
  assumes emit_nil: "ok s \<Longrightarrow> emit [] s = s"
    and emit_append: "ok s \<Longrightarrow> emit (a @ b) s = emit b (emit a s)"
    and emit_ok: "ok s \<Longrightarrow> ok (emit a s)"
begin

lemma emit_parts: "ok s \<Longrightarrow> fold emit parts s = emit (concat parts) s"
  by (induction parts arbitrary: s) (simp_all add: emit_nil emit_append emit_ok)

end

definition sink_ok :: "'h ks_cdc \<Rightarrow> bool" where
  "sink_ok s \<longleftrightarrow> length (redirect_buf s) = CFG_FRAME_MAX \<and> redirect_len s \<le> CFG_FRAME_MAX"

lemma mem_write_append:
  assumes "off + length a + length b \<le> length buf"
  shows "mem_write (off + length a) b (mem_write off a buf) = mem_write off (a @ b) buf"
  using assms by (intro nth_equalityI) (auto simp: nth_mem_write nth_append)

lemma redirect_append_alt:
  "sink_ok s \<Longrightarrow> resp_redirect_append data s =
     s \<lparr>redirect_buf := mem_write (redirect_len s)
           (take (CFG_FRAME_MAX - redirect_len s) data) (redirect_buf s),
        redirect_len := redirect_len s + min (length data) (CFG_FRAME_MAX - redirect_len s)\<rparr>"
  by (auto simp: resp_redirect_append_def sink_ok_def Let_def min_def)

lemma redirect_append_append:
  assumes ok: "sink_ok s"
  shows "resp_redirect_append (a @ b) s = resp_redirect_append b (resp_redirect_append a s)"
proof -
  let ?r = "CFG_FRAME_MAX - redirect_len s"
  have ok': "sink_ok (resp_redirect_append a s)"
    using ok by (simp add: redirect_append_alt) (auto simp: sink_ok_def min_def)
  have "mem_write (redirect_len s + length (take ?r a)) (take (?r - length a) b)
      (mem_write (redirect_len s) (take ?r a) (redirect_buf s)) =
    mem_write (redirect_len s) (take ?r a @ take (?r - length a) b) (redirect_buf s)"
    using ok by (intro mem_write_append) (auto simp: sink_ok_def min_def)
  moreover have "CFG_FRAME_MAX - (redirect_len s + min (length a) ?r) = ?r - length a"
    by (auto simp: min_def)
  ultimately show ?thesis
    using ok ok' by (simp add: redirect_append_alt min.commute) (auto simp: min_def)
qed

lemma sink_ok_emit: "sink_ok s \<Longrightarrow> sink_ok (ks_emit data s)"
  by (auto simp: ks_emit_def usb_write_def redirect_append_alt)
    (auto simp: sink_ok_def min_def)

interpretation out: byte_sink ks_emit sink_ok
proof
  fix s :: "'h ks_cdc" and a b :: bytes
  assume ok: "sink_ok s"
  show "ks_emit [] s = s" by (simp add: ks_emit_def usb_write_def resp_redirect_append_def)
  have "resp_redirect (resp_redirect_append a s) = resp_redirect s"
    using ok by (simp add: redirect_append_alt)
  then show "ks_emit (a @ b) s = ks_emit b (ks_emit a s)"
    using ok by (simp add: ks_emit_def usb_write_def redirect_append_append)
  show "sink_ok (ks_emit a s)" using ok by (rule sink_ok_emit)
qed

lemma emit_stream_crc [simp]:
  "stream_crc (ks_emit d s) = stream_crc s"
  "ks_emit d (s \<lparr>stream_crc := c\<rparr>) = (ks_emit d s) \<lparr>stream_crc := c\<rparr>"
  by (simp_all add: ks_emit_def usb_write_def resp_redirect_append_def Let_def)

lemma emit_sink_ok [simp]: "sink_ok (s \<lparr>stream_crc := c\<rparr>) = sink_ok s"
  by (simp add: sink_ok_def)

definition kr_frame :: "u8 \<Rightarrow> ks_status \<Rightarrow> bytes \<Rightarrow> bytes" where
  "kr_frame cmd_id status payload =
     kr_header cmd_id status (word_of_nat (length payload)) @ payload @ [ks_crc8 payload]"

lemma ks_respond_emits:
  "sink_ok s \<Longrightarrow> ks_respond cmd_id status payload s = ks_emit (kr_frame cmd_id status payload) s"
  by (simp add: ks_respond_def kr_frame_def Let_def out.emit_append out.emit_ok out.emit_nil)

lemma ks_respond_writes:
  "sink_ok s \<Longrightarrow> fold ks_respond_write parts s =
     (ks_emit (concat parts) s) \<lparr>stream_crc := foldl crc8_byte (stream_crc s) (concat parts)\<rparr>"
  by (induction parts arbitrary: s)
    (simp_all add: ks_respond_write_def out.emit_append out.emit_nil out.emit_ok)

text \<open>
  A response streamed in pieces, whatever the pieces, is byte for byte the response sent in
  one call with the concatenated payload, checksum included, whether it goes to USB or into the
  bounded redirect buffer; only the running checksum register differs.
\<close>

theorem ks_stream_equals_respond:
  "sink_ok s \<Longrightarrow>
     ks_respond_end (fold ks_respond_write parts
       (ks_respond_begin cmd_id status (word_of_nat (length (concat parts))) s)) =
     (ks_respond cmd_id status (concat parts) s) \<lparr>stream_crc := ks_crc8 (concat parts)\<rparr>"
  by (simp add: ks_respond_end_def ks_respond_begin_def ks_respond_writes ks_respond_emits
      kr_frame_def ks_crc8_def out.emit_append out.emit_ok sink_ok_emit)

lemma ks_stream_equals_respond_witness:
  "ks_respond_end (fold ks_respond_write [[1 :: u8, 2], [3]]
       (ks_respond_begin 0x45 KS_STATUS_OK (word_of_nat (length (concat [[1 :: u8, 2], [3]])))
         (ks_cdc_init :: nat ks_cdc))) =
     (ks_respond 0x45 KS_STATUS_OK (concat [[1 :: u8, 2], [3]]) ks_cdc_init)
       \<lparr>stream_crc := ks_crc8 (concat [[1 :: u8, 2], [3]])\<rparr>"
  by (rule ks_stream_equals_respond) (simp add: sink_ok_def ks_cdc_init_def)

section \<open>The receiver stays within its buffers and accepts only requests\<close>

definition ks_header :: "u8 \<Rightarrow> u16 \<Rightarrow> bytes" where
  "ks_header cmd_id len = [KS_MAGIC_0, KS_MAGIC_1, cmd_id, lo8 len, hi8 len]"

definition ks_request :: "u8 \<Rightarrow> bytes \<Rightarrow> bytes" where
  "ks_request cmd_id payload =
     ks_header cmd_id (word_of_nat (length payload)) @ payload @ [ks_crc8 payload]"

definition rx_ok :: "ks_rx \<Rightarrow> bool" where
  "rx_ok rx \<longleftrightarrow> length (rx_hdr_buf rx) = 3 \<and> length (rx_payload rx) = KS_PAYLOAD_MAX \<and>
     (rx_state rx = KS_RX_HEADER \<longrightarrow> rx_hdr_pos rx < 3) \<and>
     (rx_state rx = KS_RX_PAYLOAD \<longrightarrow> rx_payload_pos rx < rx_payload_len rx) \<and>
     (rx_state rx \<in> {KS_RX_PAYLOAD, KS_RX_CRC} \<longrightarrow> unat (rx_payload_len rx) \<le> KS_PAYLOAD_MAX)"

definition ready_ok :: "ks_ready \<Rightarrow> bool" where
  "ready_ok rf \<longleftrightarrow> length (rf_payload rf) = KS_PAYLOAD_MAX \<and>
     (rf_ready rf \<longrightarrow> unat (rf_payload_len rf) \<le> KS_PAYLOAD_MAX)"

definition ready_payload :: "ks_ready \<Rightarrow> bytes" where
  "ready_payload rf = take (unat (rf_payload_len rf)) (rf_payload rf)"

text \<open>What the receiver remembers is the end of the byte history \<open>h\<close>.\<close>

definition rx_tail :: "ks_rx \<Rightarrow> bytes" where
  "rx_tail rx = (case rx_state rx of
     KS_RX_IDLE \<Rightarrow> []
   | KS_RX_MAGIC1 \<Rightarrow> [KS_MAGIC_0]
   | KS_RX_HEADER \<Rightarrow> [KS_MAGIC_0, KS_MAGIC_1] @ take (rx_hdr_pos rx) (rx_hdr_buf rx)
   | KS_RX_PAYLOAD \<Rightarrow> ks_header (rx_cmd_id rx) (rx_payload_len rx) @
       take (unat (rx_payload_pos rx)) (rx_payload rx)
   | KS_RX_CRC \<Rightarrow> ks_header (rx_cmd_id rx) (rx_payload_len rx) @
       take (unat (rx_payload_len rx)) (rx_payload rx))"

definition rx_inv :: "bytes \<Rightarrow> 'h ks_cdc \<Rightarrow> bool" where
  "rx_inv h s \<longleftrightarrow> rx_ok (bin_rx s) \<and> ready_ok (ready_frame s) \<and> suffix (rx_tail (bin_rx s)) h \<and>
     (rf_ready (ready_frame s) \<longrightarrow>
        sublist (ks_request (rf_cmd_id (ready_frame s)) (ready_payload (ready_frame s))) h)"

lemma emit_frame_fields [simp]:
  "bin_rx (ks_emit d s) = bin_rx s"
  "ready_frame (ks_emit d s) = ready_frame s"
  "bin_tables (ks_emit d s) = bin_tables s"
  by (simp_all add: ks_emit_def usb_write_def resp_redirect_append_def Let_def)

lemma respond_frame_fields [simp]:
  "bin_rx (ks_respond c st p s) = bin_rx s"
  "ready_frame (ks_respond c st p s) = ready_frame s"
  "bin_tables (ks_respond c st p s) = bin_tables s"
  by (simp_all add: ks_respond_def Let_def)

lemma le16_bytes: "(ucast lo :: u16) OR push_bit 8 (ucast (hi::u8)) = be16 hi lo"
  by (simp add: be16_def or.commute)

lemma suffix_snoc: "suffix t h \<Longrightarrow> suffix (t @ [b]) (h @ [b])"
  by (simp add: suffix_def)

lemma sublist_snoc: "sublist x h \<Longrightarrow> sublist x (h @ [b])"
  by (rule sublist_order.order_trans [OF _ sublist_append_rightI])

lemma take3: "length l = 3 \<Longrightarrow> l = [l ! 0, l ! 1, l ! 2]"
  by (cases l; cases "tl l"; cases "tl (tl l)") auto

lemma mem_write_snoc:
  "k < length buf \<Longrightarrow> take (Suc k) (mem_write k [b] buf) = take k buf @ [b]"
  by (simp add: mem_write_def)

lemma unat_inc:
  assumes "(a::u16) < b"
  shows "unat (a + 1) = Suc (unat a)"
proof -
  have "unat a + 1 < 2 ^ 16"
    using assms unsigned_less [of b, where 'a = nat] by (simp add: word_less_nat_alt)
  then show ?thesis by (simp add: unat_word_ariths)
qed

lemma rx_header_done:
  assumes "length (rx_hdr_buf (bin_rx s)) = 3" "length (rx_payload (bin_rx s)) = KS_PAYLOAD_MAX"
    and "suffix ([KS_MAGIC_0, KS_MAGIC_1] @ rx_hdr_buf (bin_rx s)) h"
  shows "rx_ok (bin_rx (ks_rx_header_done s)) \<and> ready_frame (ks_rx_header_done s) = ready_frame s \<and>
    suffix (rx_tail (bin_rx (ks_rx_header_done s))) h"
proof -
  obtain c lo hi where "rx_hdr_buf (bin_rx s) = [c, lo, hi]" using take3 [OF assms(1)] by blast
  then have b: "rx_hdr_buf (bin_rx s) = [c, lo8 (be16 hi lo), hi8 (be16 hi lo)]" by simp
  define n where "n = be16 hi lo"
  note b' = b [folded n_def]
  have e: "be16 (hi8 n) (lo8 n) = n" by simp
  show ?thesis
  proof (cases "unat n > KS_PAYLOAD_MAX")
    case True
    then show ?thesis using assms b'
      by (simp add: ks_rx_header_done_def Let_def rx_ok_def rx_tail_def le16_bytes ks_respond_err_def)
  next
    case False
    then show ?thesis using assms b'
      by (auto simp: ks_rx_header_done_def Let_def rx_ok_def rx_tail_def le16_bytes ks_header_def
          word_neq_0_conv)
  qed
qed

lemma rx_byte_header:
  assumes inv: "rx_inv h s" and st: "rx_state (bin_rx s) = KS_RX_HEADER"
    and r: "ks_rx_byte p b s = (s', r)"
  shows "rx_inv (h @ [b]) s' \<and> ready_frame s' = ready_frame s"
proof -
  let ?rx = "bin_rx s"
  let ?buf = "mem_write (rx_hdr_pos ?rx) [b] (rx_hdr_buf ?rx)"
  let ?rx1 = "?rx \<lparr>rx_hdr_buf := ?buf, rx_hdr_pos := rx_hdr_pos ?rx + 1\<rparr>"
  let ?s1 = "s \<lparr>bin_rx := ?rx1\<rparr>"
  have pos: "rx_hdr_pos ?rx < 3" "length (rx_hdr_buf ?rx) = 3"
    "length (rx_payload ?rx) = KS_PAYLOAD_MAX" using inv st by (auto simp: rx_inv_def rx_ok_def)
  have tail: "suffix ([KS_MAGIC_0, KS_MAGIC_1] @ take (Suc (rx_hdr_pos ?rx)) ?buf) (h @ [b])"
    using inv st pos suffix_snoc [of "rx_tail ?rx" h b]
    by (simp add: rx_inv_def rx_tail_def mem_write_snoc)
  note sub = sublist_snoc [of _ h b]
  have s': "s' = (if rx_hdr_pos ?rx + 1 = 3 then ks_rx_header_done ?s1 else ?s1)"
    using r st by (auto simp: ks_rx_byte_def Let_def)
  show ?thesis
  proof (cases "rx_hdr_pos ?rx + 1 = 3")
    case True
    then have full: "take (Suc (rx_hdr_pos ?rx)) ?buf = ?buf" using pos by simp
    then have "rx_ok (bin_rx s') \<and> ready_frame s' = ready_frame ?s1 \<and>
        suffix (rx_tail (bin_rx s')) (h @ [b])"
      unfolding s' if_P [OF True] using pos tail by (intro rx_header_done) simp_all
    then show ?thesis using inv sub by (simp add: rx_inv_def)
  next
    case False
    then show ?thesis using inv sub pos st tail
      by (simp add: s' rx_inv_def rx_ok_def rx_tail_def)
  qed
qed

lemma rx_byte_payload:
  assumes inv: "rx_inv h s" and st: "rx_state (bin_rx s) = KS_RX_PAYLOAD"
    and r: "ks_rx_byte p b s = (s', r)"
  shows "rx_inv (h @ [b]) s' \<and> ready_frame s' = ready_frame s"
proof -
  let ?rx = "bin_rx s"
  have lt: "rx_payload_pos ?rx < rx_payload_len ?rx" "unat (rx_payload_len ?rx) \<le> KS_PAYLOAD_MAX"
    "length (rx_payload ?rx) = KS_PAYLOAD_MAX" using inv st by (auto simp: rx_inv_def rx_ok_def)
  have inc: "unat (rx_payload_pos ?rx + 1) = Suc (unat (rx_payload_pos ?rx))"
    by (rule unat_inc [OF lt(1)])
  have in_buf: "unat (rx_payload_pos ?rx) < length (rx_payload ?rx)"
    using lt by (simp add: word_less_nat_alt)
  have tail: "suffix (ks_header (rx_cmd_id ?rx) (rx_payload_len ?rx) @
      take (Suc (unat (rx_payload_pos ?rx)))
        (mem_write (unat (rx_payload_pos ?rx)) [b] (rx_payload ?rx))) (h @ [b])"
    using inv st in_buf suffix_snoc [of "rx_tail ?rx" h b]
    by (simp add: rx_inv_def rx_tail_def mem_write_snoc)
  note sub = sublist_snoc [of _ h b]
  let ?last = "rx_payload_pos ?rx + 1 \<ge> rx_payload_len ?rx"
  let ?rx1 = "?rx \<lparr>rx_payload := mem_write (unat (rx_payload_pos ?rx)) [b] (rx_payload ?rx),
      rx_payload_pos := rx_payload_pos ?rx + 1\<rparr>"
  have bx: "bin_rx s' = (if ?last then ?rx1 \<lparr>rx_state := KS_RX_CRC\<rparr> else ?rx1)"
    and rf: "ready_frame s' = ready_frame s"
    using r st by (auto simp: ks_rx_byte_def Let_def)
  have "?last \<Longrightarrow> unat (rx_payload_len ?rx) = Suc (unat (rx_payload_pos ?rx))"
    using lt(1) inc by (simp add: word_le_nat_alt word_less_nat_alt)
  then have "rx_tail (bin_rx s') = ks_header (rx_cmd_id ?rx) (rx_payload_len ?rx) @
      take (Suc (unat (rx_payload_pos ?rx)))
        (mem_write (unat (rx_payload_pos ?rx)) [b] (rx_payload ?rx))"
    using st by (simp add: bx rx_tail_def inc)
  moreover have "rx_ok (bin_rx s')" using inv st lt in_buf by (auto simp: bx rx_ok_def rx_inv_def)
  ultimately show ?thesis using inv tail sub by (simp add: rx_inv_def rf)
qed

lemma rx_byte_crc:
  assumes inv: "rx_inv h s" and st: "rx_state (bin_rx s) = KS_RX_CRC"
    and r: "ks_rx_byte p b s = (s', r)"
  shows "rx_inv (h @ [b]) s' \<and> (rf_ready (ready_frame s) \<longrightarrow> ready_frame s' = ready_frame s)"
proof -
  let ?rx = "bin_rx s"
  let ?pl = "take (unat (rx_payload_len ?rx)) (rx_payload ?rx)"
  have len: "unat (rx_payload_len ?rx) \<le> KS_PAYLOAD_MAX"
    "length (rx_payload ?rx) = KS_PAYLOAD_MAX" using inv st by (auto simp: rx_inv_def rx_ok_def)
  have s': "s' = ks_rx_crc b s" using r st by (simp add: ks_rx_byte_def Let_def)
  have bx: "bin_rx s' = ?rx \<lparr>rx_state := KS_RX_IDLE\<rparr>"
    by (simp add: s' ks_rx_crc_def Let_def)
  have rx': "rx_ok (bin_rx s')" "rx_tail (bin_rx s') = []"
    using inv unfolding bx by (auto simp: rx_inv_def rx_ok_def rx_tail_def)
  show ?thesis
  proof (cases "b = ks_crc8 ?pl \<and> \<not> rf_ready (ready_frame s)")
    case True
    have rf: "ready_frame s' = \<lparr>rf_cmd_id = rx_cmd_id ?rx, rf_payload_len = rx_payload_len ?rx,
        rf_payload = mem_write 0 ?pl (rf_payload (ready_frame s)), rf_ready = True\<rparr>"
      using True by (simp add: s' ks_rx_crc_def Let_def)
    have pl: "ready_payload (ready_frame s') = ?pl" "length ?pl = unat (rx_payload_len ?rx)"
      using len inv by (simp_all add: rf ready_payload_def mem_write_def rx_inv_def ready_ok_def)
    have "suffix (ks_request (rx_cmd_id ?rx) ?pl) (h @ [b])"
      using inv st suffix_snoc [of "rx_tail ?rx" h b] True pl(2)
      by (simp add: ks_request_def rx_inv_def rx_tail_def)
    then show ?thesis using True rx' pl len inv
      by (auto simp: rx_inv_def ready_ok_def rf suffix_imp_sublist)
  next
    case False
    then have "ready_frame s' = ready_frame s"
      by (auto simp: s' ks_rx_crc_def Let_def ks_respond_err_def)
    then show ?thesis using rx' inv by (auto simp: rx_inv_def sublist_snoc)
  qed
qed

lemma rx_byte_inv:
  assumes inv: "rx_inv h s" and r: "ks_rx_byte p b s = (s', r)"
  shows "rx_inv (h @ [b]) s' \<and> (rf_ready (ready_frame s) \<longrightarrow> ready_frame s' = ready_frame s)"
proof (cases "rx_state (bin_rx s)")
  case KS_RX_IDLE
  then show ?thesis using inv r suffix_snoc [of "[]" h b]
    by (auto simp: ks_rx_byte_def Let_def rx_inv_def rx_ok_def rx_tail_def sublist_snoc
        split: if_splits)
next
  case KS_RX_MAGIC1
  then show ?thesis using inv r suffix_snoc [of "[KS_MAGIC_0]" h b]
    by (auto simp: ks_rx_byte_def Let_def rx_inv_def rx_ok_def rx_tail_def sublist_snoc
        split: if_splits)
next
  case KS_RX_HEADER then show ?thesis using rx_byte_header [OF inv _ r] by simp
next
  case KS_RX_PAYLOAD then show ?thesis using rx_byte_payload [OF inv _ r] by simp
next
  case KS_RX_CRC then show ?thesis using rx_byte_crc [OF inv _ r] by simp
qed

lemma rx_loop_inv:
  "rx_inv h s \<Longrightarrow> ks_rx_loop i c p data s = (s', n) \<Longrightarrow>
     \<exists>part. prefix part data \<and> rx_inv (h @ part) s' \<and>
       (rf_ready (ready_frame s) \<longrightarrow> ready_frame s' = ready_frame s)"
proof (induction data arbitrary: h s i c p)
  case Nil then show ?case by (auto intro: exI [of _ "[]"])
next
  case (Cons b data)
  obtain s1 r where r: "ks_rx_byte p b s = (s1, r)" by fastforce
  note step = rx_byte_inv [OF Cons.prems(1) r]
  show ?case
  proof (cases r)
    case (More e q)
    then obtain part where "prefix part data" "rx_inv ((h @ [b]) @ part) s'"
      "rf_ready (ready_frame s1) \<longrightarrow> ready_frame s' = ready_frame s1"
      using Cons.IH [OF conjunct1 [OF step]] Cons.prems(2) r by fastforce
    then show ?thesis using step by (intro exI [of _ "b # part"]) auto
  qed (use Cons.prems(2) r step in \<open>auto intro!: exI [of _ "[b]"]\<close>)
qed

lemma ks_rx_feed_inv:
  "rx_inv h s \<Longrightarrow> \<exists>part. prefix part data \<and> rx_inv (h @ part) (receive_data data s) \<and>
     (rf_ready (ready_frame s) \<longrightarrow> ready_frame (receive_data data s) = ready_frame s)"
  using rx_loop_inv [of h s 0 0 False data "receive_data data s" "snd (ks_rx_feed data s)"]
  by (simp add: receive_data_def ks_rx_feed_def)

lemma rx_inv_init [simp]: "rx_inv h ks_cdc_init"
  by (simp add: rx_inv_def ks_cdc_init_def rx_ok_def ready_ok_def rx_tail_def)

section \<open>A request cut into packets\<close>

definition ks_body :: "u8 \<Rightarrow> bytes \<Rightarrow> bytes" where
  "ks_body cmd_id payload = ks_header cmd_id (word_of_nat (length payload)) @ payload"

text \<open>After \<open>k\<close> bytes of a request nothing but the assembly buffer has changed.\<close>

definition mid_request :: "bytes \<Rightarrow> 'h ks_cdc \<Rightarrow> nat \<Rightarrow> 'h ks_cdc \<Rightarrow> bool" where
  "mid_request body s0 k s \<longleftrightarrow> rx_inv (take k body) s \<and> length (rx_tail (bin_rx s)) = k \<and>
     \<not> rf_ready (ready_frame s0) \<and> s = s0 \<lparr>bin_rx := bin_rx s\<rparr>"

lemma suffix_same_length: "suffix a b \<Longrightarrow> length a = length b \<Longrightarrow> a = b"
  by (auto simp: suffix_def)

lemma length_header [simp]: "length (ks_header c n) = 5"
  by (simp add: ks_header_def)

lemma header_inj: "ks_header c n = ks_header c' n' \<longleftrightarrow> c = c' \<and> n = n'"
  by (simp add: ks_header_def) (metis be16_hi8_lo8)

lemma mid_tail:
  "mid_request body s0 k s \<Longrightarrow> k \<le> length body \<Longrightarrow> rx_tail (bin_rx s) = take k body"
  by (auto simp: mid_request_def rx_inv_def intro!: suffix_same_length)

lemma mid_idle_iff:
  "mid_request body s0 0 s0 \<longleftrightarrow> rx_state (bin_rx s0) = KS_RX_IDLE \<and> rx_ok (bin_rx s0) \<and>
     ready_ok (ready_frame s0) \<and> \<not> rf_ready (ready_frame s0)"
  by (auto simp: mid_request_def rx_inv_def rx_tail_def ks_header_def
      split: ks_rx_state.splits)

text \<open>Where the receiver is after \<open>k\<close> bytes.\<close>

lemma mid_cases:
  assumes m: "mid_request (ks_body cmd pl) s0 k s" and k: "k \<le> 5 + length pl"
    and n: "length pl \<le> KS_PAYLOAD_MAX"
  obtains (idle) "k = 0" "rx_state (bin_rx s) = KS_RX_IDLE"
  | (magic) "k = 1" "rx_state (bin_rx s) = KS_RX_MAGIC1"
  | (header) "k = 2 + rx_hdr_pos (bin_rx s)" "rx_hdr_pos (bin_rx s) < 3"
      "rx_state (bin_rx s) = KS_RX_HEADER"
      "take (rx_hdr_pos (bin_rx s)) (rx_hdr_buf (bin_rx s)) =
         take (rx_hdr_pos (bin_rx s)) (drop 2 (ks_body cmd pl))"
  | (payload) "k = 5 + unat (rx_payload_pos (bin_rx s))" "rx_state (bin_rx s) = KS_RX_PAYLOAD"
      "k < 5 + length pl"
  | (crc) "k = 5 + length pl" "rx_state (bin_rx s) = KS_RX_CRC" "rx_cmd_id (bin_rx s) = cmd"
      "rx_payload_len (bin_rx s) = word_of_nat (length pl)"
      "take (length pl) (rx_payload (bin_rx s)) = pl"
proof -
  let ?rx = "bin_rx s"
  have ok: "rx_ok ?rx" "length (rx_tail ?rx) = k" using m by (auto simp: mid_request_def rx_inv_def)
  have tail: "rx_tail ?rx = take k (ks_body cmd pl)"
    using mid_tail [OF m] k by (simp add: ks_body_def)
  have un: "unat (word_of_nat (length pl) :: u16) = length pl"
    using n by (simp add: KS_PAYLOAD_MAX_def unat_of_nat take_bit_nat_eq_self)
  show ?thesis
  proof (cases "rx_state ?rx")
    case KS_RX_IDLE then show ?thesis using ok(2) idle by (simp add: rx_tail_def)
  next
    case KS_RX_MAGIC1 then show ?thesis using ok(2) magic by (simp add: rx_tail_def)
  next
    case KS_RX_HEADER
    then have p: "rx_hdr_pos ?rx < 3" "k = 2 + rx_hdr_pos ?rx"
      using ok by (auto simp: rx_tail_def rx_ok_def)
    then show ?thesis using tail header KS_RX_HEADER
      by (simp add: rx_tail_def ks_body_def ks_header_def numeral_2_eq_2)
  next
    case KS_RX_PAYLOAD
    then have p: "unat (rx_payload_pos ?rx) < unat (rx_payload_len ?rx)"
      "unat (rx_payload_len ?rx) \<le> length (rx_payload ?rx)"
      using ok by (auto simp: rx_ok_def word_less_nat_alt)
    have kk: "k = 5 + unat (rx_payload_pos ?rx)"
      using ok(2) KS_RX_PAYLOAD p by (simp add: rx_tail_def)
    have "ks_header (rx_cmd_id ?rx) (rx_payload_len ?rx) = ks_header cmd (word_of_nat (length pl))"
      using tail KS_RX_PAYLOAD kk by (simp add: rx_tail_def ks_body_def)
    then have "unat (rx_payload_len ?rx) = length pl" using un by (simp add: header_inj)
    then show ?thesis using p kk KS_RX_PAYLOAD by (intro payload) simp_all
  next
    case KS_RX_CRC
    then have p: "unat (rx_payload_len ?rx) \<le> length (rx_payload ?rx)"
      using ok by (auto simp: rx_ok_def)
    have kk: "k = 5 + unat (rx_payload_len ?rx)"
      using ok(2) KS_RX_CRC p by (simp add: rx_tail_def)
    have h: "ks_header (rx_cmd_id ?rx) (rx_payload_len ?rx) = ks_header cmd (word_of_nat (length pl))"
      using tail KS_RX_CRC kk by (simp add: rx_tail_def ks_body_def)
    then have "unat (rx_payload_len ?rx) = length pl" using un by (simp add: header_inj)
    then show ?thesis using h kk tail KS_RX_CRC p
      by (intro crc) (simp_all add: header_inj rx_tail_def ks_body_def)
  qed
qed

lemma body_nth: "ks_body c p ! 0 = KS_MAGIC_0" "ks_body c p ! Suc 0 = KS_MAGIC_1"
  "drop 2 (ks_body c p) = c # lo8 (word_of_nat (length p)) # hi8 (word_of_nat (length p)) # p"
  "length (ks_body c p) = 5 + length p"
  by (simp_all add: ks_body_def ks_header_def numeral_2_eq_2)

text \<open>The next byte of the request moves the receiver one position on.\<close>

lemma mid_step:
  assumes m: "mid_request (ks_body cmd pl) s0 k s" and k: "k < 5 + length pl"
    and n: "length pl \<le> KS_PAYLOAD_MAX" and b: "b = ks_body cmd pl ! k"
  shows "\<exists>s' p'. ks_rx_byte p b s = (s', More True p') \<and>
    mid_request (ks_body cmd pl) s0 (Suc k) s'"
proof -
  let ?rx = "bin_rx s" and ?body = "ks_body cmd pl"
  obtain s' r where r: "ks_rx_byte p b s = (s', r)" by fastforce
  have nr: "\<not> rf_ready (ready_frame s0)" "s = s0 \<lparr>bin_rx := bin_rx s\<rparr>" "rx_inv (take k ?body) s"
    using m by (auto simp: mid_request_def)
  have ok: "rx_ok ?rx" using nr(3) by (simp add: rx_inv_def)
  have inv': "rx_inv (take (Suc k) ?body) s'"
    using rx_byte_inv [OF nr(3) r] k b by (simp add: take_Suc_conv_app_nth body_nth)
  have fin: ?thesis if "r = More True q" "length (rx_tail (bin_rx s')) = Suc k"
    "s' = s \<lparr>bin_rx := bin_rx s'\<rparr>" for q
  proof -
    have "s' = s0 \<lparr>bin_rx := bin_rx s'\<rparr>" using that(3) nr(2) by (metis ks_cdc.surjective ks_cdc.update_convs(7))
    then have "mid_request ?body s0 (Suc k) s'"
      using inv' that(2) nr(1) unfolding mid_request_def by blast
    then show ?thesis using that(1) r by blast
  qed
  from m less_imp_le [OF k] n show ?thesis
  proof (cases rule: mid_cases)
    case idle
    then show ?thesis using r b
      by (intro fin [of p]) (auto simp: ks_rx_byte_def Let_def body_nth rx_tail_def)
  next
    case magic
    then show ?thesis using r b
      by (intro fin [of True]) (auto simp: ks_rx_byte_def Let_def body_nth rx_tail_def)
  next
    case header
    let ?h = "rx_hdr_pos ?rx"
    let ?rx1 = "?rx \<lparr>rx_hdr_buf := mem_write ?h [b] (rx_hdr_buf ?rx), rx_hdr_pos := ?h + 1\<rparr>"
    have len: "length (rx_hdr_buf ?rx) = 3" using ok by (simp add: rx_ok_def)
    have res: "r = More True p" using r header(3) by (auto simp: ks_rx_byte_def Let_def)
    show ?thesis
    proof (cases "?h + 1 = 3")
      case False
      then have "s' = s \<lparr>bin_rx := ?rx1\<rparr>" using r header(3) by (auto simp: ks_rx_byte_def Let_def)
      then show ?thesis using header len False by (intro fin [OF res]) (simp_all add: rx_tail_def)
    next
      case True
      then have s': "s' = ks_rx_header_done (s \<lparr>bin_rx := ?rx1\<rparr>)"
        using r header(3) by (auto simp: ks_rx_byte_def Let_def)
      let ?n = "word_of_nat (length pl) :: u16"
      have un: "unat ?n \<le> KS_PAYLOAD_MAX"
        using n by (simp add: KS_PAYLOAD_MAX_def unat_of_nat take_bit_nat_eq_self)
      have bb: "b = hi8 ?n" using b header(1) True
        by (simp add: ks_body_def ks_header_def numeral_eq_Suc)
      have h2: "?h = 2" using True by simp
      have buf: "mem_write ?h [b] (rx_hdr_buf ?rx) = [cmd, lo8 ?n, hi8 ?n]"
        using header(4) len bb by (simp add: h2 mem_write_def body_nth)
      have "be16 (hi8 ?n) (lo8 ?n) = ?n" by simp
      then show ?thesis using True header(1) un
        by (intro fin [OF res])
          (auto simp: s' ks_rx_header_done_def buf [unfolded h2] le16_bytes Let_def rx_tail_def)
    qed
  next
    case payload
    have lt: "rx_payload_pos ?rx < rx_payload_len ?rx"
      "unat (rx_payload_pos ?rx) < length (rx_payload ?rx)"
      using ok payload(2) by (auto simp: rx_ok_def word_less_nat_alt)
    have inc: "unat (rx_payload_pos ?rx + 1) = Suc (unat (rx_payload_pos ?rx))"
      by (rule unat_inc [OF lt(1)])
    have len: "unat (rx_payload_len ?rx) \<le> length (rx_payload ?rx)"
      using ok payload(2) by (simp add: rx_ok_def)
    have "rx_payload_pos ?rx + 1 \<ge> rx_payload_len ?rx \<Longrightarrow>
        unat (rx_payload_len ?rx) = Suc (unat (rx_payload_pos ?rx))"
      using lt(1) inc by (simp add: word_le_nat_alt word_less_nat_alt)
    then show ?thesis using r payload(1,2) lt inc len
      by (intro fin [of p]) (auto simp: ks_rx_byte_def Let_def rx_tail_def)
  next
    case crc then show ?thesis using k by simp
  qed
qed

lemma mid_loop:
  "mid_request (ks_body cmd pl) s0 k s \<Longrightarrow> k + length data \<le> 5 + length pl \<Longrightarrow>
     length pl \<le> KS_PAYLOAD_MAX \<Longrightarrow> data = take (length data) (drop k (ks_body cmd pl)) \<Longrightarrow>
     \<exists>s' i' c' p'. mid_request (ks_body cmd pl) s0 (k + length data) s' \<and>
       (\<forall>rest. ks_rx_loop i c p (data @ rest) s = ks_rx_loop i' c' p' rest s')"
proof (induction data arbitrary: k s i c p)
  case Nil then show ?case by auto
next
  case (Cons b data)
  have k: "k < 5 + length pl" using Cons.prems(2) by simp
  have dk: "drop k (ks_body cmd pl) = ks_body cmd pl ! k # drop (Suc k) (ks_body cmd pl)"
    using k by (simp add: Cons_nth_drop_Suc body_nth)
  have b: "b = ks_body cmd pl ! k" "data = take (length data) (drop (Suc k) (ks_body cmd pl))"
    using Cons.prems(4) unfolding dk by simp_all
  obtain s1 p1 where s1: "ks_rx_byte p b s = (s1, More True p1)"
    "mid_request (ks_body cmd pl) s0 (Suc k) s1"
    using mid_step [OF Cons.prems(1) k Cons.prems(3) b(1)] by blast
  have "Suc k + length data \<le> 5 + length pl" using Cons.prems(2) by simp
  then obtain s' i' c' p' where "mid_request (ks_body cmd pl) s0 (Suc k + length data) s'"
    "\<forall>rest. ks_rx_loop (i + 1) (i + 1) p1 (data @ rest) s1 = ks_rx_loop i' c' p' rest s'"
    using Cons.IH [OF s1(2) _ Cons.prems(3) b(2), of "i + 1" "i + 1" p1] by blast
  then show ?case using s1(1)
    by (intro exI [of _ s'] exI [of _ i'] exI [of _ c'] exI [of _ p']) simp
qed

definition rx_idle :: "'h ks_cdc \<Rightarrow> bool" where
  "rx_idle s \<longleftrightarrow> rx_state (bin_rx s) = KS_RX_IDLE \<and> rx_ok (bin_rx s) \<and>
     ready_ok (ready_frame s) \<and> \<not> rf_ready (ready_frame s)"

text \<open>The frame is with the dispatcher, and nothing but the two buffers has changed.\<close>

definition accepted :: "'h ks_cdc \<Rightarrow> u8 \<Rightarrow> bytes \<Rightarrow> 'h ks_cdc \<Rightarrow> bool" where
  "accepted s0 cmd pl s \<longleftrightarrow> rf_ready (ready_frame s) \<and> rf_cmd_id (ready_frame s) = cmd \<and>
     ready_payload (ready_frame s) = pl \<and> rx_state (bin_rx s) = KS_RX_IDLE \<and>
     s = s0 \<lparr>bin_rx := bin_rx s, ready_frame := ready_frame s\<rparr>"

lemma upd_rx_fields:
  "s = (s0 :: 'h ks_cdc) \<lparr>bin_rx := a\<rparr> \<Longrightarrow> ready_frame s = ready_frame s0"
  "s = s0 \<lparr>bin_rx := a, ready_frame := b\<rparr> \<Longrightarrow> bin_tables s = bin_tables s0"
  by simp_all

lemma mid_finish:
  assumes m: "mid_request (ks_body cmd pl) s0 (5 + length pl) s"
    and n: "length pl \<le> KS_PAYLOAD_MAX"
  shows "ks_rx_loop i c p (b # rest) s = (ks_rx_crc b s, i + 1)"
    "b = ks_crc8 pl \<Longrightarrow> accepted s0 cmd pl (ks_rx_crc b s)"
    "b \<noteq> ks_crc8 pl \<Longrightarrow> ks_rx_crc b s =
       (ks_respond_err cmd KS_STATUS_ERR_CRC s) \<lparr>bin_rx := (bin_rx s) \<lparr>rx_state := KS_RX_IDLE\<rparr>\<rparr>"
proof -
  let ?rx = "bin_rx s"
  have un: "unat (word_of_nat (length pl) :: u16) = length pl"
    using n by (simp add: KS_PAYLOAD_MAX_def unat_of_nat take_bit_nat_eq_self)
  have s: "rx_state ?rx = KS_RX_CRC" "rx_cmd_id ?rx = cmd"
      "rx_payload_len ?rx = word_of_nat (length pl)" "take (length pl) (rx_payload ?rx) = pl"
    using mid_cases [OF m order.refl n] by auto
  have e: "s = s0 \<lparr>bin_rx := bin_rx s\<rparr>" "ready_ok (ready_frame s)" "\<not> rf_ready (ready_frame s0)"
    using m by (auto simp: mid_request_def rx_inv_def)
  have f: "\<not> rf_ready (ready_frame s)" "s = s0 \<lparr>bin_rx := bin_rx s\<rparr>" "ready_ok (ready_frame s)"
    using upd_rx_fields(1) [OF e(1)] e by simp_all
  show "ks_rx_loop i c p (b # rest) s = (ks_rx_crc b s, i + 1)"
    using s(1) by (simp add: ks_rx_byte_def Let_def)
  show "b \<noteq> ks_crc8 pl \<Longrightarrow> ks_rx_crc b s =
      (ks_respond_err cmd KS_STATUS_ERR_CRC s) \<lparr>bin_rx := ?rx \<lparr>rx_state := KS_RX_IDLE\<rparr>\<rparr>"
    using s un by (simp add: ks_rx_crc_def Let_def)
  assume b: "b = ks_crc8 pl"
  let ?rf = "\<lparr>rf_cmd_id = cmd, rf_payload_len = word_of_nat (length pl),
     rf_payload = mem_write 0 pl (rf_payload (ready_frame s)), rf_ready = True\<rparr>"
  have r: "ks_rx_crc b s = s \<lparr>ready_frame := ?rf, bin_rx := ?rx \<lparr>rx_state := KS_RX_IDLE\<rparr>\<rparr>"
    using b s un f by (simp add: ks_rx_crc_def Let_def)
  have "ready_payload ?rf = pl" using un by (simp add: ready_payload_def mem_write_def)
  moreover have "ks_rx_crc b s = s0 \<lparr>bin_rx := bin_rx (ks_rx_crc b s),
      ready_frame := ready_frame (ks_rx_crc b s)\<rparr>"
    unfolding r by (subst f(2)) simp
  ultimately show "accepted s0 cmd pl (ks_rx_crc b s)" unfolding accepted_def by (simp add: r)
qed

lemma request_body: "ks_request cmd pl = ks_body cmd pl @ [ks_crc8 pl]"
  by (simp add: ks_request_def ks_body_def)

lemma receive_nil [simp]: "receive_data [] s = s"
  by (simp add: receive_data_def ks_rx_feed_def)

lemma append_last:
  assumes "d @ e = t @ [c]" "length t < length d"
  shows "d = t @ [c] \<and> e = []"
proof -
  have "length d + length e = length t + 1" using arg_cong [OF assms(1), of length] by simp
  then have "e = []" using assms(2) by (cases e) auto
  then show ?thesis using assms(1) by simp
qed

lemma receive_pieces:
  "mid_request (ks_body cmd pl) s0 k s \<Longrightarrow> k \<le> 5 + length pl \<Longrightarrow>
     length pl \<le> KS_PAYLOAD_MAX \<Longrightarrow> concat pieces = drop k (ks_body cmd pl) @ [ks_crc8 pl] \<Longrightarrow>
     accepted s0 cmd pl (fold receive_data pieces s)"
proof (induction pieces arbitrary: k s)
  case Nil then show ?case by simp
next
  case (Cons d ds)
  let ?body = "ks_body cmd pl"
  show ?case
  proof (cases "k + length d \<le> 5 + length pl")
    case True
    have d: "d = take (length d) (drop k ?body)"
      "concat ds = drop (k + length d) ?body @ [ks_crc8 pl]"
      using Cons.prems(4) True
      by (auto simp: append_eq_append_conv_if body_nth add.commute split: if_splits)
    from mid_loop [OF Cons.prems(1) True Cons.prems(3) d(1), of 0 0 False] obtain s' i' c' p' where
      m: "mid_request ?body s0 (k + length d) s'" and
      l: "\<And>rest. ks_rx_loop 0 0 False (d @ rest) s = ks_rx_loop i' c' p' rest s'" by blast
    have "receive_data d s = s'" using l [of "[]"] by (simp add: receive_data_def ks_rx_feed_def)
    then show ?thesis using Cons.IH [OF m True Cons.prems(3) d(2)] by simp
  next
    case False
    let ?t = "drop k ?body"
    have lt: "length ?t < length d" using False Cons.prems(2) by (simp add: body_nth)
    then have d: "d = ?t @ [ks_crc8 pl]" "concat ds = []"
      using append_last [OF _ lt, of "concat ds" "ks_crc8 pl"] Cons.prems(4)
      by (simp_all del: concat_eq_Nil_conv)
    have "fold receive_data ds x = x" for x :: "'a ks_cdc"
      using d(2) by (induction ds) auto
    moreover have kt: "k + length ?t = 5 + length pl" "?t = take (length ?t) ?t"
      using Cons.prems(2) by (simp_all add: body_nth)
    then obtain s' i' c' p' where m: "mid_request ?body s0 (5 + length pl) s'" and
      l: "\<And>rest. ks_rx_loop 0 0 False (?t @ rest) s = ks_rx_loop i' c' p' rest s'"
      using mid_loop [OF Cons.prems(1) _ Cons.prems(3) kt(2), of 0 0 False] by auto
    have "receive_data d s = ks_rx_crc (ks_crc8 pl) s'"
      using l [of "[ks_crc8 pl]"] mid_finish(1) [OF m Cons.prems(3)]
      by (simp add: receive_data_def ks_rx_feed_def d(1) del: ks_rx_loop.simps)
    ultimately show ?thesis using mid_finish(2) [OF m Cons.prems(3)] by simp
  qed
qed

section \<open>The command channel as a whole\<close>

lemma idle_mid: "rx_idle s \<longleftrightarrow> mid_request body s 0 s"
  by (simp add: rx_idle_def mid_idle_iff)

lemma rx_idle_init [simp]: "rx_idle (ks_cdc_init \<lparr>bin_tables := t\<rparr>)"
  by (simp add: rx_idle_def ks_cdc_init_def rx_ok_def ready_ok_def)

lemma ks_body_ne [simp]: "ks_body c p \<noteq> []"
  by (simp add: ks_body_def ks_header_def)

lemma emit_upd_rx: "ks_emit d (s \<lparr>bin_rx := x\<rparr>) = (ks_emit d s) \<lparr>bin_rx := x\<rparr>"
  by (simp add: ks_emit_def usb_write_def resp_redirect_append_def Let_def)

lemma respond_upd_rx: "ks_respond c st p (s \<lparr>bin_rx := x\<rparr>) = (ks_respond c st p s) \<lparr>bin_rx := x\<rparr>"
  by (simp add: ks_respond_def Let_def emit_upd_rx)

lemma receive_request_then:
  assumes "rx_idle s" "length pl \<le> KS_PAYLOAD_MAX"
  shows "\<exists>s'. mid_request (ks_body cmd pl) s (5 + length pl) s' \<and>
    (\<forall>b rest. receive_data (ks_body cmd pl @ b # rest) s = ks_rx_crc b s')"
proof -
  have k: "0 + length (ks_body cmd pl) = 5 + length pl"
    "ks_body cmd pl = take (length (ks_body cmd pl)) (drop 0 (ks_body cmd pl))"
    by (simp_all add: body_nth)
  obtain s' i' c' p' where m: "mid_request (ks_body cmd pl) s (5 + length pl) s'" and
    "\<forall>rest. ks_rx_loop 0 0 False (ks_body cmd pl @ rest) s = ks_rx_loop i' c' p' rest s'"
    using mid_loop [OF iffD1 [OF idle_mid assms(1)] eq_refl [OF k(1)] assms(2) k(2), of 0 0 False]
    unfolding k(1) by blast
  then show ?thesis using mid_finish(1) [OF m assms(2)]
    by (auto simp: receive_data_def ks_rx_feed_def simp del: ks_rx_loop.simps)
qed

text \<open>
  C40: A request of at most 4096 payload bytes that reaches an idle receiver is executed
  whatever USB packets it was cut into: after the last packet the dispatcher runs the handler
  registered for the command on exactly the sent payload, and answers UNKNOWN when there is
  none; nothing else of the channel has changed.
\<close>

theorem cdc_request_any_split:
  assumes "rx_idle s" "length pl \<le> KS_PAYLOAD_MAX" "concat pieces = ks_request cmd pl"
  shows "let s' = fold receive_data pieces s in
    accepted s cmd pl s' \<and>
    ks_process_one run s' =
      (let s1 = (case find_handler (bin_tables s) cmd of
                   Some h \<Rightarrow> run h cmd pl s'
                 | None \<Rightarrow> ks_respond_err cmd KS_STATUS_ERR_UNKNOWN s')
       in (s1 \<lparr>ready_frame := (ready_frame s1) \<lparr>rf_ready := False\<rparr>\<rparr>, True))"
proof -
  let ?s = "fold receive_data pieces s"
  have a: "accepted s cmd pl ?s"
    using receive_pieces [OF iffD1 [OF idle_mid assms(1)] _ assms(2), where cmd = cmd and pieces = pieces] assms(3)
    by (simp add: request_body)
  then have t: "bin_tables ?s = bin_tables s"
    unfolding accepted_def by (elim conjE) (rule upd_rx_fields(2))
  show ?thesis using a t
    by (simp add: Let_def ks_process_one_def cfg_bridge_have_smart_kbd_def ks_run_command_def
        accepted_def ready_payload_def)
qed

lemma cdc_request_any_split_witness:
  "accepted ks_cdc_init 0x04 [7] (fold receive_data
     [take 1 (ks_request 0x04 [7]), [], drop 1 (ks_request 0x04 [7])] (ks_cdc_init :: nat ks_cdc))"
proof -
  have "rx_idle (ks_cdc_init :: nat ks_cdc)"
    by (simp add: rx_idle_def ks_cdc_init_def rx_ok_def ready_ok_def)
  moreover have "concat [take 1 (ks_request 0x04 [7]), [], drop 1 (ks_request 0x04 [7])] =
      ks_request 0x04 [7]" by (simp only: concat.simps append_Nil append_Nil2 append_take_drop_id)
  moreover have "length [7 :: u8] \<le> KS_PAYLOAD_MAX" by (simp add: KS_PAYLOAD_MAX_def)
  ultimately show ?thesis
    using cdc_request_any_split [of "ks_cdc_init :: nat ks_cdc" "[7]" _ "0x04" "\<lambda>_ _ _ s. s"]
    unfolding Let_def by blast
qed

text \<open>
  The callback drops whatever follows a complete request in the same USB buffer: a second
  request sent back to back with the first one is never seen, and nothing is answered to it.
\<close>

theorem cdc_pipelined_request_lost:
  assumes "rx_idle s" "length pl \<le> KS_PAYLOAD_MAX"
  shows "receive_data (ks_request cmd pl @ ks_request cmd' pl') s =
    receive_data (ks_request cmd pl) s"
proof -
  from receive_request_then [OF assms, of cmd] obtain s' where
    r: "receive_data (ks_body cmd pl @ b # rest) s = ks_rx_crc b s'" for b rest by blast
  show ?thesis
    using r [of "ks_crc8 pl" "ks_request cmd' pl'"] r [of "ks_crc8 pl" "[]"]
    by (simp add: request_body [of cmd pl])
qed

lemma cdc_pipelined_request_lost_witness:
  "receive_data (ks_request 0x04 [] @ ks_request 0x01 []) (ks_cdc_init :: nat ks_cdc) =
     receive_data (ks_request 0x04 []) ks_cdc_init"
  by (rule cdc_pipelined_request_lost)
    (simp_all add: rx_idle_def ks_cdc_init_def rx_ok_def ready_ok_def)

text \<open>
  A request with one wrong payload byte is never executed: the receiver answers the
  checksum error for that command, hands nothing to the dispatcher and is idle again.
\<close>

theorem cdc_corrupted_request_refused:
  assumes "rx_idle s" "length pl \<le> KS_PAYLOAD_MAX" "i < length pl" "b \<noteq> pl ! i"
  shows "let s' = receive_data (ks_body cmd (pl[i := b]) @ [ks_crc8 pl]) s in
    rx_idle s' \<and> ready_frame s' = ready_frame s \<and>
    usb_out s' = usb_out (ks_respond_err cmd KS_STATUS_ERR_CRC s)"
proof -
  let ?pl = "pl[i := b]"
  have n: "length ?pl \<le> KS_PAYLOAD_MAX" using assms(2) by simp
  from receive_request_then [OF assms(1) n, of cmd] obtain s' where
    m: "mid_request (ks_body cmd ?pl) s (5 + length ?pl) s'" and
    r: "receive_data (ks_body cmd ?pl @ b # rest) s = ks_rx_crc b s'" for b rest by blast
  have ne: "ks_crc8 pl \<noteq> ks_crc8 ?pl" using ks_crc8_one_byte [OF assms(3)] assms(4) by metis
  have s': "s' = s \<lparr>bin_rx := bin_rx s'\<rparr>" "rx_ok (bin_rx s')" "\<not> rf_ready (ready_frame s)"
    using m by (auto simp: mid_request_def rx_inv_def)
  then have f: "ready_frame s' = ready_frame s"
    by (intro upd_rx_fields(1))
  have "ks_respond_err cmd KS_STATUS_ERR_CRC s' =
      (ks_respond_err cmd KS_STATUS_ERR_CRC s) \<lparr>bin_rx := bin_rx s'\<rparr>"
    by (subst s'(1)) (simp add: ks_respond_err_def respond_upd_rx)
  then have o: "usb_out (ks_respond_err cmd KS_STATUS_ERR_CRC s') =
      usb_out (ks_respond_err cmd KS_STATUS_ERR_CRC s)" by simp
  let ?r = "ks_rx_crc (ks_crc8 pl) s'"
  note eq = mid_finish(3) [OF m n ne]
  have "bin_rx ?r = (bin_rx s') \<lparr>rx_state := KS_RX_IDLE\<rparr>" by (simp add: eq)
  moreover have "ready_frame ?r = ready_frame s" using f by (simp add: eq ks_respond_err_def)
  moreover have "usb_out ?r = usb_out (ks_respond_err cmd KS_STATUS_ERR_CRC s)"
    using o by (simp add: eq)
  moreover have "rx_ok ((bin_rx s') \<lparr>rx_state := KS_RX_IDLE\<rparr>)"
    using s'(2) by (simp add: rx_ok_def)
  ultimately show ?thesis using assms(1) unfolding Let_def r rx_idle_def by simp
qed

lemma cdc_corrupted_request_refused_witness:
  "let s' = receive_data (ks_body 0x11 ([1, 2, 3][1 := 9]) @ [ks_crc8 [1, 2, 3]])
       (ks_cdc_init :: nat ks_cdc) in
    rx_idle s' \<and> ready_frame s' = ready_frame (ks_cdc_init :: nat ks_cdc) \<and>
    usb_out s' = usb_out (ks_respond_err 0x11 KS_STATUS_ERR_CRC (ks_cdc_init :: nat ks_cdc))"
  by (rule cdc_corrupted_request_refused [of "ks_cdc_init :: nat ks_cdc" "[1, 2, 3]" 1 9 "0x11"])
    (simp_all add: rx_idle_def ks_cdc_init_def rx_ok_def ready_ok_def KS_PAYLOAD_MAX_def)

section \<open>The USB callback and the dispatcher task, interleaved\<close>

datatype cdc_event = Packet bytes | Dispatch

fun cdc_event_step :: "'h ks_run \<Rightarrow> cdc_event \<Rightarrow> 'h ks_cdc \<Rightarrow> 'h ks_cdc" where
  "cdc_event_step run (Packet d) s = receive_data d s"
| "cdc_event_step run Dispatch s = fst (ks_process_one run s)"

fun packets :: "cdc_event list \<Rightarrow> bytes list" where
  "packets [] = []"
| "packets (Packet d # evs) = d # packets evs"
| "packets (Dispatch # evs) = packets evs"

text \<open>Handlers send responses; they do not write the receiver's two buffers.\<close>

definition keeps_rx :: "'h ks_run \<Rightarrow> bool" where
  "keeps_rx run \<longleftrightarrow> (\<forall>h c p s. bin_rx (run h c p s) = bin_rx s \<and>
     ready_frame (run h c p s) = ready_frame s)"

lemma process_one_inv:
  assumes "keeps_rx run" "rx_inv h s"
  shows "rx_inv h (fst (ks_process_one run s))"
proof -
  have "bin_rx (ks_run_command run c p s) = bin_rx s \<and>
      ready_frame (ks_run_command run c p s) = ready_frame s" for c p
    using assms(1)
    by (simp add: ks_run_command_def keeps_rx_def ks_respond_err_def split: option.split)
  then show ?thesis using assms(2)
    by (auto simp: ks_process_one_def cfg_bridge_have_smart_kbd_def Let_def rx_inv_def ready_ok_def)
qed

lemma events_inv:
  "keeps_rx run \<Longrightarrow> rx_inv h s \<Longrightarrow>
     \<exists>parts. list_all2 prefix parts (packets evs) \<and>
       rx_inv (h @ concat parts) (fold (cdc_event_step run) evs s)"
proof (induction evs arbitrary: h s)
  case Nil then show ?case by simp
next
  case (Cons e evs)
  show ?case
  proof (cases e)
    case (Packet d)
    obtain part where "prefix part d" "rx_inv (h @ part) (receive_data d s)"
      using ks_rx_feed_inv [OF Cons.prems(2), of d] by blast
    with Cons.IH [OF Cons.prems(1) this(2)] obtain parts where
      "list_all2 prefix (part # parts) (packets (e # evs))"
      "rx_inv (h @ concat (part # parts)) (fold (cdc_event_step run) (e # evs) s)"
      using Packet by auto
    then show ?thesis by blast
  next
    case Dispatch
    then show ?thesis
      using Cons.IH [OF Cons.prems(1) process_one_inv [OF Cons.prems]] by simp
  qed
qed

text \<open>
  Whatever bytes arrive, in whatever packets and interleaved in whatever way with the
  dispatcher, the assembly buffers are never written outside their bounds, and a frame that is
  handed to the dispatcher is a complete request, magic, command, length, payload and checksum,
  that stands in one piece in the received bytes.
\<close>

theorem cdc_accepts_only_requests:
  assumes "keeps_rx run"
  shows "\<exists>parts. list_all2 prefix parts (packets evs) \<and>
    (let s = fold (cdc_event_step run) evs (ks_cdc_init \<lparr>bin_tables := t\<rparr>) in
     length (rx_payload (bin_rx s)) = KS_PAYLOAD_MAX \<and> length (rx_hdr_buf (bin_rx s)) = 3 \<and>
     length (rf_payload (ready_frame s)) = KS_PAYLOAD_MAX \<and>
     (rf_ready (ready_frame s) \<longrightarrow>
        sublist (ks_request (rf_cmd_id (ready_frame s)) (ready_payload (ready_frame s)))
          (concat parts)))"
proof -
  have "rx_inv [] (ks_cdc_init \<lparr>bin_tables := t\<rparr>)"
    by (simp add: rx_inv_def ks_cdc_init_def rx_ok_def ready_ok_def rx_tail_def)
  from events_inv [OF assms this, of evs] obtain parts where
    "list_all2 prefix parts (packets evs)"
    "rx_inv (concat parts) (fold (cdc_event_step run) evs (ks_cdc_init \<lparr>bin_tables := t\<rparr>))"
    by auto
  then show ?thesis unfolding Let_def rx_inv_def rx_ok_def ready_ok_def by blast
qed

lemma cdc_accepts_only_requests_witness:
  "\<exists>parts. list_all2 prefix parts [ks_request 0x04 [7]] \<and>
     sublist (ks_request 0x04 [7]) (concat parts)"
proof -
  let ?s = "fold (cdc_event_step (\<lambda>(h::nat) c p s. s)) [Packet (ks_request 0x04 [7])]
      (ks_cdc_init \<lparr>bin_tables := []\<rparr>)"
  have "concat [ks_request 0x04 [7]] = drop 0 (ks_body 0x04 [7]) @ [ks_crc8 [7]]"
    by (simp add: request_body)
  then have "accepted (ks_cdc_init \<lparr>bin_tables := []\<rparr>) 0x04 [7]
      (fold receive_data [ks_request 0x04 [7]] (ks_cdc_init \<lparr>bin_tables := []\<rparr> :: nat ks_cdc))"
    by (intro receive_pieces [OF iffD1 [OF idle_mid rx_idle_init]])
      (simp_all add: KS_PAYLOAD_MAX_def del: concat.simps)
  then have "accepted (ks_cdc_init \<lparr>bin_tables := []\<rparr>) 0x04 [7] ?s" by simp
  then have a: "rf_ready (ready_frame ?s)" "rf_cmd_id (ready_frame ?s) = 0x04"
    "ready_payload (ready_frame ?s) = [7]" by (simp_all only: accepted_def)
  have "keeps_rx (\<lambda>(h::nat) c p s. s)" by (simp add: keeps_rx_def)
  from cdc_accepts_only_requests [OF this, of "[Packet (ks_request 0x04 [7])]" "[]"] a
  show ?thesis unfolding Let_def by (simp only: packets.simps) blast
qed

lemma byte_keeps_pending:
  "rf_ready (ready_frame s) \<Longrightarrow> ks_rx_byte p b s = (s', r) \<Longrightarrow> ready_frame s' = ready_frame s"
  by (auto simp: ks_rx_byte_def ks_rx_crc_def ks_rx_header_done_def Let_def ks_respond_err_def
      split: ks_rx_state.splits if_splits)

lemma loop_keeps_pending:
  "rf_ready (ready_frame s) \<Longrightarrow> ks_rx_loop i c p data s = (s', n) \<Longrightarrow> ready_frame s' = ready_frame s"
proof (induction i c p data s arbitrary: s' n rule: ks_rx_loop.induct)
  case (2 i consumed progressed b data s)
  obtain s1 r where r: "ks_rx_byte progressed b s = (s1, r)" by fastforce
  have k: "ready_frame s1 = ready_frame s" by (rule byte_keeps_pending [OF "2.prems"(1) r])
  show ?case using "2.prems" r k "2.IH" [OF r [symmetric]] by (cases r) auto
qed simp

text \<open>
  A frame waiting for the dispatcher, or being executed by it, is not overwritten by the
  bytes that arrive meanwhile: whatever packets come in, the dispatcher runs the handler on the
  payload that was validated, and only then is the slot free.
\<close>

theorem cdc_pending_frame_stable:
  assumes "rf_ready (ready_frame s)"
  shows "let s' = fold receive_data ds s in
    ready_frame s' = ready_frame s \<and>
    (\<exists>s1. s1 = ks_run_command run (rf_cmd_id (ready_frame s)) (ready_payload (ready_frame s)) s' \<and>
      ks_process_one run s' = (s1 \<lparr>ready_frame := (ready_frame s1) \<lparr>rf_ready := False\<rparr>\<rparr>, True))"
proof -
  have one: "ready_frame (receive_data d s) = ready_frame s" if "rf_ready (ready_frame s)"
    for d and s :: "'a ks_cdc"
    using loop_keeps_pending [OF that, of 0 0 False d] unfolding receive_data_def ks_rx_feed_def
    by (metis prod.collapse)
  have "ready_frame (fold receive_data ds s) = ready_frame s"
    using assms by (induction ds arbitrary: s) (simp_all add: one)
  then show ?thesis using assms
    by (simp add: Let_def ks_process_one_def cfg_bridge_have_smart_kbd_def ready_payload_def)
qed

lemma cdc_pending_frame_stable_witness:
  "let s = (ks_cdc_init :: nat ks_cdc) \<lparr>ready_frame := \<lparr>rf_cmd_id = 4, rf_payload_len = 0,
       rf_payload = replicate KS_PAYLOAD_MAX 0, rf_ready = True\<rparr>\<rparr> in
    ready_frame (fold receive_data [ks_request 0x11 [1]] s) = ready_frame s"
proof -
  let ?s = "(ks_cdc_init :: nat ks_cdc) \<lparr>ready_frame := \<lparr>rf_cmd_id = 4, rf_payload_len = 0,
       rf_payload = replicate KS_PAYLOAD_MAX 0, rf_ready = True\<rparr>\<rparr>"
  have "rf_ready (ready_frame ?s)" by simp
  from cdc_pending_frame_stable [OF this, of "[ks_request 0x11 [1]]" "\<lambda>_ _ _ s. s"]
  show ?thesis unfolding Let_def by (elim conjE)
qed

text \<open>
  A request handed over whole is executed like one received over USB: the direct entry
  point runs the same handler on the same payload.
\<close>

theorem ks_dispatch_request:
  "length pl < 65530 \<Longrightarrow> ks_dispatch_frame run (ks_request cmd pl) s = ks_run_command run cmd pl s"
proof -
  let ?n = "word_of_nat (length pl) :: u16"
  have f: "ks_request cmd pl =
      KS_MAGIC_0 # KS_MAGIC_1 # cmd # lo8 ?n # hi8 ?n # (pl @ [ks_crc8 pl])"
    by (simp add: ks_request_def ks_header_def)
  have e: "(a # b # c # d # e # (p @ [x])) ! (5 + length p) = x" for a b c d e x :: u8 and p
    by (simp add: numeral_eq_Suc nth_append)
  have d: "drop 5 (a # b # c # d # e # p) = p" for a b c d e :: u8 and p by simp
  assume "length pl < 65530"
  then have "unat ?n = length pl" by (simp add: unat_of_nat take_bit_nat_eq_self)
  then show ?thesis by (simp add: ks_dispatch_frame_def f le16_bytes e d)
qed

lemma ks_dispatch_request_witness:
  "ks_dispatch_frame (\<lambda>(h::nat) c p s. s) (ks_request 0x04 [1, 2]) ks_cdc_init =
     ks_run_command (\<lambda>h c p s. s) 0x04 [1, 2] ks_cdc_init"
  by (rule ks_dispatch_request) simp


end
