(* ===== verification/Keycodes.thy ===== *)
theory Keycodes
  imports Prelude
begin

unbundle bit_operations_syntax

text \<open>
  \<open>main/input/key_definitions.h\<close>: how a 16-bit keymap entry is read. Entries up to
  \<open>0xFF\<close> are HID usages, of which \<open>0xE0\<close> to \<open>0xE7\<close> are the modifiers; the ranges above hold
  the layer keys, the macros, the Bluetooth keys and the advanced keys.
\<close>

definition LAYERS :: nat where "LAYERS = 10"
definition INVALID_KEY_POS :: u8 where "INVALID_KEY_POS = 0xFF"

definition MO_L0 :: u16 where "MO_L0 = 0x0100"
definition MO_L9 :: u16 where "MO_L9 = 0x0A00"
definition TO_L0 :: u16 where "TO_L0 = 0x0B00"
definition TO_L9 :: u16 where "TO_L9 = 0x1400"
definition MACRO_1 :: u16 where "MACRO_1 = 0x1500"
definition MACRO_20 :: u16 where "MACRO_20 = 0x2800"
definition BT_SWITCH_DEVICE :: u16 where "BT_SWITCH_DEVICE = 0x2E00"
definition BT_TOGGLE :: u16 where "BT_TOGGLE = 0x2F00"
definition K_BT_NEXT :: u16 where "K_BT_NEXT = 0x2900"
definition K_BT_PREV :: u16 where "K_BT_PREV = 0x2A00"
definition K_BT_PAIR :: u16 where "K_BT_PAIR = 0x2B00"
definition K_BT_DISCONNECT :: u16 where "K_BT_DISCONNECT = 0x2C00"

definition K_IS_OSM :: "u16 \<Rightarrow> bool" where "K_IS_OSM kc \<longleftrightarrow> kc AND 0xFF00 = 0x3000"
definition K_OSM_MOD :: "u16 \<Rightarrow> u8" where "K_OSM_MOD kc = ucast (kc AND 0xFF)"
definition K_IS_OSL :: "u16 \<Rightarrow> bool" where "K_IS_OSL kc \<longleftrightarrow> kc AND 0xFFF0 = 0x3100"
definition K_OSL_LAYER :: "u16 \<Rightarrow> u8" where "K_OSL_LAYER kc = ucast (kc AND 0x0F)"
definition K_CAPS_WORD :: u16 where "K_CAPS_WORD = 0x3200"
definition K_REPEAT :: u16 where "K_REPEAT = 0x3300"
definition K_LEADER :: u16 where "K_LEADER = 0x3400"
definition K_GESC :: u16 where "K_GESC = 0x3900"
definition K_LAYER_LOCK :: u16 where "K_LAYER_LOCK = 0x3A00"
definition K_AUTO_SHIFT_TOGGLE :: u16 where "K_AUTO_SHIFT_TOGGLE = 0x3C00"
definition K_SEC_CONFIRM :: u16 where "K_SEC_CONFIRM = 0x3E00"
definition K_DISP_NEXT :: u16 where "K_DISP_NEXT = 0x3F00"
definition K_IS_LT :: "u16 \<Rightarrow> bool" where "K_IS_LT kc \<longleftrightarrow> kc AND 0xF000 = 0x4000"
definition K_LT_LAYER :: "u16 \<Rightarrow> u8" where "K_LT_LAYER kc = ucast (drop_bit 8 kc AND 0x0F)"
definition K_LT_KEY :: "u16 \<Rightarrow> u8" where "K_LT_KEY kc = ucast (kc AND 0xFF)"
definition K_IS_MT :: "u16 \<Rightarrow> bool" where "K_IS_MT kc \<longleftrightarrow> kc AND 0xF000 = 0x5000"
definition K_MT_MOD :: "u16 \<Rightarrow> u8" where "K_MT_MOD kc = ucast (drop_bit 8 kc AND 0x0F)"
definition K_MT_KEY :: "u16 \<Rightarrow> u8" where "K_MT_KEY kc = ucast (kc AND 0xFF)"
definition K_IS_TD :: "u16 \<Rightarrow> bool" where "K_IS_TD kc \<longleftrightarrow> kc AND 0xF000 = 0x6000"
definition K_TD_INDEX :: "u16 \<Rightarrow> u8" where "K_TD_INDEX kc = ucast (drop_bit 8 kc AND 0x0F)"
definition K_IS_LM :: "u16 \<Rightarrow> bool" where "K_IS_LM kc \<longleftrightarrow> kc AND 0xF000 = 0x7000"
definition K_LM_LAYER :: "u16 \<Rightarrow> u8" where "K_LM_LAYER kc = ucast (kc AND 0x0F)"
definition K_LM_MODS :: "u16 \<Rightarrow> u8" where "K_LM_MODS kc = ucast (drop_bit 4 kc AND 0xFF)"

definition MOD_LSFT :: u8 where "MOD_LSFT = 0x02"
definition MOD_LGUI :: u8 where "MOD_LGUI = 0x08"
definition MOD_RSFT :: u8 where "MOD_RSFT = 0x20"
definition MOD_RGUI :: u8 where "MOD_RGUI = 0x80"

definition HID_KEY_CONTROL_LEFT :: u8 where "HID_KEY_CONTROL_LEFT = 0xE0"
definition HID_KEY_GUI_RIGHT :: u8 where "HID_KEY_GUI_RIGHT = 0xE7"

text \<open>The modifier byte bit of a HID modifier usage, none for the others.\<close>

definition is_mod_usage :: "u8 \<Rightarrow> bool" where
  "is_mod_usage k \<longleftrightarrow> HID_KEY_CONTROL_LEFT \<le> k \<and> k \<le> HID_KEY_GUI_RIGHT"

definition usage_mod_bit :: "u8 \<Rightarrow> u8" where
  "usage_mod_bit k = push_bit (unat (k - HID_KEY_CONTROL_LEFT)) 1"

text \<open>The families a keymap entry can belong to exclude each other.\<close>

lemmas family_defs = K_IS_OSM_def K_IS_OSL_def K_IS_LT_def K_IS_MT_def K_IS_TD_def K_IS_LM_def

lemma mask_nest: "(a AND m) AND k = a AND (m AND k)" for a :: u16
  by (rule and.assoc)

lemma key_families_disjoint:
  "K_IS_LT kc \<Longrightarrow> \<not> K_IS_MT kc \<and> \<not> K_IS_TD kc \<and> \<not> K_IS_LM kc"
  "K_IS_MT kc \<Longrightarrow> \<not> K_IS_LT kc \<and> \<not> K_IS_TD kc \<and> \<not> K_IS_LM kc"
  by (auto simp: family_defs)

lemma osm_not_held_family:
  assumes "K_IS_OSM kc" shows "\<not> K_IS_LT kc \<and> \<not> K_IS_MT kc"
proof -
  have "kc AND 0xF000 = (kc AND 0xFF00) AND 0xF000" by (simp add: mask_nest)
  also have "\<dots> = 0x3000" using assms by (simp add: K_IS_OSM_def)
  finally show ?thesis by (simp add: K_IS_LT_def K_IS_MT_def)
qed

end
