(* ===== verification/Key_Features.thy ===== *)
theory Key_Features
  imports Keycodes Nvs
begin

unbundle bit_operations_syntax

text \<open>
  \<open>main/input/key_features.c\<close>: the small state machines of the key processor, one-shot
  modifier and layer, caps word, repeat key, layer lock, words per minute, key overrides and
  tri-layer. The layer globals of \<open>matrix_scan.c\<close> come first, since several components write
  them; every later component extends this record.
\<close>

record layers =
  current_layout :: u8
  last_layer :: u8
  is_layer_changed :: bool

definition layer_changed :: "'a layers_scheme \<Rightarrow> 'a layers_scheme" where
  "layer_changed s = s \<lparr>is_layer_changed := True\<rparr>"

record key_override =
  trigger_key :: u8
  trigger_mod :: u8
  result_key :: u8
  result_mod :: u8

record key_features = layers +
  osm_pending_mods :: u8
  osl_pending_layer :: int
  caps_word_active :: bool
  last_keycode :: u8
  locked_layer :: int
  wpm_counts :: "u16 list"
  wpm_index :: u8
  wpm_current_count :: u16
  overrides :: "key_override list"
  tri_l1 :: u8
  tri_l2 :: u8
  tri_result :: u8

section \<open>One-shot modifier and one-shot layer\<close>

definition osm_arm :: "u8 \<Rightarrow> 'a key_features_scheme \<Rightarrow> 'a key_features_scheme" where
  "osm_arm mod_mask s = s \<lparr>osm_pending_mods := osm_pending_mods s OR mod_mask\<rparr>"

definition osm_is_active :: "'a key_features_scheme \<Rightarrow> bool" where
  "osm_is_active s \<longleftrightarrow> osm_pending_mods s \<noteq> 0"

definition osm_consume :: "'a key_features_scheme \<Rightarrow> 'a key_features_scheme \<times> u8" where
  "osm_consume s = (s \<lparr>osm_pending_mods := 0\<rparr>, osm_pending_mods s)"

definition osl_arm :: "u8 \<Rightarrow> 'a key_features_scheme \<Rightarrow> 'a key_features_scheme" where
  "osl_arm layer s = (if unat layer < LAYERS then s \<lparr>osl_pending_layer := sint layer\<rparr> else s)"

definition osl_get_layer :: "'a key_features_scheme \<Rightarrow> int" where
  "osl_get_layer s = osl_pending_layer s"

definition osl_consume :: "'a key_features_scheme \<Rightarrow> 'a key_features_scheme" where
  "osl_consume s = s \<lparr>osl_pending_layer := -1\<rparr>"

section \<open>Caps word\<close>

definition caps_word_toggle :: "'a key_features_scheme \<Rightarrow> 'a key_features_scheme" where
  "caps_word_toggle s = s \<lparr>caps_word_active := \<not> caps_word_active s\<rparr>"

definition caps_word_is_active :: "'a key_features_scheme \<Rightarrow> bool" where
  "caps_word_is_active s = caps_word_active s"

text \<open>The key itself is never changed; the result is the state and the modifier byte.\<close>

definition caps_word_process ::
  "u8 \<Rightarrow> u8 \<Rightarrow> 'a key_features_scheme \<Rightarrow> 'a key_features_scheme \<times> u8" where
  "caps_word_process keycode modifier s =
     (if \<not> caps_word_active s \<or> keycode = 0 then (s, modifier)
      else if keycode \<ge> 0x04 \<and> keycode \<le> 0x1D then (s, modifier OR MOD_LSFT)
      else if (keycode \<ge> 0x1E \<and> keycode \<le> 0x27) \<or> keycode = 0x2D \<or> keycode = 0x2E
      then (s, modifier)
      else if keycode = 0x2A then (s, modifier)
      else (s \<lparr>caps_word_active := False\<rparr>, modifier))"

section \<open>Repeat key, grave escape\<close>

definition repeat_key_record :: "u8 \<Rightarrow> 'a key_features_scheme \<Rightarrow> 'a key_features_scheme" where
  "repeat_key_record keycode s =
     (if keycode \<noteq> 0 \<and> keycode < HID_KEY_CONTROL_LEFT then s \<lparr>last_keycode := keycode\<rparr> else s)"

definition repeat_key_get :: "'a key_features_scheme \<Rightarrow> u8" where
  "repeat_key_get s = last_keycode s"

definition grave_esc_resolve :: "u8 \<Rightarrow> u8" where
  "grave_esc_resolve active_mods =
     (if active_mods AND (MOD_LSFT OR MOD_RSFT OR MOD_LGUI OR MOD_RGUI) \<noteq> 0 then 0x35 else 0x29)"

section \<open>Layer lock\<close>

definition layer_lock_toggle :: "'a key_features_scheme \<Rightarrow> 'a key_features_scheme" where
  "layer_lock_toggle s =
     (if locked_layer s \<ge> 0
      then layer_changed (s \<lparr>locked_layer := -1, current_layout := 0, last_layer := 0\<rparr>)
      else if current_layout s \<noteq> 0
      then layer_changed (s \<lparr>locked_layer := sint (current_layout s),
             last_layer := current_layout s\<rparr>)
      else s)"

definition layer_lock_is_locked :: "'a key_features_scheme \<Rightarrow> bool" where
  "layer_lock_is_locked s \<longleftrightarrow> locked_layer s \<ge> 0"

definition layer_lock_get :: "'a key_features_scheme \<Rightarrow> int" where
  "layer_lock_get s = locked_layer s"

section \<open>Words per minute\<close>

definition WPM_WINDOW_SIZE :: nat where "WPM_WINDOW_SIZE = 10"
definition WPM_CHARS_PER_WORD :: nat where "WPM_CHARS_PER_WORD = 5"

definition wpm_record_keypress :: "'a key_features_scheme \<Rightarrow> 'a key_features_scheme" where
  "wpm_record_keypress s = s \<lparr>wpm_current_count := wpm_current_count s + 1\<rparr>"

definition wpm_tick :: "'a key_features_scheme \<Rightarrow> 'a key_features_scheme" where
  "wpm_tick s = s \<lparr>wpm_counts := (wpm_counts s)[unat (wpm_index s) := wpm_current_count s],
     wpm_index := word_of_nat ((unat (wpm_index s) + 1) mod WPM_WINDOW_SIZE),
     wpm_current_count := 0\<rparr>"

definition wpm_get :: "'a key_features_scheme \<Rightarrow> u16" where
  "wpm_get s = (let total = foldl (\<lambda>t c. t + ucast c) (0 :: u32) (wpm_counts s)
     in ucast (total * 60 div word_of_nat (WPM_WINDOW_SIZE * WPM_CHARS_PER_WORD)))"

section \<open>Key overrides\<close>

definition KEY_OVERRIDE_MAX_SLOTS :: nat where "KEY_OVERRIDE_MAX_SLOTS = 16"

definition key_override_zero :: key_override where
  "key_override_zero = \<lparr>trigger_key = 0, trigger_mod = 0, result_key = 0, result_mod = 0\<rparr>"

definition key_override_init :: "'a key_features_scheme \<Rightarrow> 'a key_features_scheme" where
  "key_override_init s = s \<lparr>overrides := replicate KEY_OVERRIDE_MAX_SLOTS key_override_zero\<rparr>"

definition key_override_set ::
  "u8 \<Rightarrow> key_override \<Rightarrow> 'a key_features_scheme \<Rightarrow> 'a key_features_scheme" where
  "key_override_set index cfg s =
     (if unat index < KEY_OVERRIDE_MAX_SLOTS
      then s \<lparr>overrides := (overrides s)[unat index := cfg]\<rparr> else s)"

definition key_override_get :: "u8 \<Rightarrow> 'a key_features_scheme \<Rightarrow> key_override option" where
  "key_override_get index s =
     (if unat index \<ge> KEY_OVERRIDE_MAX_SLOTS then None else Some (overrides s ! unat index))"

text \<open>The first slot whose key matches and whose modifiers are all held; a result of zero reads
  as no override to the caller.\<close>

fun override_scan :: "key_override list \<Rightarrow> u8 \<Rightarrow> u8 \<Rightarrow> key_override option" where
  "override_scan [] keycode active_mods = None"
| "override_scan (ov # ovs) keycode active_mods =
     (if trigger_key ov = 0 then override_scan ovs keycode active_mods
      else if trigger_key ov = keycode \<and> active_mods AND trigger_mod ov = trigger_mod ov
      then Some ov else override_scan ovs keycode active_mods)"

definition key_override_check ::
  "u8 \<Rightarrow> u8 \<Rightarrow> 'a key_features_scheme \<Rightarrow> (u8 \<times> u8 \<times> u8) option" where
  "key_override_check keycode active_mods s =
     map_option (\<lambda>ov. (result_key ov, result_mod ov, trigger_mod ov))
       (override_scan (overrides s) keycode active_mods)"

section \<open>Tri-layer\<close>

definition tri_layer_set ::
  "u8 \<Rightarrow> u8 \<Rightarrow> u8 \<Rightarrow> 'a key_features_scheme \<Rightarrow> 'a key_features_scheme" where
  "tri_layer_set layer1 layer2 result_layer s =
     s \<lparr>tri_l1 := layer1, tri_l2 := layer2, tri_result := result_layer\<rparr>"

definition tri_layer_check :: "u8 \<Rightarrow> u8 \<Rightarrow> 'a key_features_scheme \<Rightarrow> int" where
  "tri_layer_check active_layer last_l s =
     (if tri_result s = 0 then -1
      else if (active_layer = tri_l1 s \<and> last_l = tri_l2 s) \<or>
              (active_layer = tri_l2 s \<and> last_l = tri_l1 s) then sint (tri_result s)
      else -1)"

end
