(* ===== verification/Tap_Hold.thy ===== *)
theory Tap_Hold
  imports Key_Features
begin

unbundle bit_operations_syntax

text \<open>
  \<open>main/input/tap_hold.c\<close>: layer-tap, mod-tap and one-shot-modifier keys, told apart as tap or
  hold by time, release or interruption. Four keys are followed at a time. The clock is the
  argument \<open>t\<close>, in milliseconds, of the operations that read it.
\<close>

definition TAP_HOLD_MAX_PENDING :: nat where "TAP_HOLD_MAX_PENDING = 4"
definition TAP_HOLD_TIMEOUT_MS :: u32 where "TAP_HOLD_TIMEOUT_MS = 200"

datatype tap_hold_state = TH_IDLE | TH_PENDING | TH_HOLD | TH_TAP

record tap_hold_entry =
  th_state :: tap_hold_state
  th_keycode :: u16
  th_row :: u8
  th_col :: u8
  th_press_time_ms :: u32
  th_activate_seq :: u32

record tap_hold = key_features +
  th_pending :: "tap_hold_entry list"
  active_hold_mods :: u8
  active_hold_layer :: int
  hold_activated_flag :: bool
  th_seq :: u32
  th_layer_base :: int

definition th_zero :: tap_hold_entry where
  "th_zero = \<lparr>th_state = TH_IDLE, th_keycode = 0, th_row = 0, th_col = 0,
     th_press_time_ms = 0, th_activate_seq = 0\<rparr>"

definition th_find_by_pos :: "u8 \<Rightarrow> u8 \<Rightarrow> 'a tap_hold_scheme \<Rightarrow> nat option" where
  "th_find_by_pos row col s =
     find_index (\<lambda>e. th_state e \<noteq> TH_IDLE \<and> th_row e = row \<and> th_col e = col) (th_pending s)"

definition th_find_free :: "'a tap_hold_scheme \<Rightarrow> nat option" where
  "th_find_free s = find_index (\<lambda>e. th_state e = TH_IDLE) (th_pending s)"

definition th_upd ::
  "nat \<Rightarrow> (tap_hold_entry \<Rightarrow> tap_hold_entry) \<Rightarrow> 'a tap_hold_scheme \<Rightarrow> 'a tap_hold_scheme" where
  "th_upd i f s = s \<lparr>th_pending := (th_pending s)[i := f (th_pending s ! i)]\<rparr>"

section \<open>The layer of the held layer-tap keys\<close>

definition is_held_lt :: "tap_hold_entry \<Rightarrow> bool" where
  "is_held_lt e \<longleftrightarrow> th_state e = TH_HOLD \<and> K_IS_LT (th_keycode e) \<and>
     unat (K_LT_LAYER (th_keycode e)) < LAYERS"

text \<open>The loop keeps the first of the entries with the largest activation number.\<close>

fun lt_top :: "tap_hold_entry option \<Rightarrow> tap_hold_entry list \<Rightarrow> tap_hold_entry option" where
  "lt_top best [] = best"
| "lt_top best (e # es) =
     lt_top (if is_held_lt e \<and>
                (case best of None \<Rightarrow> True | Some m \<Rightarrow> th_activate_seq e > th_activate_seq m)
             then Some e else best) es"

definition recompute_lt_layer :: "'a tap_hold_scheme \<Rightarrow> 'a tap_hold_scheme" where
  "recompute_lt_layer s = layer_changed
     (case lt_top None (th_pending s) of
        Some e \<Rightarrow> s \<lparr>active_hold_layer := sint (K_LT_LAYER (th_keycode e)),
          current_layout := K_LT_LAYER (th_keycode e)\<rparr>
      | None \<Rightarrow>
          let s1 = s \<lparr>active_hold_layer := -1\<rparr> in
          if th_layer_base s1 \<ge> 0
          then s1 \<lparr>current_layout := word_of_int (th_layer_base s1), th_layer_base := -1\<rparr>
          else s1)"

definition activate_hold :: "nat \<Rightarrow> 'a tap_hold_scheme \<Rightarrow> 'a tap_hold_scheme" where
  "activate_hold i s =
     (let s1 = th_upd i (\<lambda>e. e \<lparr>th_state := TH_HOLD\<rparr>) s; kc = th_keycode (th_pending s ! i)
      in if K_IS_MT kc then s1 \<lparr>active_hold_mods := active_hold_mods s1 OR K_MT_MOD kc\<rparr>
         else if K_IS_LT kc
         then if unat (K_LT_LAYER kc) < LAYERS
              then let s2 = (if active_hold_layer s1 < 0
                             then s1 \<lparr>th_layer_base := sint (current_layout s1)\<rparr> else s1);
                       s3 = s2 \<lparr>th_seq := th_seq s2 + 1\<rparr>
                   in recompute_lt_layer (th_upd i (\<lambda>e. e \<lparr>th_activate_seq := th_seq s3\<rparr>) s3)
              else s1
         else if K_IS_OSM kc then s1 \<lparr>active_hold_mods := active_hold_mods s1 OR K_OSM_MOD kc\<rparr>
         else s1)"

definition deactivate_hold :: "nat \<Rightarrow> 'a tap_hold_scheme \<Rightarrow> 'a tap_hold_scheme" where
  "deactivate_hold i s =
     (let kc = th_keycode (th_pending s ! i);
          s1 = (if K_IS_MT kc
                then s \<lparr>active_hold_mods := active_hold_mods s AND NOT (K_MT_MOD kc)\<rparr>
                else if K_IS_LT kc
                then if unat (K_LT_LAYER kc) < LAYERS
                     then recompute_lt_layer (th_upd i (\<lambda>e. e \<lparr>th_state := TH_IDLE\<rparr>) s)
                     else s
                else if K_IS_OSM kc
                then s \<lparr>active_hold_mods := active_hold_mods s AND NOT (K_OSM_MOD kc)\<rparr>
                else s)
      in th_upd i (\<lambda>e. e \<lparr>th_state := TH_IDLE\<rparr>) s1)"

section \<open>The interface\<close>

text \<open>The initialisation leaves the flag of the last tick alone.\<close>

definition tap_hold_init :: "'a tap_hold_scheme \<Rightarrow> 'a tap_hold_scheme" where
  "tap_hold_init s = s \<lparr>th_pending := replicate TAP_HOLD_MAX_PENDING th_zero,
     active_hold_mods := 0, active_hold_layer := -1, th_seq := 0, th_layer_base := -1\<rparr>"

definition tap_hold_on_press ::
  "u32 \<Rightarrow> u16 \<Rightarrow> u8 \<Rightarrow> u8 \<Rightarrow> 'a tap_hold_scheme \<Rightarrow> 'a tap_hold_scheme \<times> bool" where
  "tap_hold_on_press t keycode row col s =
     (if \<not> K_IS_LT keycode \<and> \<not> K_IS_MT keycode \<and> \<not> K_IS_OSM keycode then (s, False)
      else if th_find_by_pos row col s \<noteq> None then (s, True)
      else case th_find_free s of
        None \<Rightarrow> (s, False)
      | Some i \<Rightarrow> (th_upd i (\<lambda>e. e \<lparr>th_state := TH_PENDING, th_keycode := keycode, th_row := row,
          th_col := col, th_press_time_ms := t\<rparr>) s, True))"

definition tap_hold_on_release ::
  "u8 \<Rightarrow> u8 \<Rightarrow> 'a tap_hold_scheme \<Rightarrow> 'a tap_hold_scheme \<times> bool" where
  "tap_hold_on_release row col s =
     (case th_find_by_pos row col s of
        None \<Rightarrow> (s, False)
      | Some i \<Rightarrow>
          (if th_state (th_pending s ! i) = TH_PENDING
           then th_upd i (\<lambda>e. e \<lparr>th_state := TH_TAP\<rparr>) s
           else if th_state (th_pending s ! i) = TH_HOLD then deactivate_hold i s
           else th_upd i (\<lambda>e. e \<lparr>th_state := TH_IDLE\<rparr>) s, True))"

definition tick_slot :: "u32 \<Rightarrow> nat \<Rightarrow> 'a tap_hold_scheme \<Rightarrow> 'a tap_hold_scheme" where
  "tick_slot t i s =
     (let e = th_pending s ! i
      in if th_state e = TH_PENDING \<and> t - th_press_time_ms e \<ge> TAP_HOLD_TIMEOUT_MS
         then (activate_hold i s) \<lparr>hold_activated_flag := True\<rparr> else s)"

definition tap_hold_tick :: "u32 \<Rightarrow> 'a tap_hold_scheme \<Rightarrow> 'a tap_hold_scheme" where
  "tap_hold_tick t s =
     fold (tick_slot t) [0..<TAP_HOLD_MAX_PENDING] (s \<lparr>hold_activated_flag := False\<rparr>)"

definition tap_hold_hold_just_activated :: "'a tap_hold_scheme \<Rightarrow> bool" where
  "tap_hold_hold_just_activated s = hold_activated_flag s"

definition interrupt_slot :: "nat \<Rightarrow> 'a tap_hold_scheme \<Rightarrow> 'a tap_hold_scheme" where
  "interrupt_slot i s = (if th_state (th_pending s ! i) = TH_PENDING then activate_hold i s else s)"

definition tap_hold_interrupt :: "'a tap_hold_scheme \<Rightarrow> 'a tap_hold_scheme" where
  "tap_hold_interrupt s = fold interrupt_slot [0..<TAP_HOLD_MAX_PENDING] s"

text \<open>The result is the keycode and whether the key is resolved as held.\<close>

definition tap_hold_get_resolved :: "u8 \<Rightarrow> u8 \<Rightarrow> 'a tap_hold_scheme \<Rightarrow> u16 \<times> bool" where
  "tap_hold_get_resolved row col s =
     (case th_find_by_pos row col s of
        None \<Rightarrow> (0, False)
      | Some i \<Rightarrow> if th_state (th_pending s ! i) = TH_HOLD
          then (th_keycode (th_pending s ! i), True) else (0, False))"

text \<open>Scan from slot \<open>i\<close>: a tap of a layer-tap or mod-tap key is returned, one of a one-shot
  modifier arms it and the scan goes on.\<close>

fun consume_tap_from :: "nat list \<Rightarrow> 'a tap_hold_scheme \<Rightarrow> 'a tap_hold_scheme \<times> u8" where
  "consume_tap_from [] s = (s, 0)"
| "consume_tap_from (i # is) s =
     (if th_state (th_pending s ! i) \<noteq> TH_TAP then consume_tap_from is s
      else let kc = th_keycode (th_pending s ! i);
               s1 = th_upd i (\<lambda>e. e \<lparr>th_state := TH_IDLE\<rparr>) s
           in if K_IS_LT kc then (s1, K_LT_KEY kc)
              else if K_IS_MT kc then (s1, K_MT_KEY kc)
              else consume_tap_from is (if K_IS_OSM kc then osm_arm (K_OSM_MOD kc) s1 else s1))"

definition tap_hold_consume_tap :: "'a tap_hold_scheme \<Rightarrow> 'a tap_hold_scheme \<times> u8" where
  "tap_hold_consume_tap s = consume_tap_from [0..<TAP_HOLD_MAX_PENDING] s"

definition tap_hold_get_active_mods :: "'a tap_hold_scheme \<Rightarrow> u8" where
  "tap_hold_get_active_mods s = active_hold_mods s"

definition tap_hold_get_active_layer :: "'a tap_hold_scheme \<Rightarrow> int" where
  "tap_hold_get_active_layer s = active_hold_layer s"

section \<open>The held layer-tap keys as a stack\<close>

text \<open>
  What a user expects of layer-tap keys: the one held last rules, letting go of any of them
  gives the layer to the last one still held, and the layer of before comes back with the last.
  The specification keeps the held keys, last one first, the layer to come back to and the
  current layer.
\<close>

type_synonym lt_spec = "(nat \<times> u8) list \<times> u8 \<times> u8"

fun spec_hold :: "nat \<Rightarrow> u8 \<Rightarrow> lt_spec \<Rightarrow> lt_spec" where
  "spec_hold i l (st, b, c) = ((i, l) # st, (if st = [] then c else b), l)"

fun spec_release :: "nat \<Rightarrow> lt_spec \<Rightarrow> lt_spec" where
  "spec_release i (st, b, c) =
     (if i \<in> fst ` set st
      then let st' = filter (\<lambda>p. fst p \<noteq> i) st
           in (st', b, (case st' of [] \<Rightarrow> b | p # _ \<Rightarrow> snd p))
      else (st, b, c))"

definition lt_entry :: "'a tap_hold_scheme \<Rightarrow> nat \<Rightarrow> u8" where
  "lt_entry s i = K_LT_LAYER (th_keycode (th_pending s ! i))"

definition seq_at :: "'a tap_hold_scheme \<Rightarrow> nat \<Rightarrow> u32" where
  "seq_at s i = th_activate_seq (th_pending s ! i)"

fun lt_sim :: "'a tap_hold_scheme \<Rightarrow> lt_spec \<Rightarrow> bool" where
  "lt_sim s (st, b, c) \<longleftrightarrow>
     length (th_pending s) = TAP_HOLD_MAX_PENDING \<and>
     fst ` set st = {i. i < TAP_HOLD_MAX_PENDING \<and> is_held_lt (th_pending s ! i)} \<and>
     (\<forall>p\<in>set st. snd p = lt_entry s (fst p)) \<and>
     sorted_wrt (\<lambda>p q. seq_at s (fst p) > seq_at s (fst q)) st \<and>
     (\<forall>p\<in>set st. seq_at s (fst p) \<le> th_seq s) \<and>
     current_layout s = c \<and> unat c < LAYERS \<and>
     (case st of
        [] \<Rightarrow> active_hold_layer s = -1 \<and> th_layer_base s = -1
      | p # _ \<Rightarrow> active_hold_layer s = sint (snd p) \<and> c = snd p \<and>
          th_layer_base s = sint b \<and> unat b < LAYERS)"

lemma lt_top_none: "\<forall>x\<in>set es. \<not> is_held_lt x \<Longrightarrow> lt_top b es = b"
  by (induction es arbitrary: b) auto

lemma lt_top_max:
  "(\<forall>x\<in>set es. is_held_lt x \<longrightarrow> x = e \<or> th_activate_seq x < th_activate_seq e) \<Longrightarrow>
     is_held_lt e \<Longrightarrow>
     b = Some e \<or> e \<in> set es \<and>
       (case b of None \<Rightarrow> True | Some m \<Rightarrow> th_activate_seq m < th_activate_seq e) \<Longrightarrow>
     lt_top b es = Some e"
proof (induction es arbitrary: b)
  case (Cons x es)
  show ?case
  proof (cases "x = e")
    case True
    then show ?thesis using Cons.prems by (auto intro!: Cons.IH split: option.splits)
  next
    case False
    then show ?thesis using Cons.prems by (auto intro!: Cons.IH split: option.splits)
  qed
qed auto

lemma layer_small:
  assumes "unat (l :: u8) < LAYERS"
  shows "sint l = int (unat l)" "0 \<le> sint l" "word_of_int (sint l) = l"
proof -
  have u: "uint l = int (unat l)" by simp
  have "int (unat l) < int 10" using assms unfolding LAYERS_def by (simp only: of_nat_less_iff)
  then have "uint l < 128" unfolding u [symmetric] by linarith
  moreover have "- 128 \<le> uint l" by (rule order.trans [OF _ uint_ge_0]) simp
  ultimately have "signed_take_bit 7 (uint l) = uint l"
    by (intro signed_take_bit_int_eq_self) simp_all
  then show e: "sint l = int (unat l)" by (simp add: sint_uint)
  show "0 \<le> sint l" "word_of_int (sint l) = l" unfolding e by simp_all
qed

lemma recompute_held:
  assumes "length (th_pending s) = TAP_HOLD_MAX_PENDING" "i < TAP_HOLD_MAX_PENDING"
    and h: "is_held_lt (th_pending s ! i)"
    and m: "\<forall>j < TAP_HOLD_MAX_PENDING. is_held_lt (th_pending s ! j) \<longrightarrow> j = i \<or> seq_at s j < seq_at s i"
  shows "recompute_lt_layer s =
    s \<lparr>is_layer_changed := True, active_hold_layer := sint (lt_entry s i),
       current_layout := lt_entry s i\<rparr>"
proof -
  have "lt_top None (th_pending s) = Some (th_pending s ! i)"
    using assms by (intro lt_top_max) (auto simp: in_set_conv_nth seq_at_def)
  then show ?thesis by (simp add: recompute_lt_layer_def layer_changed_def lt_entry_def)
qed

lemma recompute_none:
  assumes "\<forall>x\<in>set (th_pending s). \<not> is_held_lt x"
  shows "recompute_lt_layer s =
    (if th_layer_base s \<ge> 0
     then s \<lparr>is_layer_changed := True, active_hold_layer := -1,
       current_layout := word_of_int (th_layer_base s), th_layer_base := -1\<rparr>
     else s \<lparr>is_layer_changed := True, active_hold_layer := -1\<rparr>)"
  using lt_top_none [OF assms] by (simp add: recompute_lt_layer_def layer_changed_def Let_def)

lemma th_upd_sel [simp]:
  "th_pending (th_upd i f s) = (th_pending s)[i := f (th_pending s ! i)]"
  "active_hold_mods (th_upd i f s) = active_hold_mods s"
  "active_hold_layer (th_upd i f s) = active_hold_layer s"
  "hold_activated_flag (th_upd i f s) = hold_activated_flag s"
  "th_seq (th_upd i f s) = th_seq s"
  "th_layer_base (th_upd i f s) = th_layer_base s"
  "current_layout (th_upd i f s) = current_layout s"
  by (simp_all add: th_upd_def)

text \<open>Nothing the specification sees has changed.\<close>

definition lt_same :: "'a tap_hold_scheme \<Rightarrow> 'a tap_hold_scheme \<Rightarrow> bool" where
  "lt_same s s' \<longleftrightarrow> length (th_pending s') = length (th_pending s) \<and>
     (\<forall>j < length (th_pending s). is_held_lt (th_pending s' ! j) = is_held_lt (th_pending s ! j) \<and>
        (is_held_lt (th_pending s ! j) \<longrightarrow> th_pending s' ! j = th_pending s ! j)) \<and>
     th_seq s' = th_seq s \<and> current_layout s' = current_layout s \<and>
     active_hold_layer s' = active_hold_layer s \<and> th_layer_base s' = th_layer_base s"

lemma lt_same_refl [simp]: "lt_same s s" by (simp add: lt_same_def)

lemma lt_sim_same:
  assumes "lt_sim s \<sigma>" "lt_same s s'"
  shows "lt_sim s' \<sigma>"
proof -
  obtain st b c where \<sigma>: "\<sigma> = (st, b, c)" by (cases \<sigma>)
  have held: "\<And>j. j < TAP_HOLD_MAX_PENDING \<Longrightarrow> is_held_lt (th_pending s' ! j) = is_held_lt (th_pending s ! j)"
    and len: "length (th_pending s) = TAP_HOLD_MAX_PENDING"
    using assms by (auto simp: \<sigma> lt_same_def)
  have eq: "\<And>p. p \<in> set st \<Longrightarrow> th_pending s' ! fst p = th_pending s ! fst p"
    using assms by (auto simp: \<sigma> lt_same_def)
  have "sorted_wrt (\<lambda>p q. seq_at s (fst p) > seq_at s (fst q)) st" using assms(1) by (simp add: \<sigma>)
  then have srt: "sorted_wrt (\<lambda>p q. seq_at s' (fst p) > seq_at s' (fst q)) st"
    by (rule sorted_wrt_mono_rel [rotated]) (simp add: seq_at_def eq)
  show ?thesis using assms held len eq srt
    by (auto simp: \<sigma> lt_same_def lt_entry_def seq_at_def split: list.splits)
qed

lemma lt_same_upd:
  "i < length (th_pending s) \<Longrightarrow> \<not> is_held_lt (th_pending s ! i) \<Longrightarrow>
     \<not> is_held_lt (f (th_pending s ! i)) \<Longrightarrow> lt_same s (th_upd i f s)"
  by (auto simp: lt_same_def nth_list_update)

lemma lt_same_mods [simp]: "lt_same s (s' \<lparr>active_hold_mods := m\<rparr>) = lt_same s s'"
  "lt_same s (s' \<lparr>osm_pending_mods := m\<rparr>) = lt_same s s'"
  "lt_same s (s' \<lparr>hold_activated_flag := f\<rparr>) = lt_same s s'"
  by (simp_all add: lt_same_def)

lemma u32_inc:
  assumes "Suc (unat (a :: u32)) < 2 ^ 32"
  shows "unat (a + 1) = Suc (unat a)" "x \<le> a \<Longrightarrow> x < a + 1"
proof -
  show u: "unat (a + 1) = Suc (unat a)" using assms by (simp add: unat_word_ariths)
  show "x \<le> a \<Longrightarrow> x < a + 1" unfolding word_less_nat_alt u by (simp add: word_le_nat_alt)
qed

definition valid_lt :: "u16 \<Rightarrow> bool" where
  "valid_lt kc \<longleftrightarrow> K_IS_LT kc \<and> unat (K_LT_LAYER kc) < LAYERS"

lemma is_held_lt_alt: "is_held_lt e \<longleftrightarrow> th_state e = TH_HOLD \<and> valid_lt (th_keycode e)"
  by (simp add: is_held_lt_def valid_lt_def)

text \<open>A hold that is not a layer-tap key leaves the layers alone.\<close>

lemma activate_other:
  assumes "i < length (th_pending s)" "\<not> valid_lt (th_keycode (th_pending s ! i))"
    "th_state (th_pending s ! i) \<noteq> TH_HOLD"
  shows "lt_same s (activate_hold i s)"
proof -
  have "lt_same s (th_upd i (\<lambda>e. e \<lparr>th_state := TH_HOLD\<rparr>) s)"
    using assms by (intro lt_same_upd) (auto simp: is_held_lt_alt)
  then show ?thesis using assms(2) by (auto simp: activate_hold_def valid_lt_def Let_def)
qed

lemma activate_lt_eq:
  assumes sim: "lt_sim s (st, b, c)" and i: "i < TAP_HOLD_MAX_PENDING"
    and kc: "valid_lt (th_keycode (th_pending s ! i))" and nh: "th_state (th_pending s ! i) \<noteq> TH_HOLD"
    and seq: "Suc (unat (th_seq s)) < 2 ^ 32"
  shows "activate_hold i s = s \<lparr>
     th_layer_base := (if st = [] then sint c else th_layer_base s), th_seq := th_seq s + 1,
     th_pending := (th_pending s)[i := (th_pending s ! i) \<lparr>th_state := TH_HOLD, th_activate_seq := th_seq s + 1\<rparr>],
     is_layer_changed := True, active_hold_layer := sint (lt_entry s i),
     current_layout := lt_entry s i\<rparr>"
proof -
  let ?e = "th_pending s ! i"
  let ?s = "s \<lparr>th_layer_base := (if st = [] then sint c else th_layer_base s), th_seq := th_seq s + 1,
     th_pending := (th_pending s)[i := ?e \<lparr>th_state := TH_HOLD, th_activate_seq := th_seq s + 1\<rparr>]\<rparr>"
  have fam: "\<not> K_IS_MT (th_keycode ?e)" "K_IS_LT (th_keycode ?e)" "unat (K_LT_LAYER (th_keycode ?e)) < LAYERS"
    using kc key_families_disjoint(1) by (auto simp: valid_lt_def)
  have len: "length (th_pending s) = TAP_HOLD_MAX_PENDING" using sim by simp
  have neg: "active_hold_layer s < 0 \<longleftrightarrow> st = []"
  proof (cases st)
    case Nil then show ?thesis using sim by simp
  next
    case (Cons p ps)
    then have "fst p \<in> fst ` set st" by simp
    then have "is_held_lt (th_pending s ! fst p)" using sim by simp
    moreover have "snd p = lt_entry s (fst p)" "active_hold_layer s = sint (snd p)"
      using sim Cons by auto
    ultimately have "0 \<le> active_hold_layer s"
      using layer_small(2) by (simp add: is_held_lt_def lt_entry_def)
    then show ?thesis using Cons by simp
  qed
  have old: "seq_at s j \<le> th_seq s" if "j < TAP_HOLD_MAX_PENDING" "is_held_lt (th_pending s ! j)" for j
  proof -
    have "j \<in> fst ` set st" using that sim by simp
    then obtain p where "p \<in> set st" "fst p = j" by auto
    then show ?thesis using sim by auto
  qed
  have "activate_hold i s = recompute_lt_layer ?s"
    using fam neg sim i len by (simp add: activate_hold_def th_upd_def Let_def)
  also have "\<dots> = ?s \<lparr>is_layer_changed := True, active_hold_layer := sint (lt_entry ?s i),
      current_layout := lt_entry ?s i\<rparr>"
    using i len kc old u32_inc(2) [OF seq]
    by (intro recompute_held) (auto simp: is_held_lt_alt seq_at_def nth_list_update)
  also have "lt_entry ?s i = lt_entry s i" using i len by (simp add: lt_entry_def)
  finally show ?thesis by simp
qed

lemma sim_hold:
  assumes sim: "lt_sim s (st, b, c)" and i: "i < TAP_HOLD_MAX_PENDING"
    and kc: "valid_lt (th_keycode (th_pending s ! i))" and nh: "th_state (th_pending s ! i) \<noteq> TH_HOLD"
    and seq: "Suc (unat (th_seq s)) < 2 ^ 32"
  shows "lt_sim (activate_hold i s) (spec_hold i (lt_entry s i) (st, b, c))"
proof -
  note eq = activate_lt_eq [OF assms]
  let ?s = "activate_hold i s"
  have len: "length (th_pending s) = TAP_HOLD_MAX_PENDING" using sim by simp
  have fresh: "i \<notin> fst ` set st" using sim nh by (auto simp: is_held_lt_alt)
  have at: "th_pending ?s ! j = (if j = i then (th_pending s ! i)
      \<lparr>th_state := TH_HOLD, th_activate_seq := th_seq s + 1\<rparr> else th_pending s ! j)" for j
    using i len by (simp add: eq)
  have old: "th_pending ?s ! fst p = th_pending s ! fst p" if "p \<in> set st" for p
    using that fresh by (auto simp: at)
  have set': "fst ` set ((i, lt_entry s i) # st) =
      {j. j < TAP_HOLD_MAX_PENDING \<and> is_held_lt (th_pending ?s ! j)}"
    using sim i kc by (auto simp: at is_held_lt_alt)
  have "sorted_wrt (\<lambda>p q. seq_at s (fst p) > seq_at s (fst q)) st" using sim by simp
  then have "sorted_wrt (\<lambda>p q. seq_at ?s (fst p) > seq_at ?s (fst q)) st"
    by (rule sorted_wrt_mono_rel [rotated]) (simp add: seq_at_def old)
  moreover have lt: "seq_at ?s (fst p) < th_seq s + 1" if "p \<in> set st" for p
    using sim that old u32_inc(2) [OF seq] by (simp add: seq_at_def)
  ultimately have srt: "sorted_wrt (\<lambda>p q. seq_at ?s (fst p) > seq_at ?s (fst q)) ((i, lt_entry s i) # st)"
    by (simp add: seq_at_def at)
  have lay: "\<forall>p\<in>set ((i, lt_entry s i) # st). snd p = lt_entry ?s (fst p)"
    using sim old by (auto simp: lt_entry_def at)
  have bnd: "\<forall>p\<in>set ((i, lt_entry s i) # st). seq_at ?s (fst p) \<le> th_seq ?s"
  proof -
    have "th_seq ?s = th_seq s + 1" "seq_at ?s i = th_seq s + 1"
      by (simp add: eq) (simp add: seq_at_def at)
    then show ?thesis using lt by (auto intro: less_imp_le)
  qed
  have lb: "unat (lt_entry s i) < LAYERS" using kc by (simp add: valid_lt_def lt_entry_def)
  have base: "th_layer_base ?s = sint (if st = [] then c else b) \<and> unat (if st = [] then c else b) < LAYERS"
    using sim by (auto simp: eq split: list.splits)
  have "length (th_pending ?s) = TAP_HOLD_MAX_PENDING \<and> current_layout ?s = lt_entry s i \<and>
      active_hold_layer ?s = sint (lt_entry s i)" using len by (simp add: eq)
  then show ?thesis using set' srt lay bnd lb base
    by (simp only: spec_hold.simps lt_sim.simps list.case fst_conv snd_conv simp_thms)
qed

lemma deactivate_lt_eq:
  assumes "valid_lt (th_keycode (th_pending s ! i))"
  shows "deactivate_hold i s = th_upd i (\<lambda>e. e \<lparr>th_state := TH_IDLE\<rparr>)
    (recompute_lt_layer (th_upd i (\<lambda>e. e \<lparr>th_state := TH_IDLE\<rparr>) s))"
  using assms key_families_disjoint(1) by (simp add: deactivate_hold_def valid_lt_def Let_def)

lemma deactivate_other:
  assumes "i < length (th_pending s)" "\<not> is_held_lt (th_pending s ! i)" "th_state (th_pending s ! i) = TH_HOLD"
  shows "lt_same s (deactivate_hold i s)"
proof -
  have up: "lt_same s (th_upd i (\<lambda>e. e \<lparr>th_state := TH_IDLE\<rparr>) s)"
    using assms(1,2) by (intro lt_same_upd) (auto simp: is_held_lt_alt)
  have m: "th_upd i f (s \<lparr>active_hold_mods := m\<rparr>) = (th_upd i f s) \<lparr>active_hold_mods := m\<rparr>" for f m
    by (simp add: th_upd_def)
  show ?thesis using assms(2,3) up
    by (auto simp: deactivate_hold_def is_held_lt_def Let_def m)
qed

lemma recompute_pending [simp]:
  "th_pending (recompute_lt_layer s) = th_pending s"
  "th_seq (recompute_lt_layer s) = th_seq s"
  by (auto simp: recompute_lt_layer_def layer_changed_def Let_def split: option.splits)

lemma sim_release:
  assumes sim: "lt_sim s (st, b, c)" and i: "i < TAP_HOLD_MAX_PENDING"
    and held: "is_held_lt (th_pending s ! i)"
  shows "lt_sim (deactivate_hold i s) (spec_release i (st, b, c))"
proof -
  let ?f = "\<lambda>e. e \<lparr>th_state := TH_IDLE\<rparr>" and ?st = "filter (\<lambda>p. fst p \<noteq> i) st"
  let ?s1 = "th_upd i ?f s" and ?r = "recompute_lt_layer (th_upd i ?f s)"
  let ?s = "deactivate_hold i s"
  have len: "length (th_pending s) = TAP_HOLD_MAX_PENDING" using sim by simp
  have ne: "i \<in> fst ` set st" using sim i held by simp
  have eq: "?s = th_upd i ?f ?r" using deactivate_lt_eq [of s i] held by (simp add: is_held_lt_alt)
  have at1: "th_pending ?s1 ! j = (if j = i then ?f (th_pending s ! i) else th_pending s ! j)" for j
    using i len by simp
  have at: "th_pending ?s ! j = (if j = i then ?f (th_pending s ! i) else th_pending s ! j)" for j
    using i len by (simp add: eq)
  have old: "th_pending ?s ! fst p = th_pending s ! fst p" if "p \<in> set ?st" for p
    using that by (simp add: at)
  have set': "fst ` set ?st = {j. j < TAP_HOLD_MAX_PENDING \<and> is_held_lt (th_pending ?s ! j)}"
    using sim by (auto simp: at is_held_lt_alt)
  have "sorted_wrt (\<lambda>p q. seq_at s (fst p) > seq_at s (fst q)) ?st"
    using sim by (simp add: sorted_wrt_filter)
  then have srt: "sorted_wrt (\<lambda>p q. seq_at ?s (fst p) > seq_at ?s (fst q)) ?st"
    by (rule sorted_wrt_mono_rel [rotated]) (simp add: seq_at_def old)
  have lay: "\<forall>p\<in>set ?st. snd p = lt_entry ?s (fst p)" using sim old by (auto simp: lt_entry_def)
  have bnd: "\<forall>p\<in>set ?st. seq_at ?s (fst p) \<le> th_seq ?s"
    using sim old by (auto simp: seq_at_def eq)
  have base: "th_layer_base s = sint b" "unat b < LAYERS"
    using sim ne by (auto split: list.splits)
  have fields: "current_layout ?s = current_layout ?r" "active_hold_layer ?s = active_hold_layer ?r"
    "th_layer_base ?s = th_layer_base ?r" by (simp_all add: eq)
  have ln: "length (th_pending ?s) = TAP_HOLD_MAX_PENDING" using len by (simp add: eq)
  show ?thesis
  proof (cases ?st)
    case Nil
    then have none: "\<forall>x\<in>set (th_pending ?s1). \<not> is_held_lt x"
      using set' len at at1 by (auto simp: in_set_conv_nth)
    have "?r = ?s1 \<lparr>is_layer_changed := True, active_hold_layer := -1,
        current_layout := word_of_int (th_layer_base ?s1), th_layer_base := -1\<rparr>"
      using recompute_none [OF none] base layer_small(2) [OF base(2)] by simp
    then show ?thesis using ne Nil set' ln fields base layer_small(3) [OF base(2)]
      by (simp del: th_upd_sel(1))
  next
    case (Cons p ps)
    have pin: "p \<in> set ?st" unfolding Cons by simp
    then have ni: "fst p \<noteq> i" by simp
    have "fst p \<in> {j. j < TAP_HOLD_MAX_PENDING \<and> is_held_lt (th_pending ?s ! j)}"
      unfolding set' [symmetric] using pin by (rule imageI)
    then have p: "fst p < TAP_HOLD_MAX_PENDING" "is_held_lt (th_pending ?s1 ! fst p)"
      by (simp_all only: mem_Collect_eq at at1)
    have top: "j = fst p \<or> seq_at ?s1 j < seq_at ?s1 (fst p)"
      if "j < TAP_HOLD_MAX_PENDING" "is_held_lt (th_pending ?s1 ! j)" for j
    proof -
      have "j \<in> fst ` set ?st" unfolding set' using that by (simp only: at at1 mem_Collect_eq simp_thms)
      then show ?thesis using srt unfolding Cons seq_at_def at at1 by auto
    qed
    have r: "?r = ?s1 \<lparr>is_layer_changed := True, active_hold_layer := sint (lt_entry ?s1 (fst p)),
        current_layout := lt_entry ?s1 (fst p)\<rparr>"
      using p top len by (intro recompute_held) auto
    have l: "lt_entry ?s1 (fst p) = snd p" using lay Cons by (simp add: lt_entry_def at at1 del: th_upd_sel(1))
    have "unat (snd p) < LAYERS" using p(2) l by (simp add: is_held_lt_def lt_entry_def)
    then show ?thesis using ne Cons set' srt lay bnd ln fields base r l
      by (simp del: th_upd_sel(1))
  qed
qed

section \<open>Runs of the engine\<close>

declare lt_sim.simps [simp del] spec_hold.simps [simp del] spec_release.simps [simp del]

datatype th_event = ThPress u32 u16 u8 u8 | ThRelease u8 u8 | ThTick u32 | ThInterrupt | ThConsume

fun th_step :: "th_event \<Rightarrow> 'a tap_hold_scheme \<Rightarrow> 'a tap_hold_scheme" where
  "th_step (ThPress t kc row col) s = fst (tap_hold_on_press t kc row col s)"
| "th_step (ThRelease row col) s = fst (tap_hold_on_release row col s)"
| "th_step (ThTick t) s = tap_hold_tick t s"
| "th_step ThInterrupt s = tap_hold_interrupt s"
| "th_step ThConsume s = fst (tap_hold_consume_tap s)"

text \<open>The layer-tap keys that an event turns into holds, in slot order, and the one it lets go.\<close>

definition becomes_hold :: "th_event \<Rightarrow> 'a tap_hold_scheme \<Rightarrow> nat \<Rightarrow> bool" where
  "becomes_hold ev s i \<longleftrightarrow> th_state (th_pending s ! i) = TH_PENDING \<and>
     valid_lt (th_keycode (th_pending s ! i)) \<and>
     (case ev of ThTick t \<Rightarrow> t - th_press_time_ms (th_pending s ! i) \<ge> TAP_HOLD_TIMEOUT_MS
      | ThInterrupt \<Rightarrow> True | _ \<Rightarrow> False)"

definition spec_step :: "th_event \<Rightarrow> 'a tap_hold_scheme \<Rightarrow> lt_spec \<Rightarrow> lt_spec" where
  "spec_step ev s \<sigma> =
     (case ev of
        ThRelease row col \<Rightarrow>
          (case th_find_by_pos row col s of None \<Rightarrow> \<sigma> | Some i \<Rightarrow> spec_release i \<sigma>)
      | _ \<Rightarrow> fold (\<lambda>i. spec_hold i (lt_entry s i))
               (filter (becomes_hold ev s) [0..<TAP_HOLD_MAX_PENDING]) \<sigma>)"

fun spec_run :: "th_event list \<Rightarrow> 'a tap_hold_scheme \<Rightarrow> lt_spec \<Rightarrow> lt_spec" where
  "spec_run [] s \<sigma> = \<sigma>"
| "spec_run (ev # evs) s \<sigma> = spec_run evs (th_step ev s) (spec_step ev s \<sigma>)"

lemma sim_length: "lt_sim s \<sigma> \<Longrightarrow> length (th_pending s) = TAP_HOLD_MAX_PENDING"
  by (cases \<sigma>) (simp add: lt_sim.simps)

lemma spec_release_other:
  "lt_sim s \<sigma> \<Longrightarrow> \<not> is_held_lt (th_pending s ! i) \<Longrightarrow> spec_release i \<sigma> = \<sigma>"
  by (cases \<sigma>) (auto simp: lt_sim.simps spec_release.simps)

lemma activate_pending_at:
  "j \<noteq> i \<Longrightarrow> th_pending (activate_hold i s) ! j = th_pending s ! j"
  "length (th_pending (activate_hold i s)) = length (th_pending s)"
  by (auto simp: activate_hold_def Let_def)

lemma activate_seq:
  "Suc (unat (th_seq s)) < 2 ^ 32 \<Longrightarrow> unat (th_seq (activate_hold i s)) \<le> Suc (unat (th_seq s))"
  using u32_inc(1) [of "th_seq s"] by (auto simp: activate_hold_def Let_def)

lemma sim_activate:
  assumes sim: "lt_sim s \<sigma>" and i: "i < TAP_HOLD_MAX_PENDING"
    and p: "th_state (th_pending s ! i) = TH_PENDING" and seq: "Suc (unat (th_seq s)) < 2 ^ 32"
  shows "lt_sim (activate_hold i s)
    (if valid_lt (th_keycode (th_pending s ! i)) then spec_hold i (lt_entry s i) \<sigma> else \<sigma>)"
proof (cases "valid_lt (th_keycode (th_pending s ! i))")
  case True
  obtain st b c where "\<sigma> = (st, b, c)" by (cases \<sigma>)
  then show ?thesis using sim_hold [of s st b c i] sim i True p seq by simp
next
  case False
  then have "lt_same s (activate_hold i s)"
    using sim_length [OF sim] i p by (intro activate_other) auto
  then show ?thesis using lt_sim_same [OF sim] False by simp
qed

text \<open>A pass over the slots, each activated when it is pending and \<open>sel\<close> says so.\<close>

lemma sim_pass:
  assumes slot: "\<And>i s. f i s = (if th_state (th_pending s ! i) = TH_PENDING \<and> sel (th_pending s ! i)
      then upd (activate_hold i s) else s)"
    and upd: "\<And>s. lt_same s (upd s)" "\<And>s. th_pending (upd s) = th_pending s"
  shows "distinct is \<Longrightarrow> set is \<subseteq> {..<TAP_HOLD_MAX_PENDING} \<Longrightarrow> lt_sim s \<sigma> \<Longrightarrow>
     unat (th_seq s) + length is < 2 ^ 32 \<Longrightarrow>
     lt_sim (fold f is s) (fold (\<lambda>i. spec_hold i (lt_entry s i))
       (filter (\<lambda>i. th_state (th_pending s ! i) = TH_PENDING \<and> sel (th_pending s ! i) \<and>
          valid_lt (th_keycode (th_pending s ! i))) is) \<sigma>) \<and>
     unat (th_seq (fold f is s)) \<le> unat (th_seq s) + length is"
proof (induction "is" arbitrary: s \<sigma>)
  case Nil then show ?case by simp
next
  case (Cons i xs)
  have i: "i < TAP_HOLD_MAX_PENDING" "i \<notin> set xs" using Cons.prems(1,2) by auto
  let ?s = "f i s"
  have keep: "th_pending ?s ! j = th_pending s ! j" if "j \<in> set xs" for j
    using that i(2) activate_pending_at(1) [of j i s] by (auto simp: slot upd)
  have seq1: "unat (th_seq ?s) \<le> Suc (unat (th_seq s))"
    using activate_seq [of s i] Cons.prems(4) upd(1) [of "activate_hold i s"]
    by (auto simp: slot lt_same_def)
  have sim1: "lt_sim ?s (if th_state (th_pending s ! i) = TH_PENDING \<and> sel (th_pending s ! i) \<and>
      valid_lt (th_keycode (th_pending s ! i)) then spec_hold i (lt_entry s i) \<sigma> else \<sigma>)"
  proof (cases "th_state (th_pending s ! i) = TH_PENDING \<and> sel (th_pending s ! i)")
    case True
    then have "lt_sim (activate_hold i s)
        (if valid_lt (th_keycode (th_pending s ! i)) then spec_hold i (lt_entry s i) \<sigma> else \<sigma>)"
      using sim_activate [OF Cons.prems(3) i(1)] Cons.prems(4) by simp
    then show ?thesis using True lt_sim_same [OF _ upd(1)] by (simp only: slot simp_thms if_True)
  next
    case False
    then have n: "\<not> (th_state (th_pending s ! i) = TH_PENDING \<and> sel (th_pending s ! i) \<and> x)" for x
      by blast
    show ?thesis unfolding slot if_not_P [OF False] if_not_P [OF n] by (rule Cons.prems(3))
  qed
  have cong: "filter (\<lambda>j. th_state (th_pending ?s ! j) = TH_PENDING \<and> sel (th_pending ?s ! j) \<and>
        valid_lt (th_keycode (th_pending ?s ! j))) xs =
      filter (\<lambda>j. th_state (th_pending s ! j) = TH_PENDING \<and> sel (th_pending s ! j) \<and>
        valid_lt (th_keycode (th_pending s ! j))) xs"
    by (rule filter_cong) (simp_all add: keep)
  have fcong: "fold (\<lambda>j. spec_hold j (lt_entry ?s j)) ys \<tau> = fold (\<lambda>j. spec_hold j (lt_entry s j)) ys \<tau>"
    if "set ys \<subseteq> set xs" for ys \<tau>
    using that by (intro fold_cong) (auto simp: lt_entry_def keep)
  show ?case
    using Cons.IH [OF _ _ sim1] Cons.prems seq1 by (auto simp: cong fcong)
qed

lemma tick_slot_alt: "tick_slot t i s =
    (if th_state (th_pending s ! i) = TH_PENDING \<and>
        t - th_press_time_ms (th_pending s ! i) \<ge> TAP_HOLD_TIMEOUT_MS
     then (activate_hold i s) \<lparr>hold_activated_flag := True\<rparr> else s)"
  by (simp add: tick_slot_def Let_def)

lemma find_pos_lt: "length (th_pending s) = TAP_HOLD_MAX_PENDING \<Longrightarrow> th_find_by_pos r c s = Some i \<Longrightarrow>
    i < TAP_HOLD_MAX_PENDING"
  by (auto simp: th_find_by_pos_def dest: find_index_SomeD)

lemma consume_same:
  "set is \<subseteq> {..<length (th_pending s)} \<Longrightarrow> lt_same s (fst (consume_tap_from is s))"
proof (induction "is" s rule: consume_tap_from.induct)
  case (2 i xs s)
  let ?s1 = "th_upd i (\<lambda>e. e \<lparr>th_state := TH_IDLE\<rparr>) s" and ?kc = "th_keycode (th_pending s ! i)"
  have one: "lt_same s ?s1" if "th_state (th_pending s ! i) = TH_TAP"
    using that 2(3) by (intro lt_same_upd) (auto simp: is_held_lt_alt)
  have trans: "lt_same a b \<Longrightarrow> lt_same b d \<Longrightarrow> lt_same a d" for a b d :: "'a tap_hold_scheme"
    by (auto simp: lt_same_def)
  have arm: "lt_same s (if K_IS_OSM ?kc then osm_arm (K_OSM_MOD ?kc) ?s1 else ?s1)"
    if "th_state (th_pending s ! i) = TH_TAP" using one [OF that] by (simp add: osm_arm_def)
  show ?case
  proof (cases "th_state (th_pending s ! i) \<noteq> TH_TAP")
    case True then show ?thesis using 2 by simp
  next
    case False
    have "lt_same s (fst (consume_tap_from xs
        (if K_IS_OSM ?kc then osm_arm (K_OSM_MOD ?kc) ?s1 else ?s1)))"
      if "\<not> K_IS_LT ?kc" "\<not> K_IS_MT ?kc"
      using trans [OF arm 2(2) [OF False refl refl that]] False 2(3)
      by (simp add: osm_arm_def)
    then show ?thesis using False one by (simp add: Let_def)
  qed
qed simp

lemma press_same: "length (th_pending s) = TAP_HOLD_MAX_PENDING \<Longrightarrow>
    lt_same s (fst (tap_hold_on_press t kc row col s))"
  by (auto simp: tap_hold_on_press_def th_find_free_def split: option.splits
      dest!: find_index_SomeD intro!: lt_same_upd simp: is_held_lt_alt)

lemma release_sim:
  assumes sim: "lt_sim s \<sigma>"
  shows "lt_sim (fst (tap_hold_on_release row col s)) (spec_step (ThRelease row col) s \<sigma>)"
proof (cases "th_find_by_pos row col s")
  case None then show ?thesis using sim by (simp add: tap_hold_on_release_def spec_step_def)
next
  case (Some i)
  have len: "length (th_pending s) = TAP_HOLD_MAX_PENDING" by (rule sim_length [OF sim])
  have i: "i < TAP_HOLD_MAX_PENDING" by (rule find_pos_lt [OF len Some])
  note d = tap_hold_on_release_def spec_step_def
  show ?thesis
  proof (cases "is_held_lt (th_pending s ! i)")
    case True
    obtain st b c where "\<sigma> = (st, b, c)" by (cases \<sigma>)
    then show ?thesis using sim_release [of s st b c i] sim i True Some
      by (simp add: d is_held_lt_def)
  next
    case False
    have "lt_same s (fst (tap_hold_on_release row col s))"
      using False Some i len deactivate_other [of i s]
      by (auto simp: d is_held_lt_alt intro!: lt_same_upd)
    then show ?thesis using lt_sim_same [OF sim] spec_release_other [OF sim False] Some
      by (simp add: spec_step_def)
  qed
qed

lemma recompute_same_seq [simp]: "th_seq (fst (tap_hold_on_release row col s)) = th_seq s"
  by (simp add: tap_hold_on_release_def deactivate_hold_def Let_def split: option.splits)

lemma th_step_sim:
  assumes sim: "lt_sim s \<sigma>" and seq: "unat (th_seq s) + TAP_HOLD_MAX_PENDING < 2 ^ 32"
  shows "lt_sim (th_step ev s) (spec_step ev s \<sigma>) \<and>
    unat (th_seq (th_step ev s)) \<le> unat (th_seq s) + TAP_HOLD_MAX_PENDING"
proof -
  note len = sim_length [OF sim]
  have slots: "distinct [0..<TAP_HOLD_MAX_PENDING]"
    "set [0..<TAP_HOLD_MAX_PENDING] \<subseteq> {..<TAP_HOLD_MAX_PENDING}"
    "unat (th_seq s) + length [0..<TAP_HOLD_MAX_PENDING] < 2 ^ 32" using seq by auto
  show ?thesis
  proof (cases ev)
    case (ThPress t kc row col)
    have "lt_same s (th_step ev s)" using press_same [OF len] ThPress by simp
    then show ?thesis using lt_sim_same [OF sim] ThPress
      by (simp add: spec_step_def becomes_hold_def lt_same_def)
  next
    case (ThRelease row col)
    then show ?thesis using release_sim [OF sim] by simp
  next
    case (ThTick t)
    let ?s = "s \<lparr>hold_activated_flag := False\<rparr>"
    have s0: "lt_sim ?s \<sigma>" by (rule lt_sim_same [OF sim]) simp
    have e: "lt_entry ?s = lt_entry s" by (simp add: lt_entry_def fun_eq_iff)
    have b: "becomes_hold ev s = (\<lambda>i. th_state (th_pending s ! i) = TH_PENDING \<and>
        t - th_press_time_ms (th_pending s ! i) \<ge> TAP_HOLD_TIMEOUT_MS \<and>
        valid_lt (th_keycode (th_pending s ! i)))"
      by (auto simp: becomes_hold_def ThTick fun_eq_iff)
    show ?thesis
      using sim_pass [OF tick_slot_alt, OF _ _ slots(1,2) s0] slots(3)
      by (simp add: spec_step_def tap_hold_tick_def ThTick b [unfolded ThTick] e)
  next
    case ThInterrupt
    have b: "becomes_hold ev s = (\<lambda>i. th_state (th_pending s ! i) = TH_PENDING \<and> True \<and>
        valid_lt (th_keycode (th_pending s ! i)))"
      by (auto simp: becomes_hold_def ThInterrupt fun_eq_iff)
    have "interrupt_slot i s = (if th_state (th_pending s ! i) = TH_PENDING \<and> True
        then id (activate_hold i s) else s)" for i and s :: "'a tap_hold_scheme"
      by (simp add: interrupt_slot_def)
    from sim_pass [where sel = "\<lambda>_. True" and upd = id, OF this _ _ slots(1,2) sim] slots(3)
    show ?thesis by (simp add: spec_step_def tap_hold_interrupt_def ThInterrupt b [unfolded ThInterrupt])
  next
    case ThConsume
    have "lt_same s (th_step ev s)"
      using consume_same [of "[0..<TAP_HOLD_MAX_PENDING]" s] len
      by (simp add: ThConsume tap_hold_consume_tap_def lessThan_atLeast0)
    then show ?thesis using lt_sim_same [OF sim] ThConsume
      by (simp add: spec_step_def becomes_hold_def lt_same_def)
  qed
qed

lemma th_run_sim:
  "lt_sim s \<sigma> \<Longrightarrow> unat (th_seq s) + TAP_HOLD_MAX_PENDING * length evs < 2 ^ 32 \<Longrightarrow>
     lt_sim (fold th_step evs s) (spec_run evs s \<sigma>)"
proof (induction evs arbitrary: s \<sigma>)
  case (Cons ev evs)
  have n: "unat (th_seq s) + TAP_HOLD_MAX_PENDING < 2 ^ 32" using Cons.prems(2) by simp
  note st = th_step_sim [OF Cons.prems(1) n, of ev]
  show ?case using Cons.IH [OF conjunct1 [OF st]] conjunct2 [OF st] Cons.prems(2) by simp
qed simp

lemma th_init_sim:
  assumes "unat (current_layout s) < LAYERS"
  shows "lt_sim (tap_hold_init s) ([], current_layout s, current_layout s)"
  using assms by (auto simp: lt_sim.simps tap_hold_init_def th_zero_def is_held_lt_def nth_replicate)

lemma lt_sim_obs:
  "lt_sim s (st, b, c) \<Longrightarrow> current_layout s = c \<and> unat c < LAYERS \<and>
     active_hold_layer s = (case st of [] \<Rightarrow> -1 | p # _ \<Rightarrow> sint (snd p))"
  by (auto simp: lt_sim.simps split: list.splits)

text \<open>
  C10: Whatever presses, releases, ticks and interruptions the engine sees, fewer than a
  thousand million of them, the current layer is the one of the stack of held layer-tap keys:
  the layer of the key held last, then of the last one still held whatever the order of
  release, and the layer of before the first hold when none is held. It is always one of the
  keymap's layers.
\<close>

theorem tap_hold_refines_layer_stack:
  assumes "unat (current_layout s) < LAYERS" "length evs < 1000000000"
    and "spec_run evs (tap_hold_init s) ([], current_layout s, current_layout s) = (st, b, c)"
  shows "current_layout (fold th_step evs (tap_hold_init s)) = c \<and> unat c < LAYERS \<and>
    tap_hold_get_active_layer (fold th_step evs (tap_hold_init s)) =
      (case st of [] \<Rightarrow> -1 | p # _ \<Rightarrow> sint (snd p))"
proof -
  have "unat (th_seq (tap_hold_init s)) + TAP_HOLD_MAX_PENDING * length evs < 2 ^ 32"
    using assms(2) by (simp add: tap_hold_init_def TAP_HOLD_MAX_PENDING_def)
  from th_run_sim [OF th_init_sim [OF assms(1)] this] show ?thesis
    unfolding assms(3) tap_hold_get_active_layer_def by (rule lt_sim_obs)
qed

definition th_example :: "tap_hold" where
  "th_example = \<lparr>current_layout = 0, last_layer = 0, is_layer_changed = False,
     osm_pending_mods = 0, osl_pending_layer = -1, caps_word_active = False, last_keycode = 0,
     locked_layer = -1, wpm_counts = replicate 10 0, wpm_index = 0, wpm_current_count = 0,
     overrides = replicate 16 key_override_zero, tri_l1 = 0, tri_l2 = 0, tri_result = 0,
     th_pending = replicate 4 th_zero, active_hold_mods = 0, active_hold_layer = -1,
     hold_activated_flag = False, th_seq = 0, th_layer_base = -1\<rparr>"

definition two_lts :: "th_event list" where
  "two_lts = [ThPress 0 0x4104 1 1, ThPress 10 0x4205 1 2, ThTick 205, ThTick 215, ThRelease 1 1]"

lemma tap_hold_refines_layer_stack_witness:
  "current_layout (fold th_step two_lts (tap_hold_init th_example)) = 2"
proof -
  have a: "unat (current_layout th_example) < LAYERS" "length two_lts < 1000000000"
    by (simp_all add: th_example_def two_lts_def LAYERS_def)
  have b: "spec_run two_lts (tap_hold_init th_example)
      ([], current_layout th_example, current_layout th_example) = ([(1, 2)], 0, 2)"
    by code_simp
  show ?thesis using tap_hold_refines_layer_stack [OF a b] by simp
qed

section \<open>Held modifiers\<close>

text \<open>
  Letting go of a held mod-tap key takes its modifiers off even when another mod-tap key
  that is still held carries them: the mask is not recomputed from the keys that are left.
\<close>

theorem shared_modifier_lost:
  assumes "th_find_by_pos row col s = Some i" "i < length (th_pending s)"
    and "j < length (th_pending s)" "j \<noteq> i"
    and "th_state (th_pending s ! i) = TH_HOLD" "th_state (th_pending s ! j) = TH_HOLD"
    and "K_IS_MT (th_keycode (th_pending s ! i))" "K_IS_MT (th_keycode (th_pending s ! j))"
    and "K_MT_MOD (th_keycode (th_pending s ! j)) = K_MT_MOD (th_keycode (th_pending s ! i))"
  shows "let s' = fst (tap_hold_on_release row col s) in
    th_state (th_pending s' ! j) = TH_HOLD \<and>
    tap_hold_get_active_mods s' AND K_MT_MOD (th_keycode (th_pending s' ! j)) = 0"
  using assms
  by (simp add: tap_hold_on_release_def deactivate_hold_def tap_hold_get_active_mods_def Let_def
      and.assoc)

definition home_row_shifts :: "tap_hold" where
  "home_row_shifts = fold th_step [ThPress 0 0x5204 1 1, ThPress 0 0x5205 1 8, ThTick 200] th_example"

lemma shared_modifier_lost_witness:
  "tap_hold_get_active_mods home_row_shifts = MOD_LSFT \<and>
   (let s' = fst (tap_hold_on_release 1 1 home_row_shifts) in
     th_state (th_pending s' ! 1) = TH_HOLD \<and>
     tap_hold_get_active_mods s' AND K_MT_MOD (th_keycode (th_pending s' ! 1)) = 0)"
proof -
  have m: "tap_hold_get_active_mods home_row_shifts = MOD_LSFT" by code_simp
  have a: "th_find_by_pos 1 1 home_row_shifts = Some 0" by code_simp
  have b: "length (th_pending home_row_shifts) = 4" by code_simp
  have c: "th_state (th_pending home_row_shifts ! 0) = TH_HOLD"
    "th_state (th_pending home_row_shifts ! 1) = TH_HOLD"
    "K_IS_MT (th_keycode (th_pending home_row_shifts ! 0))"
    "K_IS_MT (th_keycode (th_pending home_row_shifts ! 1))"
    "K_MT_MOD (th_keycode (th_pending home_row_shifts ! 1)) =
      K_MT_MOD (th_keycode (th_pending home_row_shifts ! 0))" by code_simp+
  show ?thesis using m shared_modifier_lost [OF a, of 1] b c by simp
qed


end
