(* ===== verification/Tap_Dance.thy ===== *)
theory Tap_Dance
  imports Tap_Hold
begin

text \<open>
  \<open>main/input/tap_dance.c\<close>: a key whose action depends on how often it is tapped, or on its
  being held. One dance runs at a time. The clock is the argument \<open>t\<close>, in milliseconds.
\<close>

definition TAP_DANCE_MAX_SLOTS :: nat where "TAP_DANCE_MAX_SLOTS = 16"
definition TAP_DANCE_MAX_TAPS :: u8 where "TAP_DANCE_MAX_TAPS = 3"
definition TAP_DANCE_TIMEOUT_MS :: u32 where "TAP_DANCE_TIMEOUT_MS = 200"

datatype td_state = TD_IDLE | TD_COUNTING | TD_HOLDING | TD_RESOLVED

record td_active =
  td_state :: td_state
  td_index :: u8
  td_tap_count :: u8
  td_row :: u8
  td_col :: u8
  td_key_held :: bool
  td_last_tap_ms :: u32

record tap_dance = tap_hold +
  td_configs :: "bytes list"
  td_active :: td_active
  td_resolved_keycode :: u8
  td_resolved_flag :: bool

definition resolve_dance :: "u8 \<Rightarrow> 'a tap_dance_scheme \<Rightarrow> 'a tap_dance_scheme" where
  "resolve_dance action_index s =
     (let a = td_active s in
      if unat (td_index a) \<ge> TAP_DANCE_MAX_SLOTS then s
      else let kc = td_configs s ! unat (td_index a) ! unat action_index;
               s1 = (if action_index < 4 \<and> kc \<noteq> 0
                     then s \<lparr>td_resolved_keycode := kc, td_resolved_flag := True\<rparr> else s)
           in s1 \<lparr>td_active := a \<lparr>td_state := TD_RESOLVED\<rparr>\<rparr>)"

definition tap_dance_init :: "'a tap_dance_scheme \<Rightarrow> 'a tap_dance_scheme" where
  "tap_dance_init s = s \<lparr>td_configs := replicate TAP_DANCE_MAX_SLOTS [0, 0, 0, 0],
     td_active := (td_active s) \<lparr>td_state := TD_IDLE\<rparr>,
     td_resolved_keycode := 0, td_resolved_flag := False\<rparr>"

definition tap_dance_set :: "u8 \<Rightarrow> bytes \<Rightarrow> 'a tap_dance_scheme \<Rightarrow> 'a tap_dance_scheme" where
  "tap_dance_set index actions s =
     (if unat index < TAP_DANCE_MAX_SLOTS
      then s \<lparr>td_configs := (td_configs s)[unat index := take 4 actions]\<rparr> else s)"

definition tap_dance_get :: "u8 \<Rightarrow> 'a tap_dance_scheme \<Rightarrow> bytes option" where
  "tap_dance_get index s =
     (if unat index \<ge> TAP_DANCE_MAX_SLOTS then None else Some (td_configs s ! unat index))"

text \<open>The action of a count: the first tap is action 0, more than three taps count as three.\<close>

definition tap_action :: "u8 \<Rightarrow> u8" where
  "tap_action tap_count =
     (if tap_count > TAP_DANCE_MAX_TAPS then TAP_DANCE_MAX_TAPS - 1 else tap_count - 1)"

definition tap_dance_on_press ::
  "u32 \<Rightarrow> u8 \<Rightarrow> u8 \<Rightarrow> u8 \<Rightarrow> 'a tap_dance_scheme \<Rightarrow> 'a tap_dance_scheme \<times> bool" where
  "tap_dance_on_press t index row col s =
     (let a = td_active s in
      if unat index \<ge> TAP_DANCE_MAX_SLOTS then (s, False)
      else if td_state a = TD_IDLE \<or> td_state a = TD_RESOLVED
      then (s \<lparr>td_active := \<lparr>td_state = TD_COUNTING, td_index = index, td_tap_count = 1,
              td_row = row, td_col = col, td_key_held = True, td_last_tap_ms = t\<rparr>,
              td_resolved_keycode := 0, td_resolved_flag := False\<rparr>, True)
      else if td_state a = TD_COUNTING \<and> td_index a = index
      then let a1 = a \<lparr>td_tap_count := td_tap_count a + 1, td_key_held := True,
                 td_last_tap_ms := t\<rparr>;
               s1 = s \<lparr>td_active := a1\<rparr>
           in (if td_tap_count a1 > TAP_DANCE_MAX_TAPS
               then resolve_dance (TAP_DANCE_MAX_TAPS - 1) s1 else s1, True)
      else if td_state a = TD_COUNTING then (resolve_dance (tap_action (td_tap_count a)) s, False)
      else (s, False))"

definition tap_dance_on_release :: "u8 \<Rightarrow> u8 \<Rightarrow> 'a tap_dance_scheme \<Rightarrow> 'a tap_dance_scheme" where
  "tap_dance_on_release row col s =
     (let a = td_active s in
      if td_state a = TD_IDLE then s
      else if td_row a \<noteq> row \<or> td_col a \<noteq> col then s
      else if td_state a = TD_HOLDING then resolve_dance 3 s
      else s \<lparr>td_active := a \<lparr>td_key_held := False\<rparr>\<rparr>)"

definition tap_dance_tick :: "u32 \<Rightarrow> 'a tap_dance_scheme \<Rightarrow> 'a tap_dance_scheme" where
  "tap_dance_tick t s =
     (let a = td_active s in
      if td_state a \<noteq> TD_COUNTING then s
      else let elapsed = t - td_last_tap_ms a in
      if td_key_held a \<and> elapsed \<ge> TAP_DANCE_TIMEOUT_MS
      then resolve_dance 3 (s \<lparr>td_active := a \<lparr>td_state := TD_HOLDING\<rparr>\<rparr>)
      else if \<not> td_key_held a \<and> elapsed \<ge> TAP_DANCE_TIMEOUT_MS
      then resolve_dance (tap_action (td_tap_count a)) s
      else s)"

definition tap_dance_consume :: "'a tap_dance_scheme \<Rightarrow> 'a tap_dance_scheme \<times> u8" where
  "tap_dance_consume s =
     (let a = td_active s;
          s1 = s \<lparr>td_resolved_keycode := 0, td_resolved_flag := False\<rparr>
      in (if td_state a = TD_RESOLVED then s1 \<lparr>td_active := a \<lparr>td_state := TD_IDLE\<rparr>\<rparr> else s1,
          td_resolved_keycode s))"

definition tap_dance_just_resolved :: "'a tap_dance_scheme \<Rightarrow> bool" where
  "tap_dance_just_resolved s = td_resolved_flag s"

section \<open>Well-formed dances\<close>

text \<open>The configuration table has its shape, the running dance is one of its slots, the count
  is at most four, and a resolved key is never the empty one.\<close>

definition td_ok :: "'a tap_dance_scheme \<Rightarrow> bool" where
  "td_ok s \<longleftrightarrow> length (td_configs s) = TAP_DANCE_MAX_SLOTS \<and>
     (\<forall>c\<in>set (td_configs s). length c = 4) \<and>
     (td_state (td_active s) \<noteq> TD_IDLE \<longrightarrow> unat (td_index (td_active s)) < TAP_DANCE_MAX_SLOTS) \<and>
     (td_state (td_active s) = TD_COUNTING \<longrightarrow>
        1 \<le> td_tap_count (td_active s) \<and> td_tap_count (td_active s) \<le> TAP_DANCE_MAX_TAPS) \<and>
     td_state (td_active s) \<noteq> TD_HOLDING \<and>
     (td_resolved_flag s \<longrightarrow> td_resolved_keycode s \<noteq> 0 \<and> td_state (td_active s) = TD_RESOLVED)"

lemma resolve_fields [simp]:
  "td_configs (resolve_dance i s) = td_configs s"
  "td_index (td_active (resolve_dance i s)) = td_index (td_active s)"
  by (simp_all add: resolve_dance_def Let_def)

lemma resolve_state:
  "unat (td_index (td_active s)) < TAP_DANCE_MAX_SLOTS \<Longrightarrow>
     td_state (td_active (resolve_dance i s)) = TD_RESOLVED"
  by (simp add: resolve_dance_def Let_def)

lemma resolve_ok:
  assumes "length (td_configs s) = TAP_DANCE_MAX_SLOTS" "\<forall>c\<in>set (td_configs s). length c = 4"
    and "unat (td_index (td_active s)) < TAP_DANCE_MAX_SLOTS"
    and "td_resolved_flag s \<longrightarrow> td_resolved_keycode s \<noteq> 0"
  shows "td_ok (resolve_dance i s)"
  using assms by (auto simp: td_ok_def resolve_dance_def Let_def)

lemma td_press_ok:
  assumes ok: "td_ok s" shows "td_ok (fst (tap_dance_on_press t index row col s))"
proof -
  have inc: "1 \<le> c + 1 \<and> c + 1 \<le> TAP_DANCE_MAX_TAPS" if "1 \<le> c" "c \<le> TAP_DANCE_MAX_TAPS"
    "\<not> c + 1 > TAP_DANCE_MAX_TAPS" for c :: u8
  proof -
    have "unat (c + 1) = unat c + 1" using that(2)
      by (simp add: unat_word_ariths TAP_DANCE_MAX_TAPS_def word_le_nat_alt)
    then show ?thesis using that by (simp add: word_le_nat_alt word_less_nat_alt)
  qed
  show ?thesis
    using ok inc
    by (auto simp: tap_dance_on_press_def Let_def intro!: resolve_ok)
      (auto simp: td_ok_def TAP_DANCE_MAX_TAPS_def)
qed

lemma td_release_ok: "td_ok s \<Longrightarrow> td_ok (tap_dance_on_release row col s)"
  by (auto simp: tap_dance_on_release_def Let_def td_ok_def)

lemma td_tick_ok: "td_ok s \<Longrightarrow> td_ok (tap_dance_tick t s)"
  by (auto simp: tap_dance_tick_def Let_def intro!: resolve_ok) (auto simp: td_ok_def)

lemma td_consume_ok: "td_ok s \<Longrightarrow> td_ok (fst (tap_dance_consume s))"
  by (auto simp: tap_dance_consume_def Let_def td_ok_def)

section \<open>Dances of one key\<close>

text \<open>A dance of \<open>n\<close> taps: the key is pressed at the given times, let go in between, and after
  the last release nothing happens for the timeout.\<close>

fun td_taps :: "u8 \<Rightarrow> u8 \<Rightarrow> u8 \<Rightarrow> u32 list \<Rightarrow> 'a tap_dance_scheme \<Rightarrow> 'a tap_dance_scheme" where
  "td_taps index row col [] s = s"
| "td_taps index row col (t # ts) s =
     td_taps index row col ts (tap_dance_on_release row col (fst (tap_dance_on_press t index row col s)))"

definition dancing :: "u8 \<Rightarrow> u8 \<Rightarrow> u8 \<Rightarrow> u8 \<Rightarrow> u32 \<Rightarrow> 'a tap_dance_scheme \<Rightarrow> bool" where
  "dancing index row col n t s \<longleftrightarrow> td_active s = \<lparr>td_state = TD_COUNTING, td_index = index,
     td_tap_count = n, td_row = row, td_col = col, td_key_held = False, td_last_tap_ms = t\<rparr> \<and>
     \<not> td_resolved_flag s"

lemma first_tap:
  "unat index < TAP_DANCE_MAX_SLOTS \<Longrightarrow> td_state (td_active s) \<in> {TD_IDLE, TD_RESOLVED} \<Longrightarrow>
     dancing index row col 1 t (td_taps index row col [t] s) \<and>
     td_configs (td_taps index row col [t] s) = td_configs s"
  by (auto simp: dancing_def tap_dance_on_press_def tap_dance_on_release_def Let_def)

lemma next_tap:
  "dancing index row col n t s \<Longrightarrow> unat index < TAP_DANCE_MAX_SLOTS \<Longrightarrow> n + 1 \<le> TAP_DANCE_MAX_TAPS \<Longrightarrow>
     dancing index row col (n + 1) t' (td_taps index row col [t'] s) \<and>
     td_configs (td_taps index row col [t'] s) = td_configs s"
  by (auto simp: dancing_def tap_dance_on_press_def tap_dance_on_release_def Let_def)

lemma small_inc:
  assumes "unat (n :: u8) + k \<le> 3" shows "unat (n + word_of_nat k) = unat n + k"
proof -
  have "unat (word_of_nat k :: u8) = k" using assms by (simp add: unat_of_nat take_bit_nat_eq_self)
  then show ?thesis using assms by (simp add: unat_word_ariths)
qed

lemma more_taps:
  "dancing index row col n t s \<Longrightarrow> unat index < TAP_DANCE_MAX_SLOTS \<Longrightarrow> unat n + length ts \<le> 3 \<Longrightarrow>
     dancing index row col (n + word_of_nat (length ts)) (last (t # ts)) (td_taps index row col ts s) \<and>
     td_configs (td_taps index row col ts s) = td_configs s"
proof (induction ts arbitrary: n t s)
  case (Cons t' ts)
  have u: "unat (n + 1) = unat n + 1" using small_inc [of n 1] Cons.prems(3) by simp
  have "n + 1 \<le> TAP_DANCE_MAX_TAPS"
    using u Cons.prems(3) by (simp add: word_le_nat_alt TAP_DANCE_MAX_TAPS_def)
  note a = next_tap [OF Cons.prems(1,2) this, of t']
  note b = Cons.IH [OF conjunct1 [OF a] Cons.prems(2)]
  show ?case using a b u Cons.prems(3) by (simp add: add.assoc [symmetric])
qed simp

lemma dance_timeout:
  assumes "dancing index row col n t s" "unat index < TAP_DANCE_MAX_SLOTS"
    and "1 \<le> n" "n \<le> TAP_DANCE_MAX_TAPS" "now - t \<ge> TAP_DANCE_TIMEOUT_MS"
    and "td_configs s ! unat index ! unat (n - 1) = kc" "kc \<noteq> 0"
  shows "tap_dance_just_resolved (tap_dance_tick now s) \<and>
    snd (tap_dance_consume (tap_dance_tick now s)) = kc \<and>
    td_state (td_active (fst (tap_dance_consume (tap_dance_tick now s)))) = TD_IDLE"
proof -
  have n: "n - 1 < 4"
  proof -
    have "unat (n - 1) = unat n - 1" using assms(3) by (simp add: unat_sub)
    then show ?thesis using assms(4) by (simp add: word_less_nat_alt word_le_nat_alt TAP_DANCE_MAX_TAPS_def)
  qed
  show ?thesis using assms n
    by (auto simp: dancing_def tap_dance_tick_def resolve_dance_def tap_action_def
        tap_dance_consume_def tap_dance_just_resolved_def Let_def not_less)
qed

text \<open>
  A dance of one, two or three taps gives, one timeout after the last tap and not before,
  the action configured for that number of taps, once, and the engine is then free again.
\<close>

theorem tap_dance_counts_taps:
  assumes "unat index < TAP_DANCE_MAX_SLOTS" "td_state (td_active s) \<in> {TD_IDLE, TD_RESOLVED}"
    and "ts \<noteq> []" "length ts \<le> 3" "length (td_configs s) = TAP_DANCE_MAX_SLOTS"
    and "td_configs s ! unat index ! (length ts - 1) = kc" "kc \<noteq> 0"
  shows "let s' = td_taps index row col ts s in
    \<not> tap_dance_just_resolved s' \<and>
    (now - last ts < TAP_DANCE_TIMEOUT_MS \<longrightarrow> tap_dance_tick now s' = s') \<and>
    (now - last ts \<ge> TAP_DANCE_TIMEOUT_MS \<longrightarrow>
       tap_dance_just_resolved (tap_dance_tick now s') \<and>
       snd (tap_dance_consume (tap_dance_tick now s')) = kc \<and>
       td_state (td_active (fst (tap_dance_consume (tap_dance_tick now s')))) = TD_IDLE)"
proof -
  obtain t us where ts: "ts = t # us" using assms(3) by (cases ts) auto
  define n :: u8 where "n = 1 + word_of_nat (length us)"
  note a = first_tap [OF assms(1,2), of row col t]
  have len: "unat (1 :: u8) + length us \<le> 3" using assms(4) ts by simp
  note b = more_taps [OF conjunct1 [OF a] assms(1) len]
  have n: "unat n = length ts" using small_inc [OF len] by (simp add: n_def ts)
  have n': "1 \<le> n" "n \<le> TAP_DANCE_MAX_TAPS"
    using n assms(4) by (simp_all add: ts word_le_nat_alt TAP_DANCE_MAX_TAPS_def)
  have d: "dancing index row col n (last ts) (td_taps index row col ts s)"
    "td_configs (td_taps index row col ts s) = td_configs s"
    using a b by (simp_all add: ts n_def)
  have u: "unat (n - 1) = length ts - 1" using n n' by (simp add: unat_sub)
  have q: "now - last ts < TAP_DANCE_TIMEOUT_MS \<Longrightarrow>
      tap_dance_tick now (td_taps index row col ts s) = td_taps index row col ts s"
    using d(1) by (auto simp: dancing_def tap_dance_tick_def Let_def not_le)
  show ?thesis using dance_timeout [OF d(1) assms(1) n', of now kc] d assms(6,7) u q
    by (auto simp: dancing_def tap_dance_just_resolved_def Let_def)
qed

definition td_example :: tap_dance where
  "td_example = tap_hold.extend th_example (tap_dance.fields
     ([5, 6, 7, 8] # replicate 15 [0, 0, 0, 0])
     \<lparr>td_state = TD_IDLE, td_index = 0, td_tap_count = 0, td_row = 0, td_col = 0,
        td_key_held = False, td_last_tap_ms = 0\<rparr> 0 False)"

lemma tap_dance_counts_taps_witness:
  "snd (tap_dance_consume (tap_dance_tick 400 (td_taps 0 1 1 [100, 200] td_example))) = 6"
proof -
  have "td_state (td_active td_example) \<in> {TD_IDLE, TD_RESOLVED}"
    "length (td_configs td_example) = TAP_DANCE_MAX_SLOTS"
    "td_configs td_example ! unat (0 :: u8) ! (length [100 :: u32, 200] - 1) = 6"
    by (simp_all add: td_example_def tap_hold.defs tap_dance.defs TAP_DANCE_MAX_SLOTS_def)
  from tap_dance_counts_taps [OF _ this(1) _ _ this(2,3), of 1 1 400] show ?thesis
    by (simp add: Let_def TAP_DANCE_MAX_SLOTS_def TAP_DANCE_TIMEOUT_MS_def)
qed

end
