(* ===== verification/Combo.thy ===== *)
theory Combo
  imports Tap_Dance
begin

text \<open>
  \<open>main/input/combo.c\<close>: two keys pressed together give a third. A key that belongs to a combo
  is held back; it comes out with its partner as the combo, or alone as an expired key. The
  clock is the argument \<open>now\<close>, in microseconds. The two result queues are lists, taken from
  their end.
\<close>

definition COMBO_MAX_SLOTS :: nat where "COMBO_MAX_SLOTS = 16"
definition COMBO_TIMEOUT_MS :: int where "COMBO_TIMEOUT_MS = 50"
definition MAX_DEFERRED :: nat where "MAX_DEFERRED = 4"

record combo_config =
  cb_row1 :: u8
  cb_col1 :: u8
  cb_row2 :: u8
  cb_col2 :: u8
  cb_result :: u8

record deferred_key =
  dk_row :: u8
  dk_col :: u8
  dk_keycode :: u8
  dk_press_time_us :: int
  dk_active :: bool

record combo = tap_dance +
  cb_configs :: "combo_config list"
  deferred :: "deferred_key list"
  combo_active :: "bool list"
  resolved_queue :: "(nat \<times> u8) list"
  expired_queue :: bytes

type_synonym key_pos = "u8 \<times> u8"

definition combo_zero :: combo_config where
  "combo_zero = \<lparr>cb_row1 = 0, cb_col1 = 0, cb_row2 = 0, cb_col2 = 0, cb_result = 0\<rparr>"

definition deferred_zero :: deferred_key where
  "deferred_zero = \<lparr>dk_row = 0, dk_col = 0, dk_keycode = 0, dk_press_time_us = 0, dk_active = False\<rparr>"

definition combo_init :: "'a combo_scheme \<Rightarrow> 'a combo_scheme" where
  "combo_init s = s \<lparr>cb_configs := replicate COMBO_MAX_SLOTS combo_zero,
     deferred := replicate MAX_DEFERRED deferred_zero,
     combo_active := replicate COMBO_MAX_SLOTS False, resolved_queue := [], expired_queue := []\<rparr>"

definition combo_set :: "u8 \<Rightarrow> combo_config \<Rightarrow> 'a combo_scheme \<Rightarrow> 'a combo_scheme" where
  "combo_set index cfg s =
     (if unat index < COMBO_MAX_SLOTS
      then s \<lparr>cb_configs := (cb_configs s)[unat index := cfg]\<rparr> else s)"

definition combo_get :: "u8 \<Rightarrow> 'a combo_scheme \<Rightarrow> combo_config option" where
  "combo_get index s =
     (if unat index \<ge> COMBO_MAX_SLOTS then None else Some (cb_configs s ! unat index))"

definition key_in_report :: "u8 \<Rightarrow> u8 \<Rightarrow> key_pos list \<Rightarrow> bool" where
  "key_in_report row col press \<longleftrightarrow> (row, col) \<in> set press"

definition combo_has_key :: "combo_config \<Rightarrow> u8 \<Rightarrow> u8 \<Rightarrow> bool" where
  "combo_has_key cfg row col \<longleftrightarrow>
     cb_row1 cfg = row \<and> cb_col1 cfg = col \<or> cb_row2 cfg = row \<and> cb_col2 cfg = col"

definition is_combo_key :: "u8 \<Rightarrow> u8 \<Rightarrow> 'a combo_scheme \<Rightarrow> bool" where
  "is_combo_key row col s \<longleftrightarrow>
     list_ex (\<lambda>cfg. cb_result cfg \<noteq> 0 \<and> combo_has_key cfg row col) (cb_configs s)"

definition find_deferred :: "u8 \<Rightarrow> u8 \<Rightarrow> 'a combo_scheme \<Rightarrow> nat option" where
  "find_deferred row col s =
     find_index (\<lambda>d. dk_active d \<and> dk_row d = row \<and> dk_col d = col) (deferred s)"

definition alloc_deferred :: "'a combo_scheme \<Rightarrow> nat option" where
  "alloc_deferred s = find_index (\<lambda>d. \<not> dk_active d) (deferred s)"

definition is_active_combo_key :: "u8 \<Rightarrow> u8 \<Rightarrow> 'a combo_scheme \<Rightarrow> bool" where
  "is_active_combo_key row col s \<longleftrightarrow>
     list_ex (\<lambda>i. combo_active s ! i \<and> cb_result (cb_configs s ! i) \<noteq> 0 \<and>
       combo_has_key (cb_configs s ! i) row col) [0..<COMBO_MAX_SLOTS]"

definition combo_is_suppressed :: "u8 \<Rightarrow> u8 \<Rightarrow> 'a combo_scheme \<Rightarrow> bool" where
  "combo_is_suppressed row col s \<longleftrightarrow>
     find_deferred row col s \<noteq> None \<or> is_active_combo_key row col s"

definition combo_should_defer :: "u8 \<Rightarrow> u8 \<Rightarrow> 'a combo_scheme \<Rightarrow> bool" where
  "combo_should_defer row col s = is_combo_key row col s"

definition combo_defer_key :: "int \<Rightarrow> u8 \<Rightarrow> u8 \<Rightarrow> u8 \<Rightarrow> 'a combo_scheme \<Rightarrow> 'a combo_scheme" where
  "combo_defer_key now row col keycode s =
     (if find_deferred row col s \<noteq> None then s
      else case alloc_deferred s of
        None \<Rightarrow> s
      | Some i \<Rightarrow> s \<lparr>deferred := (deferred s)[i := \<lparr>dk_row = row, dk_col = col,
          dk_keycode = keycode, dk_press_time_us = now, dk_active = True\<rparr>]\<rparr>)"

definition undefer :: "nat option \<Rightarrow> 'a combo_scheme \<Rightarrow> 'a combo_scheme" where
  "undefer d s = (case d of None \<Rightarrow> s
     | Some i \<Rightarrow> s \<lparr>deferred := (deferred s)[i := (deferred s ! i) \<lparr>dk_active := False\<rparr>]\<rparr>)"

text \<open>One configured combo: it fires when both keys are down and one of them is held back.\<close>

definition combo_slot :: "key_pos list \<Rightarrow> nat \<Rightarrow> 'a combo_scheme \<Rightarrow> 'a combo_scheme" where
  "combo_slot press i s =
     (let cfg = cb_configs s ! i in
      if cb_result cfg = 0 then s
      else let both = key_in_report (cb_row1 cfg) (cb_col1 cfg) press \<and>
                      key_in_report (cb_row2 cfg) (cb_col2 cfg) press in
      if both \<and> \<not> combo_active s ! i
      then let d1 = find_deferred (cb_row1 cfg) (cb_col1 cfg) s;
               d2 = find_deferred (cb_row2 cfg) (cb_col2 cfg) s
           in if d1 \<noteq> None \<or> d2 \<noteq> None
              then let s1 = undefer d2 (undefer d1 (s \<lparr>combo_active := (combo_active s)[i := True]\<rparr>))
                   in if length (resolved_queue s1) < COMBO_MAX_SLOTS
                      then s1 \<lparr>resolved_queue := resolved_queue s1 @ [(i, cb_result cfg)]\<rparr> else s1
              else s
      else if \<not> both then s \<lparr>combo_active := (combo_active s)[i := False]\<rparr> else s)"

text \<open>One held-back key: it expires by age or by release.\<close>

definition expire_slot :: "int \<Rightarrow> key_pos list \<Rightarrow> nat \<Rightarrow> 'a combo_scheme \<Rightarrow> 'a combo_scheme" where
  "expire_slot now press i s =
     (let d = deferred s ! i in
      if \<not> dk_active d then s
      else let still_pressed = key_in_report (dk_row d) (dk_col d) press;
               age_us = now - dk_press_time_us d
           in if age_us > COMBO_TIMEOUT_MS * 1000 \<or> \<not> still_pressed
              then let s1 = (if length (expired_queue s) < MAX_DEFERRED
                             then s \<lparr>expired_queue := expired_queue s @ [dk_keycode d]\<rparr> else s)
                   in undefer (Some i) s1
              else s)"

definition combo_process :: "int \<Rightarrow> key_pos list \<Rightarrow> 'a combo_scheme \<Rightarrow> 'a combo_scheme" where
  "combo_process now press s =
     fold (expire_slot now press) [0..<MAX_DEFERRED]
       (fold (combo_slot press) [0..<COMBO_MAX_SLOTS]
         (s \<lparr>resolved_queue := [], expired_queue := []\<rparr>))"

text \<open>The positions of the combo's keys are returned too.\<close>

definition combo_consume :: "'a combo_scheme \<Rightarrow> 'a combo_scheme \<times> u8 \<times> key_pos list" where
  "combo_consume s =
     (if resolved_queue s = [] then (s, 0, [])
      else let (i, kc) = last (resolved_queue s); cfg = cb_configs s ! i
           in (s \<lparr>resolved_queue := butlast (resolved_queue s)\<rparr>, kc,
               [(cb_row1 cfg, cb_col1 cfg), (cb_row2 cfg, cb_col2 cfg)]))"

definition combo_consume_expired :: "'a combo_scheme \<Rightarrow> 'a combo_scheme \<times> u8" where
  "combo_consume_expired s =
     (if expired_queue s = [] then (s, 0)
      else (s \<lparr>expired_queue := butlast (expired_queue s)\<rparr>, last (expired_queue s)))"

end
