(* ===== verification/Leader.thy ===== *)
theory Leader
  imports Combo
begin

text \<open>
  \<open>main/input/leader.c\<close>: after the leader key, a sequence of up to four keys selects an
  action. The typed keys are a list, the first \<open>buf_len\<close> bytes of the code's buffer. The clock
  is the argument \<open>t\<close>, in milliseconds.
\<close>

definition LEADER_MAX_SEQ_LEN :: nat where "LEADER_MAX_SEQ_LEN = 4"
definition LEADER_MAX_ENTRIES :: nat where "LEADER_MAX_ENTRIES = 16"
definition LEADER_TIMEOUT_MS :: u32 where "LEADER_TIMEOUT_MS = 1000"

record leader_entry =
  le_sequence :: bytes
  le_result :: u8
  le_result_mod :: u8

record leader = combo +
  ld_entries :: "leader_entry list"
  ld_active :: bool
  ld_buffer :: bytes
  ld_last_key_ms :: u32
  ld_resolved_key :: u8
  ld_resolved_mod :: u8
  ld_resolved_flag :: bool

definition leader_zero :: leader_entry where
  "leader_zero = \<lparr>le_sequence = [0, 0, 0, 0], le_result = 0, le_result_mod = 0\<rparr>"

definition entry_seq_len :: "leader_entry \<Rightarrow> nat" where
  "entry_seq_len e = length (takeWhile (\<lambda>k. k \<noteq> 0) (take LEADER_MAX_SEQ_LEN (le_sequence e)))"

definition seq_starts_with :: "leader_entry \<Rightarrow> bytes \<Rightarrow> bool" where
  "seq_starts_with e buf \<longleftrightarrow> list_all (\<lambda>j. le_sequence e ! j = buf ! j) [0..<length buf]"

definition buffer_is_prefix_of_longer :: "'a leader_scheme \<Rightarrow> bool" where
  "buffer_is_prefix_of_longer s \<longleftrightarrow>
     list_ex (\<lambda>e. le_result e \<noteq> 0 \<and> entry_seq_len e > length (ld_buffer s) \<and>
       seq_starts_with e (ld_buffer s)) (ld_entries s)"

definition find_match :: "'a leader_scheme \<Rightarrow> leader_entry option" where
  "find_match s = find (\<lambda>e. le_result e \<noteq> 0 \<and> entry_seq_len e = length (ld_buffer s) \<and>
     seq_starts_with e (ld_buffer s)) (ld_entries s)"

definition try_match :: "bool \<Rightarrow> 'a leader_scheme \<Rightarrow> 'a leader_scheme" where
  "try_match defer_on_prefix s =
     (if defer_on_prefix \<and> buffer_is_prefix_of_longer s then s
      else case find_match s of
        None \<Rightarrow> s
      | Some e \<Rightarrow> s \<lparr>ld_resolved_key := le_result e, ld_resolved_mod := le_result_mod e,
          ld_resolved_flag := True, ld_active := False\<rparr>)"

definition leader_cancel :: "'a leader_scheme \<Rightarrow> 'a leader_scheme" where
  "leader_cancel s = s \<lparr>ld_active := False, ld_buffer := []\<rparr>"

definition leader_init :: "'a leader_scheme \<Rightarrow> 'a leader_scheme" where
  "leader_init s = s \<lparr>ld_entries := replicate LEADER_MAX_ENTRIES leader_zero,
     ld_active := False, ld_buffer := [], ld_resolved_flag := False\<rparr>"

definition leader_set :: "u8 \<Rightarrow> leader_entry \<Rightarrow> 'a leader_scheme \<Rightarrow> 'a leader_scheme" where
  "leader_set index entry s =
     (if unat index < LEADER_MAX_ENTRIES
      then s \<lparr>ld_entries := (ld_entries s)[unat index := entry]\<rparr> else s)"

definition leader_get :: "u8 \<Rightarrow> 'a leader_scheme \<Rightarrow> leader_entry option" where
  "leader_get index s =
     (if unat index \<ge> LEADER_MAX_ENTRIES then None else Some (ld_entries s ! unat index))"

definition leader_start :: "u32 \<Rightarrow> 'a leader_scheme \<Rightarrow> 'a leader_scheme" where
  "leader_start t s = s \<lparr>ld_active := True, ld_buffer := [], ld_last_key_ms := t,
     ld_resolved_flag := False\<rparr>"

definition leader_feed :: "u32 \<Rightarrow> u8 \<Rightarrow> 'a leader_scheme \<Rightarrow> 'a leader_scheme \<times> bool" where
  "leader_feed t keycode s =
     (if \<not> ld_active s \<or> keycode = 0 then (s, False)
      else if length (ld_buffer s) < LEADER_MAX_SEQ_LEN
      then (try_match True (s \<lparr>ld_buffer := ld_buffer s @ [keycode], ld_last_key_ms := t\<rparr>), True)
      else (leader_cancel s, False))"

definition leader_tick :: "u32 \<Rightarrow> 'a leader_scheme \<Rightarrow> 'a leader_scheme \<times> bool" where
  "leader_tick t s =
     (if ld_resolved_flag s then (s, True)
      else if \<not> ld_active s then (s, False)
      else if t - ld_last_key_ms s \<ge> LEADER_TIMEOUT_MS
      then let s1 = (if ld_buffer s \<noteq> [] then try_match False s else s); s2 = leader_cancel s1
           in (s2, ld_resolved_flag s2)
      else (s, False))"

definition leader_consume :: "'a leader_scheme \<Rightarrow> 'a leader_scheme \<times> u8 \<times> u8" where
  "leader_consume s = (s \<lparr>ld_resolved_key := 0, ld_resolved_mod := 0, ld_resolved_flag := False\<rparr>,
     ld_resolved_key s, ld_resolved_mod s)"

definition leader_is_active :: "'a leader_scheme \<Rightarrow> bool" where
  "leader_is_active s = ld_active s"

end
