(* ===== verification/Key_Processor.thy ===== *)
theory Key_Processor
  imports Leader
begin

unbundle bit_operations_syntax

text \<open>
  \<open>main/input/key_processor.c\<close>: one scan cycle, from the pressed positions to the six key
  codes and the modifier byte of the report. The state extends all engines; the keymap and the
  macros are fields, calls to other parts of the firmware (confirmation, display, Bluetooth)
  are appended to \<open>kp_out\<close>. The clock \<open>now\<close>, in microseconds, is read once per cycle;
  \<open>bt_up\<close> says whether Bluetooth is initialised.
\<close>

definition MAX_MACROS :: nat where "MAX_MACROS = 20"
definition MACRO_MAX_STEPS :: nat where "MACRO_MAX_STEPS = 24"
definition MACRO_DELAY_MARKER :: u8 where "MACRO_DELAY_MARKER = 0xFF"

text \<open>A macro: whether it has a name, its steps (key, modifiers) and the legacy key list.\<close>

record macro =
  mc_named :: bool
  mc_steps :: "(u8 \<times> u8) list"
  mc_keys :: bytes

datatype kp_call = SecAuthorize | DisplayNext | DisplayUpdate | BtToggle | BtNext | BtPrev
  | BtPair | BtDisconnect | SaveIoMode u8

record key_proc = leader +
  kp_keymaps :: "u16 list list list"
  kp_macros :: "macro list"
  keycodes :: bytes
  current_press :: "key_pos list"
  keypress_internal_function :: u16
  layer_changer :: key_pos
  lm_active_mods :: u8
  extra_keycodes :: "u16 list"
  prev_press :: "key_pos list"
  tap_injected_slots :: u8
  pending_macro_idx :: int
  macro_hold_mods :: u8
  report_mods :: u8
  usb_bl_state :: u8
  kp_out :: "kp_call list"

definition now_ms :: "int \<Rightarrow> u32" where "now_ms now = word_of_int (now div 1000)"

definition no_pos :: key_pos where "no_pos = (INVALID_KEY_POS, INVALID_KEY_POS)"

definition keymap_at :: "'a key_proc_scheme \<Rightarrow> u8 \<Rightarrow> key_pos \<Rightarrow> u16" where
  "keymap_at s layer pos = kp_keymaps s ! unat layer ! unat (fst pos) ! unat (snd pos)"

definition kp_emit :: "kp_call list \<Rightarrow> 'a key_proc_scheme \<Rightarrow> 'a key_proc_scheme" where
  "kp_emit cs s = s \<lparr>kp_out := kp_out s @ cs\<rparr>"

section \<open>Layers and internal functions\<close>

definition apply_momentary_layer :: "u16 \<Rightarrow> nat \<Rightarrow> 'a key_proc_scheme \<Rightarrow> 'a key_proc_scheme" where
  "apply_momentary_layer keycode key_idx s =
     (let (layer, mods) = (if keycode \<ge> MO_L0 \<and> keycode \<le> MO_L9
            then (ucast ((keycode - MO_L0) div 256), 0)
            else if K_IS_LM keycode then (K_LM_LAYER keycode, K_LM_MODS keycode)
            else (0xFF :: u8, 0 :: u8))
      in if unat layer < LAYERS
         then layer_changed (s \<lparr>last_layer := current_layout s, current_layout := layer,
                lm_active_mods := mods\<rparr>) \<lparr>layer_changer := current_press s ! key_idx\<rparr>
         else s)"

definition apply_toggle_layer :: "u16 \<Rightarrow> 'a key_proc_scheme \<Rightarrow> 'a key_proc_scheme" where
  "apply_toggle_layer keycode s =
     (if keycode \<ge> TO_L0 \<and> keycode \<le> TO_L9
      then let new_layer = ucast ((keycode - TO_L0) div 256) :: u8;
               cur = (if current_layout s = new_layer then 0 else new_layer)
           in layer_changed (s \<lparr>current_layout := cur, last_layer := cur\<rparr>)
      else s)"

definition detect_internal_function :: "u16 \<Rightarrow> 'a key_proc_scheme \<Rightarrow> 'a key_proc_scheme" where
  "detect_internal_function keycode s =
     (if ((keycode \<ge> TO_L0 \<and> keycode \<le> TO_L9) \<or> (keycode \<ge> K_BT_NEXT \<and> keycode \<le> BT_TOGGLE)) \<and>
         keypress_internal_function s = 0
      then s \<lparr>keypress_internal_function := keycode\<rparr> else s)"

definition dispatch_internal_function :: "bool \<Rightarrow> 'a key_proc_scheme \<Rightarrow> 'a key_proc_scheme" where
  "dispatch_internal_function bt_up s =
     (let f = keypress_internal_function s in
      if f = BT_SWITCH_DEVICE
      then let st = (if usb_bl_state s = 0 \<and> bt_up then 1 else 0)
           in kp_emit [SaveIoMode st, DisplayUpdate] (s \<lparr>usb_bl_state := st\<rparr>)
      else if f = BT_TOGGLE then kp_emit [BtToggle] s
      else if f = K_BT_NEXT then kp_emit [BtNext, DisplayUpdate] s
      else if f = K_BT_PREV then kp_emit [BtPrev, DisplayUpdate] s
      else if f = K_BT_PAIR then kp_emit [BtPair, DisplayUpdate] s
      else if f = K_BT_DISCONNECT then kp_emit [BtDisconnect, DisplayUpdate] s
      else s)"

section \<open>Macros\<close>

text \<open>The first free slot of the report takes the key, if there is one.\<close>

definition put_free :: "u8 \<Rightarrow> bytes \<Rightarrow> bytes" where
  "put_free k kcs = (case find_index (\<lambda>x. x = 0) kcs of None \<Rightarrow> kcs | Some i \<Rightarrow> kcs[i := k])"

text \<open>The legacy macros: free slots take the keys in turn, a zero key being used up too.\<close>

fun fill_legacy :: "bytes \<Rightarrow> bytes \<Rightarrow> bytes" where
  "fill_legacy [] keys = []"
| "fill_legacy kcs [] = kcs"
| "fill_legacy (k # kcs) (x # keys) =
     (if k = 0 then x # fill_legacy kcs keys else k # fill_legacy kcs (x # keys))"

definition macro_steps :: "macro \<Rightarrow> (u8 \<times> u8) list" where
  "macro_steps m = takeWhile (\<lambda>st. fst st \<noteq> 0) (take MACRO_MAX_STEPS (mc_steps m))"

definition expand_macro :: "u16 \<Rightarrow> bool \<Rightarrow> 'a key_proc_scheme \<Rightarrow> 'a key_proc_scheme" where
  "expand_macro keycode is_new s =
     (if keycode < MACRO_1 \<or> keycode > MACRO_20 then s
      else let idx = unat ((keycode - MACRO_1) div 256) in
      if idx \<ge> MAX_MACROS \<or> \<not> mc_named (kp_macros s ! idx) then s
      else let m = kp_macros s ! idx; steps = macro_steps m in
      if steps = [] then s \<lparr>keycodes := fill_legacy (keycodes s) (mc_keys m)\<rparr>
      else if list_ex (\<lambda>st. fst st = MACRO_DELAY_MARKER) steps
      then if is_new then s \<lparr>pending_macro_idx := int idx\<rparr> else s
      else s \<lparr>keycodes := fold (\<lambda>st. put_free (fst st)) steps (keycodes s),
         macro_hold_mods := fold (\<lambda>st m. m OR snd st) steps (macro_hold_mods s)\<rparr>)"

definition key_processor_has_pending_macro :: "'a key_proc_scheme \<Rightarrow> bool" where
  "key_processor_has_pending_macro s \<longleftrightarrow> pending_macro_idx s \<ge> 0"

definition key_processor_report_mods :: "'a key_proc_scheme \<Rightarrow> u8" where
  "key_processor_report_mods s = report_mods s"

definition key_processor_consume_macro :: "'a key_proc_scheme \<Rightarrow> 'a key_proc_scheme \<times> int" where
  "key_processor_consume_macro s = (s \<lparr>pending_macro_idx := -1\<rparr>, pending_macro_idx s)"

section \<open>Advanced keys\<close>

definition is_advanced_keycode :: "u16 \<Rightarrow> bool" where
  "is_advanced_keycode kc \<longleftrightarrow> \<not> kc \<le> 0xFF \<and> \<not> (kc \<ge> MO_L0 \<and> kc \<le> TO_L9) \<and>
     \<not> (kc \<ge> MACRO_1 \<and> kc \<le> MACRO_20) \<and> \<not> (kc \<ge> K_BT_NEXT \<and> kc \<le> BT_TOGGLE)"

definition is_new_press :: "key_pos \<Rightarrow> 'a key_proc_scheme \<Rightarrow> bool" where
  "is_new_press pos s \<longleftrightarrow> pos \<notin> set (prev_press s)"

definition report_mod_bits :: "bytes \<Rightarrow> u8" where
  "report_mod_bits kcs = fold (\<lambda>k m. if is_mod_usage k then m OR usage_mod_bit k else m) kcs 0"

text \<open>The result is the HID key to report, 0 when there is none.\<close>

definition process_advanced_key ::
  "int \<Rightarrow> u16 \<Rightarrow> key_pos \<Rightarrow> 'a key_proc_scheme \<Rightarrow> 'a key_proc_scheme \<times> u8" where
  "process_advanced_key now kc pos s =
     (if K_IS_LT kc \<or> K_IS_MT kc \<or> K_IS_OSM kc
      then (fst (tap_hold_on_press (now_ms now) kc (fst pos) (snd pos) s), 0)
      else if K_IS_TD kc
      then (fst (tap_dance_on_press (now_ms now) (K_TD_INDEX kc) (fst pos) (snd pos) s), 0)
      else if K_IS_OSL kc then (osl_arm (K_OSL_LAYER kc) s, 0)
      else if kc = K_CAPS_WORD then (caps_word_toggle s, 0)
      else if kc = K_REPEAT then (s, repeat_key_get s)
      else if kc = K_LEADER then (leader_start (now_ms now) s, 0)
      else if kc = K_AUTO_SHIFT_TOGGLE then (s, 0)
      else if kc = K_GESC
      then (s, grave_esc_resolve (tap_hold_get_active_mods s OR report_mod_bits (keycodes s)))
      else if kc = K_SEC_CONFIRM
      then (if is_new_press pos s then kp_emit [SecAuthorize] s else s, 0)
      else if kc = K_LAYER_LOCK then (layer_lock_toggle s, 0)
      else if kc = K_DISP_NEXT
      then (if is_new_press pos s then kp_emit [DisplayNext] s else s, 0)
      else (s, 0))"

definition release_pos :: "key_pos \<Rightarrow> 'a key_proc_scheme \<Rightarrow> 'a key_proc_scheme" where
  "release_pos pos s =
     (if fst pos = INVALID_KEY_POS then s
      else if pos \<in> set (current_press s) then s
      else tap_dance_on_release (fst pos) (snd pos)
             (fst (tap_hold_on_release (fst pos) (snd pos) s)))"

definition detect_releases :: "'a key_proc_scheme \<Rightarrow> 'a key_proc_scheme" where
  "detect_releases s = fold release_pos (prev_press s) s"

section \<open>The report builder, step by step\<close>

text \<open>Step 2: momentary layers, every key read from the layer at the start of the cycle.\<close>

definition momentary_slot :: "u8 \<Rightarrow> nat \<Rightarrow> 'a key_proc_scheme \<Rightarrow> 'a key_proc_scheme" where
  "momentary_slot base_layer i s =
     (let pos = current_press s ! i in
      if snd pos = INVALID_KEY_POS then s
      else apply_momentary_layer (keymap_at s base_layer pos) i s)"

text \<open>Step 3: the layer the keys of this cycle are read from.\<close>

definition cycle_layer :: "'a key_proc_scheme \<Rightarrow> u8" where
  "cycle_layer s =
     (let l0 = current_layout s;
          l1 = (if tap_hold_get_active_layer s \<ge> 0
                then word_of_int (tap_hold_get_active_layer s) else l0)
      in if osl_get_layer s \<ge> 0 then word_of_int (osl_get_layer s) else l1)"

definition physical_mods_of :: "u8 \<Rightarrow> 'a key_proc_scheme \<Rightarrow> u8" where
  "physical_mods_of active_layer s =
     fold (\<lambda>pos m. if snd pos = INVALID_KEY_POS then m
       else let kc = keymap_at s active_layer pos in
         if kc \<ge> 0xE0 \<and> kc \<le> 0xE7 then m OR push_bit (unat (kc - 0xE0)) 1 else m)
       (current_press s) 0"

text \<open>What step 4 accumulates: whether a normal key was pressed, and the modifiers that the
  triggered overrides add and suppress.\<close>

record slot_acc =
  acc_normal :: bool
  acc_add :: u8
  acc_suppress :: u8

definition set_key :: "nat \<Rightarrow> u8 \<Rightarrow> 'a key_proc_scheme \<Rightarrow> 'a key_proc_scheme" where
  "set_key i k s = s \<lparr>keycodes := (keycodes s)[i := k]\<rparr>"

definition set_extra :: "nat \<Rightarrow> u16 \<Rightarrow> 'a key_proc_scheme \<Rightarrow> 'a key_proc_scheme" where
  "set_extra i kc s = s \<lparr>extra_keycodes := (extra_keycodes s)[i := kc]\<rparr>"

text \<open>A plain HID key, after the layer and macro keys are out of the way.\<close>

definition normal_key ::
  "int \<Rightarrow> u8 \<Rightarrow> nat \<Rightarrow> u8 \<Rightarrow> key_pos \<Rightarrow> 'a key_proc_scheme \<times> slot_acc \<Rightarrow> 'a key_proc_scheme \<times> slot_acc" where
  "normal_key now mods i kc pos = (\<lambda>(s, acc).
     (let ov = key_override_check kc mods s;
          (kc1, acc1) = (case ov of
             Some (rk, rm, tm) \<Rightarrow> if rk \<noteq> 0
               then (rk, acc \<lparr>acc_add := acc_add acc OR rm, acc_suppress := acc_suppress acc OR tm\<rparr>)
               else (kc, acc)
           | None \<Rightarrow> (kc, acc))
      in if is_new_press pos s \<and> combo_should_defer (fst pos) (snd pos) s
         then (set_extra i (ucast kc1) (combo_defer_key now (fst pos) (snd pos) kc1 s), acc1)
         else if combo_is_suppressed (fst pos) (snd pos) s then (set_extra i (ucast kc1) s, acc1)
         else (set_key i kc1 s, acc1 \<lparr>acc_normal := True\<rparr>)))"

text \<open>Step 4 for one slot of the report.\<close>

definition process_slot ::
  "int \<Rightarrow> u8 \<Rightarrow> u8 \<Rightarrow> nat \<Rightarrow> 'a key_proc_scheme \<times> slot_acc \<Rightarrow> 'a key_proc_scheme \<times> slot_acc" where
  "process_slot now active_layer mods i = (\<lambda>(s, acc).
     (let pos = current_press s ! i in
      if snd pos = INVALID_KEY_POS then (set_extra i 0 (set_key i 0 s), acc)
      else let kc = keymap_at s active_layer pos in
      if snd (tap_hold_get_resolved (fst pos) (snd pos) s) then (set_extra i kc s, acc)
      else if is_advanced_keycode kc
      then let (s1, hid_kc) = process_advanced_key now kc pos s
           in if hid_kc \<noteq> 0 then (set_key i hid_kc s1, acc \<lparr>acc_normal := True\<rparr>)
              else (set_extra i kc s1, acc)
      else if leader_is_active s \<and> kc \<le> 0xFF \<and> kc \<noteq> 0
      then (set_extra i kc (if is_new_press pos s
              then fst (leader_feed (now_ms now) (ucast kc) s) else s), acc)
      else let s1 = expand_macro kc (is_new_press pos s) (detect_internal_function kc s) in
      if layer_changer s1 = pos then (s1, acc)
      else let kc1 = (if kc = 0 then keymap_at s1 (last_layer s1) pos else kc) in
      if kc1 > 0xFF then (set_extra i kc1 s1, acc)
      else normal_key now mods i (ucast kc1) pos (s1, acc)))"

text \<open>The modifier usages a triggered override suppresses leave the report.\<close>

definition suppress_usages :: "u8 \<Rightarrow> bytes \<Rightarrow> bytes" where
  "suppress_usages trig = map (\<lambda>k. if is_mod_usage k \<and> trig AND usage_mod_bit k \<noteq> 0 then 0 else k)"

text \<open>Step 6: caps word and repeat key see every reported key.\<close>

definition caps_and_repeat :: "u8 \<Rightarrow> 'a key_proc_scheme \<times> u8 \<Rightarrow> 'a key_proc_scheme \<times> u8" where
  "caps_and_repeat k = (\<lambda>(s, mods).
     if k \<noteq> 0 then let (s1, mods1) = caps_word_process k mods s in (repeat_key_record k s1, mods1)
     else (s, mods))"

text \<open>Steps 8 and 9 empty a queue into the free slots: \<open>take_next\<close> gives the next key, 0 when
  it has no more. Each queue holds at most \<open>n\<close> keys.\<close>

fun drain_queue :: "nat \<Rightarrow> ('s \<Rightarrow> 's \<times> u8) \<Rightarrow> (u8 \<Rightarrow> 's \<Rightarrow> 's) \<Rightarrow> 's \<Rightarrow> 's" where
  "drain_queue 0 take_next put s = s"
| "drain_queue (Suc n) take_next put s =
     (let (s1, k) = take_next s in if k = 0 then s1 else drain_queue n take_next put (put k s1))"

definition inject_tap :: "u8 \<Rightarrow> 'a key_proc_scheme \<Rightarrow> 'a key_proc_scheme" where
  "inject_tap k s = (case find_index (\<lambda>x. x = 0) (keycodes s) of
     None \<Rightarrow> s
   | Some i \<Rightarrow> s \<lparr>keycodes := (keycodes s)[i := k],
       tap_injected_slots := tap_injected_slots s OR push_bit i 1\<rparr>)"

definition inject_key :: "u8 \<Rightarrow> 'a key_proc_scheme \<Rightarrow> 'a key_proc_scheme" where
  "inject_key k s = s \<lparr>keycodes := put_free k (keycodes s)\<rparr>"

definition take_combo :: "'a combo_scheme \<Rightarrow> 'a combo_scheme \<times> u8" where
  "take_combo s = (let (s1, k, _) = combo_consume s in (s1, k))"

text \<open>The one-shot layer is given up after a key press, the momentary layer when its key is no
  longer held.\<close>

definition momentary_release :: "'a key_proc_scheme \<Rightarrow> 'a key_proc_scheme" where
  "momentary_release s =
     (if current_layout s \<noteq> last_layer s \<and> layer_changer s \<notin> set (current_press s)
      then layer_changed (s \<lparr>current_layout := last_layer s, lm_active_mods := 0\<rparr>)
             \<lparr>layer_changer := no_pos\<rparr>
      else s)"

text \<open>A queue of \<open>take_next\<close> gave a key that found a slot.\<close>

definition filled :: "'a key_proc_scheme \<Rightarrow> 'a key_proc_scheme \<Rightarrow> bool" where
  "filled s s' \<longleftrightarrow> keycodes s' \<noteq> keycodes s"

text \<open>Steps 1 and 2.\<close>

definition build_layers :: "'a key_proc_scheme \<Rightarrow> 'a key_proc_scheme" where
  "build_layers s =
     (let s1 = detect_releases (s \<lparr>tap_injected_slots := 0, macro_hold_mods := 0\<rparr>)
      in fold (momentary_slot (current_layout s1)) [0..<6] s1)"

text \<open>Steps 3 and 4.\<close>

definition build_keys :: "int \<Rightarrow> 'a key_proc_scheme \<Rightarrow> 'a key_proc_scheme \<times> slot_acc" where
  "build_keys now s =
     (let active_layer = cycle_layer s;
          mods = tap_hold_get_active_mods s OR physical_mods_of active_layer s
      in fold (process_slot now active_layer mods) [0..<6]
           (s, \<lparr>acc_normal = False, acc_add = 0, acc_suppress = 0\<rparr>))"

text \<open>The end of step 4, steps 5 to 7; \<open>th_mods\<close> is the held modifiers of step 3.\<close>

definition build_mods :: "u8 \<Rightarrow> 'a key_proc_scheme \<times> slot_acc \<Rightarrow> 'a key_proc_scheme" where
  "build_mods th_mods = (\<lambda>(s, acc).
     (let s1 = (if acc_normal acc then wpm_record_keypress (tap_hold_interrupt s) else s);
          th_mods1 = (if acc_normal acc then tap_hold_get_active_mods s1 else th_mods);
          s2 = (if acc_suppress acc \<noteq> 0
                then s1 \<lparr>keycodes := suppress_usages (acc_suppress acc) (keycodes s1)\<rparr> else s1);
          (s3, osm_mods) = (if acc_normal acc then osm_consume s2 else (s2, 0));
          extra = th_mods1 OR osm_mods OR lm_active_mods s3 OR macro_hold_mods s3;
          extra1 = (extra AND NOT (acc_suppress acc)) OR acc_add acc;
          (s4, extra2) = fold caps_and_repeat (keycodes s3) (s3, extra1)
      in s4 \<lparr>report_mods := extra2\<rparr>))"

text \<open>Steps 8 and 9.\<close>

definition inject_queues :: "int \<Rightarrow> 'a key_proc_scheme \<Rightarrow> 'a key_proc_scheme" where
  "inject_queues now s =
     (let s1 = drain_queue (TAP_HOLD_MAX_PENDING + 1) tap_hold_consume_tap inject_tap s;
          s2 = combo_process now (current_press s1) s1;
          s3 = drain_queue (COMBO_MAX_SLOTS + 1) take_combo inject_key s2
      in drain_queue (MAX_DEFERRED + 1) combo_consume_expired inject_key s3)"

text \<open>The whole cycle. A normal press, or a key injected from a queue, uses up the one-shot
  layer of the cycle.\<close>

definition build_keycode_report :: "int \<Rightarrow> 'a key_proc_scheme \<Rightarrow> 'a key_proc_scheme" where
  "build_keycode_report now s =
     (let s1 = build_layers s;
          (s2, acc) = build_keys now s1;
          s3 = build_mods (tap_hold_get_active_mods s1) (s2, acc);
          s4 = inject_queues now s3;
          s5 = (if osl_get_layer s1 \<ge> 0 \<and> (acc_normal acc \<or> filled s3 s4)
                then osl_consume s4 else s4);
          s6 = momentary_release s5
      in s6 \<lparr>prev_press := current_press s6\<rparr>)"

section \<open>The other operations\<close>

definition process_matrix_changes :: "bool \<Rightarrow> 'a key_proc_scheme \<Rightarrow> 'a key_proc_scheme" where
  "process_matrix_changes bt_up s =
     (if keypress_internal_function s = 0 then s
      else case find_index (\<lambda>k. k = keypress_internal_function s) (extra_keycodes s) of
        Some i \<Rightarrow> s \<lparr>extra_keycodes := (extra_keycodes s)[i := 0]\<rparr>
      | None \<Rightarrow> (apply_toggle_layer (keypress_internal_function s) (dispatch_internal_function bt_up s))
          \<lparr>keypress_internal_function := 0\<rparr>)"

definition key_processor_has_tap :: "'a key_proc_scheme \<Rightarrow> bool" where
  "key_processor_has_tap s \<longleftrightarrow> tap_injected_slots s \<noteq> 0"

definition key_processor_clear_taps :: "'a key_proc_scheme \<Rightarrow> 'a key_proc_scheme" where
  "key_processor_clear_taps s =
     s \<lparr>keycodes := map (\<lambda>i. if bit (tap_injected_slots s) i then 0 else keycodes s ! i) [0..<6],
        tap_injected_slots := 0\<rparr>"


end
