(* ===== verification/Key_Safety.thy ===== *)
theory Key_Safety
  imports Key_Processor
begin

unbundle bit_operations_syntax

text \<open>
  What the scan cycle keeps: the layers it reads the keymap from exist, its loops end, and the
  confirmation key authorises once for a press. The first part says which fields the engines
  leave alone.
\<close>

section \<open>Frames\<close>

text \<open>The engines below the key processor never touch its own inputs and outputs.\<close>

definition kept :: "'a key_proc_scheme \<Rightarrow> 'a key_proc_scheme \<Rightarrow> bool" where
  "kept s s' \<longleftrightarrow> kp_out s' = kp_out s \<and> current_press s' = current_press s \<and>
     prev_press s' = prev_press s \<and> kp_keymaps s' = kp_keymaps s \<and> kp_macros s' = kp_macros s \<and>
     layer_changer s' = layer_changer s \<and> key_proc.more s' = key_proc.more s"

lemma kept_refl [simp, intro]: "kept s s" by (simp add: kept_def)

lemma kept_trans: "kept s s' \<Longrightarrow> kept s' s'' \<Longrightarrow> kept s s''" by (simp add: kept_def)

lemma kept_fold: "(\<And>x s. kept s (f x s)) \<Longrightarrow> kept s (fold f xs s)"
  by (induction xs arbitrary: s) (auto intro: kept_trans)

lemma kept_th_upd [simp]: "kept s0 (th_upd i f s) = kept s0 s"
  by (simp add: kept_def th_upd_def)

lemma kept_recompute [simp]: "kept s0 (recompute_lt_layer s) = kept s0 s"
  by (simp add: kept_def recompute_lt_layer_def layer_changed_def Let_def split: option.splits)

lemma kept_activate [simp]: "kept s0 (activate_hold i s) = kept s0 s"
proof -
  have [simp]: "kept s0 (s \<lparr>active_hold_mods := x\<rparr>) = kept s0 s"
    "kept s0 (s \<lparr>th_layer_base := y\<rparr>) = kept s0 s" "kept s0 (s \<lparr>th_seq := z\<rparr>) = kept s0 s"
    for s0 s :: "'a key_proc_scheme" and x y z by (simp_all add: kept_def)
  show ?thesis by (simp add: activate_hold_def Let_def)
qed

lemma kept_deactivate [simp]: "kept s0 (deactivate_hold i s) = kept s0 s"
proof -
  have [simp]: "kept s0 (s \<lparr>active_hold_mods := x\<rparr>) = kept s0 s"
    for s0 s :: "'a key_proc_scheme" and x by (simp add: kept_def)
  show ?thesis by (simp add: deactivate_hold_def Let_def)
qed

lemma kept_th_press [simp]: "kept s0 (fst (tap_hold_on_press t kc r c s)) = kept s0 s"
  by (simp add: tap_hold_on_press_def split: option.splits)

lemma kept_th_release [simp]: "kept s0 (fst (tap_hold_on_release r c s)) = kept s0 s"
  by (simp add: tap_hold_on_release_def split: option.splits)

lemma kept_interrupt: "kept s (tap_hold_interrupt s)"
  unfolding tap_hold_interrupt_def by (rule kept_fold) (simp add: interrupt_slot_def)

lemma kept_resolve [simp]: "kept s0 (resolve_dance a s) = kept s0 s"
  by (simp add: kept_def resolve_dance_def Let_def)

lemma kept_td [simp]: "kept s0 (s \<lparr>td_active := a\<rparr>) = kept s0 s"
  by (simp add: kept_def)

lemma kept_td_press [simp]: "kept s0 (fst (tap_dance_on_press t i r c s)) = kept s0 s"
proof -
  have [simp]: "kept s0 (s \<lparr>td_active := a, td_resolved_keycode := k, td_resolved_flag := b\<rparr>) =
    kept s0 s" for a k b by (simp add: kept_def)
  show ?thesis by (simp add: tap_dance_on_press_def Let_def)
qed

lemma kept_td_release [simp]: "kept s0 (tap_dance_on_release r c s) = kept s0 s"
  by (simp add: tap_dance_on_release_def Let_def)

lemma kept_leader [simp]: "kept s0 (fst (leader_feed t k s)) = kept s0 s"
  by (simp add: kept_def leader_feed_def try_match_def leader_cancel_def split: option.splits)

lemma kept_small [simp]:
  "kept s0 (osl_arm l s) = kept s0 s" "kept s0 (caps_word_toggle s) = kept s0 s"
  "kept s0 (layer_lock_toggle s) = kept s0 s" "kept s0 (leader_start t s) = kept s0 s"
  "kept s0 (osl_consume s) = kept s0 s" "kept s0 (fst (osm_consume s)) = kept s0 s"
  "kept s0 (wpm_record_keypress s) = kept s0 s" "kept s0 (repeat_key_record k s) = kept s0 s"
  "kept s0 (fst (caps_word_process k m s)) = kept s0 s"
  "kept s0 (detect_internal_function kc s) = kept s0 s"
  "kept s0 (set_key i k s) = kept s0 s" "kept s0 (set_extra i kc s) = kept s0 s"
  "kept s0 (inject_tap k s) = kept s0 s" "kept s0 (inject_key k s) = kept s0 s"
  by (simp_all add: kept_def osl_arm_def caps_word_toggle_def layer_lock_toggle_def layer_changed_def
      leader_start_def osl_consume_def osm_consume_def wpm_record_keypress_def repeat_key_record_def
      caps_word_process_def detect_internal_function_def set_key_def set_extra_def inject_tap_def
      inject_key_def split: option.splits)

lemma kept_macro [simp]: "kept s0 (expand_macro kc new s) = kept s0 s"
  by (simp add: kept_def expand_macro_def Let_def)

lemma kept_defer [simp]: "kept s0 (combo_defer_key now r c k s) = kept s0 s"
  by (simp add: kept_def combo_defer_key_def split: option.splits)

lemma kept_undefer [simp]: "kept s0 (undefer d s) = kept s0 s"
  by (simp add: kept_def undefer_def split: option.splits)

lemma kept_queues [simp]:
  "kept s0 (s \<lparr>combo_active := ca\<rparr>) = kept s0 s"
  "kept s0 (s \<lparr>resolved_queue := rq\<rparr>) = kept s0 s"
  "kept s0 (s \<lparr>expired_queue := eq\<rparr>) = kept s0 s"
  "kept s0 (s \<lparr>resolved_queue := rq, expired_queue := eq\<rparr>) = kept s0 s"
  by (simp_all add: kept_def)

lemma kept_combo: "kept s (combo_process now press s)"
proof -
  have slot: "kept s (combo_slot press i s)" for i and s :: "'a key_proc_scheme"
    by (simp add: combo_slot_def Let_def)
  have expire: "kept s (expire_slot now press i s)" for i and s :: "'a key_proc_scheme"
    by (simp add: expire_slot_def Let_def)
  let ?s = "s \<lparr>resolved_queue := [], expired_queue := []\<rparr>"
  have "kept s ?s" by (simp add: kept_def)
  then show ?thesis
    unfolding combo_process_def
    by (intro kept_trans [OF _ kept_trans [OF kept_fold [OF slot] kept_fold [OF expire]]])
qed

lemma kept_consume_from: "kept s (fst (consume_tap_from is s))"
proof (induction "is" arbitrary: s)
  case (Cons i "is")
  have osm: "kept s0 (osm_arm m s) = kept s0 s" for s0 s :: "'a key_proc_scheme" and m
    by (simp add: kept_def osm_arm_def)
  show ?case
    by (auto simp: Let_def osm intro: Cons.IH kept_trans [OF _ Cons.IH])
qed simp

lemma kept_takes:
  "kept s (fst (tap_hold_consume_tap s))" "kept s (fst (take_combo s))"
  "kept s (fst (combo_consume_expired s))"
  by (simp_all add: tap_hold_consume_tap_def kept_consume_from take_combo_def combo_consume_def
      combo_consume_expired_def case_prod_beta Let_def)

lemma kept_drain:
  assumes "\<And>s. kept s (fst (take_next s))" and "\<And>k s. kept s (put k s)"
  shows "kept s (drain_queue n take_next put s)"
proof (induction n arbitrary: s)
  case (Suc n)
  obtain s1 k where t: "take_next s = (s1, k)" by (cases "take_next s")
  have s1: "kept s s1" using assms(1) [of s] by (simp add: t)
  then show ?case
    using kept_trans [OF kept_trans [OF s1 assms(2) [of s1 k]] Suc.IH [of "put k s1"]]
    by (simp add: t)
qed simp

lemma kept_inject: "kept s (inject_queues now s)"
proof -
  let ?s1 = "drain_queue (TAP_HOLD_MAX_PENDING + 1) tap_hold_consume_tap inject_tap s"
  let ?s2 = "combo_process now (current_press ?s1) ?s1"
  let ?s3 = "drain_queue (COMBO_MAX_SLOTS + 1) take_combo inject_key ?s2"
  let ?s4 = "drain_queue (MAX_DEFERRED + 1) combo_consume_expired inject_key ?s3"
  have "kept s ?s1" by (rule kept_drain) (simp_all add: kept_takes)
  moreover have "kept ?s1 ?s2" by (rule kept_combo)
  moreover have "kept ?s2 ?s3" by (rule kept_drain) (simp_all add: kept_takes)
  moreover have "kept ?s3 ?s4" by (rule kept_drain) (simp_all add: kept_takes)
  ultimately have "kept s ?s4" by (rule kept_trans [OF kept_trans [OF kept_trans]])
  then show ?thesis by (simp only: inject_queues_def Let_def)
qed

section \<open>One authorisation per press\<close>

definition auths :: "'a key_proc_scheme \<Rightarrow> nat" where
  "auths s = count_list (kp_out s) SecAuthorize"

lemma kept_auths: "kept s s' \<Longrightarrow> auths s' = auths s" by (simp add: kept_def auths_def)

text \<open>The key of slot \<open>i\<close> went down in this cycle and asks for a confirmation.\<close>

definition confirm_edge :: "u8 \<Rightarrow> nat \<Rightarrow> 'a key_proc_scheme \<Rightarrow> bool" where
  "confirm_edge layer i s \<longleftrightarrow>
     (let pos = current_press s ! i
      in snd pos \<noteq> INVALID_KEY_POS \<and> is_new_press pos s \<and> keymap_at s layer pos = K_SEC_CONFIRM)"

text \<open>Two states with the same inputs, the second with at most \<open>n\<close> more authorisations.\<close>

definition inputs_kept :: "'a key_proc_scheme \<Rightarrow> 'a key_proc_scheme \<Rightarrow> bool" where
  "inputs_kept s s' \<longleftrightarrow> current_press s' = current_press s \<and> prev_press s' = prev_press s \<and>
     kp_keymaps s' = kp_keymaps s \<and> key_proc.more s' = key_proc.more s"

lemma kept_inputs: "kept s s' \<Longrightarrow> inputs_kept s s'" by (simp add: kept_def inputs_kept_def)

lemma inputs_edge: "inputs_kept s s' \<Longrightarrow> confirm_edge layer i s' = confirm_edge layer i s"
  by (simp add: inputs_kept_def confirm_edge_def is_new_press_def keymap_at_def Let_def)

lemma inputs_trans: "inputs_kept s s' \<Longrightarrow> inputs_kept s' s'' \<Longrightarrow> inputs_kept s s''"
  by (simp add: inputs_kept_def)

lemma kp_emit_kept:
  "inputs_kept s (kp_emit cs s)" "auths (kp_emit cs s) = auths s + count_list cs SecAuthorize"
  by (simp_all add: kp_emit_def inputs_kept_def auths_def count_list_append)

lemma advanced_effect:
  assumes "process_advanced_key now kc pos s = (s', hid)"
  shows "inputs_kept s s' \<and>
    auths s' \<le> auths s + (if kc = K_SEC_CONFIRM \<and> is_new_press pos s then 1 else 0)"
proof (cases "kc = K_SEC_CONFIRM \<or> kc = K_DISP_NEXT")
  case False
  have "kept s s'"
    using assms False
    by (auto simp: process_advanced_key_def split: if_splits)
  then show ?thesis by (simp add: kept_inputs kept_auths)
next
  case True
  then have "s' = s \<or> kept s s' \<or> is_new_press pos s \<and>
      (s' = kp_emit [SecAuthorize] s \<and> kc = K_SEC_CONFIRM \<or> s' = kp_emit [DisplayNext] s)"
    using assms by (auto simp: process_advanced_key_def split: if_splits)
  then show ?thesis
    by (auto simp: kept_inputs kept_auths kp_emit_kept)
qed

lemma kept_normal_key: "kept s (fst (normal_key now mods i kc pos (s, acc)))"
  by (simp add: normal_key_def Let_def case_prod_beta)

lemma slot_effect:
  assumes "process_slot now layer mods i (s, acc) = (s', acc')"
  shows "inputs_kept s s' \<and> auths s' \<le> auths s + (if confirm_edge layer i s then 1 else 0)"
proof -
  define pos where "pos = current_press s ! i"
  define kc where "kc = keymap_at s layer pos"
  show ?thesis
  proof (cases "snd pos \<noteq> INVALID_KEY_POS \<and> \<not> snd (tap_hold_get_resolved (fst pos) (snd pos) s) \<and>
      is_advanced_keycode kc")
    case True
    obtain s1 hid where adv: "process_advanced_key now kc pos s = (s1, hid)"
      by (cases "process_advanced_key now kc pos s")
    have "kept s1 s'"
      using assms True adv
      by (auto simp: process_slot_def pos_def [symmetric] kc_def [symmetric] Let_def split: if_splits)
    moreover have "confirm_edge layer i s = (kc = K_SEC_CONFIRM \<and> is_new_press pos s)"
      using True by (auto simp: confirm_edge_def pos_def kc_def Let_def)
    ultimately show ?thesis
      using advanced_effect [OF adv] inputs_trans [of s s1 s'] kept_inputs [of s1 s'] kept_auths [of s1 s']
      by simp
  next
    case False
    let ?s1 = "expand_macro kc (is_new_press pos s) (detect_internal_function kc s)"
    have "kept s ?s1" by simp
    moreover have "kept ?s1 (fst (normal_key now mods i k pos (?s1, acc)))" for k
      by (rule kept_normal_key)
    ultimately have normal: "kept s t"
      if "normal_key now mods i k pos (?s1, acc) = (t, acc')" for k t
      using that kept_trans by (metis fst_conv)
    have macro: "kept s t" if "expand_macro k b (detect_internal_function k s) = t" for k b t
      using that by auto
    have "kept s s'"
      using assms False
      by (auto simp: process_slot_def pos_def [symmetric] kc_def [symmetric] Let_def
          intro: normal macro split: if_splits)
    then show ?thesis by (simp add: kept_inputs kept_auths)
  qed
qed


text \<open>The presses of the cycle that may authorise.\<close>

definition confirm_edges :: "u8 \<Rightarrow> 'a key_proc_scheme \<Rightarrow> nat" where
  "confirm_edges layer s = length (filter (\<lambda>i. confirm_edge layer i s) [0..<6])"

lemma slots_effect:
  assumes "fold (process_slot now layer mods) is (s, acc) = (s', acc')"
  shows "inputs_kept s s' \<and> auths s' \<le> auths s + length (filter (\<lambda>i. confirm_edge layer i s) is)"
  using assms
proof (induction "is" arbitrary: s acc)
  case Nil
  then show ?case by (simp add: inputs_kept_def)
next
  case (Cons i "is")
  obtain s1 acc1 where step: "process_slot now layer mods i (s, acc) = (s1, acc1)"
    by (cases "process_slot now layer mods i (s, acc)")
  have rest: "inputs_kept s1 s' \<and>
      auths s' \<le> auths s1 + length (filter (\<lambda>i. confirm_edge layer i s1) is)"
    using Cons.prems step by (intro Cons.IH) simp
  have first: "inputs_kept s s1 \<and> auths s1 \<le> auths s + (if confirm_edge layer i s then 1 else 0)"
    by (rule slot_effect [OF step])
  have "confirm_edge layer j s1 = confirm_edge layer j s" for j
    using first inputs_edge by blast
  then show ?case
    using rest first inputs_trans [of s s1 s'] by (auto split: if_splits)
qed

lemma kept_layers: "inputs_kept s (build_layers s) \<and> auths (build_layers s) = auths s"
proof -
  let ?s0 = "s \<lparr>tap_injected_slots := 0, macro_hold_mods := 0\<rparr>"
  have out: "kp_out (momentary_slot b i s) = kp_out s \<and> inputs_kept s (momentary_slot b i s)"
    for b i and s :: "'a key_proc_scheme"
    by (simp add: momentary_slot_def apply_momentary_layer_def layer_changed_def Let_def
        inputs_kept_def split: prod.splits)
  have slots: "inputs_kept s (fold (momentary_slot b) is s) \<and>
      auths (fold (momentary_slot b) is s) = auths s" for b "is" and s :: "'a key_proc_scheme"
  proof (induction "is" arbitrary: s)
    case (Cons i "is")
    then show ?case
      using out [of b i s] inputs_trans [of s "momentary_slot b i s"] by (simp add: auths_def)
  qed (simp add: inputs_kept_def)
  have zero: "kept s ?s0" by (simp add: kept_def)
  have "kept s (release_pos pos s)" for pos and s :: "'a key_proc_scheme"
    by (simp add: release_pos_def)
  then have "kept s (detect_releases ?s0)"
    unfolding detect_releases_def by (intro kept_trans [OF zero] kept_fold)
  then show ?thesis
    using slots [where s = "detect_releases ?s0" and b = "current_layout (detect_releases ?s0)"]
      kept_inputs [of s "detect_releases ?s0"] kept_auths [of s "detect_releases ?s0"]
      inputs_trans
    by (simp add: build_layers_def Let_def) blast
qed

lemma kept_caps: "kept s (fst (fold caps_and_repeat kcs (s, m)))"
proof (induction kcs arbitrary: s m)
  case (Cons k kcs)
  obtain s1 m1 where step: "caps_and_repeat k (s, m) = (s1, m1)"
    by (cases "caps_and_repeat k (s, m)")
  have "kept s s1"
    using step by (auto simp: caps_and_repeat_def case_prod_beta Let_def split: if_splits)
  then show ?case
    using step Cons.IH kept_trans by fastforce
qed simp

lemma kept_mods: "kept s (build_mods m (s, acc))"
proof -
  have [simp]: "kept s0 (s \<lparr>keycodes := k\<rparr>) = kept s0 s" "kept s0 (s \<lparr>report_mods := r\<rparr>) = kept s0 s"
    for s0 s :: "'a key_proc_scheme" and k r by (simp_all add: kept_def)
  have caps: "kept s0 (fst (fold caps_and_repeat kcs (s, m)))" if "kept s0 s"
    for s0 s :: "'a key_proc_scheme" and kcs m
    using that kept_caps kept_trans by blast
  show ?thesis
    by (auto simp: build_mods_def Let_def case_prod_beta intro!: caps kept_interrupt)
qed

lemma kept_end: "inputs_kept s (momentary_release s) \<and> auths (momentary_release s) = auths s"
  by (simp add: momentary_release_def layer_changed_def inputs_kept_def auths_def)


lemma scan_effect:
  "current_press (build_keycode_report now s) = current_press s \<and>
   prev_press (build_keycode_report now s) = current_press s \<and>
   kp_keymaps (build_keycode_report now s) = kp_keymaps s \<and>
   key_proc.more (build_keycode_report now s) = key_proc.more s \<and>
   auths (build_keycode_report now s) \<le> auths s + confirm_edges (cycle_layer (build_layers s)) s"
proof -
  define s1 where "s1 = build_layers s"
  obtain s2 acc where s2: "build_keys now s1 = (s2, acc)" by (cases "build_keys now s1")
  define s3 where "s3 = build_mods (tap_hold_get_active_mods s1) (s2, acc)"
  define s4 where "s4 = inject_queues now s3"
  define s5 where "s5 = (if osl_get_layer s1 \<ge> 0 \<and> (acc_normal acc \<or> filled s3 s4)
                then osl_consume s4 else s4)"
  have i1: "inputs_kept s s1" "auths s1 = auths s" using kept_layers [of s] by (simp_all add: s1_def)
  have "inputs_kept s1 s2 \<and> auths s2 \<le> auths s1 + confirm_edges (cycle_layer s1) s1"
    using s2 slots_effect unfolding build_keys_def confirm_edges_def Let_def by blast
  moreover have "confirm_edges (cycle_layer s1) s1 = confirm_edges (cycle_layer s1) s"
    using inputs_edge [OF i1(1)] by (simp add: confirm_edges_def)
  ultimately have i2: "inputs_kept s1 s2" "auths s2 \<le> auths s + confirm_edges (cycle_layer s1) s"
    using i1 by auto
  have i3: "kept s2 s3" unfolding s3_def by (rule kept_mods)
  have i4: "kept s3 s4" unfolding s4_def by (rule kept_inject)
  have i5: "kept s4 s5" by (simp add: s5_def)
  note i6 = kept_end [of s5]
  have "inputs_kept s (momentary_release s5)"
    using i1(1) i2(1) i3 i4 i5 i6 by (simp add: inputs_kept_def kept_def)
  moreover have "auths (momentary_release s5) \<le> auths s + confirm_edges (cycle_layer s1) s"
    using i2(2) kept_auths [OF i3] kept_auths [OF i4] kept_auths [OF i5] i6 by simp
  moreover have "build_keycode_report now s =
      (momentary_release s5) \<lparr>prev_press := current_press (momentary_release s5)\<rparr>"
    using s2 by (auto simp: build_keycode_report_def Let_def s1_def s3_def s4_def s5_def)
  ultimately show ?thesis
    by (simp add: inputs_kept_def auths_def s1_def)
qed

text \<open>What the matrix callback reports: at most six positions, the free places marked.\<close>

definition fill_press :: "key_pos list \<Rightarrow> key_pos list" where
  "fill_press keys = take 6 (keys @ replicate 6 no_pos)"

fun scans :: "(int \<times> key_pos list) list \<Rightarrow> 'a key_proc_scheme \<Rightarrow> 'a key_proc_scheme" where
  "scans [] s = s"
| "scans ((now, keys) # es) s =
     scans es (build_keycode_report now (s \<lparr>current_press := fill_press keys\<rparr>))"

text \<open>How often a key that means confirmation on some layer goes down.\<close>

fun confirm_presses ::
  "u16 list list list \<Rightarrow> key_pos list \<Rightarrow> (int \<times> key_pos list) list \<Rightarrow> nat" where
  "confirm_presses km prev [] = 0"
| "confirm_presses km prev ((now, keys) # es) =
     length (filter (\<lambda>pos. pos \<notin> set prev \<and>
       (\<exists>layer :: u8. km ! unat layer ! unat (fst pos) ! unat (snd pos) = K_SEC_CONFIRM))
       (fill_press keys)) + confirm_presses km (fill_press keys) es"

lemma filter_index: "length (filter (\<lambda>i. P (xs ! i)) [0..<length xs]) = length (filter P xs)"
proof -
  have "filter P xs = filter P (map ((!) xs) [0..<length xs])" by (simp add: map_nth)
  then show ?thesis by (simp add: filter_map o_def)
qed

lemma filter_length_le:
  "(\<And>x. P x \<Longrightarrow> Q x) \<Longrightarrow> length (filter P xs) \<le> length (filter Q xs)"
  by (induction xs) (auto simp: le_SucI)

lemma confirm_edges_le:
  assumes "length (current_press s) = 6"
  shows "confirm_edges layer s \<le> length (filter (\<lambda>pos. pos \<notin> set (prev_press s) \<and>
    (\<exists>layer :: u8. kp_keymaps s ! unat layer ! unat (fst pos) ! unat (snd pos) = K_SEC_CONFIRM))
    (current_press s))" (is "_ \<le> length (filter ?P _)")
proof -
  have "confirm_edges layer s \<le> length (filter (\<lambda>i. ?P (current_press s ! i)) [0..<6])"
    unfolding confirm_edges_def
    by (rule filter_length_le) (auto simp: confirm_edge_def is_new_press_def keymap_at_def Let_def)
  then show ?thesis using filter_index [of ?P "current_press s"] assms by simp
qed


text \<open>
  C5: However the keys go down and up, and however often the report is rebuilt meanwhile, the
  security key is told to go ahead at most once for each press of a confirmation key: a key
  that stays down from one cycle to the next authorises nothing more.\<close>

theorem confirm_once_per_press:
  "auths (scans es s) \<le> auths s + confirm_presses (kp_keymaps s) (prev_press s) es"
proof (induction es arbitrary: s)
  case Nil
  then show ?case by simp
next
  case (Cons e es)
  obtain now keys where e: "e = (now, keys)" by (cases e)
  let ?s0 = "s \<lparr>current_press := fill_press keys\<rparr>"
  let ?s1 = "build_keycode_report now ?s0"
  have six: "length (fill_press keys) = 6" by (simp add: fill_press_def)
  have "auths (scans es ?s1) \<le> auths ?s1 + confirm_presses (kp_keymaps s) (fill_press keys) es"
    using Cons.IH [of ?s1] scan_effect [of now ?s0] by simp
  moreover have "auths ?s1 \<le> auths s + confirm_edges (cycle_layer (build_layers ?s0)) ?s0"
    using scan_effect [of now ?s0] by (simp add: auths_def)
  ultimately show ?case
    using confirm_edges_le [of ?s0 "cycle_layer (build_layers ?s0)"] six
    by (simp add: e)
qed


end
