(* ===== verification/Key_Layers.thy ===== *)
theory Key_Layers
  imports Key_Safety
begin

unbundle bit_operations_syntax

text \<open>
  Which layer the keymap is read from: the operations that move the layers, the ones that leave
  them alone, and the two consequences, that every layer the scan cycle reads exists, and that
  two momentary layers held one after the other leave the keyboard on the first for good.
\<close>

section \<open>Operations that leave the layers alone\<close>

definition lay :: "'a key_proc_scheme \<Rightarrow> u8 \<times> u8 \<times> int \<times> int \<times> int" where
  "lay s = (current_layout s, last_layer s, active_hold_layer s, th_layer_base s,
     osl_pending_layer s)"

lemma lay_th_upd [simp]: "lay (th_upd i f s) = lay s"
  by (simp add: lay_def th_upd_def)

lemma lay_th_press [simp]: "lay (fst (tap_hold_on_press t kc r c s)) = lay s"
  by (simp add: tap_hold_on_press_def split: option.splits)

lemma lay_td_press [simp]: "lay (fst (tap_dance_on_press t i r c s)) = lay s"
  by (simp add: lay_def tap_dance_on_press_def resolve_dance_def Let_def)

lemma lay_td_release [simp]: "lay (tap_dance_on_release r c s) = lay s"
  by (simp add: lay_def tap_dance_on_release_def resolve_dance_def Let_def)

lemma lay_leader [simp]: "lay (fst (leader_feed t k s)) = lay s"
  by (simp add: lay_def leader_feed_def try_match_def leader_cancel_def split: option.splits)

lemma lay_small [simp]:
  "lay (caps_word_toggle s) = lay s" "lay (leader_start t s) = lay s"
  "lay (fst (osm_consume s)) = lay s" "lay (wpm_record_keypress s) = lay s"
  "lay (repeat_key_record k s) = lay s" "lay (fst (caps_word_process k m s)) = lay s"
  "lay (detect_internal_function kc s) = lay s" "lay (set_key i k s) = lay s"
  "lay (set_extra i kc s) = lay s" "lay (inject_tap k s) = lay s" "lay (inject_key k s) = lay s"
  "lay (kp_emit cs s) = lay s" "lay (expand_macro kc new s) = lay s"
  "lay (combo_defer_key now r c k s) = lay s" "lay (undefer d s) = lay s"
  "lay (s \<lparr>keycodes := ks\<rparr>) = lay s" "lay (s \<lparr>report_mods := m\<rparr>) = lay s"
  "lay (s \<lparr>tap_injected_slots := ti, macro_hold_mods := mh\<rparr>) = lay s"
  by (simp_all add: lay_def caps_word_toggle_def leader_start_def osm_consume_def
      wpm_record_keypress_def repeat_key_record_def caps_word_process_def expand_macro_def Let_def
      detect_internal_function_def set_key_def set_extra_def inject_tap_def inject_key_def
      kp_emit_def combo_defer_key_def undefer_def split: option.splits)

lemma lay_normal_key [simp]: "lay (fst (normal_key now mods i kc pos (s, acc))) = lay s"
  by (simp add: normal_key_def Let_def case_prod_beta)

lemma fold_keeps: "(\<And>x s. F (f x s) = F s) \<Longrightarrow> F (fold f xs s) = F s"
  by (induction xs arbitrary: s) simp_all

lemma lay_combo [simp]: "lay (combo_process now press s) = lay s"
proof -
  have [simp]: "lay (s \<lparr>combo_active := ca\<rparr>) = lay s" "lay (s \<lparr>resolved_queue := rq\<rparr>) = lay s"
    "lay (s \<lparr>expired_queue := eq\<rparr>) = lay s"
    "lay (s \<lparr>resolved_queue := rq, expired_queue := eq\<rparr>) = lay s"
    for s :: "'a key_proc_scheme" and ca rq eq by (simp_all add: lay_def)
  have "lay (combo_slot press i s) = lay s" for i and s :: "'a key_proc_scheme"
    by (simp add: combo_slot_def Let_def)
  moreover have "lay (expire_slot now press i s) = lay s" for i and s :: "'a key_proc_scheme"
    by (simp add: expire_slot_def Let_def)
  ultimately show ?thesis
    by (simp add: combo_process_def fold_keeps [where F = lay])
qed

lemma lay_consume_from [simp]: "lay (fst (consume_tap_from is s)) = lay s"
proof (induction "is" arbitrary: s)
  case (Cons i "is")
  have "lay (osm_arm m s) = lay s" for s :: "'a key_proc_scheme" and m
    by (simp add: lay_def osm_arm_def)
  then show ?case by (simp add: Let_def Cons.IH)
qed simp

lemma lay_takes [simp]:
  "lay (fst (tap_hold_consume_tap s)) = lay s" "lay (fst (take_combo s)) = lay s"
  "lay (fst (combo_consume_expired s)) = lay s"
  by (simp_all add: tap_hold_consume_tap_def take_combo_def combo_consume_def
      combo_consume_expired_def case_prod_beta Let_def) (simp_all add: lay_def)

lemma drain_keeps:
  assumes "\<And>s. F (fst (take_next s)) = F s" and "\<And>k s. F (put k s) = F s"
  shows "F (drain_queue n take_next put s) = F s"
proof (induction n arbitrary: s)
  case (Suc n)
  obtain s1 k where t: "take_next s = (s1, k)" by (cases "take_next s")
  show ?case using assms(1) [of s] assms(2) [of k s1] Suc.IH by (simp add: t)
qed simp

lemma lay_inject [simp]: "lay (inject_queues now s) = lay s"
  by (simp add: inject_queues_def Let_def drain_keeps [where F = lay] del: drain_queue.simps)

lemma lay_caps [simp]: "lay (fst (fold caps_and_repeat kcs (s, m))) = lay s"
proof (induction kcs arbitrary: s m)
  case (Cons k kcs)
  obtain s1 m1 where step: "caps_and_repeat k (s, m) = (s1, m1)"
    by (cases "caps_and_repeat k (s, m)")
  have "lay s1 = lay s"
    using step by (auto simp: caps_and_repeat_def case_prod_beta Let_def split: if_splits)
  then show ?case using step Cons.IH by simp
qed simp

section \<open>Every layer that is read exists\<close>

definition layers_ok :: "'a key_proc_scheme \<Rightarrow> bool" where
  "layers_ok s \<longleftrightarrow> unat (current_layout s) < LAYERS \<and> unat (last_layer s) < LAYERS \<and>
     active_hold_layer s < int LAYERS \<and> th_layer_base s < int LAYERS \<and>
     osl_pending_layer s < int LAYERS"

lemma layers_ok_lay: "lay s' = lay s \<Longrightarrow> layers_ok s' = layers_ok s"
  by (simp add: lay_def layers_ok_def)

lemma sint_layer: "unat (l :: u8) < LAYERS \<Longrightarrow> sint l < int LAYERS"
  by (simp only: layer_small(1) of_nat_less_iff)

lemma unat_layer: "0 \<le> i \<Longrightarrow> i < int LAYERS \<Longrightarrow> unat (word_of_int i :: u8) < LAYERS"
  by (simp add: unat_eq_nat_uint uint_word_of_int LAYERS_def nat_less_iff)

lemma cycle_layer_ok: "layers_ok s \<Longrightarrow> unat (cycle_layer s) < LAYERS"
  by (simp add: cycle_layer_def layers_ok_def Let_def tap_hold_get_active_layer_def osl_get_layer_def
      unat_layer)

lemma lt_top_held:
  "lt_top b es = Some e \<Longrightarrow> (\<forall>m. b = Some m \<longrightarrow> is_held_lt m) \<Longrightarrow> is_held_lt e"
  by (induction es arbitrary: b) (auto split: if_splits)

lemma recompute_ok: "layers_ok s \<Longrightarrow> layers_ok (recompute_lt_layer s)"
  using lt_top_held [of None "th_pending s"]
  by (auto simp: recompute_lt_layer_def layers_ok_def layer_changed_def Let_def is_held_lt_def
      sint_layer unat_layer split: option.splits)

lemma activate_ok: "layers_ok s \<Longrightarrow> layers_ok (activate_hold i s)"
proof -
  assume ok: "layers_ok s"
  have [simp]: "layers_ok (th_upd j f s) = layers_ok s" for j f and s :: "'a key_proc_scheme"
    by (rule layers_ok_lay) simp
  have [simp]: "layers_ok (s \<lparr>active_hold_mods := m\<rparr>) = layers_ok s"
    "layers_ok (s \<lparr>th_seq := q\<rparr>) = layers_ok s" for m q and s :: "'a key_proc_scheme"
    by (simp_all add: layers_ok_def)
  have [simp]: "current_layout (th_upd j f s) = current_layout s" for j f
    by (simp add: th_upd_def)
  have base: "layers_ok (s \<lparr>th_layer_base := sint (current_layout s)\<rparr>)"
    if "layers_ok s" for s :: "'a key_proc_scheme"
    using that by (simp add: layers_ok_def sint_layer)
  show ?thesis
    using ok base [of "th_upd i (\<lambda>e. e \<lparr>th_state := TH_HOLD\<rparr>) s"]
    by (simp add: activate_hold_def Let_def recompute_ok)
qed

lemma deactivate_ok: "layers_ok s \<Longrightarrow> layers_ok (deactivate_hold i s)"
proof -
  assume ok: "layers_ok s"
  have [simp]: "layers_ok (th_upd j f s) = layers_ok s" for j f and s :: "'a key_proc_scheme"
    by (rule layers_ok_lay) simp
  have [simp]: "layers_ok (s \<lparr>active_hold_mods := m\<rparr>) = layers_ok s" for m
    by (simp add: layers_ok_def)
  show ?thesis using ok by (simp add: deactivate_hold_def Let_def recompute_ok)
qed

lemma fold_inv: "(\<And>x s. P s \<Longrightarrow> P (f x s)) \<Longrightarrow> P s \<Longrightarrow> P (fold f xs s)"
  by (induction xs arbitrary: s) simp_all


lemma layers_ok_simps:
  "layers_ok s \<Longrightarrow> layers_ok (osl_consume s)" "layers_ok s \<Longrightarrow> layers_ok (osl_arm l s)"
  "layers_ok s \<Longrightarrow> layers_ok (layer_lock_toggle s)"
  "layers_ok s \<Longrightarrow> layers_ok (momentary_release s)"
proof -
  have "(0 :: nat) < LAYERS" "(-1 :: int) < int LAYERS" by (simp_all add: LAYERS_def)
  then show
    "layers_ok s \<Longrightarrow> layers_ok (osl_consume s)" "layers_ok s \<Longrightarrow> layers_ok (osl_arm l s)"
    "layers_ok s \<Longrightarrow> layers_ok (layer_lock_toggle s)"
    "layers_ok s \<Longrightarrow> layers_ok (momentary_release s)"
    by (simp_all add: layers_ok_def osl_consume_def osl_arm_def layer_lock_toggle_def
        layer_changed_def momentary_release_def sint_layer)
qed

lemma release_ok: "layers_ok s \<Longrightarrow> layers_ok (release_pos pos s)"
proof -
  assume ok: "layers_ok s"
  have [simp]: "layers_ok (th_upd j f s) = layers_ok s" for j f and s :: "'a key_proc_scheme"
    by (rule layers_ok_lay) simp
  have [simp]: "layers_ok (tap_dance_on_release r c s) = layers_ok s" for r c and s :: "'a key_proc_scheme"
    by (rule layers_ok_lay) simp
  show ?thesis
    using ok deactivate_ok [OF ok]
    by (simp add: release_pos_def tap_hold_on_release_def split: option.splits)
qed

lemma momentary_ok:
  assumes "layers_ok s" shows "layers_ok (apply_momentary_layer kc i s)"
proof -
  obtain layer mods where "(if kc \<ge> MO_L0 \<and> kc \<le> MO_L9
            then (ucast ((kc - MO_L0) div 256), 0)
            else if K_IS_LM kc then (K_LM_LAYER kc, K_LM_MODS kc)
            else (0xFF :: u8, 0 :: u8)) = (layer, mods)" by (rule prod.exhaust)
  then show ?thesis
    using assms by (simp add: apply_momentary_layer_def Let_def layers_ok_def layer_changed_def)
qed

lemma build_layers_ok:
  assumes "layers_ok s" shows "layers_ok (build_layers s)"
proof -
  have "layers_ok (s \<lparr>tap_injected_slots := 0, macro_hold_mods := 0\<rparr>)"
    using assms layers_ok_lay [of "s \<lparr>tap_injected_slots := 0, macro_hold_mods := 0\<rparr>" s] by simp
  then have "layers_ok (detect_releases (s \<lparr>tap_injected_slots := 0, macro_hold_mods := 0\<rparr>))"
    unfolding detect_releases_def by (rule fold_inv [rotated]) (rule release_ok)
  then show ?thesis
    unfolding build_layers_def Let_def
    by (rule fold_inv [rotated]) (simp add: momentary_slot_def Let_def momentary_ok)
qed

lemma advanced_ok:
  assumes "layers_ok s" and "process_advanced_key now kc pos s = (s', hid)"
  shows "layers_ok s'"
proof -
  have "lay s' = lay s \<or> s' = osl_arm (K_OSL_LAYER kc) s \<or> s' = layer_lock_toggle s"
    using assms(2) by (auto simp: process_advanced_key_def split: if_splits)
  then show ?thesis using assms(1) layers_ok_lay layers_ok_simps by metis
qed

lemma slot_ok:
  assumes ok: "layers_ok s" and step: "process_slot now layer mods i (s, acc) = (s', acc')"
  shows "layers_ok s'"
proof -
  define pos where "pos = current_press s ! i"
  define kc where "kc = keymap_at s layer pos"
  let ?s1 = "expand_macro kc (is_new_press pos s) (detect_internal_function kc s)"
  have eq: "layers_ok t" if "lay t = lay s" for t
    using ok layers_ok_lay [OF that] by simp
  show ?thesis
  proof (cases "snd pos \<noteq> INVALID_KEY_POS \<and> \<not> snd (tap_hold_get_resolved (fst pos) (snd pos) s) \<and>
      is_advanced_keycode kc")
    case True
    obtain s1 hid where adv: "process_advanced_key now kc pos s = (s1, hid)"
      by (cases "process_advanced_key now kc pos s")
    have "lay s' = lay s1"
      using step True adv
      by (auto simp: process_slot_def pos_def [symmetric] kc_def [symmetric] Let_def split: if_splits)
    then show ?thesis using advanced_ok [OF ok adv] layers_ok_lay by blast
  next
    case False
    have normal: "lay t = lay s" if "normal_key now mods i k pos (?s1, acc) = (t, acc')" for k t
      using that lay_normal_key [of now mods i k pos ?s1 acc] by simp
    have macro: "lay t = lay s" if "expand_macro k b (detect_internal_function k s) = t" for k b t
      using that by auto
    have "lay s' = lay s"
      using step False
      by (auto simp: process_slot_def pos_def [symmetric] kc_def [symmetric] Let_def
          intro: normal macro split: if_splits)
    then show ?thesis by (rule eq)
  qed
qed


lemma slots_ok:
  "layers_ok s \<Longrightarrow> layers_ok (fst (fold (process_slot now layer mods) is (s, acc)))"
proof (induction "is" arbitrary: s acc)
  case (Cons i "is")
  obtain s1 acc1 where step: "process_slot now layer mods i (s, acc) = (s1, acc1)"
    by (cases "process_slot now layer mods i (s, acc)")
  show ?case using slot_ok [OF Cons.prems step] Cons.IH [of s1 acc1] by (simp add: step)
qed simp

lemma interrupt_ok: "layers_ok s \<Longrightarrow> layers_ok (tap_hold_interrupt s)"
  unfolding tap_hold_interrupt_def
  by (rule fold_inv [rotated]) (auto simp: interrupt_slot_def activate_ok)

lemma tick_ok: "layers_ok s \<Longrightarrow> layers_ok (tap_hold_tick t s)"
proof -
  have [simp]: "layers_ok (s \<lparr>hold_activated_flag := b\<rparr>) = layers_ok s" for b and s :: "'a key_proc_scheme"
    by (simp add: layers_ok_def)
  show "layers_ok s \<Longrightarrow> layers_ok (tap_hold_tick t s)"
    unfolding tap_hold_tick_def
    by (rule fold_inv [rotated]) (auto simp: tick_slot_def Let_def activate_ok)
qed

lemma mods_ok: "layers_ok s \<Longrightarrow> layers_ok (build_mods m (s, acc))"
proof -
  assume ok: "layers_ok s"
  have eq: "layers_ok t = layers_ok u" if "lay t = lay u" for t u :: "'a key_proc_scheme"
    by (rule layers_ok_lay [OF that])
  have caps: "layers_ok (fst (fold caps_and_repeat kcs (t, x)) \<lparr>report_mods := r\<rparr>) = layers_ok t"
    for kcs x r and t :: "'a key_proc_scheme" by (rule eq) simp
  have [simp]: "layers_ok (t \<lparr>keycodes := k\<rparr>) = layers_ok t" "layers_ok (fst (osm_consume t)) = layers_ok t"
    "layers_ok (wpm_record_keypress t) = layers_ok t" for k and t :: "'a key_proc_scheme"
    by (rule eq, simp)+
  show ?thesis
    using ok interrupt_ok [OF ok]
    by (simp add: build_mods_def Let_def case_prod_beta caps)
qed

lemma scan_ok:
  assumes "layers_ok s" shows "layers_ok (build_keycode_report now s)"
proof -
  define s1 where "s1 = build_layers s"
  obtain s2 acc where s2: "build_keys now s1 = (s2, acc)" by (cases "build_keys now s1")
  define s3 where "s3 = build_mods (tap_hold_get_active_mods s1) (s2, acc)"
  define s4 where "s4 = inject_queues now s3"
  have ok1: "layers_ok s1" unfolding s1_def by (rule build_layers_ok [OF assms])
  have "layers_ok s2"
    using s2 slots_ok [OF ok1, of now "cycle_layer s1" _ "[0..<6]"]
    by (metis build_keys_def fst_conv)
  then have "layers_ok s3" unfolding s3_def by (rule mods_ok)
  then have ok4: "layers_ok s4" unfolding s4_def using layers_ok_lay [OF lay_inject] by blast
  have "layers_ok (t \<lparr>prev_press := p\<rparr>) = layers_ok t" for p and t :: "'a key_proc_scheme"
    by (rule layers_ok_lay) (simp add: lay_def)
  then show ?thesis
    using s2 layers_ok_simps(4) [OF ok4] layers_ok_simps(4) [OF layers_ok_simps(1) [OF ok4]]
    by (auto simp: build_keycode_report_def Let_def s1_def [symmetric] s3_def [symmetric]
        s4_def [symmetric])
qed

lemma toggle_ok: "layers_ok s \<Longrightarrow> layers_ok (process_matrix_changes bt s)"
proof -
  assume ok: "layers_ok s"
  have [simp]: "layers_ok (t \<lparr>extra_keycodes := e\<rparr>) = layers_ok t"
    "layers_ok (t \<lparr>keypress_internal_function := f\<rparr>) = layers_ok t"
    "layers_ok (kp_emit cs t) = layers_ok t" "layers_ok (t \<lparr>usb_bl_state := u\<rparr>) = layers_ok t"
    for e f cs u and t :: "'a key_proc_scheme"
    by (rule layers_ok_lay, simp add: lay_def kp_emit_def)+
  have disp: "layers_ok (dispatch_internal_function bt s)"
    using ok by (simp add: dispatch_internal_function_def Let_def)
  have "unat (ucast ((k - TO_L0) div 256) :: u8) < LAYERS" if "TO_L0 \<le> k" "k \<le> TO_L9" for k
  proof -
    have "unat (k - TO_L0) = unat k - unat TO_L0" using that(1) by (rule unat_sub)
    also have "\<dots> \<le> unat TO_L9 - unat TO_L0" using that(2) by (simp add: word_le_nat_alt diff_le_mono)
    finally have "unat ((k - TO_L0) div 256) \<le> 9"
      by (simp add: unat_div TO_L0_def TO_L9_def)
    then show ?thesis
      by (simp add: unsigned_ucast_eq unsigned_take_bit_eq take_bit_eq_mod LAYERS_def)
  qed
  moreover have "(0 :: nat) < LAYERS" by (simp add: LAYERS_def)
  ultimately have "layers_ok (apply_toggle_layer k t)" if "layers_ok t" for k and t :: "'a key_proc_scheme"
    using that by (simp add: apply_toggle_layer_def layers_ok_def layer_changed_def Let_def)
  then show ?thesis
    using ok disp by (simp add: process_matrix_changes_def split: option.splits)
qed

end
