(* ===== verification/Key_Shape.thy ===== *)
theory Key_Shape
  imports Key_Layers
begin

unbundle bit_operations_syntax

text \<open>
  The arrays of the key processor keep their sizes through a scan cycle, so that every index the
  cycle uses is in range.
\<close>

definition shape :: "'a key_proc_scheme \<Rightarrow> nat list" where
  "shape s = [length (keycodes s), length (extra_keycodes s), length (th_pending s),
     length (current_press s), length (deferred s), length (combo_active s)]"

lemma shape_th_upd [simp]: "shape (th_upd i f s) = shape s"
  by (simp add: shape_def th_upd_def)

lemma shape_recompute [simp]: "shape (recompute_lt_layer s) = shape s"
  by (simp add: shape_def recompute_lt_layer_def layer_changed_def Let_def split: option.splits)

lemma shape_fields [simp]:
  "shape (s \<lparr>active_hold_mods := m\<rparr>) = shape s" "shape (s \<lparr>th_layer_base := b\<rparr>) = shape s"
  "shape (s \<lparr>th_seq := q\<rparr>) = shape s" "shape (s \<lparr>hold_activated_flag := h\<rparr>) = shape s"
  "shape (s \<lparr>resolved_queue := rq\<rparr>) = shape s" "shape (s \<lparr>expired_queue := eq\<rparr>) = shape s"
  "shape (s \<lparr>resolved_queue := rq, expired_queue := eq\<rparr>) = shape s"
  "shape (s \<lparr>combo_active := (combo_active s)[i := ca]\<rparr>) = shape s"
  "shape (s \<lparr>report_mods := r\<rparr>) = shape s" "shape (s \<lparr>prev_press := p\<rparr>) = shape s"
  "shape (s \<lparr>tap_injected_slots := ti, macro_hold_mods := mh\<rparr>) = shape s"
  by (simp_all add: shape_def)

lemma shape_hold [simp]: "shape (activate_hold i s) = shape s" "shape (deactivate_hold i s) = shape s"
  by (simp_all add: activate_hold_def deactivate_hold_def Let_def)

lemma shape_tap_hold [simp]:
  "shape (fst (tap_hold_on_press t kc r c s)) = shape s"
  "shape (fst (tap_hold_on_release r c s)) = shape s"
  "shape (tap_hold_interrupt s) = shape s" "shape (tap_hold_tick t s) = shape s"
  by (simp_all add: tap_hold_on_press_def tap_hold_on_release_def tap_hold_interrupt_def
      interrupt_slot_def tap_hold_tick_def tick_slot_def Let_def fold_keeps [where F = shape]
      split: option.splits)

lemma shape_dance [simp]:
  "shape (fst (tap_dance_on_press t i r c s)) = shape s" "shape (tap_dance_on_release r c s) = shape s"
  by (simp_all add: shape_def tap_dance_on_press_def tap_dance_on_release_def resolve_dance_def Let_def)

lemma shape_leader [simp]: "shape (fst (leader_feed t k s)) = shape s"
  by (simp add: shape_def leader_feed_def try_match_def leader_cancel_def split: option.splits)

lemma length_fill_legacy [simp]: "length (fill_legacy kcs keys) = length kcs"
  by (induction kcs keys rule: fill_legacy.induct) auto

lemma length_put_free [simp]: "length (put_free k kcs) = length kcs"
  by (simp add: put_free_def split: option.splits)

lemma shape_macro [simp]: "shape (expand_macro kc new s) = shape s"
proof -
  have "length (fold (\<lambda>st. put_free (fst st)) steps kcs) = length kcs"
    for steps :: "(u8 \<times> u8) list" and kcs
    by (rule fold_keeps) simp
  then show ?thesis by (simp add: shape_def expand_macro_def Let_def)
qed

lemma shape_small [simp]:
  "shape (osl_arm l s) = shape s" "shape (caps_word_toggle s) = shape s"
  "shape (layer_lock_toggle s) = shape s" "shape (leader_start t s) = shape s"
  "shape (osl_consume s) = shape s" "shape (fst (osm_consume s)) = shape s"
  "shape (osm_arm m s) = shape s"
  "shape (wpm_record_keypress s) = shape s" "shape (repeat_key_record k s) = shape s"
  "shape (fst (caps_word_process k m s)) = shape s"
  "shape (detect_internal_function kc s) = shape s" "shape (set_key i k s) = shape s"
  "shape (set_extra i kc s) = shape s" "shape (inject_tap k s) = shape s"
  "shape (inject_key k s) = shape s" "shape (kp_emit cs s) = shape s"
  "shape (combo_defer_key now r c k s) = shape s" "shape (undefer d s) = shape s"
  "shape (momentary_release s) = shape s" "shape (apply_momentary_layer kc i s) = shape s"
  by (simp_all add: shape_def osl_arm_def caps_word_toggle_def layer_lock_toggle_def
      layer_changed_def leader_start_def osl_consume_def osm_consume_def osm_arm_def
      wpm_record_keypress_def repeat_key_record_def caps_word_process_def
      detect_internal_function_def set_key_def set_extra_def inject_tap_def inject_key_def
      kp_emit_def combo_defer_key_def undefer_def momentary_release_def
      apply_momentary_layer_def Let_def split: option.splits prod.splits)

lemma shape_advanced: "process_advanced_key now kc pos s = (s', hid) \<Longrightarrow> shape s' = shape s"
  by (auto simp: process_advanced_key_def split: if_splits)

lemma shape_normal [simp]: "shape (fst (normal_key now mods i kc pos (s, acc))) = shape s"
  by (simp add: normal_key_def Let_def case_prod_beta)

lemma shape_slot: "process_slot now layer mods i (s, acc) = (s', acc') \<Longrightarrow> shape s' = shape s"
proof -
  assume step: "process_slot now layer mods i (s, acc) = (s', acc')"
  define pos where "pos = current_press s ! i"
  define kc where "kc = keymap_at s layer pos"
  let ?s1 = "expand_macro kc (is_new_press pos s) (detect_internal_function kc s)"
  have normal: "shape t = shape s" if "normal_key now mods i k pos (?s1, acc) = (t, acc')" for k t
    using that shape_normal [of now mods i k pos ?s1 acc] by simp
  have adv: "shape t = shape s" if "process_advanced_key now kc pos s = (t, hid)" for t hid
    by (rule shape_advanced [OF that])
  have macro: "shape t = shape s" if "expand_macro k b (detect_internal_function k s) = t" for k b t
    using that by auto
  show ?thesis
    using step
    by (auto simp: process_slot_def pos_def [symmetric] kc_def [symmetric] Let_def
        dest: adv intro: normal macro split: if_splits prod.splits)
qed

lemma shape_slots [simp]: "shape (fst (fold (process_slot now layer mods) is (s, acc))) = shape s"
proof (induction "is" arbitrary: s acc)
  case (Cons i "is")
  obtain s1 acc1 where step: "process_slot now layer mods i (s, acc) = (s1, acc1)"
    by (cases "process_slot now layer mods i (s, acc)")
  show ?case using shape_slot [OF step] Cons.IH [of s1 acc1] by (simp add: step)
qed simp

lemma shape_layers [simp]: "shape (build_layers s) = shape s"
proof -
  have "shape (release_pos pos s) = shape s" for pos and s :: "'a key_proc_scheme"
    by (simp add: release_pos_def)
  moreover have "shape (momentary_slot b i s) = shape s" for b i and s :: "'a key_proc_scheme"
    by (simp add: momentary_slot_def Let_def)
  ultimately show ?thesis
    by (simp add: build_layers_def detect_releases_def Let_def fold_keeps [where F = shape])
qed

lemma shape_keys: "shape (s \<lparr>keycodes := k\<rparr>) = (if length k = length (keycodes s) then shape s
    else shape (s \<lparr>keycodes := k\<rparr>))"
  by (simp add: shape_def)

lemma shape_caps [simp]: "shape (fst (fold caps_and_repeat kcs (s, m))) = shape s"
proof (induction kcs arbitrary: s m)
  case (Cons k kcs)
  obtain s1 m1 where step: "caps_and_repeat k (s, m) = (s1, m1)"
    by (cases "caps_and_repeat k (s, m)")
  have "shape s1 = shape s"
    using step by (auto simp: caps_and_repeat_def case_prod_beta Let_def split: if_splits)
  then show ?case using step Cons.IH by simp
qed simp

lemma shape_mods [simp]: "shape (build_mods m (s, acc)) = shape s"
proof -
  have [simp]: "shape (t \<lparr>keycodes := suppress_usages x (keycodes t)\<rparr>) = shape t"
    for t :: "'a key_proc_scheme" and x by (simp add: shape_def suppress_usages_def)
  show ?thesis by (simp add: build_mods_def Let_def case_prod_beta)
qed

lemma shape_inject [simp]: "shape (inject_queues now s) = shape s"
proof -
  have "shape (combo_slot press i s) = shape s" for press i and s :: "'a key_proc_scheme"
    by (simp add: combo_slot_def Let_def)
  moreover have "shape (expire_slot t press i s) = shape s" for t press i and s :: "'a key_proc_scheme"
    by (simp add: expire_slot_def Let_def)
  ultimately have combo: "shape (combo_process t press s) = shape s" for t press and s :: "'a key_proc_scheme"
    by (simp add: combo_process_def fold_keeps [where F = shape])
  have "shape (fst (consume_tap_from is s)) = shape s" for "is" and s :: "'a key_proc_scheme"
    by (induction "is" arbitrary: s) (simp_all add: Let_def)
  then have takes: "shape (fst (tap_hold_consume_tap s)) = shape s" "shape (fst (take_combo s)) = shape s"
    "shape (fst (combo_consume_expired s)) = shape s" for s :: "'a key_proc_scheme"
    by (simp_all add: tap_hold_consume_tap_def take_combo_def combo_consume_def
        combo_consume_expired_def case_prod_beta Let_def)
  show ?thesis
    by (simp add: inject_queues_def Let_def combo takes drain_keeps [where F = shape]
        del: drain_queue.simps)
qed

lemma shape_scan [simp]: "shape (build_keycode_report now s) = shape s"
proof -
  obtain s2 acc where s2: "build_keys now (build_layers s) = (s2, acc)"
    by (cases "build_keys now (build_layers s)")
  have "shape s2 = shape s"
    using s2 shape_slots [of now "cycle_layer (build_layers s)" _ "[0..<6]" "build_layers s"]
    by (metis build_keys_def fst_conv shape_layers)
  then show ?thesis by (simp add: build_keycode_report_def Let_def s2)
qed

lemma shape_changes [simp]: "shape (process_matrix_changes bt s) = shape s"
  by (simp add: shape_def process_matrix_changes_def apply_toggle_layer_def layer_changed_def
      dispatch_internal_function_def kp_emit_def Let_def split: option.splits)

end
