(* ===== verification/Hid_Report.thy ===== *)
theory Hid_Report
  imports Key_Processor
begin

unbundle bit_operations_syntax

text \<open>
  \<open>main/input/hid_dedup.h\<close>, \<open>main/input/hid_report.c\<close> and the keyboard part of
  \<open>main/comm/hid_transport.c\<close>: from the six key codes to the report on the wire. The queue is a
  list, its head the next message; each call on it that can time out takes its outcome as an
  argument, since the other task runs meanwhile. The build is a wired one, so every report takes
  the USB or Bluetooth route; \<open>wire\<close> collects what a transport took.
\<close>

section \<open>Which reports go out\<close>

record hid_dedup =
  last_kc :: bytes
  last_mod :: u8
  last_ms :: u32
  dedup_valid :: bool

definition dedup_zero :: hid_dedup where
  "dedup_zero = \<lparr>last_kc = replicate 6 0, last_mod = 0, last_ms = 0, dedup_valid = False\<rparr>"

definition hid_dedup_should_send :: "hid_dedup \<Rightarrow> bytes \<Rightarrow> u8 \<Rightarrow> u32 \<Rightarrow> u32 \<Rightarrow> bool" where
  "hid_dedup_should_send d kc m t min_interval_ms =
     (if \<not> dedup_valid d then True
      else if m \<noteq> last_mod d then True
      else if kc \<noteq> last_kc d then True
      else t - last_ms d \<ge> min_interval_ms)"

definition hid_dedup_commit :: "bytes \<Rightarrow> u8 \<Rightarrow> u32 \<Rightarrow> hid_dedup \<Rightarrow> hid_dedup" where
  "hid_dedup_commit kc m t d = \<lparr>last_kc = kc, last_mod = m, last_ms = t, dedup_valid = True\<rparr>"

section \<open>The queue and the transport\<close>

type_synonym mouse_data = "u8 \<times> u8 \<times> u8 \<times> u8"

datatype hid_msg = HID_MSG_KEYBOARD bytes u8 | HID_MSG_MOUSE mouse_data
  | HID_MSG_KB_MOUSE bytes u8 mouse_data

datatype hid_packet = KbReport u8 bytes | MouseReport mouse_data

record hid = key_proc +
  hid_queue :: "hid_msg list option"
  hid_mutex :: bool
  hid_dedup :: hid_dedup
  current_modifiers :: u8
  wire :: "hid_packet list"

definition HID_QUEUE_LEN :: nat where "HID_QUEUE_LEN = 32"
definition KEY_ENQUEUE_MIN_MS :: u32 where "KEY_ENQUEUE_MIN_MS = 8"

text \<open>The state of the transports: whether the lock and the endpoint are had within the wait,
  whether the stack then takes the report, and whether Bluetooth is up and connected.\<close>

record links =
  usb_ready :: bool
  usb_takes :: bool
  bt_ready :: bool

definition send_usb_keyboard :: "links \<Rightarrow> u8 \<Rightarrow> bytes \<Rightarrow> 'a hid_scheme \<Rightarrow> 'a hid_scheme \<times> bool" where
  "send_usb_keyboard l modifier kb s =
     (if usb_ready l \<and> usb_takes l
      then (s \<lparr>wire := wire s @ [KbReport modifier kb]\<rparr>, True) else (s, False))"

definition hid_send_keyboard :: "links \<Rightarrow> u8 \<Rightarrow> bytes \<Rightarrow> 'a hid_scheme \<Rightarrow> 'a hid_scheme \<times> bool" where
  "hid_send_keyboard l modifier kb s =
     (if usb_bl_state s = 0 then send_usb_keyboard l modifier kb s
      else if bt_ready l then (s \<lparr>wire := wire s @ [KbReport modifier kb]\<rparr>, True)
      else (s, False))"

definition mouse_moves :: "mouse_data \<Rightarrow> bool" where
  "mouse_moves m \<longleftrightarrow> (case m of (buttons, x, y, w) \<Rightarrow> buttons \<noteq> 0 \<or> x \<noteq> 0 \<or> y \<noteq> 0 \<or> w \<noteq> 0)"

text \<open>The endpoint may be busy again for the mouse part, which is then dropped.\<close>

definition send_usb_kb_mouse ::
  "links \<Rightarrow> bool \<Rightarrow> u8 \<Rightarrow> bytes \<Rightarrow> mouse_data \<Rightarrow> 'a hid_scheme \<Rightarrow> 'a hid_scheme \<times> bool" where
  "send_usb_kb_mouse l mouse_takes modifier kb m s =
     (if usb_ready l
      then (s \<lparr>wire := wire s @ (if usb_takes l then [KbReport modifier kb] else []) @
              (if mouse_moves m \<and> mouse_takes then [MouseReport m] else [])\<rparr>, usb_takes l)
      else (s, False))"

definition hid_send_kb_mouse ::
  "links \<Rightarrow> bool \<Rightarrow> u8 \<Rightarrow> bytes \<Rightarrow> mouse_data \<Rightarrow> 'a hid_scheme \<Rightarrow> 'a hid_scheme \<times> bool" where
  "hid_send_kb_mouse l mouse_takes modifier kb m s =
     (if usb_bl_state s = 0 then send_usb_kb_mouse l mouse_takes modifier kb m s
      else if bt_ready l
      then (s \<lparr>wire := wire s @ [KbReport modifier kb, MouseReport m]\<rparr>, True)
      else (s, False))"

definition send_usb_mouse :: "links \<Rightarrow> mouse_data \<Rightarrow> 'a hid_scheme \<Rightarrow> 'a hid_scheme \<times> bool" where
  "send_usb_mouse l m s =
     (if usb_ready l \<and> usb_takes l then (s \<lparr>wire := wire s @ [MouseReport m]\<rparr>, True)
      else (s, False))"

definition hid_send_mouse :: "links \<Rightarrow> mouse_data \<Rightarrow> 'a hid_scheme \<Rightarrow> 'a hid_scheme \<times> bool" where
  "hid_send_mouse l m s =
     (if usb_bl_state s = 0 then send_usb_mouse l m s
      else if bt_ready l then (s \<lparr>wire := wire s @ [MouseReport m]\<rparr>, True)
      else (s, False))"

section \<open>The producer\<close>

definition extract_modifiers :: "bytes \<Rightarrow> bytes \<times> u8" where
  "extract_modifiers kc = (map (\<lambda>k. if is_mod_usage k then 0 else k) kc, report_mod_bits kc)"

text \<open>A send on the queue: it can fail although there is room when the task starts waiting, and
  cannot succeed without room.\<close>

definition queue_send :: "bool \<Rightarrow> bool \<Rightarrow> hid_msg \<Rightarrow> hid_msg list \<Rightarrow> (hid_msg list \<times> bool)" where
  "queue_send front takes msg q =
     (if takes \<and> length q < HID_QUEUE_LEN then (if front then msg # q else q @ [msg], True)
      else (q, False))"

definition commit_report :: "bytes \<Rightarrow> u8 \<Rightarrow> u32 \<Rightarrow> 'a hid_scheme \<Rightarrow> 'a hid_scheme" where
  "commit_report kc m t s = s \<lparr>hid_dedup := hid_dedup_commit kc m t (hid_dedup s)\<rparr>"

text \<open>The keyboard message goes to the end of the queue, or, when a mouse message waits at its
  head, together with that one to the front. \<open>takes i\<close> is the outcome of the \<open>i\<close>th send.\<close>

definition enqueue_kb ::
  "(nat \<Rightarrow> bool) \<Rightarrow> u32 \<Rightarrow> bytes \<Rightarrow> u8 \<Rightarrow> hid_msg list \<Rightarrow> 'a hid_scheme \<Rightarrow> 'a hid_scheme" where
  "enqueue_kb takes t kc m q s =
     (case q of
        HID_MSG_MOUSE md # rest \<Rightarrow>
          let (q1, sent) = queue_send True (takes 0) (HID_MSG_KB_MOUSE kc m md) rest in
          if sent then commit_report kc m t (s \<lparr>hid_queue := Some q1\<rparr>)
          else s \<lparr>hid_queue := Some (fst (queue_send True (takes 1) (HID_MSG_MOUSE md) rest))\<rparr>
      | _ \<Rightarrow>
          let q1 = (case q of [] \<Rightarrow> [] | peek # rest \<Rightarrow> fst (queue_send True (takes 2) peek rest));
              (q2, sent) = queue_send False (takes 3) (HID_MSG_KEYBOARD kc m) q1;
              s1 = s \<lparr>hid_queue := Some q2\<rparr>
          in if sent then commit_report kc m t s1 else s1)"

definition send_hid_key ::
  "links \<Rightarrow> (nat \<Rightarrow> bool) \<Rightarrow> u32 \<Rightarrow> 'a hid_scheme \<Rightarrow> 'a hid_scheme" where
  "send_hid_key l takes t s =
     (let (kc, physical) = extract_modifiers (keycodes s);
          m = physical OR key_processor_report_mods s;
          s1 = s \<lparr>keycodes := kc, current_modifiers := m\<rparr>
      in if \<not> hid_dedup_should_send (hid_dedup s1) kc m t KEY_ENQUEUE_MIN_MS then s1
         else case hid_queue s1 of
           Some q \<Rightarrow> enqueue_kb takes t kc m q s1
         | None \<Rightarrow> let (s2, sent) = hid_send_keyboard l m kc s1
             in if sent then commit_report kc m t s2 else s2)"

text \<open>A mouse report is tried twice.\<close>

definition send_front :: "(nat \<Rightarrow> bool) \<Rightarrow> hid_msg \<Rightarrow> hid_msg list \<Rightarrow> hid_msg list" where
  "send_front takes msg q =
     (let (q1, sent) = queue_send True (takes 0) msg q
      in if sent then q1 else fst (queue_send True (takes 1) msg q1))"

definition send_mouse_report ::
  "links \<Rightarrow> (nat \<Rightarrow> bool) \<Rightarrow> mouse_data \<Rightarrow> 'a hid_scheme \<Rightarrow> 'a hid_scheme" where
  "send_mouse_report l takes m s =
     (case hid_queue s of
        Some q \<Rightarrow> s \<lparr>hid_queue := Some (send_front takes (HID_MSG_MOUSE m) q)\<rparr>
      | None \<Rightarrow> fst (hid_send_mouse l m s))"

definition send_hid_kb_mouse ::
  "links \<Rightarrow> bool \<Rightarrow> (nat \<Rightarrow> bool) \<Rightarrow> u8 \<Rightarrow> bytes option \<Rightarrow> mouse_data \<Rightarrow> 'a hid_scheme \<Rightarrow> 'a hid_scheme" where
  "send_hid_kb_mouse l mouse_takes takes modifier kc m s =
     (let keys = (case kc of Some k \<Rightarrow> take 6 k | None \<Rightarrow> replicate 6 0)
      in case hid_queue s of
           Some q \<Rightarrow> s \<lparr>hid_queue := Some (send_front takes (HID_MSG_KB_MOUSE keys modifier m) q)\<rparr>
         | None \<Rightarrow> fst (hid_send_kb_mouse l mouse_takes modifier keys m s))"

definition hid_report_get_modifiers :: "'a hid_scheme \<Rightarrow> u8" where
  "hid_report_get_modifiers s = current_modifiers s"

definition hid_report_init :: "bool \<Rightarrow> bool \<Rightarrow> 'a hid_scheme \<Rightarrow> 'a hid_scheme" where
  "hid_report_init queue_made mutex_made s =
     s \<lparr>hid_queue := (case hid_queue s of Some q \<Rightarrow> Some q
          | None \<Rightarrow> if queue_made then Some [] else None),
        hid_mutex := hid_mutex s \<or> mutex_made\<rparr>"

section \<open>The sender task\<close>

text \<open>One message: it is gone when the report mutex cannot be had in time, and the outcome of the
  transport is not looked at. A keyboard message takes a mouse message behind it along.\<close>

definition sender_content :: "bool \<Rightarrow> hid_msg \<Rightarrow> hid_msg list \<Rightarrow> 'a hid_scheme \<Rightarrow>
    hid_msg list \<times> bytes \<times> u8 \<times> mouse_data" where
  "sender_content takes msg rest s =
     (case msg of
        HID_MSG_KEYBOARD kc m \<Rightarrow>
          (case rest of
             HID_MSG_MOUSE md # rest1 \<Rightarrow> (rest1, kc, m, md)
           | nxt # rest1 \<Rightarrow> (fst (queue_send True takes nxt rest1), kc, m, (0, 0, 0, 0))
           | [] \<Rightarrow> ([], kc, m, (0, 0, 0, 0)))
      | HID_MSG_MOUSE md \<Rightarrow> (rest, keycodes s, current_modifiers s, md)
      | HID_MSG_KB_MOUSE kc m md \<Rightarrow> (rest, kc, m, md))"

definition hid_sender_step ::
  "links \<Rightarrow> bool \<Rightarrow> bool \<Rightarrow> bool \<Rightarrow> 'a hid_scheme \<Rightarrow> 'a hid_scheme" where
  "hid_sender_step l mouse_takes mutex_takes takes s =
     (case hid_queue s of
        Some (msg # rest) \<Rightarrow>
          if \<not> mutex_takes then s \<lparr>hid_queue := Some rest\<rparr>
          else let (q, kc, m, md) = sender_content takes msg rest s
               in fst (hid_send_kb_mouse l mouse_takes m kc md (s \<lparr>hid_queue := Some q\<rparr>))
      | _ \<Rightarrow> s)"

end
