(* ===== verification/Keyboard_Task.thy ===== *)
theory Keyboard_Task
  imports Hid_Report Key_Layers
begin

unbundle bit_operations_syntax

text \<open>
  \<open>main/input/keyboard_task.c\<close> and the callback of \<open>main/input/matrix_scan.c\<close>: the matrix
  driver reports the pressed keys, one turn of the keyboard task works on them. Build of a
  board without a second half, USB powered.
\<close>

section \<open>The matrix callback\<close>

record kb = hid +
  matrix_rows :: nat
  matrix_cols :: nat
  prev_matrix_state :: "(u8 \<times> u8) list"
  matrix_state :: "(u8 \<times> u8) list"
  current_press_stat :: bytes
  stat_matrix_changed :: u8
  last_activity_time_ms :: u32
  matrix_test_mode :: bool
  matrix_test_last_activity_ms :: u32
  matrix_events :: "(u8 \<times> u8 \<times> bool) list"
  stat_presses :: "key_pos list"
  display_presses :: nat

definition matrix_flag_signal :: "'a kb_scheme \<Rightarrow> 'a kb_scheme" where
  "matrix_flag_signal s = s \<lparr>stat_matrix_changed := 1\<rparr>"

definition matrix_flag_take :: "'a kb_scheme \<Rightarrow> 'a kb_scheme \<times> bool" where
  "matrix_flag_take s =
     (if stat_matrix_changed s = 0 then (s, False) else (s \<lparr>stat_matrix_changed := 0\<rparr>, True))"

text \<open>The driver's report is a list of positions, row then column; those outside the matrix are
  left out. A matrix of bits is the list of its set positions.\<close>

definition in_matrix :: "'a kb_scheme \<Rightarrow> u8 \<times> u8 \<Rightarrow> bool" where
  "in_matrix s pos \<longleftrightarrow> unat (fst pos) < matrix_rows s \<and> unat (snd pos) < matrix_cols s"

definition matrix_positions :: "'a kb_scheme \<Rightarrow> (u8 \<times> u8) list" where
  "matrix_positions s =
     [(word_of_nat r, word_of_nat c). r \<leftarrow> [0..<matrix_rows s], c \<leftarrow> [0..<matrix_cols s]]"

definition MATRIX_TEST_TIMEOUT_MS :: u32 where "MATRIX_TEST_TIMEOUT_MS = 30000"

definition test_events :: "(u8 \<times> u8) list \<Rightarrow> 'a kb_scheme \<Rightarrow> (u8 \<times> u8 \<times> bool) list" where
  "test_events new s =
     map (\<lambda>pos. (fst pos, snd pos, pos \<in> set new))
       (filter (\<lambda>pos. (pos \<in> set new) \<noteq> (pos \<in> set (prev_matrix_state s))) (matrix_positions s))"

definition test_mode_report :: "u32 \<Rightarrow> (u8 \<times> u8) list \<Rightarrow> 'a kb_scheme \<Rightarrow> 'a kb_scheme" where
  "test_mode_report t new s =
     (let evs = test_events new s
      in s \<lparr>matrix_test_last_activity_ms :=
              (if evs = [] then matrix_test_last_activity_ms s else t),
            matrix_events := matrix_events s @ evs,
            prev_matrix_state := new, last_activity_time_ms := t\<rparr>)"

definition normal_mode_report :: "u32 \<Rightarrow> (u8 \<times> u8) list \<Rightarrow> 'a kb_scheme \<Rightarrow> 'a kb_scheme" where
  "normal_mode_report t new s =
     (let pressed = take 6 new;
          fresh = filter (\<lambda>pos. pos \<notin> set (prev_matrix_state s)) pressed
      in matrix_flag_signal
           (s \<lparr>matrix_state := new, current_press := fill_press pressed,
               current_press_stat := take 6 (map (\<lambda>_. 1) pressed @ replicate 6 0),
               keycodes := replicate 6 0,
               stat_presses := stat_presses s @ fresh,
               display_presses := display_presses s + length fresh,
               prev_matrix_state := new\<rparr>)
         \<lparr>last_activity_time_ms := t\<rparr>)"

definition keyboard_btn_cb :: "int \<Rightarrow> (u8 \<times> u8) list \<Rightarrow> 'a kb_scheme \<Rightarrow> 'a kb_scheme" where
  "keyboard_btn_cb now keys s =
     (let new = filter (in_matrix s) keys; t = now_ms now in
      if matrix_test_mode s
      then if t - matrix_test_last_activity_ms s > MATRIX_TEST_TIMEOUT_MS
           then normal_mode_report t new (s \<lparr>matrix_test_mode := False\<rparr>)
           else test_mode_report t new s
      else normal_mode_report t new s)"

section \<open>One turn of the task\<close>

text \<open>What the turn meets: the clock when it starts, at the leader check, at the matrix cycle and
  at its second report (the taps and macros sent between them take their time), the links, the
  outcomes of its queue sends, and whether Bluetooth is initialised.\<close>

record turn =
  tn_now :: int
  tn_leader_now :: int
  tn_matrix_now :: int
  tn_clear_now :: int
  tn_links :: links
  tn_takes :: "nat \<Rightarrow> bool"
  tn_bt_up :: bool

definition send_report :: "turn \<Rightarrow> int \<Rightarrow> 'a hid_scheme \<Rightarrow> 'a hid_scheme" where
  "send_report e now s = send_hid_key (tn_links e) (tn_takes e) (now_ms now) s"

text \<open>A quick press and release, past the queue.\<close>

definition send_tap :: "turn \<Rightarrow> u8 \<Rightarrow> u8 \<Rightarrow> 'a hid_scheme \<Rightarrow> 'a hid_scheme" where
  "send_tap e kc m s =
     fst (hid_send_keyboard (tn_links e) 0 (replicate 6 0)
       (fst (hid_send_keyboard (tn_links e) m (kc # replicate 5 0) s)))"

text \<open>The macro steps: a delay waits, a modifier usage joins the next key.\<close>

fun play_steps :: "turn \<Rightarrow> u8 \<Rightarrow> (u8 \<times> u8) list \<Rightarrow> 'a hid_scheme \<Rightarrow> 'a hid_scheme" where
  "play_steps e pending_mod [] s = s"
| "play_steps e pending_mod ((kc, m) # steps) s =
     (if kc = MACRO_DELAY_MARKER then play_steps e pending_mod steps s
      else if is_mod_usage kc then play_steps e (pending_mod OR usage_mod_bit kc) steps s
      else play_steps e 0 steps (send_tap e kc (m OR pending_mod) s))"

definition play_macro :: "turn \<Rightarrow> 'a hid_scheme \<Rightarrow> 'a hid_scheme" where
  "play_macro e s =
     (if \<not> key_processor_has_pending_macro s then s
      else let (s1, idx) = key_processor_consume_macro s
           in if 0 \<le> idx \<and> idx < int MAX_MACROS
              then play_steps e 0 (macro_steps (kp_macros s1 ! nat idx)) s1 else s1)"

definition hold_cycle :: "turn \<Rightarrow> 'a hid_scheme \<Rightarrow> 'a hid_scheme" where
  "hold_cycle e s =
     (if tap_hold_hold_just_activated s
      then send_report e (tn_now e) (build_keycode_report (tn_now e) s) else s)"

definition dance_cycle :: "turn \<Rightarrow> 'a hid_scheme \<Rightarrow> 'a hid_scheme" where
  "dance_cycle e s =
     (if tap_dance_just_resolved s
      then let (s1, kc) = tap_dance_consume s in if kc \<noteq> 0 then send_tap e kc 0 s1 else s1
      else s)"

definition leader_cycle :: "turn \<Rightarrow> 'a hid_scheme \<Rightarrow> 'a hid_scheme" where
  "leader_cycle e s =
     (let (s1, finished) = leader_tick (now_ms (tn_leader_now e)) s
      in if finished
         then let (s2, kc, m) = leader_consume s1 in if kc \<noteq> 0 then send_tap e kc m s2 else s2
         else s1)"

definition test_mode_exit :: "u32 \<Rightarrow> 'a kb_scheme \<Rightarrow> 'a kb_scheme" where
  "test_mode_exit t s =
     (if matrix_test_mode s \<and> t - matrix_test_last_activity_ms s > MATRIX_TEST_TIMEOUT_MS
      then s \<lparr>matrix_test_mode := False\<rparr> else s)"

definition matrix_cycle :: "turn \<Rightarrow> 'a kb_scheme \<Rightarrow> 'a kb_scheme" where
  "matrix_cycle e s =
     (let (s1, changed) = matrix_flag_take s in
      if \<not> changed then s1
      else let s2 = process_matrix_changes (tn_bt_up e) (build_keycode_report (tn_matrix_now e) s1)
           in if key_processor_has_tap s2
              then send_report e (tn_clear_now e)
                     (key_processor_clear_taps (send_report e (tn_matrix_now e) s2))
              else send_report e (tn_matrix_now e) s2)"

definition keyboard_turn :: "turn \<Rightarrow> 'a kb_scheme \<Rightarrow> 'a kb_scheme" where
  "keyboard_turn e s =
     (let s1 = tap_dance_tick (now_ms (tn_now e)) (tap_hold_tick (now_ms (tn_now e)) s);
          s2 = test_mode_exit (now_ms (tn_now e)) s1;
          s3 = leader_cycle e (dance_cycle e (hold_cycle e s2))
      in matrix_cycle e (play_macro e s3))"

definition keyboard_manager_init :: "bool \<Rightarrow> bool \<Rightarrow> 'a hid_scheme \<Rightarrow> 'a hid_scheme" where
  "keyboard_manager_init queue_made mutex_made s =
     hid_report_init queue_made mutex_made
       (key_override_init (leader_init (combo_init (tap_dance_init (tap_hold_init s)))))"

end
