(* ===== verification/Keyboard_Props.thy ===== *)
theory Keyboard_Props
  imports Keyboard_Task Key_Shape
begin

unbundle bit_operations_syntax

text \<open>
  The keyboard as a state machine: matrix callbacks, turns of the keyboard task, messages taken
  by the sender and mouse reports, in any order. Its invariant keeps every read of the keymap
  and of the six-key arrays in range.
\<close>

section \<open>The step relation\<close>

inductive kb_step :: "kb \<Rightarrow> kb \<Rightarrow> bool" where
  matrix: "kb_step s (keyboard_btn_cb now keys s)"
| turn: "kb_step s (keyboard_turn e s)"
| sender: "kb_step s (hid_sender_step l mouse_takes mutex_takes takes s)"
| mouse: "kb_step s (send_mouse_report l takes m s)"

inductive kb_reach :: "kb \<Rightarrow> kb \<Rightarrow> bool" for s0 where
  start: "kb_reach s0 s0"
| step: "kb_reach s0 s \<Longrightarrow> kb_step s s' \<Longrightarrow> kb_reach s0 s'"

definition pos_ok :: "kb \<Rightarrow> key_pos \<Rightarrow> bool" where
  "pos_ok s pos \<longleftrightarrow> snd pos = INVALID_KEY_POS \<or> in_matrix s pos"

definition kb_ok :: "kb \<Rightarrow> bool" where
  "kb_ok s \<longleftrightarrow> layers_ok s \<and> shape s = [6, 6, 4, 6, 4, 16] \<and>
     list_all (pos_ok s) (current_press s) \<and>
     (case hid_queue s of None \<Rightarrow> True | Some q \<Rightarrow> length q \<le> HID_QUEUE_LEN)"

text \<open>What the operations above the key processor leave alone.\<close>

definition base :: "kb \<Rightarrow> (u8 \<times> u8 \<times> int \<times> int \<times> int) \<times> nat list \<times> key_pos list \<times> nat \<times> nat" where
  "base s = (lay s, shape s, current_press s, matrix_rows s, matrix_cols s)"

definition queue_ok :: "'a hid_scheme \<Rightarrow> bool" where
  "queue_ok s \<longleftrightarrow> (case hid_queue s of None \<Rightarrow> True | Some q \<Rightarrow> length q \<le> HID_QUEUE_LEN)"

lemma kb_ok_base: "base s' = base s \<Longrightarrow> kb_ok s \<Longrightarrow> queue_ok s' \<Longrightarrow> kb_ok s'"
  using layers_ok_lay [of s' s]
  by (simp add: kb_ok_def base_def queue_ok_def pos_ok_def in_matrix_def cong: list.pred_cong)

lemma kb_ok_queue: "kb_ok s \<Longrightarrow> queue_ok s" by (simp add: kb_ok_def queue_ok_def)

lemma base_hid [simp]:
  "base (s \<lparr>hid_queue := q\<rparr>) = base s" "base (s \<lparr>wire := w\<rparr>) = base s"
  "base (s \<lparr>hid_dedup := d\<rparr>) = base s" "base (s \<lparr>current_modifiers := m\<rparr>) = base s"
  "base (s \<lparr>pending_macro_idx := i\<rparr>) = base s"
  by (simp_all add: base_def lay_def shape_def)

lemma queue_ok_fields [simp]:
  "queue_ok (s \<lparr>wire := w\<rparr>) = queue_ok s" "queue_ok (s \<lparr>hid_dedup := d\<rparr>) = queue_ok s"
  "queue_ok (s \<lparr>current_modifiers := m\<rparr>) = queue_ok s" "queue_ok (s \<lparr>keycodes := k\<rparr>) = queue_ok s"
  "queue_ok (s \<lparr>pending_macro_idx := i\<rparr>) = queue_ok s"
  "queue_ok (s \<lparr>hid_queue := Some q\<rparr>) = (length q \<le> HID_QUEUE_LEN)"
  "queue_ok (s \<lparr>hid_queue := None\<rparr>)"
  by (simp_all add: queue_ok_def)

section \<open>The report queue\<close>

lemma queue_send_le: "length q \<le> HID_QUEUE_LEN \<Longrightarrow> length (fst (queue_send f t m q)) \<le> HID_QUEUE_LEN"
  by (simp add: queue_send_def)

lemma tap_queue [simp]: "queue_ok (send_tap e kc m s) = queue_ok s"
  by (simp add: send_tap_def hid_send_keyboard_def send_usb_keyboard_def)

lemma tap_base [simp]: "base (send_tap e kc m s) = base s"
  by (simp add: send_tap_def hid_send_keyboard_def send_usb_keyboard_def)

lemma commit_base [simp]: "base (commit_report kc m t s) = base s"
  by (simp add: commit_report_def)

lemma commit_queue [simp]: "queue_ok (commit_report kc m t s) = queue_ok s"
  by (simp add: commit_report_def)

lemma enqueue_base [simp]: "base (enqueue_kb takes t kc m q s) = base s"
  by (simp add: enqueue_kb_def Let_def case_prod_beta split: list.splits hid_msg.splits)

lemma enqueue_ok: "length q \<le> HID_QUEUE_LEN \<Longrightarrow> queue_ok (enqueue_kb takes t kc m q s)"
  by (auto simp: enqueue_kb_def Let_def case_prod_beta queue_send_def
      split: list.splits hid_msg.splits)

lemma report_base [simp]: "base (send_report e now s) = base s"
proof -
  have kc: "base (s \<lparr>keycodes := map f (keycodes s)\<rparr>) = base s" for f
    by (simp add: base_def lay_def shape_def)
  show ?thesis
    by (simp add: send_report_def send_hid_key_def extract_modifiers_def Let_def case_prod_beta kc
        hid_send_keyboard_def send_usb_keyboard_def split: option.splits)
qed

lemma report_queue: "queue_ok s \<Longrightarrow> queue_ok (send_report e now s)"
  by (auto simp: send_report_def send_hid_key_def extract_modifiers_def Let_def case_prod_beta
      hid_send_keyboard_def send_usb_keyboard_def queue_ok_def [of s] intro!: enqueue_ok
      split: option.splits)

lemma report_ok: "kb_ok s \<Longrightarrow> kb_ok (send_report e now s)"
  by (rule kb_ok_base [OF report_base]) (auto intro: report_queue kb_ok_queue)

lemma tap_ok: "kb_ok s \<Longrightarrow> kb_ok (send_tap e kc m s)"
  by (rule kb_ok_base [OF tap_base]) (auto intro: kb_ok_queue)


section \<open>The turns keep the invariant\<close>

lemma more_fields:
  "key_proc.more s' = key_proc.more s \<Longrightarrow> hid_queue s' = hid_queue s \<and>
    matrix_rows s' = matrix_rows s \<and> matrix_cols s' = matrix_cols s" for s s' :: kb
  by (cases s; cases s') simp

lemma kb_ok_scan: "kb_ok s \<Longrightarrow> kb_ok (build_keycode_report now s)"
proof -
  assume ok: "kb_ok s"
  have "key_proc.more (build_keycode_report now s) = key_proc.more s"
    and press: "current_press (build_keycode_report now s) = current_press s"
    using scan_effect [of now s] by simp_all
  then have more: "hid_queue (build_keycode_report now s) = hid_queue s"
    "matrix_rows (build_keycode_report now s) = matrix_rows s"
    "matrix_cols (build_keycode_report now s) = matrix_cols s"
    using more_fields by blast+
  show ?thesis
    using ok scan_ok [of s now]
    by (simp add: kb_ok_def more press pos_ok_def in_matrix_def cong: list.pred_cong)
qed


lemma kb_ok_eq:
  "lay s' = lay s \<Longrightarrow> shape s' = shape s \<Longrightarrow> current_press s' = current_press s \<Longrightarrow>
    key_proc.more s' = key_proc.more s \<Longrightarrow> kb_ok s \<Longrightarrow> kb_ok s'" for s s' :: kb
  using more_fields [of s' s] kb_ok_base [of s' s]
  by (simp add: base_def queue_ok_def kb_ok_def)

lemma tick_kept: "kept s (tap_hold_tick t s)"
proof -
  have [simp]: "kept s0 (s \<lparr>hold_activated_flag := b\<rparr>) = kept s0 s"
    for s0 s :: "'a key_proc_scheme" and b by (simp add: kept_def)
  have "kept s (s \<lparr>hold_activated_flag := False\<rparr>)" by simp
  then show ?thesis
    unfolding tap_hold_tick_def
    by (rule kept_trans) (rule kept_fold, simp add: tick_slot_def Let_def)
qed

lemma kb_ok_tick: "kb_ok s \<Longrightarrow> kb_ok (tap_hold_tick t s)"
  using tick_ok [of s t] more_fields [of "tap_hold_tick t s" s] tick_kept [of s t]
  by (simp add: kb_ok_def kept_def pos_ok_def in_matrix_def cong: list.pred_cong)

lemma kb_ok_td_tick: "kb_ok s \<Longrightarrow> kb_ok (tap_dance_tick t s)"
  by (rule kb_ok_eq)
    (simp_all add: tap_dance_tick_def resolve_dance_def Let_def lay_def shape_def)

lemma kb_ok_dance: "kb_ok s \<Longrightarrow> kb_ok (dance_cycle e s)"
proof -
  assume ok: "kb_ok s"
  have "kb_ok (fst (tap_dance_consume s))"
    by (rule kb_ok_eq [OF _ _ _ _ ok]) (simp_all add: tap_dance_consume_def Let_def lay_def shape_def)
  then show ?thesis
    using ok by (simp add: dance_cycle_def case_prod_beta Let_def tap_ok)
qed

lemma kb_ok_leader: "kb_ok s \<Longrightarrow> kb_ok (leader_cycle e s)"
proof -
  assume ok: "kb_ok s"
  have 1: "kb_ok (fst (leader_tick t s))" for t
    by (rule kb_ok_eq [OF _ _ _ _ ok])
      (simp_all add: leader_tick_def try_match_def leader_cancel_def Let_def lay_def shape_def
        split: option.splits)
  have "kb_ok (fst (leader_consume u))" if "kb_ok u" for u
    by (rule kb_ok_eq [OF _ _ _ _ that]) (simp_all add: leader_consume_def lay_def shape_def)
  then show ?thesis
    using 1 by (simp add: leader_cycle_def case_prod_beta Let_def tap_ok)
qed

lemma kb_ok_macro: "kb_ok s \<Longrightarrow> kb_ok (play_macro e s)"
proof -
  have steps: "kb_ok (play_steps e m steps s)" if "kb_ok s" for m steps and s :: kb
    using that by (induction e m steps s rule: play_steps.induct) (simp_all add: tap_ok)
  assume ok: "kb_ok s"
  have "kb_ok (fst (key_processor_consume_macro s))"
    by (rule kb_ok_eq [OF _ _ _ _ ok]) (simp_all add: key_processor_consume_macro_def lay_def shape_def)
  then show ?thesis
    using ok by (simp add: play_macro_def case_prod_beta Let_def steps)
qed

lemma kb_ok_changes: "kb_ok s \<Longrightarrow> kb_ok (process_matrix_changes bt s)"
proof -
  assume ok: "kb_ok s"
  have "current_press (process_matrix_changes bt s) = current_press s \<and>
      key_proc.more (process_matrix_changes bt s) = key_proc.more s"
    by (simp add: process_matrix_changes_def apply_toggle_layer_def layer_changed_def
        dispatch_internal_function_def kp_emit_def Let_def split: option.splits)
  then show ?thesis
    using ok toggle_ok [of s bt] more_fields [of "process_matrix_changes bt s" s]
    by (simp add: kb_ok_def pos_ok_def in_matrix_def cong: list.pred_cong)
qed

lemma kb_ok_clear: "kb_ok s \<Longrightarrow> kb_ok (key_processor_clear_taps s)"
  by (rule kb_ok_eq) (auto simp: key_processor_clear_taps_def lay_def shape_def kb_ok_def)

lemma kb_ok_hold: "kb_ok s \<Longrightarrow> kb_ok (hold_cycle e s)"
  by (simp add: hold_cycle_def report_ok kb_ok_scan)

lemma kb_ok_exit: "kb_ok s \<Longrightarrow> kb_ok (test_mode_exit t s)"
  by (rule kb_ok_base) (simp_all add: test_mode_exit_def base_def lay_def shape_def queue_ok_def kb_ok_def)

lemma kb_ok_matrix: "kb_ok s \<Longrightarrow> kb_ok (matrix_cycle e s)"
proof -
  assume ok: "kb_ok s"
  have "kb_ok (fst (matrix_flag_take s))"
    by (rule kb_ok_base [OF _ ok])
      (use ok in \<open>simp_all add: matrix_flag_take_def base_def lay_def shape_def queue_ok_def kb_ok_def\<close>)
  then show ?thesis
    by (simp add: matrix_cycle_def case_prod_beta Let_def report_ok kb_ok_clear kb_ok_changes kb_ok_scan)
qed

lemma kb_ok_turn: "kb_ok s \<Longrightarrow> kb_ok (keyboard_turn e s)"
  unfolding keyboard_turn_def Let_def
  by (intro kb_ok_matrix kb_ok_macro kb_ok_leader kb_ok_dance kb_ok_hold kb_ok_exit kb_ok_td_tick
      kb_ok_tick)

lemma kb_ok_callback: "kb_ok s \<Longrightarrow> kb_ok (keyboard_btn_cb now keys s)"
proof -
  assume ok: "kb_ok s"
  let ?new = "filter (in_matrix s) keys"
  have press: "list_all (pos_ok s) (fill_press (take 6 ?new))"
  proof -
    have sub: "x \<in> set ?new \<or> x = no_pos" if "x \<in> set (fill_press (take 6 ?new))" for x
      using that by (auto simp: fill_press_def dest!: in_set_takeD)
    have "pos_ok s x" if "x \<in> set (fill_press (take 6 ?new))" for x
      using sub [OF that] by (auto simp: pos_ok_def no_pos_def)
    then show ?thesis by (simp add: list_all_iff)
  qed
  have normal: "kb_ok (normal_mode_report t ?new s)" for t
    using ok press layers_ok_lay [of "normal_mode_report t ?new s" s]
    by (simp add: kb_ok_def normal_mode_report_def matrix_flag_signal_def Let_def lay_def shape_def
        pos_ok_def in_matrix_def fill_press_def cong: list.pred_cong)
  have exit: "kb_ok (normal_mode_report t ?new (s \<lparr>matrix_test_mode := False\<rparr>))" for t
    using normal [of t] layers_ok_lay [of "normal_mode_report t ?new (s \<lparr>matrix_test_mode := False\<rparr>)"
        "normal_mode_report t ?new s"]
    by (simp add: kb_ok_def normal_mode_report_def matrix_flag_signal_def Let_def lay_def shape_def
        pos_ok_def in_matrix_def cong: list.pred_cong)
  have "kb_ok (test_mode_report t ?new s)" for t
    by (rule kb_ok_base [OF _ ok])
      (use ok in \<open>simp_all add: test_mode_report_def Let_def base_def lay_def shape_def queue_ok_def kb_ok_def\<close>)
  then show ?thesis
    using normal exit by (simp add: keyboard_btn_cb_def Let_def)
qed

lemma kb_ok_sender: "kb_ok s \<Longrightarrow> kb_ok (hid_sender_step l a b c s)"
proof -
  assume ok: "kb_ok s"
  have sent: "base (fst (hid_send_kb_mouse l a m kc md t)) = base t" for m kc md t
    by (simp add: hid_send_kb_mouse_def send_usb_kb_mouse_def)
  have q: "queue_ok (fst (hid_send_kb_mouse l a m kc md t)) = queue_ok t" for m kc md and t :: kb
    by (simp add: hid_send_kb_mouse_def send_usb_kb_mouse_def)
  have len: "length (fst (sender_content c msg rest s)) \<le> length rest" for msg rest
    by (simp add: sender_content_def queue_send_def split: hid_msg.splits list.splits)
  have le: "length rest \<le> HID_QUEUE_LEN" if "hid_queue s = Some (msg # rest)" for msg rest
    using ok that by (simp add: kb_ok_def)
  show ?thesis
    by (rule kb_ok_base [OF _ ok])
      (use ok le in \<open>auto simp: hid_sender_step_def Let_def case_prod_beta sent q kb_ok_queue
         intro: order.trans [OF len] split: option.splits list.splits\<close>)
qed

lemma kb_ok_mouse: "kb_ok s \<Longrightarrow> kb_ok (send_mouse_report l takes m s)"
proof -
  assume ok: "kb_ok s"
  have "length (send_front t x q) \<le> HID_QUEUE_LEN" if "length q \<le> HID_QUEUE_LEN" for t x q
    using that by (auto simp: send_front_def Let_def case_prod_beta queue_send_def)
  then show ?thesis
    by (intro kb_ok_base [OF _ ok])
      (use ok in \<open>auto simp: send_mouse_report_def hid_send_mouse_def send_usb_mouse_def kb_ok_queue
         kb_ok_def split: option.splits\<close>)
qed

lemma kb_ok_step: "kb_step s s' \<Longrightarrow> kb_ok s \<Longrightarrow> kb_ok s'"
  by (induction rule: kb_step.induct) (auto intro: kb_ok_callback kb_ok_turn kb_ok_sender kb_ok_mouse)

lemma kb_ok_reach: "kb_reach s0 s \<Longrightarrow> kb_ok s0 \<Longrightarrow> kb_ok s"
  by (induction rule: kb_reach.induct) (auto intro: kb_ok_step)


section \<open>The start\<close>

text \<open>The statics before \<open>keyboard_manager_init\<close>, on a board with the given matrix, keymap and
  macros, and the state after it.\<close>

definition kb_statics :: "nat \<Rightarrow> nat \<Rightarrow> u16 list list list \<Rightarrow> macro list \<Rightarrow> kb" where
  "kb_statics rows cols km macros =
     \<lparr>current_layout = 0, last_layer = 0, is_layer_changed = False,
      osm_pending_mods = 0, osl_pending_layer = -1, caps_word_active = False, last_keycode = 0,
      locked_layer = -1, wpm_counts = replicate WPM_WINDOW_SIZE 0, wpm_index = 0,
      wpm_current_count = 0, overrides = replicate KEY_OVERRIDE_MAX_SLOTS key_override_zero,
      tri_l1 = 0, tri_l2 = 0, tri_result = 0,
      th_pending = replicate TAP_HOLD_MAX_PENDING th_zero, active_hold_mods = 0,
      active_hold_layer = -1, hold_activated_flag = False, th_seq = 0, th_layer_base = -1,
      td_configs = replicate TAP_DANCE_MAX_SLOTS [0, 0, 0, 0],
      td_active = \<lparr>td_state = TD_IDLE, td_index = 0, td_tap_count = 0, td_row = 0, td_col = 0,
        td_key_held = False, td_last_tap_ms = 0\<rparr>,
      td_resolved_keycode = 0, td_resolved_flag = False,
      cb_configs = replicate COMBO_MAX_SLOTS combo_zero,
      deferred = replicate MAX_DEFERRED deferred_zero,
      combo_active = replicate COMBO_MAX_SLOTS False, resolved_queue = [], expired_queue = [],
      ld_entries = replicate LEADER_MAX_ENTRIES leader_zero, ld_active = False, ld_buffer = [],
      ld_last_key_ms = 0, ld_resolved_key = 0, ld_resolved_mod = 0, ld_resolved_flag = False,
      kp_keymaps = km, kp_macros = macros, keycodes = replicate 6 0,
      current_press = replicate 6 (0, 0), keypress_internal_function = 0, layer_changer = no_pos,
      lm_active_mods = 0, extra_keycodes = replicate 6 0, prev_press = replicate 6 no_pos,
      tap_injected_slots = 0, pending_macro_idx = -1, macro_hold_mods = 0, report_mods = 0,
      usb_bl_state = 0, kp_out = [],
      hid_queue = None, hid_mutex = False, hid_dedup = dedup_zero, current_modifiers = 0, wire = [],
      matrix_rows = rows, matrix_cols = cols, prev_matrix_state = [], matrix_state = [],
      current_press_stat = replicate 6 0, stat_matrix_changed = 0, last_activity_time_ms = 0,
      matrix_test_mode = False, matrix_test_last_activity_ms = 0, matrix_events = [],
      stat_presses = [], display_presses = 0\<rparr>"

definition kb_boot :: "nat \<Rightarrow> nat \<Rightarrow> u16 list list list \<Rightarrow> macro list \<Rightarrow> kb" where
  "kb_boot rows cols km macros = keyboard_manager_init True True (kb_statics rows cols km macros)"

lemma kb_boot_ok: "0 < rows \<Longrightarrow> 0 < cols \<Longrightarrow> kb_ok (kb_boot rows cols km macros)"
  by (simp add: kb_boot_def keyboard_manager_init_def hid_report_init_def key_override_init_def
      leader_init_def combo_init_def tap_dance_init_def tap_hold_init_def kb_statics_def kb_ok_def
      layers_ok_def shape_def pos_ok_def in_matrix_def list_all_iff LAYERS_def
      TAP_HOLD_MAX_PENDING_def MAX_DEFERRED_def COMBO_MAX_SLOTS_def)

section \<open>Where the keymap is read\<close>

text \<open>The layer and the position of every keymap entry a scan cycle reads: the momentary layers
  are looked up on the layer left by the releases, the keys on the layer of the cycle, and a
  transparent key on the last layer, as it is when its slot is worked on.\<close>

definition slot_start :: "int \<Rightarrow> kb \<Rightarrow> nat \<Rightarrow> kb" where
  "slot_start now s i =
     (let s1 = build_layers s; layer = cycle_layer s1;
          mods = tap_hold_get_active_mods s1 OR physical_mods_of layer s1
      in fst (fold (process_slot now layer mods) [0..<i]
           (s1, \<lparr>acc_normal = False, acc_add = 0, acc_suppress = 0\<rparr>)))"

definition keymap_reads :: "int \<Rightarrow> kb \<Rightarrow> (u8 \<times> key_pos) list" where
  "keymap_reads now s =
     (let valid = filter (\<lambda>i. snd (current_press s ! i) \<noteq> INVALID_KEY_POS) [0..<6];
          s0 = detect_releases (s \<lparr>tap_injected_slots := 0, macro_hold_mods := 0\<rparr>)
      in map (\<lambda>i. (current_layout s0, current_press s ! i)) valid @
         map (\<lambda>i. (cycle_layer (build_layers s), current_press s ! i)) valid @
         map (\<lambda>i. (last_layer (slot_start now s i), current_press s ! i)) valid)"

lemma slot_start_ok: "layers_ok s \<Longrightarrow> layers_ok (slot_start now s i)"
  unfolding slot_start_def Let_def by (rule slots_ok [OF build_layers_ok])

lemma released_ok:
  assumes "layers_ok s"
  shows "layers_ok (detect_releases (s \<lparr>tap_injected_slots := 0, macro_hold_mods := 0\<rparr>))"
proof -
  have "layers_ok (s \<lparr>tap_injected_slots := 0, macro_hold_mods := 0\<rparr>)"
    using assms layers_ok_lay [of "s \<lparr>tap_injected_slots := 0, macro_hold_mods := 0\<rparr>" s] by simp
  then show ?thesis
    unfolding detect_releases_def by (rule fold_inv [rotated]) (rule release_ok)
qed


lemma callback_press:
  "\<not> matrix_test_mode s \<Longrightarrow>
    current_press (keyboard_btn_cb now keys s) = fill_press (take 6 (filter (in_matrix s) keys))"
  by (simp add: keyboard_btn_cb_def normal_mode_report_def matrix_flag_signal_def Let_def)

definition blank_keymap :: "u16 list list list" where
  "blank_keymap = replicate 10 (replicate 4 (replicate 7 0))"



end
