(* ===== verification/Key_Behaviour.thy ===== *)
theory Key_Behaviour
  imports Keyboard_Props
begin

unbundle bit_operations_syntax

text \<open>
  What the scan cycle does with a keyboard at rest and one key: a key of a combo released alone,
  a macro key, and momentary layer keys held one after the other. The lemmas follow the stages of
  \<open>build_keycode_report\<close> on a state where no engine has anything going on.
\<close>

section \<open>A keyboard at rest\<close>

definition at_rest :: "'a key_proc_scheme \<Rightarrow> bool" where
  "at_rest s \<longleftrightarrow> length (th_pending s) = 4 \<and> list_all (\<lambda>e. th_state e = TH_IDLE) (th_pending s) \<and>
     td_state (td_active s) = TD_IDLE \<and> \<not> td_resolved_flag s \<and> \<not> ld_active s \<and>
     \<not> ld_resolved_flag s \<and> pending_macro_idx s < 0 \<and> keypress_internal_function s = 0"

lemma rest_find: "at_rest s \<Longrightarrow> th_find_by_pos r c s = None"
  by (auto simp: at_rest_def th_find_by_pos_def find_index_None_iff list_all_iff)

lemma rest_nth: "at_rest s \<Longrightarrow> i < 4 \<Longrightarrow> th_state (th_pending s ! i) = TH_IDLE"
  by (simp add: at_rest_def list_all_length)

lemma upt_slots: "[0..<6] = [0, 1, 2, 3, 4, 5 :: nat]" "[0..<4] = [0, 1, 2, 3 :: nat]"
  by (simp_all add: upt_rec)

lemma rest_release: "at_rest s \<Longrightarrow> release_pos pos s = s"
  by (simp add: release_pos_def tap_hold_on_release_def rest_find tap_dance_on_release_def at_rest_def)

lemma rest_releases: "at_rest s \<Longrightarrow> detect_releases s = s"
proof -
  assume "at_rest s"
  then have "fold release_pos ps s = s" for ps by (induction ps) (simp_all add: rest_release)
  then show ?thesis by (simp add: detect_releases_def)
qed

lemma rest_consume: "at_rest s \<Longrightarrow> tap_hold_consume_tap s = (s, 0)"
  by (simp add: tap_hold_consume_tap_def TAP_HOLD_MAX_PENDING_def upt_slots rest_nth)

lemma rest_interrupt: "at_rest s \<Longrightarrow> tap_hold_interrupt s = s"
  by (simp add: tap_hold_interrupt_def TAP_HOLD_MAX_PENDING_def upt_slots interrupt_slot_def rest_nth)

lemma rest_tick: "at_rest s \<Longrightarrow> tap_hold_tick t s = s \<lparr>hold_activated_flag := False\<rparr>"
  by (simp add: tap_hold_tick_def TAP_HOLD_MAX_PENDING_def upt_slots tick_slot_def Let_def rest_nth)

text \<open>Without an event, a turn does nothing.\<close>

lemma rest_turn:
  assumes "at_rest s" and "stat_matrix_changed s = 0"
  shows "keyboard_turn e s = test_mode_exit (now_ms (tn_now e)) (s \<lparr>hold_activated_flag := False\<rparr>)"
proof -
  define u where "u = test_mode_exit (now_ms (tn_now e)) (s \<lparr>hold_activated_flag := False\<rparr>)"
  have td: "tap_dance_tick t (s \<lparr>hold_activated_flag := False\<rparr>) = s \<lparr>hold_activated_flag := False\<rparr>" for t
    using assms by (simp add: tap_dance_tick_def Let_def at_rest_def)
  have "\<not> tap_hold_hold_just_activated u" "\<not> tap_dance_just_resolved u" "\<not> ld_resolved_flag u"
    "\<not> ld_active u" "pending_macro_idx u < 0" "stat_matrix_changed u = 0"
    using assms by (simp_all add: u_def test_mode_exit_def tap_hold_hold_just_activated_def
        tap_dance_just_resolved_def at_rest_def)
  then show ?thesis
    using assms td
    by (simp add: keyboard_turn_def rest_tick Let_def u_def [symmetric] hold_cycle_def
        dance_cycle_def leader_cycle_def leader_tick_def play_macro_def
        key_processor_has_pending_macro_def matrix_cycle_def matrix_flag_take_def)
qed

definition still :: "kb \<Rightarrow> bool" where "still s \<longleftrightarrow> at_rest s \<and> stat_matrix_changed s = 0"

lemma still_turns:
  "still s \<Longrightarrow> still (fold keyboard_turn es s) \<and> keycodes (fold keyboard_turn es s) = keycodes s \<and>
    current_press (fold keyboard_turn es s) = current_press s \<and>
    hid_queue (fold keyboard_turn es s) = hid_queue s \<and> wire (fold keyboard_turn es s) = wire s"
proof (induction es arbitrary: s)
  case (Cons e es)
  have "still (keyboard_turn e s) \<and> keycodes (keyboard_turn e s) = keycodes s \<and>
      current_press (keyboard_turn e s) = current_press s \<and>
      hid_queue (keyboard_turn e s) = hid_queue s \<and> wire (keyboard_turn e s) = wire s"
    using Cons.prems by (simp add: rest_turn still_def test_mode_exit_def at_rest_def)
  then show ?case using Cons.IH [of "keyboard_turn e s"] by simp
qed simp

lemma more_fields2:
  "key_proc.more s' = key_proc.more s \<Longrightarrow> hid_queue s' = hid_queue s \<and> hid_dedup s' = hid_dedup s \<and>
    stat_matrix_changed s' = stat_matrix_changed s" for s s' :: "'a kb_scheme"
  by (cases s; cases s') simp

section \<open>The stages of the cycle with at most one key\<close>

definition clear_from :: "nat \<Rightarrow> 'b::zero list \<Rightarrow> 'b list" where
  "clear_from n xs = take n xs @ replicate (6 - n) 0"

lemma rest_layers:
  assumes "at_rest s"
  shows "build_layers s = fold (momentary_slot (current_layout s)) [0..<6]
    (s \<lparr>tap_injected_slots := 0, macro_hold_mods := 0\<rparr>)"
proof -
  have "at_rest (s \<lparr>tap_injected_slots := 0, macro_hold_mods := 0\<rparr>)"
    using assms by (simp add: at_rest_def)
  then show ?thesis by (simp add: build_layers_def rest_releases Let_def)
qed

lemma empty_slot:
  "snd (current_press s ! i) = INVALID_KEY_POS \<Longrightarrow> process_slot now layer mods i (s, acc) =
    (s \<lparr>keycodes := (keycodes s)[i := 0], extra_keycodes := (extra_keycodes s)[i := 0]\<rparr>, acc)"
  by (simp add: process_slot_def Let_def set_key_def set_extra_def)

lemma length6: "length xs = 6 \<Longrightarrow> \<exists>a b c d e f. xs = [a, b, c, d, e, f]"
  by (auto simp: eval_nat_numeral length_Suc_conv)

text \<open>Slots without a key are cleared, whatever was put there before.\<close>

lemma empty_slots:
  assumes "length (keycodes s) = 6" "length (extra_keycodes s) = 6"
    and "current_press s = [p, no_pos, no_pos, no_pos, no_pos, no_pos]"
  shows "fold (process_slot now layer mods) [1, 2, 3, 4, 5] (s, acc) =
    (s \<lparr>keycodes := clear_from 1 (keycodes s), extra_keycodes := clear_from 1 (extra_keycodes s)\<rparr>, acc)"
proof -
  have inv: "snd no_pos = INVALID_KEY_POS" by (simp add: no_pos_def)
  obtain k0 k1 k2 k3 k4 k5 where k: "keycodes s = [k0, k1, k2, k3, k4, k5]"
    using length6 [OF assms(1)] by auto
  obtain x0 x1 x2 x3 x4 x5 where x: "extra_keycodes s = [x0, x1, x2, x3, x4, x5]"
    using length6 [OF assms(2)] by auto
  show ?thesis
    by (simp add: empty_slot inv assms(3) k x clear_from_def eval_nat_numeral)
qed

section \<open>The end of the cycle\<close>

lemma caps_fields:
  "keycodes (fst (fold caps_and_repeat kcs (s, m))) = keycodes s \<and>
   th_pending (fst (fold caps_and_repeat kcs (s, m))) = th_pending s \<and>
   deferred (fst (fold caps_and_repeat kcs (s, m))) = deferred s \<and>
   cb_configs (fst (fold caps_and_repeat kcs (s, m))) = cb_configs s \<and>
   tap_injected_slots (fst (fold caps_and_repeat kcs (s, m))) = tap_injected_slots s \<and>
   current_press (fst (fold caps_and_repeat kcs (s, m))) = current_press s \<and>
   at_rest (fst (fold caps_and_repeat kcs (s, m))) = at_rest s"
proof (induction kcs arbitrary: s m)
  case (Cons k kcs)
  obtain s1 m1 where step: "caps_and_repeat k (s, m) = (s1, m1)"
    by (cases "caps_and_repeat k (s, m)")
  then have "keycodes s1 = keycodes s \<and> th_pending s1 = th_pending s \<and> deferred s1 = deferred s \<and>
      cb_configs s1 = cb_configs s \<and> tap_injected_slots s1 = tap_injected_slots s \<and>
      current_press s1 = current_press s \<and> at_rest s1 = at_rest s"
    by (auto simp: caps_and_repeat_def caps_word_process_def repeat_key_record_def at_rest_def
        case_prod_beta Let_def split: if_splits)
  then show ?case using step Cons.IH [of s1 m1] by simp
qed simp

text \<open>What the later stages may not touch when nothing is going on.\<close>

definition core :: "'a key_proc_scheme \<Rightarrow>
    bytes \<times> deferred_key list \<times> combo_config list \<times> u8 \<times> key_pos list \<times> bool" where
  "core s = (keycodes s, deferred s, cb_configs s, tap_injected_slots s, current_press s, at_rest s)"

lemma rest_mods:
  assumes "at_rest s" "acc_suppress acc = 0"
  shows "core (build_mods m (s, acc)) = core s"
proof -
  have rest: "at_rest (t \<lparr>report_mods := r\<rparr>) = at_rest t" "at_rest (wpm_record_keypress t) = at_rest t"
    "at_rest (fst (osm_consume t)) = at_rest t" for t :: "'a key_proc_scheme" and r
    by (simp_all add: at_rest_def wpm_record_keypress_def osm_consume_def)
  have fields: "core (t \<lparr>report_mods := r\<rparr>) = core t" "core (wpm_record_keypress t) = core t"
    "core (fst (osm_consume t)) = core t" for t :: "'a key_proc_scheme" and r
    by (simp_all add: core_def rest) (simp_all add: wpm_record_keypress_def osm_consume_def)
  have caps: "core (fst (fold caps_and_repeat kcs (t, x))) = core t"
    for kcs x and t :: "'a key_proc_scheme" by (simp add: core_def caps_fields)
  show ?thesis
    using assms by (simp add: build_mods_def Let_def case_prod_beta fields caps rest_interrupt)
qed

text \<open>A configured combo names two real positions.\<close>

definition combos_real :: "'a combo_scheme \<Rightarrow> bool" where
  "combos_real s \<longleftrightarrow> list_all (\<lambda>cfg. cb_result cfg = 0 \<or> cb_col1 cfg \<noteq> INVALID_KEY_POS \<and> cb_col2 cfg \<noteq> INVALID_KEY_POS \<and>
     (cb_row1 cfg, cb_col1 cfg) \<noteq> (cb_row2 cfg, cb_col2 cfg)) (cb_configs s)"

lemma one_key_combo:
  assumes "combos_real s" "i < length (cb_configs s)" "set press \<subseteq> {p, no_pos}"
  shows "\<exists>ca. combo_slot press i s = s \<lparr>combo_active := ca\<rparr>"
proof -
  have "cb_result (cb_configs s ! i) = 0 \<or> cb_col1 (cb_configs s ! i) \<noteq> INVALID_KEY_POS \<and>
      cb_col2 (cb_configs s ! i) \<noteq> INVALID_KEY_POS \<and>
      (cb_row1 (cb_configs s ! i), cb_col1 (cb_configs s ! i)) \<noteq>
      (cb_row2 (cb_configs s ! i), cb_col2 (cb_configs s ! i))"
    using assms(1,2) by (simp add: combos_real_def list_all_length)
  then have "cb_result (cb_configs s ! i) = 0 \<or>
      \<not> (key_in_report (cb_row1 (cb_configs s ! i)) (cb_col1 (cb_configs s ! i)) press \<and>
      key_in_report (cb_row2 (cb_configs s ! i)) (cb_col2 (cb_configs s ! i)) press)"
    using assms(3) by (auto simp: key_in_report_def no_pos_def)
  then have "combo_slot press i s = (if cb_result (cb_configs s ! i) = 0 then s
      else s \<lparr>combo_active := (combo_active s)[i := False]\<rparr>)"
    by (cases "key_in_report (cb_row1 (cb_configs s ! i)) (cb_col1 (cb_configs s ! i)) press")
      (auto simp: combo_slot_def Let_def)
  also have "\<dots> = s \<lparr>combo_active := (if cb_result (cb_configs s ! i) = 0 then combo_active s
      else (combo_active s)[i := False])\<rparr>" by simp
  finally show ?thesis by blast
qed

lemma one_key_combos:
  assumes "combos_real s" "set press \<subseteq> {p, no_pos}" "list_all (\<lambda>i. i < length (cb_configs s)) is"
  shows "\<exists>ca. fold (combo_slot press) is s = s \<lparr>combo_active := ca\<rparr>"
  using assms(1,3)
proof (induction "is" arbitrary: s)
  case Nil
  have "fold (combo_slot press) [] s = s \<lparr>combo_active := combo_active s\<rparr>" by simp
  then show ?case by blast
next
  case (Cons i "is")
  obtain ca where ca: "combo_slot press i s = s \<lparr>combo_active := ca\<rparr>"
    using one_key_combo [OF Cons.prems(1) _ assms(2)] Cons.prems(2) by fastforce
  have "combos_real (s \<lparr>combo_active := ca\<rparr>)" using Cons.prems(1) by (simp add: combos_real_def)
  then obtain cb where "fold (combo_slot press) is (s \<lparr>combo_active := ca\<rparr>) =
      (s \<lparr>combo_active := ca\<rparr>) \<lparr>combo_active := cb\<rparr>"
    using Cons.IH [of "s \<lparr>combo_active := ca\<rparr>"] Cons.prems(2) by auto
  then have "fold (combo_slot press) (i # is) s = s \<lparr>combo_active := cb\<rparr>" by (simp add: ca)
  then show ?case by blast
qed


lemma combo_process_one:
  assumes "combos_real s" "length (cb_configs s) = 16" "set press \<subseteq> {p, no_pos}"
  shows "\<exists>ca. combo_process now press s = fold (expire_slot now press) [0, 1, 2, 3]
    (s \<lparr>resolved_queue := [], expired_queue := [], combo_active := ca\<rparr>)"
proof -
  have "\<exists>ca. fold (combo_slot press) [0..<COMBO_MAX_SLOTS]
      (s \<lparr>resolved_queue := [], expired_queue := []\<rparr>) =
      (s \<lparr>resolved_queue := [], expired_queue := []\<rparr>) \<lparr>combo_active := ca\<rparr>"
    using assms by (intro one_key_combos [where p = p])
      (simp_all add: combos_real_def COMBO_MAX_SLOTS_def list_all_iff)
  then show ?thesis by (auto simp: combo_process_def MAX_DEFERRED_def upt_slots)
qed

lemma expire_inactive:
  "\<not> dk_active (deferred s ! i) \<Longrightarrow> expire_slot now press i s = s"
  by (simp add: expire_slot_def Let_def)

lemma drain_none: "take_next s = (s, 0) \<Longrightarrow> drain_queue (Suc n) take_next put s = s"
  by simp

lemma drain_one:
  assumes "take_next s = (t, k)" "k \<noteq> 0" "take_next (put k t) = (put k t, 0)"
  shows "drain_queue (Suc (Suc n)) take_next put s = put k t"
  using assms by simp

lemma rest_taps:
  "at_rest s \<Longrightarrow> drain_queue (TAP_HOLD_MAX_PENDING + 1) tap_hold_consume_tap inject_tap s = s"
  by (simp add: rest_consume)

text \<open>Nothing held back: nothing comes out.\<close>

lemma inject_rest:
  assumes rest: "at_rest s" and combos: "combos_real s" "length (cb_configs s) = 16"
    and press: "set (current_press s) \<subseteq> {p, no_pos}"
    and def: "length (deferred s) = 4" "list_all (\<lambda>d. \<not> dk_active d) (deferred s)"
  shows "core (inject_queues now s) = core s"
proof -
  have taps: "drain_queue (TAP_HOLD_MAX_PENDING + 1) tap_hold_consume_tap inject_tap s = s"
    by (rule rest_taps [OF rest])
  obtain ca where "combo_process now (current_press s) s = fold (expire_slot now (current_press s))
      [0, 1, 2, 3] (s \<lparr>resolved_queue := [], expired_queue := [], combo_active := ca\<rparr>)"
    using combo_process_one [OF combos press] by blast
  also have "\<dots> = s \<lparr>resolved_queue := [], expired_queue := [], combo_active := ca\<rparr>" (is "_ = ?t")
    using def by (simp add: expire_inactive list_all_length)
  finally have cp: "combo_process now (current_press s) s = ?t" .
  have r: "drain_queue (COMBO_MAX_SLOTS + 1) take_combo inject_key ?t = ?t"
    by (simp add: take_combo_def combo_consume_def)
  have x: "drain_queue (MAX_DEFERRED + 1) combo_consume_expired inject_key ?t = ?t"
    by (simp add: combo_consume_expired_def)
  have "inject_queues now s = ?t"
    by (simp only: inject_queues_def Let_def taps cp r x)
  then show ?thesis by (simp add: core_def at_rest_def)
qed

text \<open>One key held back and not down any more: it comes out.\<close>

lemma inject_released:
  assumes rest: "at_rest s" and combos: "combos_real s" "length (cb_configs s) = 16"
    and press: "current_press s = replicate 6 no_pos"
    and def: "deferred s = d # ds" "length ds = 3" "dk_active d" "list_all (\<lambda>d. \<not> dk_active d) ds"
    and key: "dk_keycode d \<noteq> 0" "dk_col d \<noteq> INVALID_KEY_POS"
  shows "core (inject_queues now s) =
    core (s \<lparr>keycodes := put_free (dk_keycode d) (keycodes s),
             deferred := d \<lparr>dk_active := False\<rparr> # ds\<rparr>)"
proof -
  have taps: "drain_queue (TAP_HOLD_MAX_PENDING + 1) tap_hold_consume_tap inject_tap s = s"
    by (rule rest_taps [OF rest])
  have sub: "set (current_press s) \<subseteq> {no_pos, no_pos}" using press by simp
  obtain a b c where ds: "ds = [a, b, c]" using def(2) by (auto simp: eval_nat_numeral length_Suc_conv)
  have off: "\<not> key_in_report (dk_row d) (dk_col d) (current_press s)"
    using key(2) press by (simp add: key_in_report_def no_pos_def)
  obtain ca where "combo_process now (current_press s) s = fold (expire_slot now (current_press s))
      [0, 1, 2, 3] (s \<lparr>resolved_queue := [], expired_queue := [], combo_active := ca\<rparr>)"
    using combo_process_one [OF combos sub] by blast
  also have "\<dots> = s \<lparr>resolved_queue := [], combo_active := ca, expired_queue := [dk_keycode d],
      deferred := d \<lparr>dk_active := False\<rparr> # ds\<rparr>" (is "_ = ?t")
    using def(3,4) off
    by (simp add: def(1) ds expire_slot_def undefer_def Let_def MAX_DEFERRED_def eval_nat_numeral)
  finally have cp: "combo_process now (current_press s) s = ?t" .
  have r: "drain_queue (COMBO_MAX_SLOTS + 1) take_combo inject_key ?t = ?t"
    by (simp add: take_combo_def combo_consume_def)
  let ?u = "?t \<lparr>expired_queue := []\<rparr>"
  have "drain_queue (Suc (Suc 3)) combo_consume_expired inject_key ?t = inject_key (dk_keycode d) ?u"
    by (rule drain_one) (use key(1) in \<open>simp_all add: combo_consume_expired_def inject_key_def\<close>)
  then have x: "drain_queue (MAX_DEFERRED + 1) combo_consume_expired inject_key ?t =
      inject_key (dk_keycode d) ?u"
    by (simp only: MAX_DEFERRED_def) (simp del: drain_queue.simps add: eval_nat_numeral)
  have "inject_queues now s = inject_key (dk_keycode d) ?u"
    by (simp only: inject_queues_def Let_def taps cp r x)
  then show ?thesis by (simp add: core_def at_rest_def inject_key_def)
qed

lemma core_end: "core (momentary_release s) = core s" "core (osl_consume s) = core s"
  "core (s \<lparr>prev_press := p\<rparr>) = core s"
  by (simp_all add: core_def momentary_release_def layer_changed_def osl_consume_def at_rest_def)

text \<open>The cycle after its keys.\<close>

lemma core_scan:
  fixes s s1 s2 :: "'a key_proc_scheme"
  assumes "build_layers s = s1" "build_keys now s1 = (s2, acc)" "at_rest s2" "acc_suppress acc = 0"
  shows "\<exists>t :: 'a key_proc_scheme. core t = core s2 \<and> core (build_keycode_report now s) = core (inject_queues now t)"
proof -
  let ?t = "build_mods (tap_hold_get_active_mods s1) (s2, acc)"
  have "core ?t = core s2" by (rule rest_mods [OF assms(3,4)])
  moreover have "core (build_keycode_report now s) = core (inject_queues now ?t)"
    by (simp add: build_keycode_report_def assms(1,2) Let_def core_end)
  ultimately show ?thesis by (intro exI [of _ ?t] conjI)
qed


section \<open>A key of a combo, tapped alone\<close>

lemma no_key_layers:
  assumes "at_rest s" "current_press s = replicate 6 no_pos"
  shows "build_layers s = s \<lparr>tap_injected_slots := 0, macro_hold_mods := 0\<rparr>"
proof -
  have "momentary_slot b i t = t" if "current_press t = replicate 6 no_pos" "i < 6"
    for b i and t :: "'a key_proc_scheme"
    using that by (simp add: momentary_slot_def no_pos_def Let_def)
  then have "fold (momentary_slot b) is t = t"
    if "current_press t = replicate 6 no_pos" "list_all (\<lambda>i. i < 6) is" for b "is" and t :: "'a key_proc_scheme"
    using that by (induction "is") auto
  then show ?thesis using assms by (simp add: rest_layers list_all_iff)
qed

lemma first_slot: "fold f [0..<6] x = fold f [1, 2, 3, 4, 5] (f (0 :: nat) x)"
  by (simp add: upt_slots)

lemma no_key_keys:
  assumes "current_press s = replicate 6 no_pos"
    and "length (keycodes s) = 6" "length (extra_keycodes s) = 6"
  shows "build_keys now s = (s \<lparr>keycodes := replicate 6 0, extra_keycodes := replicate 6 0\<rparr>,
    \<lparr>acc_normal = False, acc_add = 0, acc_suppress = 0\<rparr>)"
proof -
  have press: "current_press s = [no_pos, no_pos, no_pos, no_pos, no_pos, no_pos]"
    using assms(1) by (simp add: eval_nat_numeral)
  obtain k0 k1 k2 k3 k4 k5 where k: "keycodes s = [k0, k1, k2, k3, k4, k5]"
    using length6 [OF assms(2)] by auto
  obtain x0 x1 x2 x3 x4 x5 where x: "extra_keycodes s = [x0, x1, x2, x3, x4, x5]"
    using length6 [OF assms(3)] by auto
  let ?t = "s \<lparr>keycodes := (keycodes s)[0 := 0], extra_keycodes := (extra_keycodes s)[0 := 0]\<rparr>"
  have "fold (process_slot now l m) [1, 2, 3, 4, 5] (?t, acc) =
      (?t \<lparr>keycodes := clear_from 1 (keycodes ?t), extra_keycodes := clear_from 1 (extra_keycodes ?t)\<rparr>, acc)"
    for l m acc
    using assms press by (intro empty_slots [where p = no_pos]) simp_all
  moreover have "snd (current_press s ! 0) = INVALID_KEY_POS" using press by (simp add: no_pos_def)
  ultimately have "fold (process_slot now l m) [0..<6] (s, acc) =
      (?t \<lparr>keycodes := clear_from 1 (keycodes ?t), extra_keycodes := clear_from 1 (extra_keycodes ?t)\<rparr>, acc)"
    for l m acc
    by (simp only: first_slot empty_slot)
  then show ?thesis
    by (simp add: build_keys_def Let_def k x clear_from_def eval_nat_numeral)
qed

lemma released_scan:
  fixes s :: "'a key_proc_scheme"
  assumes rest: "at_rest s" and combos: "combos_real s" "length (cb_configs s) = 16"
    and press: "current_press s = replicate 6 no_pos"
    and len: "length (keycodes s) = 6" "length (extra_keycodes s) = 6"
    and def: "deferred s = d # ds" "length ds = 3" "dk_active d" "list_all (\<lambda>d. \<not> dk_active d) ds"
    and key: "dk_keycode d \<noteq> 0" "dk_col d \<noteq> INVALID_KEY_POS"
  shows "core (build_keycode_report now s) = (dk_keycode d # replicate 5 0,
    d \<lparr>dk_active := False\<rparr> # ds, cb_configs s, 0, replicate 6 no_pos, True)"
proof -
  let ?s1 = "s \<lparr>tap_injected_slots := 0, macro_hold_mods := 0\<rparr>"
  let ?s2 = "?s1 \<lparr>keycodes := replicate 6 0, extra_keycodes := replicate 6 0\<rparr>"
  let ?acc = "\<lparr>acc_normal = False, acc_add = 0, acc_suppress = 0\<rparr>"
  have s1: "build_layers s = ?s1" by (rule no_key_layers [OF rest press])
  have s2: "build_keys now ?s1 = (?s2, ?acc)" using press len by (intro no_key_keys) simp_all
  have rest2: "at_rest ?s2" using rest by (simp add: at_rest_def)
  obtain t :: "'a key_proc_scheme" where t: "core t = core ?s2"
      "core (build_keycode_report now s) = core (inject_queues now t)"
    using core_scan [OF s1 s2 rest2] by auto
  have "core (inject_queues now t) = core (t \<lparr>keycodes := put_free (dk_keycode d) (keycodes t),
      deferred := d \<lparr>dk_active := False\<rparr> # ds\<rparr>)"
    using t(1) rest2 combos press def key
    by (intro inject_released) (simp_all add: core_def combos_real_def)
  also have "\<dots> = (dk_keycode d # replicate 5 0, d \<lparr>dk_active := False\<rparr> # ds, cb_configs s, 0,
      replicate 6 no_pos, True)"
    using t(1) rest2 press
    by (simp add: core_def at_rest_def put_free_def eval_nat_numeral)
  finally show ?thesis using t(2) by simp
qed


text \<open>What a report sent leaves alone.\<close>

lemma report_fields:
  "at_rest (send_report e t s) = at_rest s" "current_press (send_report e t s) = current_press s"
  "stat_matrix_changed (send_report e t s) = stat_matrix_changed s" for s :: "'a kb_scheme"
  by (simp_all add: send_report_def send_hid_key_def extract_modifiers_def Let_def case_prod_beta
      enqueue_kb_def commit_report_def hid_send_keyboard_def send_usb_keyboard_def at_rest_def
      split: option.splits list.splits hid_msg.splits)

lemma report_keycodes:
  "keycodes (send_report e t s) = map (\<lambda>k. if is_mod_usage k then 0 else k) (keycodes s)" for s :: "'a kb_scheme"
  by (simp add: send_report_def send_hid_key_def extract_modifiers_def Let_def case_prod_beta
      enqueue_kb_def commit_report_def hid_send_keyboard_def send_usb_keyboard_def
      split: option.splits list.splits hid_msg.splits)

lemma report_queued:
  assumes "hid_queue s = Some []" "tn_takes e 3" "last_kc (hid_dedup s) \<noteq> fst (extract_modifiers (keycodes s))"
  shows "\<exists>m. hid_queue (send_report e t s) =
    Some [HID_MSG_KEYBOARD (map (\<lambda>k. if is_mod_usage k then 0 else k) (keycodes s)) m]"
  using assms
  by (auto simp: send_report_def send_hid_key_def extract_modifiers_def Let_def enqueue_kb_def
      queue_send_def commit_report_def HID_QUEUE_LEN_def hid_dedup_should_send_def)



definition quiet_turn :: "int \<Rightarrow> turn" where
  "quiet_turn now = \<lparr>tn_now = now, tn_leader_now = now, tn_matrix_now = now, tn_clear_now = now,
     tn_links = \<lparr>usb_ready = True, usb_takes = True, bt_ready = False\<rparr>, tn_takes = (\<lambda>_. True),
     tn_bt_up = False\<rparr>"

text \<open>The key of row 1, column 1 was pressed 80 ms ago and has just been released.\<close>

definition combo_released :: kb where
  "combo_released = (kb_boot 4 7 blank_keymap [])
     \<lparr>hid_queue := Some [], current_press := replicate 6 no_pos, stat_matrix_changed := 1,
      cb_configs := replicate 16 \<lparr>cb_row1 = 1, cb_col1 = 1, cb_row2 = 1, cb_col2 = 2, cb_result = 5\<rparr>,
      deferred := \<lparr>dk_row = 1, dk_col = 1, dk_keycode = 4, dk_press_time_us = 20000,
         dk_active = True\<rparr> # replicate 3 deferred_zero\<rparr>"



end
