(* ===== verification/Key_Macros.thy ===== *)
theory Key_Macros
  imports Key_Behaviour
begin

unbundle bit_operations_syntax

text \<open>
  What a macro key that is held without delays puts into the report.
\<close>

section \<open>A macro key\<close>

lemma one_key_layers:
  assumes "at_rest s" "current_press s = [p, no_pos, no_pos, no_pos, no_pos, no_pos]"
    and "keymap_at s (current_layout s) p = kc" "\<not> (MO_L0 \<le> kc \<and> kc \<le> MO_L9)" "\<not> K_IS_LM kc"
  shows "build_layers s = s \<lparr>tap_injected_slots := 0, macro_hold_mods := 0\<rparr>"
proof -
  let ?t = "s \<lparr>tap_injected_slots := 0, macro_hold_mods := 0\<rparr>"
  have at: "keymap_at ?t (current_layout s) p = kc" using assms(3) by (simp add: keymap_at_def)
  have first: "momentary_slot (current_layout s) 0 ?t = ?t"
    using assms(2,4,5) at
    by (auto simp: momentary_slot_def apply_momentary_layer_def Let_def LAYERS_def)
  have none: "momentary_slot b i ?t = ?t" if "i = 1 \<or> i = 2 \<or> i = 3 \<or> i = 4 \<or> i = 5" for b i
    using assms(2) that by (auto simp: momentary_slot_def no_pos_def Let_def)
  show ?thesis
    unfolding rest_layers [OF assms(1)] first_slot first by (simp add: none)
qed

lemma macro_not_other:
  assumes "MACRO_1 \<le> kc" "kc \<le> MACRO_20"
  shows "\<not> (MO_L0 \<le> kc \<and> kc \<le> MO_L9)" "\<not> K_IS_LM kc" "\<not> is_advanced_keycode kc"
    "detect_internal_function kc s = s" "kc > 0xFF" "kc \<noteq> 0"
proof -
  have "unat kc \<ge> 0x1500" "unat kc \<le> 0x2800"
    using assms by (simp_all add: word_le_nat_alt MACRO_1_def MACRO_20_def)
  then show "\<not> (MO_L0 \<le> kc \<and> kc \<le> MO_L9)" "\<not> is_advanced_keycode kc"
      "detect_internal_function kc s = s" "kc > 0xFF" "kc \<noteq> 0"
    using assms
    by (auto simp: is_advanced_keycode_def detect_internal_function_def MO_L0_def MO_L9_def TO_L0_def
        TO_L9_def K_BT_NEXT_def BT_TOGGLE_def word_le_nat_alt word_less_nat_alt)
  have "kc AND 0xF000 \<le> kc" by (rule word_and_le2)
  then have "unat (kc AND 0xF000) \<le> 0x2800" using \<open>unat kc \<le> 0x2800\<close> by (simp add: word_le_nat_alt)
  then have "kc AND 0xF000 \<noteq> 0x7000" by auto
  then show "\<not> K_IS_LM kc" by (simp add: K_IS_LM_def)
qed

lemma put_free_keeps: "k \<noteq> 0 \<Longrightarrow> \<exists>kcs'. put_free x (k # kcs) = k # kcs'"
  by (simp add: put_free_def split: option.splits)

lemma put_steps_keep:
  "k \<noteq> 0 \<Longrightarrow> hd (fold (\<lambda>st. put_free (fst st)) steps (k # kcs)) = k"
proof (induction steps arbitrary: kcs)
  case (Cons st steps)
  obtain kcs' where "put_free (fst st) (k # kcs) = k # kcs'"
    using put_free_keeps [OF Cons.prems] by blast
  then show ?case using Cons.IH [OF Cons.prems] by simp
qed simp

text \<open>The key of the macro that is reported when its key is the only one down.\<close>

definition macro_first :: "macro \<Rightarrow> u8" where
  "macro_first m = (if macro_steps m = [] then hd (mc_keys m) else fst (hd (macro_steps m)))"

definition held_macro :: "macro \<Rightarrow> bool" where
  "held_macro m \<longleftrightarrow> mc_named m \<and> mc_keys m \<noteq> [] \<and>
     \<not> list_ex (\<lambda>st. fst st = MACRO_DELAY_MARKER) (macro_steps m)"

lemma step_nonzero: "macro_steps m = st # sts \<Longrightarrow> fst st \<noteq> 0"
proof -
  assume "macro_steps m = st # sts"
  then have "st \<in> set (macro_steps m)" by simp
  then have "st \<in> set (takeWhile (\<lambda>st. fst st \<noteq> 0) (take MACRO_MAX_STEPS (mc_steps m)))"
    by (simp add: macro_steps_def)
  from set_takeWhileD [OF this] show ?thesis by simp
qed

lemma macro_idx:
  assumes "MACRO_1 \<le> kc" "kc \<le> MACRO_20"
  shows "unat ((kc - MACRO_1) div 256) < MAX_MACROS"
proof -
  have "unat (kc - MACRO_1) = unat kc - unat MACRO_1" using assms(1) by (rule unat_sub)
  also have "\<dots> \<le> unat MACRO_20 - unat MACRO_1" using assms(2) by (simp add: word_le_nat_alt diff_le_mono)
  finally show ?thesis by (simp add: unat_div MACRO_1_def MACRO_20_def MAX_MACROS_def)
qed

lemma expand_first:
  assumes kc: "MACRO_1 \<le> kc" "kc \<le> MACRO_20" and keys: "keycodes s = replicate 6 0"
    and m: "held_macro (kp_macros s ! unat ((kc - MACRO_1) div 256))"
  shows "hd (keycodes (expand_macro kc new s)) = macro_first (kp_macros s ! unat ((kc - MACRO_1) div 256))"
    (is "_ = macro_first ?m")
proof (cases "macro_steps ?m")
  have range: "\<not> kc < MACRO_1" "\<not> MACRO_20 < kc"
    "\<not> MAX_MACROS \<le> unat ((kc - MACRO_1) div 256)" using kc macro_idx [OF kc] by auto
  note e = expand_macro_def Let_def held_macro_def macro_first_def range
  case Nil
  obtain x xs where "mc_keys ?m = x # xs" using m by (cases "mc_keys ?m") (auto simp: held_macro_def)
  then show ?thesis
    using Nil m keys by (simp add: e eval_nat_numeral)
next
  have range: "\<not> kc < MACRO_1" "\<not> MACRO_20 < kc"
    "\<not> MAX_MACROS \<le> unat ((kc - MACRO_1) div 256)" using kc macro_idx [OF kc] by auto
  note e = expand_macro_def Let_def held_macro_def macro_first_def range
  case (Cons st sts)
  have "put_free (fst st) (replicate 6 0) = fst st # replicate 5 0"
    by (simp add: put_free_def eval_nat_numeral)
  then show ?thesis
    using Cons m keys step_nonzero [OF Cons]
    by (simp add: e put_steps_keep)
qed

lemma expand_fields:
  "current_press (expand_macro kc new s) = current_press s"
  "extra_keycodes (expand_macro kc new s) = extra_keycodes s"
  "deferred (expand_macro kc new s) = deferred s" "cb_configs (expand_macro kc new s) = cb_configs s"
  "tap_injected_slots (expand_macro kc new s) = tap_injected_slots s"
  by (simp_all add: expand_macro_def Let_def)

lemma expand_rest:
  "at_rest s \<Longrightarrow> held_macro (kp_macros s ! unat ((kc - MACRO_1) div 256)) \<Longrightarrow> at_rest (expand_macro kc new s)"
  by (auto simp: expand_macro_def Let_def at_rest_def held_macro_def)

lemma macro_slot:
  assumes "at_rest s" "current_press s ! 0 = p" "snd p \<noteq> INVALID_KEY_POS" "keymap_at s layer p = kc"
    and kc: "MACRO_1 \<le> kc" "kc \<le> MACRO_20" and "layer_changer s \<noteq> p"
  shows "process_slot now layer mods 0 (s, acc) =
    (set_extra 0 kc (expand_macro kc (is_new_press p s) s), acc)"
proof -
  have "layer_changer (expand_macro kc b s) = layer_changer s" for b
    using kept_macro [of s kc b s] by (simp add: kept_def)
  moreover have "detect_internal_function kc s = s" by (rule macro_not_other(4) [OF kc])
  moreover have "\<not> is_advanced_keycode kc" "\<not> kc \<le> 0xFF" "kc > 0xFF" "kc \<noteq> 0"
    using macro_not_other(3,5,6) [OF kc] by auto
  moreover have "snd (tap_hold_get_resolved r c s) = False" for r c
    using rest_find [OF assms(1)] by (simp add: tap_hold_get_resolved_def)
  ultimately show ?thesis
    using assms(2-4,7) by (simp add: process_slot_def Let_def)
qed

text \<open>
  C34: A macro of several keys reaches the host as its first key only: when its key is alone
  down, the keys the macro put into the free places of the report are erased by the turn of
  those places in the same cycle. This holds for the shipped copy macro, Ctrl and C, which
  sends Ctrl.\<close>

theorem held_macro_keeps_first_key:
  fixes s :: "'a key_proc_scheme"
  assumes rest: "at_rest s" and combos: "combos_real s" "length (cb_configs s) = 16"
    and press: "current_press s = [p, no_pos, no_pos, no_pos, no_pos, no_pos]"
    and len: "keycodes s = replicate 6 0" "length (extra_keycodes s) = 6"
    and def: "length (deferred s) = 4" "list_all (\<lambda>d. \<not> dk_active d) (deferred s)"
    and pos: "snd p \<noteq> INVALID_KEY_POS" "layer_changer s \<noteq> p"
    and layer: "active_hold_layer s < 0" "osl_pending_layer s < 0"
    and kc: "keymap_at s (current_layout s) p = kc" "MACRO_1 \<le> kc" "kc \<le> MACRO_20"
    and m: "held_macro (kp_macros s ! unat ((kc - MACRO_1) div 256))"
  shows "keycodes (build_keycode_report now s) =
    macro_first (kp_macros s ! unat ((kc - MACRO_1) div 256)) # replicate 5 0"
proof -
  let ?s1 = "s \<lparr>tap_injected_slots := 0, macro_hold_mods := 0\<rparr>"
  let ?x = "expand_macro kc (is_new_press p ?s1) ?s1"
  let ?y = "set_extra 0 kc ?x"
  let ?s2 = "?y \<lparr>keycodes := clear_from 1 (keycodes ?y), extra_keycodes := clear_from 1 (extra_keycodes ?y)\<rparr>"
  let ?acc = "\<lparr>acc_normal = False, acc_add = 0, acc_suppress = 0\<rparr>"
  have s1: "build_layers s = ?s1"
    using macro_not_other [OF kc(2,3)] by (intro one_key_layers [OF rest press kc(1)])
  have rest1: "at_rest ?s1" using rest by (simp add: at_rest_def)
  have cyc: "cycle_layer ?s1 = current_layout s"
    using layer by (simp add: cycle_layer_def tap_hold_get_active_layer_def osl_get_layer_def Let_def)
  have km: "keymap_at ?s1 (current_layout s) p = kc" using kc(1) by (simp add: keymap_at_def)
  have six: "length (keycodes ?y) = 6" "length (extra_keycodes ?y) = 6"
    using shape_macro [of kc "is_new_press p ?s1" ?s1] len
    by (simp_all add: shape_def set_extra_def)
  have py: "current_press ?y = [p, no_pos, no_pos, no_pos, no_pos, no_pos]"
    using press by (simp add: set_extra_def expand_fields)
  have slot: "process_slot now (current_layout s) md 0 (?s1, ?acc) = (?y, ?acc)" for md
    using rest1 press pos km kc by (intro macro_slot) simp_all
  have s2: "build_keys now ?s1 = (?s2, ?acc)"
    by (simp only: build_keys_def Let_def cyc first_slot slot empty_slots [OF six py])
  have m1: "held_macro (kp_macros ?s1 ! unat ((kc - MACRO_1) div 256))" using m by simp
  have rest2: "at_rest ?s2" using expand_rest [OF rest1 m1] by (simp add: at_rest_def set_extra_def)
  obtain t :: "'a key_proc_scheme" where t: "core t = core ?s2"
      "core (build_keycode_report now s) = core (inject_queues now t)"
    using core_scan [OF s1 s2 rest2] by auto
  have "core (inject_queues now t) = core t"
    using t(1) rest2 combos press def
    by (intro inject_rest [where p = p])
      (simp_all add: core_def combos_real_def set_extra_def expand_fields)
  then have "keycodes (build_keycode_report now s) = clear_from 1 (keycodes ?y)"
    using t by (simp add: core_def)
  moreover have "hd (keycodes ?y) = macro_first (kp_macros s ! unat ((kc - MACRO_1) div 256))"
    using expand_first [OF kc(2,3) _ m1, of "is_new_press p ?s1"] len by (simp add: set_extra_def)
  ultimately show ?thesis
    using six(1) by (cases "keycodes ?y") (simp_all add: clear_from_def)
qed


text \<open>The first of the shipped macros, on the key of row 0, column 0.\<close>

definition copy_macro :: macro where
  "copy_macro = \<lparr>mc_named = True, mc_steps = [], mc_keys = [0xE0, 0x06, 0, 0, 0, 0]\<rparr>"

definition copy_pressed :: key_proc where
  "copy_pressed = key_proc.truncate ((kb_boot 4 7
      (replicate 10 ((MACRO_1 # replicate 6 0) # replicate 3 (replicate 7 0))) [copy_macro])
     \<lparr>current_press := [(0, 0), no_pos, no_pos, no_pos, no_pos, no_pos]\<rparr>)"

lemma held_macro_keeps_first_key_witness:
  "keycodes (build_keycode_report 1000 copy_pressed) = 0xE0 # replicate 5 0"
proof -
  note boot = copy_pressed_def key_proc.truncate_def kb_boot_def keyboard_manager_init_def
    hid_report_init_def key_override_init_def leader_init_def combo_init_def tap_dance_init_def
    tap_hold_init_def kb_statics_def
  have steps: "macro_steps copy_macro = []" by (simp add: macro_steps_def copy_macro_def)
  have "at_rest copy_pressed" "combos_real copy_pressed" "length (cb_configs copy_pressed) = 16"
    "current_press copy_pressed = [(0, 0), no_pos, no_pos, no_pos, no_pos, no_pos]"
    "keycodes copy_pressed = replicate 6 0" "length (extra_keycodes copy_pressed) = 6"
    "length (deferred copy_pressed) = 4"
    "list_all (\<lambda>d. \<not> dk_active d) (deferred copy_pressed)"
    "layer_changer copy_pressed \<noteq> (0, 0)" "active_hold_layer copy_pressed < 0"
    "osl_pending_layer copy_pressed < 0"
    "keymap_at copy_pressed (current_layout copy_pressed) (0, 0) = MACRO_1"
    "kp_macros copy_pressed = [copy_macro]"
    by (simp_all add: boot at_rest_def list_all_iff TAP_HOLD_MAX_PENDING_def th_zero_def
        COMBO_MAX_SLOTS_def MAX_DEFERRED_def deferred_zero_def no_pos_def INVALID_KEY_POS_def
        keymap_at_def combos_real_def combo_zero_def)
  moreover have "held_macro copy_macro" using steps by (simp add: held_macro_def copy_macro_def)
  moreover have "macro_first copy_macro = 0xE0" using steps by (simp add: macro_first_def copy_macro_def)
  moreover have "MACRO_1 \<le> MACRO_20" by (simp add: MACRO_1_def MACRO_20_def)
  ultimately show ?thesis
    using held_macro_keeps_first_key [of copy_pressed "(0, 0)" MACRO_1 1000]
    by (simp add: INVALID_KEY_POS_def)
qed


end
