(* ===== verification/Key_Momentary.thy ===== *)
theory Key_Momentary
  imports Key_Behaviour
begin

unbundle bit_operations_syntax

text \<open>
  Momentary layers. For a keyboard whose keys are plain keys and momentary layer keys the whole
  scan cycle moves the layers like the small specification \<open>mo_step\<close>; the specification then
  shows what holding two such keys does.
\<close>

section \<open>Plain keys and momentary layer keys\<close>

definition is_mo :: "u16 \<Rightarrow> bool" where "is_mo kc \<longleftrightarrow> MO_L0 \<le> kc \<and> kc \<le> MO_L9"

definition mo_layer :: "u16 \<Rightarrow> u8" where "mo_layer kc = ucast ((kc - MO_L0) div 256)"

definition simple :: "u16 \<Rightarrow> bool" where "simple kc \<longleftrightarrow> kc \<le> 0xFF \<or> is_mo kc"

definition simple_key :: "u16 list list list \<Rightarrow> key_pos \<Rightarrow> bool" where
  "simple_key km pos \<longleftrightarrow> snd pos = INVALID_KEY_POS \<or>
     list_all (\<lambda>l. simple (km ! l ! unat (fst pos) ! unat (snd pos))) [0..<LAYERS]"

lemma simple_keyD:
  "simple_key (kp_keymaps s) pos \<Longrightarrow> snd pos \<noteq> INVALID_KEY_POS \<Longrightarrow> unat layer < LAYERS \<Longrightarrow>
    simple (keymap_at s layer pos)"
  by (auto simp: simple_key_def keymap_at_def list_all_iff)

lemma mo_layer_lt: "is_mo kc \<Longrightarrow> unat (mo_layer kc) < LAYERS"
proof -
  assume mo: "is_mo kc"
  have "unat (kc - MO_L0) = unat kc - unat MO_L0" using mo by (intro unat_sub) (simp add: is_mo_def)
  also have "\<dots> \<le> unat MO_L9 - unat MO_L0" using mo by (simp add: is_mo_def word_le_nat_alt diff_le_mono)
  finally have "unat ((kc - MO_L0) div 256) \<le> 9" by (simp add: unat_div MO_L0_def MO_L9_def)
  then show ?thesis
    by (simp add: mo_layer_def unsigned_ucast_eq unsigned_take_bit_eq take_bit_eq_mod LAYERS_def)
qed

lemma simple_cases:
  assumes "simple kc"
  shows "\<not> is_advanced_keycode kc" "expand_macro kc b s = s" "detect_internal_function kc s = s"
    "\<not> is_mo kc \<Longrightarrow> \<not> K_IS_LM kc"
proof -
  have r: "unat kc \<le> 0xA00" using assms
    by (auto simp: simple_def is_mo_def word_le_nat_alt MO_L9_def)
  have mo: "kc \<le> 0xFF \<or> MO_L0 \<le> kc \<and> kc \<le> TO_L9"
    using assms r by (auto simp: simple_def is_mo_def word_le_nat_alt TO_L9_def)
  then show "\<not> is_advanced_keycode kc" by (auto simp: is_advanced_keycode_def)
  show "expand_macro kc b s = s" using r by (simp add: expand_macro_def MACRO_1_def word_less_nat_alt)
  show "detect_internal_function kc s = s"
    using r by (simp add: detect_internal_function_def TO_L0_def K_BT_NEXT_def word_le_nat_alt)
  have "kc AND 0xF000 \<le> kc" by (rule word_and_le2)
  then have "unat (kc AND 0xF000) \<le> 0xA00" using r by (simp add: word_le_nat_alt)
  then have "kc AND 0xF000 \<noteq> 0x7000" by auto
  then show "\<not> K_IS_LM kc" by (simp add: K_IS_LM_def)
qed

section \<open>The specification\<close>

type_synonym mo_state = "u8 \<times> u8 \<times> key_pos"

definition mo_press :: "u16 list list list \<Rightarrow> u8 \<Rightarrow> key_pos \<Rightarrow> mo_state \<Rightarrow> mo_state" where
  "mo_press km base_layer pos = (\<lambda>(cur, lst, ch).
     (let kc = km ! unat base_layer ! unat (fst pos) ! unat (snd pos)
      in if snd pos \<noteq> INVALID_KEY_POS \<and> is_mo kc then (mo_layer kc, cur, pos) else (cur, lst, ch)))"

definition mo_step :: "u16 list list list \<Rightarrow> key_pos list \<Rightarrow> mo_state \<Rightarrow> mo_state" where
  "mo_step km press st =
     (let (cur, lst, ch) = fold (mo_press km (fst st)) press st
      in if cur \<noteq> lst \<and> ch \<notin> set press then (lst, lst, no_pos) else (cur, lst, ch))"

definition mo_abs :: "'a key_proc_scheme \<Rightarrow> mo_state" where
  "mo_abs s = (current_layout s, last_layer s, layer_changer s)"

section \<open>The scan cycle follows the specification\<close>

lemma mo_slot:
  assumes "simple_key (kp_keymaps s) (current_press s ! i)" "unat b < LAYERS"
  shows "mo_abs (momentary_slot b i s) = mo_press (kp_keymaps s) b (current_press s ! i) (mo_abs s) \<and>
    inputs_kept s (momentary_slot b i s) \<and> osl_pending_layer (momentary_slot b i s) = osl_pending_layer s \<and>
    active_hold_layer (momentary_slot b i s) = active_hold_layer s \<and>
    at_rest (momentary_slot b i s) = at_rest s"
proof (cases "snd (current_press s ! i) = INVALID_KEY_POS")
  case True
  then show ?thesis by (simp add: momentary_slot_def Let_def mo_press_def mo_abs_def inputs_kept_def)
next
  case False
  let ?kc = "keymap_at s b (current_press s ! i)"
  have simple: "simple ?kc" by (rule simple_keyD [OF assms(1) False assms(2)])
  show ?thesis
    using False simple_cases(4) [OF simple] mo_layer_lt [of ?kc]
    by (cases "is_mo ?kc")
      (auto simp: momentary_slot_def apply_momentary_layer_def Let_def mo_press_def mo_abs_def
        is_mo_def mo_layer_def keymap_at_def layer_changed_def inputs_kept_def at_rest_def LAYERS_def)
qed


lemma mo_slots:
  assumes "list_all (\<lambda>i. simple_key (kp_keymaps s) (current_press s ! i)) is" "unat b < LAYERS"
  shows "mo_abs (fold (momentary_slot b) is s) =
      fold (\<lambda>i. mo_press (kp_keymaps s) b (current_press s ! i)) is (mo_abs s) \<and>
    inputs_kept s (fold (momentary_slot b) is s) \<and>
    osl_pending_layer (fold (momentary_slot b) is s) = osl_pending_layer s \<and>
    active_hold_layer (fold (momentary_slot b) is s) = active_hold_layer s \<and>
    at_rest (fold (momentary_slot b) is s) = at_rest s"
  using assms(1)
proof (induction "is" arbitrary: s)
  case (Cons i "is")
  note first = mo_slot [of s i b]
  let ?t = "momentary_slot b i s"
  have keep: "kp_keymaps ?t = kp_keymaps s" "current_press ?t = current_press s"
    using first Cons.prems assms(2) by (simp_all add: inputs_kept_def)
  then show ?case
    using first Cons.prems assms(2) Cons.IH [of ?t] by (simp add: inputs_kept_def)
qed (simp add: inputs_kept_def)

lemma mo_layers:
  assumes "at_rest s" "list_all (simple_key (kp_keymaps s)) (current_press s)"
    and "length (current_press s) = 6" "unat (current_layout s) < LAYERS"
  shows "mo_abs (build_layers s) =
      fold (mo_press (kp_keymaps s) (current_layout s)) (current_press s) (mo_abs s) \<and>
    inputs_kept s (build_layers s) \<and> osl_pending_layer (build_layers s) = osl_pending_layer s \<and>
    active_hold_layer (build_layers s) = active_hold_layer s \<and> at_rest (build_layers s)"
proof -
  let ?t = "s \<lparr>tap_injected_slots := 0, macro_hold_mods := 0\<rparr>"
  have index: "fold (\<lambda>i. f (current_press s ! i)) [0..<6] x = fold f (current_press s) x"
    for f and x :: mo_state
  proof -
    have "map ((!) (current_press s)) [0..<6] = current_press s" using assms(3) by (metis map_nth)
    then show ?thesis by (metis (no_types, lifting) comp_apply fold_cong fold_map)
  qed
  have "list_all (\<lambda>i. simple_key (kp_keymaps ?t) (current_press ?t ! i)) [0..<6]"
    using assms(2,3) by (auto simp: list_all_length)
  from mo_slots [OF this assms(4)] show ?thesis
    using assms(1) by (simp add: rest_layers index mo_abs_def inputs_kept_def at_rest_def)
qed

section \<open>Simple keys leave the layers alone afterwards\<close>

lemma simple_slot:
  assumes "at_rest s" and key: "simple_key (kp_keymaps s) (current_press s ! i)" "unat layer < LAYERS"
    and step: "process_slot now layer mods i (s, acc) = (s', acc')"
  shows "at_rest s' \<and> kept s s' \<and> lay s' = lay s"
proof (cases "snd (current_press s ! i) = INVALID_KEY_POS")
  case True
  then show ?thesis
    using step assms(1) kept_small(11,12) [of s] lay_small(8,9)
    by (auto simp: process_slot_def Let_def at_rest_def set_key_def set_extra_def lay_def kept_def)
next
  case False
  define pos where "pos = current_press s ! i"
  define kc where "kc = keymap_at s layer pos"
  have simple: "simple kc" unfolding kc_def pos_def by (rule simple_keyD [OF key(1) False key(2)])
  have set: "at_rest (set_key i k t) = at_rest t" "at_rest (set_extra i x t) = at_rest t"
    "at_rest (combo_defer_key now r c k t) = at_rest t" for k x r c and t :: "'a key_proc_scheme"
    by (simp_all add: at_rest_def set_key_def set_extra_def combo_defer_key_def split: option.splits)
  have normal: "at_rest t \<and> kept s t \<and> lay t = lay s" if "normal_key now mods i k pos (s, acc) = (t, acc')" for k t
    using that assms(1) kept_normal_key [of s now mods i k pos acc] lay_normal_key [of now mods i k pos s acc]
    by (auto simp: normal_key_def Let_def case_prod_beta set split: if_splits)
  have "\<not> leader_is_active s" using assms(1) by (simp add: at_rest_def leader_is_active_def)
  moreover have "\<not> snd (tap_hold_get_resolved r c s)" for r c
    using rest_find [OF assms(1)] by (simp add: tap_hold_get_resolved_def)
  moreover have "\<not> is_advanced_keycode kc" by (rule simple_cases(1) [OF simple])
  moreover have "expand_macro kc b s = s" "detect_internal_function kc s = s" for b
    by (rule simple_cases(2) [OF simple], rule simple_cases(3) [OF simple])
  ultimately show ?thesis
    using step False assms(1)
    by (auto simp: process_slot_def pos_def [symmetric] kc_def [symmetric] Let_def set
        dest: normal split: if_splits)
qed

lemma simple_slots:
  assumes "at_rest s" "unat layer < LAYERS"
    and "list_all (\<lambda>i. simple_key (kp_keymaps s) (current_press s ! i)) is"
  shows "at_rest (fst (fold (process_slot now layer mods) is (s, acc))) \<and>
    kept s (fst (fold (process_slot now layer mods) is (s, acc))) \<and>
    lay (fst (fold (process_slot now layer mods) is (s, acc))) = lay s"
  using assms(1,3)
proof (induction "is" arbitrary: s acc)
  case (Cons i "is")
  obtain t acc1 where step: "process_slot now layer mods i (s, acc) = (t, acc1)"
    by (cases "process_slot now layer mods i (s, acc)")
  have t: "at_rest t" "kept s t" "lay t = lay s"
    using simple_slot [OF Cons.prems(1) _ assms(2) step] Cons.prems(2) by auto
  then have "list_all (\<lambda>i. simple_key (kp_keymaps t) (current_press t ! i)) is"
    using Cons.prems(2) by (simp add: kept_def)
  from Cons.IH [OF t(1) this, of acc1] show ?case
    using t step kept_trans by auto
qed simp

lemma rest_mods2:
  assumes "at_rest s"
  shows "at_rest (build_mods m (s, acc)) \<and> lay (build_mods m (s, acc)) = lay s"
proof -
  have rest: "at_rest (t \<lparr>report_mods := r\<rparr>) = at_rest t" "at_rest (wpm_record_keypress t) = at_rest t"
    "at_rest (fst (osm_consume t)) = at_rest t" "at_rest (t \<lparr>keycodes := k\<rparr>) = at_rest t"
    for t :: "'a key_proc_scheme" and r k
    by (simp_all add: at_rest_def wpm_record_keypress_def osm_consume_def)
  show ?thesis
    using assms by (simp add: build_mods_def Let_def case_prod_beta rest caps_fields rest_interrupt)
qed

lemma rest_inject: "at_rest s \<Longrightarrow> at_rest (inject_queues now s)"
proof -
  have set: "at_rest (t \<lparr>resolved_queue := q, expired_queue := x\<rparr>) = at_rest t"
    "at_rest (t \<lparr>resolved_queue := q\<rparr>) = at_rest t" "at_rest (t \<lparr>expired_queue := x\<rparr>) = at_rest t"
    "at_rest (t \<lparr>combo_active := ca\<rparr>) = at_rest t" "at_rest (undefer d t) = at_rest t"
    "at_rest (inject_key k t) = at_rest t"
    for t :: "'a key_proc_scheme" and q x ca d k
    by (simp_all add: at_rest_def undefer_def inject_key_def split: option.splits)
  have "at_rest (combo_slot press i t) = at_rest t" for press i and t :: "'a key_proc_scheme"
    by (simp add: combo_slot_def Let_def set)
  moreover have "at_rest (expire_slot now press i t) = at_rest t" for press i and t :: "'a key_proc_scheme"
    by (simp add: expire_slot_def Let_def set)
  ultimately have combo: "at_rest (combo_process now press t) = at_rest t" for press and t :: "'a key_proc_scheme"
    by (simp add: combo_process_def fold_keeps [where F = at_rest] set)
  have takes: "at_rest (fst (take_combo t)) = at_rest t" "at_rest (fst (combo_consume_expired t)) = at_rest t"
    for t :: "'a key_proc_scheme"
    by (simp_all add: take_combo_def combo_consume_def combo_consume_expired_def case_prod_beta Let_def set)
  assume "at_rest s"
  then show ?thesis
    unfolding inject_queues_def Let_def rest_taps [OF \<open>at_rest s\<close>]
    by (simp add: drain_keeps [where F = at_rest] combo takes set del: drain_queue.simps)
qed

text \<open>The whole cycle.\<close>

lemma mo_scan:
  assumes rest: "at_rest s" and ok: "layers_ok s"
    and keys: "list_all (simple_key (kp_keymaps s)) (current_press s)" "length (current_press s) = 6"
    and idle: "active_hold_layer s < 0" "osl_pending_layer s < 0"
  shows "mo_abs (build_keycode_report now s) = mo_step (kp_keymaps s) (current_press s) (mo_abs s) \<and>
    at_rest (build_keycode_report now s) \<and> active_hold_layer (build_keycode_report now s) < 0 \<and>
    osl_pending_layer (build_keycode_report now s) < 0"
proof -
  define s1 where "s1 = build_layers s"
  obtain s2 acc where s2: "build_keys now s1 = (s2, acc)" by (cases "build_keys now s1")
  define s3 where "s3 = build_mods (tap_hold_get_active_mods s1) (s2, acc)"
  define s4 where "s4 = inject_queues now s3"
  have l1: "mo_abs s1 = fold (mo_press (kp_keymaps s) (current_layout s)) (current_press s) (mo_abs s)"
    "inputs_kept s s1" "osl_pending_layer s1 < 0" "active_hold_layer s1 < 0" "at_rest s1"
    using mo_layers [OF rest keys] ok idle by (simp_all add: s1_def layers_ok_def)
  have ok1: "unat (cycle_layer s1) < LAYERS"
    unfolding s1_def by (rule cycle_layer_ok [OF build_layers_ok [OF ok]])
  have keys1: "list_all (\<lambda>i. simple_key (kp_keymaps s1) (current_press s1 ! i)) [0..<6]"
    using l1(2) keys by (auto simp: inputs_kept_def list_all_length)
  have l2: "at_rest s2" "kept s1 s2" "lay s2 = lay s1"
    using simple_slots [OF l1(5) ok1 keys1, of now _ _] s2
    by (metis (no_types, lifting) build_keys_def fst_conv)+
  have l3: "at_rest s3" "kept s2 s3" "lay s3 = lay s2"
    using rest_mods2 [OF l2(1)] kept_mods by (auto simp: s3_def)
  have l4: "at_rest s4" "kept s3 s4" "lay s4 = lay s3"
    using rest_inject [OF l3(1)] kept_inject by (auto simp: s4_def)
  have all: "kept s1 s4" "lay s4 = lay s1"
    using l2 l3 l4 kept_trans by (blast, simp)
  then have abs4: "mo_abs s4 = mo_abs s1" "current_press s4 = current_press s"
    and neg: "osl_pending_layer s4 < 0" "active_hold_layer s4 < 0"
    using l1 by (simp_all add: kept_def lay_def mo_abs_def inputs_kept_def)
  have build: "build_keycode_report now s =
      (momentary_release s4) \<lparr>prev_press := current_press (momentary_release s4)\<rparr>"
    using s2 l1(3)
    by (simp add: build_keycode_report_def Let_def s1_def [symmetric] s3_def [symmetric]
        s4_def [symmetric] osl_get_layer_def)
  have "mo_abs (momentary_release s4) = mo_step (kp_keymaps s) (current_press s) (mo_abs s)"
    using abs4 l1(1)
    by (auto simp: momentary_release_def mo_step_def mo_abs_def layer_changed_def Let_def
        split: prod.splits)
  moreover have "at_rest (momentary_release s4)"
    using l4(1) by (simp add: momentary_release_def layer_changed_def at_rest_def)
  ultimately show ?thesis
    using neg by (simp add: build mo_abs_def at_rest_def momentary_release_def layer_changed_def)
qed


section \<open>Whole sessions\<close>

fun mo_run :: "u16 list list list \<Rightarrow> (int \<times> key_pos list) list \<Rightarrow> mo_state \<Rightarrow> mo_state" where
  "mo_run km [] st = st"
| "mo_run km ((now, keys) # es) st = mo_run km es (mo_step km (fill_press keys) st)"

definition plain_session :: "u16 list list list \<Rightarrow> (int \<times> key_pos list) list \<Rightarrow> bool" where
  "plain_session km es \<longleftrightarrow> list_all (\<lambda>(now, keys). list_all (simple_key km) keys) es"

lemma fill_press_simple: "list_all (simple_key km) keys \<Longrightarrow> list_all (simple_key km) (fill_press keys)"
  by (auto simp: list_all_iff fill_press_def simple_key_def no_pos_def dest!: in_set_takeD)

lemma scans_mo_run:
  assumes "at_rest s" "layers_ok s" "active_hold_layer s < 0" "osl_pending_layer s < 0"
    and "plain_session (kp_keymaps s) es"
  shows "mo_abs (scans es s) = mo_run (kp_keymaps s) es (mo_abs s)"
  using assms
proof (induction es arbitrary: s)
  case (Cons e es)
  obtain now keys where e: "e = (now, keys)" by (cases e)
  let ?t = "s \<lparr>current_press := fill_press keys\<rparr>"
  let ?u = "build_keycode_report now ?t"
  have t: "at_rest ?t" "layers_ok ?t" "active_hold_layer ?t < 0" "osl_pending_layer ?t < 0"
    "list_all (simple_key (kp_keymaps ?t)) (current_press ?t)" "length (current_press ?t) = 6"
    "mo_abs ?t = mo_abs s"
    using Cons.prems e fill_press_simple [of "kp_keymaps s" keys]
    by (simp_all add: at_rest_def layers_ok_def plain_session_def fill_press_def mo_abs_def)
  note scan = mo_scan [OF t(1,2,5,6,3,4), of now]
  have km: "kp_keymaps ?u = kp_keymaps s" using scan_effect [of now ?t] by simp
  have "mo_abs (scans es ?u) = mo_run (kp_keymaps ?u) es (mo_abs ?u)"
    using scan scan_ok [OF t(2)] Cons.prems(5) km
    by (intro Cons.IH) (simp_all add: plain_session_def)
  then show ?case using scan km t(7) by (simp add: e)
qed (simp)

text \<open>
  C11: On keys that are plain or momentary layer keys, the scan cycle, with its tap-hold, dance,
  combo, leader, override, caps word and macro stages at rest, moves the layers exactly like the
  small specification: each momentary key in turn makes the layer of its entry current and the
  current one the last, and when the key that changed the layer last is up, the last layer comes
  back.\<close>

theorem momentary_layers_refine:
  assumes "at_rest s" "layers_ok s" "active_hold_layer s < 0" "osl_pending_layer s < 0"
    and "plain_session (kp_keymaps s) es"
  shows "mo_abs (scans es s) = mo_run (kp_keymaps s) es (mo_abs s)"
  by (rule scans_mo_run [OF assms])

section \<open>Two momentary keys, one after the other\<close>

lemma fill_two: "fill_press [] = [no_pos, no_pos, no_pos, no_pos, no_pos, no_pos]"
  "fill_press [p] = [p, no_pos, no_pos, no_pos, no_pos, no_pos]"
  "fill_press [p, q] = [p, q, no_pos, no_pos, no_pos, no_pos]"
  by (simp_all add: fill_press_def eval_nat_numeral)

lemma mo_idle: "mo_run km (map (\<lambda>t. (t, [])) ts) (a, a, ch) = (a, a, ch)"
proof (induction ts)
  case (Cons t ts)
  have "mo_step km (fill_press []) (a, a, ch) = (a, a, ch)"
    by (simp add: mo_step_def fill_two mo_press_def no_pos_def)
  then show ?case using Cons.IH by simp
qed simp

lemma mo_run_append: "mo_run km (es @ fs) st = mo_run km fs (mo_run km es st)"
  by (induction km es st rule: mo_run.induct) simp_all

definition entry :: "u16 list list list \<Rightarrow> u8 \<Rightarrow> key_pos \<Rightarrow> u16" where
  "entry km l pos = km ! unat l ! unat (fst pos) ! unat (snd pos)"

text \<open>
  Holding a momentary layer key and, on its layer, a second one leaves the
  keyboard on the layer of the first key for good: after both are released, and however many
  cycles pass with no key down, that layer is still the current one.\<close>

theorem nested_momentary_sticks:
  assumes "at_rest s" "layers_ok s" "active_hold_layer s < 0" "osl_pending_layer s < 0"
    and start: "mo_abs s = (0, 0, no_pos)"
    and keys: "simple_key (kp_keymaps s) p" "simple_key (kp_keymaps s) q" "p \<noteq> q"
      "snd p \<noteq> INVALID_KEY_POS" "snd q \<noteq> INVALID_KEY_POS"
    and p: "is_mo (entry (kp_keymaps s) 0 p)" "mo_layer (entry (kp_keymaps s) 0 p) = a" "a \<noteq> 0"
      "\<not> is_mo (entry (kp_keymaps s) a p)" "\<not> is_mo (entry (kp_keymaps s) b p)"
    and q: "is_mo (entry (kp_keymaps s) a q)" "mo_layer (entry (kp_keymaps s) a q) = b" "b \<noteq> a"
  shows "current_layout (scans ([(t1, [p]), (t2, [p, q]), (t3, [p]), (t4, [])] @
    map (\<lambda>t. (t, [])) ts) s) = a"
proof -
  let ?km = "kp_keymaps s"
  let ?es = "[(t1, [p]), (t2, [p, q]), (t3, [p]), (t4, [])] @ map (\<lambda>t. (t, [])) ts"
  have np: "p \<noteq> no_pos" "q \<noteq> no_pos" using keys(4,5) by (auto simp: no_pos_def)
  note e = p(1,2,4,5) q(1,2) [unfolded entry_def]
  have none: "mo_press km l no_pos st = st" for km l st
    by (cases st) (simp add: mo_press_def no_pos_def)
  have s1: "mo_step ?km (fill_press [p]) (0, 0, no_pos) = (a, 0, p)"
    using p keys by (simp add: mo_step_def fill_two none) (simp add: mo_press_def entry_def)
  have s2: "mo_step ?km (fill_press [p, q]) (a, 0, p) = (b, a, q)"
    using p q keys by (simp add: mo_step_def fill_two none) (simp add: mo_press_def entry_def)
  have s3: "mo_step ?km (fill_press [p]) (b, a, q) = (a, a, no_pos)"
    using p q keys np by (simp add: mo_step_def fill_two none) (simp add: mo_press_def entry_def)
  have s4: "mo_step ?km (fill_press []) (a, a, no_pos) = (a, a, no_pos)"
    by (simp add: mo_step_def fill_two none)
  have "plain_session ?km ?es" using keys by (simp add: plain_session_def list_all_iff)
  from scans_mo_run [OF assms(1-4) this]
  have "mo_abs (scans ?es s) = (a, a, no_pos)"
    by (simp only: mo_run_append start mo_run.simps s1 s2 s3 s4 mo_idle)
  then show ?thesis by (simp add: mo_abs_def)
qed


text \<open>Layer 1 on the first key, and layer 2 on the second key of layer 1.\<close>

definition mo_keymap :: "u16 list list list" where
  "mo_keymap = replicate 1 ((0x0200 # replicate 6 4) # replicate 3 (replicate 7 4)) @
     replicate 1 ((0 # 0x0300 # replicate 5 0) # replicate 3 (replicate 7 0)) @
     replicate 8 (replicate 4 (replicate 7 0))"

definition mo_board :: key_proc where
  "mo_board = key_proc.truncate (kb_boot 4 7 mo_keymap [])"

lemma mo_board_start:
  "at_rest mo_board" "layers_ok mo_board" "active_hold_layer mo_board < 0"
  "osl_pending_layer mo_board < 0" "kp_keymaps mo_board = mo_keymap" "mo_abs mo_board = (0, 0, no_pos)"
  by (simp_all add: mo_board_def key_proc.truncate_def kb_boot_def keyboard_manager_init_def
      hid_report_init_def key_override_init_def leader_init_def combo_init_def tap_dance_init_def
      tap_hold_init_def kb_statics_def at_rest_def layers_ok_def list_all_iff
      TAP_HOLD_MAX_PENDING_def th_zero_def LAYERS_def mo_abs_def)

lemma mo_keymap_entries:
  "simple_key mo_keymap (0, 0)" "simple_key mo_keymap (0, 1)"
  "is_mo (entry mo_keymap 0 (0, 0))" "mo_layer (entry mo_keymap 0 (0, 0)) = 1"
  "\<not> is_mo (entry mo_keymap 1 (0, 0))" "\<not> is_mo (entry mo_keymap 2 (0, 0))"
  "is_mo (entry mo_keymap 1 (0, 1))" "mo_layer (entry mo_keymap 1 (0, 1)) = 2"
  by code_simp+

lemma momentary_layers_refine_witness:
  "mo_abs (scans [(0, [(0, 0)]), (90000, [])] mo_board) = (0, 0, no_pos)"
proof -
  have "plain_session (kp_keymaps mo_board) [(0, [(0, 0)]), (90000, [])]"
    using mo_keymap_entries(1) by (simp add: plain_session_def mo_board_start(5))
  from momentary_layers_refine [OF mo_board_start(1-4) this]
  have "mo_abs (scans [(0, [(0, 0)]), (90000, [])] mo_board) =
      mo_run mo_keymap [(0, [(0, 0)]), (90000, [])] (0, 0, no_pos)"
    by (simp only: mo_board_start)
  also have "\<dots> = (0, 0, no_pos)" by code_simp
  finally show ?thesis .
qed

lemma nested_momentary_sticks_witness:
  "current_layout (scans ([(0, [(0, 0)]), (100000, [(0, 0), (0, 1)]), (200000, [(0, 0)]), (300000, [])] @
     map (\<lambda>t. (t, [])) [400000, 60000000]) mo_board) = 1"
  by (rule nested_momentary_sticks [where b = 2])
    (simp_all add: mo_board_start mo_keymap_entries INVALID_KEY_POS_def)


end
