(* ===== verification/Sec_Confirm.thy ===== *)
theory Sec_Confirm
  imports Prelude
begin

text \<open>
  \<open>main/security/sec_confirm.c\<close>: the gate between a request for a secret operation and the
  key the user presses to allow it. The file statics are the record \<open>sec_confirm\<close>.
  \<open>gate_ev\<close> is one call from outside (a security task arming or polling, the keyboard task
  authorising); the locale \<open>touch_gate\<close> is the contract its clients rely on, and derives from
  it that a grant comes from a touch made after the request, and from no other grant's touch.
\<close>

section \<open>The module\<close>

definition SEC_CONFIRM_TIMEOUT_MS :: u32 where "SEC_CONFIRM_TIMEOUT_MS = 15000"

datatype sec_confirm_state =
  SEC_CONFIRM_IDLE | SEC_CONFIRM_PENDING | SEC_CONFIRM_AUTHORIZED | SEC_CONFIRM_TIMEDOUT

record sec_confirm =
  sc_state :: sec_confirm_state
  sc_slot :: u8
  sc_armed_ms :: u32

definition sec_confirm_reset :: "sec_confirm \<Rightarrow> sec_confirm" where
  "sec_confirm_reset g = g\<lparr>sc_state := SEC_CONFIRM_IDLE, sc_slot := 0, sc_armed_ms := 0\<rparr>"

definition sec_confirm_arm :: "u8 \<Rightarrow> u32 \<Rightarrow> sec_confirm \<Rightarrow> sec_confirm" where
  "sec_confirm_arm slot now g =
     g\<lparr>sc_state := SEC_CONFIRM_PENDING, sc_slot := slot, sc_armed_ms := now\<rparr>"

definition sec_confirm_authorize :: "sec_confirm \<Rightarrow> sec_confirm" where
  "sec_confirm_authorize g =
     (if sc_state g = SEC_CONFIRM_PENDING then g\<lparr>sc_state := SEC_CONFIRM_AUTHORIZED\<rparr> else g)"

text \<open>The slot is the one written through \<open>out_slot\<close>, \<open>None\<close> when it is left alone.\<close>

definition sec_confirm_poll ::
  "u32 \<Rightarrow> sec_confirm \<Rightarrow> sec_confirm \<times> sec_confirm_state \<times> u8 option" where
  "sec_confirm_poll now g =
     (if sc_state g = SEC_CONFIRM_PENDING \<and> now - sc_armed_ms g \<ge> SEC_CONFIRM_TIMEOUT_MS
      then (g\<lparr>sc_state := SEC_CONFIRM_IDLE\<rparr>, SEC_CONFIRM_TIMEDOUT, None)
      else if sc_state g = SEC_CONFIRM_AUTHORIZED
      then (g\<lparr>sc_state := SEC_CONFIRM_IDLE\<rparr>, SEC_CONFIRM_AUTHORIZED, Some (sc_slot g))
      else (g, sc_state g, None))"

definition sec_confirm_boot :: sec_confirm where
  "sec_confirm_boot = \<lparr>sc_state = SEC_CONFIRM_IDLE, sc_slot = 0, sc_armed_ms = 0\<rparr>"

section \<open>Sequences of calls\<close>

datatype gate_ev = GateArm u8 u32 | GateTouch | GateReset | GatePoll u32

text \<open>A run of calls, with the slots granted along it in order.\<close>

primrec gate_run ::
  "(gate_ev \<Rightarrow> 'g \<Rightarrow> 'g \<times> u8 option) \<Rightarrow> gate_ev list \<Rightarrow> 'g \<Rightarrow> 'g \<times> u8 list" where
  "gate_run stp [] g = (g, [])"
| "gate_run stp (e # es) g =
     (let (g1, out) = stp e g; (g2, outs) = gate_run stp es g1
      in (g2, (case out of None \<Rightarrow> outs | Some sl \<Rightarrow> sl # outs)))"

fun sec_step :: "gate_ev \<Rightarrow> sec_confirm \<Rightarrow> sec_confirm \<times> u8 option" where
  "sec_step (GateArm sl now) g = (sec_confirm_arm sl now g, None)"
| "sec_step GateTouch g = (sec_confirm_authorize g, None)"
| "sec_step GateReset g = (sec_confirm_reset g, None)"
| "sec_step (GatePoll now) g =
     (let (g', st, out) = sec_confirm_poll now g
      in (g', if st = SEC_CONFIRM_AUTHORIZED then out else None))"

definition rearms :: "gate_ev \<Rightarrow> bool" where
  "rearms e = (case e of GateArm _ _ \<Rightarrow> True | GateReset \<Rightarrow> True | _ \<Rightarrow> False)"

lemma rearms_simps [simp]:
  "rearms (GateArm sl t)" "rearms GateReset" "\<not> rearms GateTouch" "\<not> rearms (GatePoll t)"
  by (simp_all add: rearms_def)

definition touches :: "gate_ev list \<Rightarrow> nat" where
  "touches es = length (filter (\<lambda>e. e = GateTouch) es)"

lemma touches_simps [simp]:
  "touches [] = 0" "touches (GateTouch # es) = Suc (touches es)"
  "touches (GateArm sl t # es) = touches es" "touches (GateReset # es) = touches es"
  "touches (GatePoll t # es) = touches es"
  by (simp_all add: touches_def)

lemma gate_run_append:
  "gate_run stp (a @ b) g =
     (let (g1, o1) = gate_run stp a g; (g2, o2) = gate_run stp b g1 in (g2, o1 @ o2))"
  by (induction a arbitrary: g) (auto simp: Let_def split: prod.splits option.splits)

text \<open>One when a touch is waiting to be used.\<close>

fun unspent :: "(u8 \<times> bool) option \<Rightarrow> nat" where
  "unspent (Some (_, True)) = 1"
| "unspent _ = 0"

section \<open>The contract of the gate\<close>

text \<open>\<open>view\<close> is what a client may know of the gate: no request, or the slot of the current
  request and whether it has been touched.\<close>

locale touch_gate =
  fixes stp :: "gate_ev \<Rightarrow> 'g \<Rightarrow> 'g \<times> u8 option"
    and view :: "'g \<Rightarrow> (u8 \<times> bool) option"
  assumes arm: "view (fst (stp (GateArm sl t) g)) = Some (sl, False)"
    and arm_out: "snd (stp (GateArm sl t) g) = None"
    and touch: "view (fst (stp GateTouch g)) = map_option (\<lambda>(sl, _). (sl, True)) (view g)"
    and touch_out: "snd (stp GateTouch g) = None"
    and reset: "view (fst (stp GateReset g)) = None"
    and reset_out: "snd (stp GateReset g) = None"
    and poll_grant: "snd (stp (GatePoll t) g) = Some sl \<Longrightarrow>
          view g = Some (sl, True) \<and> view (fst (stp (GatePoll t) g)) = None"
    and poll_keeps: "view (fst (stp (GatePoll t) g)) = view g \<or> view (fst (stp (GatePoll t) g)) = None"
begin

lemma one_grant_per_touch:
  "length (snd (gate_run stp es g)) + unspent (view (fst (gate_run stp es g)))
     \<le> touches es + unspent (view g)"
proof (induction es arbitrary: g)
  case (Cons e es)
  obtain g1 out where st: "stp e g = (g1, out)" by fastforce
  have head: "(case out of None \<Rightarrow> 0 | Some _ \<Rightarrow> 1) + unspent (view g1) \<le> touches [e] + unspent (view g)"
  proof (cases e)
    case (GateArm sl t)
    then show ?thesis using arm [of sl t g] arm_out [of sl t g] st by simp
  next
    case GateTouch
    then show ?thesis using touch [of g] touch_out [of g] st
      by (cases "view g") auto
  next
    case GateReset
    then show ?thesis using reset [of g] reset_out [of g] st by simp
  next
    case (GatePoll t)
    show ?thesis
    proof (cases out)
      case None
      with GatePoll st poll_keeps [of t g] show ?thesis
        by auto
    next
      case (Some sl)
      with GatePoll st poll_grant [of t g sl] show ?thesis by simp
    qed
  qed
  have tail: "length (snd (gate_run stp es g1)) + unspent (view (fst (gate_run stp es g1)))
      \<le> touches es + unspent (view g1)"
    by (rule Cons.IH)
  have "touches (e # es) = touches [e] + touches es"
    by (simp add: touches_def)
  with head tail st show ?case
    by (auto simp: Let_def split: prod.splits option.splits)
qed simp

text \<open>A request that is present was armed, and nothing replaced, withdrew or used it since.\<close>

lemma view_origin:
  assumes "view (fst (gate_run stp es g)) = Some (sl, touched)" and "view g = None"
  shows "\<exists>a t b. es = a @ GateArm sl t # b \<and> (touched \<longrightarrow> GateTouch \<in> set b) \<and>
           (\<forall>e\<in>set b. \<not> rearms e) \<and>
           snd (gate_run stp b (fst (gate_run stp (a @ [GateArm sl t]) g))) = []"
  using assms(1)
proof (induction es arbitrary: touched rule: rev_induct)
  case Nil
  then show ?case using assms(2) by simp
next
  case (snoc e es)
  let ?g = "fst (gate_run stp es g)"
  have run: "fst (gate_run stp (es @ [e]) g) = fst (stp e ?g)"
    by (simp add: gate_run_append Let_def split: prod.splits)
  with snoc.prems have v: "view (fst (stp e ?g)) = Some (sl, touched)" by simp
  have ext: ?case if old: "view ?g = Some (sl, was)" and quiet: "snd (stp e ?g) = None"
    and nr: "\<not> rearms e" and tch: "touched \<longrightarrow> was \<or> e = GateTouch" for was
  proof -
    from snoc.IH [OF old] obtain a t b where ih: "es = a @ GateArm sl t # b"
      "was \<longrightarrow> GateTouch \<in> set b" "\<forall>e\<in>set b. \<not> rearms e"
      "snd (gate_run stp b (fst (gate_run stp (a @ [GateArm sl t]) g))) = []" by blast
    have "fst (gate_run stp b (fst (gate_run stp (a @ [GateArm sl t]) g))) = ?g"
      using ih(1) by (simp add: gate_run_append Let_def split: prod.splits)
    then have "snd (gate_run stp (b @ [e]) (fst (gate_run stp (a @ [GateArm sl t]) g))) = []"
      using ih(4) quiet by (auto simp: gate_run_append Let_def split: prod.splits)
    then show ?thesis using ih nr tch by (intro exI [of _ a] exI [of _ t] exI [of _ "b @ [e]"]) auto
  qed
  show ?case
  proof (cases e)
    case (GateArm s t)
    with v arm have "s = sl" "\<not> touched" by simp_all
    with GateArm show ?thesis by (intro exI [of _ es] exI [of _ t] exI [of _ "[]"]) simp
  next
    case GateTouch
    with v touch [of ?g] obtain was where "view ?g = Some (sl, was)" by (auto)
    with GateTouch touch_out [of ?g] show ?thesis by (intro ext) simp_all
  next
    case GateReset
    with v reset show ?thesis by simp
  next
    case (GatePoll t)
    with v poll_keeps [of t ?g] have old: "view ?g = Some (sl, touched)" by auto
    moreover have "snd (stp e ?g) = None"
      using poll_grant [of t ?g] v GatePoll by (cases "snd (stp e ?g)") auto
    ultimately show ?thesis using GatePoll ext [of touched] by simp
  qed
qed

end

definition gate_view :: "sec_confirm \<Rightarrow> (u8 \<times> bool) option" where
  "gate_view g = (case sc_state g of
     SEC_CONFIRM_PENDING \<Rightarrow> Some (sc_slot g, False)
   | SEC_CONFIRM_AUTHORIZED \<Rightarrow> Some (sc_slot g, True)
   | _ \<Rightarrow> None)"

lemmas sec_confirm_defs = sec_confirm_reset_def sec_confirm_arm_def sec_confirm_authorize_def
  sec_confirm_poll_def

interpretation gate: touch_gate sec_step gate_view
  by unfold_locales
     (auto simp: sec_confirm_defs gate_view_def split: sec_confirm_state.splits if_splits prod.splits)

lemma gate_view_boot [simp]: "gate_view sec_confirm_boot = None"
  by (simp add: gate_view_def sec_confirm_boot_def)

lemma sec_confirm_poll_grantD:
  "sec_confirm_poll now g = (g', SEC_CONFIRM_AUTHORIZED, out) \<Longrightarrow>
     sc_state g = SEC_CONFIRM_AUTHORIZED \<and> out = Some (sc_slot g) \<and>
     g' = g\<lparr>sc_state := SEC_CONFIRM_IDLE\<rparr>"
  by (auto simp: sec_confirm_poll_def split: if_splits)

section \<open>Properties\<close>

text \<open>A grant is asked for and touched. Whatever calls come before, a poll that reports
  AUTHORIZED for a slot was preceded by arming that very slot and, later, by a press of the
  confirmation key; in between nothing re-armed or reset the gate and no other poll was granted,
  so the press was not spent on another request.\<close>

theorem sec_grant_is_touched:
  assumes "fst (gate_run sec_step es sec_confirm_boot) = g"
    and "sec_confirm_poll now g = (g', SEC_CONFIRM_AUTHORIZED, Some sl)"
  shows "\<exists>a t b. es = a @ GateArm sl t # b \<and> GateTouch \<in> set b \<and> (\<forall>e\<in>set b. \<not> rearms e) \<and>
           snd (gate_run sec_step b
                  (fst (gate_run sec_step (a @ [GateArm sl t]) sec_confirm_boot))) = []"
proof -
  have "gate_view g = Some (sl, True)"
    using sec_confirm_poll_grantD [OF assms(2)] by (simp add: gate_view_def)
  then show ?thesis using gate.view_origin [of es sec_confirm_boot sl True] assms(1) by simp
qed

theorem sec_grant_is_touched_witness:
  "\<exists>a t b. [GateArm 2 100, GatePoll 120, GateTouch] = a @ GateArm 2 t # b \<and> GateTouch \<in> set b \<and>
     (\<forall>e\<in>set b. \<not> rearms e) \<and>
     snd (gate_run sec_step b
            (fst (gate_run sec_step (a @ [GateArm 2 t]) sec_confirm_boot))) = []"
  by (rule sec_grant_is_touched [where now = 140, OF refl])
     (simp add: sec_confirm_defs sec_confirm_boot_def SEC_CONFIRM_TIMEOUT_MS_def)

text \<open>The 15 s window is kept by the polls alone. A request that nobody polls does not
  expire: a press that comes arbitrarily long after it was armed is granted at the next poll,
  while with a poll at or after the deadline (before the press) it is not.\<close>

theorem sec_window_needs_poll:
  "sec_confirm_poll late (sec_confirm_authorize (sec_confirm_arm sl t g)) =
     (g\<lparr>sc_state := SEC_CONFIRM_IDLE, sc_slot := sl, sc_armed_ms := t\<rparr>,
      SEC_CONFIRM_AUTHORIZED, Some sl)
   \<and> (now - t \<ge> SEC_CONFIRM_TIMEOUT_MS \<longrightarrow>
        sc_state (sec_confirm_authorize (fst (sec_confirm_poll now (sec_confirm_arm sl t g)))) =
          SEC_CONFIRM_IDLE)"
  by (simp add: sec_confirm_defs)

theorem sec_window_needs_poll_witness:
  "sec_confirm_poll 3600000 (sec_confirm_authorize (sec_confirm_arm 1 0 sec_confirm_boot)) =
     (sec_confirm_boot\<lparr>sc_state := SEC_CONFIRM_IDLE, sc_slot := 1, sc_armed_ms := 0\<rparr>,
      SEC_CONFIRM_AUTHORIZED, Some 1)
   \<and> sc_state (sec_confirm_authorize (fst (sec_confirm_poll 15000 (sec_confirm_arm 1 0 sec_confirm_boot)))) =
       SEC_CONFIRM_IDLE"
  using sec_window_needs_poll [of 3600000 1 0 sec_confirm_boot 15000]
  by (simp add: SEC_CONFIRM_TIMEOUT_MS_def)

end
