(* ===== verification/Sec_Store.thy ===== *)
theory Sec_Store
  imports Prelude Nvs Cdc_Protocol
begin

text \<open>
  \<open>main/security/sec_store.c\<close>, the write-only secret slots of the dongle, and
  \<open>main/comm/cdc/cdc_sec_cmds.c\<close>, the commands that provision them. The array \<open>s_slots\<close>, what
  the flash holds and the count of flash calls are the record \<open>sec_store\<close>. The list command is
  shown not to depend on a secret, and a provisioned secret to be the one the key uses.
\<close>

section \<open>Slots\<close>

definition SEC_N_SLOTS :: nat where "SEC_N_SLOTS = 4"
definition SEC_LABEL_LEN :: nat where "SEC_LABEL_LEN = 16"
definition SEC_SECRET_MAX :: nat where "SEC_SECRET_MAX = 64"
definition SEC_SLOT_EMPTY :: u8 where "SEC_SLOT_EMPTY = 0"
definition SEC_SLOT_HMAC_SHA1 :: u8 where "SEC_SLOT_HMAC_SHA1 = 1"

lemmas sec_sizes = SEC_N_SLOTS_def SEC_LABEL_LEN_def SEC_SECRET_MAX_def SEC_SLOT_EMPTY_def
  SEC_SLOT_HMAC_SHA1_def

record sec_slot =
  sl_type :: u8
  sl_flags :: u8
  sl_secret_len :: u8
  sl_label :: bytes
  sl_secret :: bytes

definition sec_slot_zero :: sec_slot where
  "sec_slot_zero = \<lparr>sl_type = 0, sl_flags = 0, sl_secret_len = 0,
     sl_label = replicate SEC_LABEL_LEN 0, sl_secret = replicate SEC_SECRET_MAX 0\<rparr>"

record sec_store =
  ss_slots :: "sec_slot list"
  ss_nvs :: "sec_slot list option"
  ss_io :: nat

definition sec_store_persist :: "(nat \<Rightarrow> nvs_rc) \<Rightarrow> sec_store \<Rightarrow> sec_store \<times> bool" where
  "sec_store_persist rc s =
     (let (blob, ok, io) = nvs_save_blob_with_total rc (ss_io s) (ss_nvs s) (ss_slots s)
      in (s\<lparr>ss_nvs := blob, ss_io := io\<rparr>, ok))"

text \<open>\<open>strncpy(dst, src, n)\<close> into a zeroed buffer of \<open>m\<close> bytes: the copy stops at a zero byte or
  after \<open>n\<close> bytes.\<close>

definition strncpy_into :: "nat \<Rightarrow> nat \<Rightarrow> bytes \<Rightarrow> bytes" where
  "strncpy_into m n src =
     mem_write 0 (take n (takeWhile (\<lambda>b. b \<noteq> 0) src)) (replicate m 0)"

definition sec_store_set_slot ::
  "(nat \<Rightarrow> nvs_rc) \<Rightarrow> u8 \<Rightarrow> u8 \<Rightarrow> bytes option \<Rightarrow> bytes option \<Rightarrow> u8 \<Rightarrow> sec_store \<Rightarrow>
     sec_store \<times> bool" where
  "sec_store_set_slot rc idx type label secret secret_len s =
     (if unat idx \<ge> SEC_N_SLOTS then (s, False)
      else if type = SEC_SLOT_EMPTY then (s, False)
      else if unat secret_len > SEC_SECRET_MAX then (s, False)
      else if secret_len > 0 \<and> secret = None then (s, False)
      else
        let sl = sec_slot_zero\<lparr>sl_type := type, sl_flags := 0x01, sl_secret_len := secret_len\<rparr>;
            sl = (case label of None \<Rightarrow> sl
                  | Some l \<Rightarrow> sl\<lparr>sl_label :=
                      (strncpy_into SEC_LABEL_LEN (SEC_LABEL_LEN - 1) l)[SEC_LABEL_LEN - 1 := 0]\<rparr>);
            sl = (case secret of None \<Rightarrow> sl
                  | Some x \<Rightarrow> sl\<lparr>sl_secret := mem_write 0 (take (unat secret_len) x) (sl_secret sl)\<rparr>)
        in sec_store_persist rc (s\<lparr>ss_slots := (ss_slots s)[unat idx := sl]\<rparr>))"

definition sec_store_clear_slot :: "(nat \<Rightarrow> nvs_rc) \<Rightarrow> u8 \<Rightarrow> sec_store \<Rightarrow> sec_store \<times> bool" where
  "sec_store_clear_slot rc idx s =
     (if unat idx \<ge> SEC_N_SLOTS then (s, False)
      else sec_store_persist rc (s\<lparr>ss_slots := (ss_slots s)[unat idx := sec_slot_zero]\<rparr>))"

definition sec_store_count :: "sec_store \<Rightarrow> u8" where
  "sec_store_count s =
     of_nat (length (filter (\<lambda>i. sl_type (ss_slots s ! i) \<noteq> SEC_SLOT_EMPTY) [0..<SEC_N_SLOTS]))"

definition sec_store_type :: "nat \<Rightarrow> sec_store \<Rightarrow> u8" where
  "sec_store_type idx s =
     (if idx < SEC_N_SLOTS then sl_type (ss_slots s ! idx) else SEC_SLOT_EMPTY)"

definition sec_store_label :: "nat \<Rightarrow> sec_store \<Rightarrow> bytes option" where
  "sec_store_label idx s =
     (if idx \<ge> SEC_N_SLOTS \<or> sl_type (ss_slots s ! idx) = SEC_SLOT_EMPTY then None
      else Some (sl_label (ss_slots s ! idx)))"

definition sec_store_get_secret :: "nat \<Rightarrow> sec_store \<Rightarrow> (bytes \<times> u8) option" where
  "sec_store_get_secret idx s =
     (if idx \<ge> SEC_N_SLOTS \<or> sl_type (ss_slots s ! idx) = SEC_SLOT_EMPTY then None
      else let sl = ss_slots s ! idx
           in Some (take (unat (sl_secret_len sl)) (sl_secret sl), sl_secret_len sl))"

text \<open>At boot the array is zero and is overwritten by a stored blob.\<close>

definition sec_store_init :: "(nat \<Rightarrow> nvs_rc) \<Rightarrow> sec_store \<Rightarrow> sec_store" where
  "sec_store_init rc s =
     (case nvs_load_blob_with_total rc (ss_io s) (ss_nvs s) of
        None \<Rightarrow> s | Some slots \<Rightarrow> s\<lparr>ss_slots := slots\<rparr>)"

section \<open>Commands\<close>

definition sec_cmd_parse_set_slot :: "bytes \<Rightarrow> (u8 \<times> u8 \<times> bytes \<times> bytes \<times> u8) option" where
  "sec_cmd_parse_set_slot p =
     (if length p < 3 + SEC_LABEL_LEN then None
      else
        let i = p ! 0; t = p ! 1; slen = p ! (2 + SEC_LABEL_LEN) in
        if unat i \<ge> SEC_N_SLOTS then None
        else if unat slen > SEC_SECRET_MAX then None
        else if length p < 3 + SEC_LABEL_LEN + unat slen then None
        else Some (i, t, (take SEC_LABEL_LEN (drop 2 p))[SEC_LABEL_LEN - 1 := 0],
                   take (unat slen) (drop (3 + SEC_LABEL_LEN) p), slen))"

definition sec_list_entry :: "sec_store \<Rightarrow> nat \<Rightarrow> bytes" where
  "sec_list_entry s i =
     (let t = sec_store_type i s in
      if t = SEC_SLOT_EMPTY then []
      else of_nat i # t #
           (case sec_store_label i s of
              None \<Rightarrow> replicate SEC_LABEL_LEN 0
            | Some l \<Rightarrow> strncpy_into SEC_LABEL_LEN (SEC_LABEL_LEN - 1) l))"

definition sec_cmd_build_list :: "sec_store \<Rightarrow> bytes" where
  "sec_cmd_build_list s =
     of_nat (length (filter (\<lambda>i. sec_store_type i s \<noteq> SEC_SLOT_EMPTY) [0..<SEC_N_SLOTS]))
     # concat (map (sec_list_entry s) [0..<SEC_N_SLOTS])"

definition SEC_CMD_LIST_MAX :: nat where
  "SEC_CMD_LIST_MAX = 1 + SEC_N_SLOTS * (2 + SEC_LABEL_LEN)"

text \<open>A command changes the store and answers on the CDC channel; the digest of the
  known-answer test comes from the SDK, as every HMAC.\<close>

type_synonym 'h sec_sys = "sec_store \<times> 'h ks_cdc"

definition sec_status :: "u8 \<Rightarrow> bool \<Rightarrow> 'h ks_cdc \<Rightarrow> 'h ks_cdc" where
  "sec_status cmd_id ok c =
     (if ok then ks_respond_ok cmd_id c else ks_respond_err cmd_id KS_STATUS_ERR_INVALID c)"

fun bin_cmd_sec_set_slot ::
  "(nat \<Rightarrow> nvs_rc) \<Rightarrow> u8 \<Rightarrow> bytes \<Rightarrow> 'h sec_sys \<Rightarrow> 'h sec_sys" where
  "bin_cmd_sec_set_slot rc cmd_id payload (s, c) =
     (let (s', stored) = (case sec_cmd_parse_set_slot payload of
            None \<Rightarrow> (s, False)
          | Some (idx, type, label, secret, slen) \<Rightarrow>
              sec_store_set_slot rc idx type (Some label) (Some secret) slen s)
      in (s', sec_status cmd_id stored c))"

fun bin_cmd_sec_clear_slot ::
  "(nat \<Rightarrow> nvs_rc) \<Rightarrow> u8 \<Rightarrow> bytes \<Rightarrow> 'h sec_sys \<Rightarrow> 'h sec_sys" where
  "bin_cmd_sec_clear_slot rc cmd_id payload (s, c) =
     (let (s', ok) = (if length payload < 1 then (s, False)
                      else sec_store_clear_slot rc (payload ! 0) s)
      in (s', sec_status cmd_id ok c))"

fun bin_cmd_sec_list :: "u8 \<Rightarrow> bytes \<Rightarrow> 'h sec_sys \<Rightarrow> 'h sec_sys" where
  "bin_cmd_sec_list cmd_id payload (s, c) =
     (s, ks_respond cmd_id KS_STATUS_OK (sec_cmd_build_list s) c)"

fun bin_cmd_sec_selftest ::
  "(bytes \<Rightarrow> bytes \<Rightarrow> bytes option) \<Rightarrow> u8 \<Rightarrow> bytes \<Rightarrow> 'h sec_sys \<Rightarrow> 'h sec_sys" where
  "bin_cmd_sec_selftest hmac cmd_id payload (s, c) =
     (s, case hmac (replicate 20 0x0B) [0x48, 0x69, 0x20, 0x54, 0x68, 0x65, 0x72, 0x65] of
           Some out \<Rightarrow> ks_respond cmd_id KS_STATUS_OK out c
         | None \<Rightarrow> ks_respond_err cmd_id KS_STATUS_ERR_INVALID c)"

datatype sec_handler = SecSetSlot | SecClearSlot | SecList | SecSelftest

definition sec_cmd_table :: "(u8 \<times> sec_handler) list" where
  "sec_cmd_table = [(0xC0, SecSetSlot), (0xC1, SecClearSlot), (0xC2, SecList), (0xC3, SecSelftest)]"

primrec sec_handle ::
  "(nat \<Rightarrow> nvs_rc) \<Rightarrow> (bytes \<Rightarrow> bytes \<Rightarrow> bytes option) \<Rightarrow> sec_handler \<Rightarrow> u8 \<Rightarrow> bytes \<Rightarrow>
     'h sec_sys \<Rightarrow> 'h sec_sys" where
  "sec_handle rc hmac SecSetSlot = bin_cmd_sec_set_slot rc"
| "sec_handle rc hmac SecClearSlot = bin_cmd_sec_clear_slot rc"
| "sec_handle rc hmac SecList = bin_cmd_sec_list"
| "sec_handle rc hmac SecSelftest = bin_cmd_sec_selftest hmac"

text \<open>A request of the host: the handler registered for its command, nothing for another.\<close>

definition sec_request ::
  "(nat \<Rightarrow> nvs_rc) \<Rightarrow> (bytes \<Rightarrow> bytes \<Rightarrow> bytes option) \<Rightarrow> u8 \<times> bytes \<Rightarrow> 'h sec_sys \<Rightarrow> 'h sec_sys"
  where
  "sec_request rc hmac r sys =
     (case find_handler [sec_cmd_table] (fst r) of
        None \<Rightarrow> (fst sys, ks_respond_err (fst r) KS_STATUS_ERR_UNKNOWN (snd sys))
      | Some h \<Rightarrow> sec_handle rc hmac h (fst r) (snd r) sys)"

definition cdc_sec_cmds_init :: "sec_handler ks_cdc \<Rightarrow> sec_handler ks_cdc" where
  "cdc_sec_cmds_init c = ks_register_binary_commands sec_cmd_table c"

section \<open>Shapes\<close>

definition sec_slot_ok :: "sec_slot \<Rightarrow> bool" where
  "sec_slot_ok sl \<longleftrightarrow> length (sl_label sl) = SEC_LABEL_LEN \<and> length (sl_secret sl) = SEC_SECRET_MAX \<and>
     unat (sl_secret_len sl) \<le> SEC_SECRET_MAX"

definition sec_store_ok :: "sec_store \<Rightarrow> bool" where
  "sec_store_ok s \<longleftrightarrow> length (ss_slots s) = SEC_N_SLOTS \<and> (\<forall>sl\<in>set (ss_slots s). sec_slot_ok sl)"

lemma sec_slot_zero_ok [simp]: "sec_slot_ok sec_slot_zero"
  by (simp add: sec_slot_ok_def sec_slot_zero_def)

lemma length_strncpy_into [simp]: "n \<le> m \<Longrightarrow> length (strncpy_into m n src) = m"
  by (simp add: strncpy_into_def)

lemma persist_slots: "ss_slots (fst (sec_store_persist rc s)) = ss_slots s"
  by (simp add: sec_store_persist_def split: prod.splits)

text \<open>The record a successful call writes.\<close>

definition new_slot :: "u8 \<Rightarrow> bytes option \<Rightarrow> bytes option \<Rightarrow> u8 \<Rightarrow> sec_slot" where
  "new_slot type label secret secret_len =
     \<lparr>sl_type = type, sl_flags = 0x01, sl_secret_len = secret_len,
      sl_label = (case label of None \<Rightarrow> replicate SEC_LABEL_LEN 0
        | Some l \<Rightarrow> (strncpy_into SEC_LABEL_LEN (SEC_LABEL_LEN - 1) l)[SEC_LABEL_LEN - 1 := 0]),
      sl_secret = (case secret of None \<Rightarrow> replicate SEC_SECRET_MAX 0
        | Some x \<Rightarrow> mem_write 0 (take (unat secret_len) x) (replicate SEC_SECRET_MAX 0))\<rparr>"

definition set_slot_args :: "u8 \<Rightarrow> u8 \<Rightarrow> bytes option \<Rightarrow> u8 \<Rightarrow> bool" where
  "set_slot_args idx type secret secret_len \<longleftrightarrow>
     unat idx < SEC_N_SLOTS \<and> type \<noteq> SEC_SLOT_EMPTY \<and> unat secret_len \<le> SEC_SECRET_MAX \<and>
     (secret_len > 0 \<longrightarrow> secret \<noteq> None)"

lemma set_slot_alt:
  "sec_store_set_slot rc idx type label secret secret_len s =
     (if set_slot_args idx type secret secret_len
      then sec_store_persist rc
             (s\<lparr>ss_slots := (ss_slots s)[unat idx := new_slot type label secret secret_len]\<rparr>)
      else (s, False))"
  by (auto simp: sec_store_set_slot_def set_slot_args_def new_slot_def sec_slot_zero_def Let_def
      split: option.splits)

lemma new_slot_ok:
  "unat n \<le> SEC_SECRET_MAX \<Longrightarrow> sec_slot_ok (new_slot t l x n)"
  by (auto simp: sec_slot_ok_def new_slot_def split: option.splits)

lemma ok_update:
  "sec_store_ok s \<Longrightarrow> sec_slot_ok sl \<Longrightarrow> sec_store_ok (s\<lparr>ss_slots := (ss_slots s)[i := sl]\<rparr>)"
  unfolding sec_store_ok_def by (auto dest: set_update_subset_insert [THEN subsetD])

lemma ok_persist: "sec_store_ok (fst (sec_store_persist rc s)) = sec_store_ok s"
  by (simp add: sec_store_ok_def persist_slots)

lemma set_slot_keeps_ok:
  "sec_store_ok s \<Longrightarrow> sec_store_ok (fst (sec_store_set_slot rc idx type label secret n s))"
  by (simp add: set_slot_alt ok_persist ok_update new_slot_ok set_slot_args_def)

lemma clear_slot_keeps_ok: "sec_store_ok s \<Longrightarrow> sec_store_ok (fst (sec_store_clear_slot rc idx s))"
  by (simp add: sec_store_clear_slot_def ok_persist ok_update)


section \<open>No secret leaves by the channel\<close>

text \<open>What is not secret: the types and labels, and how often the flash was used.\<close>

definition sec_public :: "sec_store \<Rightarrow> (u8 \<times> bytes) list \<times> nat" where
  "sec_public s = (map (\<lambda>sl. (sl_type sl, sl_label sl)) (ss_slots s), ss_io s)"

lemma nvs_save_blind:
  "snd (nvs_save_blob_with_total rc io ob b) = snd (nvs_save_blob_with_total rc io ob' b')"
  by (simp add: nvs_save_blob_with_total_def split: nvs_rc.splits)

lemma persist_public:
  assumes "sec_public s = sec_public t"
  shows "sec_public (fst (sec_store_persist rc s)) = sec_public (fst (sec_store_persist rc t))"
    and "snd (sec_store_persist rc s) = snd (sec_store_persist rc t)"
  using assms nvs_save_blind [of rc "ss_io t" "ss_nvs s" "ss_slots s" "ss_nvs t" "ss_slots t"]
  by (auto simp: sec_public_def sec_store_persist_def prod_eq_iff split: prod.splits)

lemma public_update:
  "sec_public s = sec_public t \<Longrightarrow> sl_type a = sl_type b \<Longrightarrow> sl_label a = sl_label b \<Longrightarrow>
     sec_public (s\<lparr>ss_slots := (ss_slots s)[i := a]\<rparr>) = sec_public (t\<lparr>ss_slots := (ss_slots t)[i := b]\<rparr>)"
  by (simp add: sec_public_def map_update)

lemma public_nth:
  assumes "sec_public s = sec_public t" "i < length (ss_slots s)"
  shows "sl_type (ss_slots s ! i) = sl_type (ss_slots t ! i)"
    and "sl_label (ss_slots s ! i) = sl_label (ss_slots t ! i)"
proof -
  have m: "map (\<lambda>sl. (sl_type sl, sl_label sl)) (ss_slots s) =
      map (\<lambda>sl. (sl_type sl, sl_label sl)) (ss_slots t)"
    using assms(1) by (simp add: sec_public_def)
  have "length (ss_slots t) = length (ss_slots s)"
    using arg_cong [OF m, of length] by simp
  then have "(sl_type (ss_slots s ! i), sl_label (ss_slots s ! i)) =
      (sl_type (ss_slots t ! i), sl_label (ss_slots t ! i))"
    using arg_cong [OF m, of "\<lambda>l. l ! i"] assms(2) by simp
  then show "sl_type (ss_slots s ! i) = sl_type (ss_slots t ! i)"
    "sl_label (ss_slots s ! i) = sl_label (ss_slots t ! i)" by simp_all
qed

lemma list_public:
  assumes "sec_store_ok s" "sec_public s = sec_public t"
  shows "sec_cmd_build_list s = sec_cmd_build_list t"
proof -
  have same: "sec_store_type i s = sec_store_type i t \<and> sec_store_label i s = sec_store_label i t" for i
    using public_nth [OF assms(2), of i] assms(1)
    by (simp add: sec_store_type_def sec_store_label_def sec_store_ok_def)
  then have "sec_list_entry s i = sec_list_entry t i" for i
    unfolding sec_list_entry_def by (simp only:)
  then have "sec_list_entry s = sec_list_entry t" by (rule ext)
  with same show ?thesis by (simp add: sec_cmd_build_list_def)
qed

definition sec_sim :: "'h sec_sys \<Rightarrow> 'h sec_sys \<Rightarrow> bool" where
  "sec_sim a b \<longleftrightarrow> sec_store_ok (fst a) \<and> sec_store_ok (fst b) \<and>
     sec_public (fst a) = sec_public (fst b) \<and> snd a = snd b"

lemma sim_pair:
  assumes "sec_store_ok s" "sec_store_ok t" "sec_public s = sec_public t" "b1 = b2"
  shows "sec_sim (case (s, b1) of (s', ok) \<Rightarrow> (s', sec_status k ok c))
           (case (t, b2) of (s', ok) \<Rightarrow> (s', sec_status k ok c))"
  using assms by (simp add: sec_sim_def)

lemma set_slot_sim:
  assumes "sec_store_ok s" "sec_store_ok t" "sec_public s = sec_public t"
  shows "sec_sim (bin_cmd_sec_set_slot rc k p (s, c)) (bin_cmd_sec_set_slot rc k p (t, c))"
proof (cases "sec_cmd_parse_set_slot p")
  case None
  with assms show ?thesis by (simp add: sec_sim_def)
next
  case (Some a)
  obtain i ty l x n where a: "a = (i, ty, l, x, n)" by (cases a)
  let ?f = "sec_store_set_slot rc i ty (Some l) (Some x) n"
  have "sec_public (s\<lparr>ss_slots := (ss_slots s)[unat i := sl]\<rparr>) =
        sec_public (t\<lparr>ss_slots := (ss_slots t)[unat i := sl]\<rparr>)" for sl
    using assms(3) by (rule public_update) simp_all
  from persist_public [OF this]
  have "snd (?f s) = snd (?f t)" "sec_public (fst (?f s)) = sec_public (fst (?f t))"
    using assms(3) by (simp_all add: set_slot_alt)
  then show ?thesis
    using Some a set_slot_keeps_ok assms
    by (simp add: sec_sim_def Let_def split_beta)
qed

lemma clear_slot_sim:
  assumes "sec_store_ok s" "sec_store_ok t" "sec_public s = sec_public t"
  shows "sec_sim (bin_cmd_sec_clear_slot rc k p (s, c)) (bin_cmd_sec_clear_slot rc k p (t, c))"
proof -
  have "sec_public (s\<lparr>ss_slots := (ss_slots s)[unat i := sl]\<rparr>) =
        sec_public (t\<lparr>ss_slots := (ss_slots t)[unat i := sl]\<rparr>)" for i :: u8 and sl
    using assms(3) by (rule public_update) simp_all
  note per = persist_public [OF this]
  have "snd (sec_store_clear_slot rc i s) = snd (sec_store_clear_slot rc i t)"
    "sec_public (fst (sec_store_clear_slot rc i s)) = sec_public (fst (sec_store_clear_slot rc i t))" for i
    using assms(3) per by (simp_all add: sec_store_clear_slot_def)
  then show ?thesis
    using clear_slot_keeps_ok assms by (simp add: sec_sim_def Let_def split_beta)
qed

lemma request_sim:
  assumes "sec_sim a b"
  shows "sec_sim (sec_request rc hmac r a) (sec_request rc hmac r b)"
proof -
  obtain s t c where ab: "a = (s, c)" "b = (t, c)"
    and ok: "sec_store_ok s" "sec_store_ok t" "sec_public s = sec_public t"
    using assms by (cases a; cases b) (auto simp: sec_sim_def)
  show ?thesis
  proof (cases "find_handler [sec_cmd_table] (fst r)")
    case None
    with ab ok show ?thesis by (simp add: sec_request_def sec_sim_def)
  next
    case (Some h)
    have "sec_sim (sec_handle rc hmac h k p (s, c)) (sec_handle rc hmac h k p (t, c))" for k p
    proof (cases h)
      case SecSetSlot
      then show ?thesis using set_slot_sim [OF ok] by simp
    next
      case SecClearSlot
      then show ?thesis using clear_slot_sim [OF ok] by (simp del: bin_cmd_sec_clear_slot.simps)
    qed (use ok list_public [OF ok(1,3)] in \<open>simp_all add: sec_sim_def\<close>)
    with Some show ?thesis by (simp add: ab sec_request_def)
  qed
qed

lemma requests_sim:
  "sec_sim a b \<Longrightarrow> sec_sim (fold (sec_request rc hmac) rs a) (fold (sec_request rc hmac) rs b)"
  by (induction rs arbitrary: a b) (simp_all add: request_sim)

text \<open>C23: the slots are write-only. Two dongles whose slots have the same types and labels but
  different secrets answer any sequence of provisioning requests with the very same bytes, so
  nothing about a secret can be read back over the configuration channel.\<close>

theorem sec_cmds_hide_secrets:
  assumes "sec_store_ok s" "sec_store_ok t"
    and "map (\<lambda>sl. (sl_type sl, sl_label sl)) (ss_slots s) = map (\<lambda>sl. (sl_type sl, sl_label sl)) (ss_slots t)"
    and "ss_io s = ss_io t"
  shows "snd (fold (sec_request rc hmac) rs (s, c)) = snd (fold (sec_request rc hmac) rs (t, c))"
  using requests_sim [of "(s, c)" "(t, c)" rc hmac rs] assms by (simp add: sec_sim_def sec_public_def)

definition sample_store :: "bytes \<Rightarrow> sec_store" where
  "sample_store secret = \<lparr>ss_slots = [new_slot 1 (Some [0x6B]) (Some secret) 20, sec_slot_zero,
     sec_slot_zero, sec_slot_zero], ss_nvs = None, ss_io = 0\<rparr>"

lemma sample_store_ok: "sec_store_ok (sample_store secret)"
  by (simp add: sec_store_ok_def sample_store_def new_slot_ok sec_sizes)

theorem sec_cmds_hide_secrets_witness:
  "snd (fold (sec_request (\<lambda>_. NvsOk) (\<lambda>_ _. None)) [(0xC2, [])]
       (sample_store (replicate 20 1), ks_cdc_init)) =
   (snd (fold (sec_request (\<lambda>_. NvsOk) (\<lambda>_ _. None)) [(0xC2, [])]
       (sample_store (replicate 20 2), ks_cdc_init)) :: sec_handler ks_cdc)"
  by (rule sec_cmds_hide_secrets [OF sample_store_ok sample_store_ok])
     (simp_all add: sample_store_def new_slot_def)



section \<open>Provisioning\<close>

definition sec_payload :: "u8 \<Rightarrow> u8 \<Rightarrow> bytes \<Rightarrow> bytes \<Rightarrow> bytes \<Rightarrow> bytes" where
  "sec_payload idx type label secret extra =
     [idx, type] @ label @ [of_nat (length secret)] @ secret @ extra"

lemma unat_small_len: "n \<le> SEC_SECRET_MAX \<Longrightarrow> unat (of_nat n :: u8) = n"
  by (simp add: SEC_SECRET_MAX_def unat_of_nat take_bit_nat_eq_self)

lemma parse_payload:
  assumes "length label = SEC_LABEL_LEN" "length secret \<le> SEC_SECRET_MAX" "unat idx < SEC_N_SLOTS"
  shows "sec_cmd_parse_set_slot (sec_payload idx type label secret extra) =
           Some (idx, type, label[SEC_LABEL_LEN - 1 := 0], secret, of_nat (length secret))"
proof -
  let ?p = "sec_payload idx type label secret extra"
  have "length ?p = 3 + SEC_LABEL_LEN + length secret + length extra"
    using assms(1) by (simp add: sec_payload_def)
  moreover have "?p ! 0 = idx" "?p ! 1 = type" "?p ! (2 + SEC_LABEL_LEN) = of_nat (length secret)"
    using assms(1) by (simp_all add: sec_payload_def nth_append)
  moreover have "take SEC_LABEL_LEN (drop 2 ?p) = label"
    "take (length secret) (drop (3 + SEC_LABEL_LEN) ?p) = secret"
    using assms(1) by (simp_all add: sec_payload_def numeral_2_eq_2 numeral_3_eq_3)
  ultimately show ?thesis
    using assms by (simp add: sec_cmd_parse_set_slot_def Let_def unat_small_len)
qed

lemma take_write_front: "take (length xs) (mem_write 0 xs buf) = xs"
  by (simp add: mem_write_def)

lemma get_new_slot:
  assumes "sec_store_ok s" "i < SEC_N_SLOTS" "type \<noteq> SEC_SLOT_EMPTY" "length secret \<le> SEC_SECRET_MAX"
    and "ss_slots s' = (ss_slots s)[i := new_slot type label (Some secret) (of_nat (length secret))]"
  shows "sec_store_get_secret i s' = Some (secret, of_nat (length secret))"
  using assms
  by (simp add: sec_store_get_secret_def sec_store_ok_def new_slot_def Let_def unat_small_len
      take_write_front)

lemma persist_result:
  "sec_store_persist rc s = (s', ok) \<Longrightarrow>
     ss_slots s' = ss_slots s \<and> (ok \<longrightarrow> ss_nvs s' = Some (ss_slots s)) \<and>
     (ss_nvs s' = Some (ss_slots s) \<or> ss_nvs s' = ss_nvs s)"
  by (auto simp: sec_store_persist_def split: prod.splits dest: nvs_save_ok nvs_save_cases)

text \<open>A provisioned secret is the one the key uses. The request that carries a slot number, a
  type, a label and a secret makes exactly this secret what the slot returns, whatever follows it in the
  payload, and touches no other slot; when the answer is OK the flash holds the same table, so the
  secret is there after the next start, and the answer is OK or the error INVALID.\<close>

theorem sec_provision_roundtrip:
  assumes "sec_store_ok s" "unat idx < SEC_N_SLOTS" "type \<noteq> SEC_SLOT_EMPTY"
    and "length label = SEC_LABEL_LEN" "length secret \<le> SEC_SECRET_MAX"
    and "bin_cmd_sec_set_slot rc cmd (sec_payload idx type label secret extra) (s, c) = (s', c')"
  shows "sec_store_get_secret (unat idx) s' = Some (secret, of_nat (length secret)) \<and>
         (\<forall>i. i \<noteq> unat idx \<longrightarrow> ss_slots s' ! i = ss_slots s ! i) \<and>
         (c' = ks_respond_ok cmd c \<and>
            sec_store_get_secret (unat idx) (sec_store_init (\<lambda>_. NvsOk)
              (s'\<lparr>ss_slots := replicate SEC_N_SLOTS sec_slot_zero\<rparr>)) = Some (secret, of_nat (length secret))
          \<or> c' = ks_respond_err cmd KS_STATUS_ERR_INVALID c)"
proof -
  let ?n = "of_nat (length secret) :: u8"
  let ?sl = "new_slot type (Some (label[SEC_LABEL_LEN - 1 := 0])) (Some secret) ?n"
  obtain t ok where per: "sec_store_persist rc (s\<lparr>ss_slots := (ss_slots s)[unat idx := ?sl]\<rparr>) = (t, ok)"
    by fastforce
  have "set_slot_args idx type (Some secret) ?n"
    using assms by (simp add: set_slot_args_def unat_small_len)
  then have s': "s' = t" and c': "c' = sec_status cmd ok c"
    using assms(6) per by (simp_all add: parse_payload [OF assms(4,5,2)] set_slot_alt)
  from persist_result [OF per] s'
  have slots: "ss_slots s' = (ss_slots s)[unat idx := ?sl]"
    and nvs: "ok \<Longrightarrow> ss_nvs s' = Some ((ss_slots s)[unat idx := ?sl])" by simp_all
  have got: "sec_store_get_secret (unat idx) s' = Some (secret, ?n)"
    by (rule get_new_slot [OF assms(1,2,3,5) slots])
  have "sec_store_get_secret (unat idx) (sec_store_init (\<lambda>_. NvsOk)
      (s'\<lparr>ss_slots := replicate SEC_N_SLOTS sec_slot_zero\<rparr>)) = Some (secret, ?n)" if ok
    using nvs [OF that]
    by (intro get_new_slot [OF assms(1,2,3,5)])
       (simp add: sec_store_init_def nvs_load_blob_with_total_def)
  then show ?thesis using got slots c' by (auto simp: sec_status_def)
qed

theorem sec_provision_roundtrip_witness:
  "sec_store_get_secret 2
     (fst (bin_cmd_sec_set_slot (\<lambda>_. NvsOk) 0xC0
        (sec_payload 2 1 (replicate 16 0x41) [1, 2, 3] []) (sample_store [], ks_cdc_init :: sec_handler ks_cdc)))
   = Some ([1, 2, 3], 3)"
  using sec_provision_roundtrip [OF sample_store_ok [of "[]"] _ _ _ _ prod.collapse [symmetric], where idx = 2 and type = 1
      and label = "replicate 16 0x41" and secret = "[1, 2, 3]" and rc = "\<lambda>_. NvsOk" and cmd = "0xC0"
      and extra = "[]" and c = "ks_cdc_init :: sec_handler ks_cdc"]
  by (simp add: sec_sizes del: bin_cmd_sec_set_slot.simps)

text \<open>An error answer does not mean that nothing changed. When the flash refuses the save,
  the request is answered with INVALID, yet the new secret is the one in use until the next
  start, which then brings the old table back.\<close>

theorem sec_set_slot_error_active:
  assumes "sec_store_ok s" "unat idx < SEC_N_SLOTS" "type \<noteq> SEC_SLOT_EMPTY"
    and "length label = SEC_LABEL_LEN" "length secret \<le> SEC_SECRET_MAX"
    and "rc (ss_io s) = NvsErr kept"
    and "bin_cmd_sec_set_slot rc cmd (sec_payload idx type label secret extra) (s, c) = (s', c')"
  shows "c' = ks_respond_err cmd KS_STATUS_ERR_INVALID c \<and>
         sec_store_get_secret (unat idx) s' = Some (secret, of_nat (length secret)) \<and>
         ss_nvs s' = ss_nvs s"
proof -
  let ?n = "of_nat (length secret) :: u8"
  have "set_slot_args idx type (Some secret) ?n"
    using assms by (simp add: set_slot_args_def unat_small_len)
  then have "c' = ks_respond_err cmd KS_STATUS_ERR_INVALID c" "ss_nvs s' = ss_nvs s"
    and slots: "ss_slots s' = (ss_slots s)[unat idx :=
      new_slot type (Some (label[SEC_LABEL_LEN - 1 := 0])) (Some secret) ?n]"
    using assms(6,7)
    by (auto simp: parse_payload [OF assms(4,5,2)] set_slot_alt sec_store_persist_def
        nvs_save_blob_with_total_def sec_status_def)
  then show ?thesis using get_new_slot [OF assms(1,2,3,5) slots] by simp
qed

theorem sec_set_slot_error_active_witness:
  "sec_store_get_secret 0
     (fst (bin_cmd_sec_set_slot (\<lambda>_. NvsErr False) 0xC0
        (sec_payload 0 1 (replicate 16 0x41) [7] []) (sample_store [5], ks_cdc_init :: sec_handler ks_cdc)))
   = Some ([7], 1)"
  using sec_set_slot_error_active [OF sample_store_ok [of "[5]"] _ _ _ _ _ prod.collapse [symmetric], where idx = 0 and type = 1
      and label = "replicate 16 0x41" and secret = "[7]" and rc = "\<lambda>_. NvsErr False" and kept = False
      and cmd = "0xC0" and extra = "[]" and c = "ks_cdc_init :: sec_handler ks_cdc"]
  by (simp add: sec_sizes del: bin_cmd_sec_set_slot.simps)

text \<open>The answer of the list command fits the buffer of its handler.\<close>

lemma length_list_entry: "sec_store_ok s \<Longrightarrow> length (sec_list_entry s i) \<le> 2 + SEC_LABEL_LEN"
  by (simp add: sec_list_entry_def Let_def split: option.splits)

theorem sec_list_fits:
  assumes "sec_store_ok s"
  shows "length (sec_cmd_build_list s) \<le> SEC_CMD_LIST_MAX"
  using length_list_entry [OF assms] sum_list_mono [of "[0..<SEC_N_SLOTS]" "\<lambda>i. length (sec_list_entry s i)" "\<lambda>_. 2 + SEC_LABEL_LEN"]
  by (simp add: sec_cmd_build_list_def SEC_CMD_LIST_MAX_def length_concat comp_def sum_list_triv)


end
