(* ===== verification/Otp_Proto.thy ===== *)
theory Otp_Proto
  imports Crc Sec_Confirm Sec_Store
begin

text \<open>
  The challenge-response personality of the security key: \<open>main/security/otp_proto.c\<close>, the
  feature-report protocol, and \<open>otp_hid.c\<close>, the hooks that join it to the slots and to the
  confirmation gate. The protocol is polymorphic in the state \<open>'w\<close> its hooks work on, as the C
  module is in its function pointers; the real hooks work on \<open>otp_world\<close>. HMAC-SHA1 is an argument.
\<close>

section \<open>The protocol\<close>

definition OTP_SLOT_WRITE_FLAG :: u8 where "OTP_SLOT_WRITE_FLAG = 0x80"
definition OTP_RESP_PENDING_FLAG :: u8 where "OTP_RESP_PENDING_FLAG = 0x40"
definition OTP_RESP_TIMEOUT_WAIT_FLAG :: u8 where "OTP_RESP_TIMEOUT_WAIT_FLAG = 0x20"
definition OTP_FEATURE_RPT_SIZE :: nat where "OTP_FEATURE_RPT_SIZE = 8"
definition OTP_FRAME_SIZE :: nat where "OTP_FRAME_SIZE = 70"
definition OTP_SLOT_CHAL_HMAC1 :: u8 where "OTP_SLOT_CHAL_HMAC1 = 0x30"
definition OTP_SLOT_CHAL_HMAC2 :: u8 where "OTP_SLOT_CHAL_HMAC2 = 0x38"
definition OTP_RESP_LEN :: nat where "OTP_RESP_LEN = 20"

lemmas otp_consts = OTP_SLOT_WRITE_FLAG_def OTP_RESP_PENDING_FLAG_def
  OTP_RESP_TIMEOUT_WAIT_FLAG_def OTP_FEATURE_RPT_SIZE_def OTP_FRAME_SIZE_def
  OTP_SLOT_CHAL_HMAC1_def OTP_SLOT_CHAL_HMAC2_def OTP_RESP_LEN_def

datatype otp_state = ST_IDLE | ST_WAIT | ST_RESP

record otp =
  ot_state :: otp_state
  ot_frame :: bytes
  ot_challenge :: bytes
  ot_resp :: bytes
  ot_slot :: u8
  ot_resp_seq :: u8

text \<open>\<open>oh_hmac w slot challenge out\<close> returns the flag and what \<open>out\<close> then holds.\<close>

record 'w otp_hooks =
  oh_hmac :: "'w \<Rightarrow> u8 \<Rightarrow> bytes \<Rightarrow> bytes \<Rightarrow> bool \<times> bytes"
  oh_confirm_state :: "'w \<Rightarrow> 'w \<times> int"
  oh_confirm_arm :: "u8 \<Rightarrow> 'w \<Rightarrow> 'w"

definition otp_proto_reset :: "otp \<Rightarrow> otp" where
  "otp_proto_reset p =
     p\<lparr>ot_state := ST_IDLE, ot_resp_seq := 0, ot_frame := replicate OTP_FRAME_SIZE 0,
       ot_resp := replicate OTP_RESP_LEN 0, ot_challenge := replicate 64 0\<rparr>"

text \<open>Static storage is zero; \<open>otp_proto_init\<close> resets it and remembers the hooks.\<close>

definition otp_boot :: otp where
  "otp_boot = \<lparr>ot_state = ST_IDLE, ot_frame = replicate OTP_FRAME_SIZE 0,
     ot_challenge = replicate 64 0, ot_resp = replicate OTP_RESP_LEN 0, ot_slot = 0, ot_resp_seq = 0\<rparr>"

definition otp_proto_init :: "otp \<Rightarrow> otp" where
  "otp_proto_init p = otp_proto_reset p"

text \<open>The tenth report completes a frame.\<close>

definition otp_frame_done :: "'w otp_hooks \<Rightarrow> otp \<times> 'w \<Rightarrow> otp \<times> 'w" where
  "otp_frame_done h ow =
     (let (p, w) = ow; f = ot_frame p;
          computed = cr_crc16 (take 65 f);
          stored = (ucast (f ! 65) :: u16) OR push_bit 8 (ucast (f ! 66));
          s = f ! 64
      in if computed \<noteq> stored then (otp_proto_reset p, w)
         else if s \<noteq> OTP_SLOT_CHAL_HMAC1 \<and> s \<noteq> OTP_SLOT_CHAL_HMAC2 then (otp_proto_reset p, w)
         else (p\<lparr>ot_challenge := take 64 f, ot_slot := s, ot_state := ST_WAIT\<rparr>,
               oh_confirm_arm h s w))"

definition otp_proto_on_write :: "'w otp_hooks \<Rightarrow> bytes \<Rightarrow> otp \<times> 'w \<Rightarrow> otp \<times> 'w" where
  "otp_proto_on_write h report ow =
     (let (p, w) = ow; byte7 = report ! 7; seq = byte7 AND 0x1F in
      if ot_state p \<noteq> ST_IDLE then ow
      else if byte7 AND OTP_SLOT_WRITE_FLAG = 0 then ow
      else if seq \<ge> 10 then ow
      else
        let o1 = (if seq = 0 then p\<lparr>ot_frame := replicate OTP_FRAME_SIZE 0\<rparr> else p);
            o2 = o1\<lparr>ot_frame := mem_write (unat seq * 7) (take 7 report) (ot_frame o1)\<rparr>
        in if seq = 9 then otp_frame_done h (o2, w) else (o2, w))"

definition otp_respond :: "otp \<Rightarrow> otp \<times> bytes" where
  "otp_respond p =
     (let sq = ot_resp_seq p;
          n = (if sq < 2 then 7 else OTP_RESP_LEN - 14);
          report = (mem_write 0 (take n (drop (unat (sq * 7)) (ot_resp p)))
                     (replicate OTP_FEATURE_RPT_SIZE 0))[7 := OTP_RESP_PENDING_FLAG OR sq];
          o1 = p\<lparr>ot_resp_seq := sq + 1\<rparr>
      in (if ot_resp_seq o1 \<ge> 3 then otp_proto_reset o1 else o1, report))"

definition otp_proto_on_read :: "'w otp_hooks \<Rightarrow> otp \<times> 'w \<Rightarrow> (otp \<times> 'w) \<times> bytes" where
  "otp_proto_on_read h ow =
     (let (p, w) = ow; zero = replicate OTP_FEATURE_RPT_SIZE 0 in
      case ot_state p of
        ST_IDLE \<Rightarrow> (ow, zero)
      | ST_WAIT \<Rightarrow>
          (let (w', cs) = oh_confirm_state h w in
           if cs = 2 then ((otp_proto_reset p, w'), zero)
           else if cs = 1 then
             (let (_, out) = oh_hmac h w' (ot_slot p) (ot_challenge p) (ot_resp p);
                  (o2, report) = otp_respond (p\<lparr>ot_resp := out, ot_resp_seq := 0, ot_state := ST_RESP\<rparr>)
              in ((o2, w'), report))
           else ((p, w'), zero[7 := OTP_RESP_TIMEOUT_WAIT_FLAG]))
      | ST_RESP \<Rightarrow> (let (o2, report) = otp_respond p in ((o2, w), report)))"


section \<open>The hooks of the target\<close>

record otp_world =
  ow_gate :: sec_confirm
  ow_armed_idx :: int
  ow_store :: sec_store
  ow_now :: u32

definition otp_slot_to_store_idx :: "u8 \<Rightarrow> int" where
  "otp_slot_to_store_idx otp_slot =
     (if otp_slot = OTP_SLOT_CHAL_HMAC1 then 0
      else if otp_slot = OTP_SLOT_CHAL_HMAC2 then 1 else -1)"

text \<open>\<open>hmac secret challenge out\<close> is \<open>cr_hmac_sha1\<close>.\<close>

definition hook_compute_hmac ::
  "(bytes \<Rightarrow> bytes \<Rightarrow> bytes \<Rightarrow> bool \<times> bytes) \<Rightarrow> otp_world \<Rightarrow> u8 \<Rightarrow> bytes \<Rightarrow> bytes \<Rightarrow> bool \<times> bytes"
  where
  "hook_compute_hmac hmac w slot challenge out =
     (let idx = otp_slot_to_store_idx slot in
      if idx < 0 then (False, out)
      else case sec_store_get_secret (nat idx) (ow_store w) of
        None \<Rightarrow> (False, out)
      | Some (secret, secret_len) \<Rightarrow>
          if secret_len = 0 then (False, out) else hmac secret challenge out)"

definition hook_confirm_arm :: "u8 \<Rightarrow> otp_world \<Rightarrow> otp_world" where
  "hook_confirm_arm slot w =
     (let idx = otp_slot_to_store_idx slot in
      if idx < 0 then w
      else w\<lparr>ow_armed_idx := idx, ow_gate := sec_confirm_arm (of_int idx) (ow_now w) (ow_gate w)\<rparr>)"

definition hook_confirm_state :: "otp_world \<Rightarrow> otp_world \<times> int" where
  "hook_confirm_state w =
     (let (g, st, out) = sec_confirm_poll (ow_now w) (ow_gate w);
          out_slot = (case out of None \<Rightarrow> 0 | Some sl \<Rightarrow> sl);
          w' = w\<lparr>ow_gate := g\<rparr>
      in (w', case st of
                SEC_CONFIRM_AUTHORIZED \<Rightarrow>
                  if ow_armed_idx w \<ge> 0 \<and> out_slot = of_int (ow_armed_idx w) then 1 else 2
              | SEC_CONFIRM_TIMEDOUT \<Rightarrow> 2
              | _ \<Rightarrow> 0))"

definition s_real_hooks :: "(bytes \<Rightarrow> bytes \<Rightarrow> bytes \<Rightarrow> bool \<times> bytes) \<Rightarrow> otp_world otp_hooks" where
  "s_real_hooks hmac = \<lparr>oh_hmac = hook_compute_hmac hmac, oh_confirm_state = hook_confirm_state,
     oh_confirm_arm = hook_confirm_arm\<rparr>"

text \<open>The USB callbacks of \<open>comm/usb/usb_hid.c\<close> for the feature reports of this interface: a write
  that is too short is ignored.\<close>

definition tud_hid_set_report :: "'w otp_hooks \<Rightarrow> bytes \<Rightarrow> otp \<times> 'w \<Rightarrow> otp \<times> 'w" where
  "tud_hid_set_report h buffer pw =
     (if length buffer \<ge> OTP_FEATURE_RPT_SIZE then otp_proto_on_write h buffer pw else pw)"

definition tud_hid_get_report :: "'w otp_hooks \<Rightarrow> otp \<times> 'w \<Rightarrow> (otp \<times> 'w) \<times> bytes" where
  "tud_hid_get_report h pw = otp_proto_on_read h pw"

text \<open>What happens to the device: reports written and read by the host, presses of the
  confirmation key, and the clock being read anew. A read delivers a report.\<close>

datatype otp_ev = HostWrite bytes | HostRead | UserTouch | ClockAt u32

fun otp_sys ::
  "(bytes \<Rightarrow> bytes \<Rightarrow> bytes \<Rightarrow> bool \<times> bytes) \<Rightarrow> otp_ev \<Rightarrow> otp \<times> otp_world \<Rightarrow>
     (otp \<times> otp_world) \<times> bytes list" where
  "otp_sys hmac (HostWrite r) (p, w) = (tud_hid_set_report (s_real_hooks hmac) r (p, w), [])"
| "otp_sys hmac HostRead (p, w) =
     (let (pw, r) = tud_hid_get_report (s_real_hooks hmac) (p, w) in (pw, [r]))"
| "otp_sys hmac UserTouch (p, w) = ((p, w\<lparr>ow_gate := sec_confirm_authorize (ow_gate w)\<rparr>), [])"
| "otp_sys hmac (ClockAt t) (p, w) = ((p, w\<lparr>ow_now := t\<rparr>), [])"

primrec otp_trace ::
  "(bytes \<Rightarrow> bytes \<Rightarrow> bytes \<Rightarrow> bool \<times> bytes) \<Rightarrow> otp_ev list \<Rightarrow> otp \<times> otp_world \<Rightarrow>
     (otp \<times> otp_world) \<times> bytes list" where
  "otp_trace hmac [] pw = (pw, [])"
| "otp_trace hmac (e # es) pw =
     (let (pw1, a) = otp_sys hmac e pw; (pw2, b) = otp_trace hmac es pw1 in (pw2, a @ b))"

definition otp_world_boot :: "sec_store \<Rightarrow> otp_world" where
  "otp_world_boot s = \<lparr>ow_gate = sec_confirm_boot, ow_armed_idx = -1, ow_store = s, ow_now = 0\<rparr>"

section \<open>Shapes\<close>

text \<open>The buffers keep their sizes, the counter stays below three, and nothing of a digest is
  held outside the answer that delivers it.\<close>

definition otp_ok :: "otp \<Rightarrow> bool" where
  "otp_ok p \<longleftrightarrow> length (ot_frame p) = OTP_FRAME_SIZE \<and> length (ot_challenge p) = 64 \<and>
     length (ot_resp p) = OTP_RESP_LEN \<and> ot_resp_seq p < 3 \<and>
     (ot_state p \<noteq> ST_RESP \<longrightarrow> ot_resp_seq p = 0 \<and> ot_resp p = replicate OTP_RESP_LEN 0)"

lemma otp_ok_reset [simp]: "otp_ok (otp_proto_reset p)"
  by (simp add: otp_ok_def otp_proto_reset_def)

lemma otp_ok_boot [simp]: "otp_ok otp_boot"
  by (simp add: otp_ok_def otp_boot_def)

lemma seq_bound: "(seq :: u8) < 10 \<Longrightarrow> unat seq \<le> 9"
  by (simp add: word_less_nat_alt)

lemma otp_write_ok:
  assumes "otp_ok p" "length r \<ge> OTP_FEATURE_RPT_SIZE"
  shows "otp_ok (fst (otp_proto_on_write h r (p, w)))"
  using assms seq_bound [of "r ! 7 AND 0x1F"]
  by (auto simp: otp_proto_on_write_def otp_frame_done_def Let_def otp_ok_def otp_consts
      otp_proto_reset_def not_le)

lemma resp_seq_cases: "(q :: u8) < 3 \<Longrightarrow> q = 0 \<or> q = 1 \<or> q = 2"
proof -
  assume "q < 3"
  then have "unat q < 3" by (simp add: word_less_nat_alt)
  then have "unat q = 0 \<or> unat q = 1 \<or> unat q = 2" by auto
  then show ?thesis by (simp add: word_unat_eq_iff)
qed

lemma otp_respond_ok:
  assumes "length (ot_frame p) = OTP_FRAME_SIZE" "length (ot_challenge p) = 64"
    "length (ot_resp p) = OTP_RESP_LEN" "ot_resp_seq p < 3" "ot_state p = ST_RESP"
  shows "otp_ok (fst (otp_respond p))"
  using assms resp_seq_cases [OF assms(4)]
  by (auto simp: otp_respond_def Let_def otp_ok_def otp_proto_reset_def)


lemma otp_read_ok:
  assumes "otp_ok p" "\<And>w s ch. length (snd (oh_hmac h w s ch (ot_resp p))) = OTP_RESP_LEN"
  shows "otp_ok (fst (fst (otp_proto_on_read h (p, w))))"
proof (cases "ot_state p")
  case ST_IDLE
  with assms(1) show ?thesis by (simp add: otp_proto_on_read_def)
next
  case ST_WAIT
  let ?out = "snd (oh_hmac h (fst (oh_confirm_state h w)) (ot_slot p) (ot_challenge p) (ot_resp p))"
  have "otp_ok (fst (otp_respond (p\<lparr>ot_resp := ?out, ot_resp_seq := 0, ot_state := ST_RESP\<rparr>)))"
    using assms by (intro otp_respond_ok) (simp_all add: otp_ok_def)
  with ST_WAIT assms(1) show ?thesis
    by (simp add: otp_proto_on_read_def Let_def split_beta)
next
  case ST_RESP
  then have "otp_ok (fst (otp_respond p))" using assms(1) by (intro otp_respond_ok) (simp_all add: otp_ok_def)
  with ST_RESP show ?thesis by (simp add: otp_proto_on_read_def split_beta)
qed



lemma otp_respond_report:
  "length (snd (otp_respond p)) = OTP_FEATURE_RPT_SIZE \<and>
   snd (otp_respond p) ! 7 = OTP_RESP_PENDING_FLAG OR ot_resp_seq p"
  by (simp add: otp_respond_def Let_def OTP_FEATURE_RPT_SIZE_def OTP_RESP_LEN_def)

lemma otp_read_report: "length (snd (otp_proto_on_read h pw)) = OTP_FEATURE_RPT_SIZE"
  using otp_respond_report
  by (cases pw) (simp add: otp_proto_on_read_def Let_def split_beta split: otp_state.splits)

lemma otp_sys_ok:
  assumes "\<And>k c out. length (snd (hmac k c out)) = length out" "otp_ok (fst pw)"
  shows "otp_ok (fst (fst (otp_sys hmac e pw)))"
    and "\<forall>r\<in>set (snd (otp_sys hmac e pw)). length r = OTP_FEATURE_RPT_SIZE"
proof -
  obtain p w where pw: "pw = (p, w)" by (cases pw)
  have "length (snd (oh_hmac (s_real_hooks hmac) w' s ch (ot_resp p))) = OTP_RESP_LEN" for w' s ch
    using assms pw by (simp add: s_real_hooks_def hook_compute_hmac_def Let_def otp_ok_def split: option.splits)
  then show "otp_ok (fst (fst (otp_sys hmac e pw)))"
    using assms(2) pw
    by (cases e) (simp_all add: otp_write_ok otp_read_ok tud_hid_set_report_def tud_hid_get_report_def split_beta)
  show "\<forall>r\<in>set (snd (otp_sys hmac e pw)). length r = OTP_FEATURE_RPT_SIZE"
    using otp_read_report pw by (cases e) (simp_all add: tud_hid_get_report_def split_beta)
qed

lemma otp_trace_ok:
  assumes "\<And>k c out. length (snd (hmac k c out)) = length out" "otp_ok (fst pw)"
  shows "otp_ok (fst (fst (otp_trace hmac es pw))) \<and>
         (\<forall>r\<in>set (snd (otp_trace hmac es pw)). length r = OTP_FEATURE_RPT_SIZE)"
  using assms(2)
proof (induction es arbitrary: pw)
  case (Cons e es)
  from Cons.IH [OF otp_sys_ok(1) [OF assms(1) Cons.prems]] otp_sys_ok(2) [OF assms(1) Cons.prems]
  show ?case by (auto simp: Let_def split_beta)
qed simp

text \<open>The buffers have the sizes the code declares, whatever the host writes and reads and the
  user presses: the frame is 70 bytes, the digest 20, the report counter below 3, outside an answer
  the digest buffer is zero, and every report read has 8 bytes.\<close>

theorem otp_buffers_keep_shape:
  assumes "\<And>k c out. length (snd (hmac k c out)) = length out"
  shows "otp_ok (fst (fst (otp_trace hmac es (otp_boot, otp_world_boot s)))) \<and>
         (\<forall>r\<in>set (snd (otp_trace hmac es (otp_boot, otp_world_boot s))). length r = 8)"
  using otp_trace_ok [of hmac "(otp_boot, otp_world_boot s)" es, OF assms]
  by (simp add: OTP_FEATURE_RPT_SIZE_def)

definition fake_hmac :: "bytes \<Rightarrow> bytes \<Rightarrow> bytes \<Rightarrow> bool \<times> bytes" where
  "fake_hmac secret challenge out = (True, map (\<lambda>b. b XOR 0x5A XOR hd secret) out)"

theorem otp_buffers_keep_shape_witness:
  "otp_ok (fst (fst (otp_trace fake_hmac [HostWrite [1, 2, 3, 4, 5, 6, 7, 0x80], UserTouch, HostRead]
     (otp_boot, otp_world_boot (sample_store [9])))))"
  by (rule otp_buffers_keep_shape [THEN conjunct1]) (simp add: fake_hmac_def)

section \<open>Answers and touches\<close>

definition starts_answer :: "bytes \<Rightarrow> bool" where
  "starts_answer r \<longleftrightarrow> r ! 7 = OTP_RESP_PENDING_FLAG"

definition seq_ok :: "otp \<Rightarrow> bool" where
  "seq_ok p \<longleftrightarrow> ot_state p = ST_RESP \<longrightarrow> ot_resp_seq p \<in> {1, 2}"

lemma respond_seq_ok:
  assumes "ot_resp_seq p \<in> {0, 1, 2}"
  shows "seq_ok (fst (otp_respond p))"
    and "starts_answer (snd (otp_respond p)) \<longleftrightarrow> ot_resp_seq p = 0"
  using assms otp_respond_report [of p]
  by (auto simp: otp_respond_def Let_def seq_ok_def otp_proto_reset_def starts_answer_def
      OTP_RESP_PENDING_FLAG_def)

abbreviation touch_left :: "otp_world \<Rightarrow> nat" where
  "touch_left w \<equiv> unspent (gate_view (ow_gate w))"

lemma write_touch:
  assumes "seq_ok p" "otp_proto_on_write (s_real_hooks hmac) r (p, w) = (p', w')"
  shows "seq_ok p' \<and> touch_left w' \<le> touch_left w"
proof -
  have arm: "touch_left (hook_confirm_arm s w) \<le> touch_left w" for s
    by (simp add: hook_confirm_arm_def gate_view_def sec_confirm_arm_def Let_def)
  show ?thesis
    using assms arm
    by (auto simp: otp_proto_on_write_def otp_frame_done_def Let_def seq_ok_def s_real_hooks_def
        otp_proto_reset_def split: if_splits)
qed

lemma confirm_state_touch:
  assumes "hook_confirm_state w = (w', cs)"
  shows "touch_left w' \<le> touch_left w" and "cs = 1 \<Longrightarrow> touch_left w = 1 \<and> touch_left w' = 0"
  using assms
  by (auto simp: hook_confirm_state_def sec_confirm_poll_def gate_view_def Let_def
      split: prod.splits if_splits sec_confirm_state.splits)

lemma read_touch:
  assumes "seq_ok p" "otp_proto_on_read (s_real_hooks hmac) (p, w) = ((p', w'), r)"
  shows "seq_ok p' \<and> (if starts_answer r then 1 else 0) + touch_left w' \<le> touch_left w"
proof (cases "ot_state p")
  case ST_IDLE
  with assms show ?thesis
    by (auto simp: otp_proto_on_read_def seq_ok_def starts_answer_def otp_consts)
next
  case ST_RESP
  then have sq: "ot_resp_seq p \<in> {1, 2}" using assms(1) by (simp add: seq_ok_def)
  with ST_RESP assms(2) respond_seq_ok [of p] show ?thesis
    by (auto simp: otp_proto_on_read_def split: prod.splits)
next
  case ST_WAIT
  obtain w1 cs where c: "hook_confirm_state w = (w1, cs)" by fastforce
  let ?p = "\<lambda>out. p\<lparr>ot_resp := out, ot_resp_seq := 0, ot_state := ST_RESP\<rparr>"
  show ?thesis
  proof (cases "cs = 1")
    case True
    obtain ok out where h: "hook_compute_hmac hmac w1 (ot_slot p) (ot_challenge p) (ot_resp p) = (ok, out)"
      by fastforce
    from ST_WAIT assms(2) c True h have "p' = fst (otp_respond (?p out))" "w' = w1"
      by (auto simp: otp_proto_on_read_def s_real_hooks_def Let_def split: prod.splits)
    with confirm_state_touch(2) [OF c True] respond_seq_ok(1) [of "?p out"] show ?thesis by simp
  next
    case False
    with ST_WAIT assms c have "seq_ok p'" "w' = w1" "\<not> starts_answer r"
      by (auto simp: otp_proto_on_read_def s_real_hooks_def Let_def seq_ok_def otp_proto_reset_def
          starts_answer_def otp_consts split: if_splits)
    with confirm_state_touch(1) [OF c] show ?thesis by simp
  qed
qed

lemma sys_touch:
  assumes "seq_ok p" "otp_sys hmac e (p, w) = ((p', w'), outs)"
  shows "seq_ok p' \<and> length (filter starts_answer outs) + touch_left w' \<le>
           (if e = UserTouch then 1 else 0) + touch_left w"
proof (cases e)
  case (HostWrite r)
  with assms write_touch [OF assms(1), of hmac r w p' w'] show ?thesis
    by (auto simp: tud_hid_set_report_def split: if_splits)
next
  case HostRead
  with assms read_touch [OF assms(1), of hmac w p' w'] show ?thesis
    by (auto simp: tud_hid_get_report_def split: prod.splits)
next
  case UserTouch
  with assms show ?thesis
    by (auto simp: sec_confirm_authorize_def gate_view_def split: if_splits sec_confirm_state.splits)
next
  case (ClockAt t)
  with assms show ?thesis by auto
qed

lemma trace_touch:
  "seq_ok p \<Longrightarrow> otp_trace hmac es (p, w) = ((p', w'), outs) \<Longrightarrow>
     length (filter starts_answer outs) + touch_left w' \<le>
       length (filter (\<lambda>e. e = UserTouch) es) + touch_left w"
proof (induction es arbitrary: p w outs)
  case (Cons e es)
  obtain p1 w1 a where s: "otp_sys hmac e (p, w) = ((p1, w1), a)" by (metis surj_pair)
  obtain b where t: "otp_trace hmac es (p1, w1) = ((p', w'), b)" and outs: "outs = a @ b"
    using Cons.prems(2) s by (auto split: prod.splits)
  from sys_touch [OF Cons.prems(1) s] Cons.IH [OF _ t] outs show ?case by (auto split: if_splits)
qed simp

text \<open>C12: every answer is paid for by a press. Over any history of reports written, reports read,
  clock readings and presses of the confirmation key since the start, the device starts at most as
  many answers (reports flagged as the first of a digest) as there were presses: no frame, however
  formed, makes it compute a second HMAC on one press.\<close>

theorem otp_answers_need_touches:
  "length (filter starts_answer (snd (otp_trace hmac es (otp_boot, otp_world_boot s))))
     \<le> length (filter (\<lambda>e. e = UserTouch) es)"
proof -
  obtain p w outs where t: "otp_trace hmac es (otp_boot, otp_world_boot s) = ((p, w), outs)"
    by (metis surj_pair)
  have "touch_left (otp_world_boot s) = 0" by (simp add: otp_world_boot_def)
  with trace_touch [OF _ t] t show ?thesis by (simp add: seq_ok_def otp_boot_def)
qed



section \<open>A whole frame\<close>

text \<open>What a host sends: the challenge, the slot, the checksum, filler, in ten reports.\<close>

definition otp_frame :: "bytes \<Rightarrow> u8 \<Rightarrow> bytes" where
  "otp_frame challenge slot =
     challenge @ [slot] @ [lo8 (cr_crc16 (challenge @ [slot])), hi8 (cr_crc16 (challenge @ [slot]))]
     @ [0, 0, 0]"

definition otp_report :: "bytes \<Rightarrow> nat \<Rightarrow> bytes" where
  "otp_report f i = take 7 (drop (7 * i) f) @ [of_nat i OR OTP_SLOT_WRITE_FLAG]"

definition otp_reports :: "bytes \<Rightarrow> bytes list" where
  "otp_reports f = map (otp_report f) [0..<10]"

lemma small_words [simp]: "\<not> 10 \<le> (1 :: u8)" "\<not> 3 \<le> (1 :: u8)"
  by (simp_all add: word_le_nat_alt)

lemma report_flag:
  assumes "i < 10"
  shows "(of_nat i OR OTP_SLOT_WRITE_FLAG) AND (0x1F :: u8) = of_nat i"
    and "(of_nat i OR OTP_SLOT_WRITE_FLAG) AND OTP_SLOT_WRITE_FLAG \<noteq> (0 :: u8)"
    and "unat (of_nat i :: u8) = i" and "\<not> (of_nat i :: u8) \<ge> 10"
    and "(of_nat i :: u8) = 0 \<longleftrightarrow> i = 0" and "(of_nat i :: u8) = 9 \<longleftrightarrow> i = 9"
proof -
  have "i \<in> {0, 1, 2, 3, 4, 5, 6, 7, 8, 9}" using assms by auto
  then show "(of_nat i OR OTP_SLOT_WRITE_FLAG) AND (0x1F :: u8) = of_nat i"
    "(of_nat i OR OTP_SLOT_WRITE_FLAG) AND OTP_SLOT_WRITE_FLAG \<noteq> (0 :: u8)"
    "unat (of_nat i :: u8) = i" "\<not> (of_nat i :: u8) \<ge> 10"
    "(of_nat i :: u8) = 0 \<longleftrightarrow> i = 0" "(of_nat i :: u8) = 9 \<longleftrightarrow> i = 9"
    by (auto simp: OTP_SLOT_WRITE_FLAG_def)
qed

lemma report_parts:
  assumes "length f = 70" "i < 10"
  shows "length (otp_report f i) = 8" "otp_report f i ! 7 = of_nat i OR OTP_SLOT_WRITE_FLAG"
    "take 7 (otp_report f i) = take 7 (drop (7 * i) f)"
  using assms by (simp_all add: otp_report_def nth_append)

lemma write_report:
  assumes "length f = 70" "i < 10" "ot_state p = ST_IDLE"
    and "ot_frame p = take (7 * i) f @ replicate (70 - 7 * i) 0 \<or> i = 0"
  shows "otp_proto_on_write h (otp_report f i) (p, w) =
     (let p' = p\<lparr>ot_frame := take (7 * Suc i) f @ replicate (70 - 7 * Suc i) 0\<rparr>
      in if i = 9 then otp_frame_done h (p', w) else (p', w))"
proof -
  have step: "mem_write (i * 7) (take 7 (drop (7 * i) f)) (take (7 * i) f @ replicate (70 - 7 * i) 0)
      = take (7 * Suc i) f @ replicate (70 - 7 * Suc i) 0"
  proof -
    have "length (take (7 * i) f) = i * 7" "length (take 7 (drop (7 * i) f)) = 7"
      using assms(1,2) by simp_all
    then have "mem_write (i * 7) (take 7 (drop (7 * i) f)) (take (7 * i) f @ replicate (70 - 7 * i) 0)
        = take (7 * i) f @ take 7 (drop (7 * i) f) @ drop 7 (replicate (70 - 7 * i) 0)"
      by (simp add: mem_write_def mult.commute [of 7 i] del: length_take)
    moreover have "take (7 * Suc i) f = take (7 * i) f @ take 7 (drop (7 * i) f)"
      using take_add [of "7 * i" 7 f] by (simp add: add.commute)
    ultimately show ?thesis by simp
  qed
  let ?p' = "p\<lparr>ot_frame := take (7 * Suc i) f @ replicate (70 - 7 * Suc i) 0\<rparr>"
  have "otp_proto_on_write h (otp_report f i) (p, w) =
      (if of_nat i = (9 :: u8) then otp_frame_done h (?p', w) else (?p', w))"
    using assms(3,4) step report_flag(1-5) [OF assms(2)] report_parts [OF assms(1,2)]
    unfolding otp_proto_on_write_def Let_def OTP_FRAME_SIZE_def
    by (cases "i = 0") (simp_all del: mult_Suc_right split del: if_split cong del: if_weak_cong)
  then show ?thesis using report_flag(6) [OF assms(2)] by (simp only: Let_def)
qed

lemma write_prefix:
  assumes "length f = 70" "ot_state p = ST_IDLE" "n \<le> 9"
  shows "fold (otp_proto_on_write h) (map (otp_report f) [0..<n]) (p, w) =
     ((if n = 0 then p else p\<lparr>ot_frame := take (7 * n) f @ replicate (70 - 7 * n) 0\<rparr>), w)"
  using assms(3)
proof (induction n)
  case (Suc n)
  let ?q = "if n = 0 then p else p\<lparr>ot_frame := take (7 * n) f @ replicate (70 - 7 * n) 0\<rparr>"
  have "ot_state ?q = ST_IDLE" "ot_frame ?q = take (7 * n) f @ replicate (70 - 7 * n) 0 \<or> n = 0"
    using assms(2) by simp_all
  from write_report [OF assms(1) _ this, of h w] Suc.IH Suc.prems show ?case
    by (cases "n = 0") (simp_all add: Let_def)
qed simp

lemma write_frame:
  assumes "length f = 70" "ot_state p = ST_IDLE"
  shows "fold (otp_proto_on_write h) (otp_reports f) (p, w) = otp_frame_done h (p\<lparr>ot_frame := f\<rparr>, w)"
proof -
  have "[0..<10] = [0..<9] @ [9 :: nat]" by (simp add: upt_rec)
  then show ?thesis
    using write_prefix [OF assms, of 9 h w] write_report [OF assms(1), of 9 "p\<lparr>ot_frame := take 63 f @ replicate 7 0\<rparr>" h w]
      assms by (simp add: otp_reports_def Let_def)
qed

lemma frame_parts:
  assumes "length challenge = 64"
  shows "length (otp_frame challenge slot) = 70" "take 65 (otp_frame challenge slot) = challenge @ [slot]"
    "take 64 (otp_frame challenge slot) = challenge" "otp_frame challenge slot ! 64 = slot"
    "otp_frame challenge slot ! 65 = lo8 (cr_crc16 (challenge @ [slot]))"
    "otp_frame challenge slot ! 66 = hi8 (cr_crc16 (challenge @ [slot]))"
  using assms by (simp_all add: otp_frame_def nth_append)

lemma frame_accepted:
  assumes "length challenge = 64" "slot = OTP_SLOT_CHAL_HMAC1 \<or> slot = OTP_SLOT_CHAL_HMAC2"
    and "ot_state p = ST_IDLE"
  shows "fold (otp_proto_on_write h) (otp_reports (otp_frame challenge slot)) (p, w) =
     (p\<lparr>ot_frame := otp_frame challenge slot, ot_challenge := challenge, ot_slot := slot,
        ot_state := ST_WAIT\<rparr>, oh_confirm_arm h slot w)"
  using assms by (auto simp: write_frame frame_parts otp_frame_done_def le16_bytes)

text \<open>Three reads carry a digest.\<close>

lemma three_reads:
  assumes "length d = OTP_RESP_LEN" "ot_resp p = d" "ot_resp_seq p = 0" "ot_state p = ST_RESP"
    and "otp_respond p = (p1, r0)" "otp_proto_on_read h (p1, w) = ((p2, w2), r1)"
    and "otp_proto_on_read h (p2, w2) = ((p3, w3), r2)"
  shows "r0 = take 7 d @ [0x40] \<and> r1 = take 7 (drop 7 d) @ [0x41] \<and> r2 = drop 14 d @ [0, 0x42] \<and>
         p3 = otp_proto_reset p \<and> w3 = w"
proof -
  have wr: "mem_write 0 x (replicate 8 0) = x @ replicate (8 - length x) 0" for x :: bytes
    by (simp add: mem_write_def)
  have rep2: "replicate 2 (0 :: u8) = [0, 0]" by (simp add: numeral_2_eq_2)
  have p1: "p1 = p\<lparr>ot_resp_seq := 1\<rparr>" and r0: "r0 = take 7 d @ [0x40]"
    using assms by (auto simp: otp_respond_def Let_def wr otp_consts list_update_append)
  have p2: "p2 = p\<lparr>ot_resp_seq := 2\<rparr>" "w2 = w" and r1: "r1 = take 7 (drop 7 d) @ [0x41]"
    using assms(1-4,6) by (auto simp: p1 otp_proto_on_read_def otp_respond_def Let_def wr otp_consts list_update_append)
  have p3: "p3 = otp_proto_reset p" "w3 = w" and r2: "r2 = drop 14 d @ [0, 0x42]"
    using assms(1-4,7)
    by (auto simp: p2 otp_proto_on_read_def otp_respond_def otp_proto_reset_def Let_def wr otp_consts
        list_update_append rep2)
  from r0 r1 r2 p3 show ?thesis by simp
qed



section \<open>Properties of an exchange\<close>

lemma read_granted:
  assumes "ot_state p = ST_WAIT" "oh_confirm_state h w = (w1, 1)"
    and "oh_hmac h w1 (ot_slot p) (ot_challenge p) (ot_resp p) = (ok, d)"
  shows "otp_proto_on_read h (p, w) =
    (let (p1, r) = otp_respond (p\<lparr>ot_resp := d, ot_resp_seq := 0, ot_state := ST_RESP\<rparr>) in ((p1, w1), r))"
  using assms by (simp add: otp_proto_on_read_def)

text \<open>Once a frame is accepted and its slot confirmed, three reads deliver the digest.\<close>

lemma exchange:
  assumes "length challenge = 64" "slot = OTP_SLOT_CHAL_HMAC1 \<or> slot = OTP_SLOT_CHAL_HMAC2"
    and "ot_state p = ST_IDLE"
    and "fold (otp_proto_on_write h) (otp_reports (otp_frame challenge slot)) (p, w) = (p0, w0)"
    and "oh_confirm_state h w' = (w1, 1)"
    and "oh_hmac h w1 slot challenge (ot_resp p) = (ok, d)" "length d = OTP_RESP_LEN"
    and "otp_proto_on_read h (p0, w') = (pw1, r0)" "otp_proto_on_read h pw1 = (pw2, r1)"
    and "otp_proto_on_read h pw2 = (pw3, r2)"
  shows "r0 = take 7 d @ [0x40] \<and> r1 = take 7 (drop 7 d) @ [0x41] \<and> r2 = drop 14 d @ [0, 0x42]"
    and "w0 = oh_confirm_arm h slot w" and "ot_state (fst pw3) = ST_IDLE"
proof -
  have p0: "ot_state p0 = ST_WAIT" "ot_slot p0 = slot" "ot_challenge p0 = challenge" "ot_resp p0 = ot_resp p"
    and "w0 = oh_confirm_arm h slot w"
    using frame_accepted [OF assms(1-3), of h w] assms(4) by auto
  then show "w0 = oh_confirm_arm h slot w" by simp
  let ?p = "p0\<lparr>ot_resp := d, ot_resp_seq := 0, ot_state := ST_RESP\<rparr>"
  obtain p1 where resp: "otp_respond ?p = (p1, r0)" and pw1: "pw1 = (p1, w1)"
    using read_granted [OF p0(1) assms(5), of ok d] assms(6,8) p0 by (auto split: prod.splits)
  obtain p2 w2 p3 w3 where pw: "pw2 = (p2, w2)" "pw3 = (p3, w3)" by (metis surj_pair)
  have "r0 = take 7 d @ [0x40] \<and> r1 = take 7 (drop 7 d) @ [0x41] \<and> r2 = drop 14 d @ [0, 0x42] \<and>
      p3 = otp_proto_reset ?p \<and> w3 = w1"
    by (rule three_reads [OF assms(7) _ _ _ resp]) (use assms(9,10) pw1 pw in simp_all)
  then show "r0 = take 7 d @ [0x40] \<and> r1 = take 7 (drop 7 d) @ [0x41] \<and> r2 = drop 14 d @ [0, 0x42]"
    "ot_state (fst pw3) = ST_IDLE" using pw by (simp_all add: otp_proto_reset_def)
qed

text \<open>The exchange. A host that sends the ten reports of any 64-byte challenge for one of the
  two slots arms the confirmation of that slot and of nothing else; when the confirmation is granted,
  the data bytes of the next three reports put together are the digest of that very
  challenge for that slot, flagged 0x40, 0x41, 0x42, and the device is idle again.\<close>

theorem otp_exchange:
  assumes "length challenge = 64" "slot = OTP_SLOT_CHAL_HMAC1 \<or> slot = OTP_SLOT_CHAL_HMAC2"
    and "ot_state p = ST_IDLE"
    and "fold (otp_proto_on_write h) (otp_reports (otp_frame challenge slot)) (p, w) = (p0, w0)"
    and "oh_confirm_state h w0 = (w1, 1)"
    and "oh_hmac h w1 slot challenge (ot_resp p) = (True, d)" "length d = OTP_RESP_LEN"
    and "otp_proto_on_read h (p0, w0) = (pw1, r0)" "otp_proto_on_read h pw1 = (pw2, r1)"
    and "otp_proto_on_read h pw2 = (pw3, r2)"
  shows "take 7 r0 @ take 7 r1 @ take 6 r2 = d \<and> [r0 ! 7, r1 ! 7, r2 ! 7] = [0x40, 0x41, 0x42] \<and>
         w0 = oh_confirm_arm h slot w \<and> ot_state (fst pw3) = ST_IDLE"
proof -
  note ex = exchange [OF assms]
  have "d = take 7 d @ take 7 (drop 7 d) @ drop 14 d"
    using append_take_drop_id [of 7 d] append_take_drop_id [of 7 "drop 7 d"] by simp
  then show ?thesis using ex assms(7) by (simp add: nth_append OTP_RESP_LEN_def)
qed

definition demo_hooks :: "u8 otp_hooks" where
  "demo_hooks = \<lparr>oh_hmac = (\<lambda>w s ch out. (True, map (\<lambda>b. b XOR s) (take 20 ch))),
     oh_confirm_state = (\<lambda>w. (w, if w = 0x38 then 1 else 0)), oh_confirm_arm = (\<lambda>s w. s)\<rparr>"

theorem otp_exchange_witness:
  "\<exists>p0 pw1 pw2 pw3 r0 r1 r2.
     fold (otp_proto_on_write demo_hooks) (otp_reports (otp_frame (replicate 64 7) 0x38)) (otp_boot, 0) = (p0, 0x38) \<and>
     otp_proto_on_read demo_hooks (p0, 0x38) = (pw1, r0) \<and> otp_proto_on_read demo_hooks pw1 = (pw2, r1) \<and>
     otp_proto_on_read demo_hooks pw2 = (pw3, r2) \<and>
     take 7 r0 @ take 7 r1 @ take 6 r2 = replicate 20 (7 XOR 0x38)"
proof -
  let ?h = demo_hooks
  obtain p0 where w: "fold (otp_proto_on_write ?h) (otp_reports (otp_frame (replicate 64 7) 0x38)) (otp_boot, 0)
      = (p0, 0x38)"
    using frame_accepted [of "replicate 64 7" "0x38" otp_boot ?h 0]
    by (simp add: otp_boot_def demo_hooks_def otp_consts)
  obtain pw1 pw2 pw3 r0 r1 r2 where r: "otp_proto_on_read ?h (p0, 0x38) = (pw1, r0)"
    "otp_proto_on_read ?h pw1 = (pw2, r1)" "otp_proto_on_read ?h pw2 = (pw3, r2)" by (metis surj_pair)
  have "take 7 r0 @ take 7 r1 @ take 6 r2 = replicate 20 (7 XOR 0x38)"
    by (rule otp_exchange [OF _ _ _ w _ _ _ r, THEN conjunct1])
       (simp_all add: otp_boot_def demo_hooks_def otp_consts)
  with w r show ?thesis by blast
qed

text \<open>A damaged frame is refused. Change any one of the 67 meaningful bytes of a frame
  (challenge, slot, checksum) and the ten reports leave the device idle with its buffers wiped;
  the confirmation is not armed.\<close>

theorem otp_corrupt_frame_refused:
  assumes "length challenge = 64" "ot_state p = ST_IDLE"
    and "i < 67" "b \<noteq> otp_frame challenge slot ! i"
  shows "fold (otp_proto_on_write h) (otp_reports ((otp_frame challenge slot)[i := b])) (p, w) =
    (otp_proto_reset p, w)"
proof -
  let ?f = "otp_frame challenge slot" and ?g = "(otp_frame challenge slot)[i := b]"
  note f = frame_parts [OF assms(1), of slot]
  have stored: "be16 (?f ! 66) (?f ! 65) = cr_crc16 (take 65 ?f)" by (simp add: f)
  have "cr_crc16 (take 65 ?g) \<noteq> be16 (?g ! 66) (?g ! 65)"
  proof (cases "i < 65")
    case True
    then have "take 65 ?g = (take 65 ?f)[i := b]" by (simp add: take_update_swap)
    moreover have "cr_crc16 ((take 65 ?f)[i := b]) \<noteq> cr_crc16 (take 65 ?f)"
      using cr16.one_byte_update [of i "take 65 ?f"] True assms(4) f(1) by (simp add: cr_crc16_def)
    ultimately show ?thesis using stored True by simp
  next
    case False
    then have "take 65 ?g = take 65 ?f" by simp
    moreover have "be16 (?g ! 66) (?g ! 65) \<noteq> be16 (?f ! 66) (?f ! 65)"
    proof
      assume eq: "be16 (?g ! 66) (?g ! 65) = be16 (?f ! 66) (?f ! 65)"
      have "i = 65 \<or> i = 66" using False assms(3) by auto
      then show False
        using arg_cong [OF eq, of hi8] arg_cong [OF eq, of lo8] assms(4) f(1) by auto
    qed
    ultimately show ?thesis using stored by simp
  qed
  then show ?thesis
    using f(1) by (simp add: write_frame assms(2) otp_frame_done_def Let_def le16_bytes otp_proto_reset_def)
qed

theorem otp_corrupt_frame_refused_witness:
  "fold (otp_proto_on_write demo_hooks) (otp_reports ((otp_frame (replicate 64 7) 0x30)[64 := 0x38])) (otp_boot, 0) =
    (otp_proto_reset otp_boot, 0)"
  by (rule otp_corrupt_frame_refused) (simp_all add: otp_boot_def otp_frame_def nth_append)



section \<open>Two exchanges of the device\<close>

lemma trace_append:
  "otp_trace hmac (a @ b) pw =
     (let (pw1, x) = otp_trace hmac a pw; (pw2, y) = otp_trace hmac b pw1 in (pw2, x @ y))"
  by (induction a arbitrary: pw) (auto simp: Let_def split: prod.splits)

lemma trace_writes:
  "\<forall>r\<in>set rs. OTP_FEATURE_RPT_SIZE \<le> length r \<Longrightarrow>
     otp_trace hmac (map HostWrite rs) pw = (fold (otp_proto_on_write (s_real_hooks hmac)) rs pw, [])"
  by (induction rs arbitrary: pw) (auto simp: tud_hid_set_report_def split_beta)

lemma reports_long: "length f = 70 \<Longrightarrow> \<forall>r\<in>set (otp_reports f). OTP_FEATURE_RPT_SIZE \<le> length r"
  by (auto simp: otp_reports_def report_parts OTP_FEATURE_RPT_SIZE_def)

abbreviation frame_events :: "bytes \<Rightarrow> u8 \<Rightarrow> otp_ev list" where
  "frame_events challenge slot \<equiv> map HostWrite (otp_reports (otp_frame challenge slot))"

lemma trace_frame:
  assumes "length challenge = 64" "slot = OTP_SLOT_CHAL_HMAC1 \<or> slot = OTP_SLOT_CHAL_HMAC2"
    and "ot_state p = ST_IDLE"
  shows "otp_trace hmac (frame_events challenge slot) (p, w) =
     ((p\<lparr>ot_frame := otp_frame challenge slot, ot_challenge := challenge, ot_slot := slot,
         ot_state := ST_WAIT\<rparr>, hook_confirm_arm slot w), [])"
  using frame_accepted [OF assms, of "s_real_hooks hmac" w] frame_parts(1) [OF assms(1), of slot]
  by (simp add: trace_writes reports_long) (simp add: s_real_hooks_def)

text \<open>A touched gate grants whatever the clock says.\<close>

lemma touched_confirms:
  assumes "slot = OTP_SLOT_CHAL_HMAC1 \<or> slot = OTP_SLOT_CHAL_HMAC2"
  shows "hook_confirm_state ((hook_confirm_arm slot w)\<lparr>ow_now := t1,
       ow_gate := sec_confirm_authorize (ow_gate (hook_confirm_arm slot w)), ow_now := t2\<rparr>) =
     ((hook_confirm_arm slot w)\<lparr>ow_now := t2, ow_gate := (ow_gate (hook_confirm_arm slot w))
         \<lparr>sc_state := SEC_CONFIRM_IDLE\<rparr>\<rparr>, 1)"
  using assms
  by (auto simp: hook_confirm_state_def hook_confirm_arm_def otp_slot_to_store_idx_def Let_def
      sec_confirm_defs OTP_SLOT_CHAL_HMAC1_def OTP_SLOT_CHAL_HMAC2_def)

lemma arm_store [simp]: "ow_store (hook_confirm_arm slot w) = ow_store w"
  by (simp add: hook_confirm_arm_def Let_def)

lemma read_touched:
  assumes "ot_state p = ST_WAIT" "hook_confirm_state w = (w1, 1)"
    and "hook_compute_hmac hmac w1 (ot_slot p) (ot_challenge p) (ot_resp p) = (ok, d)"
  shows "otp_sys hmac HostRead (p, w) =
    (let (p1, r) = otp_respond (p\<lparr>ot_resp := d, ot_resp_seq := 0, ot_state := ST_RESP\<rparr>) in ((p1, w1), [r]))"
  using assms by (simp add: tud_hid_get_report_def s_real_hooks_def read_granted split_beta)

text \<open>A request does not expire by itself. The host sends a frame at one time and does not read; at
  any later time, hours later too, a press of the confirmation key made for some other reason opens the
  gate, and the next read starts the answer. The deadline of the gate is looked at only when the
  host reads.\<close>

theorem otp_unread_request_stays_open:
  assumes "length challenge = 64" "slot = OTP_SLOT_CHAL_HMAC1 \<or> slot = OTP_SLOT_CHAL_HMAC2"
    and "ot_state p = ST_IDLE"
  shows "\<exists>r. snd (otp_trace hmac (frame_events challenge slot @ [ClockAt t1, UserTouch, ClockAt t2, HostRead])
                (p, w)) = [r] \<and> starts_answer r"
proof -
  let ?w = "(hook_confirm_arm slot w)\<lparr>ow_now := t1,
       ow_gate := sec_confirm_authorize (ow_gate (hook_confirm_arm slot w)), ow_now := t2\<rparr>"
  let ?p = "p\<lparr>ot_frame := otp_frame challenge slot, ot_challenge := challenge, ot_slot := slot, ot_state := ST_WAIT\<rparr>"
  obtain w1 where c: "hook_confirm_state ?w = (w1, 1)" using touched_confirms [OF assms(2)] by blast
  obtain ok d where h: "hook_compute_hmac hmac w1 (ot_slot ?p) (ot_challenge ?p) (ot_resp ?p) = (ok, d)"
    by fastforce
  have "snd (otp_trace hmac (frame_events challenge slot @ [ClockAt t1, UserTouch, ClockAt t2, HostRead]) (p, w))
      = snd (otp_sys hmac HostRead (?p, ?w))"
    by (simp add: trace_append trace_frame [OF assms] Let_def split_beta)
  then show ?thesis
    using read_touched [OF _ c h] respond_seq_ok(2) [of "?p\<lparr>ot_resp := d, ot_resp_seq := 0, ot_state := ST_RESP\<rparr>"]
    by (simp add: split_beta)
qed

theorem otp_unread_request_stays_open_witness:
  "\<exists>r. snd (otp_trace fake_hmac (frame_events (replicate 64 1) 0x30 @
      [ClockAt 3600000, UserTouch, ClockAt 3600010, HostRead]) (otp_boot, otp_world_boot (sample_store [9]))) = [r]
     \<and> starts_answer r"
  by (rule otp_unread_request_stays_open) (simp_all add: otp_boot_def otp_consts)


text \<open>An empty slot answers, too. With no secret in the slot the HMAC hook reports failure, but the
  protocol does not look at its result: after a touch the host receives three valid answer reports
  whose data are twenty zero bytes, a digest that does not depend on the challenge.\<close>

theorem otp_empty_slot_answers_zero:
  assumes "length challenge = 64" "slot = OTP_SLOT_CHAL_HMAC1 \<or> slot = OTP_SLOT_CHAL_HMAC2"
    and "ot_state p = ST_IDLE" "otp_ok p"
    and "sec_store_get_secret (nat (otp_slot_to_store_idx slot)) (ow_store w) = None"
  shows "snd (otp_trace hmac (frame_events challenge slot @ [UserTouch, HostRead, HostRead, HostRead]) (p, w)) =
    [replicate 7 0 @ [0x40], replicate 7 0 @ [0x41], replicate 7 0 @ [0x42]]"
proof -
  let ?h = "s_real_hooks hmac"
  let ?p0 = "p\<lparr>ot_frame := otp_frame challenge slot, ot_challenge := challenge, ot_slot := slot, ot_state := ST_WAIT\<rparr>"
  let ?a = "hook_confirm_arm slot w"
  let ?w = "?a\<lparr>ow_gate := sec_confirm_authorize (ow_gate ?a)\<rparr>"
  have fold: "fold (otp_proto_on_write ?h) (otp_reports (otp_frame challenge slot)) (p, w) =
      (?p0, oh_confirm_arm ?h slot w)" by (rule frame_accepted [OF assms(1-3)])
  have w: "?a\<lparr>ow_now := ow_now ?a, ow_gate := sec_confirm_authorize (ow_gate ?a), ow_now := ow_now ?a\<rparr> = ?w"
    by simp
  obtain w1 where c: "oh_confirm_state ?h ?w = (w1, 1)" and "ow_store w1 = ow_store w"
    using touched_confirms [OF assms(2), where w = w and ?t1.0 = "ow_now ?a" and ?t2.0 = "ow_now ?a"] unfolding w
    by (simp add: s_real_hooks_def)
  then have h: "oh_hmac ?h w1 slot challenge (ot_resp p) = (False, replicate OTP_RESP_LEN 0)"
    using assms(3-5) by (simp add: s_real_hooks_def hook_compute_hmac_def otp_ok_def Let_def)
  obtain pw1 pw2 pw3 r0 r1 r2 where r: "otp_proto_on_read ?h (?p0, ?w) = (pw1, r0)"
    "otp_proto_on_read ?h pw1 = (pw2, r1)" "otp_proto_on_read ?h pw2 = (pw3, r2)" by (metis surj_pair)
  have "r0 = take 7 (replicate OTP_RESP_LEN 0) @ [0x40] \<and> r1 = take 7 (drop 7 (replicate OTP_RESP_LEN 0)) @ [0x41] \<and>
      r2 = drop 14 (replicate OTP_RESP_LEN 0) @ [0, 0x42]"
    by (rule exchange(1) [OF assms(1-3) fold c h _ r]) simp
  moreover have "replicate 7 (0 :: u8) = replicate 6 0 @ [0]" by (simp add: eval_nat_numeral)
  ultimately have "r0 = replicate 7 0 @ [0x40]" "r1 = replicate 7 0 @ [0x41]" "r2 = replicate 7 0 @ [0x42]"
    by (simp_all add: OTP_RESP_LEN_def)
  moreover have "otp_sys hmac HostRead pw = (let (pw', r) = otp_proto_on_read ?h pw in (pw', [r]))" for pw
    by (cases pw) (simp add: tud_hid_get_report_def)
  ultimately show ?thesis
    using r by (simp add: trace_append trace_frame [OF assms(1-3)] Let_def split_beta del: replicate.simps)
qed

theorem otp_empty_slot_answers_zero_witness:
  "snd (otp_trace fake_hmac (frame_events (replicate 64 1) 0x38 @ [UserTouch, HostRead, HostRead, HostRead])
      (otp_boot, otp_world_boot (sample_store [9]))) =
    [replicate 7 0 @ [0x40], replicate 7 0 @ [0x41], replicate 7 0 @ [0x42]]"
  by (rule otp_empty_slot_answers_zero)
     (simp_all add: otp_consts otp_boot_def [THEN arg_cong [of _ _ ot_state]] otp_world_boot_def sample_store_def
        sec_store_get_secret_def otp_slot_to_store_idx_def sec_slot_zero_def sec_sizes)


end
