(* ===== verification/Ccid.thy ===== *)
theory Ccid
  imports Sec_Confirm Openpgp_Auth
begin

unbundle bit_operations_syntax

text \<open>
  \<open>main/security/ccid.c\<close>: the smart-card reader of the dongle on USB. The first part is the wait for a
  press, a loop over the clock; the second the state of the driver, its message handlers and
  callbacks; the third the steps of the USB task, of the worker task and of the host as a relation. An endpoint
  carries one transfer at a time: \<open>in_flight\<close> is the transfer the host has yet to
  take, \<open>out_primed\<close> tells that the driver can receive.
\<close>

section \<open>Waiting for a press\<close>

definition CCID_CONFIRM_SLOT :: u8 where "CCID_CONFIRM_SLOT = 0xF0"
definition CCID_WTX_PERIOD_MS :: u32 where "CCID_WTX_PERIOD_MS = 1500"

text \<open>\<open>clk i\<close> is the \<open>i\<close>-th reading of the clock and \<open>touch i\<close> tells whether the key was pressed during the
  \<open>i\<close>-th delay. The result is the gate, the answer and the number of time-extension requests.\<close>

partial_function (option) confirm_loop ::
  "(nat \<Rightarrow> u32) \<Rightarrow> (nat \<Rightarrow> bool) \<Rightarrow> nat \<Rightarrow> u32 \<Rightarrow> u32 \<Rightarrow> nat \<Rightarrow> sec_confirm \<Rightarrow> (sec_confirm \<times> nat \<times> nat) option"
  where
  "confirm_loop clk touch i deadline last_wtx n g =
     (let g = (if touch i then sec_confirm_authorize g else g);
          now = clk (Suc i)
      in if 0 \<le> sint (now - deadline) then Some (sec_confirm_reset g, 2, n)
         else
           let (g', st, out) = sec_confirm_poll now g
           in if st = SEC_CONFIRM_AUTHORIZED
              then Some (g', if out = Some CCID_CONFIRM_SLOT then 1 else 2, n)
              else if st = SEC_CONFIRM_TIMEDOUT then Some (g', 2, n)
              else if now - last_wtx \<ge> CCID_WTX_PERIOD_MS
              then confirm_loop clk touch (Suc i) deadline now (Suc n) g'
              else confirm_loop clk touch (Suc i) deadline last_wtx n g')"

definition dongle_confirm ::
  "(nat \<Rightarrow> u32) \<Rightarrow> (nat \<Rightarrow> bool) \<Rightarrow> sec_confirm \<Rightarrow> (sec_confirm \<times> nat \<times> nat) option" where
  "dongle_confirm clk touch g =
     (let now = clk 0; deadline = now + SEC_CONFIRM_TIMEOUT_MS
      in confirm_loop clk touch 0 deadline now 0 (sec_confirm_arm CCID_CONFIRM_SLOT now g))"

text \<open>A clock that counts milliseconds, wraps at 32 bits, advances with every delay and is read at
  least every three weeks.\<close>

definition ticking :: "(nat \<Rightarrow> nat) \<Rightarrow> bool" where
  "ticking ms \<longleftrightarrow> (\<forall>i. ms i < ms (Suc i) \<and> ms (Suc i) < ms i + 2000000000)"

lemma u32_diff:
  assumes "a \<le> b" "b < a + 2 ^ 32"
  shows "unat (of_nat b - of_nat a :: u32) = b - a"
proof -
  have "(of_nat b - of_nat a :: u32) = of_nat (b - a)"
    using assms(1) by (simp add: of_nat_diff)
  moreover have "b - a < 2 ^ 32" using assms by simp
  ultimately show ?thesis by (simp add: unat_of_nat take_bit_nat_eq_self)
qed

lemma sint_small:
  fixes w :: u32
  assumes "unat w < 2 ^ 31"
  shows "0 \<le> sint w"
proof -
  have "uint w = int (unat w)" by simp
  moreover have "unat w < 2147483648" using assms by simp
  ultimately have "uint w < 2147483648" by linarith
  then have "uint w < 2 ^ 31" by simp
  moreover have "- (2 ^ 31) \<le> uint w" by (rule order_trans [of _ 0]) simp_all
  ultimately have "signed_take_bit 31 (uint w) = uint w"
    by (intro signed_take_bit_int_eq_self)
  then show ?thesis by (simp add: sint_uint)
qed

lemma sint_big:
  fixes w :: u32
  assumes "2 ^ 31 \<le> unat w"
  shows "sint w < 0"
proof (rule ccontr)
  assume "\<not> sint w < 0"
  then have nn: "0 \<le> sint w" by (rule leI)
  have lt: "sint w < 2 ^ 31" using sint_less [of w] by simp
  have "take_bit 32 (sint w) = sint w"
    by (rule take_bit_int_eq_self [OF nn]) (rule less_trans [OF lt], simp)
  then have "uint w < 2 ^ 31" using lt uint_sint [of w] by simp
  then have "uint w < 2147483648" by simp
  moreover have "uint w = int (unat w)" by simp
  moreover have "2147483648 \<le> unat w" using assms by simp
  ultimately show False by linarith
qed

text \<open>The comparison with the deadline, in the time since the start.\<close>

lemma past_deadline:
  assumes "m0 \<le> m" "m < m0 + 2 ^ 31"
  shows "0 \<le> sint ((of_nat m :: u32) - (of_nat m0 + SEC_CONFIRM_TIMEOUT_MS)) \<longleftrightarrow> m0 + 15000 \<le> m"
proof (cases "m0 + 15000 \<le> m")
  case True
  then have "unat (of_nat m - of_nat (m0 + 15000) :: u32) = m - (m0 + 15000)"
    using assms by (intro u32_diff) simp_all
  with True assms show ?thesis
    by (simp add: SEC_CONFIRM_TIMEOUT_MS_def sint_small)
next
  case False
  have "(of_nat m :: u32) - (of_nat m0 + SEC_CONFIRM_TIMEOUT_MS) = of_nat (m + 2 ^ 32) - of_nat (m0 + 15000)"
    by (simp add: SEC_CONFIRM_TIMEOUT_MS_def)
  moreover have "unat (of_nat (m + 2 ^ 32) - of_nat (m0 + 15000) :: u32) = m + 2 ^ 32 - (m0 + 15000)"
    using False assms by (intro u32_diff) simp_all
  ultimately have "unat ((of_nat m :: u32) - (of_nat m0 + SEC_CONFIRM_TIMEOUT_MS)) = m + 2 ^ 32 - (m0 + 15000)"
    by (rule ssubst)
  then have "sint ((of_nat m :: u32) - (of_nat m0 + SEC_CONFIRM_TIMEOUT_MS)) < 0"
    using assms by (intro sint_big) simp
  with False show ?thesis by simp
qed

lemma pending_poll:
  assumes "sc_state g = SEC_CONFIRM_PENDING" "sc_armed_ms g = of_nat m0" "m0 \<le> m" "m < m0 + 15000"
  shows "sec_confirm_poll (of_nat m) g = (g, SEC_CONFIRM_PENDING, None)"
proof -
  have "unat (of_nat m - of_nat m0 :: u32) < 15000" using u32_diff [of m0 m] assms by simp
  then have "\<not> SEC_CONFIRM_TIMEOUT_MS \<le> of_nat m - sc_armed_ms g"
    using assms(2) by (simp add: SEC_CONFIRM_TIMEOUT_MS_def word_le_nat_alt)
  then show ?thesis using assms(1) by (simp add: sec_confirm_poll_def)
qed

lemma touched_poll:
  assumes "sc_state g = SEC_CONFIRM_PENDING"
  shows "sec_confirm_poll now (sec_confirm_authorize g) =
    (g\<lparr>sc_state := SEC_CONFIRM_IDLE\<rparr>, SEC_CONFIRM_AUTHORIZED, Some (sc_slot g))"
  using assms by (simp add: sec_confirm_poll_def sec_confirm_authorize_def)

lemma ticking_mono: "ticking ms \<Longrightarrow> i \<le> j \<Longrightarrow> ms i \<le> ms j"
  by (rule lift_Suc_mono_le) (auto simp: ticking_def less_imp_le)

text \<open>From a turn at which nothing has happened yet.\<close>

lemma confirm_loop_returns:
  assumes "ticking ms" "sc_state g = SEC_CONFIRM_PENDING" "sc_slot g = CCID_CONFIRM_SLOT"
    and "sc_armed_ms g = of_nat (ms 0)" "ms i < ms 0 + 15000"
  shows "\<exists>g' r n'. confirm_loop (\<lambda>i. of_nat (ms i)) touch i (of_nat (ms 0) + SEC_CONFIRM_TIMEOUT_MS) lw n g
      = Some (g', r, n') \<and> sc_state g' = SEC_CONFIRM_IDLE \<and> r \<in> {1, 2} \<and>
      (r = 1 \<longleftrightarrow> (\<exists>k\<ge>i. touch k \<and> ms (Suc k) < ms 0 + 15000))"
  using assms(5)
proof (induction "ms 0 + 15000 - ms i" arbitrary: i lw n rule: less_induct)
  case less
  let ?loop = "confirm_loop (\<lambda>i. of_nat (ms i)) touch"
  let ?dl = "of_nat (ms 0) + SEC_CONFIRM_TIMEOUT_MS"
  have le: "ms 0 \<le> ms i" "ms 0 \<le> ms (Suc i)" using ticking_mono [OF assms(1)] by simp_all
  have step: "ms i < ms (Suc i)" "ms (Suc i) < ms i + 2000000000" using assms(1) by (auto simp: ticking_def)
  have dl: "0 \<le> sint ((of_nat (ms (Suc i)) :: u32) - ?dl) \<longleftrightarrow> ms 0 + 15000 \<le> ms (Suc i)"
    using le step less.prems by (intro past_deadline) simp_all
  show ?case
  proof (cases "ms 0 + 15000 \<le> ms (Suc i)")
    case True
    have "\<not> (\<exists>k\<ge>i. touch k \<and> ms (Suc k) < ms 0 + 15000)"
    proof
      assume "\<exists>k\<ge>i. touch k \<and> ms (Suc k) < ms 0 + 15000"
      then obtain k where "i \<le> k" "ms (Suc k) < ms 0 + 15000" by blast
      with ticking_mono [OF assms(1), of "Suc i" "Suc k"] True show False by simp
    qed
    with True dl show ?thesis
      by (subst confirm_loop.simps) (simp add: Let_def sec_confirm_reset_def)
  next
    case False
    show ?thesis
    proof (cases "touch i")
      case True
      then have "\<exists>k\<ge>i. touch k \<and> ms (Suc k) < ms 0 + 15000" using False by (intro exI [of _ i]) simp
      with True False dl show ?thesis
        by (subst confirm_loop.simps) (simp add: Let_def touched_poll [OF assms(2)] assms(3))
    next
      case untouched: False
      have poll: "sec_confirm_poll (of_nat (ms (Suc i))) g = (g, SEC_CONFIRM_PENDING, None)"
        using le False by (intro pending_poll [OF assms(2,4)]) simp_all
      have shift: "(\<exists>k\<ge>i. touch k \<and> ms (Suc k) < ms 0 + 15000) \<longleftrightarrow>
          (\<exists>k\<ge>Suc i. touch k \<and> ms (Suc k) < ms 0 + 15000)"
        using untouched by (metis Suc_leD Suc_leI le_neq_implies_less)
      have "\<exists>lw' n'. ?loop i ?dl lw n g = ?loop (Suc i) ?dl lw' n' g"
        using untouched False dl poll
        by (subst confirm_loop.simps) (auto simp: Let_def)
      then obtain lw' n' where "?loop i ?dl lw n g = ?loop (Suc i) ?dl lw' n' g" by blast
      moreover have "ms 0 + 15000 - ms (Suc i) < ms 0 + 15000 - ms i" "ms (Suc i) < ms 0 + 15000"
        using step less.prems False by simp_all
      ultimately show ?thesis using less.hyps [of "Suc i" lw' n'] shift by simp
    qed
  qed
qed

text \<open>C36: the wait for a press always ends, and says yes only to a press in time. Whatever the state the
  confirmation gate was left in, on a clock that ticks the loop returns, leaves the gate
  idle (no grant lingers for a later operation), and answers 1 exactly if the key was pressed during a
  delay that ended within 15 s of the start, 2 otherwise.\<close>

theorem dongle_confirm_returns:
  assumes "ticking ms"
  shows "\<exists>g' r n. dongle_confirm (\<lambda>i. of_nat (ms i)) touch g = Some (g', r, n) \<and>
           sc_state g' = SEC_CONFIRM_IDLE \<and> r \<in> {1, 2} \<and>
           (r = 1 \<longleftrightarrow> (\<exists>k. touch k \<and> ms (Suc k) < ms 0 + 15000))"
  using confirm_loop_returns [OF assms, of "sec_confirm_arm CCID_CONFIRM_SLOT (of_nat (ms 0)) g" 0 touch]
  by (simp add: dongle_confirm_def Let_def sec_confirm_arm_def)

theorem dongle_confirm_returns_witness:
  "\<exists>g' r n. dongle_confirm (\<lambda>i. of_nat (4294967290 + 20 * i)) (\<lambda>i. i = 3) sec_confirm_boot = Some (g', r, n) \<and>
     sc_state g' = SEC_CONFIRM_IDLE \<and> r = 1"
  using dongle_confirm_returns [of "\<lambda>i. 4294967290 + 20 * i" "\<lambda>i. i = 3" sec_confirm_boot]
  by (simp add: ticking_def)


section \<open>The driver\<close>

definition PC_TO_RDR_ICC_POWER_ON :: u8 where "PC_TO_RDR_ICC_POWER_ON = 0x62"
definition PC_TO_RDR_ICC_POWER_OFF :: u8 where "PC_TO_RDR_ICC_POWER_OFF = 0x63"
definition PC_TO_RDR_GET_SLOT_STATUS :: u8 where "PC_TO_RDR_GET_SLOT_STATUS = 0x65"
definition PC_TO_RDR_XFR_BLOCK :: u8 where "PC_TO_RDR_XFR_BLOCK = 0x6F"
definition RDR_TO_PC_DATA_BLOCK :: u8 where "RDR_TO_PC_DATA_BLOCK = 0x80"
definition RDR_TO_PC_SLOT_STATUS :: u8 where "RDR_TO_PC_SLOT_STATUS = 0x81"
definition CCID_HDR_LEN :: nat where "CCID_HDR_LEN = 10"
definition CCID_BUF_SZ :: nat where "CCID_BUF_SZ = 512"

lemmas ccid_consts = PC_TO_RDR_ICC_POWER_ON_def PC_TO_RDR_ICC_POWER_OFF_def PC_TO_RDR_GET_SLOT_STATUS_def
  PC_TO_RDR_XFR_BLOCK_def RDR_TO_PC_DATA_BLOCK_def RDR_TO_PC_SLOT_STATUS_def CCID_HDR_LEN_def CCID_BUF_SZ_def

definition s_atr :: bytes where
  "s_atr = [0x3B, 0xDA, 0x18, 0xFF, 0x81, 0xB1, 0xFE, 0x75, 0x1F, 0x03,
     0x00, 0x31, 0x84, 0x73, 0x80, 0x01, 0x80, 0x05, 0x90, 0x00, 0xC8]"

text \<open>A callback handed to the USB task, with the number of its retries.\<close>

datatype ccid_cb = SendWtx | SendFinal nat

record ccid =
  cd_ep_out :: u8
  cd_ep_in :: u8
  cd_out_buf :: bytes
  cd_in_buf :: bytes
  cd_msg_ready :: bool
  cd_busy :: bool
  cd_cur_slot :: u8
  cd_cur_seq :: u8
  cd_resp_len :: nat
  cd_final_queued :: bool
  cd_card :: card
  cd_running :: "bytes option"
  cd_deferred :: "ccid_cb list"
  cd_in_flight :: "bytes option"
  cd_out_primed :: bool
  cd_io :: nat

text \<open>\<open>ce_xfer n\<close> is whether the stack accepts the \<open>n\<close>-th transfer it could take.\<close>

record ccid_env =
  ce_xfer :: "nat \<Rightarrow> bool"
  ce_pgp :: pgp_env

definition edpt_xfer_in :: "ccid_env \<Rightarrow> bytes \<Rightarrow> ccid \<Rightarrow> ccid \<times> bool" where
  "edpt_xfer_in e data c =
     (let c1 = c\<lparr>cd_io := cd_io c + 1\<rparr>
      in if cd_in_flight c = None \<and> ce_xfer e (cd_io c) then (c1\<lparr>cd_in_flight := Some data\<rparr>, True)
         else (c1, False))"

definition edpt_xfer_out :: "ccid_env \<Rightarrow> ccid \<Rightarrow> ccid \<times> bool" where
  "edpt_xfer_out e c =
     (let c1 = c\<lparr>cd_io := cd_io c + 1\<rparr>
      in if \<not> cd_out_primed c \<and> ce_xfer e (cd_io c) then (c1\<lparr>cd_out_primed := True\<rparr>, True) else (c1, False))"

definition ccid_fill_header :: "u8 \<Rightarrow> u8 \<Rightarrow> u8 \<Rightarrow> nat \<Rightarrow> ccid \<Rightarrow> ccid \<times> nat" where
  "ccid_fill_header msg_type slot seq data_len c =
     (let w = of_nat data_len :: u16
      in (c\<lparr>cd_in_buf := mem_write 0 [msg_type, lo8 w, hi8 w, 0, 0, slot, seq, 0, 0, 0] (cd_in_buf c)\<rparr>,
          CCID_HDR_LEN + data_len))"

definition ccid_build_datablock :: "u8 \<Rightarrow> u8 \<Rightarrow> bytes \<Rightarrow> ccid \<Rightarrow> ccid \<times> nat" where
  "ccid_build_datablock slot seq data c =
     (let data = take (CCID_BUF_SZ - CCID_HDR_LEN) data
      in ccid_fill_header RDR_TO_PC_DATA_BLOCK slot seq (length data)
           (c\<lparr>cd_in_buf := mem_write CCID_HDR_LEN data (cd_in_buf c)\<rparr>))"

definition ccid_build_slotstatus :: "u8 \<Rightarrow> u8 \<Rightarrow> ccid \<Rightarrow> ccid \<times> nat" where
  "ccid_build_slotstatus slot seq c = ccid_fill_header RDR_TO_PC_SLOT_STATUS slot seq 0 c"

definition wtx_frame :: "ccid \<Rightarrow> bytes" where
  "wtx_frame c = [RDR_TO_PC_DATA_BLOCK, 0, 0, 0, 0, cd_cur_slot c, cd_cur_seq c, 0x80, 0x02, 0]"

definition ccid_send_wtx_cb :: "ccid_env \<Rightarrow> ccid \<Rightarrow> ccid" where
  "ccid_send_wtx_cb e c =
     (if cd_ep_in c = 0 then c
      else if cd_in_flight c \<noteq> None then c
      else fst (edpt_xfer_in e (wtx_frame c) c))"

definition ccid_send_final_cb :: "ccid_env \<Rightarrow> nat \<Rightarrow> ccid \<Rightarrow> ccid" where
  "ccid_send_final_cb e retries c =
     (if cd_ep_in c = 0 then c\<lparr>cd_final_queued := False, cd_busy := False\<rparr>
      else if cd_in_flight c \<noteq> None
      then (if retries < 200 then c\<lparr>cd_deferred := cd_deferred c @ [SendFinal (retries + 1)]\<rparr> else c)
      else fst (edpt_xfer_in e (take (cd_resp_len c) (cd_in_buf c)) (c\<lparr>cd_final_queued := True\<rparr>)))"

definition run_deferred :: "ccid_env \<Rightarrow> ccid \<Rightarrow> ccid" where
  "run_deferred e c = (case cd_deferred c of
     [] \<Rightarrow> c
   | SendWtx # cbs \<Rightarrow> ccid_send_wtx_cb e (c\<lparr>cd_deferred := cbs\<rparr>)
   | SendFinal n # cbs \<Rightarrow> ccid_send_final_cb e n (c\<lparr>cd_deferred := cbs\<rparr>))"

section \<open>The worker\<close>

definition xfr_length :: "bytes \<Rightarrow> nat" where
  "xfr_length buf = unat (ucast (buf ! 1) OR push_bit 8 (ucast (buf ! 2)) :: u32)"

text \<open>The worker wakes up on the semaphore and takes the request the dispatcher left in the buffer; the
  applet runs (it may wait for a press, during which time extensions are deferred) and the answer
  is handed over.\<close>

definition worker_take :: "ccid \<Rightarrow> ccid" where
  "worker_take c =
     c\<lparr>cd_msg_ready := False,
       cd_running := Some (take (xfr_length (cd_out_buf c)) (drop CCID_HDR_LEN (cd_out_buf c)))\<rparr>"

definition worker_wtx :: "ccid \<Rightarrow> ccid" where
  "worker_wtx c = c\<lparr>cd_deferred := cd_deferred c @ [SendWtx]\<rparr>"

definition ccid_process_xfrblock :: "ccid_env \<Rightarrow> bytes \<Rightarrow> ccid \<Rightarrow> ccid" where
  "ccid_process_xfrblock e apdu c =
     (let (card', resp) = openpgp_card_apdu (ce_pgp e) (CCID_BUF_SZ - CCID_HDR_LEN) apdu (cd_card c);
          c1 = c\<lparr>cd_card := card', cd_in_buf := mem_write CCID_HDR_LEN resp (cd_in_buf c)\<rparr>;
          (c2, n) = ccid_fill_header RDR_TO_PC_DATA_BLOCK (cd_cur_slot c1) (cd_cur_seq c1) (length resp) c1
      in c2\<lparr>cd_resp_len := n, cd_deferred := cd_deferred c2 @ [SendFinal 0]\<rparr>)"

definition worker_done :: "ccid_env \<Rightarrow> ccid \<Rightarrow> ccid" where
  "worker_done e c = (case cd_running c of
     None \<Rightarrow> c
   | Some apdu \<Rightarrow> (ccid_process_xfrblock e apdu c)\<lparr>cd_running := None\<rparr>)"

section \<open>Messages and callbacks\<close>

definition send_inline :: "ccid_env \<Rightarrow> ccid \<times> nat \<Rightarrow> ccid" where
  "send_inline e cn =
     (let (c, n) = cn in fst (edpt_xfer_in e (take n (cd_in_buf c)) (c\<lparr>cd_final_queued := True\<rparr>)))"

definition ccid_dispatch :: "ccid_env \<Rightarrow> nat \<Rightarrow> ccid \<Rightarrow> ccid" where
  "ccid_dispatch e xferred c =
     (if xferred < CCID_HDR_LEN then (if \<not> cd_busy c then fst (edpt_xfer_out e c) else c)
      else
        let buf = cd_out_buf c; msg_type = buf ! 0;
            dwLength = ucast (buf ! 1) OR push_bit 8 (ucast (buf ! 2)) OR push_bit 16 (ucast (buf ! 3))
                       OR push_bit 24 (ucast (buf ! 4)) :: u32;
            bSlot = buf ! 5; bSeq = buf ! 6;
            avail = xferred - CCID_HDR_LEN;
            len = (if unat dwLength > avail then avail else unat dwLength)
        in if msg_type = PC_TO_RDR_ICC_POWER_ON then send_inline e (ccid_build_datablock bSlot bSeq s_atr c)
           else if msg_type = PC_TO_RDR_ICC_POWER_OFF \<or> msg_type = PC_TO_RDR_GET_SLOT_STATUS
           then send_inline e (ccid_build_slotstatus bSlot bSeq c)
           else if msg_type = PC_TO_RDR_XFR_BLOCK
           then c\<lparr>cd_out_buf := mem_write 1 [lo8 (of_nat len), hi8 (of_nat len), 0, 0] buf,
                  cd_cur_slot := bSlot, cd_cur_seq := bSeq, cd_busy := True, cd_msg_ready := True\<rparr>
           else send_inline e (ccid_build_slotstatus bSlot bSeq c))"

definition ccid_drv_reset :: "ccid \<Rightarrow> ccid" where
  "ccid_drv_reset c = c\<lparr>cd_ep_out := 0, cd_ep_in := 0, cd_busy := False, cd_final_queued := False\<rparr>"

text \<open>\<open>eps\<close> are the endpoints the stack opens.\<close>

definition ccid_drv_open :: "ccid_env \<Rightarrow> u8 \<times> u8 \<Rightarrow> ccid \<Rightarrow> ccid" where
  "ccid_drv_open e eps c = fst (edpt_xfer_out e (c\<lparr>cd_ep_out := fst eps, cd_ep_in := snd eps\<rparr>))"

definition xfer_in_done :: "ccid_env \<Rightarrow> nat \<Rightarrow> ccid \<Rightarrow> ccid" where
  "xfer_in_done e xferred c =
     (if \<not> cd_final_queued c then c
      else if xferred > 0 \<and> xferred mod 64 = 0
      then (let (c1, ok) = edpt_xfer_in e [] c
            in if ok then c1
               else fst (edpt_xfer_out e (c1\<lparr>cd_final_queued := False, cd_busy := False\<rparr>)))
      else fst (edpt_xfer_out e (c\<lparr>cd_final_queued := False, cd_busy := False\<rparr>)))"

definition ccid_drv_xfer :: "ccid_env \<Rightarrow> u8 \<Rightarrow> nat \<Rightarrow> ccid \<Rightarrow> ccid \<times> bool" where
  "ccid_drv_xfer e ep_addr xferred c =
     (if ep_addr = cd_ep_out c then (ccid_dispatch e xferred c, True)
      else if ep_addr = cd_ep_in c then (xfer_in_done e xferred c, True)
      else (c, False))"

text \<open>What the bus does: a message arrives in the primed buffer, the host takes the transfer in flight, the
  bus is reset and enumerated again.\<close>

definition host_out :: "ccid_env \<Rightarrow> bytes \<Rightarrow> ccid \<Rightarrow> ccid" where
  "host_out e msg c =
     fst (ccid_drv_xfer e (cd_ep_out c) (length msg)
            (c\<lparr>cd_out_buf := mem_write 0 msg (cd_out_buf c), cd_out_primed := False\<rparr>))"

definition host_in :: "ccid_env \<Rightarrow> ccid \<Rightarrow> ccid" where
  "host_in e c = (case cd_in_flight c of
     None \<Rightarrow> c
   | Some data \<Rightarrow> fst (ccid_drv_xfer e (cd_ep_in c) (length data) (c\<lparr>cd_in_flight := None\<rparr>)))"

definition bus_reset :: "ccid \<Rightarrow> ccid" where
  "bus_reset c = ccid_drv_reset (c\<lparr>cd_in_flight := None, cd_out_primed := False\<rparr>)"

text \<open>Between two bus resets.\<close>

inductive ccid_step :: "ccid_env \<Rightarrow> ccid \<Rightarrow> ccid \<Rightarrow> bool" for e where
  step_out: "cd_out_primed c \<Longrightarrow> length msg \<le> CCID_BUF_SZ \<Longrightarrow> ccid_step e c (host_out e msg c)"
| step_in: "cd_in_flight c \<noteq> None \<Longrightarrow> ccid_step e c (host_in e c)"
| step_take: "cd_msg_ready c \<Longrightarrow> cd_running c = None \<Longrightarrow> ccid_step e c (worker_take c)"
| step_wtx: "cd_running c \<noteq> None \<Longrightarrow> ccid_step e c (worker_wtx c)"
| step_done: "cd_running c \<noteq> None \<Longrightarrow> ccid_step e c (worker_done e c)"
| step_deferred: "cd_deferred c \<noteq> [] \<Longrightarrow> ccid_step e c (run_deferred e c)"

inductive_cases ccid_stepE: "ccid_step e c c'"



section \<open>Every response is a status word after data that fits\<close>

definition is_response :: "nat \<Rightarrow> bytes \<Rightarrow> bool" where
  "is_response mx r \<longleftrightarrow> (\<exists>d sw. r = respond mx d sw)"

lemma is_response_intros [simp]:
  "is_response mx (respond mx d sw)" "is_response mx (sw_only mx sw)" "is_response mx (retry_sw mx r)"
  "is_response mx (append_or_fail mx body)"
  by (auto simp: is_response_def sw_only_def retry_sw_def append_or_fail_def split: option.splits)

lemma response_length: "2 \<le> mx \<Longrightarrow> is_response mx r \<Longrightarrow> 2 \<le> length r \<and> length r \<le> mx"
  by (auto simp: is_response_def respond_def)

lemmas response_splits = if_splits option.splits prod.splits

lemma pubkey_response: "is_response mx (snd (build_pubkey_response e s mx c))"
  by (auto simp: build_pubkey_response_def Let_def split: response_splits)

lemma get_data_response: "is_response mx (snd (card_get_data mx a c))"
  by (auto simp: card_get_data_def get_data_6e_def get_data_65_def get_data_7a_def Let_def split: response_splits)

lemma put_response: "is_response mx (snd (put_sw mx cr))" "is_response mx (snd (put_slice e mx t l i a c))"
    "is_response mx (snd (put_pw_status e mx a c))"
proof -
  show sw: "is_response mx (snd (put_sw mx cr))" for cr
    by (cases cr) (simp add: put_sw_def split: response_splits)
  show "is_response mx (snd (put_slice e mx t l i a c))" "is_response mx (snd (put_pw_status e mx a c))"
    by (auto simp: put_slice_def put_pw_status_def sw Let_def split: response_splits)
qed

lemma put_data_response: "is_response mx (snd (card_put_data e mx a c))"
  by (auto simp: card_put_data_def put_response Let_def)

lemma import_response: "is_response mx (snd (card_import e mx a c))"
  by (auto simp: card_import_def Let_def split: response_splits)

lemma pso_response: "is_response mx (snd (card_pso e mx a c))"
  by (auto simp: card_pso_def card_sign_def card_decipher_def Let_def split: response_splits)

lemma int_auth_response: "is_response mx (snd (card_int_auth e mx a c))"
  by (auto simp: card_int_auth_def Let_def split: response_splits)

lemma read_pubkey_response: "is_response mx (snd (card_read_pubkey e mx a c))"
  by (auto simp: card_read_pubkey_def pubkey_response Let_def split: response_splits)

lemma generate_response: "is_response mx (snd (card_generate e mx a c))"
  by (auto simp: card_generate_def pubkey_response Let_def split: response_splits)

lemma pin_response: "is_response mx (snd (card_verify e mx a c))" "is_response mx (snd (card_change_ref e mx a c))"
  by (auto simp: card_verify_def card_change_ref_def Let_def split: response_splits)

lemma other_response: "is_response mx (snd (card_select mx a c))" "is_response mx (snd (card_terminate e mx c))"
  by (auto simp: card_select_def card_terminate_def split: response_splits)

lemma apdu_response: "is_response mx (snd (openpgp_card_apdu e mx inp c))"
  by (simp add: openpgp_card_apdu_def other_response pin_response get_data_response put_data_response
      import_response pso_response int_auth_response read_pubkey_response generate_response
      split: option.splits)



section \<open>The phases of an exchange\<close>

definition ph_idle :: "ccid \<Rightarrow> bool" where
  "ph_idle c \<longleftrightarrow> cd_out_primed c \<and> \<not> cd_busy c \<and> \<not> cd_final_queued c \<and> \<not> cd_msg_ready c \<and>
     cd_running c = None \<and> cd_deferred c = [] \<and> cd_in_flight c = None"

definition ph_sent :: "ccid \<Rightarrow> bool" where
  "ph_sent c \<longleftrightarrow> \<not> cd_out_primed c \<and> cd_final_queued c \<and> \<not> cd_msg_ready c \<and> cd_running c = None \<and>
     cd_deferred c = [] \<and> cd_in_flight c \<noteq> None"

definition ph_queued :: "ccid \<Rightarrow> bool" where
  "ph_queued c \<longleftrightarrow> \<not> cd_out_primed c \<and> cd_busy c \<and> \<not> cd_final_queued c \<and> cd_msg_ready c \<and>
     cd_running c = None \<and> cd_deferred c = [] \<and> cd_in_flight c = None"

definition ph_working :: "ccid \<Rightarrow> bool" where
  "ph_working c \<longleftrightarrow> \<not> cd_out_primed c \<and> cd_busy c \<and> \<not> cd_final_queued c \<and> \<not> cd_msg_ready c \<and>
     cd_running c \<noteq> None \<and> set (cd_deferred c) \<subseteq> {SendWtx}"

definition ph_answer :: "ccid \<Rightarrow> bool" where
  "ph_answer c \<longleftrightarrow> \<not> cd_out_primed c \<and> cd_busy c \<and> \<not> cd_final_queued c \<and> \<not> cd_msg_ready c \<and>
     cd_running c = None \<and> (\<exists>w n. cd_deferred c = w @ [SendFinal n] \<and> set w \<subseteq> {SendWtx})"

definition ph_abandoned :: "ccid \<Rightarrow> bool" where
  "ph_abandoned c \<longleftrightarrow> \<not> cd_out_primed c \<and> cd_busy c \<and> \<not> cd_final_queued c \<and> \<not> cd_msg_ready c \<and>
     cd_running c = None \<and> cd_deferred c = []"

lemmas phase_defs = ph_idle_def ph_sent_def ph_queued_def ph_working_def ph_answer_def ph_abandoned_def

definition ccid_shape :: "ccid \<Rightarrow> bool" where
  "ccid_shape c \<longleftrightarrow> length (cd_out_buf c) = CCID_BUF_SZ \<and> length (cd_in_buf c) = CCID_BUF_SZ \<and>
     cd_ep_in c \<noteq> 0 \<and> cd_ep_in c \<noteq> cd_ep_out c"

definition ccid_inv :: "ccid \<Rightarrow> bool" where
  "ccid_inv c \<longleftrightarrow> ccid_shape c \<and>
     (ph_idle c \<or> ph_sent c \<or> ph_queued c \<or> ph_working c \<or> ph_answer c \<or> ph_abandoned c)"

definition xfer_ok :: "ccid_env \<Rightarrow> bool" where
  "xfer_ok e \<longleftrightarrow> ce_xfer e = (\<lambda>_. True)"

lemma edpt_in_ok: "xfer_ok e \<Longrightarrow> cd_in_flight c = None \<Longrightarrow>
    edpt_xfer_in e data c = (c\<lparr>cd_io := cd_io c + 1, cd_in_flight := Some data\<rparr>, True)"
  by (simp add: edpt_xfer_in_def xfer_ok_def)

lemma edpt_out_ok: "xfer_ok e \<Longrightarrow> \<not> cd_out_primed c \<Longrightarrow>
    edpt_xfer_out e c = (c\<lparr>cd_io := cd_io c + 1, cd_out_primed := True\<rparr>, True)"
  by (simp add: edpt_xfer_out_def xfer_ok_def)

lemma send_inline_inv:
  assumes "xfer_ok e" "ccid_shape c" "\<not> cd_out_primed c" "\<not> cd_msg_ready c" "cd_running c = None"
    "cd_deferred c = []" "cd_in_flight c = None"
  shows "ccid_inv (send_inline e (c, n))"
  using assms by (simp add: send_inline_def edpt_in_ok ccid_inv_def ph_sent_def ccid_shape_def)

lemma fill_header_shape:
  "ccid_shape c \<Longrightarrow> ccid_shape (fst (ccid_fill_header m s q n c))"
  by (simp add: ccid_fill_header_def ccid_shape_def ccid_consts Let_def)

lemma fill_header_frame [simp]:
  "cd_out_primed (fst (ccid_fill_header m s q n c)) = cd_out_primed c"
  "cd_msg_ready (fst (ccid_fill_header m s q n c)) = cd_msg_ready c"
  "cd_running (fst (ccid_fill_header m s q n c)) = cd_running c"
  "cd_deferred (fst (ccid_fill_header m s q n c)) = cd_deferred c"
  "cd_in_flight (fst (ccid_fill_header m s q n c)) = cd_in_flight c"
  "cd_busy (fst (ccid_fill_header m s q n c)) = cd_busy c"
  "cd_final_queued (fst (ccid_fill_header m s q n c)) = cd_final_queued c"
  "cd_cur_slot (fst (ccid_fill_header m s q n c)) = cd_cur_slot c"
  "cd_cur_seq (fst (ccid_fill_header m s q n c)) = cd_cur_seq c"
  "cd_card (fst (ccid_fill_header m s q n c)) = cd_card c"
  "cd_ep_in (fst (ccid_fill_header m s q n c)) = cd_ep_in c"
  "cd_ep_out (fst (ccid_fill_header m s q n c)) = cd_ep_out c"
  "cd_out_buf (fst (ccid_fill_header m s q n c)) = cd_out_buf c"
  by (simp_all add: ccid_fill_header_def Let_def)

lemma send_header_inv:
  assumes "xfer_ok e" "ccid_shape c" "\<not> cd_out_primed c" "\<not> cd_msg_ready c" "cd_running c = None"
    "cd_deferred c = []" "cd_in_flight c = None"
  shows "ccid_inv (send_inline e (ccid_fill_header m s q n c))"
proof -
  obtain c' k where h: "ccid_fill_header m s q n c = (c', k)" by fastforce
  then have c': "c' = fst (ccid_fill_header m s q n c)" by simp
  show ?thesis
    unfolding h using assms fill_header_shape [OF assms(2)] by (intro send_inline_inv) (simp_all add: c')
qed

lemma out_inv:
  assumes "xfer_ok e" "ccid_inv c" "cd_out_primed c" "length msg \<le> CCID_BUF_SZ"
  shows "ccid_inv (host_out e msg c)"
proof -
  have idle: "ph_idle c" and sh: "ccid_shape c"
    using assms(2,3) by (auto simp: ccid_inv_def phase_defs)
  let ?c = "c\<lparr>cd_out_buf := mem_write 0 msg (cd_out_buf c), cd_out_primed := False\<rparr>"
  let ?d = "?c\<lparr>cd_in_buf := mem_write CCID_HDR_LEN s_atr (cd_in_buf c)\<rparr>"
  have sh1: "ccid_shape ?c" "ccid_shape ?d"
    using sh assms(4) by (simp_all add: ccid_shape_def ccid_consts s_atr_def)
  have st: "ccid_inv (send_inline e (ccid_build_slotstatus s q ?c))" for s q
    using idle sh1(1) unfolding ccid_build_slotstatus_def ph_idle_def
    by (intro send_header_inv [OF assms(1)]) simp_all
  have "ccid_build_datablock s q s_atr ?c = ccid_fill_header RDR_TO_PC_DATA_BLOCK s q (length s_atr) ?d" for s q
    by (simp add: ccid_build_datablock_def ccid_consts s_atr_def)
  then have db: "ccid_inv (send_inline e (ccid_build_datablock s q s_atr ?c))" for s q
    using idle sh1(2) unfolding ph_idle_def
    by (simp only:) (intro send_header_inv [OF assms(1)], simp_all)
  have q: "ccid_inv (?c\<lparr>cd_out_buf := mem_write 1 [a, b, 0, 0] (mem_write 0 msg (cd_out_buf c)),
      cd_cur_slot := s, cd_cur_seq := sq, cd_busy := True, cd_msg_ready := True\<rparr>)" for a b s sq
    using idle sh1 by (simp add: ccid_inv_def phase_defs ccid_shape_def ccid_consts)
  have runt: "ccid_inv (fst (edpt_xfer_out e ?c))"
    using idle sh1 by (simp add: edpt_out_ok [OF assms(1)] ccid_inv_def ph_idle_def ccid_shape_def)
  have "host_out e msg c = ccid_dispatch e (length msg) ?c"
    by (simp add: host_out_def ccid_drv_xfer_def)
  then show ?thesis
    using st db q runt idle by (simp add: ccid_dispatch_def Let_def ph_idle_def)
qed

lemma in_inv:
  assumes "xfer_ok e" "ccid_inv c" "cd_in_flight c = Some data"
  shows "ccid_inv (host_in e c)"
proof -
  let ?c = "c\<lparr>cd_in_flight := None\<rparr>"
  have sh: "ccid_shape c" using assms(2) by (simp add: ccid_inv_def)
  have h: "host_in e c = xfer_in_done e (length data) ?c"
    using assms(3) sh by (simp add: host_in_def ccid_drv_xfer_def ccid_shape_def)
  show ?thesis
  proof (cases "cd_final_queued c")
    case True
    then have "ph_sent c" using assms(2) by (auto simp: ccid_inv_def phase_defs)
    then show ?thesis
      using sh unfolding h xfer_in_done_def
      by (simp add: edpt_in_ok [OF assms(1)] edpt_out_ok [OF assms(1)] ph_sent_def ph_idle_def ccid_inv_def ccid_shape_def)
  next
    case False
    then have "host_in e c = ?c" by (simp add: h xfer_in_done_def)
    then show ?thesis
      using assms(2,3) False sh
      by (simp add: ccid_inv_def) (auto simp: phase_defs ccid_shape_def)
  qed
qed

lemma worker_inv:
  assumes "ccid_inv c"
  shows "cd_msg_ready c \<Longrightarrow> cd_running c = None \<Longrightarrow> ccid_inv (worker_take c)"
    and "cd_running c \<noteq> None \<Longrightarrow> ccid_inv (worker_wtx c)"
    and "cd_running c \<noteq> None \<Longrightarrow> ccid_inv (worker_done e c)"
proof -
  show "cd_msg_ready c \<Longrightarrow> cd_running c = None \<Longrightarrow> ccid_inv (worker_take c)"
    using assms by (auto simp: ccid_inv_def ccid_shape_def phase_defs worker_take_def)
  assume "cd_running c \<noteq> None"
  then have w: "ph_working c" and sh: "ccid_shape c" using assms by (auto simp: ccid_inv_def phase_defs)
  then show "ccid_inv (worker_wtx c)"
    by (auto simp: ccid_inv_def ccid_shape_def ph_working_def worker_wtx_def)
  obtain apdu where r: "cd_running c = Some apdu" using w by (auto simp: ph_working_def)
  obtain card' resp where ap: "openpgp_card_apdu (ce_pgp e) (CCID_BUF_SZ - CCID_HDR_LEN) apdu (cd_card c) = (card', resp)"
    by fastforce
  have "length resp \<le> CCID_BUF_SZ - CCID_HDR_LEN"
    using response_length [OF _ apdu_response [of "CCID_BUF_SZ - CCID_HDR_LEN" "ce_pgp e" apdu "cd_card c"]] ap
    by (simp add: ccid_consts)
  then have "ccid_shape (c\<lparr>cd_card := card', cd_in_buf := mem_write CCID_HDR_LEN resp (cd_in_buf c)\<rparr>)"
    using sh by (simp add: ccid_shape_def ccid_consts)
  note sh2 = fill_header_shape [OF this]
  show "ccid_inv (worker_done e c)"
    using w sh2 unfolding ph_working_def
    by (auto simp: worker_done_def r ccid_process_xfrblock_def ap Let_def split_beta ccid_inv_def ccid_shape_def
        ph_answer_def)
qed

lemma deferred_inv:
  assumes "xfer_ok e" "ccid_inv c" "cd_deferred c \<noteq> []"
  shows "ccid_inv (run_deferred e c)"
proof -
  have sh: "ccid_shape c" using assms(2) by (simp add: ccid_inv_def)
  have wtx: "ccid_send_wtx_cb e d = (if cd_in_flight d = None
      then d\<lparr>cd_io := cd_io d + 1, cd_in_flight := Some (wtx_frame d)\<rparr> else d)" if "ccid_shape d" for d
    using that by (simp add: ccid_send_wtx_cb_def edpt_in_ok [OF assms(1)] ccid_shape_def)
  consider "ph_working c" | "ph_answer c" using assms(2,3) by (auto simp: ccid_inv_def phase_defs)
  then show ?thesis
  proof cases
    case 1
    then obtain cbs where "cd_deferred c = SendWtx # cbs" "set cbs \<subseteq> {SendWtx}"
      using assms(3) by (cases "cd_deferred c") (auto simp: ph_working_def)
    with 1 sh wtx [of "c\<lparr>cd_deferred := cbs\<rparr>"] show ?thesis
      by (simp add: run_deferred_def ccid_inv_def ccid_shape_def ph_working_def)
  next
    case 2
    then obtain w n where d: "cd_deferred c = w @ [SendFinal n]" and w: "set w \<subseteq> {SendWtx}"
      by (auto simp: ph_answer_def)
    show ?thesis
    proof (cases w)
      case Nil
      with 2 sh d show ?thesis
        by (auto simp: run_deferred_def ccid_send_final_cb_def edpt_in_ok [OF assms(1)] ccid_inv_def ccid_shape_def
            ph_answer_def ph_sent_def ph_abandoned_def)
    next
      case (Cons x w')
      then have x: "x = SendWtx" "set w' \<subseteq> {SendWtx}" using w by auto
      with 2 sh d Cons wtx [of "c\<lparr>cd_deferred := w' @ [SendFinal n]\<rparr>"] show ?thesis
        by (simp add: run_deferred_def ccid_inv_def ccid_shape_def ph_answer_def)
    qed
  qed
qed

lemma step_inv: "xfer_ok e \<Longrightarrow> ccid_inv c \<Longrightarrow> ccid_step e c c' \<Longrightarrow> ccid_inv c'"
  by (auto elim!: ccid_stepE simp: out_inv in_inv worker_inv deferred_inv)

lemma steps_inv:
  assumes "(ccid_step e)\<^sup>*\<^sup>* c c'" "xfer_ok e" "ccid_inv c"
  shows "ccid_inv c'"
  using assms(1,3) by (induction rule: rtranclp_induct) (auto simp: step_inv [OF assms(2)])


text \<open>C13: one message at a time. Between two bus resets, when the stack accepts the transfers it has
  room for, the driver is ready to receive only when nothing of an earlier message is left: no
  request waits or runs in the worker, no callback is scheduled and no response is in flight, so a
  new message never overwrites a request in progress; and it is always either ready to receive or has
  something to do next, unless the final answer was abandoned.\<close>

theorem ccid_one_at_a_time:
  assumes "xfer_ok e" "ccid_shape c0" "ph_idle c0" "(ccid_step e)\<^sup>*\<^sup>* c0 c"
  shows "(cd_out_primed c \<longrightarrow> cd_running c = None \<and> \<not> cd_msg_ready c \<and> cd_deferred c = [] \<and> cd_in_flight c = None) \<and>
         (cd_out_primed c \<or> (\<exists>c'. ccid_step e c c') \<or> ph_abandoned c)"
proof -
  have inv: "ccid_inv c" using steps_inv [OF assms(4,1)] assms(2,3) by (simp add: ccid_inv_def)
  have "\<exists>c'. ccid_step e c c'" if "ph_sent c \<or> ph_queued c \<or> ph_working c \<or> ph_answer c"
  proof -
    have "cd_in_flight c \<noteq> None \<or> cd_msg_ready c \<and> cd_running c = None \<or> cd_running c \<noteq> None \<or> cd_deferred c \<noteq> []"
      using that by (auto simp: phase_defs)
    then show ?thesis by (blast intro: ccid_step.intros)
  qed
  then show ?thesis using inv by (auto simp: ccid_inv_def phase_defs)
qed

definition ccid_ready :: "card \<Rightarrow> ccid" where
  "ccid_ready k = \<lparr>cd_ep_out = 4, cd_ep_in = 0x84, cd_out_buf = replicate CCID_BUF_SZ 0,
     cd_in_buf = replicate CCID_BUF_SZ 0, cd_msg_ready = False, cd_busy = False, cd_cur_slot = 0, cd_cur_seq = 0,
     cd_resp_len = 0, cd_final_queued = False, cd_card = k, cd_running = None, cd_deferred = [],
     cd_in_flight = None, cd_out_primed = True, cd_io = 0\<rparr>"

lemma ccid_ready_ok: "ccid_shape (ccid_ready k)" "ph_idle (ccid_ready k)"
  by (simp_all add: ccid_shape_def ph_idle_def ccid_ready_def)

lemma xfer_ok_const: "xfer_ok \<lparr>ce_xfer = \<lambda>_. True, ce_pgp = p\<rparr>"
  by (simp add: xfer_ok_def)

theorem ccid_one_at_a_time_witness:
  "\<forall>p k. let e = \<lparr>ce_xfer = \<lambda>_. True, ce_pgp = p\<rparr>; c = host_out e [0x6F, 5, 0, 0, 0, 0, 1, 0, 0, 0, 0, 0xA4, 4, 0, 0] (ccid_ready k)
     in cd_out_primed c \<or> (\<exists>c'. ccid_step e c c') \<or> ph_abandoned c"
proof (intro allI)
  fix p k
  let ?e = "\<lparr>ce_xfer = \<lambda>_. True, ce_pgp = p\<rparr>"
  have "ccid_step ?e (ccid_ready k) (host_out ?e [0x6F, 5, 0, 0, 0, 0, 1, 0, 0, 0, 0, 0xA4, 4, 0, 0] (ccid_ready k))"
    by (rule step_out) (simp_all add: ccid_ready_def ccid_consts)
  from ccid_one_at_a_time [OF xfer_ok_const ccid_ready_ok, THEN conjunct2, OF r_into_rtranclp, of p k, OF this]
  show "let e = ?e; c = host_out e [0x6F, 5, 0, 0, 0, 0, 1, 0, 0, 0, 0, 0xA4, 4, 0, 0] (ccid_ready k)
     in cd_out_primed c \<or> (\<exists>c'. ccid_step e c c') \<or> ph_abandoned c" by (simp only: Let_def)
qed



section \<open>One exchange\<close>

definition msg_length :: "bytes \<Rightarrow> nat" where
  "msg_length msg = unat (ucast (msg ! 1) OR push_bit 8 (ucast (msg ! 2)) OR push_bit 16 (ucast (msg ! 3))
     OR push_bit 24 (ucast (msg ! 4)) :: u32)"

text \<open>The response to an APDU as the reader frames it.\<close>

definition datablock :: "u8 \<Rightarrow> u8 \<Rightarrow> bytes \<Rightarrow> bytes" where
  "datablock slot seq resp =
     [RDR_TO_PC_DATA_BLOCK, lo8 (of_nat (length resp)), hi8 (of_nat (length resp)), 0, 0, slot, seq, 0, 0, 0] @ resp"

lemma le16_u32: "(ucast (lo8 w) OR push_bit 8 (ucast (hi8 w)) :: u32) = ucast w"
proof (rule bit_word_eqI)
  fix n assume "n < LENGTH(32)"
  then show "bit (ucast (lo8 w) OR push_bit 8 (ucast (hi8 w)) :: u32) n = bit (ucast w :: u32) n"
    using bit_imp_le_length [of w n]
    by (cases "n < 8"; cases "n < 16") (auto simp: lo8_def hi8_def bit_simps)
qed

lemma drop_mem_write:
  assumes "off \<le> length buf" "off + length src \<le> k"
  shows "drop k (mem_write off src buf) = drop k buf"
  using assms by (simp add: mem_write_def)

lemma take_mem_write_front: "take (length a + length b) (mem_write 0 a (mem_write (length a) b buf)) = a @ b"
  if "length a \<le> length buf"
  using that by (simp add: mem_write_def)

lemma xfr_length_back:
  assumes "n < 65536" "buf ! 1 = lo8 (of_nat n)" "buf ! 2 = hi8 (of_nat n)"
  shows "xfr_length buf = n"
  using assms by (simp add: xfr_length_def le16_u32 unsigned_ucast_eq unat_of_nat take_bit_nat_eq_self)

lemma dispatch_xfr:
  assumes "10 \<le> length msg" "length msg \<le> CCID_BUF_SZ" "length (cd_out_buf c) = CCID_BUF_SZ"
    and "msg ! 0 = PC_TO_RDR_XFR_BLOCK"
  shows "worker_take (host_out e msg c) =
    (host_out e msg c)\<lparr>cd_msg_ready := False, cd_running := Some (take (msg_length msg) (drop 10 msg))\<rparr>"
    and "\<exists>buf. length buf = CCID_BUF_SZ \<and> host_out e msg c =
       c\<lparr>cd_out_buf := buf, cd_out_primed := False, cd_cur_slot := msg ! 5, cd_cur_seq := msg ! 6, cd_busy := True,
         cd_msg_ready := True\<rparr>"
proof -
  let ?b = "mem_write 0 msg (cd_out_buf c)"
  let ?len = "if msg_length msg > length msg - 10 then length msg - 10 else msg_length msg"
  let ?buf = "mem_write 1 [lo8 (of_nat ?len), hi8 (of_nat ?len), 0, 0] ?b"
  have lb: "length ?b = CCID_BUF_SZ" using assms(2,3) by simp
  have nth: "?b ! i = msg ! i" if "i < 10" for i
    using that assms(1,2,3) by (simp add: nth_mem_write)
  have host: "host_out e msg c = c\<lparr>cd_out_buf := ?buf, cd_out_primed := False, cd_cur_slot := msg ! 5,
      cd_cur_seq := msg ! 6, cd_busy := True, cd_msg_ready := True\<rparr>"
    using assms(1,4) nth by (simp add: host_out_def ccid_drv_xfer_def ccid_dispatch_def ccid_consts msg_length_def
        Let_def not_less)
  then show "\<exists>buf. length buf = CCID_BUF_SZ \<and> host_out e msg c =
       c\<lparr>cd_out_buf := buf, cd_out_primed := False, cd_cur_slot := msg ! 5, cd_cur_seq := msg ! 6, cd_busy := True,
         cd_msg_ready := True\<rparr>"
    using lb by (intro exI [of _ ?buf]) (simp add: ccid_consts)
  have len: "?len \<le> length msg - 10" by simp
  have "xfr_length ?buf = ?len"
    using len assms(2) lb by (intro xfr_length_back) (simp_all add: nth_mem_write ccid_consts)
  moreover have "drop 10 ?buf = drop 10 ?b"
    using lb by (intro drop_mem_write) (simp_all add: ccid_consts)
  moreover have "take ?len (drop 10 ?b) = take (msg_length msg) (drop 10 msg)"
    using assms(1) len by (auto simp: mem_write_def)
  ultimately show "worker_take (host_out e msg c) =
    (host_out e msg c)\<lparr>cd_msg_ready := False, cd_running := Some (take (msg_length msg) (drop 10 msg))\<rparr>"
    by (simp add: host worker_take_def CCID_HDR_LEN_def)
qed

lemma process_block:
  assumes "openpgp_card_apdu (ce_pgp e) 502 apdu (cd_card c) = (card', resp)" "length (cd_in_buf c) = CCID_BUF_SZ"
  shows "\<exists>inb. ccid_process_xfrblock e apdu c = c\<lparr>cd_card := card', cd_in_buf := inb, cd_resp_len := 10 + length resp,
      cd_deferred := cd_deferred c @ [SendFinal 0]\<rparr> \<and> length inb = CCID_BUF_SZ \<and>
      take (10 + length resp) inb = datablock (cd_cur_slot c) (cd_cur_seq c) resp"
proof -
  have l: "length resp \<le> 502"
    using response_length [OF _ apdu_response [of 502 "ce_pgp e" apdu "cd_card c"]] assms(1) by simp
  let ?h = "[RDR_TO_PC_DATA_BLOCK, lo8 (of_nat (length resp)), hi8 (of_nat (length resp)), 0, 0, cd_cur_slot c, cd_cur_seq c, 0, 0, 0]"
  let ?inb = "mem_write 0 ?h (mem_write 10 resp (cd_in_buf c))"
  have "length ?inb = CCID_BUF_SZ" using l assms(2) by (simp add: ccid_consts)
  moreover have "take (10 + length resp) ?inb = ?h @ resp"
  proof -
    have ten: "length ?h = 10" by simp
    show ?thesis
      using take_mem_write_front [of ?h "cd_in_buf c" resp, unfolded ten] assms(2)
      by (simp only: ccid_consts)
  qed
  ultimately show ?thesis
    using assms(1) by (intro exI [of _ ?inb])
      (simp add: ccid_process_xfrblock_def ccid_fill_header_def ccid_consts Let_def datablock_def)
qed

text \<open>The whole answer has left once the host has taken it, and the empty packet after it where the
  length is a multiple of 64.\<close>

lemma final_taken:
  assumes "xfer_ok e" "ccid_shape c" "ph_sent c" "cd_in_flight c = Some data" "data \<noteq> []"
  shows "ph_idle (if length data mod 64 = 0 then host_in e (host_in e c) else host_in e c)"
  using assms
  by (simp add: host_in_def ccid_drv_xfer_def ccid_shape_def xfer_in_done_def edpt_in_ok edpt_out_ok ph_sent_def ph_idle_def)

text \<open>C14: an exchange. From the idle driver, a message that carries an APDU leads, through the worker and the
  callback, to a response in flight that is framed with the slot and sequence number of the message and
  holds exactly what the applet answers to the bytes that really arrived (the declared length is cut to
  them, so nothing of an older message is read); once the host has taken it the driver is idle again.\<close>

theorem ccid_exchange:
  assumes "xfer_ok e" "ccid_shape c" "ph_idle c"
    and "10 \<le> length msg" "length msg \<le> 512" "msg ! 0 = PC_TO_RDR_XFR_BLOCK"
    and "openpgp_card_apdu (ce_pgp e) 502 (take (msg_length msg) (drop 10 msg)) (cd_card c) = (card', resp)"
    and "run_deferred e (worker_done e (worker_take (host_out e msg c))) = c'"
  shows "cd_in_flight c' = Some (datablock (msg ! 5) (msg ! 6) resp) \<and> cd_card c' = card' \<and>
         ph_idle (if (10 + length resp) mod 64 = 0 then host_in e (host_in e c') else host_in e c')"
proof -
  have sz: "length msg \<le> CCID_BUF_SZ" "length (cd_out_buf c) = CCID_BUF_SZ" "length (cd_in_buf c) = CCID_BUF_SZ"
    using assms(2,5) by (simp_all add: ccid_shape_def CCID_BUF_SZ_def)
  let ?apdu = "take (msg_length msg) (drop 10 msg)"
  obtain buf where buf: "length buf = CCID_BUF_SZ" and host: "host_out e msg c = c\<lparr>cd_out_buf := buf,
      cd_out_primed := False, cd_cur_slot := msg ! 5, cd_cur_seq := msg ! 6, cd_busy := True, cd_msg_ready := True\<rparr>"
    using dispatch_xfr(2) [OF assms(4) sz(1,2) assms(6)] by blast
  let ?c1 = "worker_take (host_out e msg c)"
  have c1: "?c1 = c\<lparr>cd_out_buf := buf, cd_out_primed := False, cd_cur_slot := msg ! 5, cd_cur_seq := msg ! 6,
      cd_busy := True, cd_msg_ready := False, cd_running := Some ?apdu\<rparr>"
    by (simp only: dispatch_xfr(1) [OF assms(4) sz(1,2) assms(6)]) (simp add: host)
  have run: "cd_running ?c1 = Some ?apdu" and st: "cd_cur_slot ?c1 = msg ! 5" "cd_cur_seq ?c1 = msg ! 6"
    "cd_deferred ?c1 = cd_deferred c" by (simp_all add: c1)
  have "openpgp_card_apdu (ce_pgp e) 502 ?apdu (cd_card ?c1) = (card', resp)" "length (cd_in_buf ?c1) = CCID_BUF_SZ"
    using assms(7) sz(3) by (simp_all add: c1)
  from process_block [OF this] obtain inb where proc: "ccid_process_xfrblock e ?apdu ?c1 = ?c1\<lparr>cd_card := card',
      cd_in_buf := inb, cd_resp_len := 10 + length resp, cd_deferred := cd_deferred ?c1 @ [SendFinal 0]\<rparr>"
    and inb: "length inb = CCID_BUF_SZ" "take (10 + length resp) inb = datablock (msg ! 5) (msg ! 6) resp"
    unfolding st by blast
  let ?w = "?c1\<lparr>cd_card := card', cd_in_buf := inb, cd_resp_len := 10 + length resp,
      cd_deferred := cd_deferred c @ [SendFinal 0], cd_running := None\<rparr>"
  have wdone: "worker_done e ?c1 = ?w"
    using run proc st(3) by (simp add: worker_done_def)
  have c': "c' = ?w\<lparr>cd_deferred := [], cd_final_queued := True, cd_io := cd_io c + 1,
      cd_in_flight := Some (datablock (msg ! 5) (msg ! 6) resp)\<rparr>"
    using assms(2,3) inb(2) unfolding assms(8) [symmetric] wdone
    by (simp add: run_deferred_def ccid_send_final_cb_def edpt_in_ok [OF assms(1)] c1 ph_idle_def ccid_shape_def)
  have "ph_sent c'" "ccid_shape c'" "cd_in_flight c' = Some (datablock (msg ! 5) (msg ! 6) resp)"
    using assms(2) buf inb(1) assms(3) by (simp_all add: c' c1 ph_sent_def ccid_shape_def ph_idle_def)
  from final_taken [OF assms(1) this(2,1,3)] this(3) show ?thesis
    by (simp add: datablock_def c' add.commute)
qed



theorem ccid_exchange_witness:
  "\<forall>p. let e = \<lparr>ce_xfer = \<lambda>_. True, ce_pgp = p\<rparr>; msg = [0x6F, 4, 0, 0, 0, 0, 7, 0, 0, 0, 0, 0x20, 0, 0x81];
        c' = run_deferred e (worker_done e (worker_take (host_out e msg (ccid_ready ready_card))));
        resp = snd (openpgp_card_apdu p 502 [0, 0x20, 0, 0x81] ready_card)
     in cd_in_flight c' = Some (datablock 0 7 resp)"
proof
  fix p
  let ?e = "\<lparr>ce_xfer = \<lambda>_. True, ce_pgp = p\<rparr>"
  let ?msg = "[0x6F, 4, 0, 0, 0, 0, 7, 0, 0, 0, 0, 0x20, 0, 0x81] :: bytes"
  have apdu: "take (msg_length ?msg) (drop 10 ?msg) = [0, 0x20, 0, 0x81]" by (simp add: msg_length_def)
  have "cd_in_flight (run_deferred ?e (worker_done ?e (worker_take (host_out ?e ?msg (ccid_ready ready_card))))) =
      Some (datablock (?msg ! 5) (?msg ! 6) (snd (openpgp_card_apdu p 502 [0, 0x20, 0, 0x81] ready_card)))"
    by (rule ccid_exchange [OF xfer_ok_const ccid_ready_ok _ _ _ _ refl,
          where card' = "fst (openpgp_card_apdu p 502 [0, 0x20, 0, 0x81] ready_card)", THEN conjunct1])
       (simp_all only: apdu, simp_all add: ccid_ready_def PC_TO_RDR_XFR_BLOCK_def)
  then show "let e = ?e; msg = ?msg;
        c' = run_deferred e (worker_done e (worker_take (host_out e msg (ccid_ready ready_card))));
        resp = snd (openpgp_card_apdu p 502 [0, 0x20, 0, 0x81] ready_card)
     in cd_in_flight c' = Some (datablock 0 7 resp)" by (simp add: Let_def)
qed

section \<open>Where the reader fails\<close>

lemma final_retry:
  assumes "cd_ep_in c \<noteq> 0" "cd_in_flight c \<noteq> None" "cd_deferred c = [SendFinal n]"
  shows "run_deferred e c = c\<lparr>cd_deferred := (if n < 200 then [SendFinal (n + 1)] else [])\<rparr>"
  using assms by (simp add: run_deferred_def ccid_send_final_cb_def)

lemma final_retries:
  assumes "cd_ep_in c \<noteq> 0" "cd_in_flight c \<noteq> None" "cd_deferred c = [SendFinal 0]"
  shows "k \<le> 200 \<Longrightarrow> (run_deferred e ^^ k) c = c\<lparr>cd_deferred := [SendFinal k]\<rparr>"
proof (induction k)
  case 0
  then show ?case using assms(3) by simp
next
  case (Suc k)
  then show ?case using assms(1,2) by (simp add: final_retry)
qed

text \<open>Giving up on an answer wedges the reader. If a time-extension frame is still in flight while the USB
  task runs the callback of the final answer 201 times, the answer is dropped and nothing is left that would
  make the driver receive again: once the host has taken the frame no step at all is
  possible, and the reader stays dead until the bus is reset.\<close>

theorem ccid_abandon_wedges:
  assumes "ccid_shape c" "ph_answer c" "cd_deferred c = [SendFinal 0]" "cd_in_flight c = Some frame"
    and "host_in e ((run_deferred e ^^ 201) c) = c'"
  shows "cd_busy c' \<and> \<not> cd_out_primed c' \<and> cd_in_flight c' = None \<and> (\<nexists>c''. ccid_step e c' c'')"
proof -
  have sh: "cd_ep_in c \<noteq> 0" "cd_in_flight c \<noteq> None" "cd_ep_in c \<noteq> cd_ep_out c"
    using assms(1,4) by (simp_all add: ccid_shape_def)
  have "(run_deferred e ^^ 201) c = run_deferred e ((run_deferred e ^^ 200) c)" by (simp add: numeral_eq_Suc)
  also have "\<dots> = c\<lparr>cd_deferred := []\<rparr>"
    using sh by (simp add: final_retries [OF sh(1,2) assms(3)] final_retry)
  finally have "c' = c\<lparr>cd_deferred := [], cd_in_flight := None\<rparr>"
    using assms(2,4,5) sh(3) by (simp add: host_in_def ccid_drv_xfer_def xfer_in_done_def ph_answer_def)
  then show ?thesis
    using assms(2) by (auto simp: ph_answer_def elim!: ccid_stepE)
qed

theorem ccid_abandon_wedges_witness:
  "\<forall>e k. let c = (ccid_ready k)\<lparr>cd_out_primed := False, cd_busy := True, cd_deferred := [SendFinal 0],
           cd_in_flight := Some [0x80]\<rparr>;
         c' = host_in e ((run_deferred e ^^ 201) c)
     in \<nexists>c''. ccid_step e c' c''"
proof (intro allI)
  fix e k
  let ?c = "(ccid_ready k)\<lparr>cd_out_primed := False, cd_busy := True, cd_deferred := [SendFinal 0],
      cd_in_flight := Some [0x80]\<rparr>"
  have "cd_busy (host_in e ((run_deferred e ^^ 201) ?c)) \<and> \<not> cd_out_primed (host_in e ((run_deferred e ^^ 201) ?c)) \<and>
      cd_in_flight (host_in e ((run_deferred e ^^ 201) ?c)) = None \<and>
      (\<nexists>c''. ccid_step e (host_in e ((run_deferred e ^^ 201) ?c)) c'')"
    by (rule ccid_abandon_wedges [OF _ _ _ _ refl]) (simp_all add: ccid_ready_def ccid_shape_def ph_answer_def)
  then show "let c = ?c; c' = host_in e ((run_deferred e ^^ 201) c) in \<nexists>c''. ccid_step e c' c''"
    unfolding Let_def by (elim conjE)
qed






section \<open>The applet's hooks\<close>

text \<open>The cryptography of the SDK, by the wrappers of \<open>openpgp_crypto.c\<close>.\<close>

record pgp_crypto =
  pc_p256_sign :: "bytes \<Rightarrow> bytes \<Rightarrow> bytes option"
  pc_p256_pubkey :: "bytes \<Rightarrow> bytes option"
  pc_x25519_pubkey :: "bytes \<Rightarrow> bytes option"
  pc_x25519_ecdh :: "bytes \<Rightarrow> bytes \<Rightarrow> bytes option"
  pc_genkey :: "nat \<Rightarrow> u8 \<Rightarrow> bytes option"

definition dongle_sign :: "pgp_crypto \<Rightarrow> bytes \<Rightarrow> bytes \<Rightarrow> bytes option" where
  "dongle_sign k d hash = map_option (take 64) (pc_p256_sign k d hash)"

definition dongle_pubkey :: "pgp_crypto \<Rightarrow> u8 \<Rightarrow> bytes \<Rightarrow> bytes option" where
  "dongle_pubkey k algo d =
     (if algo = PGP_ALGO_ECDH then map_option (take 32) (pc_x25519_pubkey k d)
      else map_option (take 65) (pc_p256_pubkey k d))"

definition dongle_ecdh :: "pgp_crypto \<Rightarrow> bytes \<Rightarrow> bytes \<Rightarrow> bytes option" where
  "dongle_ecdh k d peer =
     (if length peer \<noteq> 32 then None else map_option (take 32) (pc_x25519_ecdh k d peer))"

definition dongle_genkey :: "pgp_crypto \<Rightarrow> nat \<Rightarrow> u8 \<Rightarrow> bytes option" where
  "dongle_genkey k n algo = pc_genkey k n algo"

text \<open>The answer of one wait; \<open>w n\<close> is the clock, the presses and the gate of the \<open>n\<close>-th.\<close>

definition confirm_answer :: "(nat \<Rightarrow> (nat \<Rightarrow> nat) \<times> (nat \<Rightarrow> bool) \<times> sec_confirm) \<Rightarrow> nat \<Rightarrow> nat" where
  "confirm_answer w n =
     (case w n of (ms, touch, g) \<Rightarrow>
        case dongle_confirm (\<lambda>i. of_nat (ms i)) touch g of None \<Rightarrow> 0 | Some (_, r, _) \<Rightarrow> r)"

definition s_dongle_hooks ::
  "pgp_crypto \<Rightarrow> (nat \<Rightarrow> nvs_rc) \<Rightarrow> (nat \<Rightarrow> (nat \<Rightarrow> nat) \<times> (nat \<Rightarrow> bool) \<times> sec_confirm) \<Rightarrow> pgp_env" where
  "s_dongle_hooks k nvs w =
     \<lparr>pe_nvs = nvs, pe_sign = (\<lambda>_. dongle_sign k), pe_confirm = confirm_answer w,
      pe_pubkey = Some (\<lambda>_. dongle_pubkey k), pe_ecdh = Some (\<lambda>_. dongle_ecdh k),
      pe_genkey = Some (dongle_genkey k)\<rparr>"

definition ccid_drv_init :: "ccid \<Rightarrow> ccid" where
  "ccid_drv_init c = c\<lparr>cd_ep_out := 0, cd_ep_in := 0, cd_card := openpgp_card_init (cd_card c)\<rparr>"

text \<open>\<open>init_done\<close> is the once-flag, \<open>selftest\<close> the result of the SDK's known answers.\<close>

definition ccid_init :: "bool \<Rightarrow> bool \<Rightarrow> ccid \<Rightarrow> ccid" where
  "ccid_init init_done selftest c =
     (if init_done then c
      else c\<lparr>cd_card := openpgp_card_set_crypto_health selftest (cd_card c), cd_msg_ready := False\<rparr>)"

section \<open>A press for every use of a key\<close>

lemma confirm_answer_iff:
  assumes "w n = (ms, touch, g)" "ticking ms"
  shows "confirm_answer w n = 1 \<longleftrightarrow> (\<exists>k. touch k \<and> ms (Suc k) < ms 0 + 15000)"
proof -
  obtain g' r n' where "dongle_confirm (\<lambda>i. of_nat (ms i)) touch g = Some (g', r, n')"
    "r = 1 \<longleftrightarrow> (\<exists>k. touch k \<and> ms (Suc k) < ms 0 + 15000)"
    using confirm_loop_returns [OF assms(2), of "sec_confirm_arm CCID_CONFIRM_SLOT (of_nat (ms 0)) g" 0 touch
        "of_nat (ms 0)" 0]
    unfolding dongle_confirm_def Let_def sec_confirm_arm_def by auto
  then show ?thesis by (simp add: confirm_answer_def assms(1))
qed

text \<open>The object that says whether an operation asks for a press.\<close>

definition uif_tag_of :: "apdu \<Rightarrow> u16 option" where
  "uif_tag_of a =
     (if ap_ins a = 0x2A \<and> ap_p1 a = 0x9E \<and> ap_p2 a = 0x9A then Some 0xD6
      else if ap_ins a = 0x2A \<and> ap_p1 a = 0x80 \<and> ap_p2 a = 0x86 then Some 0xD7
      else if ap_ins a = 0x88 then Some 0xD8 else None)"

lemma op_needs_touch:
  assumes "2 \<le> mx" "uif_required tag c" "pe_confirm e (ds_io c) \<noteq> 1"
  shows "tag = 0xD6 \<Longrightarrow> rsp_sw (snd (card_sign e mx a c)) \<noteq> SW_OK"
    and "tag = 0xD7 \<Longrightarrow> rsp_sw (snd (card_decipher e mx a c)) \<noteq> SW_OK"
    and "tag = 0xD8 \<Longrightarrow> rsp_sw (snd (card_int_auth e mx a c)) \<noteq> SW_OK"
  using assms
  by (auto simp: card_sign_def card_decipher_def card_int_auth_def confirm_touch_def Let_def
      split: option.splits)

lemma apdu_needs_touch:
  assumes "2 \<le> mx" "apdu_parse inp = Some a" "uif_tag_of a = Some tag" "uif_required tag c"
    and "rsp_sw (snd (openpgp_card_apdu e mx inp c)) = SW_OK"
  shows "pe_confirm e (ds_io c) = 1"
proof (rule ccontr)
  assume "pe_confirm e (ds_io c) \<noteq> 1"
  note op = op_needs_touch [OF assms(1,4) this, of a]
  have "(0x6285 :: u16) \<noteq> SW_OK" by (simp add: SW_OK_def)
  with op assms(1,2,3,5) show False
    by (auto simp: uif_tag_of_def openpgp_card_apdu_def card_pso_def split: if_splits)
qed

text \<open>C4: a press for every use of a key. The reader hands the applet the waiting loop of the
  confirmation gate as its touch hook; so, when the owner's touch object asks for a press, a signature,
  a decryption or an authentication that the host sees succeed means that the key was pressed
  while that very command waited, within its 15 s, whatever state the gate was left in before.\<close>

theorem press_gates_secret_ops:
  assumes "2 \<le> mx" "apdu_parse inp = Some a" "uif_tag_of a = Some tag" "uif_required tag c"
    and "w (ds_io c) = (ms, touch, g)" "ticking ms"
    and "rsp_sw (snd (openpgp_card_apdu (s_dongle_hooks k nvs w) mx inp c)) = SW_OK"
  shows "\<exists>i. touch i \<and> ms (Suc i) < ms 0 + 15000"
  using apdu_needs_touch [OF assms(1-4,7)] confirm_answer_iff [of w "ds_io c" ms touch g, OF assms(5,6)]
  by (simp add: s_dongle_hooks_def)

definition touch_card :: card where
  "touch_card = fst (openpgp_do_put (\<lambda>_. NvsOk) 0xD6 (Some [1, 0x20]) 2 sign_card)"

definition toy_crypto :: pgp_crypto where
  "toy_crypto = \<lparr>pc_p256_sign = (\<lambda>_ h. Some h), pc_p256_pubkey = (\<lambda>_. None), pc_x25519_pubkey = (\<lambda>_. None),
     pc_x25519_ecdh = (\<lambda>_ _. None), pc_genkey = (\<lambda>_ _. None)\<rparr>"

definition wait20 :: "nat \<Rightarrow> (nat \<Rightarrow> nat) \<times> (nat \<Rightarrow> bool) \<times> sec_confirm" where
  "wait20 n = ((\<lambda>i. 20 * i), (\<lambda>i. i = 7), sec_confirm_boot)"

lemma wait20_answers: "confirm_answer wait20 = (\<lambda>_. 1)"
proof
  fix n
  show "confirm_answer wait20 n = 1"
    using confirm_answer_iff [of wait20 n "\<lambda>i. 20 * i" "\<lambda>i. i = 7" sec_confirm_boot]
    by (simp add: wait20_def ticking_def)
qed

theorem press_gates_secret_ops_witness:
  "rsp_sw (snd (openpgp_card_apdu (s_dongle_hooks toy_crypto (\<lambda>_. NvsOk) wait20) 512 apdu_sign touch_card)) = SW_OK
   \<and> (\<exists>i. i = (7 :: nat) \<and> 20 * Suc i < 20 * 0 + 15000)"
proof -
  let ?e = "s_dongle_hooks toy_crypto (\<lambda>_. NvsOk) wait20"
  let ?e' = "(s_dongle_hooks toy_crypto (\<lambda>_. NvsOk) wait20)\<lparr>pe_confirm := \<lambda>_. 1\<rparr>"
  have e: "?e = ?e'" by (simp add: s_dongle_hooks_def wait20_answers)
  have ok: "rsp_sw (snd (openpgp_card_apdu ?e' 512 apdu_sign touch_card)) = SW_OK"
    by code_simp
  have p: "map_option uif_tag_of (apdu_parse apdu_sign) = Some (Some 0xD6)" by code_simp
  then obtain a where a: "apdu_parse apdu_sign = Some a" "uif_tag_of a = Some 0xD6" by auto
  have u: "uif_required 0xD6 touch_card" by code_simp
  show ?thesis
    by (rule conjI [OF ok [folded e]], rule press_gates_secret_ops [OF _ a u _ _ ok [folded e], where g = sec_confirm_boot])
       (simp_all add: wait20_def ticking_def)
qed


end
