(* ===== verification/Rf_Pairing.thy ===== *)
theory Rf_Pairing
  imports Crc Nvs Rf_Packet
begin

unbundle bit_operations_syntax

text \<open>
  \<open>main/comm/rf/rf_pairing.c\<close>: the addresses, channels and slots of a paired set, derived from an
  identifier of the dongle, and what pairing stores in flash. The flash namespace is a map from
  keys to typed values; as in \<open>Nvs\<close>, \<open>rc n\<close> is what the \<open>n\<close>-th call into the storage returns,
  and a session that fails before its commit may or may not have kept what it wrote.
\<close>

section \<open>Derivations\<close>

definition unpaired_id :: "u16 \<Rightarrow> bool" where
  "unpaired_id set_id \<longleftrightarrow> set_id = 0 \<or> set_id = 0xFFFF"

text \<open>Address base, suffix and channel; \<open>None\<close> is \<open>return false\<close>, which writes nothing.\<close>

definition rf_derive_addr :: "u16 \<Rightarrow> u8 \<Rightarrow> (bytes \<times> u8 \<times> u8) option" where
  "rf_derive_addr set_id slot =
     (if unpaired_id set_id then None
      else
        let base_ch = of_nat (80 + 2 * (unat set_id mod 20)) :: u8
        in Some ([0x4B, 0x53, ucast (drop_bit 8 set_id), ucast (set_id AND 0xFF)], slot,
                 if slot = 0x01 then base_ch else base_ch + 1))"

definition rf_derive_wifi_ch :: "u16 \<Rightarrow> u8" where
  "rf_derive_wifi_ch set_id =
     (if unpaired_id set_id then 6 else [1, 6, 11] ! (unat set_id mod 3))"

definition rf_pairing_assign_slot :: "u8 \<Rightarrow> u8 option" where
  "rf_pairing_assign_slot paired_count =
     (if paired_count = 0 then Some 0x01 else if paired_count = 1 then Some 0x02 else None)"

definition rf_pairing_resolve_slot :: "u8 \<Rightarrow> u8 \<Rightarrow> u8 option" where
  "rf_pairing_resolve_slot declared_slot paired_count =
     (if declared_slot = 0x01 \<or> declared_slot = 0x02 then Some declared_slot
      else rf_pairing_assign_slot paired_count)"

definition mac_is_zero :: "bytes \<Rightarrow> bool" where
  "mac_is_zero m \<longleftrightarrow> (\<forall>i<6. m ! i = 0)"

definition mac_eq :: "bytes \<Rightarrow> bytes \<Rightarrow> bool" where
  "mac_eq a b \<longleftrightarrow> (\<forall>i<6. a ! i = b ! i)"

definition rf_pairing_match_slot :: "bytes \<Rightarrow> bytes \<Rightarrow> bytes \<Rightarrow> u8 option" where
  "rf_pairing_match_slot mac mac_left mac_right =
     (if \<not> mac_is_zero mac_left \<and> mac_eq mac mac_left then Some 0x01
      else if \<not> mac_is_zero mac_right \<and> mac_eq mac mac_right then Some 0x02 else None)"

text \<open>\<open>wifi_mac\<close> is the address burnt into the chip.\<close>

definition rf_compute_set_id :: "bytes \<Rightarrow> u16" where
  "rf_compute_set_id wifi_mac =
     (let id = crc16_ccitt wifi_mac in if id = 0 \<or> id = 0xFFFF then 0x0001 else id)"

record rf_radio_cfg =
  rc_channel :: u8
  rc_rx_addr :: bytes
  rc_addr_suffix :: u8

definition rf_apply_set_id :: "u16 \<Rightarrow> u8 \<Rightarrow> rf_radio_cfg \<Rightarrow> rf_radio_cfg" where
  "rf_apply_set_id set_id slot cfg =
     (case rf_derive_addr set_id slot of
        None \<Rightarrow> cfg
      | Some (addr, suffix, channel) \<Rightarrow>
          cfg\<lparr>rc_rx_addr := addr, rc_addr_suffix := suffix, rc_channel := channel\<rparr>)"

definition rf_address :: "rf_radio_cfg \<Rightarrow> bytes" where
  "rf_address cfg = take 4 (rc_rx_addr cfg) @ [rc_addr_suffix cfg]"

section \<open>Flash\<close>

text \<open>A blob is read into a buffer of six bytes, which a longer one does not fit.\<close>

definition get_mac :: "(nat \<Rightarrow> nvs_rc) \<Rightarrow> nat \<Rightarrow> string \<Rightarrow> kv \<Rightarrow> bytes \<Rightarrow> bytes" where
  "get_mac rc io k flash buf =
     (case (rc io, flash k) of
        (NvsOk, Some (NvBlob b)) \<Rightarrow> if length b \<le> 6 then mem_write 0 b buf else buf
      | _ \<Rightarrow> buf)"

definition rf_pairing_load_set_id_dongle :: "(nat \<Rightarrow> nvs_rc) \<Rightarrow> nat \<Rightarrow> bytes \<Rightarrow> kv \<Rightarrow> u16 \<times> nat" where
  "rf_pairing_load_set_id_dongle rc io wifi_mac flash =
     (case rc io of
        NvsErr _ \<Rightarrow> (0, io + 1)
      | NvsOk \<Rightarrow>
          (case get_u8 rc (io + 1) ''paired_count'' flash of
             None \<Rightarrow> (0, io + 2)
           | Some paired_count \<Rightarrow>
               (if paired_count = 0 then 0 else rf_compute_set_id wifi_mac, io + 2)))"

definition rf_pairing_load_set_id_half :: "(nat \<Rightarrow> nvs_rc) \<Rightarrow> nat \<Rightarrow> u8 \<Rightarrow> kv \<Rightarrow> (u16 \<times> u8) \<times> nat" where
  "rf_pairing_load_set_id_half rc io fallback_slot flash =
     (case rc io of
        NvsErr _ \<Rightarrow> ((0, fallback_slot), io + 1)
      | NvsOk \<Rightarrow>
          (case get_u16 rc (io + 1) ''set_id'' flash of
             None \<Rightarrow> ((0, fallback_slot), io + 2)
           | Some set_id \<Rightarrow>
               if set_id = 0 then ((0, fallback_slot), io + 2)
               else
                 let set_id = (if set_id = 0xFFFF then 0x0001 else set_id);
                     slot = (case get_u8 rc (io + 2) ''slot'' flash of
                               None \<Rightarrow> fallback_slot
                             | Some s \<Rightarrow> if s = 0x01 \<or> s = 0x02 then s else fallback_slot)
                 in ((set_id, slot), io + 3)))"

definition peer_key :: "u8 \<Rightarrow> string" where
  "peer_key slot = (if slot = 0x01 then ''mac_left'' else ''mac_right'')"

definition rf_pairing_save_peer_dongle ::
  "(nat \<Rightarrow> nvs_rc) \<Rightarrow> nat \<Rightarrow> u8 \<Rightarrow> bytes \<Rightarrow> u8 \<Rightarrow> kv \<Rightarrow> kv \<times> bool \<times> nat" where
  "rf_pairing_save_peer_dongle rc io slot mac new_paired_count flash =
     nvs_session rc io [(peer_key slot, NvBlob mac), (''paired_count'', NvU8 new_paired_count)] flash"

text \<open>The results of the erasures and of the counter are not looked at.\<close>

definition rf_pairing_reset_dongle :: "(nat \<Rightarrow> nvs_rc) \<Rightarrow> nat \<Rightarrow> kv \<Rightarrow> kv \<times> bool \<times> nat" where
  "rf_pairing_reset_dongle rc io flash =
     (case rc io of
        NvsErr _ \<Rightarrow> (flash, False, io + 1)
      | NvsOk \<Rightarrow>
          (let cur = nvs_erase (rc (io + 1)) ''mac_left'' flash;
               cur = nvs_erase (rc (io + 2)) ''mac_right'' cur;
               cur = (if rc (io + 3) = NvsOk then cur(''paired_count'' \<mapsto> NvU8 0) else cur)
           in case rc (io + 4) of
                NvsOk \<Rightarrow> (cur, True, io + 5)
              | NvsErr kept \<Rightarrow> (if kept then cur else flash, False, io + 5)))"

definition rf_pairing_load_peers_dongle ::
  "(nat \<Rightarrow> nvs_rc) \<Rightarrow> nat \<Rightarrow> kv \<Rightarrow> (bytes \<times> bytes \<times> u8) \<times> nat" where
  "rf_pairing_load_peers_dongle rc io flash =
     (let z = replicate 6 0 in
      case rc io of
        NvsErr _ \<Rightarrow> ((z, z, 0), io + 1)
      | NvsOk \<Rightarrow>
          ((get_mac rc (io + 1) ''mac_left'' flash z, get_mac rc (io + 2) ''mac_right'' flash z,
            case get_u8 rc (io + 3) ''paired_count'' flash of None \<Rightarrow> 0 | Some c \<Rightarrow> c), io + 4))"

definition rf_pairing_save_half ::
  "(nat \<Rightarrow> nvs_rc) \<Rightarrow> nat \<Rightarrow> u16 \<Rightarrow> u8 \<Rightarrow> bytes \<Rightarrow> kv \<Rightarrow> kv \<times> bool \<times> nat" where
  "rf_pairing_save_half rc io set_id slot mac_dongle flash =
     nvs_session rc io [(''set_id'', NvU16 set_id), (''slot'', NvU8 slot), (''mac_dongle'', NvBlob mac_dongle)] flash"



section \<open>Channels and addresses\<close>

lemma derive_paired:
  assumes "\<not> unpaired_id set_id"
  shows "rf_derive_addr set_id slot = Some ([0x4B, 0x53, hi8 set_id, lo8 set_id], slot,
      of_nat (80 + 2 * (unat set_id mod 20) + (if slot = 1 then 0 else 1)))"
  using assms by (auto simp: rf_derive_addr_def hi8_def lo8_def Let_def)

lemma unat_channel:
  "unat (of_nat (80 + 2 * (n mod 20) + (if b then 0 else 1)) :: u8) = 80 + 2 * (n mod 20) + (if b then 0 else 1)"
proof -
  have "80 + 2 * (n mod 20) + (if b then 0 else 1 :: nat) < 256"
    using mod_less_divisor [of 20 n] by auto
  then show ?thesis by (simp only: unat_of_nat len_num1 len_bit0 mod_less) simp
qed

lemma apply_paired:
  assumes "\<not> unpaired_id set_id"
  shows "rf_address (rf_apply_set_id set_id slot cfg) = [0x4B, 0x53, hi8 set_id, lo8 set_id, slot]"
    and "unat (rc_channel (rf_apply_set_id set_id slot cfg)) =
           80 + 2 * (unat set_id mod 20) + (if slot = 1 then 0 else 1)"
  using unat_channel [of "unat set_id" "slot = 1"]
  by (simp_all add: rf_apply_set_id_def derive_paired [OF assms] rf_address_def)

lemma hi_lo_inj: "hi8 a = hi8 b \<Longrightarrow> lo8 a = lo8 b \<Longrightarrow> a = b"
  by (metis be16_hi8_lo8)

text \<open>The radio plan of paired sets. Two links of paired sets use the same address only
  if they are the same slot of the same set, the two slots of a set are on neighbouring but different
  channels, all channels lie in 80..119, clear of the pairing channel 40; but only the sets whose
  identifier is 0 or 1 modulo 20 stay below 2483.5 MHz (channel 83), the others use channels
  above it.\<close>

theorem rf_plan:
  assumes "\<not> unpaired_id a" "\<not> unpaired_id b" "s \<in> {1, 2}" "t \<in> {1, 2}"
  shows "(rf_address (rf_apply_set_id a s cfg) = rf_address (rf_apply_set_id b t cfg') \<longleftrightarrow> a = b \<and> s = t) \<and>
         80 \<le> unat (rc_channel (rf_apply_set_id a s cfg)) \<and> unat (rc_channel (rf_apply_set_id a s cfg)) \<le> 119 \<and>
         (rc_channel (rf_apply_set_id a s cfg) = rc_channel (rf_apply_set_id a t cfg) \<longleftrightarrow> s = t) \<and>
         (unat (rc_channel (rf_apply_set_id a s cfg)) \<le> 83 \<longleftrightarrow> unat a mod 20 < 2)"
proof -
  have m: "unat a mod 20 < 20" by simp
  have ch: "rc_channel x = rc_channel y \<longleftrightarrow> unat (rc_channel x) = unat (rc_channel y)" for x y :: rf_radio_cfg
    by (simp add: word_unat_eq_iff)
  show ?thesis
    using assms(3,4) m
    by (auto simp: apply_paired [OF assms(1)] apply_paired [OF assms(2)] ch dest: hi_lo_inj)
qed

theorem rf_plan_witness:
  "unat (rc_channel (rf_apply_set_id 0x1234 2 \<lparr>rc_channel = 0x52, rc_rx_addr = [], rc_addr_suffix = 2\<rparr>)) \<le> 119"
  using rf_plan [of "0x1234" "0x1234" 2 2 "\<lparr>rc_channel = 0x52, rc_rx_addr = [], rc_addr_suffix = 2\<rparr>"]
  by (simp add: unpaired_id_def)

lemma compute_set_id_paired: "\<not> unpaired_id (rf_compute_set_id mac)"
  by (simp add: rf_compute_set_id_def unpaired_id_def Let_def)

section \<open>Sessions\<close>

lemma puts_ok:
  "nvs_puts rc io ws flash cur = (flash', True, io') \<Longrightarrow> flash' = foldl (\<lambda>m (k, v). m(k \<mapsto> v)) cur ws"
  by (induction rc io ws flash cur rule: nvs_puts.induct) (auto split: nvs_rc.splits)

lemma session_ok:
  "nvs_session rc io ws flash = (flash', True, io') \<Longrightarrow> flash' = foldl (\<lambda>m (k, v). m(k \<mapsto> v)) flash ws"
  by (auto simp: nvs_session_def split: nvs_rc.splits dest: puts_ok)

lemma puts_all_ok:
  "(\<And>n. rc n = NvsOk) \<Longrightarrow>
     nvs_puts rc io ws flash cur = (foldl (\<lambda>m (k, v). m(k \<mapsto> v)) cur ws, True, io + length ws + 1)"
  by (induction ws arbitrary: io cur) auto

lemma save_half_load:
  assumes "rf_pairing_save_half rc io set_id slot mac flash = (flash', True, io')"
    and "\<not> unpaired_id set_id" "slot \<in> {1, 2}"
  shows "fst (rf_pairing_load_set_id_half (\<lambda>_. NvsOk) io2 fallback flash') = (set_id, slot)"
  using session_ok [OF assms(1) [unfolded rf_pairing_save_half_def]] assms(2-3)
  by (auto simp: rf_pairing_load_set_id_half_def get_u16_def get_u8_def unpaired_id_def)


end
