(* ===== verification/Dongle_Rf.thy ===== *)
theory Dongle_Rf
  imports Rf_Pairing Link_Supervision Hid_Report
begin

unbundle bit_operations_syntax

text \<open>
  \<open>main/comm/rf/rf_rx_task.c\<close> and \<open>dongle_state.c\<close>: the task of the dongle that owns the two
  radios. It relays finished HID reports to the host, releases what a silent device held, re-arms a
  mute radio and runs the pairing window. The file statics are the record \<open>dongle\<close>; the packets a radio has
  received are an argument of a turn, as are the clock and the answers of USB and flash.
\<close>

section \<open>Link quality\<close>

definition rf_signal_q255 :: "bool \<Rightarrow> u32 \<Rightarrow> u8 \<Rightarrow> u8" where
  "rf_signal_q255 link_up hb_age_ms link_q =
     (if \<not> link_up \<or> hb_age_ms \<ge> 1500 then 0
      else
        let age_factor = 255 * (1500 - hb_age_ms) div 1500 :: u32;
            lq = (if link_q > 100 then 100 else link_q);
            retry_factor = 255 * (100 - ucast lq) div 100 :: u32
        in ucast (if age_factor < retry_factor then age_factor else retry_factor))"

section \<open>State\<close>

record dongle_batt =
  db_batt_dV :: u8
  db_soc_pct :: u8
  db_charging :: u8
  db_last_ms :: u32

record dongle =
  dg_links :: "rf_slot_link list"
  dg_link_q :: "u8 list"
  dg_batt :: "dongle_batt list"
  kbd_present :: bool
  mouse_present :: bool
  kbd_cfg :: rf_radio_cfg
  mouse_cfg :: rf_radio_cfg
  kbd_tuned :: "u8 \<times> bytes"
  mouse_tuned :: "u8 \<times> bytes"
  pairing_mode :: bool
  pair_deadline_ms :: u32
  pair_paired_count :: u8
  pair_mac_left :: bytes
  pair_mac_right :: bytes
  kbd_rearm_ms :: u32
  mouse_rearm_ms :: u32
  dg_nvs :: kv
  dg_io :: nat
  dg_sent :: "hid_packet list"
  dg_acks :: "bytes list"

text \<open>\<open>de_nvs\<close> and \<open>de_usb\<close> answer the \<open>n\<close>-th call; \<open>de_mac\<close> is the address of the chip.\<close>

record dongle_env =
  de_nvs :: "nat \<Rightarrow> nvs_rc"
  de_usb :: "nat \<Rightarrow> bool"
  de_mac :: bytes

definition RF_PAIR_CHANNEL :: u8 where "RF_PAIR_CHANNEL = 0x28"
definition RF_PAIR_ADDR :: bytes where "RF_PAIR_ADDR = [0x4B, 0x53, 0x50, 0x52, 0xFF]"
definition RF_PAIR_WINDOW_MS :: u32 where "RF_PAIR_WINDOW_MS = 120000"
definition RF_REARM_SILENCE_MS :: u32 where "RF_REARM_SILENCE_MS = 2000"
definition LINK_LOST_MS :: u32 where "LINK_LOST_MS = 2500"

definition board_rf_radio1_cfg :: rf_radio_cfg where
  "board_rf_radio1_cfg =
     \<lparr>rc_channel = 0x4C, rc_rx_addr = [0x4B, 0x61, 0x53, 0x65], rc_addr_suffix = 0x01\<rparr>"

definition board_rf_radio2_cfg :: rf_radio_cfg where
  "board_rf_radio2_cfg =
     \<lparr>rc_channel = 0x52, rc_rx_addr = [0x4B, 0x61, 0x53, 0x65], rc_addr_suffix = 0x02\<rparr>"

definition batt_unknown :: dongle_batt where
  "batt_unknown = \<lparr>db_batt_dV = 0xFF, db_soc_pct = 0xFF, db_charging = 0xFF, db_last_ms = 0\<rparr>"

definition dongle_zero :: "kv \<Rightarrow> dongle" where
  "dongle_zero flash = \<lparr>dg_links = replicate 2 \<lparr>sl_last_rx_ms = 0, sl_up = False\<rparr>, dg_link_q = [0, 0],
     dg_batt = replicate 2 batt_unknown, kbd_present = False, mouse_present = False,
     kbd_cfg = board_rf_radio1_cfg, mouse_cfg = board_rf_radio2_cfg, kbd_tuned = (0, []), mouse_tuned = (0, []),
     pairing_mode = False, pair_deadline_ms = 0, pair_paired_count = 0,
     pair_mac_left = replicate 6 0, pair_mac_right = replicate 6 0, kbd_rearm_ms = 0, mouse_rearm_ms = 0,
     dg_nvs = flash, dg_io = 0, dg_sent = [], dg_acks = []\<rparr>"

section \<open>Battery cache\<close>

definition dongle_cache_set_battery :: "u32 \<Rightarrow> u8 \<Rightarrow> u8 \<Rightarrow> u8 \<Rightarrow> u8 \<Rightarrow> dongle \<Rightarrow> dongle" where
  "dongle_cache_set_battery now slot batt_dV soc_pct charging d =
     (if slot > 1 then d
      else d\<lparr>dg_batt := (dg_batt d)[unat slot := \<lparr>db_batt_dV = batt_dV, db_soc_pct = soc_pct,
               db_charging = charging, db_last_ms = now\<rparr>]\<rparr>)"

definition dongle_cache_get_battery :: "u32 \<Rightarrow> u8 \<Rightarrow> dongle \<Rightarrow> u8 \<times> u8 \<times> u8 \<times> u32" where
  "dongle_cache_get_battery now slot d =
     (let s = (if slot > 1 then 1 else slot); b = dg_batt d ! unat s
      in (db_batt_dV b, db_soc_pct b, db_charging b,
          if db_last_ms b = 0 then 0xFFFFFFFF else now - db_last_ms b))"

definition cache_battery :: "u32 \<Rightarrow> u8 \<Rightarrow> u8 \<Rightarrow> dongle \<Rightarrow> dongle" where
  "cache_battery now slot batt_dV = dongle_cache_set_battery now slot batt_dV 0xFF 0xFF"

section \<open>Relaying\<close>

text \<open>The dongle has no Bluetooth (\<open>usb_bl_state\<close> stays 0): a report is handed to USB, which takes it or
  not, and the result is not looked at.\<close>

definition dongle_send :: "dongle_env \<Rightarrow> hid_packet \<Rightarrow> dongle \<Rightarrow> dongle" where
  "dongle_send e r d =
     (if de_usb e (dg_io d) then d\<lparr>dg_sent := dg_sent d @ [r], dg_io := dg_io d + 1\<rparr>
      else d\<lparr>dg_io := dg_io d + 1\<rparr>)"

definition apply_safe_action :: "dongle_env \<Rightarrow> rf_safe_action \<Rightarrow> dongle \<Rightarrow> dongle" where
  "apply_safe_action e action d = (case action of
     RF_SAFE_RELEASE_KEYS \<Rightarrow> dongle_send e (KbReport 0 (replicate 6 0)) d
   | RF_SAFE_RELEASE_BUTTONS \<Rightarrow> dongle_send e (MouseReport (0, 0, 0, 0)) d
   | RF_SAFE_NONE \<Rightarrow> d)"

definition set_link_q :: "u8 \<Rightarrow> u8 \<Rightarrow> dongle \<Rightarrow> dongle" where
  "set_link_q slot q d = d\<lparr>dg_link_q := (dg_link_q d)[unat slot := q]\<rparr>"

definition link_rx :: "u32 \<Rightarrow> u8 \<Rightarrow> dongle \<Rightarrow> dongle" where
  "link_rx now slot d =
     d\<lparr>dg_links := (dg_links d)[unat slot := rf_slot_link_rx (dg_links d ! unat slot) now]\<rparr>"

definition drain_packet :: "dongle_env \<Rightarrow> u32 \<Rightarrow> u8 \<Rightarrow> bytes \<Rightarrow> dongle \<Rightarrow> dongle" where
  "drain_packet e now slot buf d0 =
     (let d = link_rx now slot d0; type = rf_packet_type buf in
      if type = PKT_TYPE_STATUS then
        (case rf_decode_status buf of None \<Rightarrow> d
         | Some st \<Rightarrow> cache_battery now slot (rs_batt_dV st) (set_link_q slot (rs_link_q st) d))
      else if type = PKT_TYPE_HEARTBEAT then
        (case rf_decode_heartbeat buf of None \<Rightarrow> d
         | Some h \<Rightarrow> cache_battery now slot (hb_batt_dV h) (set_link_q slot (hb_link_q h) d))
      else if type = PKT_TYPE_HIDREPORT then
        (case rf_decode_hidreport buf of None \<Rightarrow> d
         | Some (HidKbd m kb) \<Rightarrow> dongle_send e (KbReport m kb) d
         | Some (HidMouse b x y w) \<Rightarrow> dongle_send e (MouseReport (b, x, y, w)) d)
      else d)"

text \<open>The packets waiting in a radio; an empty one ends the loop.\<close>

fun drain_radio :: "dongle_env \<Rightarrow> u32 \<Rightarrow> u8 \<Rightarrow> bytes list \<Rightarrow> dongle \<Rightarrow> dongle" where
  "drain_radio e now slot [] d = d"
| "drain_radio e now slot (buf # bufs) d =
     (if buf = [] then d else drain_radio e now slot bufs (drain_packet e now slot buf d))"

section \<open>Pairing\<close>

definition tune_kbd :: "u8 \<Rightarrow> bytes \<Rightarrow> dongle \<Rightarrow> dongle" where
  "tune_kbd ch addr d = d\<lparr>kbd_tuned := (ch, addr)\<rparr>"

definition tune_mouse :: "u8 \<Rightarrow> bytes \<Rightarrow> dongle \<Rightarrow> dongle" where
  "tune_mouse ch addr d = d\<lparr>mouse_tuned := (ch, addr)\<rparr>"

definition load_peers :: "dongle_env \<Rightarrow> dongle \<Rightarrow> dongle" where
  "load_peers e d =
     (let ((l, r, c), io) = rf_pairing_load_peers_dongle (de_nvs e) (dg_io d) (dg_nvs d)
      in d\<lparr>pair_mac_left := l, pair_mac_right := r, pair_paired_count := c, dg_io := io\<rparr>)"

text \<open>The results are \<open>set_id_out\<close> and \<open>paired_count_out\<close>; \<open>None\<close> is \<open>return false\<close>.\<close>

definition rf_rx_pair_start :: "dongle_env \<Rightarrow> u32 \<Rightarrow> u8 \<Rightarrow> dongle \<Rightarrow> dongle \<times> (u16 \<times> u8) option" where
  "rf_rx_pair_start e now reset d =
     (if \<not> kbd_present d then (d, None)
      else
        let d1 = (if reset \<noteq> 0
                  then let (flash, _, io) = rf_pairing_reset_dongle (de_nvs e) (dg_io d) (dg_nvs d)
                       in d\<lparr>dg_nvs := flash, dg_io := io\<rparr>
                  else d);
            d2 = load_peers e d1;
            d3 = tune_kbd RF_PAIR_CHANNEL RF_PAIR_ADDR d2;
            d4 = d3\<lparr>pair_deadline_ms := now + RF_PAIR_WINDOW_MS, pairing_mode := True\<rparr>
        in (d4, Some (rf_compute_set_id (de_mac e), pair_paired_count d4)))"

definition rf_rx_apply_paired_config :: "dongle_env \<Rightarrow> dongle \<Rightarrow> dongle" where
  "rf_rx_apply_paired_config e d =
     (let set_id = (if pair_paired_count d > 0 then rf_compute_set_id (de_mac e) else 0);
          kcfg = rf_apply_set_id set_id 0x01 board_rf_radio1_cfg;
          mcfg = rf_apply_set_id set_id 0x02 board_rf_radio2_cfg;
          d1 = tune_kbd (rc_channel kcfg) (rf_address kcfg) (d\<lparr>kbd_cfg := kcfg, mouse_cfg := mcfg\<rparr>)
      in if mouse_present d1 then tune_mouse (rc_channel mcfg) (rf_address mcfg) d1 else d1)"

definition pair_ack_bytes :: "dongle_env \<Rightarrow> u8 \<Rightarrow> bytes" where
  "pair_ack_bytes e slot =
     rf_encode_pair_ack \<lparr>pa_set_id = rf_compute_set_id (de_mac e), pa_mac = de_mac e, pa_slot = slot\<rparr>"

definition send_pair_ack :: "dongle_env \<Rightarrow> u8 \<Rightarrow> dongle \<Rightarrow> dongle" where
  "send_pair_ack e slot d =
     tune_kbd RF_PAIR_CHANNEL RF_PAIR_ADDR (d\<lparr>dg_acks := dg_acks d @ [pair_ack_bytes e slot]\<rparr>)"

text \<open>A peer that is not known: stored first, remembered and acknowledged only if that worked.\<close>

definition save_new_peer :: "dongle_env \<Rightarrow> u8 \<Rightarrow> bytes \<Rightarrow> dongle \<Rightarrow> dongle" where
  "save_new_peer e slot mac d =
     (let new_count = pair_paired_count d + 1;
          (flash, ok, io) = rf_pairing_save_peer_dongle (de_nvs e) (dg_io d) slot mac new_count (dg_nvs d);
          d1 = d\<lparr>dg_nvs := flash, dg_io := io\<rparr>
      in if \<not> ok then d1
         else send_pair_ack e slot
                ((if slot = 0x01 then d1\<lparr>pair_mac_left := mac\<rparr> else d1\<lparr>pair_mac_right := mac\<rparr>)
                   \<lparr>pair_paired_count := new_count\<rparr>))"

definition pair_packet :: "dongle_env \<Rightarrow> bytes \<Rightarrow> dongle \<Rightarrow> dongle" where
  "pair_packet e buf d =
     (case rf_decode_pair_req buf of
        None \<Rightarrow> d
      | Some (mac, declared_slot) \<Rightarrow>
          (case rf_pairing_match_slot mac (pair_mac_left d) (pair_mac_right d) of
             Some slot \<Rightarrow> send_pair_ack e slot d
           | None \<Rightarrow>
               (case rf_pairing_resolve_slot declared_slot (pair_paired_count d) of
                  None \<Rightarrow> d
                | Some slot \<Rightarrow> save_new_peer e slot mac d)))"

fun pair_packets :: "dongle_env \<Rightarrow> bytes list \<Rightarrow> dongle \<Rightarrow> dongle" where
  "pair_packets e [] d = d"
| "pair_packets e (buf # bufs) d = (if buf = [] then d else pair_packets e bufs (pair_packet e buf d))"

definition rf_rx_pairing_service :: "dongle_env \<Rightarrow> u32 \<Rightarrow> bytes list \<Rightarrow> dongle \<Rightarrow> dongle \<times> bool" where
  "rf_rx_pairing_service e now pkts d =
     (if now \<ge> pair_deadline_ms d \<or> pair_paired_count d \<ge> 2
      then ((rf_rx_apply_paired_config e d)\<lparr>pairing_mode := False\<rparr>, False)
      else (pair_packets e pkts d, True))"

section \<open>The task\<close>

definition rearm_kbd_if_silent :: "u32 \<Rightarrow> dongle \<Rightarrow> dongle" where
  "rearm_kbd_if_silent now d =
     (if \<not> kbd_present d then d
      else if now - sl_last_rx_ms (dg_links d ! unat RF_SLOT_KBD) \<le> RF_REARM_SILENCE_MS then d
      else if now - kbd_rearm_ms d \<le> RF_REARM_SILENCE_MS then d
      else (tune_kbd (rc_channel (kbd_cfg d)) (rf_address (kbd_cfg d)) d)\<lparr>kbd_rearm_ms := now\<rparr>)"

definition rearm_mouse_if_silent :: "u32 \<Rightarrow> dongle \<Rightarrow> dongle" where
  "rearm_mouse_if_silent now d =
     (if \<not> mouse_present d then d
      else if now - sl_last_rx_ms (dg_links d ! unat RF_SLOT_MOUSE) \<le> RF_REARM_SILENCE_MS then d
      else if now - mouse_rearm_ms d \<le> RF_REARM_SILENCE_MS then d
      else (tune_mouse (rc_channel (mouse_cfg d)) (rf_address (mouse_cfg d)) d)\<lparr>mouse_rearm_ms := now\<rparr>)"

definition rf_rx_watchdog :: "u32 \<Rightarrow> dongle \<Rightarrow> dongle" where
  "rf_rx_watchdog now d = rearm_mouse_if_silent now (rearm_kbd_if_silent now d)"

definition check_slot :: "dongle_env \<Rightarrow> u8 \<Rightarrow> u32 \<Rightarrow> dongle \<Rightarrow> dongle" where
  "check_slot e slot now d =
     (let (l, a) = rf_slot_link_check (dg_links d ! unat slot) slot now LINK_LOST_MS
      in apply_safe_action e a (d\<lparr>dg_links := (dg_links d)[unat slot := l]\<rparr>))"

text \<open>One turn of the loop, with the packets each radio holds.\<close>

definition rf_rx_turn :: "dongle_env \<Rightarrow> u32 \<Rightarrow> bytes list \<Rightarrow> bytes list \<Rightarrow> dongle \<Rightarrow> dongle" where
  "rf_rx_turn e now kbd_pkts mouse_pkts d =
     (if pairing_mode d then fst (rf_rx_pairing_service e now kbd_pkts d)
      else
        let d1 = (if kbd_present d then drain_radio e now RF_SLOT_KBD kbd_pkts d else d);
            d2 = (if mouse_present d1 then drain_radio e now RF_SLOT_MOUSE mouse_pkts d1 else d1)
        in rf_rx_watchdog now (check_slot e RF_SLOT_MOUSE now (check_slot e RF_SLOT_KBD now d2)))"

text \<open>\<open>kp\<close> and \<open>mp\<close> tell which radios answered their probe; the result is whether the task runs.\<close>

definition rf_rx_start :: "dongle_env \<Rightarrow> bool \<Rightarrow> bool \<Rightarrow> dongle \<Rightarrow> dongle \<times> bool" where
  "rf_rx_start e kp mp d =
     (let (set_id, io) = rf_pairing_load_set_id_dongle (de_nvs e) (dg_io d) (de_mac e) (dg_nvs d);
          set_id = (if set_id = 0 then rf_compute_set_id (de_mac e) else set_id);
          kcfg = rf_apply_set_id set_id 0x01 board_rf_radio1_cfg;
          mcfg = rf_apply_set_id set_id 0x02 board_rf_radio2_cfg;
          d1 = load_peers e (d\<lparr>dg_io := io, kbd_cfg := kcfg, mouse_cfg := mcfg\<rparr>);
          d2 = d1\<lparr>kbd_present := kp, mouse_present := mp\<rparr>;
          d3 = (if kp then tune_kbd (rc_channel kcfg) (rf_address kcfg) d2 else d2);
          d4 = (if mp then tune_mouse (rc_channel mcfg) (rf_address mcfg) d3 else d3)
      in (d4, kp \<or> mp))"

record rf_link_status =
  ls_link_kbd :: bool
  ls_link_mouse :: bool
  ls_age_kbd_ms :: u32
  ls_age_mouse_ms :: u32
  ls_link_q_kbd :: u8
  ls_link_q_mouse :: u8
  ls_radio_kbd_present :: bool
  ls_radio_mouse_present :: bool

definition rf_rx_get_status :: "u32 \<Rightarrow> dongle \<Rightarrow> rf_link_status" where
  "rf_rx_get_status now d =
     (let k = dg_links d ! unat RF_SLOT_KBD; m = dg_links d ! unat RF_SLOT_MOUSE in
      \<lparr>ls_link_kbd = sl_up k, ls_link_mouse = sl_up m, ls_age_kbd_ms = now - sl_last_rx_ms k,
       ls_age_mouse_ms = now - sl_last_rx_ms m, ls_link_q_kbd = dg_link_q d ! unat RF_SLOT_KBD,
       ls_link_q_mouse = dg_link_q d ! unat RF_SLOT_MOUSE, ls_radio_kbd_present = kbd_present d,
       ls_radio_mouse_present = mouse_present d\<rparr>)"

definition rf_rx_copy_peer_macs :: "dongle \<Rightarrow> bytes \<times> bytes" where
  "rf_rx_copy_peer_macs d = (pair_mac_left d, pair_mac_right d)"


section \<open>Pairing agrees on an address\<close>

lemma decode_ack:
  assumes "length (de_mac e) = 6"
  shows "rf_decode_pair_ack (pair_ack_bytes e slot) =
    Some \<lparr>pa_set_id = rf_compute_set_id (de_mac e), pa_mac = de_mac e, pa_slot = slot\<rparr>"
  using assms by (simp add: pair_ack_bytes_def pair_ack_pkt.dec_enc_exact wf_pair_ack_def)

text \<open>C22: both ends of a pairing end up on the same air. If a device stores the acknowledgement the
  dongle sent it and, after its restart, applies what it loads to its own factory
  configuration, its address and channel are those the dongle tunes the
  radio of that slot to when the pairing window closes.\<close>

theorem pairing_agrees:
  assumes "length (de_mac e) = 6" "slot \<in> {1, 2}" "pair_paired_count d > 0" "kbd_present d" "mouse_present d"
    and "rf_decode_pair_ack (pair_ack_bytes e slot) = Some ack"
    and "rf_pairing_save_half rc io (pa_set_id ack) (pa_slot ack) (pa_mac ack) flash = (flash', True, io')"
    and "fst (rf_pairing_load_set_id_half (\<lambda>_. NvsOk) io2 fallback flash') = (set_id, sl)"
    and "rf_apply_set_id set_id sl factory = cfg"
  shows "(rc_channel cfg, rf_address cfg) =
    (if slot = 1 then kbd_tuned (rf_rx_apply_paired_config e d) else mouse_tuned (rf_rx_apply_paired_config e d))"
proof -
  let ?id = "rf_compute_set_id (de_mac e)"
  have ack: "pa_set_id ack = ?id" "pa_slot ack = slot"
    using assms(6) by (auto simp: decode_ack [OF assms(1)])
  have "\<not> unpaired_id ?id" by (rule compute_set_id_paired)
  from save_half_load [OF assms(7), of io2 fallback, unfolded ack, OF this assms(2)] assms(8)
  have "set_id = ?id" "sl = slot" by simp_all
  then have cfg: "cfg = rf_apply_set_id ?id slot factory" using assms(9) by simp
  have same: "rf_address (rf_apply_set_id ?id slot c) = rf_address (rf_apply_set_id ?id slot c')"
    "rc_channel (rf_apply_set_id ?id slot c) = rc_channel (rf_apply_set_id ?id slot c')" for c c'
    using apply_paired [OF compute_set_id_paired]
    by (simp_all add: word_unat_eq_iff)
  show ?thesis
    using assms(2,3,5) same
    by (auto simp: cfg rf_rx_apply_paired_config_def Let_def tune_kbd_def tune_mouse_def)
qed

definition demo_env :: dongle_env where
  "demo_env = \<lparr>de_nvs = (\<lambda>_. NvsOk), de_usb = (\<lambda>_. True), de_mac = [1, 2, 3, 4, 5, 6]\<rparr>"

definition demo_dongle :: "u8 \<Rightarrow> dongle" where
  "demo_dongle n = (dongle_zero (\<lambda>_. None))\<lparr>kbd_present := True, mouse_present := True, pair_paired_count := n\<rparr>"

theorem pairing_agrees_witness:
  "\<exists>ack flash' io'. rf_decode_pair_ack (pair_ack_bytes demo_env 2) = Some ack \<and>
     rf_pairing_save_half (\<lambda>_. NvsOk) 0 (pa_set_id ack) (pa_slot ack) (pa_mac ack) (\<lambda>_. None) = (flash', True, io') \<and>
     (let (id, sl) = fst (rf_pairing_load_set_id_half (\<lambda>_. NvsOk) 0 2 flash');
          cfg = rf_apply_set_id id sl board_rf_radio1_cfg
      in (rc_channel cfg, rf_address cfg) = mouse_tuned (rf_rx_apply_paired_config demo_env (demo_dongle 1)))"
proof -
  let ?ack = "\<lparr>pa_set_id = rf_compute_set_id (de_mac demo_env), pa_mac = de_mac demo_env, pa_slot = 2\<rparr>"
  have ack: "rf_decode_pair_ack (pair_ack_bytes demo_env 2) = Some ?ack"
    by (rule decode_ack) (simp add: demo_env_def)
  obtain flash' io' where s: "rf_pairing_save_half (\<lambda>_. NvsOk) 0 (pa_set_id ?ack) (pa_slot ?ack) (pa_mac ?ack)
      (\<lambda>_. None) = (flash', True, io')"
    by (simp add: rf_pairing_save_half_def nvs_session_def)
  obtain id sl where l: "fst (rf_pairing_load_set_id_half (\<lambda>_. NvsOk) 0 2 flash') = (id, sl)" by fastforce
  have "(rc_channel (rf_apply_set_id id sl board_rf_radio1_cfg), rf_address (rf_apply_set_id id sl board_rf_radio1_cfg)) =
      (if (2 :: u8) = 1 then kbd_tuned (rf_rx_apply_paired_config demo_env (demo_dongle 1))
       else mouse_tuned (rf_rx_apply_paired_config demo_env (demo_dongle 1)))"
    by (rule pairing_agrees [OF _ _ _ _ _ ack s l refl])
       (simp_all add: demo_env_def demo_dongle_def)
  with ack s l show ?thesis by (auto simp: Let_def)
qed

section \<open>Acknowledged means stored\<close>

lemma save_new_peer_cases:
  assumes "rf_pairing_save_peer_dongle (de_nvs e) (dg_io d) slot mac (pair_paired_count d + 1) (dg_nvs d) =
      (flash, ok, io)"
  shows "save_new_peer e slot mac d =
     (if ok then send_pair_ack e slot
         ((if slot = 0x01 then d\<lparr>dg_nvs := flash, dg_io := io, pair_mac_left := mac\<rparr>
           else d\<lparr>dg_nvs := flash, dg_io := io, pair_mac_right := mac\<rparr>)
             \<lparr>pair_paired_count := pair_paired_count d + 1\<rparr>)
      else d\<lparr>dg_nvs := flash, dg_io := io\<rparr>)"
  using assms by (simp add: save_new_peer_def Let_def)

lemma save_peer_flash:
  assumes "rf_pairing_save_peer_dongle rc io slot mac n flash = (flash', True, io')"
  shows "flash' = flash(peer_key slot \<mapsto> NvBlob mac, ''paired_count'' \<mapsto> NvU8 n)"
  using session_ok [OF assms [unfolded rf_pairing_save_peer_dongle_def]] by simp

text \<open>No phantom pairing. When the dongle answers the request of a device it did not know, the
  address of the device is in flash under the key of the very slot the answer assigns, the stored
  counter is the new one and both equal what the dongle remembers; when the flash refuses, no answer is sent and
  nothing is remembered.\<close>

theorem pairing_ack_means_stored:
  assumes "rf_decode_pair_req buf = Some (mac, declared)"
    and "rf_pairing_match_slot mac (pair_mac_left d) (pair_mac_right d) = None"
    and "pair_packet e buf d = d'"
  shows "(dg_acks d' = dg_acks d \<and> pair_mac_left d' = pair_mac_left d \<and> pair_mac_right d' = pair_mac_right d \<and>
            pair_paired_count d' = pair_paired_count d) \<or>
         (\<exists>slot. dg_acks d' = dg_acks d @ [pair_ack_bytes e slot] \<and>
            dg_nvs d' (peer_key slot) = Some (NvBlob mac) \<and>
            dg_nvs d' ''paired_count'' = Some (NvU8 (pair_paired_count d + 1)) \<and>
            pair_paired_count d' = pair_paired_count d + 1 \<and>
            (if slot = 1 then pair_mac_left d' else pair_mac_right d') = mac)"
proof (cases "rf_pairing_resolve_slot declared (pair_paired_count d)")
  case None
  with assms show ?thesis by (auto simp: pair_packet_def)
next
  case (Some slot)
  then have d': "d' = save_new_peer e slot mac d" using assms by (simp add: pair_packet_def)
  obtain flash ok io where s: "rf_pairing_save_peer_dongle (de_nvs e) (dg_io d) slot mac
      (pair_paired_count d + 1) (dg_nvs d) = (flash, ok, io)" by (metis prod_cases3)
  show ?thesis
  proof (cases ok)
    case False
    then show ?thesis by (simp add: d' save_new_peer_cases [OF s])
  next
    case True
    with s have "flash = (dg_nvs d)(peer_key slot \<mapsto> NvBlob mac, ''paired_count'' \<mapsto> NvU8 (pair_paired_count d + 1))"
      by (intro save_peer_flash) simp
    moreover have "d' = send_pair_ack e slot
         ((if slot = 0x01 then d\<lparr>dg_nvs := flash, dg_io := io, pair_mac_left := mac\<rparr>
           else d\<lparr>dg_nvs := flash, dg_io := io, pair_mac_right := mac\<rparr>)
             \<lparr>pair_paired_count := pair_paired_count d + 1\<rparr>)"
      using True by (simp only: d' save_new_peer_cases [OF s] if_True)
    ultimately show ?thesis
      by (intro disjI2 exI [of _ slot]) (simp add: send_pair_ack_def tune_kbd_def peer_key_def)
  qed
qed

theorem pairing_ack_means_stored_witness:
  "\<exists>d'. pair_packet demo_env (rf_encode_pair_req [9, 8, 7, 6, 5, 4] 2) (demo_dongle 0) = d' \<and>
     ((dg_acks d' = [] \<and> pair_mac_left d' = replicate 6 0 \<and> pair_mac_right d' = replicate 6 0 \<and>
       pair_paired_count d' = 0) \<or>
      (\<exists>slot. dg_acks d' = [pair_ack_bytes demo_env slot] \<and> dg_nvs d' (peer_key slot) = Some (NvBlob [9, 8, 7, 6, 5, 4]) \<and>
        dg_nvs d' ''paired_count'' = Some (NvU8 1) \<and> pair_paired_count d' = 1 \<and>
        (if slot = 1 then pair_mac_left d' else pair_mac_right d') = [9, 8, 7, 6, 5, 4]))"
  using pairing_ack_means_stored [of "rf_encode_pair_req [9, 8, 7, 6, 5, 4] 2" "[9, 8, 7, 6, 5, 4]" 2 "demo_dongle 0" demo_env]
  by (simp add: demo_dongle_def dongle_zero_def rf_pairing_match_slot_def mac_is_zero_def
      rf_decode_pair_req_def rf_encode_pair_req_def rf_packet_type_def PKT_TYPE_PAIR_REQ_def)



section \<open>Relaying and releasing\<close>

fun as_report :: "rf_hid \<Rightarrow> hid_packet" where
  "as_report (HidKbd m kb) = KbReport m kb"
| "as_report (HidMouse b x y w) = MouseReport (b, x, y, w)"

definition usb_alive :: "dongle_env \<Rightarrow> bool" where
  "usb_alive e \<longleftrightarrow> de_usb e = (\<lambda>_. True)"

lemma send_alive: "usb_alive e \<Longrightarrow> dongle_send e r d = d\<lparr>dg_sent := dg_sent d @ [r], dg_io := dg_io d + 1\<rparr>"
  by (simp add: usb_alive_def dongle_send_def)

lemma link_rx_keeps [simp]:
  "dg_sent (link_rx now slot d) = dg_sent d" "pairing_mode (link_rx now slot d) = pairing_mode d"
  "mouse_present (link_rx now slot d) = mouse_present d" "length (dg_links (link_rx now slot d)) = length (dg_links d)"
  by (simp_all add: link_rx_def)

lemma drain_hid:
  assumes "usb_alive e" "wf_hid h"
  shows "drain_packet e now slot (rf_encode_hid h) d =
    (link_rx now slot d)\<lparr>dg_sent := dg_sent d @ [as_report h], dg_io := dg_io d + 1\<rparr>"
proof -
  have "rf_decode_hidreport (rf_encode_hid h) = Some h" "rf_packet_type (rf_encode_hid h) = PKT_TYPE_HIDREPORT"
    using hid_pkt.dec_enc_exact [OF assms(2)] hid_pkt.enc_type [OF assms(2), of "[]"] by simp_all
  then show ?thesis
    by (cases h) (simp_all add: drain_packet_def Let_def send_alive [OF assms(1)] link_rx_def pkt_consts)
qed

lemma encode_hid_ne: "rf_encode_hid h \<noteq> []"
  by (cases h) (simp_all add: rf_encode_hidreport_kbd_def rf_encode_hidreport_mouse_def)

lemma drain_hids:
  assumes "usb_alive e"
  shows "\<forall>h\<in>set hs. wf_hid h \<Longrightarrow> dg_sent (drain_radio e now slot (map rf_encode_hid hs) d) = dg_sent d @ map as_report hs"
  by (induction hs arbitrary: d) (simp_all add: drain_hid [OF assms] encode_hid_ne)

lemma drain_frame:
  "length (dg_links (drain_packet e now slot buf d)) = length (dg_links d)"
  "mouse_present (drain_packet e now slot buf d) = mouse_present d"
  "i \<noteq> unat slot \<Longrightarrow> dg_links (drain_packet e now slot buf d) ! i = dg_links d ! i"
  "unat slot < length (dg_links d) \<Longrightarrow>
     dg_links (drain_packet e now slot buf d) ! unat slot = \<lparr>sl_last_rx_ms = now, sl_up = True\<rparr>"
  by (auto simp: drain_packet_def Let_def link_rx_def rf_slot_link_rx_def cache_battery_def
      dongle_cache_set_battery_def set_link_q_def dongle_send_def split: option.splits rf_hid.splits)

lemma drain_all_frame:
  "length (dg_links (drain_radio e now slot bufs d)) = length (dg_links d)"
  "mouse_present (drain_radio e now slot bufs d) = mouse_present d"
  "i \<noteq> unat slot \<Longrightarrow> dg_links (drain_radio e now slot bufs d) ! i = dg_links d ! i"
  by (induction e now slot bufs d rule: drain_radio.induct) (simp_all add: drain_frame)

lemma drain_refreshes:
  "bufs \<noteq> [] \<Longrightarrow> hd bufs \<noteq> [] \<Longrightarrow> unat slot < length (dg_links d) \<Longrightarrow>
     dg_links (drain_radio e now slot bufs d) ! unat slot = \<lparr>sl_last_rx_ms = now, sl_up = True\<rparr>"
proof (induction e now slot bufs d rule: drain_radio.induct)
  case (2 e now slot buf bufs d)
  show ?case
  proof (cases bufs)
    case Nil
    with 2 show ?thesis by (simp add: drain_frame)
  next
    case (Cons b bs)
    with 2 show ?thesis by (cases "b = []") (simp_all add: drain_frame)
  qed
qed simp

definition slot_lost :: "u32 \<Rightarrow> rf_slot_link \<Rightarrow> bool" where
  "slot_lost now l \<longleftrightarrow> sl_up l \<and> now - sl_last_rx_ms l \<ge> LINK_LOST_MS"

lemma check_slot_alive:
  assumes "usb_alive e"
  shows "check_slot e slot now d =
    (let d' = d\<lparr>dg_links := (dg_links d)[unat slot :=
          if slot_lost now (dg_links d ! unat slot) then (dg_links d ! unat slot)\<lparr>sl_up := False\<rparr>
          else dg_links d ! unat slot]\<rparr>
     in if slot_lost now (dg_links d ! unat slot)
        then d'\<lparr>dg_sent := dg_sent d @ [if slot = RF_SLOT_MOUSE then MouseReport (0, 0, 0, 0)
               else KbReport 0 (replicate 6 0)], dg_io := dg_io d + 1\<rparr>
        else d')"
  by (auto simp: check_slot_def rf_slot_link_check_def slot_lost_def apply_safe_action_def
      send_alive [OF assms] Let_def not_less)

lemma watchdog_frame [simp]:
  "dg_sent (rf_rx_watchdog now d) = dg_sent d" "dg_links (rf_rx_watchdog now d) = dg_links d"
  "pairing_mode (rf_rx_watchdog now d) = pairing_mode d"
  by (simp_all add: rf_rx_watchdog_def rearm_mouse_if_silent_def rearm_kbd_if_silent_def tune_kbd_def
      tune_mouse_def Let_def)

lemma slot_consts [simp]: "unat RF_SLOT_KBD = 0" "unat RF_SLOT_MOUSE = 1" "RF_SLOT_KBD \<noteq> RF_SLOT_MOUSE"
  by (simp_all add: RF_SLOT_KBD_def RF_SLOT_MOUSE_def)

text \<open>Both checks of a turn.\<close>

lemma checks_sent:
  assumes "usb_alive e" "length (dg_links d) = 2"
  shows "dg_sent (check_slot e RF_SLOT_MOUSE now (check_slot e RF_SLOT_KBD now d)) = dg_sent d
      @ (if slot_lost now (dg_links d ! 0) then [KbReport 0 (replicate 6 0)] else [])
      @ (if slot_lost now (dg_links d ! 1) then [MouseReport (0, 0, 0, 0)] else [])"
  using assms(2) by (auto simp: check_slot_alive [OF assms(1)] Let_def simp del: replicate.simps)

lemma checks_links:
  assumes "usb_alive e" "length (dg_links d) = 2" "i < 2"
  shows "dg_links (check_slot e RF_SLOT_MOUSE now (check_slot e RF_SLOT_KBD now d)) ! i =
      (if slot_lost now (dg_links d ! i) then (dg_links d ! i)\<lparr>sl_up := False\<rparr> else dg_links d ! i)"
proof -
  have "i = 0 \<or> i = 1" using assms(3) by auto
  then show ?thesis
    using assms(2) by (auto simp: check_slot_alive [OF assms(1)] Let_def)
qed


text \<open>C18: what a turn of the relay sends. With the window closed and USB taking reports, one turn
  sends the reports the keyboard radio holds in their order, then those of the mouse radio, then
  an empty keyboard report exactly if the keyboard has been silent for 2.5 s and a zero mouse
  report exactly if the mouse has: the loss of one device releases nothing of the other, and
  a device that just sent anything is not lost.\<close>

theorem dongle_turn_sends:
  assumes "usb_alive e" "\<not> pairing_mode d" "kbd_present d" "mouse_present d" "length (dg_links d) = 2"
    and "\<forall>h\<in>set ks. wf_hid h" "\<forall>h\<in>set ms. wf_hid h"
  shows "dg_sent (rf_rx_turn e now (map rf_encode_hid ks) (map rf_encode_hid ms) d) =
    dg_sent d @ map as_report ks @ map as_report ms
      @ (if ks = [] \<and> slot_lost now (dg_links d ! 0) then [KbReport 0 (replicate 6 0)] else [])
      @ (if ms = [] \<and> slot_lost now (dg_links d ! 1) then [MouseReport (0, 0, 0, 0)] else [])"
proof -
  let ?d1 = "drain_radio e now RF_SLOT_KBD (map rf_encode_hid ks) d"
  let ?d2 = "drain_radio e now RF_SLOT_MOUSE (map rf_encode_hid ms) ?d1"
  have fresh: "\<not> slot_lost now \<lparr>sl_last_rx_ms = now, sl_up = True\<rparr>"
    by (simp add: slot_lost_def LINK_LOST_MS_def)
  have hd: "hd (map rf_encode_hid hs) \<noteq> []" if "hs \<noteq> []" for hs
    using that by (simp add: hd_map encode_hid_ne)
  have l0: "slot_lost now (dg_links ?d1 ! 0) \<longleftrightarrow> ks = [] \<and> slot_lost now (dg_links d ! 0)"
    using drain_refreshes [of "map rf_encode_hid ks" RF_SLOT_KBD d e now] hd [of ks] fresh assms(5)
    by (cases "ks = []") (simp_all add: drain_all_frame)
  have l1: "slot_lost now (dg_links ?d2 ! 1) \<longleftrightarrow> ms = [] \<and> slot_lost now (dg_links d ! 1)"
    using drain_refreshes [of "map rf_encode_hid ms" RF_SLOT_MOUSE ?d1 e now] hd [of ms] fresh assms(5)
    by (cases "ms = []") (simp_all add: drain_all_frame)
  have "dg_sent (rf_rx_turn e now (map rf_encode_hid ks) (map rf_encode_hid ms) d) =
      dg_sent (check_slot e RF_SLOT_MOUSE now (check_slot e RF_SLOT_KBD now ?d2))"
    using assms(2-4) by (simp add: rf_rx_turn_def drain_all_frame Let_def)
  also have "\<dots> = dg_sent ?d2
      @ (if ks = [] \<and> slot_lost now (dg_links d ! 0) then [KbReport 0 (replicate 6 0)] else [])
      @ (if ms = [] \<and> slot_lost now (dg_links d ! 1) then [MouseReport (0, 0, 0, 0)] else [])"
    using assms(5) by (simp add: checks_sent [OF assms(1)] drain_all_frame l0 l1 [simplified])
  finally show ?thesis
    using drain_hids [OF assms(1,6)] drain_hids [OF assms(1,7)] by simp
qed

theorem dongle_turn_sends_witness:
  "dg_sent (rf_rx_turn demo_env 5000 [] (map rf_encode_hid [HidMouse 1 2 3 4])
      ((demo_dongle 2)\<lparr>dg_links := [\<lparr>sl_last_rx_ms = 2500, sl_up = True\<rparr>, \<lparr>sl_last_rx_ms = 2500, sl_up = True\<rparr>]\<rparr>)) =
    [MouseReport (1, 2, 3, 4), KbReport 0 (replicate 6 0)]"
  using dongle_turn_sends [of demo_env "(demo_dongle 2)\<lparr>dg_links := [\<lparr>sl_last_rx_ms = 2500, sl_up = True\<rparr>,
      \<lparr>sl_last_rx_ms = 2500, sl_up = True\<rparr>]\<rparr>" "[]" "[HidMouse 1 2 3 4]" 5000]
  by (simp add: usb_alive_def demo_env_def demo_dongle_def dongle_zero_def slot_lost_def LINK_LOST_MS_def
      del: replicate.simps)



section \<open>The pairing window\<close>

lemma send_pair_ack_frame [simp]:
  "dg_sent (send_pair_ack e slot d) = dg_sent d" "pairing_mode (send_pair_ack e slot d) = pairing_mode d"
  "pair_deadline_ms (send_pair_ack e slot d) = pair_deadline_ms d" "dg_links (send_pair_ack e slot d) = dg_links d"
  by (simp_all add: send_pair_ack_def tune_kbd_def)

lemma pair_packet_frame:
  "dg_sent (pair_packet e buf d) = dg_sent d" "pairing_mode (pair_packet e buf d) = pairing_mode d"
  "pair_deadline_ms (pair_packet e buf d) = pair_deadline_ms d" "dg_links (pair_packet e buf d) = dg_links d"
  by (auto simp: pair_packet_def save_new_peer_def Let_def split: option.splits prod.splits)

lemma pair_packets_frame:
  "dg_sent (pair_packets e bufs d) = dg_sent d" "pairing_mode (pair_packets e bufs d) = pairing_mode d"
  "pair_deadline_ms (pair_packets e bufs d) = pair_deadline_ms d" "dg_links (pair_packets e bufs d) = dg_links d"
  by (induction e bufs d rule: pair_packets.induct) (simp_all add: pair_packet_frame)

lemma apply_config_frame:
  "dg_sent (rf_rx_apply_paired_config e d) = dg_sent d" "dg_links (rf_rx_apply_paired_config e d) = dg_links d"
  by (simp_all add: rf_rx_apply_paired_config_def Let_def tune_kbd_def tune_mouse_def)

lemma pairing_turn:
  assumes "pairing_mode d"
  shows "dg_sent (rf_rx_turn e now ks ms d) = dg_sent d" "dg_links (rf_rx_turn e now ks ms d) = dg_links d"
  using assms by (simp_all add: rf_rx_turn_def rf_rx_pairing_service_def pair_packets_frame apply_config_frame)

definition turns :: "dongle_env \<Rightarrow> (u32 \<times> bytes list \<times> bytes list) list \<Rightarrow> dongle \<Rightarrow> dongle" where
  "turns e ts d = fold (\<lambda>(now, ks, ms) d. rf_rx_turn e now ks ms d) ts d"

lemma turns_simps [simp]:
  "turns e [] d = d" "turns e ((now, ks, ms) # ts) d = turns e ts (rf_rx_turn e now ks ms d)"
  by (simp_all add: turns_def)

text \<open>An open pairing window holds the keys down. Until the window closes no report is sent at
  all: what the devices send is not relayed and a device that has gone silent is not released, so a
  key that was down when the window opened stays down on the host for as long as the window is open,
  up to two minutes.\<close>

theorem pairing_window_mutes:
  assumes "\<And>i. i < length ts \<Longrightarrow> pairing_mode (turns e (take i ts) d)"
  shows "dg_sent (turns e ts d) = dg_sent d \<and> dg_links (turns e ts d) = dg_links d"
  using assms
proof (induction ts arbitrary: d)
  case (Cons t ts)
  obtain now ks ms where t: "t = (now, ks, ms)" by (cases t)
  have "pairing_mode (turns e (take i ts) (rf_rx_turn e now ks ms d))" if "i < length ts" for i
    using Cons.prems [of "Suc i"] that t by simp
  from Cons.IH [OF this] Cons.prems [of 0] t show ?case by (simp add: pairing_turn)
qed simp

definition held_dongle :: dongle where
  "held_dongle = (demo_dongle 0)\<lparr>dg_links := [\<lparr>sl_last_rx_ms = 100, sl_up = True\<rparr>, \<lparr>sl_last_rx_ms = 0, sl_up = False\<rparr>],
     dg_sent := [KbReport 8 [0, 0, 0, 0, 0, 0]], pairing_mode := True, pair_deadline_ms := 120100\<rparr>"

theorem pairing_window_mutes_witness:
  "dg_sent (turns demo_env [(60000, [], []), (119000, [], [])] held_dongle) = [KbReport 8 [0, 0, 0, 0, 0, 0]]"
proof -
  have "pairing_mode (turns demo_env (take i [(60000, [], []), (119000, [], [])]) held_dongle)" if "i < 2" for i
  proof -
    have "i = 0 \<or> i = 1" using that by auto
    then show ?thesis
      by (auto simp: rf_rx_turn_def rf_rx_pairing_service_def held_dongle_def demo_dongle_def dongle_zero_def
          rf_rx_apply_paired_config_def tune_kbd_def tune_mouse_def Let_def)
  qed
  then show ?thesis
    using pairing_window_mutes [of "[(60000, [], []), (119000, [], [])]" demo_env held_dongle]
    by (simp add: held_dongle_def numeral_2_eq_2)
qed

text \<open>A keyboard that declares no slot takes the place of the mouse. On a dongle that knows nobody,
  let the mouse pair first (slot 2), then a keyboard whose board declares suffix 3: the keyboard is
  given slot 2 as well, its address overwrites that of the mouse, slot 1 stays empty,
  and the counter says two devices are paired, which closes the window.\<close>

theorem pairing_keyboard_takes_mouse_slot:
  assumes "de_nvs e = (\<lambda>_. NvsOk)" "length m = 6" "length k = 6" "\<not> mac_eq k m"
    and "pair_mac_left d = replicate 6 0" "pair_mac_right d = replicate 6 0" "pair_paired_count d = 0"
    and "d' = pair_packets e [rf_encode_pair_req m 2, rf_encode_pair_req k 3] d"
  shows "dg_acks d' = dg_acks d @ [pair_ack_bytes e 2, pair_ack_bytes e 2] \<and>
         rf_rx_copy_peer_macs d' = (replicate 6 0, k) \<and> dg_nvs d' ''mac_right'' = Some (NvBlob k) \<and>
         dg_nvs d' ''mac_left'' = dg_nvs d ''mac_left'' \<and> pair_paired_count d' = 2 \<and>
         (\<forall>now pkts. snd (rf_rx_pairing_service e now pkts d') = False)"
proof -
  have req: "rf_decode_pair_req (rf_encode_pair_req a s) = Some (a, s)" "rf_encode_pair_req a s \<noteq> []"
    if "length a = 6" for a s
    using len6_cases [OF that]
    by (auto simp: rf_decode_pair_req_def rf_encode_pair_req_def rf_packet_type_def PKT_TYPE_PAIR_REQ_def)
  have z: "mac_is_zero (replicate 6 0)" by (simp add: mac_is_zero_def)
  obtain io1 where s1: "rf_pairing_save_peer_dongle (\<lambda>_. NvsOk) (dg_io d) 2 m 1 (dg_nvs d) =
      ((dg_nvs d)(''mac_right'' \<mapsto> NvBlob m, ''paired_count'' \<mapsto> NvU8 1), True, io1)"
    by (simp add: rf_pairing_save_peer_dongle_def nvs_session_def peer_key_def)
  let ?d1 = "send_pair_ack e 2 (d\<lparr>dg_nvs := (dg_nvs d)(''mac_right'' \<mapsto> NvBlob m, ''paired_count'' \<mapsto> NvU8 1),
      dg_io := io1, pair_mac_right := m, pair_paired_count := 1\<rparr>)"
  have p1: "pair_packet e (rf_encode_pair_req m 2) d = ?d1"
    using assms(1,5-7) z s1
    by (simp add: pair_packet_def req [OF assms(2)] rf_pairing_match_slot_def rf_pairing_resolve_slot_def
        save_new_peer_def Let_def)
  obtain io2 where s2: "rf_pairing_save_peer_dongle (\<lambda>_. NvsOk) (dg_io ?d1) 2 k 2 (dg_nvs ?d1) =
      ((dg_nvs ?d1)(''mac_right'' \<mapsto> NvBlob k, ''paired_count'' \<mapsto> NvU8 2), True, io2)"
    by (simp add: rf_pairing_save_peer_dongle_def nvs_session_def peer_key_def)
  let ?d2 = "send_pair_ack e 2 (?d1\<lparr>dg_nvs := (dg_nvs ?d1)(''mac_right'' \<mapsto> NvBlob k, ''paired_count'' \<mapsto> NvU8 2),
      dg_io := io2, pair_mac_right := k, pair_paired_count := 2\<rparr>)"
  have d1: "pair_mac_left ?d1 = replicate 6 0" "pair_mac_right ?d1 = m" "pair_paired_count ?d1 = 1"
    using assms(5) by (simp_all add: send_pair_ack_def tune_kbd_def)
  have "pair_packet e (rf_encode_pair_req k 3) ?d1 = save_new_peer e 2 k ?d1"
    using assms(4) z
    by (simp add: pair_packet_def req [OF assms(3)] d1 rf_pairing_match_slot_def rf_pairing_resolve_slot_def
        rf_pairing_assign_slot_def)
  also have "\<dots> = ?d2" using assms(1) s2 by (simp add: save_new_peer_def d1 Let_def)
  finally have "d' = ?d2" using assms(2,3,8) p1 by (simp add: req)
  then show ?thesis
    using assms(5)
    by (simp add: send_pair_ack_def tune_kbd_def rf_rx_copy_peer_macs_def rf_rx_pairing_service_def)
qed



lemma demo_fields:
  "de_nvs demo_env = (\<lambda>_. NvsOk)" "pair_mac_left (demo_dongle n) = replicate 6 0"
  "pair_mac_right (demo_dongle n) = replicate 6 0" "pair_paired_count (demo_dongle n) = n"
  by (simp_all add: demo_env_def demo_dongle_def dongle_zero_def)

theorem pairing_keyboard_takes_mouse_slot_witness:
  "\<exists>d'. d' = pair_packets demo_env [rf_encode_pair_req [1, 1, 1, 1, 1, 1] 2, rf_encode_pair_req [2, 2, 2, 2, 2, 2] 3]
         (demo_dongle 0) \<and>
     rf_rx_copy_peer_macs d' = (replicate 6 0, [2, 2, 2, 2, 2, 2]) \<and> pair_paired_count d' = 2"
proof -
  have ne: "\<not> mac_eq [2, 2, 2, 2, 2, 2] [1, 1, 1, 1, 1, 1]"
    unfolding mac_eq_def by (auto intro!: exI [of _ 0])
  show ?thesis
  using pairing_keyboard_takes_mouse_slot [of demo_env "[1, 1, 1, 1, 1, 1]" "[2, 2, 2, 2, 2, 2]" "demo_dongle 0" _, OF _ _ _ _ _ _ _ refl]
  by (simp add: demo_fields ne del: pair_packets.simps replicate.simps)
qed

text \<open>A window that closes on nobody changes the address. A dongle with an empty flash starts on the
  address derived from its own identifier, where devices paired to it earlier still reach it; opening a
  pairing window that ends without a pairing moves the keyboard radio to the factory address and channel, where
  they do not, until the next restart.\<close>

theorem pairing_timeout_moves_radio:
  assumes "rf_rx_start e True mp (dongle_zero (\<lambda>_. None)) = (d1, ok)"
    and "rf_rx_pair_start e t0 reset d1 = (d2, out)"
    and "t0 + RF_PAIR_WINDOW_MS \<le> now" "rf_rx_pairing_service e now pkts d2 = (d3, still)"
  shows "kbd_tuned d1 = (let cfg = rf_apply_set_id (rf_compute_set_id (de_mac e)) 0x01 board_rf_radio1_cfg
                         in (rc_channel cfg, rf_address cfg)) \<and>
         kbd_tuned d3 = (0x4C, [0x4B, 0x61, 0x53, 0x65, 0x01]) \<and> snd (kbd_tuned d3) \<noteq> snd (kbd_tuned d1)"
proof -
  have id: "fst (rf_pairing_load_set_id_dongle (de_nvs e) io mac (\<lambda>_. None)) = 0" for io mac
    by (simp add: rf_pairing_load_set_id_dongle_def get_u8_def split: nvs_rc.splits)
  have peers: "\<exists>io'. rf_pairing_load_peers_dongle (de_nvs e) io flash = ((replicate 6 0, replicate 6 0, 0), io')"
    if "flash ''mac_left'' = None" "flash ''mac_right'' = None"
      "flash ''paired_count'' = None \<or> flash ''paired_count'' = Some (NvU8 0)" for io and flash :: kv
    using that by (auto simp: rf_pairing_load_peers_dongle_def get_mac_def get_u8_def Let_def split: nvs_rc.splits)
  let ?cfg = "rf_apply_set_id (rf_compute_set_id (de_mac e)) 0x01 board_rf_radio1_cfg"
  have d1: "kbd_tuned d1 = (rc_channel ?cfg, rf_address ?cfg)" "kbd_present d1" "dg_nvs d1 = (\<lambda>_. None)"
    using assms(1) id
    by (auto simp: rf_rx_start_def Let_def load_peers_def tune_kbd_def tune_mouse_def dongle_zero_def split_beta
        split: if_splits)
  have d2: "pair_paired_count d2 = 0" "pair_deadline_ms d2 = t0 + RF_PAIR_WINDOW_MS"
  proof -
    obtain flash r io where res: "rf_pairing_reset_dongle (de_nvs e) (dg_io d1) (\<lambda>_. None) = (flash, r, io)"
      by (metis prod_cases3)
    have fl: "flash ''mac_left'' = None" "flash ''mac_right'' = None"
      "flash ''paired_count'' = None \<or> flash ''paired_count'' = Some (NvU8 0)"
      using res by (auto simp: rf_pairing_reset_dongle_def nvs_erase_def Let_def split: nvs_rc.splits if_splits)
    show "pair_paired_count d2 = 0" "pair_deadline_ms d2 = t0 + RF_PAIR_WINDOW_MS"
      using assms(2) d1 res peers [OF fl, of io] peers [of "\<lambda>_. None" "dg_io d1"]
      by (auto simp: rf_rx_pair_start_def Let_def load_peers_def tune_kbd_def split: if_splits)
  qed
  have d3: "kbd_tuned d3 = (0x4C, [0x4B, 0x61, 0x53, 0x65, 0x01])"
    using assms(3,4) d2
    by (auto simp: rf_rx_pairing_service_def rf_rx_apply_paired_config_def rf_apply_set_id_def rf_derive_addr_def
        unpaired_id_def board_rf_radio1_cfg_def tune_kbd_def tune_mouse_def rf_address_def Let_def split: if_splits)
  show ?thesis
    using d1(1) d3 apply_paired(1) [OF compute_set_id_paired, of "de_mac e" 1 board_rf_radio1_cfg]
    by (simp add: Let_def)
qed

theorem pairing_timeout_moves_radio_witness:
  "\<exists>d1 d2 d3. d1 = fst (rf_rx_start demo_env True True (dongle_zero (\<lambda>_. None))) \<and>
     d2 = fst (rf_rx_pair_start demo_env 1000 0 d1) \<and> d3 = fst (rf_rx_pairing_service demo_env 121000 [] d2) \<and>
     kbd_tuned d3 = (0x4C, [0x4B, 0x61, 0x53, 0x65, 0x01])"
  using pairing_timeout_moves_radio [OF prod.collapse [symmetric] prod.collapse [symmetric] _ prod.collapse [symmetric],
      where ?t0.0 = 1000 and now = 121000 and e = demo_env and mp = True and reset = 0 and pkts = "[]"]
  by (simp add: RF_PAIR_WINDOW_MS_def)

section \<open>Signal quality\<close>

lemma signal_nat:
  assumes "link_up" "unat age < 1500"
  shows "unat (rf_signal_q255 link_up age q) =
    min (255 * (1500 - unat age) div 1500) (255 * (100 - min 100 (unat q)) div 100)"
proof -
  let ?lq = "if q > 100 then 100 else q"
  have lq: "unat ?lq = min 100 (unat q)" by (simp add: word_less_nat_alt)
  then have lq100: "unat ?lq \<le> 100" by simp
  have a: "unat (255 * (1500 - age) div 1500 :: u32) = 255 * (1500 - unat age) div 1500"
    using assms(2) by (simp add: unat_div unat_mult_lem [THEN iffD1] unat_sub word_le_nat_alt)
  have r: "unat (255 * (100 - ucast ?lq) div 100 :: u32) = 255 * (100 - unat ?lq) div 100"
    using lq100 by (simp add: unat_div unat_mult_lem [THEN iffD1] unat_sub word_le_nat_alt unsigned_ucast_eq take_bit_nat_eq_self)
  have "17 * (1500 - unat age) div 100 < 2 ^ 8" "51 * (100 - min 100 (unat q)) div 20 < 2 ^ 8" by simp_all
  then have "take_bit 8 (17 * (1500 - unat age) div 100) = 17 * (1500 - unat age) div 100"
    "take_bit 8 (51 * (100 - min 100 (unat q)) div 20) = 51 * (100 - min 100 (unat q)) div 20"
    by (simp_all only: take_bit_nat_eq_self)
  then show ?thesis
    using assms a r lq
    by (simp add: rf_signal_q255_def Let_def word_le_nat_alt word_less_nat_alt unsigned_ucast_eq)
qed

text \<open>The quality is zero on a link that is down or stale, 255 on a fresh link without
  retransmissions, and never better for an older packet or for more retransmissions.\<close>

theorem signal_monotone:
  assumes "unat age \<le> unat age'" "unat q \<le> unat q'"
  shows "rf_signal_q255 up age' q' \<le> rf_signal_q255 up age q"
proof (cases "up \<and> unat age' < 1500")
  case True
  have "255 * (1500 - unat age') div 1500 \<le> 255 * (1500 - unat age) div 1500"
    using assms(1) by (intro div_le_mono mult_le_mono2 diff_le_mono2)
  moreover have "255 * (100 - min 100 (unat q')) div 100 \<le> 255 * (100 - min 100 (unat q)) div 100"
    using assms(2) by (intro div_le_mono mult_le_mono2 diff_le_mono2 min.mono order_refl)
  moreover have "unat age < 1500" using True assms(1) by simp
  ultimately show ?thesis
    using True unfolding word_le_nat_alt by (subst (1 2) signal_nat) (auto intro: min.coboundedI1 min.coboundedI2)
next
  case False
  then show ?thesis by (auto simp: rf_signal_q255_def word_le_nat_alt not_less)
qed


end
