(* ===== verification/Half_Link.thy ===== *)
theory Half_Link
  imports Key_Behaviour Heartbeat Rf_Pairing
begin

unbundle bit_operations_syntax

text \<open>
  The radio link between the halves of a Niphargus keyboard: \<open>comm/rf/half_link.c\<close> on both sides, the part of
  \<open>input/matrix_scan.c\<close> that sends the right half's matrix and merges it on the left, and
  the left half's turn of the keyboard task. The right half scans only; the left half
  runs the engine. Counters that only feed the log are left out, and so is the excursion
  test build.
\<close>

section \<open>The right half\<close>

record right = kb +
  rl_present :: bool
  rl_seq :: u8
  rl_sent :: "bytes list"

definition RF_CH_HALF_LINK :: u8 where "RF_CH_HALF_LINK = 0x4F"
definition RF_ADDR_HALF_LINK :: u8 where "RF_ADDR_HALF_LINK = 0x03"

definition half_link_cfg :: rf_radio_cfg where
  "half_link_cfg = \<lparr>rc_channel = RF_CH_HALF_LINK, rc_rx_addr = [0x4B, 0x61, 0x53, 0x65],
     rc_addr_suffix = RF_ADDR_HALF_LINK\<rparr>"

text \<open>\<open>ack\<close> is whether the radio of the other half acknowledged the packet.\<close>

definition half_link_tx_matrix :: "bool \<Rightarrow> bytes \<Rightarrow> right \<Rightarrow> right \<times> bool" where
  "half_link_tx_matrix ack bitmap s =
     (if \<not> rl_present s then (s, False)
      else (s \<lparr>rl_seq := rl_seq s + 1,
               rl_sent := rl_sent s @ [rf_encode_heartbeat
                 \<lparr>hb_bitmap = bitmap, hb_batt_dV = 0, hb_link_q = 0, hb_seq = rl_seq s\<rparr>]\<rparr>, ack))"

text \<open>The driver reports an error, or whether the chip answered; then ten empty packets try the link.\<close>

definition half_link_tx_init :: "bool \<Rightarrow> bool \<Rightarrow> (nat \<Rightarrow> bool) \<Rightarrow> right \<Rightarrow> right \<times> bool" where
  "half_link_tx_init ok present acks s =
     (let s1 = s \<lparr>rl_present := present\<rparr> in
      if \<not> ok \<or> \<not> present then (s1, False)
      else (fold (\<lambda>i s. fst (half_link_tx_matrix (acks i) (replicate RF_HALF_BITMAP_BYTES 0) s)) [0..<10] s1, True))"

text \<open>\<open>None\<close> is a write outside the bitmap.\<close>

definition half_bitmap :: "(u8 \<times> u8) list \<Rightarrow> 'a kb_scheme \<Rightarrow> bytes option" where
  "half_bitmap new s =
     fold_opt (\<lambda>k bm. if k \<in> set new then rf_bitmap_set bm (fst k) (snd k) True else Some bm)
       (matrix_positions s) (replicate RF_HALF_BITMAP_BYTES 0)"

definition send_half :: "bool \<Rightarrow> (u8 \<times> u8) list \<Rightarrow> right \<Rightarrow> right" where
  "send_half ack new s =
     (if list_ex (\<lambda>k. (k \<in> set new) \<noteq> (k \<in> set (prev_matrix_state s))) (matrix_positions s)
      then case half_bitmap new s of None \<Rightarrow> s | Some bm \<Rightarrow> fst (half_link_tx_matrix ack bm s)
      else s)"

text \<open>The callback of a board without a display.\<close>

definition right_btn_cb :: "bool \<Rightarrow> int \<Rightarrow> (u8 \<times> u8) list \<Rightarrow> right \<Rightarrow> right" where
  "right_btn_cb ack now keys s =
     (keyboard_btn_cb now keys (send_half ack (filter (in_matrix s) keys) s))
       \<lparr>display_presses := display_presses s\<rparr>"

section \<open>The left half\<close>

record halves = kb +
  hl_present :: bool
  hl_distant :: half_state
  hl_distant_change :: bool
  hl_filled_local :: nat

definition half_link_rx_start :: "bool \<Rightarrow> bool \<Rightarrow> halves \<Rightarrow> halves \<times> bool" where
  "half_link_rx_start ok present s = (s \<lparr>hl_present := present\<rparr>, ok \<and> present)"

definition HALF_SILENCE_MS :: u32 where "HALF_SILENCE_MS = 250"

text \<open>One turn of the receive task: what the radio holds, if anything, and the clock at its two readings.\<close>

definition half_link_rx_turn :: "u32 \<Rightarrow> u32 \<Rightarrow> bytes option \<Rightarrow> halves \<Rightarrow> halves" where
  "half_link_rx_turn t_rx t_check frame s =
     (let s1 = (case frame of None \<Rightarrow> s | Some buf \<Rightarrow>
             case (if buf = [] then None else rf_decode_heartbeat buf) of None \<Rightarrow> s
           | Some h \<Rightarrow>
               let st = half_state_recu (hl_distant s) (hb_bitmap h) t_rx
               in s \<lparr>hl_distant := st,
                     hl_distant_change := hl_distant_change s \<or> hs_bitmap (hl_distant s) \<noteq> hs_bitmap st\<rparr>);
          (st, lost) = half_state_timeout (hl_distant s1) t_check HALF_SILENCE_MS
      in s1 \<lparr>hl_distant := st, hl_distant_change := hl_distant_change s1 \<or> lost\<rparr>)"

definition half_link_remote_pressed :: "halves \<Rightarrow> u8 \<times> u8 \<Rightarrow> bool" where
  "half_link_remote_pressed s k \<longleftrightarrow> half_state_pressed (hl_distant s) (fst k) (snd k) = Some True"

definition half_link_remote_changed :: "halves \<Rightarrow> halves \<times> bool" where
  "half_link_remote_changed s =
     (if \<not> hl_distant_change s then (s, False) else (s \<lparr>hl_distant_change := False\<rparr>, True))"

text \<open>The remote keys go behind the local ones, shifted to the right half of the keymap.\<close>

definition remote_keys :: "halves \<Rightarrow> (u8 \<times> u8) list" where
  "remote_keys s = map (\<lambda>k. (fst k, snd k + word_of_nat (matrix_cols s)))
     (filter (half_link_remote_pressed s) (matrix_positions s))"

definition matrix_apply_remote :: "halves \<Rightarrow> halves" where
  "matrix_apply_remote s =
     (let n = hl_filled_local s; remote = remote_keys s
      in s \<lparr>current_press := fill_press (take n (current_press s) @ remote),
            current_press_stat := take 6 (take n (current_press_stat s) @ map (\<lambda>_. 1) remote @ replicate 6 0)\<rparr>)"

text \<open>The scan callback. The merge is compiled only into a build with a display: \<open>disp\<close> tells
  whether this is one.\<close>

definition left_btn_cb :: "bool \<Rightarrow> int \<Rightarrow> (u8 \<times> u8) list \<Rightarrow> halves \<Rightarrow> halves" where
  "left_btn_cb disp now keys s =
     (let s1 = keyboard_btn_cb now keys s in
      if matrix_test_mode s \<and> \<not> now_ms now - matrix_test_last_activity_ms s > MATRIX_TEST_TIMEOUT_MS then s1
      else if disp
      then matrix_apply_remote (s1 \<lparr>hl_filled_local := length (take 6 (filter (in_matrix s) keys))\<rparr>)
      else s1 \<lparr>display_presses := display_presses s\<rparr>)"

definition remote_cycle :: "turn \<Rightarrow> halves \<Rightarrow> halves" where
  "remote_cycle e s =
     (let (s1, changed) = half_link_remote_changed s in
      if changed then send_report e (tn_now e) (build_keycode_report (tn_now e) (matrix_apply_remote s1))
      else s1)"

definition left_turn :: "turn \<Rightarrow> halves \<Rightarrow> halves" where
  "left_turn e s =
     (let s1 = tap_dance_tick (now_ms (tn_now e)) (tap_hold_tick (now_ms (tn_now e)) s);
          s2 = test_mode_exit (now_ms (tn_now e)) (remote_cycle e s1);
          s3 = leader_cycle e (dance_cycle e (hold_cycle e s2))
      in matrix_cycle e (play_macro e s3))"

text \<open>What happens to the left half.\<close>

datatype left_event = Scan int "(u8 \<times> u8) list" | Air u32 u32 "bytes option" | Turn turn

fun left_step :: "bool \<Rightarrow> left_event \<Rightarrow> halves \<Rightarrow> halves" where
  "left_step disp (Scan now keys) s = left_btn_cb disp now keys s"
| "left_step disp (Air t_rx t_check frame) s = half_link_rx_turn t_rx t_check frame s"
| "left_step disp (Turn e) s = left_turn e s"

definition half_state_zero :: half_state where
  "half_state_zero = \<lparr>hs_bitmap = replicate RF_HALF_BITMAP_BYTES 0, hs_derniere_ms = 0, hs_vivant = False\<rparr>"

definition left_boot :: "nat \<Rightarrow> nat \<Rightarrow> u16 list list list \<Rightarrow> macro list \<Rightarrow> halves" where
  "left_boot rows cols km macros =
     kb.extend (kb_boot rows cols km macros)
       (halves.fields True half_state_zero False 0)"

section \<open>A matrix crosses the air\<close>

lemma matrix_positions_47:
  "matrix_rows s = 4 \<Longrightarrow> matrix_cols s = 7 \<Longrightarrow> matrix_positions s = half_keys"
  unfolding matrix_positions_def half_keys_def by (simp only:) code_simp

lemma half_bitmap_loop:
  assumes "bm_wf bm" "set ks \<subseteq> set half_keys"
  shows "\<exists>bm'. fold_opt (\<lambda>k bm. if k \<in> A then rf_bitmap_set bm (fst k) (snd k) True else Some bm) ks bm = Some bm' \<and>
    bm_wf bm' \<and> (\<forall>k\<in>set half_keys. bm_rd bm' k = (if k \<in> A \<and> k \<in> set ks then Some True else bm_rd bm k))"
  using assms
proof (induction ks arbitrary: bm)
  case (Cons k ks)
  show ?case
  proof (cases "k \<in> A")
    case True
    obtain b where b: "rf_bitmap_set bm (fst k) (snd k) True = Some b" "bm_wf b"
      using half_grid.wr_in [OF Cons.prems(1), of k True] Cons.prems(2) by (auto simp: bm_wr_def)
    have rd: "\<forall>j\<in>set half_keys. bm_rd b j = (if j = k then Some True else bm_rd bm j)"
      using half_grid.rd_wr [OF Cons.prems(1), of k _ True b] Cons.prems(2) b by (auto simp: bm_wr_def)
    show ?thesis using Cons.IH [OF b(2)] Cons.prems(2) True b(1) rd by auto
  next
    case False
    then show ?thesis using Cons.IH [OF Cons.prems(1)] Cons.prems(2) by auto
  qed
qed simp

lemma zero_bitmap: "bm_wf (replicate RF_HALF_BITMAP_BYTES 0)"
  "k \<in> set half_keys \<Longrightarrow> bm_rd (replicate RF_HALF_BITMAP_BYTES 0) k = Some False"
proof -
  show "bm_wf (replicate RF_HALF_BITMAP_BYTES 0)" by (simp add: bm_wf_def)
  have "\<forall>k\<in>set half_keys. bm_rd (replicate RF_HALF_BITMAP_BYTES 0) k = Some False" by code_simp
  then show "k \<in> set half_keys \<Longrightarrow> bm_rd (replicate RF_HALF_BITMAP_BYTES 0) k = Some False" by blast
qed

lemma half_bitmap_ok:
  assumes "matrix_rows s = 4" "matrix_cols s = 7"
  obtains bm where "half_bitmap new s = Some bm" "bm_wf bm"
    "\<forall>k\<in>set half_keys. bm_rd bm k = Some (k \<in> set new)"
proof -
  have ks: "set half_keys \<subseteq> set half_keys" by (rule subset_refl)
  obtain bm where "fold_opt (\<lambda>k bm. if k \<in> set new then rf_bitmap_set bm (fst k) (snd k) True else Some bm)
      half_keys (replicate RF_HALF_BITMAP_BYTES 0) = Some bm" "bm_wf bm"
    "\<forall>k\<in>set half_keys. bm_rd bm k = (if k \<in> set new \<and> k \<in> set half_keys then Some True
       else bm_rd (replicate RF_HALF_BITMAP_BYTES 0) k)"
    using half_bitmap_loop [OF zero_bitmap(1) ks, of "set new"] by blast
  then show ?thesis
    by (intro that [of bm]) (auto simp: half_bitmap_def matrix_positions_47 [OF assms] zero_bitmap(2))
qed


lemma half_in_matrix: "matrix_rows s = 4 \<Longrightarrow> matrix_cols s = 7 \<Longrightarrow> k \<in> set half_keys \<Longrightarrow> in_matrix s k"
proof -
  have "\<forall>k\<in>set half_keys. unat (fst k) < 4 \<and> unat (snd k) < 7" by code_simp
  then show "matrix_rows s = 4 \<Longrightarrow> matrix_cols s = 7 \<Longrightarrow> k \<in> set half_keys \<Longrightarrow> in_matrix s k"
    by (auto simp: in_matrix_def)
qed

lemma tx_kb [simp]:
  "prev_matrix_state (fst (half_link_tx_matrix ack bm s)) = prev_matrix_state s"
  "matrix_rows (fst (half_link_tx_matrix ack bm s)) = matrix_rows s"
  "matrix_cols (fst (half_link_tx_matrix ack bm s)) = matrix_cols s"
  by (simp_all add: half_link_tx_matrix_def)

lemma cb_more [simp]:
  "rl_sent (keyboard_btn_cb now keys s) = rl_sent s" "rl_present (keyboard_btn_cb now keys s) = rl_present s"
  by (simp_all add: keyboard_btn_cb_def Let_def normal_mode_report_def test_mode_report_def matrix_flag_signal_def)

lemma cb_dims [simp]:
  "matrix_rows (keyboard_btn_cb now keys s) = matrix_rows s" "matrix_cols (keyboard_btn_cb now keys s) = matrix_cols s"
  by (simp_all add: keyboard_btn_cb_def Let_def normal_mode_report_def test_mode_report_def matrix_flag_signal_def)

lemma cb_prev:
  "prev_matrix_state (keyboard_btn_cb now keys s) = filter (in_matrix s) keys"
  by (simp add: keyboard_btn_cb_def Let_def normal_mode_report_def test_mode_report_def matrix_flag_signal_def in_matrix_def)

lemma send_half_kb [simp]:
  "prev_matrix_state (send_half ack new s) = prev_matrix_state s"
  "matrix_rows (send_half ack new s) = matrix_rows s" "matrix_cols (send_half ack new s) = matrix_cols s"
  by (simp_all add: send_half_def split: option.splits)

lemma in_matrix_eq: "matrix_rows s' = matrix_rows s \<Longrightarrow> matrix_cols s' = matrix_cols s \<Longrightarrow> in_matrix s' = in_matrix s"
  by (simp add: in_matrix_def fun_eq_iff)

lemma right_after:
  "matrix_rows (right_btn_cb ack now keys r) = matrix_rows r"
  "matrix_cols (right_btn_cb ack now keys r) = matrix_cols r"
  "rl_sent (right_btn_cb ack now keys r) = rl_sent (send_half ack (filter (in_matrix r) keys) r)"
  "prev_matrix_state (right_btn_cb ack now keys r) = filter (in_matrix r) keys"
  by (simp_all add: right_btn_cb_def cb_prev in_matrix_eq [of "send_half ack (filter (in_matrix r) keys) r" r])

definition right_changed :: "(u8 \<times> u8) list \<Rightarrow> right \<Rightarrow> bool" where
  "right_changed keys r \<longleftrightarrow> list_ex (\<lambda>k. (k \<in> set keys) \<noteq> (k \<in> set (prev_matrix_state r))) half_keys"

text \<open>What the right half puts on the air.\<close>

lemma right_sends:
  assumes "matrix_rows r = 4" "matrix_cols r = 7" "rl_present r" "right_changed keys r"
  obtains bm where "bm_wf bm" "\<forall>k\<in>set half_keys. bm_rd bm k = Some (k \<in> set keys)"
    "rl_sent (right_btn_cb ack now keys r) = rl_sent r @ [rf_encode_heartbeat
       \<lparr>hb_bitmap = bm, hb_batt_dV = 0, hb_link_q = 0, hb_seq = rl_seq r\<rparr>]"
proof -
  let ?new = "filter (in_matrix r) keys"
  obtain bm where bm: "half_bitmap ?new r = Some bm" "bm_wf bm"
    "\<forall>k\<in>set half_keys. bm_rd bm k = Some (k \<in> set ?new)" by (rule half_bitmap_ok [OF assms(1,2)])
  have "k \<in> set ?new \<longleftrightarrow> k \<in> set keys" if "k \<in> set half_keys" for k
    using half_in_matrix [OF assms(1,2) that] by simp
  moreover from this have "list_ex (\<lambda>k. (k \<in> set ?new) \<noteq> (k \<in> set (prev_matrix_state r))) (matrix_positions r)"
    using assms(4) by (auto simp: right_changed_def matrix_positions_47 [OF assms(1,2)] list_ex_iff)
  ultimately show ?thesis
    using bm that [of bm] assms(3) by (simp add: right_after send_half_def half_link_tx_matrix_def)
qed

lemma right_quiet:
  assumes "matrix_rows r = 4" "matrix_cols r = 7" "\<not> right_changed keys r"
  shows "rl_sent (right_btn_cb ack now keys r) = rl_sent r"
proof -
  have "(k \<in> set (filter (in_matrix r) keys)) = (k \<in> set (prev_matrix_state r))" if "k \<in> set half_keys" for k
    using half_in_matrix [OF assms(1,2) that] assms(3) that by (auto simp: right_changed_def list_ex_iff)
  then have "\<not> list_ex (\<lambda>k. (k \<in> set (filter (in_matrix r) keys)) \<noteq> (k \<in> set (prev_matrix_state r))) (matrix_positions r)"
    by (auto simp: matrix_positions_47 [OF assms(1,2)] list_ex_iff)
  then show ?thesis by (simp add: right_after send_half_def)
qed

definition shifted :: "(u8 \<times> u8) list \<Rightarrow> (u8 \<times> u8) list" where
  "shifted ks = map (\<lambda>k. (fst k, snd k + 7)) ks"

lemma remote_keys_47:
  assumes "matrix_rows s = 4" "matrix_cols s = 7"
  shows "remote_keys s = shifted (filter (\<lambda>k. bm_rd (hs_bitmap (hl_distant s)) k = Some True) half_keys)"
  by (simp add: remote_keys_def shifted_def matrix_positions_47 [OF assms] half_link_remote_pressed_def
      half_state_pressed_def bm_rd_def assms(2) cong: filter_cong)

lemma hear:
  assumes "bm_wf bm" "t_check - t_rx < HALF_SILENCE_MS"
  shows "hs_bitmap (hl_distant (half_link_rx_turn t_rx t_check
           (Some (rf_encode_heartbeat \<lparr>hb_bitmap = bm, hb_batt_dV = b, hb_link_q = q, hb_seq = n\<rparr> @ junk)) s)) = bm"
proof -
  have "wf_heartbeat \<lparr>hb_bitmap = bm, hb_batt_dV = b, hb_link_q = q, hb_seq = n\<rparr>"
    using assms(1) by (simp add: wf_heartbeat_def bm_wf_def)
  moreover have "rf_encode_heartbeat h \<noteq> []" for h by (simp add: rf_encode_heartbeat_def)
  ultimately show ?thesis
    using assms heartbeat_pkt.dec_enc [of "\<lparr>hb_bitmap = bm, hb_batt_dV = b, hb_link_q = q, hb_seq = n\<rparr>" junk]
    by (simp add: half_link_rx_turn_def Let_def half_state_recu_def half_state_timeout_def bm_wf_def)
qed

text \<open>The matrix of the right half crosses the air. When its keys change, the right half sends one packet,
  and the left half that hears it, whatever it believed before, holds exactly those keys for
  pressed, in the right half of the keymap.\<close>

theorem half_matrix_crosses:
  assumes "matrix_rows r = 4" "matrix_cols r = 7" "rl_present r" "right_changed keys r"
    and "matrix_rows s = 4" "matrix_cols s = 7" "t_check - t_rx < HALF_SILENCE_MS"
  shows "\<exists>f. rl_sent (right_btn_cb ack now keys r) = rl_sent r @ [f] \<and>
    remote_keys (half_link_rx_turn t_rx t_check (Some (f @ junk)) s) =
      shifted (filter (\<lambda>k. k \<in> set keys) half_keys)"
proof -
  obtain bm where bm: "bm_wf bm" "\<forall>k\<in>set half_keys. bm_rd bm k = Some (k \<in> set keys)"
    "rl_sent (right_btn_cb ack now keys r) = rl_sent r @ [rf_encode_heartbeat
       \<lparr>hb_bitmap = bm, hb_batt_dV = 0, hb_link_q = 0, hb_seq = rl_seq r\<rparr>]"
    by (rule right_sends [OF assms(1-4)])
  let ?f = "rf_encode_heartbeat \<lparr>hb_bitmap = bm, hb_batt_dV = 0, hb_link_q = 0, hb_seq = rl_seq r\<rparr>"
  let ?s = "half_link_rx_turn t_rx t_check (Some (?f @ junk)) s"
  have rc: "matrix_rows ?s = 4" "matrix_cols ?s = 7"
    using assms(5,6) by (simp_all add: half_link_rx_turn_def Let_def case_prod_beta split: option.splits)
  have "remote_keys ?s = shifted (filter (\<lambda>k. k \<in> set keys) half_keys)"
    using bm(2) by (auto simp: remote_keys_47 [OF rc] hear [OF bm(1) assms(7)] intro!: arg_cong [of _ _ shifted] filter_cong)
  then show ?thesis using bm(3) by blast
qed

definition right_boot :: right where
  "right_boot = kb.extend (kb_boot 4 7 [] []) (right.fields True 0 [])"

lemma boot_47 [simp]:
  "matrix_rows right_boot = 4" "matrix_cols right_boot = 7" "rl_present right_boot"
  "prev_matrix_state right_boot = []"
  "matrix_rows (left_boot rows cols km macros) = rows" "matrix_cols (left_boot rows cols km macros) = cols"
  by (simp_all add: right_boot_def left_boot_def kb.defs right.defs halves.defs kb_boot_def keyboard_manager_init_def
      hid_report_init_def key_override_init_def leader_init_def combo_init_def tap_dance_init_def
      tap_hold_init_def kb_statics_def)

theorem half_matrix_crosses_witness:
  "\<exists>f. rl_sent (right_btn_cb True 0 [(0, 6), (3, 1)] right_boot) = rl_sent right_boot @ [f] \<and>
     remote_keys (half_link_rx_turn 500 501 (Some (f @ [0, 0])) (left_boot 4 7 [] [])) = [(0, 13), (3, 8)]"
proof -
  have "right_changed [(0, 6), (3, 1)] right_boot" by (simp add: right_changed_def half_keys_def)
  from half_matrix_crosses [OF _ _ _ this, of "left_boot 4 7 [] []" 501 500 True 0 "[0, 0]"]
  show ?thesis by (simp add: HALF_SILENCE_MS_def half_keys_def shifted_def)
qed



section \<open>The turn leaves the merge state alone\<close>

definition hview :: "halves \<Rightarrow> key_pos list \<times> nat \<times> nat \<times> nat \<times> half_state \<times> bool" where
  "hview s = (current_press s, matrix_rows s, matrix_cols s, hl_filled_local s, hl_distant s, hl_distant_change s)"

lemma hview_more:
  "current_press s' = current_press s \<Longrightarrow> key_proc.more s' = key_proc.more s \<Longrightarrow> hview s' = hview s"
  by (cases s; cases s') (simp add: hview_def)

lemma hview_report [simp]: "hview (send_report e t s) = hview s"
  by (simp add: hview_def send_report_def send_hid_key_def extract_modifiers_def Let_def case_prod_beta
      enqueue_kb_def commit_report_def hid_send_keyboard_def send_usb_keyboard_def
      split: option.splits list.splits hid_msg.splits)

lemma hview_scan [simp]: "hview (build_keycode_report now s) = hview s"
  using scan_effect [of now s] by (intro hview_more) simp_all

lemma hview_tap [simp]: "hview (send_tap e kc m s) = hview s"
  by (simp add: hview_def send_tap_def hid_send_keyboard_def send_usb_keyboard_def)

lemma hview_tick [simp]: "hview (tap_dance_tick t (tap_hold_tick t' s)) = hview s"
proof -
  have "hview (tap_hold_tick t' s) = hview s"
    using tick_kept [of s t'] by (intro hview_more) (simp_all add: kept_def)
  then show ?thesis by (simp add: hview_def tap_dance_tick_def resolve_dance_def Let_def)
qed

lemma hview_steps [simp]: "hview (play_steps e m steps s) = hview s"
  by (induction e m steps s rule: play_steps.induct) simp_all

lemma hview_cycles [simp]:
  "hview (test_mode_exit t s) = hview s" "hview (hold_cycle e s) = hview s"
  "hview (dance_cycle e s) = hview s" "hview (leader_cycle e s) = hview s" "hview (play_macro e s) = hview s"
  by (simp_all add: test_mode_exit_def hold_cycle_def dance_cycle_def leader_cycle_def play_macro_def
      case_prod_beta Let_def)
    (simp_all add: hview_def tap_dance_consume_def leader_tick_def try_match_def leader_cancel_def
      leader_consume_def key_processor_consume_macro_def Let_def split: option.splits)

lemma hview_matrix [simp]: "hview (matrix_cycle e s) = hview s"
proof -
  have "hview (process_matrix_changes bt u) = hview u" for bt u
    by (simp add: hview_def process_matrix_changes_def apply_toggle_layer_def layer_changed_def
        dispatch_internal_function_def kp_emit_def Let_def split: option.splits)
  moreover have "hview (key_processor_clear_taps u) = hview u" for u
    by (simp add: hview_def key_processor_clear_taps_def)
  moreover have "hview (fst (matrix_flag_take u)) = hview u" for u
    by (simp add: hview_def matrix_flag_take_def)
  ultimately show ?thesis by (simp add: matrix_cycle_def case_prod_beta Let_def)
qed

text \<open>What the turn does to it: a changed remote state is merged.\<close>

lemma left_turn_view:
  "hview (left_turn e s) = hview (if hl_distant_change s then matrix_apply_remote (s \<lparr>hl_distant_change := False\<rparr>) else s)"
proof -
  let ?u = "tap_dance_tick (now_ms (tn_now e)) (tap_hold_tick (now_ms (tn_now e)) s)"
  have u: "hview ?u = hview s" by simp
  have eq: "hview (matrix_apply_remote (a \<lparr>hl_distant_change := False\<rparr>)) =
      hview (matrix_apply_remote (b \<lparr>hl_distant_change := False\<rparr>))" if "hview a = hview b" for a b
    using that by (simp add: hview_def matrix_apply_remote_def remote_keys_def half_link_remote_pressed_def
        matrix_positions_def Let_def cong: filter_cong)
  have ch: "hl_distant_change ?u = hl_distant_change s" using u by (simp add: hview_def)
  show ?thesis
    using eq [OF u] u ch
    by (simp add: left_turn_def Let_def remote_cycle_def half_link_remote_changed_def case_prod_beta)
qed

lemma fill_press_set: "set (fill_press ks) \<subseteq> set ks \<union> {no_pos}"
  by (auto simp: fill_press_def dest!: in_set_takeD)

lemma fill_press_length [simp]: "length (fill_press ks) = 6"
  by (simp add: fill_press_def)



section \<open>What the engine is told\<close>

definition is_local :: "key_pos \<Rightarrow> bool" where "is_local p \<longleftrightarrow> unat (snd p) < 7"

definition merge_ok :: "bool \<Rightarrow> halves \<Rightarrow> bool" where
  "merge_ok disp s \<longleftrightarrow> matrix_rows s = 4 \<and> matrix_cols s = 7 \<and> length (current_press s) = 6 \<and>
     hl_filled_local s \<le> 6 \<and> (\<not> disp \<longrightarrow> hl_filled_local s = 0) \<and>
     (\<forall>p\<in>set (take (hl_filled_local s) (current_press s)). is_local p) \<and>
     (\<not> hl_distant_change s \<longrightarrow>
        (\<forall>p\<in>set (current_press s). is_local p \<or> p = no_pos \<or> p \<in> set (remote_keys s)))"

lemma remote_keys_view: "hview s' = hview s \<Longrightarrow> remote_keys s' = remote_keys s"
  by (simp add: hview_def remote_keys_def half_link_remote_pressed_def matrix_positions_def cong: filter_cong)

lemma merge_ok_view: "hview s' = hview s \<Longrightarrow> merge_ok disp s' = merge_ok disp s"
  using remote_keys_view [of s' s] by (simp add: merge_ok_def hview_def)

lemma take_fill_press: "length xs = n \<Longrightarrow> n \<le> 6 \<Longrightarrow> take n (fill_press (xs @ ys)) = xs"
  by (simp add: fill_press_def)

lemma apply_press:
  "current_press (matrix_apply_remote s) =
     fill_press (take (hl_filled_local s) (current_press s) @ remote_keys s)"
  by (simp add: matrix_apply_remote_def Let_def)

lemma apply_fields [simp]:
  "matrix_rows (matrix_apply_remote s) = matrix_rows s" "matrix_cols (matrix_apply_remote s) = matrix_cols s"
  "hl_filled_local (matrix_apply_remote s) = hl_filled_local s"
  "hl_distant (matrix_apply_remote s) = hl_distant s"
  "hl_distant_change (matrix_apply_remote s) = hl_distant_change s"
  "remote_keys (matrix_apply_remote s) = remote_keys s"
  by (simp_all add: matrix_apply_remote_def Let_def remote_keys_def half_link_remote_pressed_def
      matrix_positions_def cong: filter_cong)

lemma remote_keys_flag [simp]:
  "remote_keys (s \<lparr>hl_distant_change := b\<rparr>) = remote_keys s" "remote_keys (s \<lparr>hl_filled_local := n\<rparr>) = remote_keys s"
  "remote_keys (s \<lparr>display_presses := m\<rparr>) = remote_keys s"
  by (simp_all add: remote_keys_def half_link_remote_pressed_def matrix_positions_def cong: filter_cong)

lemma apply_ok:
  assumes "matrix_rows s = 4" "matrix_cols s = 7" "length (current_press s) = 6" "hl_filled_local s \<le> 6"
    and "\<not> disp \<longrightarrow> hl_filled_local s = 0"
    and "\<forall>p\<in>set (take (hl_filled_local s) (current_press s)). is_local p"
  shows "merge_ok disp (matrix_apply_remote s)"
proof -
  let ?n = "hl_filled_local s"
  have t: "take ?n (fill_press (take ?n (current_press s) @ remote_keys s)) = take ?n (current_press s)"
    using assms(3,4) by (intro take_fill_press) simp_all
  have "is_local p \<or> p = no_pos \<or> p \<in> set (remote_keys s)"
    if "p \<in> set (fill_press (take ?n (current_press s) @ remote_keys s))" for p
    using subsetD [OF fill_press_set that] assms(6) by auto
  then show ?thesis
    using assms by (auto simp: merge_ok_def apply_press t)
qed

lemma cb_press:
  assumes "\<not> (matrix_test_mode s \<and> \<not> now_ms now - matrix_test_last_activity_ms s > MATRIX_TEST_TIMEOUT_MS)"
  shows "current_press (keyboard_btn_cb now keys s) = fill_press (take 6 (filter (in_matrix s) keys))"
  using assms by (auto simp: keyboard_btn_cb_def normal_mode_report_def matrix_flag_signal_def Let_def)

lemma cb_left [simp]:
  "hl_filled_local (keyboard_btn_cb now keys s) = hl_filled_local s"
  "hl_distant (keyboard_btn_cb now keys s) = hl_distant s"
  "hl_distant_change (keyboard_btn_cb now keys s) = hl_distant_change s"
  by (simp_all add: keyboard_btn_cb_def Let_def normal_mode_report_def test_mode_report_def matrix_flag_signal_def)

lemma cb_test:
  assumes "matrix_test_mode s" "\<not> now_ms now - matrix_test_last_activity_ms s > MATRIX_TEST_TIMEOUT_MS"
  shows "hview (keyboard_btn_cb now keys s) = hview s"
  using assms by (simp add: hview_def) (simp add: keyboard_btn_cb_def test_mode_report_def Let_def)

lemma local_keys:
  "matrix_cols s = 7 \<Longrightarrow> p \<in> set (take 6 (filter (in_matrix s) keys)) \<Longrightarrow> is_local p"
  by (auto simp: is_local_def in_matrix_def dest!: in_set_takeD)

lemma merge_ok_scan:
  assumes "merge_ok disp s"
  shows "merge_ok disp (left_btn_cb disp now keys s)"
proof (cases "matrix_test_mode s \<and> \<not> now_ms now - matrix_test_last_activity_ms s > MATRIX_TEST_TIMEOUT_MS")
  case True
  then show ?thesis
    using merge_ok_view [OF cb_test] assms by (simp add: left_btn_cb_def Let_def)
next
  case False
  let ?new = "take 6 (filter (in_matrix s) keys)"
  note press = cb_press [OF False, of keys]
  have cols: "matrix_rows s = 4" "matrix_cols s = 7" using assms by (simp_all add: merge_ok_def)
  note loc = local_keys [OF cols(2)]
  show ?thesis
  proof (cases disp)
    case True
    have "take (length ?new) (fill_press (?new @ [])) = ?new" by (intro take_fill_press) simp_all
    then have "merge_ok True (matrix_apply_remote (keyboard_btn_cb now keys s
        \<lparr>hl_filled_local := length ?new\<rparr>))"
      using cols loc press by (intro apply_ok) auto
    with True show ?thesis unfolding left_btn_cb_def Let_def if_not_P [OF False] by simp
  next
    case nodisp: False
    have "is_local p \<or> p = no_pos" if "p \<in> set (fill_press ?new)" for p
      using subsetD [OF fill_press_set that] loc [of p] by blast
    with nodisp False assms press show ?thesis by (auto simp: left_btn_cb_def Let_def merge_ok_def)
  qed
qed

lemma air_fields:
  "current_press (half_link_rx_turn t_rx t_check frame s) = current_press s"
  "matrix_rows (half_link_rx_turn t_rx t_check frame s) = matrix_rows s"
  "matrix_cols (half_link_rx_turn t_rx t_check frame s) = matrix_cols s"
  "hl_filled_local (half_link_rx_turn t_rx t_check frame s) = hl_filled_local s"
  by (simp_all add: half_link_rx_turn_def Let_def case_prod_beta split: option.splits)

lemma air_unchanged:
  "\<not> hl_distant_change (half_link_rx_turn t_rx t_check frame s) \<Longrightarrow>
     \<not> hl_distant_change s \<and> hs_bitmap (hl_distant (half_link_rx_turn t_rx t_check frame s)) = hs_bitmap (hl_distant s)"
  by (auto simp: half_link_rx_turn_def Let_def case_prod_beta half_state_timeout_def split: option.splits if_splits)

lemma merge_ok_air: "merge_ok disp s \<Longrightarrow> merge_ok disp (half_link_rx_turn t_rx t_check frame s)"
proof -
  assume ok: "merge_ok disp s"
  let ?s = "half_link_rx_turn t_rx t_check frame s"
  have "remote_keys ?s = remote_keys s" if "\<not> hl_distant_change ?s"
    using air_unchanged [OF that] ok
    by (simp add: remote_keys_47 air_fields merge_ok_def)
  then show ?thesis using ok air_unchanged [of t_rx t_check frame s] by (auto simp: merge_ok_def air_fields)
qed

lemma merge_ok_turn: "merge_ok disp s \<Longrightarrow> merge_ok disp (left_turn e s)"
proof -
  assume ok: "merge_ok disp s"
  have "merge_ok disp (matrix_apply_remote (s \<lparr>hl_distant_change := False\<rparr>))"
    using ok by (intro apply_ok) (simp_all add: merge_ok_def)
  then show ?thesis using ok merge_ok_view [OF left_turn_view] by simp
qed

lemma merge_ok_run: "merge_ok disp s \<Longrightarrow> merge_ok disp (fold (left_step disp) es s)"
proof (induction es arbitrary: s)
  case (Cons ev es)
  then show ?case by (cases ev) (simp_all add: merge_ok_scan merge_ok_air merge_ok_turn)
qed simp

lemma merge_ok_boot: "merge_ok disp (left_boot 4 7 km macros)"
  by (simp add: merge_ok_def is_local_def left_boot_def kb.defs halves.defs kb_boot_def keyboard_manager_init_def
      hid_report_init_def key_override_init_def leader_init_def combo_init_def tap_dance_init_def
      tap_hold_init_def kb_statics_def)



section \<open>A key held on the right\<close>

fun silent :: "left_event \<Rightarrow> bool" where
  "silent (Air t_rx t_check frame) = (frame = None)"
| "silent _ = True"

fun checks_late :: "u32 \<Rightarrow> left_event \<Rightarrow> bool" where
  "checks_late t0 (Air t_rx t_check frame) = (HALF_SILENCE_MS \<le> t_check - t0)"
| "checks_late t0 _ = False"

definition half_dead :: "halves \<Rightarrow> bool" where
  "half_dead s \<longleftrightarrow> \<not> hs_vivant (hl_distant s) \<and> hs_bitmap (hl_distant s) = replicate RF_HALF_BITMAP_BYTES 0"

definition heard_at :: "u32 \<Rightarrow> halves \<Rightarrow> bool" where
  "heard_at t0 s \<longleftrightarrow> half_dead s \<or> hs_derniere_ms (hl_distant s) = t0 \<and> hs_vivant (hl_distant s)"

lemma distant_turn: "hl_distant (left_turn e s) = hl_distant s"
  using left_turn_view [of e s] by (simp add: hview_def split: if_splits)

lemma distant_scan: "hl_distant (left_btn_cb disp now keys s) = hl_distant s"
  by (simp add: left_btn_cb_def Let_def)

lemma silent_step:
  assumes "heard_at t0 s" "silent ev"
  shows "heard_at t0 (left_step disp ev s)" "half_dead s \<or> checks_late t0 ev \<Longrightarrow> half_dead (left_step disp ev s)"
  using assms
  by (cases ev; auto simp: heard_at_def half_dead_def distant_turn distant_scan half_link_rx_turn_def
      half_state_timeout_def not_less Let_def)+

lemma silence:
  assumes "heard_at t0 s" "list_all silent es" "half_dead s \<or> list_ex (checks_late t0) es"
  shows "half_dead (fold (left_step disp) es s)"
  using assms
proof (induction es arbitrary: s)
  case (Cons ev es)
  from Cons.prems show ?case
    using silent_step [of t0 s ev disp] by (auto intro!: Cons.IH)
qed simp

lemma heard: "heard_at t_rx (half_link_rx_turn t_rx t_check
    (Some (rf_encode_heartbeat \<lparr>hb_bitmap = bm, hb_batt_dV = b, hb_link_q = q, hb_seq = n\<rparr>)) s)" if "bm_wf bm"
proof -
  let ?h = "\<lparr>hb_bitmap = bm, hb_batt_dV = b, hb_link_q = q, hb_seq = n\<rparr>"
  have "wf_heartbeat ?h" using that by (simp add: wf_heartbeat_def bm_wf_def)
  then have "rf_decode_heartbeat (rf_encode_heartbeat ?h) = Some ?h" by (rule heartbeat_pkt.dec_enc_exact)
  moreover have "rf_encode_heartbeat ?h \<noteq> []" by (simp add: rf_encode_heartbeat_def)
  ultimately show ?thesis
    by (simp add: heard_at_def half_dead_def half_link_rx_turn_def Let_def half_state_recu_def
        half_state_timeout_def)
qed

lemma dead_silent: "matrix_rows s = 4 \<Longrightarrow> matrix_cols s = 7 \<Longrightarrow> half_dead s \<Longrightarrow> remote_keys s = []"
  using zero_bitmap(2) by (auto simp: remote_keys_47 half_dead_def shifted_def filter_empty_conv)

lemma right_held:
  assumes "matrix_rows r = 4" "matrix_cols r = 7" "\<And>k. k \<in> set half_keys \<Longrightarrow> (k \<in> set (prev_matrix_state r)) = (k \<in> set keys)"
  shows "rl_sent (fold (\<lambda>(ack, now). right_btn_cb ack now keys) cs r) = rl_sent r"
  using assms
proof (induction cs arbitrary: r)
  case (Cons c cs)
  obtain ack now where c: "c = (ack, now)" by (cases c)
  have "\<not> right_changed keys r" using Cons.prems(3) by (auto simp: right_changed_def list_ex_iff)
  then have "rl_sent (right_btn_cb ack now keys r) = rl_sent r" by (rule right_quiet [OF Cons.prems(1,2)])
  moreover have "(k \<in> set (filter (in_matrix r) keys)) = (k \<in> set keys)" if "k \<in> set half_keys" for k
    using half_in_matrix [OF Cons.prems(1,2) that] by simp
  ultimately show ?case
    using Cons.IH [of "right_btn_cb ack now keys r"] Cons.prems(1,2) by (simp add: c right_after)
qed simp

text \<open>C28: a key held on the right half is let go after a quarter of a second. The right half sends its matrix only
  when it changes, the left half releases what it has not heard again for 250 ms: from the packet that
  tells of the keys, with the right half's keys unchanged and no further packet, whatever the left
  half does meanwhile, once its receive task has looked at the clock 250 ms later the next turn of
  the keyboard task builds its report without any key of the right half.\<close>

theorem held_right_key_released:
  assumes "matrix_rows r = 4" "matrix_cols r = 7" "rl_present r" "right_changed keys r"
    and "list_all silent es" "list_ex (checks_late t0) es"
    and "s = fold (left_step disp) es0 (left_boot 4 7 km macros)"
  shows "\<exists>f. rl_sent (right_btn_cb ack now keys r) = rl_sent r @ [f] \<and>
    rl_sent (fold (\<lambda>(ack, now). right_btn_cb ack now keys) cs (right_btn_cb ack now keys r)) = rl_sent r @ [f] \<and>
    (\<forall>p\<in>set (current_press (left_turn e (fold (left_step disp) (Air t0 t0 (Some f) # es) s))). is_local p \<or> p = no_pos)"
proof -
  obtain bm where bm: "bm_wf bm" "\<forall>k\<in>set half_keys. bm_rd bm k = Some (k \<in> set keys)"
    "rl_sent (right_btn_cb ack now keys r) = rl_sent r @ [rf_encode_heartbeat
       \<lparr>hb_bitmap = bm, hb_batt_dV = 0, hb_link_q = 0, hb_seq = rl_seq r\<rparr>]"
    by (rule right_sends [OF assms(1-4)])
  let ?f = "rf_encode_heartbeat \<lparr>hb_bitmap = bm, hb_batt_dV = 0, hb_link_q = 0, hb_seq = rl_seq r\<rparr>"
  let ?u = "fold (left_step disp) (Air t0 t0 (Some ?f) # es) s"
  have "(k \<in> set (prev_matrix_state (right_btn_cb ack now keys r))) = (k \<in> set keys)" if "k \<in> set half_keys" for k
    using half_in_matrix [OF assms(1,2) that] by (simp add: right_after)
  then have quiet: "rl_sent (fold (\<lambda>(ack, now). right_btn_cb ack now keys) cs (right_btn_cb ack now keys r)) =
      rl_sent (right_btn_cb ack now keys r)"
    using assms(1,2) by (intro right_held) (simp_all add: right_after)
  have ok: "merge_ok disp (left_turn e ?u)"
    unfolding assms(7) by (intro merge_ok_turn merge_ok_run merge_ok_boot)
  have "half_dead ?u" using silence [OF heard [OF bm(1)] assms(5)] assms(6) by simp
  then have "half_dead (left_turn e ?u)" by (simp add: half_dead_def distant_turn)
  then have none: "remote_keys (left_turn e ?u) = []" using ok by (intro dead_silent) (simp_all add: merge_ok_def)
  have "\<not> hl_distant_change (left_turn e ?u)"
    using left_turn_view [of e ?u] by (simp add: hview_def split: if_splits)
  then have "\<forall>p\<in>set (current_press (left_turn e ?u)). is_local p \<or> p = no_pos"
    using ok none by (simp add: merge_ok_def)
  then show ?thesis using bm(3) quiet by (intro exI [of _ ?f]) simp
qed

theorem held_right_key_released_witness:
  "\<exists>f. rl_sent (right_btn_cb True 0 [(0, 6)] right_boot) = [f] \<and>
    rl_sent (fold (\<lambda>(ack, now). right_btn_cb ack now [(0, 6)]) [(True, 300000)] (right_btn_cb True 0 [(0, 6)] right_boot)) = [f] \<and>
    (\<forall>p\<in>set (current_press (left_turn (quiet_turn 261000) (fold (left_step False)
       [Air 10 10 (Some f), Turn (quiet_turn 20000), Air 260 260 None] (left_boot 4 7 [] [])))). is_local p \<or> p = no_pos)"
proof -
  have "right_changed [(0, 6)] right_boot" by (simp add: right_changed_def half_keys_def)
  moreover have "rl_sent right_boot = []" by (simp add: right_boot_def kb.defs right.defs)
  ultimately show ?thesis
    using held_right_key_released [of right_boot "[(0, 6)]" "[Turn (quiet_turn 20000), Air 260 260 None]" 10
        "left_boot 4 7 [] []" False "[]" "[]" "[]" True 0 "[(True, 300000)]" "quiet_turn 261000"]
    by (simp add: HALF_SILENCE_MS_def)
qed

section \<open>Keys on both halves\<close>

lemma remote_not_local:
  assumes "matrix_rows s = 4" "matrix_cols s = 7" "p \<in> set (remote_keys s)"
  shows "\<not> is_local p"
proof -
  have "\<forall>k\<in>set half_keys. \<not> is_local (fst k, snd k + 7)" unfolding is_local_def by code_simp
  then show ?thesis using assms(3) by (auto simp: remote_keys_47 [OF assms(1,2)] shifted_def)
qed

definition one_side :: "halves \<Rightarrow> bool" where
  "one_side s \<longleftrightarrow> (\<forall>p\<in>set (current_press s). is_local p \<or> p = no_pos) \<or> (\<forall>p\<in>set (current_press s). \<not> is_local p)"

lemma one_side_view: "hview s' = hview s \<Longrightarrow> one_side s' = one_side s"
  by (simp add: one_side_def hview_def)

lemma no_pos_not_local: "\<not> is_local no_pos"
  by (simp add: is_local_def no_pos_def INVALID_KEY_POS_def)

lemma one_side_remote:
  assumes "matrix_rows s = 4" "matrix_cols s = 7" "hl_filled_local s = 0"
  shows "one_side (matrix_apply_remote s)"
proof -
  have "\<not> is_local p" if "p \<in> set (fill_press (remote_keys s))" for p
    using subsetD [OF fill_press_set that] remote_not_local [OF assms(1,2), of p] no_pos_not_local by blast
  then show ?thesis by (simp add: one_side_def apply_press assms(3))
qed

lemma scan_press:
  "\<not> matrix_test_mode s \<Longrightarrow>
    current_press (left_btn_cb False now keys s) = fill_press (take 6 (filter (in_matrix s) keys))"
  by (simp add: left_btn_cb_def Let_def cb_press)

lemma one_side_scan:
  assumes "one_side s" "matrix_cols s = 7"
  shows "one_side (left_btn_cb False now keys s)"
proof (cases "matrix_test_mode s \<and> \<not> now_ms now - matrix_test_last_activity_ms s > MATRIX_TEST_TIMEOUT_MS")
  case True
  then show ?thesis using one_side_view [OF cb_test] assms(1) by (simp add: left_btn_cb_def Let_def)
next
  case False
  have "current_press (left_btn_cb False now keys s) = fill_press (take 6 (filter (in_matrix s) keys))"
    unfolding left_btn_cb_def Let_def if_not_P [OF False] by (simp add: cb_press [OF False])
  moreover have "is_local p \<or> p = no_pos" if "p \<in> set (fill_press (take 6 (filter (in_matrix s) keys)))" for p
    using subsetD [OF fill_press_set that] local_keys [OF assms(2), of p keys] by blast
  ultimately show ?thesis by (simp add: one_side_def)
qed

lemma one_side_run:
  "merge_ok False s \<Longrightarrow> one_side s \<Longrightarrow> one_side (fold (left_step False) es s)"
proof (induction es arbitrary: s)
  case (Cons ev es)
  have dims: "matrix_rows s = 4" "matrix_cols s = 7" "hl_filled_local s = 0"
    using Cons.prems(1) by (simp_all add: merge_ok_def)
  have "one_side (left_step False ev s)"
  proof (cases ev)
    case (Scan now keys)
    then show ?thesis using one_side_scan [OF Cons.prems(2) dims(2)] by simp
  next
    case (Air t_rx t_check frame)
    then show ?thesis using Cons.prems(2) by (simp add: one_side_def air_fields)
  next
    case (Turn e)
    then show ?thesis
      using Cons.prems(2) one_side_remote [of "s \<lparr>hl_distant_change := False\<rparr>"] dims one_side_view [OF left_turn_view]
      by simp
  qed
  moreover have "merge_ok False (left_step False ev s)" using merge_ok_run [OF Cons.prems(1), of "[ev]"] by simp
  ultimately show ?case using Cons.IH by simp
qed simp

text \<open>C27: the two halves cannot type together. In a build without a display, the one of the left half, whatever
  was scanned and heard since power-up, the report is built from keys of one half only: a change of the
  right half replaces the keys held on the left by those of the right, and a change of the left
  half drops those held on the right.\<close>

theorem halves_never_mix:
  assumes "s = fold (left_step False) es (left_boot 4 7 km macros)"
  shows "one_side s \<and>
    (hl_distant_change s \<longrightarrow> current_press (left_turn e s) = fill_press (remote_keys s)) \<and>
    (\<not> matrix_test_mode s \<longrightarrow>
       current_press (left_btn_cb False now keys s) = fill_press (take 6 (filter (in_matrix s) keys)))"
proof -
  have ok: "merge_ok False s" unfolding assms by (rule merge_ok_run [OF merge_ok_boot])
  have "one_side (left_boot 4 7 km macros)"
    by (simp add: one_side_def is_local_def left_boot_def kb.defs halves.defs kb_boot_def keyboard_manager_init_def
        hid_report_init_def key_override_init_def leader_init_def combo_init_def tap_dance_init_def
        tap_hold_init_def kb_statics_def)
  then have "one_side s" unfolding assms by (rule one_side_run [OF merge_ok_boot])
  moreover have "current_press (left_turn e s) = fill_press (remote_keys s)" if "hl_distant_change s"
    using left_turn_view [of e s] that ok by (simp add: hview_def apply_press merge_ok_def)
  ultimately show ?thesis by (simp add: scan_press)
qed

lemma first_press:
  assumes "hl_distant u = half_state_zero"
  shows "hl_distant (half_link_rx_turn 20 20 (Some [0x20, 0x80, 0, 0, 0, 0, 0, 0]) u) =
      \<lparr>hs_bitmap = [0x80, 0, 0, 0], hs_derniere_ms = 20, hs_vivant = True\<rparr>"
    and "hl_distant_change (half_link_rx_turn 20 20 (Some [0x20, 0x80, 0, 0, 0, 0, 0, 0]) u)"
proof -
  have f: "rf_decode_heartbeat [0x20, 0x80, 0, 0, 0, 0, 0, 0] =
      Some \<lparr>hb_bitmap = [0x80, 0, 0, 0], hb_batt_dV = 0, hb_link_q = 0, hb_seq = 0\<rparr>" by code_simp
  have z: "half_state_zero = \<lparr>hs_bitmap = [0, 0, 0, 0], hs_derniere_ms = 0, hs_vivant = False\<rparr>" by code_simp
  show "hl_distant (half_link_rx_turn 20 20 (Some [0x20, 0x80, 0, 0, 0, 0, 0, 0]) u) =
      \<lparr>hs_bitmap = [0x80, 0, 0, 0], hs_derniere_ms = 20, hs_vivant = True\<rparr>"
    "hl_distant_change (half_link_rx_turn 20 20 (Some [0x20, 0x80, 0, 0, 0, 0, 0, 0]) u)"
    using assms by (simp_all add: half_link_rx_turn_def f Let_def half_state_recu_def half_state_timeout_def
        z RF_HALF_BITMAP_BYTES_def HALF_SILENCE_MS_def)
qed

text \<open>A key is held on the left, then one is pressed on the right.\<close>

theorem halves_never_mix_witness:
  "current_press (left_turn (quiet_turn 30000) (fold (left_step False)
      [Scan 0 [(1, 2)], Turn (quiet_turn 10000), Air 20 20 (Some [0x20, 0x80, 0, 0, 0, 0, 0, 0])]
      (left_boot 4 7 blank_keymap []))) = fill_press [(0, 7)]"
proof -
  let ?u = "fold (left_step False) [Scan 0 [(1, 2)], Turn (quiet_turn 10000)] (left_boot 4 7 blank_keymap [])"
  let ?s = "fold (left_step False)
      [Scan 0 [(1, 2)], Turn (quiet_turn 10000), Air 20 20 (Some [0x20, 0x80, 0, 0, 0, 0, 0, 0])]
      (left_boot 4 7 blank_keymap [])"
  have s: "?s = half_link_rx_turn 20 20 (Some [0x20, 0x80, 0, 0, 0, 0, 0, 0]) ?u" by simp
  have ok: "merge_ok False ?s" by (rule merge_ok_run [OF merge_ok_boot])
  have d: "hl_distant ?u = half_state_zero"
    by (simp add: distant_turn distant_scan) (simp add: left_boot_def kb.defs halves.defs)
  have air: "hl_distant ?s = \<lparr>hs_bitmap = [0x80, 0, 0, 0], hs_derniere_ms = 20, hs_vivant = True\<rparr>"
    "hl_distant_change ?s" unfolding s by (rule first_press [OF d])+
  have "filter (\<lambda>k. bm_rd [0x80, 0, 0, 0] k = Some True) half_keys = [(0, 0)]" by code_simp
  then have "remote_keys ?s = [(0, 7)]"
    using ok air by (simp add: remote_keys_47 merge_ok_def shifted_def del: fold.simps)
  then show ?thesis
    using halves_never_mix [OF refl, of "[Scan 0 [(1, 2)], Turn (quiet_turn 10000), Air 20 20 (Some [0x20, 0x80, 0, 0, 0, 0, 0, 0])]"
        blank_keymap "[]" "quiet_turn 30000" 0 "[]"] air(2)
    by (simp del: fold.simps)
qed


end
