(* ===== verification/Kbd_Relay.thy ===== *)
theory Kbd_Relay
  imports Key_Behaviour Dongle_Rf "HOL-Library.Sublist"
begin

unbundle bit_operations_syntax

text \<open>
  The wireless keyboard: the choice between USB and radio of \<open>comm/usb/usb_presence.c\<close>, the relay of
  \<open>comm/rf/kbd_relay_tx.c\<close>, the wireless branch of the sender task of \<open>input/hid_report.c\<close> and the
  sleep of \<open>comm/rf/v2d_sleep.c\<close>. The level of the VBUS pin (or the state of the USB stack on boards
  without it) is an argument, and so is whether the radio lock is had in time. The bench switch that forces
  the radio route is off, as it is by default.
\<close>

section \<open>USB presence\<close>

datatype kbd_out = KBD_OUT_USB | KBD_OUT_RF | KBD_OUT_NONE

definition kbd_route_target :: "bool \<Rightarrow> bool \<Rightarrow> kbd_out" where
  "kbd_route_target vbus_present relay_active =
     (if vbus_present then KBD_OUT_USB else if relay_active then KBD_OUT_RF else KBD_OUT_NONE)"

record vbus_debounce =
  vd_stable :: bool
  vd_cand :: bool
  vd_since_ms :: u32
  vd_init :: bool

definition vbus_debounce_zero :: vbus_debounce where
  "vbus_debounce_zero = \<lparr>vd_stable = False, vd_cand = False, vd_since_ms = 0, vd_init = False\<rparr>"

definition vbus_debounce_step :: "bool \<Rightarrow> u32 \<Rightarrow> u32 \<Rightarrow> vbus_debounce \<Rightarrow> vbus_debounce" where
  "vbus_debounce_step raw t window_ms d =
     (if \<not> vd_init d then \<lparr>vd_stable = raw, vd_cand = raw, vd_since_ms = t, vd_init = True\<rparr>
      else if raw \<noteq> vd_cand d then d\<lparr>vd_cand := raw, vd_since_ms := t\<rparr>
      else if raw \<noteq> vd_stable d \<and> t - vd_since_ms d \<ge> window_ms then d\<lparr>vd_stable := raw\<rparr>
      else d)"

definition VBUS_DEBOUNCE_MS :: u32 where "VBUS_DEBOUNCE_MS = 50"

text \<open>\<open>sense\<close> is whether the board has the divider, \<open>mounted\<close> the state of the USB stack.\<close>

definition usb_cable_present_now :: "bool \<Rightarrow> bool \<Rightarrow> bool \<Rightarrow> bool" where
  "usb_cable_present_now sense gpio mounted = (if sense then gpio else mounted)"

definition usb_sleep_blocked :: "bool \<Rightarrow> bool \<Rightarrow> bool" where
  "usb_sleep_blocked sense mounted = (if sense then False else mounted)"

definition v2d_should_sleep :: "bool \<Rightarrow> u32 \<Rightarrow> u32 \<Rightarrow> bool" where
  "v2d_should_sleep route_is_rf idle_ms threshold_ms = (route_is_rf \<and> idle_ms \<ge> threshold_ms)"

section \<open>The relay\<close>

definition KBD_RELAY_REPEATS :: u8 where "KBD_RELAY_REPEATS = 5"

record kbd_relay = kb +
  kr_db :: vbus_debounce
  kr_route :: kbd_out
  kr_cfg :: rf_radio_cfg
  kr_paired :: bool
  kr_mutex :: bool
  kr_held :: bool
  kr_timer :: "bool option"
  kr_powered :: bool
  kr_last_mod :: u8
  kr_last_kb :: bytes
  kr_left :: u8
  kr_sent :: "bytes list"

definition usb_presence_active :: "bool \<Rightarrow> u32 \<Rightarrow> kbd_relay \<Rightarrow> kbd_relay \<times> bool" where
  "usb_presence_active raw t s =
     (let d = vbus_debounce_step raw t VBUS_DEBOUNCE_MS (kr_db s) in (s \<lparr>kr_db := d\<rparr>, vd_stable d))"

definition usb_presence_poll :: "bool \<Rightarrow> u32 \<Rightarrow> bool \<Rightarrow> kbd_relay \<Rightarrow> kbd_relay" where
  "usb_presence_poll raw t relay_active s =
     (let (s1, present) = usb_presence_active raw t s
      in s1 \<lparr>kr_route := kbd_route_target present relay_active\<rparr>)"

definition kbd_active_route :: "kbd_relay \<Rightarrow> kbd_out" where
  "kbd_active_route s = kr_route s"

definition kbd_relay_active :: "kbd_relay \<Rightarrow> bool" where
  "kbd_relay_active s = kr_paired s"

definition kbd_refresh_arm :: "u8 \<Rightarrow> kbd_relay \<Rightarrow> kbd_relay" where
  "kbd_refresh_arm repeats s = s \<lparr>kr_left := repeats\<rparr>"

definition kbd_refresh_step :: "kbd_relay \<Rightarrow> kbd_relay \<times> bool" where
  "kbd_refresh_step s = (if kr_left s = 0 then (s, False) else (s \<lparr>kr_left := kr_left s - 1\<rparr>, True))"

text \<open>\<open>got\<close> is whether the lock is had within its wait; a sleeping keyboard holds it.\<close>

definition kbd_tx_locked :: "bool \<Rightarrow> bytes \<Rightarrow> kbd_relay \<Rightarrow> kbd_relay" where
  "kbd_tx_locked got buf s =
     (if kr_mutex s \<and> got \<and> \<not> kr_held s then s \<lparr>kr_sent := kr_sent s @ [buf]\<rparr> else s)"

definition kbd_relay_refresh_cb :: "bool \<Rightarrow> u32 \<Rightarrow> bool \<Rightarrow> kbd_relay \<Rightarrow> kbd_relay" where
  "kbd_relay_refresh_cb raw t got s =
     (let s1 = usb_presence_poll raw t (kr_paired s) s in
      if kbd_active_route s1 \<noteq> KBD_OUT_RF then s1
      else let (s2, again) = kbd_refresh_step s1 in
      if \<not> again then s2
      else kbd_tx_locked got (rf_encode_hidreport_kbd (kr_last_mod s2) (kr_last_kb s2)) s2)"

definition kbd_relay_send_kbd :: "bool \<Rightarrow> u8 \<Rightarrow> bytes \<Rightarrow> kbd_relay \<Rightarrow> kbd_relay" where
  "kbd_relay_send_kbd got modifier kb s =
     kbd_tx_locked got (rf_encode_hidreport_kbd modifier kb)
       (kbd_refresh_arm KBD_RELAY_REPEATS (s \<lparr>kr_last_mod := modifier, kr_last_kb := kb\<rparr>))"

definition kbd_relay_send_mouse :: "bool \<Rightarrow> mouse_data \<Rightarrow> kbd_relay \<Rightarrow> kbd_relay" where
  "kbd_relay_send_mouse got m s =
     (case m of (buttons, x, y, wheel) \<Rightarrow> kbd_tx_locked got (rf_encode_hidreport_mouse buttons x y wheel) s)"

definition kbd_nrf_cfg :: "u8 \<Rightarrow> u8 \<Rightarrow> rf_radio_cfg" where
  "kbd_nrf_cfg channel sfx =
     \<lparr>rc_channel = channel, rc_rx_addr = [0x4B, 0x61, 0x53, 0x65], rc_addr_suffix = sfx\<rparr>"

text \<open>The board gives its channel and slot; \<open>tx_ok\<close> is whether the driver comes up, \<open>timer_made\<close> and
  \<open>mutex_made\<close> whether the system has room. The second result is whether the pairing task
  is started.\<close>

definition kbd_relay_init ::
  "(nat \<Rightarrow> nvs_rc) \<Rightarrow> kv \<Rightarrow> u8 \<Rightarrow> u8 \<Rightarrow> bool \<Rightarrow> bool \<Rightarrow> bool \<Rightarrow> kbd_relay \<Rightarrow> kbd_relay \<times> bool" where
  "kbd_relay_init rc flash channel sfx tx_ok mutex_made timer_made s =
     (let (set_id, slot) = fst (rf_pairing_load_set_id_half rc 0 sfx flash);
          cfg = rf_apply_set_id set_id slot (kbd_nrf_cfg channel sfx);
          s1 = s \<lparr>kr_paired := False, kr_cfg := cfg\<rparr> in
      if \<not> tx_ok then (s1, False)
      else if set_id = 0 \<or> set_id = 0xFFFF then (s1, True)
      else (s1 \<lparr>kr_mutex := mutex_made, kr_paired := True,
                kr_timer := if timer_made then Some True else kr_timer s1\<rparr>, False))"

text \<open>The pairing task: twelve requests on each candidate for the trigger pin, until an answer decodes. The result
  is the flash and whether the board restarts.\<close>

fun first_ack :: "bytes list \<Rightarrow> rf_pair_ack option" where
  "first_ack [] = None"
| "first_ack (buf # bufs) =
     (if buf = [] then first_ack bufs
      else case rf_decode_pair_ack buf of None \<Rightarrow> first_ack bufs | Some ack \<Rightarrow> Some ack)"

definition kbd_pairing_task :: "(nat \<Rightarrow> nvs_rc) \<Rightarrow> nat \<Rightarrow> bytes list \<Rightarrow> kv \<Rightarrow> kv \<times> bool" where
  "kbd_pairing_task rc n_candidates heard flash =
     (case first_ack (take (12 * n_candidates) heard) of
        None \<Rightarrow> (flash, False)
      | Some ack \<Rightarrow> (fst (rf_pairing_save_half rc 0 (pa_set_id ack) (pa_slot ack) (pa_mac ack) flash), True))"

section \<open>Sleep\<close>

definition kbd_relay_sleep_prepare :: "bool \<Rightarrow> kbd_relay \<Rightarrow> kbd_relay" where
  "kbd_relay_sleep_prepare got s =
     s \<lparr>kr_timer := map_option (\<lambda>_. False) (kr_timer s), kr_held := kr_held s \<or> (kr_mutex s \<and> got),
        kr_powered := False\<rparr>"

definition kbd_relay_wake_restore :: "kbd_relay \<Rightarrow> kbd_relay" where
  "kbd_relay_wake_restore s =
     s \<lparr>kr_powered := True, kr_held := False, kr_timer := map_option (\<lambda>_. True) (kr_timer s)\<rparr>"

text \<open>Asleep until a key or the cable; \<open>now\<close> is the clock after the wake-up.\<close>

definition v2d_sleep_enter :: "bool \<Rightarrow> u32 \<Rightarrow> kbd_relay \<Rightarrow> kbd_relay" where
  "v2d_sleep_enter got now s =
     kbd_relay_wake_restore (kbd_relay_sleep_prepare got s) \<lparr>last_activity_time_ms := now\<rparr>"

definition sleep_cycle :: "bool \<Rightarrow> bool \<Rightarrow> bool \<Rightarrow> u32 \<Rightarrow> u32 \<Rightarrow> kbd_relay \<Rightarrow> kbd_relay" where
  "sleep_cycle sense mounted got now wake s =
     (let idle = now - last_activity_time_ms s in
      if v2d_should_sleep (kbd_active_route s = KBD_OUT_RF) idle 60000 \<and> \<not> usb_sleep_blocked sense mounted
      then v2d_sleep_enter got wake s else s)"

section \<open>The sender of a wireless keyboard\<close>

definition relay_out :: "links \<Rightarrow> bool \<Rightarrow> (nat \<Rightarrow> bool) \<Rightarrow> u8 \<Rightarrow> bytes \<Rightarrow> mouse_data \<Rightarrow> kbd_relay \<Rightarrow> kbd_relay" where
  "relay_out l mouse_takes got m kc md s =
     (if kbd_active_route s = KBD_OUT_RF
      then let s1 = kbd_relay_send_kbd (got 0) m kc s
           in if mouse_moves md then kbd_relay_send_mouse (got 1) md s1 else s1
      else fst (hid_send_kb_mouse l mouse_takes m kc md s))"

definition wireless_sender_step ::
  "links \<Rightarrow> bool \<Rightarrow> bool \<Rightarrow> bool \<Rightarrow> (nat \<Rightarrow> bool) \<Rightarrow> kbd_relay \<Rightarrow> kbd_relay" where
  "wireless_sender_step l mouse_takes mutex_takes takes got s =
     (case hid_queue s of
        Some (msg # rest) \<Rightarrow>
          if \<not> mutex_takes then s \<lparr>hid_queue := Some rest\<rparr>
          else let (q, kc, m, md) = sender_content takes msg rest s
               in relay_out l mouse_takes got m kc md (s \<lparr>hid_queue := Some q\<rparr>)
      | _ \<Rightarrow> s)"

text \<open>What happens to the relay: the timer, reports of the sender, mouse reports.\<close>

datatype relay_event = Refresh bool u32 bool | Keys bool u8 bytes | Mouse bool mouse_data

fun relay_step :: "relay_event \<Rightarrow> kbd_relay \<Rightarrow> kbd_relay" where
  "relay_step (Refresh raw now got) s = (if kr_timer s = Some True then kbd_relay_refresh_cb raw now got s else s)"
| "relay_step (Keys got m kb) s = kbd_relay_send_kbd got m kb s"
| "relay_step (Mouse got m) s = kbd_relay_send_mouse got m s"

section \<open>The debounce of the cable\<close>

text \<open>The pin read at the given times.\<close>

definition vbus_run :: "bool \<Rightarrow> u32 list \<Rightarrow> vbus_debounce \<Rightarrow> vbus_debounce" where
  "vbus_run raw ts d = fold (\<lambda>t. vbus_debounce_step raw t VBUS_DEBOUNCE_MS) ts d"

lemma vbus_settled:
  "vd_init d \<Longrightarrow> vd_cand d = raw \<Longrightarrow> vd_stable d = raw \<Longrightarrow> vbus_run raw ts d = d"
  unfolding vbus_run_def by (induction ts) (simp_all add: vbus_debounce_step_def)

lemma vbus_candidate:
  "vd_init d \<Longrightarrow> vd_cand d = raw \<Longrightarrow> vd_stable d \<noteq> raw \<Longrightarrow>
   vd_stable (vbus_run raw ts d) = (if \<exists>t\<in>set ts. t - vd_since_ms d \<ge> VBUS_DEBOUNCE_MS then raw else \<not> raw)"
proof (induction ts arbitrary: d)
  case Nil
  then show ?case by (simp add: vbus_run_def)
next
  case (Cons t ts)
  show ?case
  proof (cases "t - vd_since_ms d \<ge> VBUS_DEBOUNCE_MS")
    case True
    then have "vbus_run raw (t # ts) d = vbus_run raw ts (d\<lparr>vd_stable := raw\<rparr>)"
      using Cons.prems by (simp add: vbus_run_def vbus_debounce_step_def)
    then show ?thesis using True Cons.prems by (simp add: vbus_settled)
  next
    case False
    then have "vbus_run raw (t # ts) d = vbus_run raw ts d"
      using Cons.prems by (simp add: vbus_run_def vbus_debounce_step_def)
    then show ?thesis using False Cons.IH [OF Cons.prems] by simp
  qed
qed

text \<open>
  The cable counts as plugged in or pulled out when, and only when, the pin has shown it for fifty
  milliseconds; a shorter contact changes nothing, and once the pin has its old level again the
  debounce is back where it was, whatever the clock has done meanwhile.
\<close>

theorem cable_debounced:
  assumes "vd_init d" "vd_stable d = v" "vd_cand d = v"
  shows "vd_stable (vbus_run (\<not> v) (begun # ts) d) =
      (if \<exists>t\<in>set ts. t - begun \<ge> VBUS_DEBOUNCE_MS then \<not> v else v) \<and>
    ((\<forall>t\<in>set ts. t - begun < VBUS_DEBOUNCE_MS) \<longrightarrow>
      vbus_run v (ended # us) (vbus_run (\<not> v) (begun # ts) d) = d\<lparr>vd_since_ms := ended\<rparr>)"
proof -
  let ?d1 = "d\<lparr>vd_cand := \<not> v, vd_since_ms := begun\<rparr>"
  have one: "vbus_run (\<not> v) (begun # ts) d = vbus_run (\<not> v) ts ?d1"
    using assms by (simp add: vbus_run_def vbus_debounce_step_def)
  have glitch: "vbus_run (\<not> v) ts ?d1 = ?d1" if "\<forall>t\<in>set ts. t - begun < VBUS_DEBOUNCE_MS"
    using that assms unfolding vbus_run_def
    by (induction ts) (auto simp: vbus_debounce_step_def not_le [symmetric])
  have restored: "vbus_run v (ended # us) ?d1 = d\<lparr>vd_since_ms := ended\<rparr>"
  proof -
    have same: "d\<lparr>vd_cand := v, vd_since_ms := ended\<rparr> = d\<lparr>vd_since_ms := ended\<rparr>"
      using assms(3) by (cases d) simp
    have "vbus_run v (ended # us) ?d1 = vbus_run v us (d\<lparr>vd_since_ms := ended\<rparr>)"
      using assms by (simp add: vbus_run_def vbus_debounce_step_def flip: same)
    then show ?thesis using assms by (simp add: vbus_settled)
  qed
  have "vd_stable (vbus_run (\<not> v) ts ?d1) = (if \<exists>t\<in>set ts. t - begun \<ge> VBUS_DEBOUNCE_MS then \<not> v else v)"
    using vbus_candidate [of ?d1 "\<not> v" ts] assms by simp
  then show ?thesis using one glitch restored by (metis (no_types, lifting))
qed

lemma cable_debounced_witness:
  "vd_stable (vbus_run True [1000, 1010, 1050] (vbus_debounce_zero\<lparr>vd_init := True\<rparr>)) \<and>
   \<not> vd_stable (vbus_run True [0xFFFFFFF0, 0x10] (vbus_debounce_zero\<lparr>vd_init := True\<rparr>))"
  using cable_debounced [where d = "vbus_debounce_zero\<lparr>vd_init := True\<rparr>" and v = False and begun = "1000" and ts = "[1010, 1050]"]
    cable_debounced [where d = "vbus_debounce_zero\<lparr>vd_init := True\<rparr>" and v = False and begun = "0xFFFFFFF0" and ts = "[0x10]"]
  by (simp add: vbus_debounce_zero_def VBUS_DEBOUNCE_MS_def)

section \<open>What the relay sends\<close>

definition relay_run :: "relay_event list \<Rightarrow> kbd_relay \<Rightarrow> kbd_relay" where
  "relay_run evs s = fold relay_step evs s"

fun keyless :: "relay_event \<Rightarrow> bool" where
  "keyless (Keys got m kb) \<longleftrightarrow> False"
| "keyless (Refresh raw t got) \<longleftrightarrow> True"
| "keyless (Mouse got m) \<longleftrightarrow> True"

fun event_ok :: "relay_event \<Rightarrow> bool" where
  "event_ok (Keys got m kb) \<longleftrightarrow> length kb = 6"
| "event_ok (Refresh raw t got) \<longleftrightarrow> True"
| "event_ok (Mouse got m) \<longleftrightarrow> True"

fun is_kbd :: "rf_hid \<Rightarrow> bool" where
  "is_kbd (HidKbd m kb) \<longleftrightarrow> True"
| "is_kbd (HidMouse b x y w) \<longleftrightarrow> False"

lemma relay_run_simps [simp]:
  "relay_run [] s = s" "relay_run (ev # evs) s = relay_run evs (relay_step ev s)"
  "relay_run (evs @ evs') s = relay_run evs' (relay_run evs s)"
  by (simp_all add: relay_run_def)

lemma tx_locked_fields [simp]:
  "kr_last_mod (kbd_tx_locked got buf s) = kr_last_mod s" "kr_last_kb (kbd_tx_locked got buf s) = kr_last_kb s"
  "kr_left (kbd_tx_locked got buf s) = kr_left s"
  by (simp_all add: kbd_tx_locked_def)

lemma tx_locked_sent:
  "kr_sent (kbd_tx_locked got buf s) = kr_sent s @ (if kr_mutex s \<and> got \<and> \<not> kr_held s then [buf] else [])"
  by (simp add: kbd_tx_locked_def)

lemma poll_fields [simp]:
  "kr_last_mod (usb_presence_poll raw t a s) = kr_last_mod s" "kr_last_kb (usb_presence_poll raw t a s) = kr_last_kb s"
  "kr_left (usb_presence_poll raw t a s) = kr_left s" "kr_sent (usb_presence_poll raw t a s) = kr_sent s"
  "kr_mutex (usb_presence_poll raw t a s) = kr_mutex s" "kr_held (usb_presence_poll raw t a s) = kr_held s"
  "kr_paired (usb_presence_poll raw t a s) = kr_paired s" "kr_timer (usb_presence_poll raw t a s) = kr_timer s"
  by (simp_all add: usb_presence_poll_def usb_presence_active_def Let_def)

text \<open>One step: at most one packet, the live report while the count lasts, or the mouse's.\<close>

lemma refresh_step_sent:
  obtains hs where "kr_sent (kbd_relay_refresh_cb raw t got s) = kr_sent s @ map rf_encode_hid hs"
    "\<forall>h\<in>set hs. h = HidKbd (kr_last_mod s) (kr_last_kb s)"
    "length hs + unat (kr_left (kbd_relay_refresh_cb raw t got s)) \<le> unat (kr_left s)"
    "kr_last_mod (kbd_relay_refresh_cb raw t got s) = kr_last_mod s"
    "kr_last_kb (kbd_relay_refresh_cb raw t got s) = kr_last_kb s"
proof -
  let ?s1 = "usb_presence_poll raw t (kr_paired s) s"
  consider "kbd_active_route ?s1 \<noteq> KBD_OUT_RF \<or> kr_left s = 0"
    | "kbd_active_route ?s1 = KBD_OUT_RF" "kr_left s \<noteq> 0" by blast
  then show ?thesis
  proof cases
    case 1
    then have "kbd_relay_refresh_cb raw t got s = ?s1"
      by (auto simp: kbd_relay_refresh_cb_def kbd_refresh_step_def Let_def)
    then show ?thesis using that [of "[]"] by simp
  next
    case 2
    then have "unat (kr_left s - 1) = unat (kr_left s) - 1" "0 < unat (kr_left s)"
      by (simp_all add: unat_minus_one unat_gt_0)
    moreover have "kbd_relay_refresh_cb raw t got s =
        kbd_tx_locked got (rf_encode_hid (HidKbd (kr_last_mod s) (kr_last_kb s))) (?s1\<lparr>kr_left := kr_left s - 1\<rparr>)"
      using 2 by (simp add: kbd_relay_refresh_cb_def kbd_refresh_step_def Let_def)
    ultimately show ?thesis
      using that [of "if kr_mutex s \<and> got \<and> \<not> kr_held s then [HidKbd (kr_last_mod s) (kr_last_kb s)] else []"]
      by (simp add: tx_locked_sent)
  qed
qed

lemma mouse_step_sent:
  obtains hs where "kr_sent (kbd_relay_send_mouse got m s) = kr_sent s @ map rf_encode_hid hs"
    "\<forall>h\<in>set hs. \<not> is_kbd h" "kr_left (kbd_relay_send_mouse got m s) = kr_left s"
    "kr_last_mod (kbd_relay_send_mouse got m s) = kr_last_mod s"
    "kr_last_kb (kbd_relay_send_mouse got m s) = kr_last_kb s"
proof (cases m)
  case (fields b x y w)
  then show ?thesis
    using that [of "if kr_mutex s \<and> got \<and> \<not> kr_held s then [HidMouse b x y w] else []"]
    by (simp add: kbd_relay_send_mouse_def tx_locked_sent)
qed

lemma keyless_step:
  assumes "keyless ev"
  obtains hs where "kr_sent (relay_step ev s) = kr_sent s @ map rf_encode_hid hs"
    "\<forall>h\<in>set hs. is_kbd h \<longrightarrow> h = HidKbd (kr_last_mod s) (kr_last_kb s)"
    "length (filter is_kbd hs) + unat (kr_left (relay_step ev s)) \<le> unat (kr_left s)"
    "kr_last_mod (relay_step ev s) = kr_last_mod s" "kr_last_kb (relay_step ev s) = kr_last_kb s"
proof (cases ev)
  case (Refresh raw t got)
  show ?thesis
  proof (cases "kr_timer s = Some True")
    case True
    obtain hs where hs: "kr_sent (kbd_relay_refresh_cb raw t got s) = kr_sent s @ map rf_encode_hid hs"
      "\<forall>h\<in>set hs. h = HidKbd (kr_last_mod s) (kr_last_kb s)"
      "length hs + unat (kr_left (kbd_relay_refresh_cb raw t got s)) \<le> unat (kr_left s)"
      "kr_last_mod (kbd_relay_refresh_cb raw t got s) = kr_last_mod s"
      "kr_last_kb (kbd_relay_refresh_cb raw t got s) = kr_last_kb s" by (rule refresh_step_sent)
    moreover have "filter is_kbd hs = hs" using hs(2) by (auto simp: filter_id_conv)
    ultimately show ?thesis using that [of hs] Refresh True by auto
  qed (use that [of "[]"] Refresh in simp)
next
  case (Mouse got m)
  obtain hs where hs: "kr_sent (kbd_relay_send_mouse got m s) = kr_sent s @ map rf_encode_hid hs"
    "\<forall>h\<in>set hs. \<not> is_kbd h" "kr_left (kbd_relay_send_mouse got m s) = kr_left s"
    "kr_last_mod (kbd_relay_send_mouse got m s) = kr_last_mod s"
    "kr_last_kb (kbd_relay_send_mouse got m s) = kr_last_kb s" by (rule mouse_step_sent)
  moreover have "filter is_kbd hs = []" using hs(2) by (simp add: filter_empty_conv)
  ultimately show ?thesis using that [of hs] Mouse by auto
qed (use assms in simp)

lemma keyless_run:
  assumes "\<forall>ev\<in>set evs. keyless ev"
  shows "\<exists>hs. kr_sent (relay_run evs s) = kr_sent s @ map rf_encode_hid hs \<and>
    (\<forall>h\<in>set hs. is_kbd h \<longrightarrow> h = HidKbd (kr_last_mod s) (kr_last_kb s)) \<and>
    length (filter is_kbd hs) \<le> unat (kr_left s)"
  using assms
proof (induction evs arbitrary: s)
  case Nil
  then show ?case by simp
next
  case (Cons ev evs)
  obtain hs where hs: "kr_sent (relay_step ev s) = kr_sent s @ map rf_encode_hid hs"
    "\<forall>h\<in>set hs. is_kbd h \<longrightarrow> h = HidKbd (kr_last_mod s) (kr_last_kb s)"
    "length (filter is_kbd hs) + unat (kr_left (relay_step ev s)) \<le> unat (kr_left s)"
    "kr_last_mod (relay_step ev s) = kr_last_mod s" "kr_last_kb (relay_step ev s) = kr_last_kb s"
    using keyless_step [of ev s] Cons.prems by auto
  obtain hs' where hs': "kr_sent (relay_run evs (relay_step ev s)) = kr_sent (relay_step ev s) @ map rf_encode_hid hs'"
    "\<forall>h\<in>set hs'. is_kbd h \<longrightarrow> h = HidKbd (kr_last_mod s) (kr_last_kb s)"
    "length (filter is_kbd hs') \<le> unat (kr_left (relay_step ev s))"
    using Cons.IH [of "relay_step ev s"] Cons.prems hs(4,5) by auto
  show ?case by (rule exI [of _ "hs @ hs'"]) (use hs hs' in auto)
qed


lemma keys_step:
  "kr_sent (relay_step (Keys got m kb) s) =
     kr_sent s @ (if kr_mutex s \<and> got \<and> \<not> kr_held s then [rf_encode_hid (HidKbd m kb)] else [])"
  "kr_last_mod (relay_step (Keys got m kb) s) = m" "kr_last_kb (relay_step (Keys got m kb) s) = kb"
  "kr_left (relay_step (Keys got m kb) s) = KBD_RELAY_REPEATS"
  by (simp_all add: kbd_relay_send_kbd_def kbd_refresh_arm_def tx_locked_sent)

lemma keys_run:
  assumes "\<forall>ev\<in>set evs. keyless ev"
  shows "\<exists>hs. kr_sent (relay_run (Keys got m kb # evs) s) = kr_sent s @ map rf_encode_hid hs \<and>
    (\<forall>h\<in>set hs. is_kbd h \<longrightarrow> h = HidKbd m kb) \<and> length (filter is_kbd hs) \<le> 6"
proof -
  let ?s1 = "relay_step (Keys got m kb) s"
  let ?new = "if kr_mutex s \<and> got \<and> \<not> kr_held s then [HidKbd m kb] else []"
  obtain hs where hs: "kr_sent (relay_run evs ?s1) = kr_sent ?s1 @ map rf_encode_hid hs"
    "\<forall>h\<in>set hs. is_kbd h \<longrightarrow> h = HidKbd m kb" "length (filter is_kbd hs) \<le> unat KBD_RELAY_REPEATS"
    using keyless_run [OF assms, of ?s1] unfolding keys_step by blast
  show ?thesis
    by (rule exI [of _ "?new @ hs"]) (use hs keys_step(1) [of got m kb s] in \<open>auto simp: KBD_RELAY_REPEATS_def\<close>)
qed

text \<open>
  After a report the relay falls silent by itself: however many ticks of its timer and reports of
  the mouse follow, at most six packets carry the keys, each of them this very report, until
  the keys change again.
\<close>

theorem relay_falls_silent:
  assumes "\<forall>ev\<in>set evs. keyless ev"
  shows "\<exists>hs. kr_sent (relay_run (Keys got m kb # evs) s) = kr_sent s @ map rf_encode_hid hs \<and>
    (\<forall>h\<in>set hs. is_kbd h \<longrightarrow> h = HidKbd m kb) \<and> length (filter is_kbd hs) \<le> 6"
  using keys_run [OF assms] by blast

section \<open>The lossy link\<close>

lemma run_hids:
  assumes "\<forall>ev\<in>set evs. event_ok ev" "length (kr_last_kb s) = 6"
  shows "\<exists>hs. kr_sent (relay_run evs s) = kr_sent s @ map rf_encode_hid hs \<and> (\<forall>h\<in>set hs. wf_hid h) \<and>
    length (kr_last_kb (relay_run evs s)) = 6"
  using assms
proof (induction evs arbitrary: s)
  case Nil
  then show ?case by simp
next
  case (Cons ev evs)
  let ?s1 = "relay_step ev s"
  obtain hs where hs: "kr_sent ?s1 = kr_sent s @ map rf_encode_hid hs" "\<forall>h\<in>set hs. wf_hid h"
    "length (kr_last_kb ?s1) = 6"
  proof (cases "keyless ev")
    case True
    have wf: "wf_hid h" if "is_kbd h \<longrightarrow> h = HidKbd (kr_last_mod s) (kr_last_kb s)" for h
      using that Cons.prems(2) by (cases h) auto
    show ?thesis using keyless_step [OF True, of s] that wf Cons.prems(2) by metis
  next
    case False
    then obtain got m kb where ev: "ev = Keys got m kb" by (cases ev) auto
    then show ?thesis
      using that [of "if kr_mutex s \<and> got \<and> \<not> kr_held s then [HidKbd m kb] else []"] Cons.prems(1)
        keys_step(1,3) [of got m kb s] by (simp del: relay_step.simps split: if_splits)
  qed
  obtain hs' where "kr_sent (relay_run evs ?s1) = kr_sent ?s1 @ map rf_encode_hid hs'" "\<forall>h\<in>set hs'. wf_hid h"
    "length (kr_last_kb (relay_run evs ?s1)) = 6"
    using Cons.IH [OF _ hs(3)] Cons.prems(1) by auto
  then show ?case using hs by (intro exI [of _ "hs @ hs'"]) auto
qed

lemma subseq_of_map: "subseq xs (map f ys) \<Longrightarrow> \<exists>zs. subseq zs ys \<and> xs = map f zs"
  by (metis nths_map subseq_conv_nths)

lemma subseq_set: "subseq xs ys \<Longrightarrow> set xs \<subseteq> set ys"
  by (metis set_nths_subset subseq_conv_nths)

lemma encode_hid_inj: "wf_hid g \<Longrightarrow> wf_hid h \<Longrightarrow> rf_encode_hid g = rf_encode_hid h \<Longrightarrow> g = h"
  by (metis hid_pkt.dec_enc_exact option.inject)

fun is_keys :: "hid_packet \<Rightarrow> bool" where
  "is_keys (KbReport m kb) \<longleftrightarrow> True"
| "is_keys (MouseReport md) \<longleftrightarrow> False"

lemma is_keys_report [simp]: "is_keys (as_report h) = is_kbd h"
  by (cases h) simp_all

lemma last_kept: "set xs \<subseteq> {x} \<Longrightarrow> xs \<noteq> [] \<Longrightarrow> last (ys @ xs) = x"
  by (metis insert_iff last_appendR last_in_set singleton_iff subset_iff)

text \<open>
  C19: The link heals a lost report. Whatever packets the air swallows, in whatever runs, as long as
  one packet sent since the keys last changed arrives, the last key report the dongle gives to
  its computer is the keyboard's present one: no key stays down, and none is missing.
\<close>

theorem lossy_link_heals:
  assumes "usb_alive e" "kr_sent s = []" "length (kr_last_kb s) = 6"
    and "\<forall>ev\<in>set evs. event_ok ev" "length kb = 6" "\<forall>ev\<in>set evs'. keyless ev"
    and "subseq heard (kr_sent (relay_run evs s))"
    and "subseq heard' (drop (length (kr_sent (relay_run evs s))) (kr_sent (relay_run (evs @ Keys got m kb # evs') s)))"
    and "rf_encode_hidreport_kbd m kb \<in> set heard'"
  shows "last (filter is_keys (dg_sent (drain_radio e now slot (heard @ heard') d))) = KbReport m kb"
proof -
  let ?s = "relay_run evs s"
  obtain hs where hs: "kr_sent ?s = map rf_encode_hid hs" "\<forall>h\<in>set hs. wf_hid h"
    using run_hids [OF assms(4,3)] assms(2) by auto
  obtain hs' where hs': "kr_sent (relay_run (Keys got m kb # evs') ?s) = kr_sent ?s @ map rf_encode_hid hs'"
    "\<forall>h\<in>set hs'. is_kbd h \<longrightarrow> h = HidKbd m kb" using keys_run [OF assms(6)] by blast
  have wf': "wf_hid h" if "h \<in> set hs'" for h using bspec [OF hs'(2) that] assms(5) by (cases h rule: rf_hid.exhaust) auto
  obtain gs where gs: "subseq gs hs" "heard = map rf_encode_hid gs"
    using subseq_of_map assms(7) hs(1) by metis
  have "subseq heard' (map rf_encode_hid hs')" using assms(8) hs'(1) by simp
  then obtain gs' where gs': "subseq gs' hs'" "heard' = map rf_encode_hid gs'" using subseq_of_map by metis
  have sub: "set gs \<subseteq> set hs" "set gs' \<subseteq> set hs'" using gs(1) gs'(1) by (simp_all add: subseq_set)
  have "HidKbd m kb \<in> set gs'"
  proof -
    obtain g where "g \<in> set gs'" "rf_encode_hid g = rf_encode_hid (HidKbd m kb)" using assms(9) gs'(2) by auto
    then show ?thesis using encode_hid_inj [of g "HidKbd m kb"] wf' sub(2) assms(5) by auto
  qed
  then have "KbReport m kb \<in> set (filter is_keys (map as_report gs'))" by force
  moreover have "r = KbReport m kb" if r: "r \<in> set (filter is_keys (map as_report gs'))" for r
  proof -
    obtain h where h: "h \<in> set gs'" "is_kbd h" "r = as_report h" using r by auto
    then have "h = HidKbd m kb" using hs'(2) sub(2) by blast
    then show ?thesis using h(3) by simp
  qed
  ultimately have "filter is_keys (map as_report gs') \<noteq> []" "set (filter is_keys (map as_report gs')) \<subseteq> {KbReport m kb}"
    by (metis empty_iff list.set(1), blast)
  then have "last (filter is_keys (dg_sent d @ map as_report gs) @ filter is_keys (map as_report gs')) = KbReport m kb"
    by (intro last_kept)
  moreover have "\<forall>h\<in>set (gs @ gs'). wf_hid h" using sub hs(2) wf' by (auto simp: subset_iff)
  then have "dg_sent (drain_radio e now slot (heard @ heard') d) = dg_sent d @ map as_report (gs @ gs')"
    using drain_hids [OF assms(1), of "gs @ gs'" now slot d] gs(2) gs'(2) by simp
  ultimately show ?thesis by (simp del: filter_map)
qed

section \<open>From the start\<close>

definition relay_boot :: "nat \<Rightarrow> nat \<Rightarrow> u16 list list list \<Rightarrow> macro list \<Rightarrow> kbd_relay" where
  "relay_boot rows cols km macros =
     kb.extend (kb_boot rows cols km macros)
       (kbd_relay.fields vbus_debounce_zero KBD_OUT_USB (kbd_nrf_cfg 0 0) False False False None True
          0 (replicate 6 0) 0 [])"

text \<open>Paired, awake, and the pin read as without a cable.\<close>

definition relay_ready :: "kbd_relay \<Rightarrow> bool" where
  "relay_ready s \<longleftrightarrow> kr_paired s \<and> kr_mutex s \<and> \<not> kr_held s \<and> kr_timer s = Some True \<and>
     vd_init (kr_db s) \<and> \<not> vd_stable (kr_db s) \<and> \<not> vd_cand (kr_db s)"

lemma ready_keys: "relay_ready s \<Longrightarrow> relay_ready (relay_step (Keys got m kb) s)"
  by (simp add: relay_ready_def kbd_relay_send_kbd_def kbd_refresh_arm_def kbd_tx_locked_def)

lemma ready_refresh:
  assumes "relay_ready s"
  shows "relay_ready (relay_step (Refresh False t True) s)"
    "kr_sent (relay_step (Refresh False t True) s) =
       kr_sent s @ (if kr_left s = 0 then [] else [rf_encode_hidreport_kbd (kr_last_mod s) (kr_last_kb s)])"
    "kr_left (relay_step (Refresh False t True) s) = (if kr_left s = 0 then 0 else kr_left s - 1)"
    "kr_last_mod (relay_step (Refresh False t True) s) = kr_last_mod s"
    "kr_last_kb (relay_step (Refresh False t True) s) = kr_last_kb s"
proof -
  have poll: "usb_presence_poll False t True s = s\<lparr>kr_db := kr_db s, kr_route := KBD_OUT_RF\<rparr>"
    using assms by (simp add: relay_ready_def usb_presence_poll_def usb_presence_active_def vbus_debounce_step_def
        kbd_route_target_def Let_def)
  show "relay_ready (relay_step (Refresh False t True) s)"
    "kr_sent (relay_step (Refresh False t True) s) =
       kr_sent s @ (if kr_left s = 0 then [] else [rf_encode_hidreport_kbd (kr_last_mod s) (kr_last_kb s)])"
    "kr_left (relay_step (Refresh False t True) s) = (if kr_left s = 0 then 0 else kr_left s - 1)"
    "kr_last_mod (relay_step (Refresh False t True) s) = kr_last_mod s"
    "kr_last_kb (relay_step (Refresh False t True) s) = kr_last_kb s"
    using assms by (simp_all add: poll relay_ready_def kbd_relay_refresh_cb_def kbd_active_route_def
        kbd_refresh_step_def kbd_tx_locked_def Let_def)
qed

lemma refresh_run:
  "relay_ready s \<Longrightarrow>
   kr_sent (relay_run (map (\<lambda>t. Refresh False t True) ts) s) =
     kr_sent s @ replicate (min (unat (kr_left s)) (length ts)) (rf_encode_hidreport_kbd (kr_last_mod s) (kr_last_kb s))"
proof (induction ts arbitrary: s)
  case Nil
  then show ?case by simp
next
  case (Cons t ts)
  let ?s1 = "relay_step (Refresh False t True) s"
  note st = ready_refresh [OF Cons.prems, of t]
  have n: "unat (kr_left s - 1) = unat (kr_left s) - 1" "0 < unat (kr_left s)" if "kr_left s \<noteq> 0"
    using that by (simp_all add: unat_minus_one unat_gt_0)
  have "kr_sent (relay_run (map (\<lambda>t. Refresh False t True) (t # ts)) s) =
      kr_sent ?s1 @ replicate (min (unat (kr_left ?s1)) (length ts)) (rf_encode_hidreport_kbd (kr_last_mod s) (kr_last_kb s))"
    using Cons.IH [OF st(1)] by (simp del: relay_step.simps add: st(4,5))
  also have "\<dots> = kr_sent s @ replicate (min (unat (kr_left s)) (length (t # ts)))
      (rf_encode_hidreport_kbd (kr_last_mod s) (kr_last_kb s))"
  proof (cases "kr_left s = 0")
    case False
    then obtain k where "unat (kr_left s) = Suc k" using n(2) by (cases "unat (kr_left s)") auto
    then show ?thesis using False n(1) by (simp del: relay_step.simps add: st(2,3))
  qed (simp del: relay_step.simps add: st(2,3))
  finally show ?case .
qed

text \<open>
  A paired keyboard without a cable sends each report at once and again on each of the next five
  ticks of the relay's timer: as many chances of the packet's own retries to get the report
  across.
\<close>

theorem relay_repeats:
  assumes "relay_ready s"
  shows "kr_sent (relay_run (Keys True m kb # map (\<lambda>t. Refresh False t True) ts) s) =
    kr_sent s @ replicate (1 + min 5 (length ts)) (rf_encode_hidreport_kbd m kb)"
proof -
  let ?s1 = "relay_step (Keys True m kb) s"
  have "kr_sent ?s1 = kr_sent s @ [rf_encode_hidreport_kbd m kb]"
    using assms keys_step(1) [of True m kb s] by (simp del: relay_step.simps add: relay_ready_def)
  then show ?thesis
    using refresh_run [OF ready_keys [OF assms, of True m kb], of ts]
    by (simp del: relay_step.simps add: keys_step KBD_RELAY_REPEATS_def)
qed

lemma boot_views:
  "kr_sent (relay_boot rows cols km macros) = []" "kr_last_kb (relay_boot rows cols km macros) = replicate 6 0"
  by (simp_all add: relay_boot_def kb.defs kbd_relay.defs)

text \<open>A paired keyboard after its first tick.\<close>

definition demo_relay :: kbd_relay where
  "demo_relay = (relay_boot 1 1 [] [])\<lparr>kr_paired := True, kr_mutex := True, kr_timer := Some True,
     kr_db := vbus_debounce_zero\<lparr>vd_init := True\<rparr>, kr_route := KBD_OUT_RF\<rparr>"

lemma demo_views:
  "kr_sent demo_relay = []" "kr_last_kb demo_relay = replicate 6 0" "relay_ready demo_relay"
  "kr_mutex demo_relay" "\<not> kr_held demo_relay"
  by (simp_all add: demo_relay_def boot_views relay_ready_def relay_boot_def kb.defs kbd_relay.defs vbus_debounce_zero_def)

lemma relay_repeats_witness:
  "length (kr_sent (relay_run (Keys True 2 [4, 0, 0, 0, 0, 0] # map (\<lambda>t. Refresh False t True) [10, 20, 30, 40, 50, 60, 70]) demo_relay)) = 6"
  using relay_repeats [OF demo_views(3), of 2 "[4, 0, 0, 0, 0, 0]" "[10, 20, 30, 40, 50, 60, 70]"] demo_views(1) by simp

lemma relay_falls_silent_witness:
  "\<exists>hs. kr_sent (relay_run [Keys True 2 [4, 0, 0, 0, 0, 0], Refresh False 10 True, Mouse True (0, 1, 1, 0)] demo_relay) =
     map rf_encode_hid hs \<and> (\<forall>h\<in>set hs. is_kbd h \<longrightarrow> h = HidKbd 2 [4, 0, 0, 0, 0, 0])"
  using relay_falls_silent [of "[Refresh False 10 True, Mouse True (0, 1, 1, 0)]" True 2 "[4, 0, 0, 0, 0, 0]" demo_relay]
    demo_views(1) by (auto simp del: relay_run_simps)

lemma lossy_link_heals_witness:
  "last (filter is_keys (dg_sent (drain_radio demo_env 0 0 [rf_encode_hidreport_kbd 2 [4, 0, 0, 0, 0, 0], rf_encode_hidreport_kbd 0 [0, 0, 0, 0, 0, 0]]
     (demo_dongle 0)))) = KbReport 0 [0, 0, 0, 0, 0, 0]"
proof -
  let ?down = "Keys True 2 [4, 0, 0, 0, 0, 0]"
  let ?up = "Keys True 0 [0, 0, 0, 0, 0, 0]"
  let ?tick = "Refresh False 10 True"
  have one: "kr_sent (relay_run [?down] demo_relay) = [rf_encode_hidreport_kbd 2 [4, 0, 0, 0, 0, 0]]"
    using keys_step(1) [of True 2 "[4, 0, 0, 0, 0, 0]" demo_relay] by (simp add: demo_views)
  have "relay_ready (relay_run [?down] demo_relay)"
    using ready_keys [OF demo_views(3)] by (simp del: relay_step.simps)
  then have "kr_sent (relay_run (?up # map (\<lambda>t. Refresh False t True) [10]) (relay_run [?down] demo_relay)) =
      kr_sent (relay_run [?down] demo_relay) @ replicate (1 + min 5 1) (rf_encode_hidreport_kbd 0 [0, 0, 0, 0, 0, 0])"
    using relay_repeats [of "relay_run [?down] demo_relay" 0 "[0, 0, 0, 0, 0, 0]" "[10]"] by (simp del: relay_run_simps)
  then have "drop (length (kr_sent (relay_run [?down] demo_relay))) (kr_sent (relay_run ([?down] @ ?up # [?tick]) demo_relay)) =
      [rf_encode_hidreport_kbd 0 [0, 0, 0, 0, 0, 0], rf_encode_hidreport_kbd 0 [0, 0, 0, 0, 0, 0]]"
    by (simp add: numeral_2_eq_2)
  then show ?thesis
    using lossy_link_heals [where e = demo_env and s = demo_relay and evs = "[?down]" and evs' = "[?tick]" and got = True
        and m = 0 and kb = "[0, 0, 0, 0, 0, 0]" and now = 0 and slot = 0 and d = "demo_dongle 0"
        and heard = "[rf_encode_hidreport_kbd 2 [4, 0, 0, 0, 0, 0]]" and heard' = "[rf_encode_hidreport_kbd 0 [0, 0, 0, 0, 0, 0]]"] one
    by (simp del: relay_run_simps relay_step.simps add: demo_views usb_alive_def demo_env_def)
qed


section \<open>What does not take the radio\<close>

lemma tap_without_cable:
  "usb_bl_state s = 0 \<Longrightarrow> \<not> usb_ready (tn_links e) \<Longrightarrow> send_tap e kc m s = s"
  by (simp add: send_tap_def hid_send_keyboard_def send_usb_keyboard_def)

lemma play_without_cable:
  "usb_bl_state s = 0 \<Longrightarrow> \<not> usb_ready (tn_links e) \<Longrightarrow> play_steps e pm steps s = s"
  by (induction e pm steps s rule: play_steps.induct) (simp_all add: tap_without_cable)

text \<open>
  The taps of tap dances, leader sequences and macros are written to the USB endpoint and never to
  the relay: on a keyboard whose cable is out they reach no computer. The dance, the sequence
  and the macro are used up and neither the radio, nor the wire, nor the queue has had anything
  of them, while a report of the queue does leave by radio.
\<close>

theorem wireless_taps_lost:
  fixes s :: kbd_relay
  assumes "usb_bl_state s = 0" "\<not> usb_ready (tn_links e)" "kbd_active_route s = KBD_OUT_RF"
    and "kr_mutex s" "\<not> kr_held s"
  shows "dance_cycle e s = (if tap_dance_just_resolved s then fst (tap_dance_consume s) else s) \<and>
    (\<forall>s'\<in>{dance_cycle e s, leader_cycle e s, play_macro e s}.
       kr_sent s' = kr_sent s \<and> wire s' = wire s \<and> hid_queue s' = hid_queue s) \<and>
    (hid_queue s = Some [HID_MSG_KEYBOARD kc m] \<longrightarrow>
       kr_sent (wireless_sender_step (tn_links e) takes True True (\<lambda>_. True) s) =
         kr_sent s @ [rf_encode_hidreport_kbd m kc])"
proof (intro conjI)
  let ?td = "fst (tap_dance_consume s)"
  have td: "usb_bl_state ?td = usb_bl_state s"
    by (simp add: tap_dance_consume_def Let_def)
  show dance: "dance_cycle e s = (if tap_dance_just_resolved s then ?td else s)"
    using tap_without_cable [of ?td e] td assms(1,2) by (simp add: dance_cycle_def Let_def case_prod_beta)
  have "kr_sent ?td = kr_sent s \<and> wire ?td = wire s \<and> hid_queue ?td = hid_queue s"
    by (simp add: tap_dance_consume_def Let_def)
  then have d: "kr_sent (dance_cycle e s) = kr_sent s \<and> wire (dance_cycle e s) = wire s \<and>
      hid_queue (dance_cycle e s) = hid_queue s" by (simp add: dance)
  have l: "kr_sent (leader_cycle e s) = kr_sent s \<and> wire (leader_cycle e s) = wire s \<and>
      hid_queue (leader_cycle e s) = hid_queue s"
    using assms(1,2)
    by (simp add: leader_cycle_def leader_tick_def leader_cancel_def try_match_def leader_consume_def Let_def tap_without_cable split: prod.splits option.splits)
  have m: "kr_sent (play_macro e s) = kr_sent s \<and> wire (play_macro e s) = wire s \<and>
      hid_queue (play_macro e s) = hid_queue s"
    using assms(1,2)
    by (simp add: play_macro_def key_processor_consume_macro_def Let_def play_without_cable split: prod.splits)
  show "\<forall>s'\<in>{dance_cycle e s, leader_cycle e s, play_macro e s}.
       kr_sent s' = kr_sent s \<and> wire s' = wire s \<and> hid_queue s' = hid_queue s" using d l m by simp
  show "hid_queue s = Some [HID_MSG_KEYBOARD kc m] \<longrightarrow>
       kr_sent (wireless_sender_step (tn_links e) takes True True (\<lambda>_. True) s) =
         kr_sent s @ [rf_encode_hidreport_kbd m kc]"
    using assms(3-5) by (simp add: wireless_sender_step_def sender_content_def relay_out_def kbd_active_route_def
        mouse_moves_def kbd_relay_send_kbd_def kbd_refresh_arm_def kbd_tx_locked_def Let_def)
qed

text \<open>A dance of one tap on \<open>A\<close> has been resolved.\<close>

definition demo_unplugged :: turn where
  "demo_unplugged = (quiet_turn 0)\<lparr>tn_links := \<lparr>usb_ready = False, usb_takes = False, bt_ready = False\<rparr>\<rparr>"

definition demo_dance :: kbd_relay where
  "demo_dance = demo_relay\<lparr>td_resolved_flag := True, td_resolved_keycode := 4,
     hid_queue := Some [HID_MSG_KEYBOARD [5, 0, 0, 0, 0, 0] 0]\<rparr>"

lemma wireless_taps_lost_witness:
  "tap_dance_just_resolved demo_dance \<and> \<not> tap_dance_just_resolved (dance_cycle demo_unplugged demo_dance) \<and>
   kr_sent (dance_cycle demo_unplugged demo_dance) = [] \<and>
   kr_sent (wireless_sender_step (tn_links demo_unplugged) True True True (\<lambda>_. True) demo_dance) =
     [rf_encode_hidreport_kbd 0 [5, 0, 0, 0, 0, 0]]"
proof -
  have pre: "usb_bl_state demo_dance = 0" "\<not> usb_ready (tn_links demo_unplugged)" "kbd_active_route demo_dance = KBD_OUT_RF"
    "kr_mutex demo_dance" "\<not> kr_held demo_dance" "kr_sent demo_dance = []" "tap_dance_just_resolved demo_dance"
    "hid_queue demo_dance = Some [HID_MSG_KEYBOARD [5, 0, 0, 0, 0, 0] 0]"
    by (simp_all add: demo_dance_def demo_unplugged_def demo_relay_def relay_boot_def kbd_active_route_def kb.defs
        kbd_relay.defs tap_dance_just_resolved_def kb_boot_def keyboard_manager_init_def hid_report_init_def
        key_override_init_def leader_init_def combo_init_def tap_dance_init_def tap_hold_init_def kb_statics_def)
  note lost = wireless_taps_lost [OF pre(1-5), of "[5, 0, 0, 0, 0, 0]" 0 True]
  have "dance_cycle demo_unplugged demo_dance = fst (tap_dance_consume demo_dance)" using lost pre(7) by simp
  then have "\<not> tap_dance_just_resolved (dance_cycle demo_unplugged demo_dance)"
    by (simp add: tap_dance_consume_def tap_dance_just_resolved_def Let_def)
  moreover have "kr_sent (dance_cycle demo_unplugged demo_dance) = []" using lost pre(6) by (metis insertI1)
  moreover have "kr_sent (wireless_sender_step (tn_links demo_unplugged) True True True (\<lambda>_. True) demo_dance) =
      [rf_encode_hidreport_kbd 0 [5, 0, 0, 0, 0, 0]]" using lost pre(6,8) by simp
  ultimately show ?thesis using pre(7) by blast
qed

section \<open>Asleep\<close>

lemma held_steps:
  "kr_held s \<Longrightarrow> kr_sent (relay_step ev s) = kr_sent s \<and> kr_held (relay_step ev s)"
  by (cases ev) (auto simp: kbd_relay_refresh_cb_def kbd_refresh_step_def kbd_relay_send_kbd_def kbd_refresh_arm_def
      kbd_relay_send_mouse_def kbd_tx_locked_def usb_presence_poll_def usb_presence_active_def Let_def split: prod.splits)

text \<open>
  A sleeping keyboard sends nothing: once the lock is had for the sleep no event makes the relay send, and
  waking up restores the radio, the lock and the timer as they were.
\<close>

theorem asleep_sends_nothing:
  "(kr_mutex s \<longrightarrow> kr_sent (relay_run evs (kbd_relay_sleep_prepare True s)) = kr_sent s) \<and>
   (kr_timer s \<noteq> Some False \<longrightarrow> \<not> kr_held s \<longrightarrow> kr_powered s \<longrightarrow>
      kbd_relay_wake_restore (kbd_relay_sleep_prepare got s) = s)"
proof (intro conjI impI)
  assume "kr_mutex s"
  have run: "kr_held u \<Longrightarrow> kr_sent (relay_run evs u) = kr_sent u" for u
    by (induction evs arbitrary: u) (use held_steps in \<open>simp_all del: relay_step.simps\<close>)
  show "kr_sent (relay_run evs (kbd_relay_sleep_prepare True s)) = kr_sent s"
    using run [of "kbd_relay_sleep_prepare True s"] \<open>kr_mutex s\<close> by (simp add: kbd_relay_sleep_prepare_def)
next
  assume "kr_timer s \<noteq> Some False" "\<not> kr_held s" "kr_powered s"
  then show "kbd_relay_wake_restore (kbd_relay_sleep_prepare got s) = s"
    by (cases "kr_timer s") (auto simp: kbd_relay_wake_restore_def kbd_relay_sleep_prepare_def)
qed

lemma asleep_sends_nothing_witness:
  "kr_sent (relay_run [Keys True 2 [4, 0, 0, 0, 0, 0], Refresh False 10 True] (kbd_relay_sleep_prepare True demo_relay)) = [] \<and>
   kr_timer demo_relay \<noteq> Some False"
  using asleep_sends_nothing [of demo_relay "[Keys True 2 [4, 0, 0, 0, 0, 0], Refresh False 10 True]" True] demo_views
  by (simp del: relay_run_simps add: relay_ready_def)


end
