(* ===== verification/Keymap_Store.thy ===== *)
theory Keymap_Store
  imports Key_Processor
begin

unbundle bit_operations_syntax

text \<open>
  \<open>main/input/keymap.c\<close> and the loads of \<open>main.c\<close>: keymaps, layer names and macros in flash. The arrays are
  stored as their bytes in memory, so the size that a load compares is that of the array; a
  load that refuses what it finds leaves the built-in values. As in \<open>Nvs\<close>, \<open>rc n\<close> is what the
  \<open>n\<close>-th call into the storage returns.
\<close>

section \<open>Arrays as bytes\<close>

definition u16_bytes :: "u16 \<Rightarrow> bytes" where
  "u16_bytes w = [lo8 w, hi8 w]"

text \<open>\<open>n\<close> rows of \<open>m\<close> elements.\<close>

definition chop :: "nat \<Rightarrow> nat \<Rightarrow> 'a list \<Rightarrow> 'a list list" where
  "chop n m xs = map (\<lambda>i. take m (drop (i * m) xs)) [0..<n]"

definition keymap_bytes :: "u16 list list list \<Rightarrow> bytes" where
  "keymap_bytes km = concat (map u16_bytes (concat (concat km)))"

definition bytes_keymap :: "nat \<Rightarrow> nat \<Rightarrow> nat \<Rightarrow> bytes \<Rightarrow> u16 list list list" where
  "bytes_keymap layers rows cols bs =
     map (chop rows cols) (chop layers (rows * cols)
       (map (\<lambda>b. be16 (b ! 1) (b ! 0)) (chop (layers * rows * cols) 2 bs)))"

definition MAX_LAYOUT_NAME_LENGTH :: nat where "MAX_LAYOUT_NAME_LENGTH = 15"
definition MAX_MACRO_NAME_LENGTH :: nat where "MAX_MACRO_NAME_LENGTH = 16"

record macro_t =
  mt_name :: bytes
  mt_steps :: "(u8 \<times> u8) list"
  mt_keys :: bytes
  mt_key_definition :: u16

definition macro_ok :: "macro_t \<Rightarrow> bool" where
  "macro_ok m \<longleftrightarrow> length (mt_name m) = MAX_MACRO_NAME_LENGTH \<and> length (mt_steps m) = MACRO_MAX_STEPS \<and>
     length (mt_keys m) = 6"

definition macro_bytes :: "macro_t \<Rightarrow> bytes" where
  "macro_bytes m = mt_name m @ concat (map (\<lambda>(k, d). [k, d]) (mt_steps m)) @ mt_keys m @
     u16_bytes (mt_key_definition m)"

definition MACRO_SIZE :: nat where "MACRO_SIZE = MAX_MACRO_NAME_LENGTH + 2 * MACRO_MAX_STEPS + 6 + 2"

definition bytes_macro :: "bytes \<Rightarrow> macro_t" where
  "bytes_macro b =
     \<lparr>mt_name = take MAX_MACRO_NAME_LENGTH b,
      mt_steps = map (\<lambda>s. (s ! 0, s ! 1)) (chop MACRO_MAX_STEPS 2 (drop MAX_MACRO_NAME_LENGTH b)),
      mt_keys = take 6 (drop (MAX_MACRO_NAME_LENGTH + 2 * MACRO_MAX_STEPS) b),
      mt_key_definition = (let d = drop (MAX_MACRO_NAME_LENGTH + 2 * MACRO_MAX_STEPS + 6) b in be16 (d ! 1) (d ! 0))\<rparr>"

lemmas store_sizes = MAX_LAYOUT_NAME_LENGTH_def MAX_MACRO_NAME_LENGTH_def MAX_MACROS_def MACRO_MAX_STEPS_def
  MACRO_SIZE_def

section \<open>Saving\<close>

text \<open>All values are tried and committed, whatever fails; the result is whether all went well.\<close>

fun nvs_try_all :: "(nat \<Rightarrow> nvs_rc) \<Rightarrow> nat \<Rightarrow> (string \<times> nvs_val) list \<Rightarrow> bool \<Rightarrow> kv \<Rightarrow> kv \<times> bool \<times> nat" where
  "nvs_try_all rc io [] ok cur = (cur, ok, io)"
| "nvs_try_all rc io ((k, v) # ws) ok cur =
     (case rc io of NvsOk \<Rightarrow> nvs_try_all rc (io + 1) ws ok (cur(k \<mapsto> v))
      | NvsErr kept \<Rightarrow> nvs_try_all rc (io + 1) ws False (if kept then cur(k \<mapsto> v) else cur))"

definition nvs_save_all :: "(nat \<Rightarrow> nvs_rc) \<Rightarrow> nat \<Rightarrow> (string \<times> nvs_val) list \<Rightarrow> kv \<Rightarrow> kv \<times> bool \<times> nat" where
  "nvs_save_all rc io ws flash =
     (case rc io of
        NvsErr _ \<Rightarrow> (flash, False, io + 1)
      | NvsOk \<Rightarrow>
          (let (cur, ok, io1) = nvs_try_all rc (io + 1) ws True flash in
           case rc io1 of NvsOk \<Rightarrow> (cur, ok, io1 + 1)
           | NvsErr kept \<Rightarrow> (if kept then cur else flash, False, io1 + 1)))"

definition save_keymaps :: "(nat \<Rightarrow> nvs_rc) \<Rightarrow> nat \<Rightarrow> u16 list list list \<Rightarrow> kv \<Rightarrow> kv \<times> bool \<times> nat" where
  "save_keymaps rc io km = nvs_save_all rc io [(''keymaps'', NvBlob (keymap_bytes km))]"

definition save_layout_names :: "(nat \<Rightarrow> nvs_rc) \<Rightarrow> nat \<Rightarrow> bytes list \<Rightarrow> kv \<Rightarrow> kv \<times> bool \<times> nat" where
  "save_layout_names rc io names = nvs_save_all rc io [(''layout_names'', NvBlob (concat names))]"

definition MACROS_NVS_VERSION :: u32 where "MACROS_NVS_VERSION = 1"

definition save_macros :: "(nat \<Rightarrow> nvs_rc) \<Rightarrow> nat \<Rightarrow> macro_t list \<Rightarrow> nat \<Rightarrow> kv \<Rightarrow> kv \<times> bool \<times> nat" where
  "save_macros rc io macros count = nvs_save_all rc io
     [(''macros'', NvBlob (concat (map macro_bytes macros))), (''macros_count'', NvU32 (word_of_nat count)),
      (''macros_ver'', NvU32 MACROS_NVS_VERSION)]"

section \<open>Loading\<close>

text \<open>The size is asked for first, then the blob is read into the array, which keeps its tail when
  the blob is shorter.\<close>

definition load_array :: "(nat \<Rightarrow> nvs_rc) \<Rightarrow> nat \<Rightarrow> string \<Rightarrow> nat \<Rightarrow> bytes \<Rightarrow> kv \<Rightarrow> bytes" where
  "load_array rc io k bytes_n mem flash =
     (case get_blob rc io k flash of
        None \<Rightarrow> mem
      | Some b \<Rightarrow> if length b \<le> bytes_n then mem_write 0 b mem else mem)"

definition size_differs :: "(nat \<Rightarrow> nvs_rc) \<Rightarrow> nat \<Rightarrow> string \<Rightarrow> nat \<Rightarrow> kv \<Rightarrow> bool" where
  "size_differs rc io k bytes_n flash \<longleftrightarrow>
     (case get_blob rc io k flash of None \<Rightarrow> False | Some b \<Rightarrow> length b \<noteq> bytes_n)"

definition load_keymaps :: "(nat \<Rightarrow> nvs_rc) \<Rightarrow> nat \<Rightarrow> nat \<Rightarrow> (nat \<times> nat \<times> nat) \<Rightarrow> kv \<Rightarrow>
    u16 list list list \<Rightarrow> u16 list list list" where
  "load_keymaps rc io size_bytes dims flash km =
     (case dims of (layers, rows, cols) \<Rightarrow>
      if rc io \<noteq> NvsOk then km
      else if size_differs rc (io + 1) ''keymaps'' size_bytes flash then km
      else bytes_keymap layers rows cols (load_array rc (io + 2) ''keymaps'' size_bytes (keymap_bytes km) flash))"

definition load_layout_names :: "(nat \<Rightarrow> nvs_rc) \<Rightarrow> nat \<Rightarrow> nat \<Rightarrow> kv \<Rightarrow> bytes list \<Rightarrow> bytes list" where
  "load_layout_names rc io layer_count flash names =
     (let bytes_n = layer_count * MAX_LAYOUT_NAME_LENGTH in
      if rc io \<noteq> NvsOk then names
      else if size_differs rc (io + 1) ''layout_names'' bytes_n flash then names
      else chop layer_count MAX_LAYOUT_NAME_LENGTH (load_array rc (io + 2) ''layout_names'' bytes_n (concat names) flash))"

definition mt_named :: "macro_t \<Rightarrow> bool" where
  "mt_named m \<longleftrightarrow> mt_name m ! 0 \<noteq> 0"

definition recalc_macros_count :: "macro_t list \<Rightarrow> nat" where
  "recalc_macros_count macros =
     (case find (\<lambda>i. mt_named (macros ! i)) (rev [0..<MAX_MACROS]) of Some i \<Rightarrow> i + 1 | None \<Rightarrow> 0)"

definition load_macros :: "(nat \<Rightarrow> nvs_rc) \<Rightarrow> nat \<Rightarrow> nat \<Rightarrow> kv \<Rightarrow> macro_t list \<times> nat \<Rightarrow> macro_t list \<times> nat" where
  "load_macros rc io count flash mc =
     (let bytes_n = MAX_MACROS * MACRO_SIZE in
      if rc io \<noteq> NvsOk then mc
      else if size_differs rc (io + 1) ''macros'' bytes_n flash then mc
      else if (case get_u32 rc (io + 2) ''macros_ver'' flash of None \<Rightarrow> False | Some v \<Rightarrow> v \<noteq> MACROS_NVS_VERSION) then mc
      else
        let macros = map bytes_macro (chop MAX_MACROS MACRO_SIZE
              (load_array rc (io + 3) ''macros'' bytes_n (concat (map macro_bytes (fst mc))) flash))
        in (macros, case get_u32 rc (io + 4) ''macros_count'' flash of
                      Some n \<Rightarrow> if n \<le> word_of_nat MAX_MACROS then unat n else recalc_macros_count macros
                    | None \<Rightarrow> recalc_macros_count macros))"

text \<open>The start of a keyboard: \<open>main.c\<close> gives the size of the keymaps by the columns it scans.\<close>

definition main_load_keymaps ::
  "(nat \<Rightarrow> nvs_rc) \<Rightarrow> nat \<Rightarrow> nat \<Rightarrow> nat \<Rightarrow> nat \<Rightarrow> kv \<Rightarrow> u16 list list list \<Rightarrow> u16 list list list" where
  "main_load_keymaps rc io rows matrix_cols keymap_cols flash km =
     load_keymaps rc io (LAYERS * rows * matrix_cols * 2) (LAYERS, rows, keymap_cols) flash km"

section \<open>What an array in flash reads back as\<close>

text \<open>The contract between an array and its bytes: a faithful decoding, and one size.\<close>

locale stored_array =
  fixes enc :: "'a \<Rightarrow> bytes" and dec :: "bytes \<Rightarrow> 'a" and ok :: "'a \<Rightarrow> bool" and n :: nat
  assumes dec_enc: "ok x \<Longrightarrow> dec (enc x) = x"
    and enc_length: "ok x \<Longrightarrow> length (enc x) = n"
begin

lemma load_saved:
  assumes "ok x" "ok y" "flash k = Some (NvBlob (enc x))" "rc io = NvsOk"
  shows "dec (load_array rc io k n (enc y) flash) = x"
  using assms by (simp add: load_array_def get_blob_def mem_write_def dec_enc enc_length)

lemma load_absent:
  assumes "ok y" "flash k = None"
  shows "dec (load_array rc io k n (enc y) flash) = y"
  using assms by (simp add: load_array_def get_blob_def dec_enc split: nvs_rc.splits)

lemma load_too_long:
  assumes "ok y" "flash k = Some (NvBlob b)" "m < length b"
  shows "dec (load_array rc io k m (enc y) flash) = y"
  using assms by (simp add: load_array_def get_blob_def dec_enc split: nvs_rc.splits)

lemma size_same: "ok x \<Longrightarrow> flash k = Some (NvBlob (enc x)) \<Longrightarrow> \<not> size_differs rc io k n flash"
  by (simp add: size_differs_def get_blob_def enc_length split: nvs_rc.splits)

end

lemma length_chop [simp]: "length (chop n m xs) = n"
  by (simp add: chop_def)

lemma chop_rows: "n * m \<le> length xs \<Longrightarrow> r \<in> set (chop n m xs) \<Longrightarrow> length r = m"
proof -
  assume le: "n * m \<le> length xs" and "r \<in> set (chop n m xs)"
  then obtain i where i: "i < n" "r = take m (drop (i * m) xs)" by (auto simp: chop_def)
  have "i * m + m \<le> n * m" using i(1) by (metis add.commute mult_Suc mult_le_mono1 Suc_leI)
  then show ?thesis using le i(2) by simp
qed

lemma chop_Suc: "chop (Suc n) m xs = take m xs # chop n m (drop m xs)"
proof -
  have "[0..<Suc n] = 0 # map Suc [0..<n]" by (simp add: map_Suc_upt upt_conv_Cons del: upt_Suc)
  then show ?thesis by (simp add: chop_def del: upt_Suc add: add.commute)
qed

lemma chop_0 [simp]: "chop 0 m xs = []"
  by (simp add: chop_def)

lemma chop_concat: "list_all (\<lambda>r. length r = m) xss \<Longrightarrow> chop (length xss) m (concat xss) = xss"
  by (induction xss) (simp_all add: chop_Suc)

lemma length_concat_rows: "list_all (\<lambda>r. length r = m) xss \<Longrightarrow> length (concat xss) = length xss * m"
  by (induction xss) simp_all

definition dims_ok :: "nat \<Rightarrow> nat \<Rightarrow> nat \<Rightarrow> u16 list list list \<Rightarrow> bool" where
  "dims_ok layers rows cols km \<longleftrightarrow>
     length km = layers \<and> list_all (\<lambda>l. length l = rows \<and> list_all (\<lambda>r. length r = cols) l) km"

lemma u16_bytes_le [simp]: "length (u16_bytes w) = 2" "be16 (u16_bytes w ! Suc 0) (u16_bytes w ! 0) = w"
  by (simp_all add: u16_bytes_def)

lemma length_u16s [simp]: "length (concat (map u16_bytes ws)) = 2 * length ws"
  by (induction ws) simp_all

lemma u16s_back: "map (\<lambda>b. be16 (b ! 1) (b ! 0)) (chop (length ws) 2 (concat (map u16_bytes ws))) = ws"
proof -
  have "chop (length (map u16_bytes ws)) 2 (concat (map u16_bytes ws)) = map u16_bytes ws"
    by (rule chop_concat) (simp add: list_all_iff)
  then show ?thesis by (simp add: comp_def)
qed

lemma dims_concat:
  assumes "dims_ok layers rows cols km"
  shows "list_all (\<lambda>r. length r = cols) (concat km)" "length (concat km) = layers * rows"
    "length (concat (concat km)) = layers * rows * cols"
proof -
  show rows: "list_all (\<lambda>r. length r = cols) (concat km)"
    using assms by (auto simp: dims_ok_def list_all_iff)
  show "length (concat km) = layers * rows"
    using assms length_concat_rows [of rows km] by (auto simp: dims_ok_def list_all_iff)
  then show "length (concat (concat km)) = layers * rows * cols"
    using length_concat_rows [OF rows] by simp
qed

lemma concat_rows: "concat (map concat xs) = concat (concat xs)"
  by (induction xs) simp_all

lemma keymap_bytes_back:
  assumes "dims_ok layers rows cols km"
  shows "bytes_keymap layers rows cols (keymap_bytes km) = km"
proof -
  note d = dims_concat [OF assms]
  have len: "list_all (\<lambda>l. length l = rows) km" "length km = layers" and inner: "list_all (\<lambda>l. list_all (\<lambda>r. length r = cols) l) km"
    using assms by (auto simp: dims_ok_def list_all_iff)
  have flat: "chop rows cols (concat l) = l" if "l \<in> set km" for l
    using that len(1) inner chop_concat [of cols l] by (auto simp: list_all_iff)
  have "length (concat l) = rows * cols" if "l \<in> set km" for l
    using that len(1) inner length_concat_rows [of cols l] by (auto simp: list_all_iff)
  then have "list_all (\<lambda>l. length l = rows * cols) (map concat km)" by (simp add: list_all_iff)
  then have "chop layers (rows * cols) (concat (concat km)) = map concat km"
    using chop_concat [of "rows * cols" "map concat km"] len(2) by (simp add: concat_rows)
  moreover have "map (\<lambda>b. be16 (b ! 1) (b ! 0)) (chop (layers * rows * cols) 2 (keymap_bytes km)) = concat (concat km)"
    using u16s_back [of "concat (concat km)"] d(3) by (simp add: keymap_bytes_def)
  ultimately show ?thesis using flat by (simp add: bytes_keymap_def map_idI)
qed

interpretation stored_keymap: stored_array keymap_bytes "bytes_keymap layers rows cols" "dims_ok layers rows cols"
    "layers * rows * cols * 2" for layers rows cols
proof
  fix km assume ok: "dims_ok layers rows cols km"
  show "bytes_keymap layers rows cols (keymap_bytes km) = km" using ok by (rule keymap_bytes_back)
  show "length (keymap_bytes km) = layers * rows * cols * 2"
    using dims_concat(3) [OF ok] by (simp add: keymap_bytes_def)
qed

definition names_ok :: "nat \<Rightarrow> bytes list \<Rightarrow> bool" where
  "names_ok n names \<longleftrightarrow> length names = n \<and> list_all (\<lambda>s. length s = MAX_LAYOUT_NAME_LENGTH) names"

interpretation stored_names: stored_array concat "chop n MAX_LAYOUT_NAME_LENGTH" "names_ok n"
    "n * MAX_LAYOUT_NAME_LENGTH" for n
proof
  fix names assume "names_ok n names"
  then show "chop n MAX_LAYOUT_NAME_LENGTH (concat names) = names" "length (concat names) = n * MAX_LAYOUT_NAME_LENGTH"
    using chop_concat [of MAX_LAYOUT_NAME_LENGTH names] length_concat_rows [of MAX_LAYOUT_NAME_LENGTH names]
    by (simp_all add: names_ok_def)
qed

lemma macro_bytes_back:
  assumes "macro_ok m"
  shows "length (macro_bytes m) = MACRO_SIZE" "bytes_macro (macro_bytes m) = m"
proof -
  let ?st = "map (\<lambda>(k, d). [k, d]) (mt_steps m)"
  have two: "list_all (\<lambda>r. length r = 2) ?st" by (auto simp: list_all_iff)
  have steps: "length (concat ?st) = 2 * MACRO_MAX_STEPS"
    using length_concat_rows [OF two] assms by (simp add: macro_ok_def)
  then show "length (macro_bytes m) = MACRO_SIZE"
    using assms by (simp add: macro_bytes_def macro_ok_def MACRO_SIZE_def)
  have "chop MACRO_MAX_STEPS 2 (concat ?st @ rest) = ?st" for rest
  proof -
    have "chop (length xss) 2 (concat xss @ rest) = xss" if "list_all (\<lambda>r. length r = 2) xss" for xss :: "bytes list"
      using that by (induction xss) (simp_all add: chop_Suc)
    from this [OF two] show ?thesis using assms by (simp add: macro_ok_def)
  qed
  then show "bytes_macro (macro_bytes m) = m"
    using assms steps by (cases m) (simp add: macro_bytes_def bytes_macro_def macro_ok_def Let_def comp_def case_prod_beta')
qed

definition macros_ok :: "macro_t list \<Rightarrow> bool" where
  "macros_ok ms \<longleftrightarrow> length ms = MAX_MACROS \<and> list_all macro_ok ms"

interpretation stored_macros: stored_array "\<lambda>ms. concat (map macro_bytes ms)"
    "\<lambda>b. map bytes_macro (chop MAX_MACROS MACRO_SIZE b)" macros_ok "MAX_MACROS * MACRO_SIZE"
proof
  fix ms assume ok: "macros_ok ms"
  then have rows: "list_all (\<lambda>r. length r = MACRO_SIZE) (map macro_bytes ms)"
    by (auto simp: macros_ok_def list_all_iff macro_bytes_back)
  show "map bytes_macro (chop MAX_MACROS MACRO_SIZE (concat (map macro_bytes ms))) = ms"
    using chop_concat [OF rows] ok by (simp add: macros_ok_def list_all_iff macro_bytes_back comp_def map_idI)
  show "length (concat (map macro_bytes ms)) = MAX_MACROS * MACRO_SIZE"
    using length_concat_rows [OF rows] ok by (simp add: macros_ok_def)
qed


section \<open>Across a restart\<close>

lemma try_all_ok:
  "nvs_try_all rc io ws ok cur = (cur', True, io') \<Longrightarrow> ok \<and> cur' = fold (\<lambda>(k, v) c. c(k \<mapsto> v)) ws cur"
  by (induction rc io ws ok cur rule: nvs_try_all.induct) (auto split: nvs_rc.splits)

lemma save_all_ok:
  "nvs_save_all rc io ws flash = (flash', True, io') \<Longrightarrow> flash' = fold (\<lambda>(k, v) c. c(k \<mapsto> v)) ws flash"
  by (auto simp: nvs_save_all_def Let_def dest: try_all_ok split: nvs_rc.splits prod.splits if_splits)

text \<open>A session of one value leaves that value or the old one.\<close>

lemma save_one_cases:
  "nvs_save_all rc io [(k, v)] flash = (flash', ok, io') \<Longrightarrow> flash' = flash(k \<mapsto> v) \<or> flash' = flash \<and> \<not> ok"
  by (auto simp: nvs_save_all_def Let_def split: nvs_rc.splits if_splits)

definition all_ok :: "nat \<Rightarrow> nvs_rc" where
  "all_ok n = NvsOk"

lemma load_saved_keymap:
  assumes "dims_ok LAYERS rows cols km" "dims_ok LAYERS rows cols km0"
    and "flash ''keymaps'' = Some (NvBlob (keymap_bytes km))"
  shows "main_load_keymaps all_ok io rows cols cols flash km0 = km"
  using stored_keymap.load_saved [where flash = flash and k = "''keymaps''", OF assms(1,2,3)]
    stored_keymap.size_same [where flash = flash and k = "''keymaps''", OF assms(1,3)]
  by (simp add: main_load_keymaps_def load_keymaps_def all_ok_def)

text \<open>
  On a board that scans all the columns of its keymap, a keymap is what the next start loads if its
  save succeeded; if the save failed at any of its steps, the start loads either this keymap or
  what it would have loaded before, whole.
\<close>

theorem keymap_survives_restart:
  assumes "dims_ok LAYERS rows cols km" "dims_ok LAYERS rows cols km0"
    and "save_keymaps rc io km flash = (flash', ok, io')"
  shows "(ok \<longrightarrow> main_load_keymaps all_ok io2 rows cols cols flash' km0 = km) \<and>
    main_load_keymaps all_ok io2 rows cols cols flash' km0 \<in> {km, main_load_keymaps all_ok io2 rows cols cols flash km0}"
proof -
  have "flash' = flash(''keymaps'' \<mapsto> NvBlob (keymap_bytes km)) \<or> flash' = flash \<and> \<not> ok"
    using assms(3) unfolding save_keymaps_def by (rule save_one_cases)
  then show ?thesis
    using load_saved_keymap [OF assms(1,2), of "flash(''keymaps'' \<mapsto> NvBlob (keymap_bytes km))" io2] by auto
qed

definition demo_map :: "u16 \<Rightarrow> nat \<Rightarrow> nat \<Rightarrow> u16 list list list" where
  "demo_map w rows cols = replicate LAYERS (replicate rows (replicate cols w))"

lemma demo_map_ok: "dims_ok LAYERS rows cols (demo_map w rows cols)"
  by (simp add: demo_map_def dims_ok_def list_all_iff)

lemma keymap_survives_restart_witness:
  "main_load_keymaps all_ok 0 4 12 12 (fst (save_keymaps all_ok 0 (demo_map 5 4 12) (\<lambda>_. None))) (demo_map 4 4 12) =
     demo_map 5 4 12"
  using keymap_survives_restart [OF demo_map_ok demo_map_ok, of all_ok 0 5 4 12
      "\<lambda>_. None" "fst (save_keymaps all_ok 0 (demo_map 5 4 12) (\<lambda>_. None))" True 3 0 4]
  by (simp add: save_keymaps_def nvs_save_all_def all_ok_def)

text \<open>
  The left half of a split keyboard scans fewer columns than its keymap has. There no saved keymap
  is ever loaded again: the start compares the stored size with that of the scanned half, and every
  change made by the host is gone after a restart, whatever the storage answers, although the save
  succeeded.
\<close>

theorem split_keymap_lost:
  assumes "dims_ok LAYERS rows keymap_cols km" "dims_ok LAYERS rows keymap_cols km0"
    and "0 < rows" "matrix_cols < keymap_cols"
    and "save_keymaps rc io km flash = (flash', True, io')"
  shows "main_load_keymaps rc2 io2 rows matrix_cols keymap_cols flash' km0 = km0"
proof -
  have stored: "flash' ''keymaps'' = Some (NvBlob (keymap_bytes km))"
    using save_all_ok [OF assms(5) [unfolded save_keymaps_def]] by simp
  have "LAYERS * rows * matrix_cols * 2 < length (keymap_bytes km)"
    using stored_keymap.enc_length [OF assms(1)] assms(3,4) by (simp add: LAYERS_def)
  then show ?thesis
    using stored_keymap.load_too_long [where flash = flash' and k = "''keymaps''", OF assms(2) stored]
    by (simp add: main_load_keymaps_def load_keymaps_def)
qed

lemma split_keymap_lost_witness:
  "main_load_keymaps all_ok 0 4 7 14 (fst (save_keymaps all_ok 0 (demo_map 5 4 14) (\<lambda>_. None))) (demo_map 4 4 14) =
     demo_map 4 4 14"
  using split_keymap_lost [OF demo_map_ok demo_map_ok, of 4 7 14 all_ok 0 5
      "\<lambda>_. None" "fst (save_keymaps all_ok 0 (demo_map 5 4 14) (\<lambda>_. None))" 3 all_ok 0 4]
  by (simp add: save_keymaps_def nvs_save_all_def all_ok_def)

lemma unat_count: "n \<le> MAX_MACROS \<Longrightarrow> unat (word_of_nat n :: u32) = n"
  by (simp add: MAX_MACROS_def unat_of_nat)

text \<open>
  Macros and layer names come back as they were saved, names, steps, keys and the count.
\<close>

theorem macros_survive_restart:
  assumes "macros_ok ms" "macros_ok ms0" "n \<le> MAX_MACROS" "save_macros rc io ms n flash = (flash', True, io')"
    and "names_ok layers names" "names_ok layers names0" "save_layout_names rc2 io2 names flash' = (flash2, True, io3)"
  shows "load_macros all_ok io4 MAX_MACROS flash2 (ms0, n0) = (ms, n) \<and>
    load_layout_names all_ok io5 layers flash2 names0 = names"
proof
  have f1: "flash' = flash(''macros'' \<mapsto> NvBlob (concat (map macro_bytes ms)), ''macros_count'' \<mapsto> NvU32 (word_of_nat n),
      ''macros_ver'' \<mapsto> NvU32 MACROS_NVS_VERSION)"
    using save_all_ok [OF assms(4) [unfolded save_macros_def]] by simp
  have f2: "flash2 = flash'(''layout_names'' \<mapsto> NvBlob (concat names))"
    using save_all_ok [OF assms(7) [unfolded save_layout_names_def]] by simp
  have m: "flash2 ''macros'' = Some (NvBlob (concat (map macro_bytes ms)))"
    "flash2 ''macros_count'' = Some (NvU32 (word_of_nat n))" "flash2 ''macros_ver'' = Some (NvU32 MACROS_NVS_VERSION)"
    by (simp_all add: f1 f2)
  have "(word_of_nat n :: u32) \<le> word_of_nat MAX_MACROS"
    using assms(3) unat_count [OF assms(3)] unat_count [of MAX_MACROS] by (simp add: word_le_nat_alt)
  then show "load_macros all_ok io4 MAX_MACROS flash2 (ms0, n0) = (ms, n)"
    using stored_macros.load_saved [where flash = flash2 and k = "''macros''", OF assms(1,2) m(1), of all_ok]
      stored_macros.size_same [where flash = flash2 and k = "''macros''", OF assms(1) m(1), of all_ok] m(2,3)
    by (simp add: load_macros_def get_u32_def all_ok_def Let_def unat_count [OF assms(3)])
  have "flash2 ''layout_names'' = Some (NvBlob (concat names))" by (simp add: f2)
  then show "load_layout_names all_ok io5 layers flash2 names0 = names"
    using stored_names.load_saved [OF assms(5,6), of flash2 "''layout_names''" all_ok]
      stored_names.size_same [OF assms(5), of flash2 "''layout_names''" all_ok]
    by (simp add: load_layout_names_def all_ok_def Let_def)
qed


definition demo_macro :: "u8 \<Rightarrow> macro_t" where
  "demo_macro k = \<lparr>mt_name = 0x41 # replicate 15 0, mt_steps = replicate MACRO_MAX_STEPS (k, 0),
     mt_keys = replicate 6 0, mt_key_definition = MACRO_1\<rparr>"

lemma demo_macros_ok: "macros_ok (replicate MAX_MACROS (demo_macro k))"
  by (simp add: macros_ok_def macro_ok_def demo_macro_def list_all_iff MAX_MACRO_NAME_LENGTH_def)

lemma demo_names_ok: "names_ok 2 (replicate 2 (replicate MAX_LAYOUT_NAME_LENGTH c))"
  by (simp add: names_ok_def list_all_iff)

lemma macros_survive_restart_witness:
  "\<exists>flash. load_macros all_ok 0 MAX_MACROS flash (replicate MAX_MACROS (demo_macro 4), 2) = (replicate MAX_MACROS (demo_macro 5), 20)"
proof -
  obtain flash1 where 1: "save_macros all_ok 0 (replicate MAX_MACROS (demo_macro 5)) 20 (\<lambda>_. None) = (flash1, True, 5)"
    by (simp add: save_macros_def nvs_save_all_def all_ok_def)
  obtain flash2 where 2: "save_layout_names all_ok 0 (replicate 2 (replicate MAX_LAYOUT_NAME_LENGTH 0x42)) flash1 = (flash2, True, 3)"
    by (simp add: save_layout_names_def nvs_save_all_def all_ok_def)
  show ?thesis
    using macros_survive_restart [where ms = "replicate MAX_MACROS (demo_macro 5)" and ?ms0.0 = "replicate MAX_MACROS (demo_macro 4)"
        and n = 20 and ?n0.0 = 2 and ?io4.0 = 0, OF demo_macros_ok demo_macros_ok _ 1 demo_names_ok demo_names_ok 2]
    by (auto simp: MAX_MACROS_def)
qed


end
