(* ===== verification/Key_Stats.thy ===== *)
theory Key_Stats
  imports Keymap_Store "HOL-Library.Multiset"
begin

text \<open>
  \<open>main/input/key_stats.c\<close>: how often each key and each pair of keys was pressed, and when the counts are
  saved. A table of counts is a list of rows; ticks of the scheduler are milliseconds. As in \<open>Nvs\<close>,
  \<open>rc n\<close> is what the \<open>n\<close>-th call into the storage returns.
\<close>

definition KEY_STATS_SAVE_THRESHOLD :: u32 where "KEY_STATS_SAVE_THRESHOLD = 100"
definition KEY_STATS_SAVE_INTERVAL_MS :: u32 where "KEY_STATS_SAVE_INTERVAL_MS = 60000"

record key_stats =
  ks_rows :: nat
  ks_cols :: nat
  ks_stats :: "u32 list list"
  ks_total :: u32
  ks_last_saved_total :: u32
  ks_last_save_tick :: u32
  ks_bigrams :: "u16 list list"
  ks_bigram_total :: u32
  ks_last_key :: "nat option"
  ks_flash_stats :: "u32 list option"
  ks_flash_total :: "u32 option"

definition NUM_KEYS :: "key_stats \<Rightarrow> nat" where
  "NUM_KEYS s = ks_rows s * ks_cols s"

definition key_stats_boot :: "nat \<Rightarrow> nat \<Rightarrow> u32 list option \<Rightarrow> u32 option \<Rightarrow> key_stats" where
  "key_stats_boot rows cols flash flash_total =
     \<lparr>ks_rows = rows, ks_cols = cols, ks_stats = replicate rows (replicate cols 0), ks_total = 0,
      ks_last_saved_total = 0, ks_last_save_tick = 0,
      ks_bigrams = replicate (rows * cols) (replicate (rows * cols) 0), ks_bigram_total = 0,
      ks_last_key = None, ks_flash_stats = flash, ks_flash_total = flash_total\<rparr>"

definition cell_update :: "nat \<Rightarrow> nat \<Rightarrow> ('a \<Rightarrow> 'a) \<Rightarrow> 'a list list \<Rightarrow> 'a list list" where
  "cell_update r c f t = t[r := (t ! r)[c := f (t ! r ! c)]]"

definition count_bigram :: "nat \<Rightarrow> nat \<Rightarrow> key_stats \<Rightarrow> key_stats" where
  "count_bigram prev cur_idx s =
     (if ks_bigrams s ! prev ! cur_idx < 0xFFFF
      then s\<lparr>ks_bigrams := cell_update prev cur_idx (\<lambda>n. n + 1) (ks_bigrams s), ks_bigram_total := ks_bigram_total s + 1\<rparr>
      else s)"

text \<open>The last key is \<open>None\<close> where the code has a negative index.\<close>

definition key_stats_record_press :: "u8 \<times> u8 \<Rightarrow> key_stats \<Rightarrow> key_stats" where
  "key_stats_record_press pos s =
     (let row = unat (fst pos); col = unat (snd pos) in
      if row \<ge> ks_rows s \<or> col \<ge> ks_cols s then s
      else
        let s1 = s\<lparr>ks_stats := cell_update row col (\<lambda>n. n + 1) (ks_stats s), ks_total := ks_total s + 1\<rparr>;
            cur_idx = row * ks_cols s + col;
            s2 = (case ks_last_key s1 of
                    Some prev \<Rightarrow> if prev < NUM_KEYS s1 then count_bigram prev cur_idx s1 else s1
                  | None \<Rightarrow> s1)
        in s2\<lparr>ks_last_key := Some cur_idx\<rparr>)"

definition get_key_stats_val :: "u8 \<Rightarrow> u8 \<Rightarrow> key_stats \<Rightarrow> u32" where
  "get_key_stats_val row col s =
     (if unat row < ks_rows s \<and> unat col < ks_cols s then ks_stats s ! unat row ! unat col else 0)"

definition table_max :: "'a::len word list list \<Rightarrow> 'a word" where
  "table_max t = fold (\<lambda>x m. if x > m then x else m) (concat t) 0"

definition get_key_stats_max :: "key_stats \<Rightarrow> u32" where
  "get_key_stats_max s = table_max (ks_stats s)"

definition get_bigram_stats_max :: "key_stats \<Rightarrow> u16" where
  "get_bigram_stats_max s = table_max (ks_bigrams s)"

text \<open>Four calls: open, table, total, commit; the first that fails ends the save.\<close>

definition save_key_stats :: "(nat \<Rightarrow> nvs_rc) \<Rightarrow> nat \<Rightarrow> u32 \<Rightarrow> key_stats \<Rightarrow> key_stats" where
  "save_key_stats rc io tick s =
     (case rc io of NvsErr _ \<Rightarrow> s | NvsOk \<Rightarrow>
      let kept_stats = s\<lparr>ks_flash_stats := Some (concat (ks_stats s))\<rparr>;
          kept_both = kept_stats\<lparr>ks_flash_total := Some (ks_total s)\<rparr> in
      case rc (io + 1) of NvsErr kept \<Rightarrow> if kept then kept_stats else s | NvsOk \<Rightarrow>
      case rc (io + 2) of NvsErr kept \<Rightarrow> if kept then kept_stats else s | NvsOk \<Rightarrow>
      case rc (io + 3) of NvsErr kept \<Rightarrow> if kept then kept_both else s | NvsOk \<Rightarrow>
      kept_both\<lparr>ks_last_saved_total := ks_total s, ks_last_save_tick := tick\<rparr>)"

definition reset_key_stats :: "(nat \<Rightarrow> nvs_rc) \<Rightarrow> nat \<Rightarrow> u32 \<Rightarrow> key_stats \<Rightarrow> key_stats" where
  "reset_key_stats rc io tick s =
     save_key_stats rc io tick (s\<lparr>ks_stats := replicate (ks_rows s) (replicate (ks_cols s) 0), ks_total := 0\<rparr>)"

definition reset_bigram_stats :: "key_stats \<Rightarrow> key_stats" where
  "reset_bigram_stats s =
     s\<lparr>ks_bigrams := replicate (NUM_KEYS s) (replicate (NUM_KEYS s) 0), ks_bigram_total := 0, ks_last_key := None\<rparr>"

text \<open>A table of another size is refused, and with it its total. A total that cannot be read counts
  as zero, and is then added up from the table.\<close>

definition load_key_stats :: "(nat \<Rightarrow> nvs_rc) \<Rightarrow> nat \<Rightarrow> u32 \<Rightarrow> key_stats \<Rightarrow> key_stats" where
  "load_key_stats rc io tick s =
     (let n = NUM_KEYS s;
          s1 = (if rc io \<noteq> NvsOk then s
                else if rc (io + 1) = NvsOk \<and> (case ks_flash_stats s of None \<Rightarrow> False | Some t \<Rightarrow> length t \<noteq> n) then s
                else
                  let s0 = (case (rc (io + 2), ks_flash_stats s) of
                              (NvsOk, Some t) \<Rightarrow>
                                if length t \<le> n
                                then s\<lparr>ks_stats := chop (ks_rows s) (ks_cols s) (mem_write 0 t (concat (ks_stats s)))\<rparr>
                                else s
                            | _ \<Rightarrow> s)
                  in s0\<lparr>ks_total := (case (rc (io + 3), ks_flash_total s) of (NvsOk, Some k) \<Rightarrow> k | _ \<Rightarrow> 0)\<rparr>);
          s2 = (if ks_total s1 = 0 then s1\<lparr>ks_total := sum_list (concat (ks_stats s1))\<rparr> else s1)
      in s2\<lparr>ks_last_saved_total := ks_total s2, ks_last_save_tick := tick\<rparr>)"

definition key_stats_check_save :: "(nat \<Rightarrow> nvs_rc) \<Rightarrow> nat \<Rightarrow> u32 \<Rightarrow> key_stats \<Rightarrow> key_stats" where
  "key_stats_check_save rc io tick s =
     (let diff = ks_total s - ks_last_saved_total s; elapsed = tick - ks_last_save_tick s in
      if diff \<ge> KEY_STATS_SAVE_THRESHOLD \<or> diff > 0 \<and> elapsed \<ge> KEY_STATS_SAVE_INTERVAL_MS
      then save_key_stats rc io tick s else s)"

section \<open>What is counted\<close>

text \<open>The keys of the accepted presses, and the pairs of neighbours among them.\<close>

definition key_index :: "nat \<Rightarrow> u8 \<times> u8 \<Rightarrow> nat" where
  "key_index cols pos = unat (fst pos) * cols + unat (snd pos)"

definition accepted_keys :: "nat \<Rightarrow> nat \<Rightarrow> (u8 \<times> u8) list \<Rightarrow> nat list" where
  "accepted_keys rows cols ps =
     map (key_index cols) (filter (\<lambda>pos. unat (fst pos) < rows \<and> unat (snd pos) < cols) ps)"

definition neighbours :: "'a list \<Rightarrow> ('a \<times> 'a) list" where
  "neighbours xs = zip xs (tl xs)"

lemma neighbours_snoc:
  "neighbours (xs @ [x]) = neighbours xs @ (if xs = [] then [] else [(last xs, x)])"
  unfolding neighbours_def
proof (induction xs)
  case (Cons a xs)
  then show ?case by (cases xs) auto
qed simp

definition record_run :: "(u8 \<times> u8) list \<Rightarrow> key_stats \<Rightarrow> key_stats" where
  "record_run ps s = fold key_stats_record_press ps s"

definition square :: "nat \<Rightarrow> nat \<Rightarrow> 'a list list \<Rightarrow> bool" where
  "square n m t \<longleftrightarrow> length t = n \<and> (\<forall>r<n. length (t ! r) = m)"

lemma square_update: "square n m t \<Longrightarrow> r < n \<Longrightarrow> square n m (cell_update r c f t)"
  by (auto simp: square_def cell_update_def nth_list_update)

lemma cell_update_at:
  assumes "square n m t" "r < n" "c < m" "i < n" "j < m"
  shows "cell_update r c f t ! i ! j = (if i = r \<and> j = c then f (t ! r ! c) else t ! i ! j)"
  using assms by (auto simp: square_def cell_update_def nth_list_update)

lemma index_less: "r < rows \<Longrightarrow> c < cols \<Longrightarrow> r * cols + c < rows * (cols :: nat)"
  by (metis add.commute add_less_cancel_left less_le_trans mult.commute mult_Suc mult_le_mono2 Suc_leI)

lemma index_inj:
  assumes "c < cols" "c' < cols" "r * cols + c = r' * cols + (c' :: nat)"
  shows "r = r' \<and> c = c'"
proof -
  have "(r * cols + c) div cols = r" "(r' * cols + c') div cols = r'" using assms(1,2) by simp_all
  then show ?thesis using assms(3) by auto
qed

lemma record_rejected:
  "\<not> (unat (fst pos) < ks_rows s \<and> unat (snd pos) < ks_cols s) \<Longrightarrow> key_stats_record_press pos s = s"
  by (auto simp: key_stats_record_press_def Let_def not_less)

lemma saturate_count:
  assumes "b = of_nat (min 0xFFFF k)"
  shows "(if (b :: u16) < 0xFFFF then b + 1 else b) = of_nat (min 0xFFFF (Suc k))"
proof (cases "k < 0xFFFF")
  case True
  then have "unat b = k" using assms by (simp add: unat_of_nat)
  then have "b < 0xFFFF" using True by (simp add: word_less_nat_alt)
  then show ?thesis using assms True by simp
next
  case False
  then show ?thesis using assms by (simp add: min_absorb1)
qed

definition counts :: "nat \<Rightarrow> nat \<Rightarrow> nat list \<Rightarrow> key_stats \<Rightarrow> bool" where
  "counts rows cols ks s \<longleftrightarrow>
     ks_rows s = rows \<and> ks_cols s = cols \<and> square rows cols (ks_stats s) \<and>
     square (rows * cols) (rows * cols) (ks_bigrams s) \<and>
     ks_last_key s = (if ks = [] then None else Some (last ks)) \<and> (\<forall>k\<in>set ks. k < rows * cols) \<and>
     ks_total s = of_nat (length ks) \<and>
     (\<forall>r<rows. \<forall>c<cols. ks_stats s ! r ! c = of_nat (count_list ks (r * cols + c))) \<and>
     (\<forall>i<rows * cols. \<forall>j<rows * cols. ks_bigrams s ! i ! j = of_nat (min 0xFFFF (count_list (neighbours ks) (i, j))))"

lemma counts_boot: "counts rows cols [] (key_stats_boot rows cols flash flash_total)"
  by (simp add: counts_def key_stats_boot_def square_def neighbours_def)

lemma counts_record:
  assumes "counts rows cols ks s" "unat (fst pos) < rows" "unat (snd pos) < cols"
  shows "counts rows cols (ks @ [key_index cols pos]) (key_stats_record_press pos s)"
proof -
  let ?r = "unat (fst pos)" and ?c = "unat (snd pos)"
  let ?k = "?r * cols + ?c"
  let ?s1 = "s\<lparr>ks_stats := cell_update ?r ?c (\<lambda>n. n + 1) (ks_stats s), ks_total := ks_total s + 1\<rparr>"
  note c = assms(1) [unfolded counts_def]
  have k: "?k < rows * cols" using assms(2,3) by (rule index_less)
  have stats: "\<forall>r<rows. \<forall>c<cols. ks_stats ?s1 ! r ! c = of_nat (count_list (ks @ [?k]) (r * cols + c))"
  proof (intro allI impI)
    fix r c' assume lt: "r < rows" "c' < cols"
    have "(r * cols + c' = ?k) = (r = ?r \<and> c' = ?c)" using index_inj lt(2) assms(3) by metis
    then show "ks_stats ?s1 ! r ! c' = of_nat (count_list (ks @ [?k]) (r * cols + c'))"
      using c lt assms(2,3) by (auto simp: cell_update_at [of rows cols])
  qed
  show ?thesis
  proof (cases "ks = []")
    case True
    then have "key_stats_record_press pos s = ?s1\<lparr>ks_last_key := Some ?k\<rparr>"
      using c assms(2,3) by (simp add: key_stats_record_press_def Let_def)
    then show ?thesis
      using c k stats True assms(2) by (simp add: counts_def key_index_def neighbours_def square_update)
  next
    case False
    let ?p = "last ks"
    have p: "?p < rows * cols" using c False by simp
    have step: "key_stats_record_press pos s = (count_bigram ?p ?k ?s1)\<lparr>ks_last_key := Some ?k\<rparr>"
      using c assms(2,3) False p by (simp add: key_stats_record_press_def NUM_KEYS_def Let_def)
    have sq: "square (rows * cols) (rows * cols) (ks_bigrams s)" using c by blast
    have big: "ks_bigrams (count_bigram ?p ?k ?s1) ! i ! j =
        of_nat (min 0xFFFF (count_list (neighbours (ks @ [?k])) (i, j)))"
      if ij: "i < rows * cols" "j < rows * cols" for i j
    proof (cases "i = ?p \<and> j = ?k")
      case True
      then show ?thesis
        using saturate_count [of "ks_bigrams s ! i ! j" "count_list (neighbours ks) (i, j)"] c ij False p k
        by (simp add: count_bigram_def cell_update_at [OF sq] neighbours_snoc split: if_splits)
    next
      case other: False
      then have "ks_bigrams (count_bigram ?p ?k ?s1) ! i ! j = ks_bigrams s ! i ! j"
        using cell_update_at [OF sq p k ij] by (auto simp: count_bigram_def)
      moreover have "count_list (neighbours (ks @ [?k])) (i, j) = count_list (neighbours ks) (i, j)"
        using other False by (auto simp: neighbours_snoc)
      ultimately show ?thesis using c ij by simp
    qed
    have "square (rows * cols) (rows * cols) (ks_bigrams (count_bigram ?p ?k ?s1))"
      using square_update [OF sq p] sq by (simp add: count_bigram_def)
    moreover have "ks_rows (count_bigram ?p ?k ?s1) = rows" "ks_cols (count_bigram ?p ?k ?s1) = cols"
      "ks_stats (count_bigram ?p ?k ?s1) = ks_stats ?s1" "ks_total (count_bigram ?p ?k ?s1) = ks_total ?s1"
      using c by (simp_all add: count_bigram_def)
    ultimately show ?thesis
      using c k stats big step assms(2) by (simp add: counts_def key_index_def square_update)
  qed
qed

lemma counts_run: "counts rows cols ks s \<Longrightarrow> counts rows cols (ks @ accepted_keys rows cols ps) (record_run ps s)"
proof (induction ps arbitrary: ks s)
  case Nil
  then show ?case by (simp add: record_run_def accepted_keys_def)
next
  case (Cons pos ps)
  show ?case
  proof (cases "unat (fst pos) < rows \<and> unat (snd pos) < cols")
    case True
    then have "counts rows cols (ks @ [key_index cols pos]) (key_stats_record_press pos s)"
      using counts_record [OF Cons.prems] by simp
    from Cons.IH [OF this] show ?thesis using True by (simp add: record_run_def accepted_keys_def)
  next
    case False
    then have "key_stats_record_press pos s = s"
      using Cons.prems by (intro record_rejected) (simp add: counts_def)
    moreover have "accepted_keys rows cols (pos # ps) = accepted_keys rows cols ps"
      using False by (auto simp: accepted_keys_def)
    ultimately show ?thesis using Cons.IH [OF Cons.prems] by (simp add: record_run_def)
  qed
qed

text \<open>
  C29: The statistics are the counts of what was pressed: a key's counter is the number of its presses,
  modulo the width of the counter, the entry of a pair is the number of times the second key
  followed the first, up to the largest value a cell can hold, and presses outside the matrix count
  nowhere.
\<close>

theorem stats_count_presses:
  fixes ps :: "(u8 \<times> u8) list" and rows cols :: nat and flash :: "u32 list option" and flash_total :: "u32 option"
  defines "ks \<equiv> accepted_keys rows cols ps"
    and "s \<equiv> record_run ps (key_stats_boot rows cols flash flash_total)"
  shows "ks_total s = of_nat (length ks) \<and>
    (\<forall>r c. r < rows \<longrightarrow> c < cols \<longrightarrow> ks_stats s ! r ! c = of_nat (count_list ks (r * cols + c))) \<and>
    (\<forall>i j. i < rows * cols \<longrightarrow> j < rows * cols \<longrightarrow>
       ks_bigrams s ! i ! j = of_nat (min 0xFFFF (count_list (neighbours ks) (i, j))))"
  using counts_run [OF counts_boot [of rows cols flash flash_total], of ps] unfolding ks_def s_def
  by (auto simp: counts_def)

lemma stats_count_presses_witness:
  "ks_bigrams (record_run [(0, 0), (0, 1), (0, 0), (9, 9), (0, 1)] (key_stats_boot 1 2 None None)) ! 0 ! 1 = 2"
  using stats_count_presses [of "[(0, 0), (0, 1), (0, 0), (9, 9), (0, 1)]" 1 2 None None]
  by (simp add: accepted_keys_def key_index_def neighbours_def)


section \<open>What a restart keeps\<close>

lemma sum_update: "i < length xs \<Longrightarrow> sum_list (xs[i := xs ! i + d]) = sum_list xs + (d :: 'a::comm_monoid_add)"
  by (induction xs arbitrary: i) (auto simp: ac_simps split: nat.splits)

lemma sum_concat: "sum_list (concat t) = sum_list (map sum_list t)"
  by (induction t) simp_all

lemma sum_cell_update:
  assumes "square n m t" "r < n" "c < m"
  shows "sum_list (concat (cell_update r c (\<lambda>x. x + 1) t)) = sum_list (concat t) + (1 :: u32)"
proof -
  have "map sum_list (cell_update r c (\<lambda>x. x + 1) t) = (map sum_list t)[r := map sum_list t ! r + 1]"
    using assms by (simp add: cell_update_def map_update sum_update square_def)
  then show ?thesis using assms by (simp only: sum_concat sum_update [of r "map sum_list t"] square_def length_map)
qed

text \<open>The table adds up to the total, and the flash holds a table that adds up to the total saved last.\<close>

definition stats_ok :: "key_stats \<Rightarrow> bool" where
  "stats_ok s \<longleftrightarrow> square (ks_rows s) (ks_cols s) (ks_stats s) \<and> sum_list (concat (ks_stats s)) = ks_total s \<and>
     (case (ks_flash_stats s, ks_flash_total s) of
        (None, None) \<Rightarrow> ks_last_saved_total s = 0
      | (Some t, Some n) \<Rightarrow> length t = NUM_KEYS s \<and> sum_list t = n \<and> ks_last_saved_total s = n
      | _ \<Rightarrow> False)"

lemma length_square: "square n m t \<Longrightarrow> length (concat t) = n * m"
proof -
  assume s: "square n m t"
  then have "list_all (\<lambda>r. length r = m) t" by (auto simp: square_def list_all_length)
  from length_concat_rows [OF this] show ?thesis using s by (simp add: square_def)
qed

lemma concat_chop: "length xs = n * m \<Longrightarrow> concat (chop n m xs) = xs"
  by (induction n arbitrary: xs) (simp_all add: chop_Suc)

lemma square_chop: "length xs = n * m \<Longrightarrow> square n m (chop n m xs)"
  using chop_rows [of n m xs] by (auto simp: square_def)

lemma bigram_frame [simp]:
  "ks_rows (count_bigram i j s) = ks_rows s" "ks_cols (count_bigram i j s) = ks_cols s"
  "ks_stats (count_bigram i j s) = ks_stats s" "ks_total (count_bigram i j s) = ks_total s"
  "ks_flash_stats (count_bigram i j s) = ks_flash_stats s" "ks_flash_total (count_bigram i j s) = ks_flash_total s"
  "ks_last_saved_total (count_bigram i j s) = ks_last_saved_total s"
  by (simp_all add: count_bigram_def)

lemma stats_ok_record: "stats_ok s \<Longrightarrow> stats_ok (key_stats_record_press pos s)"
proof (cases "unat (fst pos) < ks_rows s \<and> unat (snd pos) < ks_cols s")
  case True
  assume ok: "stats_ok s"
  then have sq: "square (ks_rows s) (ks_cols s) (ks_stats s)" by (simp add: stats_ok_def)
  show ?thesis
    using ok True sum_cell_update [OF sq] square_update [OF sq]
    by (auto simp: key_stats_record_press_def stats_ok_def Let_def NUM_KEYS_def split: option.splits)
qed (simp add: record_rejected)

lemma stats_ok_save: "stats_ok s \<Longrightarrow> stats_ok (save_key_stats all_ok io tick s)"
  by (simp add: save_key_stats_def all_ok_def stats_ok_def length_square NUM_KEYS_def Let_def)

datatype stat_event = Press "u8 \<times> u8" | CheckSave u32

fun stat_step :: "stat_event \<Rightarrow> key_stats \<Rightarrow> key_stats" where
  "stat_step (Press pos) s = key_stats_record_press pos s"
| "stat_step (CheckSave tick) s = key_stats_check_save all_ok 0 tick s"

definition stat_run :: "stat_event list \<Rightarrow> key_stats \<Rightarrow> key_stats" where
  "stat_run evs s = fold stat_step evs s"

lemma dims_step [simp]:
  "ks_rows (stat_step ev s) = ks_rows s" "ks_cols (stat_step ev s) = ks_cols s"
  by (cases ev; simp add: key_stats_record_press_def key_stats_check_save_def save_key_stats_def all_ok_def Let_def
      split: option.splits)+

lemma dims_run: "ks_rows (stat_run evs s) = ks_rows s \<and> ks_cols (stat_run evs s) = ks_cols s"
  unfolding stat_run_def by (induction evs arbitrary: s) simp_all

lemma stats_ok_step: "stats_ok s \<Longrightarrow> stats_ok (stat_step ev s)"
  by (cases ev) (simp_all add: stats_ok_record stats_ok_save key_stats_check_save_def Let_def)

lemma stats_ok_run: "stats_ok s \<Longrightarrow> stats_ok (stat_run evs s)"
  unfolding stat_run_def by (induction evs arbitrary: s) (simp_all add: stats_ok_step)

lemma zero_table: "sum_list (concat (replicate rows (replicate cols (0 :: u32)))) = 0"
proof -
  have "sum_list (replicate cols (0 :: u32)) = 0" by (induction cols) simp_all
  then show ?thesis by (induction rows) simp_all
qed

lemma stats_ok_boot: "stats_ok (key_stats_boot rows cols None None)"
  by (simp add: stats_ok_def key_stats_boot_def square_def zero_table)

lemma load_last_saved:
  assumes "stats_ok s"
  shows "ks_total (load_key_stats all_ok io tick
      (key_stats_boot (ks_rows s) (ks_cols s) (ks_flash_stats s) (ks_flash_total s))) = ks_last_saved_total s \<and>
    ks_stats (load_key_stats all_ok io tick
      (key_stats_boot (ks_rows s) (ks_cols s) (ks_flash_stats s) (ks_flash_total s))) =
      (case ks_flash_stats s of None \<Rightarrow> replicate (ks_rows s) (replicate (ks_cols s) 0)
       | Some t \<Rightarrow> chop (ks_rows s) (ks_cols s) t)"
proof (cases "ks_flash_stats s")
  case None
  show ?thesis using assms None zero_table
    by (auto simp: load_key_stats_def key_stats_boot_def stats_ok_def all_ok_def NUM_KEYS_def Let_def split: option.splits)
next
  case (Some t)
  then obtain n where n: "ks_flash_total s = Some n" "length t = ks_rows s * ks_cols s" "sum_list t = n" "ks_last_saved_total s = n"
    using assms by (auto simp: stats_ok_def NUM_KEYS_def split: option.splits)
  have "length (concat (replicate rows (replicate cols (0 :: u32)))) = rows * cols" for rows cols by (induction rows) simp_all
  then have mem: "mem_write 0 t (concat (replicate (ks_rows s) (replicate (ks_cols s) (0 :: u32)))) = t"
    using n(2) by (simp add: mem_write_def)
  show ?thesis using Some n mem
    by (simp add: load_key_stats_def key_stats_boot_def all_ok_def NUM_KEYS_def Let_def concat_chop)
qed

text \<open>
  With a working flash a restart loses fewer than a hundred presses: whatever was pressed and
  however often the periodic check ran, right after a check the total that a start would load is
  less than the threshold behind, and right after the check has saved, total and table are
  loaded as they are.
\<close>

theorem restart_loses_few:
  fixes evs :: "stat_event list" and rows cols :: nat and tick tick' :: u32
  defines "s \<equiv> stat_run (evs @ [CheckSave tick]) (key_stats_boot rows cols None None)"
  defines "l \<equiv> load_key_stats all_ok 0 tick' (key_stats_boot rows cols (ks_flash_stats s) (ks_flash_total s))"
  shows "ks_total s - ks_total l < KEY_STATS_SAVE_THRESHOLD \<and>
    (ks_total s - ks_last_saved_total (stat_run evs (key_stats_boot rows cols None None)) \<ge> KEY_STATS_SAVE_THRESHOLD \<longrightarrow>
      ks_total l = ks_total s \<and> ks_stats l = ks_stats s)"
proof -
  let ?u = "stat_run evs (key_stats_boot rows cols None None)"
  have s: "s = key_stats_check_save all_ok 0 tick ?u" by (simp add: s_def stat_run_def)
  have ok: "stats_ok s" unfolding s_def by (intro stats_ok_run stats_ok_boot)
  have dims: "ks_rows s = rows" "ks_cols s = cols"
    unfolding s_def using dims_run by (simp_all add: key_stats_boot_def)
  have l: "ks_total l = ks_last_saved_total s" "ks_stats l =
      (case ks_flash_stats s of None \<Rightarrow> replicate rows (replicate cols 0) | Some t \<Rightarrow> chop rows cols t)"
    using load_last_saved [OF ok, of 0 tick'] dims by (simp_all add: l_def split: option.splits)
  have sq: "square rows cols (ks_stats s)" using ok dims by (simp add: stats_ok_def)
  then have "list_all (\<lambda>r. length r = cols) (ks_stats s)" "length (ks_stats s) = rows"
    by (auto simp: square_def list_all_length)
  then have whole: "chop rows cols (concat (ks_stats s)) = ks_stats s" using chop_concat by metis
  show ?thesis
  proof (cases "ks_total ?u - ks_last_saved_total ?u \<ge> KEY_STATS_SAVE_THRESHOLD \<or> ks_total ?u - ks_last_saved_total ?u > 0 \<and>
      tick - ks_last_save_tick ?u \<ge> KEY_STATS_SAVE_INTERVAL_MS")
    case True
    then have "s = save_key_stats all_ok 0 tick ?u" by (simp add: s key_stats_check_save_def Let_def)
    then have "ks_total s = ks_total ?u" "ks_last_saved_total s = ks_total s" "ks_flash_stats s = Some (concat (ks_stats s))"
      by (simp_all add: save_key_stats_def all_ok_def Let_def)
    then show ?thesis using l whole by (simp add: KEY_STATS_SAVE_THRESHOLD_def)
  next
    case False
    then have "s = ?u" by (simp only: s key_stats_check_save_def Let_def if_False)
    then show ?thesis using l(1) False by (auto simp: not_le)
  qed
qed

lemma restart_loses_few_witness:
  "ks_total (load_key_stats all_ok 0 5 (key_stats_boot 1 1
     (ks_flash_stats (stat_run (replicate 3 (Press (0, 0)) @ [CheckSave 10]) (key_stats_boot 1 1 None None)))
     (ks_flash_total (stat_run (replicate 3 (Press (0, 0)) @ [CheckSave 10]) (key_stats_boot 1 1 None None))))) = 0 \<and>
   ks_total (stat_run (replicate 3 (Press (0, 0)) @ [CheckSave 10]) (key_stats_boot 1 1 None None)) -
   ks_total (load_key_stats all_ok 0 5 (key_stats_boot 1 1
     (ks_flash_stats (stat_run (replicate 3 (Press (0, 0)) @ [CheckSave 10]) (key_stats_boot 1 1 None None)))
     (ks_flash_total (stat_run (replicate 3 (Press (0, 0)) @ [CheckSave 10]) (key_stats_boot 1 1 None None)))))
     < KEY_STATS_SAVE_THRESHOLD"
  using restart_loses_few [where evs = "replicate 3 (Press (0, 0))" and tick = 10 and rows = 1 and cols = 1 and tick' = 5]
  by (intro conjI) (code_simp, blast)


end
