(* ===== verification/Feature_Store.thy ===== *)
theory Feature_Store
  imports Keymap_Store Keyboard_Props
begin

unbundle bit_operations_syntax

text \<open>
  The tables of tap dances, combos, leader sequences and key overrides in flash: their \<open>_save\<close> and
  \<open>_load\<close> functions of \<open>main/input\<close>, with \<open>nvs_load_blob_with_total\<close>, and the part of \<open>app_main\<close>
  that loads them. As in \<open>Nvs\<close>, \<open>rc n\<close> is what the \<open>n\<close>-th call into the storage returns.
\<close>

section \<open>One table\<close>

definition save_table :: "(nat \<Rightarrow> nvs_rc) \<Rightarrow> nat \<Rightarrow> string \<Rightarrow> string \<Rightarrow> bytes \<Rightarrow> nat \<Rightarrow> kv \<Rightarrow> kv \<times> bool \<times> nat" where
  "save_table rc io key count_key blob count =
     nvs_session rc io [(key, NvBlob blob), (count_key, NvU32 (word_of_nat count))]"

definition load_table :: "(nat \<Rightarrow> nvs_rc) \<Rightarrow> nat \<Rightarrow> string \<Rightarrow> bytes \<Rightarrow> kv \<Rightarrow> bytes" where
  "load_table rc io key mem flash =
     (if rc io \<noteq> NvsOk then mem
      else if size_differs rc (io + 1) key (length mem) flash then mem
      else load_array rc (io + 2) key (length mem) mem flash)"

text \<open>The count saved beside a table: one more than its last slot in use.\<close>

definition used_count :: "('a \<Rightarrow> bool) \<Rightarrow> 'a list \<Rightarrow> nat" where
  "used_count used t = fold (\<lambda>i n. if used (t ! i) then i + 1 else n) [0..<length t] 0"

section \<open>The four tables as bytes\<close>

definition bytes_dances :: "bytes \<Rightarrow> bytes list" where
  "bytes_dances b = chop TAP_DANCE_MAX_SLOTS 4 b"

definition combo_bytes :: "combo_config \<Rightarrow> bytes" where
  "combo_bytes c = [cb_row1 c, cb_col1 c, cb_row2 c, cb_col2 c, cb_result c]"

definition bytes_combo :: "bytes \<Rightarrow> combo_config" where
  "bytes_combo b = \<lparr>cb_row1 = b ! 0, cb_col1 = b ! 1, cb_row2 = b ! 2, cb_col2 = b ! 3, cb_result = b ! 4\<rparr>"

definition leader_bytes :: "leader_entry \<Rightarrow> bytes" where
  "leader_bytes e = le_sequence e @ [le_result e, le_result_mod e]"

definition bytes_leader :: "bytes \<Rightarrow> leader_entry" where
  "bytes_leader b = \<lparr>le_sequence = take LEADER_MAX_SEQ_LEN b, le_result = b ! 4, le_result_mod = b ! 5\<rparr>"

definition override_bytes :: "key_override \<Rightarrow> bytes" where
  "override_bytes ko = [trigger_key ko, trigger_mod ko, result_key ko, result_mod ko]"

definition bytes_override :: "bytes \<Rightarrow> key_override" where
  "bytes_override b = \<lparr>trigger_key = b ! 0, trigger_mod = b ! 1, result_key = b ! 2, result_mod = b ! 3\<rparr>"

section \<open>Saving and loading them\<close>

definition tap_dance_save :: "(nat \<Rightarrow> nvs_rc) \<Rightarrow> nat \<Rightarrow> 'a tap_dance_scheme \<Rightarrow> kv \<Rightarrow> kv \<times> bool \<times> nat" where
  "tap_dance_save rc io s = save_table rc io ''td_configs'' ''td_count'' (concat (td_configs s))
     (used_count (list_ex (\<lambda>a. a \<noteq> 0)) (td_configs s))"

definition tap_dance_load :: "(nat \<Rightarrow> nvs_rc) \<Rightarrow> nat \<Rightarrow> kv \<Rightarrow> 'a tap_dance_scheme \<Rightarrow> 'a tap_dance_scheme" where
  "tap_dance_load rc io flash s =
     s\<lparr>td_configs := bytes_dances (load_table rc io ''td_configs'' (concat (td_configs s)) flash)\<rparr>"

definition combo_save :: "(nat \<Rightarrow> nvs_rc) \<Rightarrow> nat \<Rightarrow> 'a combo_scheme \<Rightarrow> kv \<Rightarrow> kv \<times> bool \<times> nat" where
  "combo_save rc io s = save_table rc io ''combo_cfg'' ''combo_cnt'' (concat (map combo_bytes (cb_configs s)))
     (used_count (\<lambda>c. cb_result c \<noteq> 0) (cb_configs s))"

definition combo_load :: "(nat \<Rightarrow> nvs_rc) \<Rightarrow> nat \<Rightarrow> kv \<Rightarrow> 'a combo_scheme \<Rightarrow> 'a combo_scheme" where
  "combo_load rc io flash s =
     s\<lparr>cb_configs := map bytes_combo (chop COMBO_MAX_SLOTS 5
         (load_table rc io ''combo_cfg'' (concat (map combo_bytes (cb_configs s))) flash))\<rparr>"

definition leader_save :: "(nat \<Rightarrow> nvs_rc) \<Rightarrow> nat \<Rightarrow> 'a leader_scheme \<Rightarrow> kv \<Rightarrow> kv \<times> bool \<times> nat" where
  "leader_save rc io s = save_table rc io ''leader_cfg'' ''leader_cnt'' (concat (map leader_bytes (ld_entries s)))
     (used_count (\<lambda>e. le_result e \<noteq> 0) (ld_entries s))"

definition leader_load :: "(nat \<Rightarrow> nvs_rc) \<Rightarrow> nat \<Rightarrow> kv \<Rightarrow> 'a leader_scheme \<Rightarrow> 'a leader_scheme" where
  "leader_load rc io flash s =
     s\<lparr>ld_entries := map bytes_leader (chop LEADER_MAX_ENTRIES 6
         (load_table rc io ''leader_cfg'' (concat (map leader_bytes (ld_entries s))) flash))\<rparr>"

definition key_override_save :: "(nat \<Rightarrow> nvs_rc) \<Rightarrow> nat \<Rightarrow> 'a key_features_scheme \<Rightarrow> kv \<Rightarrow> kv \<times> bool \<times> nat" where
  "key_override_save rc io s = save_table rc io ''ko_cfg'' ''ko_cnt'' (concat (map override_bytes (overrides s)))
     (used_count (\<lambda>ko. trigger_key ko \<noteq> 0) (overrides s))"

definition key_override_load :: "(nat \<Rightarrow> nvs_rc) \<Rightarrow> nat \<Rightarrow> kv \<Rightarrow> 'a key_features_scheme \<Rightarrow> 'a key_features_scheme" where
  "key_override_load rc io flash s =
     s\<lparr>overrides := map bytes_override (chop KEY_OVERRIDE_MAX_SLOTS 4
         (load_table rc io ''ko_cfg'' (concat (map override_bytes (overrides s))) flash))\<rparr>"

text \<open>The start of a keyboard: the tables are loaded; further down, the keyboard manager is
  initialised. Each load makes at most four calls into the storage.\<close>

definition main_load_features :: "(nat \<Rightarrow> nvs_rc) \<Rightarrow> nat \<Rightarrow> kv \<Rightarrow> 'a leader_scheme \<Rightarrow> 'a leader_scheme" where
  "main_load_features rc io flash s =
     key_override_load rc (io + 12) flash (leader_load rc (io + 8) flash
       (combo_load rc (io + 4) flash (tap_dance_load rc io flash s)))"

definition main_keyboard_start ::
  "(nat \<Rightarrow> nvs_rc) \<Rightarrow> nat \<Rightarrow> kv \<Rightarrow> bool \<Rightarrow> bool \<Rightarrow> 'a hid_scheme \<Rightarrow> 'a hid_scheme" where
  "main_keyboard_start rc io flash queue_made mutex_made s =
     keyboard_manager_init queue_made mutex_made (main_load_features rc io flash s)"

section \<open>A table comes back\<close>

lemma session_two_ok:
  "nvs_session rc io [(k1, v1), (k2, v2)] flash = (flash', True, io') \<Longrightarrow> flash' = flash(k1 \<mapsto> v1, k2 \<mapsto> v2)"
  by (auto simp: nvs_session_def split: nvs_rc.splits if_splits)

lemma save_table_ok:
  "save_table rc io key ckey blob n flash = (flash', True, io') \<Longrightarrow>
     flash' = flash(key \<mapsto> NvBlob blob, ckey \<mapsto> NvU32 (word_of_nat n))"
  unfolding save_table_def by (rule session_two_ok)

text \<open>The session refines the save of \<open>Nvs\<close>: the blob in flash, the result and the number of
  calls are the same.\<close>

lemma save_table_refines:
  assumes "save_table rc io key ckey blob n flash = (flash', ok, io')" "key \<noteq> ckey"
  shows "nvs_save_blob_with_total rc io (flash key) (NvBlob blob) = (flash' key, ok, io')
    \<or> \<not> ok \<and> flash' key \<in> {flash key, Some (NvBlob blob)}"
  using assms by (auto simp: save_table_def nvs_session_def nvs_save_blob_with_total_def nvs_kept_def
      eval_nat_numeral split: nvs_rc.splits if_splits)

context stored_array
begin

lemma load_table_saved:
  assumes "ok x" "ok y" "flash k = Some (NvBlob (enc x))" "rc io = NvsOk" "rc (io + 2) = NvsOk"
  shows "dec (load_table rc io k (enc y) flash) = x"
proof -
  have "\<not> size_differs rc (io + 1) k n flash" using assms(1,3) by (rule size_same)
  moreover have "dec (load_array rc (io + 2) k n (enc y) flash) = x"
    using assms(1,2,3,5) by (rule load_saved)
  ultimately show ?thesis using assms(4) enc_length [OF assms(2)] by (simp add: load_table_def)
qed

end

definition rows_ok :: "nat \<Rightarrow> ('a \<Rightarrow> bool) \<Rightarrow> 'a list \<Rightarrow> bool" where
  "rows_ok n ok t \<longleftrightarrow> length t = n \<and> list_all ok t"

lemma stored_rows:
  assumes "\<And>x. ok x \<Longrightarrow> dec (enc x) = x" "\<And>x. ok x \<Longrightarrow> length (enc x) = m"
  shows "stored_array (\<lambda>t. concat (map enc t)) (\<lambda>b. map dec (chop n m b)) (rows_ok n ok) (n * m)"
proof
  fix t assume t: "rows_ok n ok t"
  then have rows: "list_all (\<lambda>r. length r = m) (map enc t)" by (auto simp: rows_ok_def list_all_iff assms(2))
  show "map dec (chop n m (concat (map enc t))) = t"
    using chop_concat [OF rows] t by (simp add: rows_ok_def list_all_iff assms(1) comp_def map_idI)
  show "length (concat (map enc t)) = n * m"
    using length_concat_rows [OF rows] t by (simp add: rows_ok_def)
qed

interpretation stored_dances: stored_array "\<lambda>t. concat (map (\<lambda>a. a) t)" "\<lambda>b. map (\<lambda>a. a) (chop TAP_DANCE_MAX_SLOTS 4 b)"
    "rows_ok TAP_DANCE_MAX_SLOTS (\<lambda>a. length a = 4)" "TAP_DANCE_MAX_SLOTS * 4"
  by (rule stored_rows) simp_all

interpretation stored_combos: stored_array "\<lambda>t. concat (map combo_bytes t)" "\<lambda>b. map bytes_combo (chop COMBO_MAX_SLOTS 5 b)"
    "rows_ok COMBO_MAX_SLOTS (\<lambda>_. True)" "COMBO_MAX_SLOTS * 5"
  by (rule stored_rows) (simp_all add: combo_bytes_def bytes_combo_def)

interpretation stored_leaders: stored_array "\<lambda>t. concat (map leader_bytes t)"
    "\<lambda>b. map bytes_leader (chop LEADER_MAX_ENTRIES 6 b)"
    "rows_ok LEADER_MAX_ENTRIES (\<lambda>e. length (le_sequence e) = LEADER_MAX_SEQ_LEN)" "LEADER_MAX_ENTRIES * 6"
  by (rule stored_rows) (simp_all add: leader_bytes_def bytes_leader_def LEADER_MAX_SEQ_LEN_def nth_append)

interpretation stored_overrides: stored_array "\<lambda>t. concat (map override_bytes t)"
    "\<lambda>b. map bytes_override (chop KEY_OVERRIDE_MAX_SLOTS 4 b)"
    "rows_ok KEY_OVERRIDE_MAX_SLOTS (\<lambda>_. True)" "KEY_OVERRIDE_MAX_SLOTS * 4"
  by (rule stored_rows) (simp_all add: override_bytes_def bytes_override_def)

definition tables_ok :: "'a leader_scheme \<Rightarrow> bool" where
  "tables_ok s \<longleftrightarrow> rows_ok TAP_DANCE_MAX_SLOTS (\<lambda>a. length a = 4) (td_configs s) \<and>
     rows_ok COMBO_MAX_SLOTS (\<lambda>_. True) (cb_configs s) \<and>
     rows_ok LEADER_MAX_ENTRIES (\<lambda>e. length (le_sequence e) = LEADER_MAX_SEQ_LEN) (ld_entries s) \<and>
     rows_ok KEY_OVERRIDE_MAX_SLOTS (\<lambda>_. True) (overrides s)"

definition tables :: "'a leader_scheme \<Rightarrow> bytes list \<times> combo_config list \<times> leader_entry list \<times> key_override list" where
  "tables s = (td_configs s, cb_configs s, ld_entries s, overrides s)"

definition features_save :: "(nat \<Rightarrow> nvs_rc) \<Rightarrow> nat \<Rightarrow> 'a leader_scheme \<Rightarrow> kv \<Rightarrow> kv \<times> bool" where
  "features_save rc io s flash =
     (let (f1, ok1, io1) = tap_dance_save rc io s flash;
          (f2, ok2, io2) = combo_save rc io1 s f1;
          (f3, ok3, io3) = leader_save rc io2 s f2;
          (f4, ok4, io4) = key_override_save rc io3 s f3
      in (f4, ok1 \<and> ok2 \<and> ok3 \<and> ok4))"

lemma features_save_flash:
  assumes "features_save rc io s flash = (flash', True)"
  shows "flash' ''td_configs'' = Some (NvBlob (concat (map (\<lambda>a. a) (td_configs s))))"
    "flash' ''combo_cfg'' = Some (NvBlob (concat (map combo_bytes (cb_configs s))))"
    "flash' ''leader_cfg'' = Some (NvBlob (concat (map leader_bytes (ld_entries s))))"
    "flash' ''ko_cfg'' = Some (NvBlob (concat (map override_bytes (overrides s))))"
  using assms
  by (auto simp: features_save_def tap_dance_save_def combo_save_def leader_save_def key_override_save_def
      dest!: save_table_ok split: prod.splits)

text \<open>When the saves succeeded, the loads read back every tap dance, combo, leader sequence and key
  override as it was.\<close>

lemma features_load_back:
  fixes s :: "'a leader_scheme" and s0 :: "'b leader_scheme"
  assumes "tables_ok s" "tables_ok s0" "features_save rc io s flash = (flash', True)"
  shows "tables (main_load_features all_ok io2 flash' s0) = tables s"
proof -
  note f = features_save_flash [OF assms(3)]
  note ok = assms(1,2) [unfolded tables_ok_def]
  have "bytes_dances (load_table all_ok io2 ''td_configs'' (concat (td_configs s0)) flash') = td_configs s"
    using stored_dances.load_table_saved [where flash = flash' and k = "''td_configs''" and rc = all_ok and io = io2,
        OF _ _ f(1), of "td_configs s0"] ok
    by (simp add: bytes_dances_def all_ok_def)
  moreover have "map bytes_combo (chop COMBO_MAX_SLOTS 5 (load_table all_ok (io2 + 4) ''combo_cfg''
      (concat (map combo_bytes (cb_configs s0))) flash')) = cb_configs s"
    using stored_combos.load_table_saved [where flash = flash' and k = "''combo_cfg''", OF _ _ f(2)] ok
    by (simp add: all_ok_def)
  moreover have "map bytes_leader (chop LEADER_MAX_ENTRIES 6 (load_table all_ok (io2 + 8) ''leader_cfg''
      (concat (map leader_bytes (ld_entries s0))) flash')) = ld_entries s"
    using stored_leaders.load_table_saved [where flash = flash' and k = "''leader_cfg''", OF _ _ f(3)] ok
    by (simp add: all_ok_def)
  moreover have "map bytes_override (chop KEY_OVERRIDE_MAX_SLOTS 4 (load_table all_ok (io2 + 12) ''ko_cfg''
      (concat (map override_bytes (overrides s0))) flash')) = overrides s"
    using stored_overrides.load_table_saved [where flash = flash' and k = "''ko_cfg''", OF _ _ f(4)] ok
    by (simp add: all_ok_def)
  ultimately show ?thesis
    by (simp add: tables_def main_load_features_def tap_dance_load_def combo_load_def leader_load_def
        key_override_load_def)
qed

definition no_tables :: "bytes list \<times> combo_config list \<times> leader_entry list \<times> key_override list" where
  "no_tables = (replicate TAP_DANCE_MAX_SLOTS [0, 0, 0, 0], replicate COMBO_MAX_SLOTS combo_zero,
     replicate LEADER_MAX_ENTRIES leader_zero, replicate KEY_OVERRIDE_MAX_SLOTS key_override_zero)"

text \<open>
  C7: The order of the start undoes the loads. When the saves succeeded, the loads of the next start read
  back every tap dance, combo, leader sequence and key override as it was; but the keyboard manager is
  initialised after them and clears the four tables, so that after every start, whatever the
  storage answers, the keyboard has none of them.
\<close>

theorem feature_tables_wiped:
  fixes s :: "'a leader_scheme" and s0 :: kb
  assumes "tables_ok s" "tables_ok s0" "features_save rc io s flash = (flash', True)"
  shows "tables (main_load_features all_ok io2 flash' s0) = tables s \<and>
    tables (main_keyboard_start rc2 io2 flash' queue_made mutex_made s0) = no_tables"
  using features_load_back [OF assms]
  by (simp add: tables_def no_tables_def main_keyboard_start_def keyboard_manager_init_def hid_report_init_def
      key_override_init_def leader_init_def combo_init_def tap_dance_init_def tap_hold_init_def)

definition demo_tables :: kb where
  "demo_tables = tap_dance_set 3 [4, 5, 6, 7] (kb_statics 4 12 [] [])"

lemma demo_tables_ok: "tables_ok (kb_statics 4 12 [] [])" "tables_ok demo_tables"
  by (auto simp: tables_ok_def demo_tables_def tap_dance_set_def kb_statics_def rows_ok_def list_all_iff
      TAP_DANCE_MAX_SLOTS_def leader_zero_def LEADER_MAX_SEQ_LEN_def dest!: set_update_subset_insert [THEN subsetD])

lemma features_save_all_ok: "snd (features_save all_ok io s flash)"
  by (simp add: features_save_def tap_dance_save_def combo_save_def leader_save_def key_override_save_def
      save_table_def nvs_session_def all_ok_def)

lemma feature_tables_wiped_witness:
  "td_configs (main_load_features all_ok 0 (fst (features_save all_ok 0 demo_tables (\<lambda>_. None)))
      (kb_statics 4 12 [] [])) ! 3 = [4, 5, 6, 7] \<and>
   td_configs (main_keyboard_start all_ok 0 (fst (features_save all_ok 0 demo_tables (\<lambda>_. None))) True True
      (kb_statics 4 12 [] [])) ! 3 = [0, 0, 0, 0]"
  using feature_tables_wiped [OF demo_tables_ok(2,1), of all_ok 0 "\<lambda>_. None"
      "fst (features_save all_ok 0 demo_tables (\<lambda>_. None))" 0 all_ok True True]
    features_save_all_ok [of 0 demo_tables "\<lambda>_. None"]
  by (auto simp: tables_def no_tables_def demo_tables_def tap_dance_set_def kb_statics_def TAP_DANCE_MAX_SLOTS_def
      prod_eq_iff)

end
