(* ===== verification/Bt_Manager.thy ===== *)
theory Bt_Manager
  imports Keymap_Store Hid_Report
begin

unbundle bit_operations_syntax

text \<open>
  \<open>main/comm/ble/hid_bluetooth_manager.c\<close>: the Bluetooth keyboard with its three slots for bonded hosts,
  and \<open>main/input/keyboard_actions.c\<close>, the worker that switches it on and off. The Bluetooth stack is
  outside: what the manager asks of it is collected in \<open>bt_calls\<close>, what it answers is an argument, and
  its callbacks are events.
\<close>

section \<open>State\<close>

definition BT_MAX_DEVICES :: nat where "BT_MAX_DEVICES = 3"
definition BT_DEVICE_NAME_MAX :: nat where "BT_DEVICE_NAME_MAX = 20"

record bt_slot =
  bd_addr :: bytes
  bd_name :: bytes
  bd_valid :: bool

datatype bt_call = AdvStart | AdvStop | GattsClose u16 | SecurityRsp bytes | SetDeviceName | ConfigAdvData
  | ReportKey u16 u8 bytes | ReportMouse u16 mouse_data | ProfileDeinit

record bt =
  hid_conn_id :: u16
  sec_conn :: bool
  bt_initialized :: bool
  mem_released :: bool
  bt_slots :: "bt_slot list"
  bt_active_slot :: u8
  bt_pairing_mode :: bool
  hid_led_state :: u8
  bt_calls :: "bt_call list"
  bt_flash :: kv

definition bt_slot_zero :: bt_slot where
  "bt_slot_zero = \<lparr>bd_addr = replicate 6 0, bd_name = replicate BT_DEVICE_NAME_MAX 0, bd_valid = False\<rparr>"

definition bt_boot :: "kv \<Rightarrow> bt" where
  "bt_boot flash = \<lparr>hid_conn_id = 0, sec_conn = False, bt_initialized = False, mem_released = False,
     bt_slots = replicate BT_MAX_DEVICES bt_slot_zero, bt_active_slot = 0, bt_pairing_mode = False,
     hid_led_state = 0, bt_calls = [], bt_flash = flash\<rparr>"

definition bt_call :: "bt_call \<Rightarrow> bt \<Rightarrow> bt" where
  "bt_call c s = s\<lparr>bt_calls := bt_calls s @ [c]\<rparr>"

definition active_slot :: "bt \<Rightarrow> bt_slot" where
  "active_slot s = bt_slots s ! unat (bt_active_slot s)"

definition set_active :: "bt_slot \<Rightarrow> bt \<Rightarrow> bt" where
  "set_active sl s = s\<lparr>bt_slots := (bt_slots s)[unat (bt_active_slot s) := sl]\<rparr>"

section \<open>Flash\<close>

definition slot_bytes :: "bt_slot \<Rightarrow> bytes" where
  "slot_bytes sl = bd_addr sl @ bd_name sl @ [if bd_valid sl then 1 else 0]"

definition bytes_slot :: "bytes \<Rightarrow> bt_slot" where
  "bytes_slot b = \<lparr>bd_addr = take 6 b, bd_name = take BT_DEVICE_NAME_MAX (drop 6 b),
     bd_valid = (b ! (6 + BT_DEVICE_NAME_MAX) \<noteq> 0)\<rparr>"

definition SLOT_SIZE :: nat where "SLOT_SIZE = 6 + BT_DEVICE_NAME_MAX + 1"

definition slot_ok :: "bt_slot \<Rightarrow> bool" where
  "slot_ok sl \<longleftrightarrow> length (bd_addr sl) = 6 \<and> length (bd_name sl) = BT_DEVICE_NAME_MAX"

definition slots_ok :: "bt_slot list \<Rightarrow> bool" where
  "slots_ok sls \<longleftrightarrow> length sls = BT_MAX_DEVICES \<and> list_all slot_ok sls"

text \<open>No result of the storage is looked at.\<close>

definition bt_store :: "(nat \<Rightarrow> nvs_rc) \<Rightarrow> (string \<times> nvs_val) list \<Rightarrow> bt \<Rightarrow> bt" where
  "bt_store rc ws s = s\<lparr>bt_flash := fst (nvs_save_all rc 0 ws (bt_flash s))\<rparr>"

definition bt_devices_save :: "(nat \<Rightarrow> nvs_rc) \<Rightarrow> bt \<Rightarrow> bt" where
  "bt_devices_save rc s = bt_store rc [(''bt_slots'', NvBlob (concat (map slot_bytes (bt_slots s)))),
     (''bt_slot'', NvU8 (bt_active_slot s))] s"

definition bt_devices_load :: "(nat \<Rightarrow> nvs_rc) \<Rightarrow> bt \<Rightarrow> bt" where
  "bt_devices_load rc s =
     (let s = s\<lparr>bt_slots := replicate BT_MAX_DEVICES bt_slot_zero\<rparr> in
      if rc 0 \<noteq> NvsOk then s
      else
        let mem = load_array rc 1 ''bt_slots'' (BT_MAX_DEVICES * SLOT_SIZE) (concat (map slot_bytes (bt_slots s))) (bt_flash s);
            act = (case get_u8 rc 2 ''bt_slot'' (bt_flash s) of Some a \<Rightarrow> a | None \<Rightarrow> bt_active_slot s)
        in s\<lparr>bt_slots := map bytes_slot (chop BT_MAX_DEVICES SLOT_SIZE mem),
             bt_active_slot := if unat act \<ge> BT_MAX_DEVICES then 0 else act\<rparr>)"

definition save_bt_state :: "(nat \<Rightarrow> nvs_rc) \<Rightarrow> bool \<Rightarrow> bt \<Rightarrow> bt" where
  "save_bt_state rc enabled = bt_store rc [(''bt_enabled'', NvU8 (if enabled then 1 else 0))]"

definition load_bt_state :: "(nat \<Rightarrow> nvs_rc) \<Rightarrow> bt \<Rightarrow> bool" where
  "load_bt_state rc s =
     (if rc 0 \<noteq> NvsOk then True else case get_u8 rc 1 ''bt_enabled'' (bt_flash s) of Some e \<Rightarrow> e \<noteq> 0 | None \<Rightarrow> True)"

definition save_io_mode :: "(nat \<Rightarrow> nvs_rc) \<Rightarrow> u8 \<Rightarrow> bt \<Rightarrow> bt" where
  "save_io_mode rc mode = bt_store rc [(''io_mode'', NvU8 mode)]"

definition load_io_mode :: "(nat \<Rightarrow> nvs_rc) \<Rightarrow> bt \<Rightarrow> u8" where
  "load_io_mode rc s =
     (if rc 0 \<noteq> NvsOk then 0 else case get_u8 rc 1 ''io_mode'' (bt_flash s) of Some m \<Rightarrow> m | None \<Rightarrow> 0)"

section \<open>Slots\<close>

definition hid_bluetooth_is_initialized :: "bt \<Rightarrow> bool" where "hid_bluetooth_is_initialized s = bt_initialized s"
definition hid_bluetooth_is_connected :: "bt \<Rightarrow> bool" where "hid_bluetooth_is_connected s = sec_conn s"
definition hid_bluetooth_is_pairing :: "bt \<Rightarrow> bool" where "hid_bluetooth_is_pairing s = bt_pairing_mode s"
definition bt_get_active_slot :: "bt \<Rightarrow> u8" where "bt_get_active_slot s = bt_active_slot s"

definition bt_get_slot :: "u8 \<Rightarrow> bt \<Rightarrow> bt_slot option" where
  "bt_get_slot slot s = (if unat slot \<ge> BT_MAX_DEVICES then None else Some (bt_slots s ! unat slot))"

definition bt_disconnect :: "bt \<Rightarrow> bt" where
  "bt_disconnect s =
     (if \<not> bt_initialized s then s
      else bt_call AdvStop
        (if hid_bluetooth_is_connected s then (bt_call (GattsClose (hid_conn_id s)) s)\<lparr>sec_conn := False\<rparr> else s))"

definition bt_start_pairing :: "bt \<Rightarrow> bt" where
  "bt_start_pairing s =
     (if \<not> bt_initialized s then s
      else bt_call AdvStart (set_active bt_slot_zero ((bt_disconnect s)\<lparr>bt_pairing_mode := True\<rparr>)))"

definition bt_switch_slot :: "(nat \<Rightarrow> nvs_rc) \<Rightarrow> u8 \<Rightarrow> bt \<Rightarrow> bt" where
  "bt_switch_slot rc slot s =
     (if unat slot \<ge> BT_MAX_DEVICES then s
      else if slot = bt_active_slot s \<and> sec_conn s then s
      else
        let s1 = (bt_disconnect s)\<lparr>bt_active_slot := slot\<rparr>;
            s2 = (if bd_valid (bt_slots s1 ! unat slot) then bt_call AdvStart s1 else bt_start_pairing s1)
        in bt_store rc [(''bt_slot'', NvU8 (bt_active_slot s2))] s2)"

definition bt_next_device :: "(nat \<Rightarrow> nvs_rc) \<Rightarrow> bt \<Rightarrow> bt" where
  "bt_next_device rc s = bt_switch_slot rc (word_of_nat ((unat (bt_active_slot s) + 1) mod BT_MAX_DEVICES)) s"

definition bt_prev_device :: "(nat \<Rightarrow> nvs_rc) \<Rightarrow> bt \<Rightarrow> bt" where
  "bt_prev_device rc s =
     bt_switch_slot rc (if bt_active_slot s = 0 then word_of_nat (BT_MAX_DEVICES - 1) else bt_active_slot s - 1) s"

section \<open>Callbacks of the stack\<close>

datatype bt_event = RegFinish bool | Connect u16 | Disconnect | LedReport bytes | AdvDataSet | SecReq bytes
  | AuthCmpl bool bytes | OtherEvent

fun hidd_event_callback :: "bt_event \<Rightarrow> bt \<Rightarrow> bt" where
  "hidd_event_callback (RegFinish ok) s = (if ok then bt_call ConfigAdvData (bt_call SetDeviceName s) else s)"
| "hidd_event_callback (Connect conn_id) s = s\<lparr>hid_conn_id := conn_id, sec_conn := True\<rparr>"
| "hidd_event_callback Disconnect s = bt_call AdvStart (s\<lparr>sec_conn := False, hid_conn_id := 0\<rparr>)"
| "hidd_event_callback (LedReport d) s = (if length d \<ge> 1 then s\<lparr>hid_led_state := d ! 0\<rparr> else s)"
| "hidd_event_callback _ s = s"

fun gap_event_handler :: "(nat \<Rightarrow> nvs_rc) \<Rightarrow> bt_event \<Rightarrow> bt \<Rightarrow> bt" where
  "gap_event_handler rc AdvDataSet s = bt_call AdvStart s"
| "gap_event_handler rc (SecReq addr) s = bt_call (SecurityRsp addr) s"
| "gap_event_handler rc (AuthCmpl ok addr) s =
     (if \<not> ok then s\<lparr>sec_conn := False\<rparr>
      else bt_devices_save rc
        ((set_active ((active_slot s)\<lparr>bd_addr := addr, bd_valid := True\<rparr>) (s\<lparr>sec_conn := True\<rparr>))
           \<lparr>bt_pairing_mode := False\<rparr>))"
| "gap_event_handler rc _ s = s"

section \<open>On and off\<close>

text \<open>The results of the four start-up calls of the stack; the profile's own is only logged.\<close>

definition init_hid_bluetooth :: "(nat \<Rightarrow> bool) \<Rightarrow> bt \<Rightarrow> bt" where
  "init_hid_bluetooth ok s =
     (let s = s\<lparr>mem_released := True\<rparr> in
      if ok 0 \<and> ok 1 \<and> ok 2 \<and> ok 3 then s\<lparr>bt_initialized := True\<rparr> else s)"

definition deinit_hid_bluetooth :: "bt \<Rightarrow> bt" where
  "deinit_hid_bluetooth s =
     (let s = (if hid_bluetooth_is_connected s then bt_call (GattsClose (hid_conn_id s)) s else s)
      in (bt_call ProfileDeinit (bt_call AdvStop s))\<lparr>bt_initialized := False, sec_conn := False, hid_conn_id := 0\<rparr>)"

definition send_hid_bl_key :: "u8 \<Rightarrow> bytes \<Rightarrow> bt \<Rightarrow> bt" where
  "send_hid_bl_key modifier kb s = bt_call (ReportKey (hid_conn_id s) modifier kb) s"

definition send_hid_bl_mouse :: "mouse_data \<Rightarrow> bt \<Rightarrow> bt" where
  "send_hid_bl_mouse m s = bt_call (ReportMouse (hid_conn_id s) m) s"

definition bt_is_ready :: "bt \<Rightarrow> bool" where
  "bt_is_ready s \<longleftrightarrow> hid_bluetooth_is_initialized s \<and> hid_bluetooth_is_connected s"

text \<open>A key report of \<open>hid_transport.c\<close> on the Bluetooth route.\<close>

definition bl_report :: "u8 \<Rightarrow> bytes \<Rightarrow> bt \<Rightarrow> bt \<times> bool" where
  "bl_report modifier kb s = (if bt_is_ready s then (send_hid_bl_key modifier kb s, True) else (s, False))"

section \<open>The worker\<close>

datatype km_event = KM_EVENT_DISPLAY_UPDATE | KM_EVENT_BT_TOGGLE | KM_EVENT_DISPLAY_NEXT

datatype display_call = RefreshAll | DisplayKey

record km = bt +
  km_queue :: "km_event list option"
  km_display :: "display_call list"

definition KM_QUEUE_LEN :: nat where "KM_QUEUE_LEN = 10"

definition keyboard_worker_init :: "bool \<Rightarrow> km \<Rightarrow> km" where
  "keyboard_worker_init made s = (if km_queue s \<noteq> None then s else s\<lparr>km_queue := if made then Some [] else None\<rparr>)"

definition km_post :: "km_event \<Rightarrow> km \<Rightarrow> km" where
  "km_post ev s =
     (case km_queue s of None \<Rightarrow> s
      | Some q \<Rightarrow> if length q < KM_QUEUE_LEN then s\<lparr>km_queue := Some (q @ [ev])\<rparr> else s)"

definition bt_part :: "(bt \<Rightarrow> bt) \<Rightarrow> km \<Rightarrow> km" where
  "bt_part f s = bt.extend (f (bt.truncate s)) (km.fields (km_queue s) (km_display s))"

definition km_worker_step :: "(nat \<Rightarrow> nvs_rc) \<Rightarrow> (nat \<Rightarrow> bool) \<Rightarrow> km \<Rightarrow> km" where
  "km_worker_step rc ok s =
     (case km_queue s of
        Some (ev # q) \<Rightarrow>
          let s = s\<lparr>km_queue := Some q\<rparr> in
          (case ev of
             KM_EVENT_DISPLAY_UPDATE \<Rightarrow> s\<lparr>km_display := km_display s @ [RefreshAll]\<rparr>
           | KM_EVENT_DISPLAY_NEXT \<Rightarrow> s\<lparr>km_display := km_display s @ [DisplayKey]\<rparr>
           | KM_EVENT_BT_TOGGLE \<Rightarrow>
               let s1 = (if bt_initialized s then bt_part (save_bt_state rc False) (bt_part deinit_hid_bluetooth s)
                         else bt_part (save_bt_state rc True) (bt_part (init_hid_bluetooth ok) s))
               in s1\<lparr>km_display := km_display s1 @ [RefreshAll]\<rparr>)
      | _ \<Rightarrow> s)"

text \<open>The start: the slots, then the saved state of the radio and, when it is on, of the output.
  The result is whether reports go out by Bluetooth.\<close>

definition bt_start :: "(nat \<Rightarrow> nvs_rc) \<Rightarrow> (nat \<Rightarrow> nvs_rc) \<Rightarrow> (nat \<Rightarrow> nvs_rc) \<Rightarrow> (nat \<Rightarrow> bool) \<Rightarrow> bt \<Rightarrow> bt \<times> bool" where
  "bt_start rc_slots rc_state rc_mode ok s =
     (let s = bt_devices_load rc_slots s in
      if load_bt_state rc_state s
      then let s1 = init_hid_bluetooth ok s
           in (s1, load_io_mode rc_mode s1 = 1 \<and> hid_bluetooth_is_initialized s1)
      else (s, False))"

section \<open>The slots keep their shape\<close>

datatype bt_op = Event bt_event | Switch u8 | Next | Prev | Pair | DisconnectCmd | TurnOn "nat \<Rightarrow> bool" | TurnOff
  | Key u8 bytes

fun bt_op_step :: "(nat \<Rightarrow> nvs_rc) \<Rightarrow> bt_op \<Rightarrow> bt \<Rightarrow> bt" where
  "bt_op_step rc (Event e) s = gap_event_handler rc e (hidd_event_callback e s)"
| "bt_op_step rc (Switch slot) s = bt_switch_slot rc slot s"
| "bt_op_step rc Next s = bt_next_device rc s"
| "bt_op_step rc Prev s = bt_prev_device rc s"
| "bt_op_step rc Pair s = bt_start_pairing s"
| "bt_op_step rc DisconnectCmd s = bt_disconnect s"
| "bt_op_step rc (TurnOn ok) s = init_hid_bluetooth ok s"
| "bt_op_step rc TurnOff s = deinit_hid_bluetooth s"
| "bt_op_step rc (Key m kb) s = fst (bl_report m kb s)"

fun bt_op_ok :: "bt_op \<Rightarrow> bool" where
  "bt_op_ok (Event (AuthCmpl ok addr)) \<longleftrightarrow> length addr = 6"
| "bt_op_ok _ \<longleftrightarrow> True"

definition bt_ok :: "bt \<Rightarrow> bool" where
  "bt_ok s \<longleftrightarrow> slots_ok (bt_slots s) \<and> unat (bt_active_slot s) < BT_MAX_DEVICES"

lemma call_fields [simp]:
  "bt_slots (bt_call c s) = bt_slots s" "bt_active_slot (bt_call c s) = bt_active_slot s"
  "sec_conn (bt_call c s) = sec_conn s" "bt_initialized (bt_call c s) = bt_initialized s"
  "bt_pairing_mode (bt_call c s) = bt_pairing_mode s" "bt_flash (bt_call c s) = bt_flash s"
  "hid_conn_id (bt_call c s) = hid_conn_id s" "bt_calls (bt_call c s) = bt_calls s @ [c]"
  by (simp_all add: bt_call_def)

lemma disconnect_fields [simp]:
  "bt_slots (bt_disconnect s) = bt_slots s" "bt_active_slot (bt_disconnect s) = bt_active_slot s"
  "bt_initialized (bt_disconnect s) = bt_initialized s" "bt_pairing_mode (bt_disconnect s) = bt_pairing_mode s"
  "bt_flash (bt_disconnect s) = bt_flash s"
  by (simp_all add: bt_disconnect_def)

lemma store_fields [simp]:
  "bt_slots (bt_store rc ws s) = bt_slots s" "bt_active_slot (bt_store rc ws s) = bt_active_slot s"
  "sec_conn (bt_store rc ws s) = sec_conn s" "bt_initialized (bt_store rc ws s) = bt_initialized s"
  "bt_pairing_mode (bt_store rc ws s) = bt_pairing_mode s" "bt_calls (bt_store rc ws s) = bt_calls s"
  by (simp_all add: bt_store_def)

lemma bt_ok_call [simp]: "bt_ok (bt_call c s) = bt_ok s"
  by (simp add: bt_ok_def)

lemma bt_ok_store [simp]: "bt_ok (bt_store rc ws s) = bt_ok s"
  by (simp add: bt_ok_def)

lemma bt_ok_disconnect [simp]: "bt_ok (bt_disconnect s) = bt_ok s"
  by (simp add: bt_ok_def)

lemma bt_ok_fields [simp]:
  "bt_ok (s\<lparr>sec_conn := b\<rparr>) = bt_ok s" "bt_ok (s\<lparr>hid_conn_id := n\<rparr>) = bt_ok s"
  "bt_ok (s\<lparr>bt_initialized := b\<rparr>) = bt_ok s" "bt_ok (s\<lparr>mem_released := b\<rparr>) = bt_ok s"
  "bt_ok (s\<lparr>bt_pairing_mode := b\<rparr>) = bt_ok s" "bt_ok (s\<lparr>hid_led_state := w\<rparr>) = bt_ok s"
  by (simp_all add: bt_ok_def)

lemma bt_ok_set_active: "bt_ok s \<Longrightarrow> slot_ok sl \<Longrightarrow> bt_ok (set_active sl s)"
  by (auto simp: bt_ok_def set_active_def slots_ok_def list_all_iff dest: set_update_subset_insert [THEN subsetD])

lemma slot_zero_ok [simp]: "slot_ok bt_slot_zero"
  by (simp add: slot_ok_def bt_slot_zero_def)

lemma bt_ok_pairing: "bt_ok s \<Longrightarrow> bt_ok (bt_start_pairing s)"
  by (simp add: bt_start_pairing_def bt_ok_set_active)

lemma bt_ok_switch: "bt_ok s \<Longrightarrow> bt_ok (bt_switch_slot rc slot s)"
  by (auto simp: bt_switch_slot_def Let_def intro!: bt_ok_pairing) (simp_all add: bt_ok_def)

lemma active_slot_ok: "bt_ok s \<Longrightarrow> slot_ok (active_slot s)"
  by (simp add: bt_ok_def slots_ok_def active_slot_def list_all_length)

lemma bt_ok_event: "bt_ok s \<Longrightarrow> bt_op_ok (Event e) \<Longrightarrow> bt_ok (gap_event_handler rc e (hidd_event_callback e s))"
  by (cases e) (auto simp: bt_devices_save_def active_slot_def slot_ok_def
      dest: active_slot_ok intro!: bt_ok_set_active)

lemma bt_ok_step: "bt_ok s \<Longrightarrow> bt_op_ok op \<Longrightarrow> bt_ok (bt_op_step rc op s)"
  by (cases op) (auto simp: bt_ok_event bt_ok_switch bt_next_device_def bt_prev_device_def bt_ok_pairing
      init_hid_bluetooth_def deinit_hid_bluetooth_def bl_report_def send_hid_bl_key_def Let_def)

interpretation stored_slots: stored_array "\<lambda>sls. concat (map slot_bytes sls)"
    "\<lambda>b. map bytes_slot (chop BT_MAX_DEVICES SLOT_SIZE b)" slots_ok "BT_MAX_DEVICES * SLOT_SIZE"
proof
  fix sls assume ok: "slots_ok sls"
  have again: "bytes_slot (slot_bytes sl) = sl" "length (slot_bytes sl) = SLOT_SIZE" if "slot_ok sl" for sl
    using that by (cases sl; simp add: slot_ok_def bytes_slot_def slot_bytes_def SLOT_SIZE_def nth_append)+
  then have rows: "list_all (\<lambda>r. length r = SLOT_SIZE) (map slot_bytes sls)"
    using ok by (simp add: slots_ok_def list_all_iff)
  show "map bytes_slot (chop BT_MAX_DEVICES SLOT_SIZE (concat (map slot_bytes sls))) = sls"
    using chop_concat [OF rows] ok again by (simp add: slots_ok_def list_all_iff comp_def map_idI)
  show "length (concat (map slot_bytes sls)) = BT_MAX_DEVICES * SLOT_SIZE"
    using length_concat_rows [OF rows] ok by (simp add: slots_ok_def)
qed

lemma zero_slots_ok: "slots_ok (replicate BT_MAX_DEVICES bt_slot_zero)"
  by (simp add: slots_ok_def list_all_iff)

lemma bytes_slot_ok: "length b = SLOT_SIZE \<Longrightarrow> slot_ok (bytes_slot b)"
  by (simp add: slot_ok_def bytes_slot_def SLOT_SIZE_def)

lemma bt_ok_load: "bt_ok s \<Longrightarrow> bt_ok (bt_devices_load rc s)"
proof -
  assume ok: "bt_ok s"
  let ?z = "concat (map slot_bytes (replicate BT_MAX_DEVICES bt_slot_zero))"
  let ?mem = "load_array rc 1 ''bt_slots'' (BT_MAX_DEVICES * SLOT_SIZE) ?z (bt_flash s)"
  have "length ?z = BT_MAX_DEVICES * SLOT_SIZE" using stored_slots.enc_length [OF zero_slots_ok] by simp
  then have "length ?mem = BT_MAX_DEVICES * SLOT_SIZE" by (auto simp: load_array_def split: option.splits)
  then have "list_all (\<lambda>r. length r = SLOT_SIZE) (chop BT_MAX_DEVICES SLOT_SIZE ?mem)"
    using chop_rows [of BT_MAX_DEVICES SLOT_SIZE ?mem] by (simp add: list_all_iff)
  then have "slots_ok (map bytes_slot (chop BT_MAX_DEVICES SLOT_SIZE ?mem))"
    by (auto simp: slots_ok_def list_all_iff bytes_slot_ok)
  then show ?thesis
    using ok zero_slots_ok by (simp add: bt_devices_load_def bt_ok_def Let_def not_le)
qed

lemma bt_ok_boot: "bt_ok (bt_boot flash)"
  using zero_slots_ok by (simp add: bt_ok_def bt_boot_def BT_MAX_DEVICES_def)

text \<open>
  Whatever the flash holds at the start, and whatever hosts and commands do after it, the active
  slot is one of the three and every slot keeps its shape.
\<close>

theorem bt_slots_in_bounds:
  "\<forall>op\<in>set ops. bt_op_ok op \<Longrightarrow>
   bt_ok (fold (bt_op_step rc) ops (fst (bt_start rc_slots rc_state rc_mode ok (bt_boot flash))))"
proof -
  have start: "bt_ok (fst (bt_start rc_slots rc_state rc_mode ok (bt_boot flash)))"
    using bt_ok_load [OF bt_ok_boot] by (simp add: bt_start_def init_hid_bluetooth_def Let_def)
  have "\<forall>op\<in>set ops. bt_op_ok op \<Longrightarrow> bt_ok s \<Longrightarrow> bt_ok (fold (bt_op_step rc) ops s)" for s
    by (induction ops arbitrary: s) (simp_all add: bt_ok_step)
  then show "\<forall>op\<in>set ops. bt_op_ok op \<Longrightarrow>
      bt_ok (fold (bt_op_step rc) ops (fst (bt_start rc_slots rc_state rc_mode ok (bt_boot flash))))"
    using start by blast
qed

lemma bt_slots_in_bounds_witness:
  "bt_ok (fold (bt_op_step all_ok) [Switch 1, Event (Connect 3), Event (AuthCmpl True [1, 2, 3, 4, 5, 6]), Next]
     (fst (bt_start all_ok all_ok all_ok (\<lambda>_. True) (bt_boot (\<lambda>_. Some (NvU8 200))))))"
  using bt_slots_in_bounds [of "[Switch 1, Event (Connect 3), Event (AuthCmpl True [1, 2, 3, 4, 5, 6]), Next]"] by simp


section \<open>Hosts\<close>

lemma devices_saved:
  "bt_flash (bt_devices_save all_ok s) =
     (bt_flash s)(''bt_slots'' \<mapsto> NvBlob (concat (map slot_bytes (bt_slots s))), ''bt_slot'' \<mapsto> NvU8 (bt_active_slot s))"
  by (simp add: bt_devices_save_def bt_store_def nvs_save_all_def all_ok_def)

lemma load_saved_devices:
  assumes "bt_ok s" "bt_flash u = bt_flash (bt_devices_save all_ok s)"
  shows "bt_slots (bt_devices_load all_ok u) = bt_slots s" "bt_active_slot (bt_devices_load all_ok u) = bt_active_slot s"
proof -
  have f: "bt_flash u ''bt_slots'' = Some (NvBlob (concat (map slot_bytes (bt_slots s))))"
    "bt_flash u ''bt_slot'' = Some (NvU8 (bt_active_slot s))"
    by (simp_all add: assms(2) devices_saved)
  have ok: "slots_ok (bt_slots s)" "unat (bt_active_slot s) < BT_MAX_DEVICES" using assms(1) by (simp_all add: bt_ok_def)
  have "map bytes_slot (chop BT_MAX_DEVICES SLOT_SIZE (load_array all_ok 1 ''bt_slots'' (BT_MAX_DEVICES * SLOT_SIZE)
      (concat (map slot_bytes (replicate BT_MAX_DEVICES bt_slot_zero))) (bt_flash u))) = bt_slots s"
    using stored_slots.load_saved [where flash = "bt_flash u" and k = "''bt_slots''", OF ok(1) zero_slots_ok f(1), of all_ok 1]
    by (simp add: all_ok_def)
  then show "bt_slots (bt_devices_load all_ok u) = bt_slots s"
    by (simp add: bt_devices_load_def all_ok_def Let_def)
  show "bt_active_slot (bt_devices_load all_ok u) = bt_active_slot s"
    using f(2) ok(2) by (simp add: bt_devices_load_def all_ok_def get_u8_def Let_def)
qed

lemma auth_slots:
  assumes "bt_ok s"
  shows "bt_slots (gap_event_handler rc (AuthCmpl True addr) s) =
      (bt_slots s)[unat (bt_active_slot s) := (active_slot s)\<lparr>bd_addr := addr, bd_valid := True\<rparr>]"
    "bt_active_slot (gap_event_handler rc (AuthCmpl True addr) s) = bt_active_slot s"
    "bt_flash (gap_event_handler all_ok (AuthCmpl True addr) s) =
       bt_flash (bt_devices_save all_ok (gap_event_handler all_ok (AuthCmpl True addr) s))"
  by (simp_all add: bt_devices_save_def set_active_def active_slot_def)
    (simp add: bt_store_def nvs_save_all_def all_ok_def)

text \<open>
  A host that bonds is kept: what a start reads after an authentication are the three slots and the
  active one as they were, the host's address in the active slot.
\<close>

theorem bonds_survive_restart:
  assumes "bt_ok s" "length addr = 6"
  defines "s' \<equiv> gap_event_handler all_ok (AuthCmpl True addr) s"
  shows "bt_slots (bt_devices_load all_ok (bt_boot (bt_flash s'))) = bt_slots s' \<and>
    bt_active_slot (bt_devices_load all_ok (bt_boot (bt_flash s'))) = bt_active_slot s \<and>
    bd_addr (active_slot s') = addr \<and> bd_valid (active_slot s')"
proof -
  have ok: "bt_ok s'"
    using bt_ok_event [OF assms(1), of "AuthCmpl True addr" all_ok] assms(2) by (simp add: s'_def)
  have "bt_flash (bt_boot (bt_flash s')) = bt_flash (bt_devices_save all_ok s')"
    using auth_slots(3) [OF assms(1)] by (simp add: bt_boot_def s'_def)
  from load_saved_devices [OF ok this]
  have "bt_slots (bt_devices_load all_ok (bt_boot (bt_flash s'))) = bt_slots s' \<and>
    bt_active_slot (bt_devices_load all_ok (bt_boot (bt_flash s'))) = bt_active_slot s'" by simp
  moreover have "unat (bt_active_slot s) < length (bt_slots s)" using assms(1) by (simp add: bt_ok_def slots_ok_def)
  ultimately show ?thesis
    using auth_slots(1,2) [OF assms(1)] by (simp add: s'_def active_slot_def)
qed

definition demo_bt :: bt where
  "demo_bt = (bt_boot (\<lambda>_. None))\<lparr>bt_initialized := True, sec_conn := True,
     bt_slots := [bt_slot_zero\<lparr>bd_addr := [1, 1, 1, 1, 1, 1], bd_valid := True\<rparr>,
                  bt_slot_zero\<lparr>bd_addr := [2, 2, 2, 2, 2, 2], bd_valid := True\<rparr>, bt_slot_zero]\<rparr>"

lemma demo_bt_ok: "bt_ok demo_bt"
  by (simp add: bt_ok_def demo_bt_def bt_boot_def slots_ok_def slot_ok_def bt_slot_zero_def BT_MAX_DEVICES_def)

lemma bonds_survive_restart_witness:
  "bd_addr (active_slot (gap_event_handler all_ok (AuthCmpl True [3, 3, 3, 3, 3, 3]) demo_bt)) = [3, 3, 3, 3, 3, 3]"
  using bonds_survive_restart [OF demo_bt_ok, of "[3, 3, 3, 3, 3, 3]"] by simp

text \<open>
  C24: The wrong host takes the slot. The advertising after a switch to a bonded slot is open to every
  host, and whoever authenticates is written into the active slot: when the host of another slot
  reconnects first, the bond of the slot switched to is gone, in memory and after a restart, and
  the other host stands in both slots.
\<close>

theorem wrong_host_takes_slot:
  fixes c :: u16
  assumes "bt_ok s" "bt_initialized s" "unat slot < BT_MAX_DEVICES" "slot \<noteq> bt_active_slot s"
    and "bd_valid (bt_slots s ! unat slot)" "bd_addr (bt_slots s ! unat slot) = b"
    and "bd_addr (active_slot s) = a" "a \<noteq> b" "\<forall>i<BT_MAX_DEVICES. i \<noteq> unat slot \<longrightarrow> bd_addr (bt_slots s ! i) \<noteq> b"
  defines "s' \<equiv> fold (bt_op_step all_ok)
      [Switch slot, Event Disconnect, Event (Connect c), Event (AuthCmpl True a)] s"
  shows "bt_active_slot s' = slot \<and> bd_addr (bt_slots s' ! unat slot) = a \<and> bd_addr (bt_slots s' ! unat (bt_active_slot s)) = a \<and>
    (\<forall>sl\<in>set (bt_slots s'). bd_addr sl \<noteq> b) \<and>
    (\<forall>sl\<in>set (bt_slots (bt_devices_load all_ok (bt_boot (bt_flash s')))). bd_addr sl \<noteq> b)"
proof -
  let ?s1 = "bt_switch_slot all_ok slot s"
  let ?s3 = "(bt_call AdvStart (?s1\<lparr>sec_conn := False, hid_conn_id := 0\<rparr>))\<lparr>hid_conn_id := c, sec_conn := True\<rparr>"
  have s1: "bt_active_slot ?s1 = slot" "bt_slots ?s1 = bt_slots s"
    using assms(3-5) by (simp_all add: bt_switch_slot_def Let_def)
  have s': "s' = gap_event_handler all_ok (AuthCmpl True a) ?s3" by (simp add: s'_def)
  have ok3: "bt_ok ?s3" using bt_ok_switch [OF assms(1)] by simp
  have len: "length a = 6" "length (bt_slots s) = BT_MAX_DEVICES" "unat (bt_active_slot s) < BT_MAX_DEVICES"
    using assms(1,7) active_slot_ok [OF assms(1)] by (auto simp: bt_ok_def slots_ok_def slot_ok_def)
  have act3: "unat (bt_active_slot ?s3) = unat slot" "bt_slots ?s3 = bt_slots s" by (simp_all add: s1)
  have slots: "bt_slots s' = (bt_slots s)[unat slot := (bt_slots s ! unat slot)\<lparr>bd_addr := a, bd_valid := True\<rparr>]"
    unfolding s' auth_slots(1) [OF ok3] active_slot_def act3 ..
  have act: "bt_active_slot s' = slot" unfolding s' auth_slots(2) [OF ok3] by (simp add: s1)
  have ne: "unat slot \<noteq> unat (bt_active_slot s)" using assms(4) by (simp add: word_unat_eq_iff)
  have gone: "bd_addr (bt_slots s' ! i) \<noteq> b" if "i < BT_MAX_DEVICES" for i
    using that assms(8,9) slots len(2) by (cases "i = unat slot") simp_all
  then have none: "\<forall>sl\<in>set (bt_slots s'). bd_addr sl \<noteq> b"
    using slots len(2) by (metis in_set_conv_nth length_list_update)
  have "bt_ok s'" unfolding s' using bt_ok_event [OF ok3, of "AuthCmpl True a" all_ok] len(1) by simp
  moreover have "bt_flash (bt_boot (bt_flash s')) = bt_flash (bt_devices_save all_ok s')"
    unfolding s' using auth_slots(3) [OF ok3] by (simp add: bt_boot_def)
  ultimately have "bt_slots (bt_devices_load all_ok (bt_boot (bt_flash s'))) = bt_slots s'" by (rule load_saved_devices)
  then show ?thesis
    using none act slots ne assms(3,7) len(2) by (simp add: active_slot_def)
qed

lemma wrong_host_takes_slot_witness:
  "bd_addr (bt_slots (fold (bt_op_step all_ok)
      [Switch 1, Event Disconnect, Event (Connect 4), Event (AuthCmpl True [1, 1, 1, 1, 1, 1])] demo_bt) ! unat (1 :: u8)) =
    [1, 1, 1, 1, 1, 1]"
proof -
  have pre: "bt_initialized demo_bt" "unat (1 :: u8) < BT_MAX_DEVICES" "1 \<noteq> bt_active_slot demo_bt"
    "bd_valid (bt_slots demo_bt ! unat (1 :: u8))" "bd_addr (bt_slots demo_bt ! unat (1 :: u8)) = [2, 2, 2, 2, 2, 2]"
    "bd_addr (active_slot demo_bt) = [1, 1, 1, 1, 1, 1]" "[1 :: u8, 1, 1, 1, 1, 1] \<noteq> [2, 2, 2, 2, 2, 2]"
    "\<forall>i<BT_MAX_DEVICES. i \<noteq> unat (1 :: u8) \<longrightarrow> bd_addr (bt_slots demo_bt ! i) \<noteq> [2, 2, 2, 2, 2, 2]"
    by (auto simp: demo_bt_def bt_boot_def active_slot_def BT_MAX_DEVICES_def bt_slot_zero_def less_Suc_eq numeral_3_eq_3 eval_nat_numeral)
  show ?thesis
    using wrong_host_takes_slot [OF demo_bt_ok pre, of 4] by blast
qed

text \<open>
  Reports leave before the host has authenticated: the bare connection already counts as
  connected, so that a key report of the transport is sent on it, whatever comes of the
  authentication after it. (The comment beside the send says that this cannot happen.)
\<close>

theorem reports_before_authentication:
  assumes "bt_initialized s"
  shows "bl_report m kb (bt_op_step rc (Event (Connect c)) s) =
      (bt_call (ReportKey c m kb) (s\<lparr>hid_conn_id := c, sec_conn := True\<rparr>), True) \<and>
    \<not> bt_is_ready (bt_op_step rc (Event (AuthCmpl False addr)) (fst (bl_report m kb (bt_op_step rc (Event (Connect c)) s))))"
  using assms by (simp add: bl_report_def bt_is_ready_def hid_bluetooth_is_initialized_def hid_bluetooth_is_connected_def
      send_hid_bl_key_def)

lemma reports_before_authentication_witness:
  "bt_calls (fst (bl_report 0 [4, 0, 0, 0, 0, 0] (bt_op_step all_ok (Event (Connect 7))
     ((bt_boot (\<lambda>_. None))\<lparr>bt_initialized := True\<rparr>)))) = [ReportKey 7 0 [4, 0, 0, 0, 0, 0]]"
  using reports_before_authentication [of "(bt_boot (\<lambda>_. None))\<lparr>bt_initialized := True\<rparr>" 0 "[4, 0, 0, 0, 0, 0]" all_ok 7]
  by (simp add: bt_boot_def bt_call_def)

text \<open>The pairing flag outlives the pairing: switching to a bonded slot does not clear it.\<close>

lemma pairing_flag_sticks:
  assumes "bt_ok s" "bt_initialized s" "unat slot < BT_MAX_DEVICES" "slot \<noteq> bt_active_slot s" "bd_valid (bt_slots s ! unat slot)"
  shows "hid_bluetooth_is_pairing (bt_switch_slot rc slot (bt_start_pairing s))"
proof -
  have "unat slot \<noteq> unat (bt_active_slot s)" using assms(4) by (simp add: word_unat_eq_iff)
  then show ?thesis
    using assms by (simp add: bt_switch_slot_def bt_start_pairing_def set_active_def hid_bluetooth_is_pairing_def Let_def)
qed


end
