(* ===== verification/Cdc_Bigrams.thy ===== *)
theory Cdc_Bigrams
  imports Key_Stats
begin

unbundle bit_operations_syntax

text \<open>
  The statistics commands of \<open>main/comm/cdc/cdc_binary_cmds.c\<close>: the choice of the most frequent pairs of
  keys, their sorting, and the texts. A text is printed piece by piece into a buffer of 1024 bytes; the
  position is what the \<open>snprintf\<close> calls so far returned.
\<close>

section \<open>The most frequent pairs\<close>

type_synonym bg = "u8 \<times> u8 \<times> u16"

definition bg_count :: "bg \<Rightarrow> u16" where "bg_count e = snd (snd e)"

definition bg_cells :: "key_stats \<Rightarrow> bg list" where
  "bg_cells s = [(word_of_nat i, word_of_nat j, ks_bigrams s ! i ! j). i \<leftarrow> [0..<NUM_KEYS s], j \<leftarrow> [0..<NUM_KEYS s]]"

definition min_index :: "bg list \<Rightarrow> nat" where
  "min_index tops = fold (\<lambda>k mi. if bg_count (tops ! k) < bg_count (tops ! mi) then k else mi) [1..<length tops] 0"

definition TEXT_MAX :: nat where "TEXT_MAX = 20"
definition BG_MAX :: nat where "BG_MAX = 256"

definition text_step :: "bg \<Rightarrow> bg list \<Rightarrow> bg list" where
  "text_step e tops =
     (if bg_count e = 0 then tops
      else if length tops < TEXT_MAX then tops @ [e]
      else let mi = min_index tops in if bg_count e > bg_count (tops ! mi) then tops[mi := e] else tops)"

definition text_top :: "key_stats \<Rightarrow> bg list" where
  "text_top s = fold text_step (bg_cells s) []"

text \<open>The binary list keeps the smallest count it holds beside it.\<close>

definition min_count :: "bg list \<Rightarrow> u16" where
  "min_count tops = fold (\<lambda>k m. if bg_count (tops ! k) < m then bg_count (tops ! k) else m) [1..<length tops] (bg_count (tops ! 0))"

definition bin_step :: "bg \<Rightarrow> bg list \<times> u16 \<Rightarrow> bg list \<times> u16" where
  "bin_step e = (\<lambda>(tops, min_in).
     if bg_count e = 0 then (tops, min_in)
     else if length tops < BG_MAX
     then (tops @ [e], if bg_count e < min_in \<or> min_in = 0 then bg_count e else min_in)
     else if bg_count e > min_in
     then let tops1 = tops[min_index tops := e] in (tops1, min_count tops1)
     else (tops, min_in))"

definition bin_top :: "key_stats \<Rightarrow> bg list" where
  "bin_top s = fst (fold bin_step (bg_cells s) ([], 0))"

text \<open>The insertion sort of both: the entry is moved down past the smaller ones.\<close>

fun shift_from :: "nat \<Rightarrow> bg \<Rightarrow> bg list \<Rightarrow> bg list" where
  "shift_from 0 tmp xs = xs[0 := tmp]"
| "shift_from (Suc j) tmp xs =
     (if bg_count (xs ! j) < bg_count tmp then shift_from j tmp (xs[Suc j := xs ! j]) else xs[Suc j := tmp])"

definition sort_desc :: "bg list \<Rightarrow> bg list" where
  "sort_desc xs = fold (\<lambda>i xs. shift_from i (xs ! i) xs) [1..<length xs] xs"

section \<open>Texts\<close>

definition text_bytes :: "string \<Rightarrow> bytes" where
  "text_bytes t = map of_char t"

fun dec_digits :: "nat \<Rightarrow> bytes" where
  "dec_digits n = (if n < 10 then [] else dec_digits (n div 10)) @ [0x30 + word_of_nat (n mod 10)]"

declare dec_digits.simps [simp del]

definition pad_left :: "nat \<Rightarrow> bytes \<Rightarrow> bytes" where
  "pad_left w bs = replicate (w - length bs) 0x20 @ bs"

definition TEXT_BUF :: nat where "TEXT_BUF = 1024"

text \<open>The terminating zero is written too; a position behind the buffer makes the size left wrap, and
  the piece is written there.\<close>

definition snprintf :: "bytes \<Rightarrow> bytes \<times> nat \<Rightarrow> bytes \<times> nat" where
  "snprintf piece = (\<lambda>(buf, pos).
     (if pos = TEXT_BUF then buf
      else if pos < TEXT_BUF then mem_write pos (take (TEXT_BUF - pos - 1) piece @ [0]) buf
      else mem_write pos (piece @ [0]) buf, pos + length piece))"

definition stats_row :: "key_stats \<Rightarrow> nat \<Rightarrow> bytes \<times> nat \<Rightarrow> bytes \<times> nat" where
  "stats_row s r = (\<lambda>(buf, pos).
     if pos < TEXT_BUF - 128
     then snprintf (text_bytes [CHR 0x0A])
       (fold (\<lambda>c. snprintf (text_bytes '' '' @ pad_left 5 (dec_digits (unat (ks_stats s ! r ! c))))) [0..<ks_cols s]
         (snprintf (text_bytes ''R'' @ dec_digits r @ text_bytes '':'') (buf, pos)))
     else (buf, pos))"

definition keystats_text :: "bytes \<Rightarrow> key_stats \<Rightarrow> bytes \<times> nat" where
  "keystats_text buf s =
     fold (stats_row s) [0..<ks_rows s]
       (snprintf (text_bytes ''Key Statistics - Total: '' @ dec_digits (unat (ks_total s)) @ text_bytes '', Max: '' @
          dec_digits (unat (get_key_stats_max s)) @ text_bytes [CHR 0x0A]) (buf, 0))"

definition bigram_line :: "nat \<Rightarrow> bg \<Rightarrow> bytes" where
  "bigram_line cols e =
     (case e of (prev, cur, cnt) \<Rightarrow>
      text_bytes ''  R'' @ dec_digits (unat prev div cols) @ text_bytes ''C'' @ dec_digits (unat prev mod cols) @
      text_bytes '' -> R'' @ dec_digits (unat cur div cols) @ text_bytes ''C'' @ dec_digits (unat cur mod cols) @
      text_bytes '' : '' @ dec_digits (unat cnt) @ text_bytes [CHR 0x0A])"

definition bigram_row :: "nat \<Rightarrow> bg \<Rightarrow> bytes \<times> nat \<Rightarrow> bytes \<times> nat" where
  "bigram_row cols e = (\<lambda>(buf, pos).
     if pos < TEXT_BUF - 64 then snprintf (bigram_line cols e) (buf, pos) else (buf, pos))"

definition bigrams_text :: "bytes \<Rightarrow> key_stats \<Rightarrow> bytes \<times> nat" where
  "bigrams_text buf s =
     fold (bigram_row (ks_cols s)) (sort_desc (text_top s))
       (snprintf (text_bytes ''Bigram Statistics - Total: '' @ dec_digits (unat (ks_bigram_total s)) @ text_bytes '', Max: '' @
          dec_digits (unat (get_bigram_stats_max s)) @ text_bytes [CHR 0x0A]) (buf, 0))"

section \<open>Sorting\<close>

fun ins_rev :: "bg \<Rightarrow> bg list \<Rightarrow> bg list" where
  "ins_rev tmp [] = [tmp]"
| "ins_rev tmp (x # xs) = (if bg_count x < bg_count tmp then x # ins_rev tmp xs else tmp # x # xs)"

lemma shift_from_ins:
  "j < length xs \<Longrightarrow> shift_from j tmp xs = rev (ins_rev tmp (rev (take j xs))) @ drop (Suc j) xs"
proof (induction j arbitrary: xs)
  case 0
  then show ?case by (cases xs) simp_all
next
  case (Suc j)
  then have "take (Suc j) xs = take j xs @ [xs ! j]" by (simp add: take_Suc_conv_app_nth)
  moreover have "drop (Suc j) (xs[Suc j := y]) = y # drop (Suc (Suc j)) xs" for y
    using Suc.prems by (simp add: Cons_nth_drop_Suc [symmetric])
  moreover have "xs[Suc j := tmp] = take (Suc j) xs @ tmp # drop (Suc (Suc j)) xs"
    using Suc.prems by (simp add: upd_conv_take_nth_drop)
  ultimately show ?case using Suc by simp
qed

lemma ins_rev_sorted:
  "sorted_wrt (\<lambda>x y. bg_count x \<le> bg_count y) xs \<Longrightarrow> sorted_wrt (\<lambda>x y. bg_count x \<le> bg_count y) (ins_rev tmp xs) \<and>
     mset (ins_rev tmp xs) = add_mset tmp (mset xs)"
proof (induction xs)
  case (Cons x xs)
  then have "mset (ins_rev tmp xs) = add_mset tmp (mset xs)" by simp
  then have "set (ins_rev tmp xs) = insert tmp (set xs)"
    by (metis set_mset_mset set_mset_add_mset_insert)
  with Cons show ?case by (auto simp: not_less)
qed simp

lemma sort_desc_prefix:
  assumes "n \<le> length xs"
  shows "let ys = fold (\<lambda>i xs. shift_from i (xs ! i) xs) [1..<n] xs in
    length ys = length xs \<and> mset ys = mset xs \<and> drop n ys = drop n xs \<and>
    sorted_wrt (\<lambda>x y. bg_count x \<ge> bg_count y) (take n ys)"
  using assms
proof (induction n)
  case (Suc n)
  show ?case
  proof (cases n)
    case 0
    then show ?thesis using Suc.prems by (cases xs) simp_all
  next
    case (Suc m)
    define ys where "ys = fold (\<lambda>i xs. shift_from i (xs ! i) xs) [1..<n] xs"
    have IH: "length ys = length xs" "mset ys = mset xs" "drop n ys = drop n xs"
      "sorted_wrt (\<lambda>x y. bg_count x \<ge> bg_count y) (take n ys)"
      using Suc.IH Suc.prems by (simp_all add: ys_def Let_def)
    have n: "n < length ys" using Suc.prems IH(1) by simp
    define zs where "zs = ins_rev (ys ! n) (rev (take n ys))"
    have step: "shift_from n (ys ! n) ys = rev zs @ drop (Suc n) ys"
      unfolding zs_def using n by (rule shift_from_ins)
    have z: "sorted_wrt (\<lambda>x y. bg_count x \<le> bg_count y) zs" "mset zs = add_mset (ys ! n) (mset (take n ys))"
      using ins_rev_sorted [of "rev (take n ys)" "ys ! n"] IH(4) by (simp_all add: zs_def sorted_wrt_rev)
    then have len: "length zs = Suc n" using n mset_eq_length [of zs "ys ! n # take n ys"] by simp
    have split: "ys = take n ys @ ys ! n # drop (Suc n) ys" using n by (simp add: id_take_nth_drop)
    have ms: "mset zs + mset (drop (Suc n) ys) = mset ys"
      unfolding z(2) by (subst (3) split) simp
    have "drop (Suc n) ys = drop (Suc n) xs" using arg_cong [OF IH(3), of "drop 1"] by simp
    then have "fold (\<lambda>i xs. shift_from i (xs ! i) xs) [1..<Suc n] xs = rev zs @ drop (Suc n) xs"
      using Suc step by (simp add: ys_def)
    then show ?thesis using ms z(1) len IH(1,2) Suc.prems
      by (simp add: sorted_wrt_rev \<open>drop (Suc n) ys = drop (Suc n) xs\<close>)
  qed
qed simp

lemma sort_desc_correct:
  "mset (sort_desc xs) = mset xs" "length (sort_desc xs) = length xs"
  "sorted_wrt (\<lambda>x y. bg_count x \<ge> bg_count y) (sort_desc xs)"
proof -
  have p: "length (sort_desc xs) = length xs" "mset (sort_desc xs) = mset xs"
    "sorted_wrt (\<lambda>x y. bg_count x \<ge> bg_count y) (take (length xs) (sort_desc xs))"
    using sort_desc_prefix [of "length xs" xs] unfolding sort_desc_def Let_def by blast+
  then show "mset (sort_desc xs) = mset xs" "length (sort_desc xs) = length xs"
    "sorted_wrt (\<lambda>x y. bg_count x \<ge> bg_count y) (sort_desc xs)" by simp_all
qed

section \<open>Choosing\<close>

text \<open>\<open>sel\<close> holds the \<open>k\<close> entries with the highest counts, all when there are fewer.\<close>

definition top_of :: "nat \<Rightarrow> bg list \<Rightarrow> bg list \<Rightarrow> bool" where
  "top_of k cells sel \<longleftrightarrow> mset sel \<subseteq># mset cells \<and> length sel = min k (length cells) \<and>
     (\<forall>x\<in>#mset cells - mset sel. \<forall>y\<in>set sel. bg_count x \<le> bg_count y)"

lemma top_of_iff:
  "top_of k cells sel \<longleftrightarrow> (\<exists>rest. mset cells = mset sel + rest \<and> length sel = min k (length cells) \<and>
     (\<forall>x\<in>#rest. \<forall>y\<in>set sel. bg_count x \<le> bg_count y))"
proof
  assume "top_of k cells sel"
  then show "\<exists>rest. mset cells = mset sel + rest \<and> length sel = min k (length cells) \<and>
     (\<forall>x\<in>#rest. \<forall>y\<in>set sel. bg_count x \<le> bg_count y)"
    by (intro exI [of _ "mset cells - mset sel"]) (simp add: top_of_def)
qed (auto simp: top_of_def)

lemma top_of_add:
  assumes "top_of k cells sel" "length sel < k"
  shows "top_of k (cells @ [e]) (sel @ [e])"
proof -
  obtain rest where r: "mset cells = mset sel + rest" "length sel = min k (length cells)"
    using assms(1) by (auto simp: top_of_iff)
  have "length cells = length sel + size rest" using arg_cong [OF r(1), of size] by simp
  then have "size rest = 0" using assms(2) r(2) by (simp add: min_def split: if_splits)
  then show ?thesis using r assms(2) by (auto simp: top_of_iff)
qed

lemma top_of_skip:
  assumes "top_of k cells sel" "length sel = k" "\<forall>y\<in>set sel. bg_count e \<le> bg_count y"
  shows "top_of k (cells @ [e]) sel"
proof -
  obtain rest where r: "mset cells = mset sel + rest" "length sel = min k (length cells)"
    "\<forall>x\<in>#rest. \<forall>y\<in>set sel. bg_count x \<le> bg_count y"
    using assms(1) by (auto simp: top_of_iff)
  then show ?thesis using assms(2,3) unfolding top_of_iff by (intro exI [of _ "add_mset e rest"]) auto
qed

lemma top_of_replace:
  assumes "top_of k cells sel" "length sel = k" "i < k" "\<forall>y\<in>set sel. bg_count (sel ! i) \<le> bg_count y"
    and "bg_count (sel ! i) < bg_count e"
  shows "top_of k (cells @ [e]) (sel[i := e])"
proof -
  obtain rest where r: "mset cells = mset sel + rest" "length sel = min k (length cells)"
    "\<forall>x\<in>#rest. \<forall>y\<in>set sel. bg_count x \<le> bg_count y"
    using assms(1) by (auto simp: top_of_iff)
  have i: "sel ! i \<in> set sel" using assms(2,3) by simp
  have "mset (sel[i := e]) = add_mset e (mset sel - {#sel ! i#})" using assms(2,3) by (simp add: mset_update)
  then have ms: "mset (cells @ [e]) = mset (sel[i := e]) + add_mset (sel ! i) rest" using i r(1) by simp
  have ge: "\<forall>y\<in>set (sel[i := e]). bg_count (sel ! i) \<le> bg_count y"
    using assms(4,5) set_update_subset_insert [of sel i e] by force
  have "\<forall>x\<in>#rest. bg_count x \<le> bg_count (sel ! i)" using r(3) i by blast
  with ge have "bg_count x \<le> bg_count y" if "x \<in># add_mset (sel ! i) rest" "y \<in> set (sel[i := e])" for x y
    using that order.trans [of "bg_count x" "bg_count (sel ! i)" "bg_count y"] by auto
  then have "\<forall>x\<in>#add_mset (sel ! i) rest. \<forall>y\<in>set (sel[i := e]). bg_count x \<le> bg_count y" by blast
  then show ?thesis using ms assms(2) r(2) unfolding top_of_iff by (intro exI [of _ "add_mset (sel ! i) rest"]) simp
qed

lemma fold_argmin:
  fixes g :: "nat \<Rightarrow> u16"
  shows "let mi = fold (\<lambda>k mi. if g k < g mi then k else mi) [1..<Suc n] 0 in mi < Suc n \<and> (\<forall>j<Suc n. g mi \<le> g j)"
proof (induction n)
  case (Suc n)
  define mi where "mi = fold (\<lambda>k mi. if g k < g mi then k else mi) [1..<Suc n] 0"
  then have "mi < Suc n" "\<forall>j<Suc n. g mi \<le> g j" using Suc by (simp_all add: Let_def del: upt_Suc)
  then have "\<forall>j<Suc (Suc n). g (if g (Suc n) < g mi then Suc n else mi) \<le> g j"
    unfolding less_Suc_eq [of _ "Suc n"] by (auto simp: not_less intro: order.trans order.strict_implies_order)
  moreover have "fold (\<lambda>k mi. if g k < g mi then k else mi) [1..<Suc (Suc n)] 0 = (if g (Suc n) < g mi then Suc n else mi)"
    by (simp add: mi_def)
  ultimately show ?case using \<open>mi < Suc n\<close> unfolding Let_def by (simp del: upt_Suc)
qed simp

lemma fold_min:
  fixes g :: "nat \<Rightarrow> u16"
  shows "let m = fold (\<lambda>k m. if g k < m then g k else m) [1..<Suc n] (g 0) in m \<in> g ` {..<Suc n} \<and> (\<forall>j<Suc n. m \<le> g j)"
proof (induction n)
  case (Suc n)
  define m where "m = fold (\<lambda>k m. if g k < m then g k else m) [1..<Suc n] (g 0)"
  then have m: "m \<in> g ` {..<Suc n}" "\<forall>j<Suc n. m \<le> g j" using Suc by (simp_all add: Let_def del: upt_Suc)
  then have "\<forall>j<Suc (Suc n). (if g (Suc n) < m then g (Suc n) else m) \<le> g j"
    unfolding less_Suc_eq [of _ "Suc n"] by (auto simp: not_less intro: order.trans order.strict_implies_order)
  moreover have "(if g (Suc n) < m then g (Suc n) else m) \<in> g ` {..<Suc (Suc n)}"
    using m(1) by (auto simp: lessThan_Suc)
  moreover have "fold (\<lambda>k m. if g k < m then g k else m) [1..<Suc (Suc n)] (g 0) = (if g (Suc n) < m then g (Suc n) else m)"
    by (simp add: m_def)
  ultimately show ?case unfolding Let_def by (simp del: upt_Suc)
qed simp

lemma min_index_least:
  assumes "xs \<noteq> []"
  shows "min_index xs < length xs \<and> (\<forall>y\<in>set xs. bg_count (xs ! min_index xs) \<le> bg_count y)"
  using fold_argmin [of "\<lambda>j. bg_count (xs ! j)" "length xs - 1"] assms
  by (simp add: min_index_def Let_def all_set_conv_all_nth del: upt_Suc)

lemma min_count_least:
  assumes "xs \<noteq> []"
  shows "min_count xs \<in> bg_count ` set xs \<and> (\<forall>y\<in>set xs. min_count xs \<le> bg_count y)"
proof -
  have "bg_count ` set xs = (\<lambda>j. bg_count (xs ! j)) ` {..<length xs}" by (auto simp: set_conv_nth)
  then show ?thesis using fold_min [of "\<lambda>j. bg_count (xs ! j)" "length xs - 1"] assms
    by (simp add: min_count_def Let_def all_set_conv_all_nth del: upt_Suc)
qed

lemma text_step_top:
  assumes "top_of TEXT_MAX cells t" "bg_count e \<noteq> 0"
  shows "top_of TEXT_MAX (cells @ [e]) (text_step e t)"
proof (cases "length t < TEXT_MAX")
  case True
  then show ?thesis using assms by (simp add: text_step_def top_of_add)
next
  case False
  then have full: "length t = TEXT_MAX" "t \<noteq> []" using assms(1) by (auto simp: top_of_def TEXT_MAX_def)
  note m = min_index_least [OF full(2)]
  show ?thesis
  proof (cases "bg_count e > bg_count (t ! min_index t)")
    case True
    then have "top_of TEXT_MAX (cells @ [e]) (t[min_index t := e])"
      using assms(1) full m by (intro top_of_replace) auto
    then show ?thesis using True assms(2) full by (simp add: text_step_def Let_def)
  next
    case le: False
    then have "\<forall>y\<in>set t. bg_count e \<le> bg_count y" using m by (meson not_less order.trans)
    then show ?thesis using top_of_skip [OF assms(1) full(1)] le assms(2) full
      by (simp add: text_step_def Let_def)
  qed
qed

lemma text_top_of: "top_of TEXT_MAX (filter (\<lambda>e. bg_count e \<noteq> 0) cells) (fold text_step cells [])"
proof (induction cells rule: rev_induct)
  case (snoc e cells)
  have "text_step e t = t" if "bg_count e = 0" for t using that by (simp add: text_step_def)
  then show ?case using snoc by (cases "bg_count e = 0") (simp_all add: text_step_top)
qed (simp add: top_of_def)

definition min_kept :: "bg list \<Rightarrow> u16 \<Rightarrow> bool" where
  "min_kept tops m \<longleftrightarrow> (if tops = [] then m = 0 else m \<in> bg_count ` set tops \<and> (\<forall>y\<in>set tops. m \<le> bg_count y))"

lemma bin_step_pair:
  "bin_step e (t, m) =
     (if bg_count e = 0 then (t, m)
      else if length t < BG_MAX then (t @ [e], if bg_count e < m \<or> m = 0 then bg_count e else m)
      else if bg_count e > m then (t[min_index t := e], min_count (t[min_index t := e])) else (t, m))"
  by (simp add: bin_step_def Let_def)

lemma bin_top_of:
  "let (tops, m) = fold bin_step cells ([], 0)
   in top_of BG_MAX (filter (\<lambda>e. bg_count e \<noteq> 0) cells) tops \<and> min_kept tops m"
proof (induction cells rule: rev_induct)
  case (snoc e cells)
  obtain t m where tm: "fold bin_step cells ([], 0) = (t, m)" by fastforce
  have top: "top_of BG_MAX (filter (\<lambda>e. bg_count e \<noteq> 0) cells) t" and min: "min_kept t m"
    using snoc tm by simp_all
  have nz: "\<forall>y\<in>set t. bg_count y \<noteq> 0"
    using top set_mset_mono [of "mset t"] by (fastforce simp: top_of_def)
  consider "bg_count e = 0" | "bg_count e \<noteq> 0" "length t < BG_MAX" | "bg_count e \<noteq> 0" "length t = BG_MAX"
    using top by (fastforce simp: top_of_def)
  then show ?case
  proof cases
    case 1
    then show ?thesis using top min tm by (simp add: bin_step_pair)
  next
    case 2
    have "min_kept (t @ [e]) (if bg_count e < m \<or> m = 0 then bg_count e else m)"
      using min nz by (auto simp: min_kept_def split: if_splits)
    then show ?thesis using top_of_add [OF top 2(2)] 2 tm by (simp add: bin_step_pair)
  next
    case 3
    then have ne: "t \<noteq> []" by (auto simp: BG_MAX_def)
    note i = min_index_least [OF ne]
    have m: "m = bg_count (t ! min_index t)" using min ne i by (auto simp: min_kept_def intro!: order.antisym)
    show ?thesis
    proof (cases "bg_count e > m")
      case True
      have "top_of BG_MAX (filter (\<lambda>e. bg_count e \<noteq> 0) cells @ [e]) (t[min_index t := e])"
        using top 3(2) i True m by (intro top_of_replace) auto
      moreover have "min_kept (t[min_index t := e]) (min_count (t[min_index t := e]))"
        using min_count_least [of "t[min_index t := e]"] ne by (simp add: min_kept_def)
      ultimately show ?thesis using True 3 tm by (simp add: bin_step_pair Let_def)
    next
      case False
      then have "\<forall>y\<in>set t. bg_count e \<le> bg_count y" using i m by (meson not_less order.trans)
      then show ?thesis using top_of_skip [OF top 3(2)] False 3 tm min by (simp add: bin_step_pair)
    qed
  qed
qed (simp add: top_of_def min_kept_def)

definition pressed_cells :: "key_stats \<Rightarrow> bg list" where
  "pressed_cells s = filter (\<lambda>e. bg_count e \<noteq> 0) (bg_cells s)"

text \<open>
  C32: What the two bigram commands report. The binary command reports the 256 pairs of keys with the
  highest counts, the text the 20 highest, each in descending order: no pair that is left out occurred
  more often than one that is reported, and none is left out while there is room. The minimum kept
  beside the binary list never hides a pair.
\<close>

theorem bigrams_report_most_frequent:
  "top_of BG_MAX (pressed_cells s) (sort_desc (bin_top s)) \<and>
   top_of TEXT_MAX (pressed_cells s) (sort_desc (text_top s)) \<and>
   sorted_wrt (\<lambda>x y. bg_count x \<ge> bg_count y) (sort_desc (bin_top s)) \<and>
   sorted_wrt (\<lambda>x y. bg_count x \<ge> bg_count y) (sort_desc (text_top s))"
proof -
  have perm: "top_of k cells (sort_desc sel)" if "top_of k cells sel" for k cells sel
    using that mset_eq_setD [OF sort_desc_correct(1) [of sel]]
    by (simp add: top_of_def sort_desc_correct)
  have "top_of BG_MAX (pressed_cells s) (bin_top s)"
    using bin_top_of [of "bg_cells s"] by (auto simp: pressed_cells_def bin_top_def split: prod.splits)
  moreover have "top_of TEXT_MAX (pressed_cells s) (text_top s)"
    unfolding pressed_cells_def text_top_def by (rule text_top_of)
  ultimately show ?thesis using perm sort_desc_correct(3) by blast
qed

section \<open>The texts fit\<close>

lemma length_dec: "0 < k \<Longrightarrow> n < 10 ^ k \<Longrightarrow> length (dec_digits n) \<le> k"
proof (induction k arbitrary: n)
  case (Suc k)
  show ?case
  proof (cases "n < 10")
    case True
    then show ?thesis by (simp add: dec_digits.simps [of n])
  next
    case False
    then have "0 < k" using Suc.prems(2) by (cases k) auto
    then show ?thesis using Suc.IH [of "n div 10"] Suc.prems(2) False
      by (simp add: dec_digits.simps [of n] less_mult_imp_div_less mult.commute)
  qed
qed simp

lemma length_dec_u32: "length (dec_digits (unat (w :: u32))) \<le> 10"
  using unsigned_less [where 'a = nat, of w] by (intro length_dec) simp_all

lemma length_dec_u16: "length (dec_digits (unat (w :: u16))) \<le> 5"
  using unsigned_less [where 'a = nat, of w] by (intro length_dec) simp_all

lemma length_dec_u8: "n \<le> unat (b :: u8) \<Longrightarrow> length (dec_digits n) \<le> 3"
  using unsigned_less [where 'a = nat, of b] by (intro length_dec) simp_all

lemma length_pad [simp]: "length (pad_left w bs) = max w (length bs)"
  by (simp add: pad_left_def)

lemma length_text [simp]: "length (text_bytes t) = length t"
  by (simp add: text_bytes_def)

text \<open>The text so far is in the buffer, whole.\<close>

definition printed :: "bytes \<Rightarrow> bytes \<times> nat \<Rightarrow> bool" where
  "printed t bp \<longleftrightarrow> length (fst bp) = TEXT_BUF \<and> snd bp = length t \<and> length t < TEXT_BUF \<and> take (length t) (fst bp) = t"

lemma printed_more:
  assumes "printed t bp" "length t + length piece < TEXT_BUF"
  shows "printed (t @ piece) (snprintf piece bp)"
proof -
  obtain buf where bp: "bp = (buf, length t)" "length buf = TEXT_BUF" "take (length t) buf = t"
    using assms(1) by (cases bp) (simp add: printed_def)
  then show ?thesis using assms(2) by (simp add: printed_def snprintf_def mem_write_def)
qed

lemma printed_fold:
  "printed t bp \<Longrightarrow> length t + length (concat (map f xs)) < TEXT_BUF \<Longrightarrow>
     printed (t @ concat (map f xs)) (fold (\<lambda>x. snprintf (f x)) xs bp)"
proof (induction xs arbitrary: t bp)
  case (Cons x xs)
  then show ?case using printed_more [of t bp "f x"] Cons.IH [of "t @ f x" "snprintf (f x) bp"] by simp
qed simp

lemma concat_bound: "\<forall>x\<in>set xs. length (f x) \<le> n \<Longrightarrow> length (concat (map f xs)) \<le> length xs * n"
  by (induction xs) auto

definition row_text :: "key_stats \<Rightarrow> nat \<Rightarrow> bytes" where
  "row_text s r = text_bytes ''R'' @ dec_digits r @ text_bytes '':'' @
     concat (map (\<lambda>c. text_bytes '' '' @ pad_left 5 (dec_digits (unat (ks_stats s ! r ! c)))) [0..<ks_cols s]) @
     text_bytes [CHR 0x0A]"

definition stats_head :: "key_stats \<Rightarrow> bytes" where
  "stats_head s = text_bytes ''Key Statistics - Total: '' @ dec_digits (unat (ks_total s)) @ text_bytes '', Max: '' @
     dec_digits (unat (get_key_stats_max s)) @ text_bytes [CHR 0x0A]"

definition bigrams_head :: "key_stats \<Rightarrow> bytes" where
  "bigrams_head s = text_bytes ''Bigram Statistics - Total: '' @ dec_digits (unat (ks_bigram_total s)) @
     text_bytes '', Max: '' @ dec_digits (unat (get_bigram_stats_max s)) @ text_bytes [CHR 0x0A]"

lemma row_length:
  assumes "r < 10" "ks_cols s \<le> 14"
  shows "length (row_text s r) \<le> 158"
proof -
  have "length (dec_digits r) \<le> 1" using assms(1) by (intro length_dec) simp_all
  moreover have "length (concat (map (\<lambda>c. text_bytes '' '' @ pad_left 5 (dec_digits (unat (ks_stats s ! r ! c)))) [0..<ks_cols s])) \<le>
      length [0..<ks_cols s] * 11"
    by (rule concat_bound) (simp add: length_dec_u32)
  ultimately show ?thesis using assms(2) by (simp add: row_text_def)
qed

lemma printed_row:
  assumes "printed t bp" "r < 10" "ks_cols s \<le> 14" "length t + length (row_text s r) < TEXT_BUF" "length t < TEXT_BUF - 128"
  shows "printed (t @ row_text s r) (stats_row s r bp)"
proof -
  let ?lead = "text_bytes ''R'' @ dec_digits r @ text_bytes '':''"
  let ?cell = "\<lambda>c. text_bytes '' '' @ pad_left 5 (dec_digits (unat (ks_stats s ! r ! c)))"
  let ?n = "length t + length ?lead"
  have row: "row_text s r = ?lead @ concat (map ?cell [0..<ks_cols s]) @ text_bytes [CHR 0x0A]"
    by (simp add: row_text_def)
  then have fits: "?n + length (concat (map ?cell [0..<ks_cols s])) + 1 < TEXT_BUF"
    using assms(4) by (simp del: map_append)
  have 1: "printed (t @ ?lead) (snprintf ?lead bp)" using assms(1) fits by (intro printed_more) simp_all
  have 2: "printed ((t @ ?lead) @ concat (map ?cell [0..<ks_cols s])) (fold (\<lambda>c. snprintf (?cell c)) [0..<ks_cols s] (snprintf ?lead bp))"
    using 1 fits by (intro printed_fold) simp_all
  have 3: "printed (((t @ ?lead) @ concat (map ?cell [0..<ks_cols s])) @ text_bytes [CHR 0x0A])
      (snprintf (text_bytes [CHR 0x0A]) (fold (\<lambda>c. snprintf (?cell c)) [0..<ks_cols s] (snprintf ?lead bp)))"
    using 2 fits by (intro printed_more) simp_all
  have "snd bp < TEXT_BUF - 128" using assms(1,5) by (simp add: printed_def)
  then have "stats_row s r bp = snprintf (text_bytes [CHR 0x0A]) (fold (\<lambda>c. snprintf (?cell c)) [0..<ks_cols s] (snprintf ?lead bp))"
    by (cases bp) (simp add: stats_row_def)
  then show ?thesis using 3 by (simp add: row_text_def)
qed

lemma printed_rows:
  assumes "printed t bp" "length t \<le> 52" "ks_cols s \<le> 14"
  shows "n \<le> 5 \<Longrightarrow> printed (t @ concat (map (row_text s) [0..<n])) (fold (stats_row s) [0..<n] bp)"
proof (induction n)
  case (Suc n)
  have "length (concat (map (row_text s) [0..<n])) \<le> length [0..<n] * 158"
    using Suc.prems by (intro concat_bound) (auto intro: row_length [OF _ assms(3)])
  then have len: "length (t @ concat (map (row_text s) [0..<n])) \<le> 684" using assms(2) Suc.prems by simp
  have "length (row_text s n) \<le> 158" using Suc.prems by (intro row_length assms) simp
  then show ?case
    using printed_row [of "t @ concat (map (row_text s) [0..<n])" "fold (stats_row s) [0..<n] bp" n s] Suc len assms(3)
    by (simp add: TEXT_BUF_def)
qed (use assms in simp)

lemma bigram_line_length: "length (bigram_line cols e) \<le> 31"
proof -
  obtain p c n where e: "e = (p, c, n)" by (cases e)
  have "length (dec_digits (unat b div cols)) \<le> 3" "length (dec_digits (unat b mod cols)) \<le> 3" for b :: u8
    using length_dec_u8 [of "unat b div cols" b] length_dec_u8 [of "unat b mod cols" b] by simp_all
  from this [of p] this [of c] length_dec_u16 [of n] show ?thesis by (simp add: bigram_line_def e)
qed

lemma printed_lines:
  assumes "printed t bp" "length t \<le> 50"
  shows "n \<le> 20 \<Longrightarrow> n \<le> length es \<Longrightarrow>
    printed (t @ concat (map (bigram_line cols) (take n es))) (fold (bigram_row cols) (take n es) bp)"
proof (induction n)
  case (Suc n)
  let ?t = "t @ concat (map (bigram_line cols) (take n es))"
  have step: "take (Suc n) es = take n es @ [es ! n]" using Suc.prems by (simp add: take_Suc_conv_app_nth)
  have "length (concat (map (bigram_line cols) (take n es))) \<le> length (take n es) * 31"
    by (intro concat_bound) (simp add: bigram_line_length)
  then have len: "length ?t \<le> 639" using assms(2) Suc.prems by simp
  have p: "printed ?t (fold (bigram_row cols) (take n es) bp)" using Suc by simp
  then have "bigram_row cols (es ! n) (fold (bigram_row cols) (take n es) bp) =
      snprintf (bigram_line cols (es ! n)) (fold (bigram_row cols) (take n es) bp)"
    using len by (cases "fold (bigram_row cols) (take n es) bp") (simp add: bigram_row_def printed_def TEXT_BUF_def)
  then show ?case using printed_more [OF p, of "bigram_line cols (es ! n)"] len bigram_line_length [of cols "es ! n"]
    by (simp add: step TEXT_BUF_def)
qed (use assms in simp)

text \<open>
  The two statistics texts stay inside their buffer of 1024 bytes, for any counts, on a matrix of up to
  5 rows and 14 columns, which is every board of the repository: no piece is cut off, the position never
  passes the end, where the size left would wrap, and what is sent is the text and no byte of the
  uninitialised rest.
\<close>

theorem statistics_texts_fit:
  assumes "ks_rows s \<le> 5" "ks_cols s \<le> 14" "length buf = TEXT_BUF"
  shows "printed (stats_head s @ concat (map (row_text s) [0..<ks_rows s])) (keystats_text buf s) \<and>
    printed (bigrams_head s @ concat (map (bigram_line (ks_cols s)) (sort_desc (text_top s)))) (bigrams_text buf s)"
proof
  have start: "printed [] (buf, 0)" using assms(3) by (simp add: printed_def TEXT_BUF_def)
  have h: "length (stats_head s) \<le> 52" "length (bigrams_head s) \<le> 50"
    using length_dec_u32 [of "ks_total s"] length_dec_u32 [of "get_key_stats_max s"] length_dec_u32 [of "ks_bigram_total s"]
      length_dec_u16 [of "get_bigram_stats_max s"] by (simp_all add: stats_head_def bigrams_head_def)
  have 1: "printed (stats_head s) (snprintf (stats_head s) (buf, 0))" "printed (bigrams_head s) (snprintf (bigrams_head s) (buf, 0))"
    using printed_more [OF start] h by (simp_all add: TEXT_BUF_def)
  show "printed (stats_head s @ concat (map (row_text s) [0..<ks_rows s])) (keystats_text buf s)"
    using printed_rows [OF 1(1) h(1) assms(2,1)] by (simp add: keystats_text_def stats_head_def)
  have "length (sort_desc (text_top s)) \<le> 20"
    using text_top_of [of "bg_cells s"] by (simp add: sort_desc_correct text_top_def top_of_def TEXT_MAX_def)
  then show "printed (bigrams_head s @ concat (map (bigram_line (ks_cols s)) (sort_desc (text_top s)))) (bigrams_text buf s)"
    using printed_lines [OF 1(2) h(2), of "length (sort_desc (text_top s))" "sort_desc (text_top s)" "ks_cols s"]
    by (simp add: bigrams_text_def bigrams_head_def)
qed

lemma statistics_texts_fit_witness:
  "snd (keystats_text (replicate TEXT_BUF 7) (key_stats_boot 5 14 None None)) < TEXT_BUF"
  using statistics_texts_fit [of "key_stats_boot 5 14 None None" "replicate TEXT_BUF 7"]
  by (simp add: printed_def key_stats_boot_def)


end
