(* ===== verification/Cdc_Reply.thy ===== *)
theory Cdc_Reply
  imports Cdc_Protocol
begin

unbundle bit_operations_syntax

text \<open>
  What a command handler of \<open>main/comm/cdc\<close> answers: one call of \<open>ks_respond\<close>, or a stream between
  \<open>ks_respond_begin\<close>, which announces a length, and \<open>ks_respond_end\<close>. A handler here returns its answer
  as a value, and \<open>send_reply\<close> makes the calls.
\<close>

datatype reply = Respond ks_status bytes | Stream u16 "bytes list"

abbreviation Ok :: reply where "Ok \<equiv> Respond KS_STATUS_OK []"

abbreviation Err :: "ks_status \<Rightarrow> reply" where "Err st \<equiv> Respond st []"

fun send_reply :: "u8 \<Rightarrow> reply \<Rightarrow> 'h ks_cdc \<Rightarrow> 'h ks_cdc" where
  "send_reply cmd (Respond st payload) s = ks_respond cmd st payload s"
| "send_reply cmd (Stream len parts) s =
     ks_respond_end (fold ks_respond_write parts (ks_respond_begin cmd KS_STATUS_OK len s))"

fun reply_status :: "reply \<Rightarrow> ks_status" where
  "reply_status (Respond st payload) = st"
| "reply_status (Stream len parts) = KS_STATUS_OK"

fun reply_payload :: "reply \<Rightarrow> bytes" where
  "reply_payload (Respond st payload) = payload"
| "reply_payload (Stream len parts) = concat parts"

text \<open>The announced length is that of what follows.\<close>

fun reply_true :: "reply \<Rightarrow> bool" where
  "reply_true (Respond st payload) = True"
| "reply_true (Stream len parts) = (len = word_of_nat (length (concat parts)))"

definition u32_le :: "u32 \<Rightarrow> bytes" where
  "u32_le w = [ucast w, ucast (drop_bit 8 w), ucast (drop_bit 16 w), ucast (drop_bit 24 w)]"

definition le_u32 :: "u8 \<Rightarrow> u8 \<Rightarrow> u8 \<Rightarrow> u8 \<Rightarrow> u32" where
  "le_u32 a b c d = ucast a OR push_bit 8 (ucast b) OR push_bit 16 (ucast c) OR push_bit 24 (ucast d)"

lemma length_u32_le [simp]: "length (u32_le w) = 4"
  by (simp add: u32_le_def)

lemma true_reply_frame:
  assumes "sink_ok s" "\<not> resp_redirect s" "reply_true r"
  shows "usb_out (send_reply cmd r s) = usb_out s @ kr_frame cmd (reply_status r) (reply_payload r)"
proof (cases r)
  case (Respond st payload)
  then show ?thesis using assms(1,2) by (simp add: ks_respond_emits ks_emit_def usb_write_def)
next
  case (Stream len parts)
  then have "send_reply cmd r s = (ks_respond cmd KS_STATUS_OK (concat parts) s)\<lparr>stream_crc := ks_crc8 (concat parts)\<rparr>"
    using assms(3) by (simp add: ks_stream_equals_respond [where status = KS_STATUS_OK and parts = parts, OF assms(1)])
  then show ?thesis using Stream assms(1,2) by (simp add: ks_respond_emits ks_emit_def usb_write_def)
qed

lemma send_reply_keeps [simp]:
  "bin_tables (send_reply cmd r s) = bin_tables s" "resp_redirect (send_reply cmd r s) = resp_redirect s"
proof -
  have e: "resp_redirect (ks_emit d s) = resp_redirect s" for d and s :: "'h ks_cdc"
    by (simp add: ks_emit_def usb_write_def resp_redirect_append_def Let_def)
  have w: "bin_tables (fold ks_respond_write parts s) = bin_tables s \<and>
      resp_redirect (fold ks_respond_write parts s) = resp_redirect s" for parts and s :: "'h ks_cdc"
    by (induction parts arbitrary: s) (simp_all add: ks_respond_write_def e)
  show "bin_tables (send_reply cmd r s) = bin_tables s" "resp_redirect (send_reply cmd r s) = resp_redirect s"
    by (cases r; simp add: ks_respond_end_def ks_respond_begin_def ks_respond_def Let_def e w)+
qed

end
