(* ===== verification/Ota.thy ===== *)
theory Ota
  imports Cdc_Reply
begin

unbundle bit_operations_syntax

text \<open>
  \<open>main/comm/cdc/cdc_ota.c\<close> and its three commands in \<open>cdc_binary_cmds.c\<close>: a firmware image sent in
  chunks. The OTA library of ESP-IDF is outside: what its calls answer is an argument, \<open>ota_written\<close> is
  what it was given to write since the handle was opened, and \<open>ota_boot\<close> what was selected for the next
  start. As documented, a call on a handle that is not open fails, and ending a handle closes it.
\<close>

datatype ota_state = OTA_IDLE | OTA_RECEIVING

definition OTA_CHUNK_SIZE :: u16 where "OTA_CHUNK_SIZE = 4096"

record ota =
  ota_state :: ota_state
  ota_handle :: bool
  ota_total_size :: u32
  ota_received :: u32
  ota_written :: bytes
  ota_boot :: "bytes option"
  ota_restarts :: nat

definition ota_init :: ota where
  "ota_init = \<lparr>ota_state = OTA_IDLE, ota_handle = False, ota_total_size = 0, ota_received = 0,
     ota_written = [], ota_boot = None, ota_restarts = 0\<rparr>"

text \<open>Whether there is a partition for the update, and whether the calls succeed.\<close>

record ota_env =
  oe_partition :: bool
  oe_begin :: bool
  oe_write :: bool
  oe_end :: bool
  oe_boot :: bool

definition ota_bin_begin :: "ota_env \<Rightarrow> u32 \<Rightarrow> ota \<Rightarrow> ota \<times> bool" where
  "ota_bin_begin e image_size s =
     (if \<not> oe_partition e then (s, False)
      else
        let s = s\<lparr>ota_handle := False\<rparr> in
        if \<not> oe_begin e then (s, False)
        else (s\<lparr>ota_handle := True, ota_written := [], ota_total_size := image_size, ota_received := 0,
                ota_state := OTA_RECEIVING\<rparr>, True))"

definition ota_bin_write :: "ota_env \<Rightarrow> bytes \<Rightarrow> ota \<Rightarrow> ota \<times> bool" where
  "ota_bin_write e data s =
     (if ota_received s + word_of_nat (length data) > ota_total_size s then (s, False)
      else if ota_handle s \<and> oe_write e
      then (s\<lparr>ota_written := ota_written s @ data, ota_received := ota_received s + word_of_nat (length data)\<rparr>, True)
      else (s, False))"

definition ota_bin_finish :: "ota_env \<Rightarrow> ota \<Rightarrow> ota \<times> bool" where
  "ota_bin_finish e s =
     (let ended = ota_handle s \<and> oe_end e; s = s\<lparr>ota_handle := False\<rparr> in
      if \<not> ended then (s\<lparr>ota_state := OTA_IDLE\<rparr>, False)
      else (s\<lparr>ota_boot := (if oe_boot e then Some (ota_written s) else ota_boot s), ota_state := OTA_IDLE\<rparr>, oe_boot e))"

definition ota_bin_abort :: "ota \<Rightarrow> ota" where
  "ota_bin_abort s = s\<lparr>ota_handle := False, ota_state := OTA_IDLE\<rparr>"

section \<open>The commands\<close>

definition bin_cmd_ota_start :: "ota_env \<Rightarrow> bytes \<Rightarrow> ota \<Rightarrow> ota \<times> reply" where
  "bin_cmd_ota_start e p s =
     (if length p < 4 then (s, Err KS_STATUS_ERR_INVALID)
      else
        let image_size = le_u32 (p ! 0) (p ! 1) (p ! 2) (p ! 3) in
        if image_size = 0 \<or> image_size > 0x200000 then (s, Err KS_STATUS_ERR_RANGE)
        else case ota_bin_begin e image_size s of
          (s1, False) \<Rightarrow> (s1, Err KS_STATUS_ERR_BUSY)
        | (s1, True) \<Rightarrow> (s1, Respond KS_STATUS_OK [lo8 OTA_CHUNK_SIZE, hi8 OTA_CHUNK_SIZE]))"

definition progress :: "ota \<Rightarrow> reply" where
  "progress s = Respond KS_STATUS_OK (u32_le (ota_received s) @ u32_le (ota_total_size s))"

definition bin_cmd_ota_data :: "ota_env \<Rightarrow> bytes \<Rightarrow> ota \<Rightarrow> ota \<times> reply" where
  "bin_cmd_ota_data e p s =
     (if ota_state s \<noteq> OTA_RECEIVING then (s, Err KS_STATUS_ERR_INVALID)
      else case ota_bin_write e p s of
        (s1, False) \<Rightarrow> (ota_bin_abort s1, Err KS_STATUS_ERR_BUSY)
      | (s1, True) \<Rightarrow>
          if ota_received s1 \<ge> ota_total_size s1
          then (case ota_bin_finish e s1 of
                  (s2, False) \<Rightarrow> (ota_bin_abort s2, Err KS_STATUS_ERR_BUSY)
                | (s2, True) \<Rightarrow> (s2\<lparr>ota_restarts := ota_restarts s2 + 1\<rparr>, progress s2))
          else (s1, progress s1))"

definition bin_cmd_ota_abort :: "ota \<Rightarrow> ota \<times> reply" where
  "bin_cmd_ota_abort s =
     (if ota_state s = OTA_RECEIVING then (ota_bin_abort s, Ok) else (s, Err KS_STATUS_ERR_INVALID))"

section \<open>Only a whole image is started\<close>

datatype ota_cmd = Start ota_env bytes | Data ota_env bytes | Abort

fun ota_step :: "ota_cmd \<Rightarrow> ota \<Rightarrow> ota \<times> reply" where
  "ota_step (Start e p) s = bin_cmd_ota_start e p s"
| "ota_step (Data e p) s = bin_cmd_ota_data e p s"
| "ota_step Abort s = bin_cmd_ota_abort s"

definition ota_run :: "ota_cmd list \<Rightarrow> ota \<Rightarrow> ota" where
  "ota_run cs s = fold (\<lambda>c s. fst (ota_step c s)) cs s"

fun announced :: "ota_cmd \<Rightarrow> nat" where
  "announced (Start e p) = unat (le_u32 (p ! 0) (p ! 1) (p ! 2) (p ! 3))"
| "announced _ = 0"

fun chunk :: "ota_cmd \<Rightarrow> bytes" where
  "chunk (Data e p) = p"
| "chunk _ = []"

fun ota_cmd_ok :: "ota_cmd \<Rightarrow> bool" where
  "ota_cmd_ok (Data e p) = (length p \<le> KS_PAYLOAD_MAX)"
| "ota_cmd_ok _ = True"

text \<open>The commands end with an accepted start and, since, the chunks of \<open>img\<close>.\<close>

definition sent_since_start :: "ota_cmd list \<Rightarrow> bytes \<Rightarrow> nat \<Rightarrow> bool" where
  "sent_since_start cs img n \<longleftrightarrow> (\<exists>pre e p ds. cs = pre @ Start e p # ds \<and>
     reply_status (snd (ota_step (Start e p) (ota_run pre ota_init))) = KS_STATUS_OK \<and>
     n = announced (Start e p) \<and> img = concat (map chunk ds))"

lemma sent_snoc: "sent_since_start cs img n \<Longrightarrow> sent_since_start (cs @ [c]) (img @ chunk c) n"
  unfolding sent_since_start_def by (metis (no_types, lifting) append.assoc append_Cons concat.simps concat_append
      list.simps(8,9) map_append append_Nil2)

definition ota_inv :: "ota_cmd list \<Rightarrow> ota \<Rightarrow> bool" where
  "ota_inv cs s \<longleftrightarrow> (ota_handle s \<longrightarrow> ota_state s = OTA_RECEIVING \<and> ota_total_size s \<le> 0x200000 \<and>
     ota_received s = word_of_nat (length (ota_written s)) \<and> length (ota_written s) < unat (ota_total_size s) \<and>
     sent_since_start cs (ota_written s) (unat (ota_total_size s)))"

lemma run_snoc [simp]: "ota_run (cs @ [c]) s = fst (ota_step c (ota_run cs s))"
  by (simp add: ota_run_def)

lemma received_add:
  assumes "ota_total_size s \<le> 0x200000" "ota_received s = word_of_nat (length (ota_written s))"
    and "length (ota_written s) < unat (ota_total_size s)" "length p \<le> KS_PAYLOAD_MAX"
  shows "unat (ota_received s + word_of_nat (length p)) = length (ota_written s) + length p"
proof -
  have "unat (ota_total_size s) \<le> 0x200000" using assms(1) by (simp add: word_le_nat_alt)
  then have "length (ota_written s) + length p < 2 ^ 32" using assms(3,4) by (simp add: KS_PAYLOAD_MAX_def)
  then show ?thesis using assms(2) by (simp add: unat_of_nat flip: of_nat_add)
qed

lemma start_inv:
  assumes "ota_inv cs s" "s = ota_run cs ota_init"
  shows "ota_inv (cs @ [Start e p]) (fst (bin_cmd_ota_start e p s)) \<and>
    ota_boot (fst (bin_cmd_ota_start e p s)) = ota_boot s \<and> ota_restarts (fst (bin_cmd_ota_start e p s)) = ota_restarts s"
proof -
  let ?n = "le_u32 (p ! 0) (p ! 1) (p ! 2) (p ! 3)"
  show ?thesis
  proof (cases "4 \<le> length p \<and> ?n \<noteq> 0 \<and> ?n \<le> 0x200000 \<and> oe_partition e")
    case True
    then have "sent_since_start (cs @ [Start e p]) [] (unat ?n)" if "oe_begin e"
      unfolding sent_since_start_def using that assms(2)
      by (intro exI [of _ cs] exI [of _ e] exI [of _ p] exI [of _ "[]"])
        (simp add: bin_cmd_ota_start_def ota_bin_begin_def Let_def not_less)
    then show ?thesis using True
      by (auto simp: bin_cmd_ota_start_def ota_bin_begin_def ota_inv_def Let_def not_less unat_gt_0)
  next
    case False
    then have "fst (bin_cmd_ota_start e p s) = s"
      by (auto simp: bin_cmd_ota_start_def ota_bin_begin_def Let_def not_less)
    then show ?thesis using assms(1) sent_snoc [of cs _ _ "Start e p"] by (auto simp: ota_inv_def)
  qed
qed

lemma data_inv:
  assumes "ota_inv cs s" "length p \<le> KS_PAYLOAD_MAX"
  shows "ota_inv (cs @ [Data e p]) (fst (bin_cmd_ota_data e p s)) \<and>
    (ota_boot (fst (bin_cmd_ota_data e p s)) \<noteq> ota_boot s \<or> ota_restarts (fst (bin_cmd_ota_data e p s)) \<noteq> ota_restarts s \<longrightarrow>
     (\<exists>img. ota_boot (fst (bin_cmd_ota_data e p s)) = Some img \<and> sent_since_start (cs @ [Data e p]) img (length img)))"
proof (cases "ota_state s = OTA_RECEIVING \<and> ota_handle s \<and> oe_write e \<and>
    ota_received s + word_of_nat (length p) \<le> ota_total_size s")
  case True
  note inv = assms(1) [unfolded ota_inv_def, rule_format, OF conjunct1 [OF conjunct2 [OF True]]]
  have new: "unat (ota_received s + word_of_nat (length p)) = length (ota_written s @ p)"
    using received_add [of s, OF _ _ _ assms(2)] inv by (simp only: length_append simp_thms)
  have sent: "sent_since_start (cs @ [Data e p]) (ota_written s @ p) (unat (ota_total_size s))"
    using sent_snoc [of cs "ota_written s" _ "Data e p"] inv by simp
  have word: "ota_received s + word_of_nat (length p) = word_of_nat (length (ota_written s @ p))"
    using new [symmetric] by (simp only: of_nat_unat ucast_id)
  show ?thesis
  proof (cases "ota_total_size s \<le> ota_received s + word_of_nat (length p)")
    case all: True
    then have "ota_total_size s = ota_received s + word_of_nat (length p)" using True by simp
    then have "unat (ota_total_size s) = length (ota_written s @ p)" using new by simp
    then show ?thesis using True all sent
      by (auto simp: bin_cmd_ota_data_def ota_bin_write_def ota_bin_finish_def ota_bin_abort_def ota_inv_def Let_def)
  next
    case False
    then have "length (ota_written s @ p) < unat (ota_total_size s)" using new by (simp add: word_le_nat_alt)
    then show ?thesis using True False sent inv word
      by (auto simp: bin_cmd_ota_data_def ota_bin_write_def ota_inv_def Let_def)
  qed
next
  case False
  then have "(fst (bin_cmd_ota_data e p s) = s \<and> ota_state s \<noteq> OTA_RECEIVING) \<or> fst (bin_cmd_ota_data e p s) = ota_bin_abort s"
    by (auto simp: bin_cmd_ota_data_def ota_bin_write_def Let_def not_less)
  then show ?thesis using assms(1) by (auto simp: ota_inv_def ota_bin_abort_def)
qed

lemma ota_invariant:
  assumes "list_all ota_cmd_ok cs"
  shows "ota_inv cs (ota_run cs ota_init)"
  using assms
proof (induction cs rule: rev_induct)
  case Nil
  then show ?case by (simp add: ota_run_def ota_inv_def ota_init_def)
next
  case (snoc c cs)
  then have inv: "ota_inv cs (ota_run cs ota_init)" by simp
  show ?case
  proof (cases c)
    case (Start e p)
    then show ?thesis using start_inv [OF inv refl] by simp
  next
    case (Data e p)
    then show ?thesis using data_inv [OF inv, of p e] snoc.prems by simp
  next
    case Abort
    then show ?thesis using inv by (auto simp: bin_cmd_ota_abort_def ota_bin_abort_def ota_inv_def)
  qed
qed

text \<open>
  C15: Only a whole image is ever started. When a command selects an image for the next start, or restarts
  the device, the image is exactly what the data commands since an accepted start carried, in order,
  and it has the size that start announced: whatever commands the host sends in whatever order, and
  whichever of the calls into the OTA library fail, a restart in the middle of a transfer included.
\<close>

theorem ota_boots_whole_image:
  assumes "list_all ota_cmd_ok (cs @ [c])"
    and "s = ota_run cs ota_init" "s' = ota_run (cs @ [c]) ota_init"
    and "ota_boot s' \<noteq> ota_boot s \<or> ota_restarts s' \<noteq> ota_restarts s"
  shows "\<exists>img. ota_boot s' = Some img \<and> sent_since_start (cs @ [c]) img (length img)"
proof -
  have inv: "ota_inv cs s" using ota_invariant [of cs] assms(1,2) by simp
  show ?thesis
  proof (cases c)
    case (Start e p)
    then show ?thesis using start_inv [OF inv assms(2), of e p] assms(2-4) by simp
  next
    case (Data e p)
    then show ?thesis using data_inv [OF inv, of p e] assms by simp
  next
    case Abort
    then show ?thesis using assms(2-4) by (auto simp: bin_cmd_ota_abort_def ota_bin_abort_def split: if_splits)
  qed
qed

definition ota_fine :: ota_env where
  "ota_fine = \<lparr>oe_partition = True, oe_begin = True, oe_write = True, oe_end = True, oe_boot = True\<rparr>"

lemma ota_boots_whole_image_witness:
  "ota_boot (ota_run ([Start ota_fine [3, 0, 0, 0], Data ota_fine [7, 8]] @ [Data ota_fine [9]]) ota_init) = Some [7, 8, 9]
   \<and> (\<exists>img. ota_boot (ota_run ([Start ota_fine [3, 0, 0, 0], Data ota_fine [7, 8]] @ [Data ota_fine [9]]) ota_init) = Some img \<and>
     sent_since_start ([Start ota_fine [3, 0, 0, 0], Data ota_fine [7, 8]] @ [Data ota_fine [9]]) img (length img))"
proof
  show run: "ota_boot (ota_run ([Start ota_fine [3, 0, 0, 0], Data ota_fine [7, 8]] @ [Data ota_fine [9]]) ota_init) = Some [7, 8, 9]"
    by code_simp
  have "ota_boot (ota_run [Start ota_fine [3, 0, 0, 0], Data ota_fine [7, 8]] ota_init) = None" by code_simp
  then show "\<exists>img. ota_boot (ota_run ([Start ota_fine [3, 0, 0, 0], Data ota_fine [7, 8]] @ [Data ota_fine [9]]) ota_init) = Some img \<and>
      sent_since_start ([Start ota_fine [3, 0, 0, 0], Data ota_fine [7, 8]] @ [Data ota_fine [9]]) img (length img)"
    using run by (intro ota_boots_whole_image [OF _ refl refl]) (simp_all add: KS_PAYLOAD_MAX_def)
qed

end
