(* ===== verification/Cdc_Cmds.thy ===== *)
theory Cdc_Cmds
  imports Cdc_Bigrams Bt_Manager Feature_Store Ota
begin

unbundle bit_operations_syntax

text \<open>
  \<open>main/comm/cdc/cdc_binary_cmds.c\<close>: the commands of the host tool on a keyboard. A handler takes the
  command byte, the payload and the state of the keyboard, and returns the new state and its answer. What a
  handler calls that leaves the model, the display and the two ways to restart, is collected in \<open>cf_calls\<close>;
  what it reads from outside is the record \<open>cmd_env\<close>.
\<close>

section \<open>State\<close>

datatype conf_call = UpdateLayerName | RebootToDfu | EspRestart

text \<open>The macros of the key processor are a view of \<open>macros_list\<close>. The storage is one namespace, held
  by the Bluetooth part; the statistics keep their two values of it themselves.\<close>

record conf = kb +
  layout_names :: "bytes list"
  macros_list :: "macro_t list"
  macros_count :: nat
  cf_stats :: key_stats
  cf_bt :: bt
  cf_ota :: ota
  cf_calls :: "conf_call list"

record cmd_env =
  ce_rc :: "nat \<Rightarrow> nvs_rc"
  ce_ota :: ota_env
  ce_now :: int
  ce_heap :: u32
  ce_usb_ready :: bool
  ce_malloc :: bool
  ce_stack :: bytes
  ce_version :: bytes
  ce_layout_json :: bytes
  ce_module_id :: u8

type_synonym handler = "cmd_env \<Rightarrow> u8 \<Rightarrow> bytes \<Rightarrow> conf \<Rightarrow> conf \<times> reply"

definition cf_flash :: "conf \<Rightarrow> kv" where "cf_flash s = bt_flash (cf_bt s)"

definition set_cf_flash :: "kv \<Rightarrow> conf \<Rightarrow> conf" where
  "set_cf_flash flash s = s\<lparr>cf_bt := (cf_bt s)\<lparr>bt_flash := flash\<rparr>\<rparr>"

definition cf_call :: "conf_call \<Rightarrow> conf \<Rightarrow> conf" where
  "cf_call c s = s\<lparr>cf_calls := cf_calls s @ [c]\<rparr>"

text \<open>A save: the new flash contents and whether it succeeded.\<close>

definition saved :: "(kv \<Rightarrow> kv \<times> bool \<times> nat) \<Rightarrow> conf \<Rightarrow> conf \<times> bool" where
  "saved f s = (case f (cf_flash s) of (flash, ok, _) \<Rightarrow> (set_cf_flash flash s, ok))"

definition storage_reply :: "bool \<Rightarrow> reply" where
  "storage_reply ok = (if ok then Ok else Err KS_STATUS_ERR_STORAGE)"

text \<open>A string in a fixed array ends at its first zero.\<close>

definition c_str :: "bytes \<Rightarrow> bytes" where
  "c_str a = takeWhile (\<lambda>b. b \<noteq> 0) a"

definition u8_of_nat :: "nat \<Rightarrow> u8" where "u8_of_nat n = word_of_nat n"

section \<open>System\<close>

definition bin_cmd_ping :: handler where "bin_cmd_ping e cmd p s = (s, Ok)"

definition bin_cmd_version :: handler where
  "bin_cmd_version e cmd p s = (s, Respond KS_STATUS_OK (c_str (ce_version e)))"

definition keyboard_features :: string where
  "keyboard_features = ''MT,LT,LM,OSM,OSL,CAPS_WORD,REPEAT,TAP_DANCE,COMBO,LEADER,GESC,LAYER_LOCK,WPM,TRI_LAYER,MATRIX_TEST''"

definition bin_cmd_features :: handler where
  "bin_cmd_features e cmd p s = (s, Respond KS_STATUS_OK (text_bytes keyboard_features))"

definition bin_cmd_dfu :: handler where "bin_cmd_dfu e cmd p s = (cf_call RebootToDfu s, Ok)"

section \<open>Keymap\<close>

definition KS_CMD_KEYMAP_CURRENT :: u8 where "KS_CMD_KEYMAP_CURRENT = 0x12"

definition bin_cmd_layer_index :: handler where
  "bin_cmd_layer_index e cmd p s =
     (if length p \<ge> 1 \<and> unat (p ! 0) \<ge> LAYERS then (s, Err KS_STATUS_ERR_RANGE)
      else let s1 = (if length p \<ge> 1 then layer_changed (s\<lparr>current_layout := p ! 0\<rparr>) else s)
           in (s1, Respond KS_STATUS_OK [current_layout s1]))"

definition keymap_cols :: "conf \<Rightarrow> nat" where
  "keymap_cols s = length (kp_keymaps s ! 0 ! 0)"

definition layer_cells :: "conf \<Rightarrow> (nat \<times> nat) list" where
  "layer_cells s = [(r, c). r \<leftarrow> [0..<matrix_rows s], c \<leftarrow> [0..<keymap_cols s]]"

definition bin_cmd_keymap_get :: handler where
  "bin_cmd_keymap_get e cmd p s =
     (if cmd \<noteq> KS_CMD_KEYMAP_CURRENT \<and> length p < 1 then (s, Err KS_STATUS_ERR_INVALID)
      else
        let layer = (if cmd = KS_CMD_KEYMAP_CURRENT then current_layout s else p ! 0) in
        if unat layer \<ge> LAYERS then (s, Err KS_STATUS_ERR_RANGE)
        else (s, Stream (word_of_nat (1 + matrix_rows s * keymap_cols s * 2))
               ([layer] # map (\<lambda>(r, c). u16_bytes (kp_keymaps s ! unat layer ! r ! c)) (layer_cells s))))"

definition set_keymap :: "nat \<Rightarrow> nat \<Rightarrow> nat \<Rightarrow> u16 \<Rightarrow> conf \<Rightarrow> conf" where
  "set_keymap layer r c v s =
     s\<lparr>kp_keymaps := (kp_keymaps s)[layer := (kp_keymaps s ! layer)[r := (kp_keymaps s ! layer ! r)[c := v]]]\<rparr>"

definition bin_cmd_setkey :: handler where
  "bin_cmd_setkey e cmd p s =
     (if length p < 5 then (s, Err KS_STATUS_ERR_INVALID)
      else if unat (p ! 0) \<ge> LAYERS \<or> unat (p ! 1) \<ge> matrix_rows s \<or> unat (p ! 2) \<ge> keymap_cols s
      then (s, Err KS_STATUS_ERR_RANGE)
      else
        let s1 = set_keymap (unat (p ! 0)) (unat (p ! 1)) (unat (p ! 2)) (be16 (p ! 4) (p ! 3)) s;
            (s2, ok) = saved (save_keymaps (ce_rc e) 0 (kp_keymaps s1)) s1
        in (s2, storage_reply ok))"

definition update_layer_name :: "u8 \<Rightarrow> conf \<Rightarrow> conf" where
  "update_layer_name layer s = (if layer = current_layout s then cf_call UpdateLayerName s else s)"

definition bin_cmd_setlayer :: handler where
  "bin_cmd_setlayer e cmd p s =
     (if length p < 1 + matrix_rows s * keymap_cols s * 2 then (s, Err KS_STATUS_ERR_INVALID)
      else if unat (p ! 0) \<ge> LAYERS then (s, Err KS_STATUS_ERR_RANGE)
      else
        let data = drop 1 p;
            s1 = fold (\<lambda>(r, c) s. let off = (r * keymap_cols s + c) * 2
                   in set_keymap (unat (p ! 0)) r c (be16 (data ! (off + 1)) (data ! off)) s) (layer_cells s) s;
            (s2, ok) = saved (save_keymaps (ce_rc e) 0 (kp_keymaps s1)) s1
        in (update_layer_name (p ! 0) s2, storage_reply ok))"

definition bin_cmd_layer_name :: handler where
  "bin_cmd_layer_name e cmd p s =
     (if length p < 1 then (s, Err KS_STATUS_ERR_INVALID)
      else if unat (p ! 0) \<ge> LAYERS then (s, Err KS_STATUS_ERR_RANGE)
      else let name = c_str (layout_names s ! unat (p ! 0))
           in (s, Stream (word_of_nat (1 + length name)) [[p ! 0], name]))"

section \<open>Layout names\<close>

definition name_parts :: "conf \<Rightarrow> nat \<Rightarrow> bytes list" where
  "name_parts s i =
     (let name = c_str (layout_names s ! i); nlen = u8_of_nat (length name)
      in [[u8_of_nat i], [nlen], take (unat nlen) name])"

definition bin_cmd_list_layouts :: handler where
  "bin_cmd_list_layouts e cmd p s =
     (s, Stream (fold (\<lambda>i total. total + 2 + word_of_nat (length (c_str (layout_names s ! i)))) [0..<LAYERS] 1)
        ([u8_of_nat LAYERS] # concat (map (name_parts s) [0..<LAYERS])))"

text \<open>A name copied into its array, with its end.\<close>

definition put_name :: "nat \<Rightarrow> bytes \<Rightarrow> bytes \<Rightarrow> bytes" where
  "put_name nlen src arr = (mem_write 0 (take nlen src) arr)[nlen := 0]"

definition bin_cmd_set_layout_name :: handler where
  "bin_cmd_set_layout_name e cmd p s =
     (if length p < 2 then (s, Err KS_STATUS_ERR_INVALID)
      else if unat (p ! 0) \<ge> LAYERS then (s, Err KS_STATUS_ERR_RANGE)
      else
        let layer = unat (p ! 0);
            nlen = (if length p - 1 \<ge> MAX_LAYOUT_NAME_LENGTH then MAX_LAYOUT_NAME_LENGTH - 1 else length p - 1);
            s1 = s\<lparr>layout_names := (layout_names s)[layer := put_name nlen (drop 1 p) (layout_names s ! layer)]\<rparr>;
            (s2, ok) = saved (save_layout_names (ce_rc e) 0 (layout_names s1)) s1
        in (update_layer_name (p ! 0) s2, storage_reply ok))"

definition bin_cmd_layout_json :: handler where
  "bin_cmd_layout_json e cmd p s =
     (let j = c_str (ce_layout_json e); jlen = length j mod 65536
      in (s, Stream (word_of_nat jlen)
            (map (\<lambda>i. take 256 (drop (i * 256) (take jlen j))) [0..<(jlen + 255) div 256])))"

section \<open>Bluetooth\<close>

definition slot_name :: "bt_slot option \<Rightarrow> bytes" where
  "slot_name sl = (case sl of Some b \<Rightarrow> c_str (bd_name b) | None \<Rightarrow> [])"

definition slot_valid :: "bt_slot option \<Rightarrow> bool" where
  "slot_valid sl = (case sl of Some b \<Rightarrow> bd_valid b | None \<Rightarrow> False)"

definition bt_slot_parts :: "conf \<Rightarrow> nat \<Rightarrow> bytes list" where
  "bt_slot_parts s i =
     (let sl = bt_get_slot (u8_of_nat i) (cf_bt s); valid = slot_valid sl; nlen = u8_of_nat (length (slot_name sl)) in
      [[u8_of_nat i], [if valid then 1 else 0]] @
      (if valid
       then [bd_addr (the sl), [nlen]] @ (if nlen \<noteq> 0 then [take (unat nlen) (slot_name sl)] else [])
       else [replicate 7 0]))"

definition bin_cmd_bt_query :: handler where
  "bin_cmd_bt_query e cmd p s =
     (let b = cf_bt s; flag = (\<lambda>x. if x then 1 else 0) in
      (s, Stream (fold (\<lambda>i total. let sl = bt_get_slot (u8_of_nat i) b
            in total + 8 + (if slot_valid sl then word_of_nat (length (slot_name sl)) else 0) + 1) [0..<BT_MAX_DEVICES] 4)
          ([bt_get_active_slot b, flag (hid_bluetooth_is_initialized b), flag (hid_bluetooth_is_connected b),
            flag (hid_bluetooth_is_pairing b)] # concat (map (bt_slot_parts s) [0..<BT_MAX_DEVICES]))))"

definition upd_bt :: "(bt \<Rightarrow> bt) \<Rightarrow> conf \<Rightarrow> conf" where
  "upd_bt f s = s\<lparr>cf_bt := f (cf_bt s)\<rparr>"

definition bin_cmd_bt_switch :: handler where
  "bin_cmd_bt_switch e cmd p s =
     (if length p < 1 then (s, Err KS_STATUS_ERR_INVALID)
      else if unat (p ! 0) \<ge> BT_MAX_DEVICES then (s, Err KS_STATUS_ERR_RANGE)
      else (upd_bt (bt_switch_slot (ce_rc e) (p ! 0)) s, Ok))"

definition bin_cmd_bt_pair :: handler where "bin_cmd_bt_pair e cmd p s = (upd_bt bt_start_pairing s, Ok)"

definition bin_cmd_bt_disconnect :: handler where "bin_cmd_bt_disconnect e cmd p s = (upd_bt bt_disconnect s, Ok)"

definition bin_cmd_bt_next :: handler where "bin_cmd_bt_next e cmd p s = (upd_bt (bt_next_device (ce_rc e)) s, Ok)"

definition bin_cmd_bt_prev :: handler where "bin_cmd_bt_prev e cmd p s = (upd_bt (bt_prev_device (ce_rc e)) s, Ok)"

section \<open>Features\<close>

definition bin_cmd_tama_query :: handler where
  "bin_cmd_tama_query e cmd p s = (s, Respond KS_STATUS_OK (replicate 22 0))"

text \<open>The seven other commands of the removed feature.\<close>

definition bin_cmd_tama :: handler where "bin_cmd_tama e cmd p s = (s, Ok)"

definition bin_cmd_autoshift :: handler where "bin_cmd_autoshift e cmd p s = (s, Respond KS_STATUS_OK [0])"

definition bin_cmd_wpm :: handler where
  "bin_cmd_wpm e cmd p s = (s, Respond KS_STATUS_OK (u16_bytes (wpm_get s)))"

definition bin_cmd_trilayer :: handler where
  "bin_cmd_trilayer e cmd p s =
     (if length p < 3 then (s, Err KS_STATUS_ERR_INVALID) else (tri_layer_set (p ! 0) (p ! 1) (p ! 2) s, Ok))"

section \<open>Statistics\<close>

definition ms_tick :: "cmd_env \<Rightarrow> u32" where "ms_tick e = now_ms (ce_now e)"

definition bin_cmd_keystats_reset :: handler where
  "bin_cmd_keystats_reset e cmd p s = (s\<lparr>cf_stats := reset_key_stats (ce_rc e) 0 (ms_tick e) (cf_stats s)\<rparr>, Ok)"

definition bin_cmd_bigrams_reset :: handler where
  "bin_cmd_bigrams_reset e cmd p s = (s\<lparr>cf_stats := reset_bigram_stats (cf_stats s)\<rparr>, Ok)"

definition bin_cmd_keystats_bin :: handler where
  "bin_cmd_keystats_bin e cmd p s =
     (let st = cf_stats s in
      (s, Stream (word_of_nat (2 + ks_rows st * ks_cols st * 4))
        ([u8_of_nat (ks_rows st), u8_of_nat (ks_cols st)] #
         [u32_le (ks_stats st ! r ! c). r \<leftarrow> [0..<ks_rows st], c \<leftarrow> [0..<ks_cols st]])))"

definition bin_cmd_keystats_text :: handler where
  "bin_cmd_keystats_text e cmd p s =
     (let (buf, pos) = keystats_text (ce_stack e) (cf_stats s) in (s, Respond KS_STATUS_OK (take pos buf)))"

definition bin_cmd_bigrams_text :: handler where
  "bin_cmd_bigrams_text e cmd p s =
     (let (buf, pos) = bigrams_text (ce_stack e) (cf_stats s) in (s, Respond KS_STATUS_OK (take pos buf)))"

definition bin_cmd_bigrams_bin :: handler where
  "bin_cmd_bigrams_bin e cmd p s =
     (if \<not> ce_malloc e then (s, Err KS_STATUS_ERR_BUSY)
      else
        let st = cf_stats s; entries = sort_desc (bin_top st) in
        (s, Stream (8 + word_of_nat (length entries) * 4)
          ((ce_module_id e # u8_of_nat (NUM_KEYS st) # u32_le (ks_bigram_total st) @ u16_bytes (get_bigram_stats_max st)) #
           map (\<lambda>(prev, cur, cnt). prev # cur # u16_bytes cnt) entries)))"

section \<open>Tables of tap dances, combos, leader sequences and overrides\<close>

text \<open>The results of these saves are only logged.\<close>

definition save_quiet :: "(conf \<Rightarrow> kv \<Rightarrow> kv \<times> bool \<times> nat) \<Rightarrow> conf \<Rightarrow> conf" where
  "save_quiet f s = fst (saved (f s) s)"

definition bin_cmd_td_set :: handler where
  "bin_cmd_td_set e cmd p s =
     (if length p < 5 then (s, Err KS_STATUS_ERR_INVALID)
      else if unat (p ! 0) \<ge> TAP_DANCE_MAX_SLOTS then (s, Err KS_STATUS_ERR_RANGE)
      else (save_quiet (tap_dance_save (ce_rc e) 0) (tap_dance_set (p ! 0) [p ! 1, p ! 2, p ! 3, p ! 4] s), Ok))"

definition td_used :: "bytes option \<Rightarrow> bool" where
  "td_used td = (case td of Some a \<Rightarrow> a ! 0 \<noteq> 0 \<or> a ! 1 \<noteq> 0 \<or> a ! 2 \<noteq> 0 \<or> a ! 3 \<noteq> 0 | None \<Rightarrow> False)"

text \<open>The three lists below count first, then write the entries the count was for.\<close>

definition slots_where :: "nat \<Rightarrow> (u8 \<Rightarrow> bool) \<Rightarrow> u8 list" where
  "slots_where n used = filter used (map u8_of_nat [0..<n])"

definition count_where :: "nat \<Rightarrow> (u8 \<Rightarrow> bool) \<Rightarrow> u8" where
  "count_where n used = fold (\<lambda>i c. if used (u8_of_nat i) then c + 1 else c) [0..<n] 0"

definition bin_cmd_td_list :: handler where
  "bin_cmd_td_list e cmd p s =
     (let used = (\<lambda>i. td_used (tap_dance_get i s)); cnt = count_where TAP_DANCE_MAX_SLOTS used in
      (s, Stream (1 + ucast cnt * 5)
        ([cnt] # map (\<lambda>i. let a = the (tap_dance_get i s) in [i, a ! 0, a ! 1, a ! 2, a ! 3])
           (slots_where TAP_DANCE_MAX_SLOTS used))))"

definition bin_cmd_td_delete :: handler where
  "bin_cmd_td_delete e cmd p s =
     (if length p < 1 then (s, Err KS_STATUS_ERR_INVALID)
      else if unat (p ! 0) \<ge> TAP_DANCE_MAX_SLOTS then (s, Err KS_STATUS_ERR_RANGE)
      else (save_quiet (tap_dance_save (ce_rc e) 0) (tap_dance_set (p ! 0) [0, 0, 0, 0] s), Ok))"

definition bin_cmd_combo_set :: handler where
  "bin_cmd_combo_set e cmd p s =
     (if length p < 6 then (s, Err KS_STATUS_ERR_INVALID)
      else if unat (p ! 0) \<ge> COMBO_MAX_SLOTS then (s, Err KS_STATUS_ERR_RANGE)
      else (save_quiet (combo_save (ce_rc e) 0) (combo_set (p ! 0)
              \<lparr>cb_row1 = p ! 1, cb_col1 = p ! 2, cb_row2 = p ! 3, cb_col2 = p ! 4, cb_result = p ! 5\<rparr> s), Ok))"

definition combo_used :: "combo_config option \<Rightarrow> bool" where
  "combo_used cb = (case cb of Some c \<Rightarrow> cb_result c \<noteq> 0 | None \<Rightarrow> False)"

definition bin_cmd_combo_list :: handler where
  "bin_cmd_combo_list e cmd p s =
     (let used = (\<lambda>i. combo_used (combo_get i s)); cnt = count_where COMBO_MAX_SLOTS used in
      (s, Stream (1 + ucast cnt * 6)
        ([cnt] # map (\<lambda>i. i # combo_bytes (the (combo_get i s))) (slots_where COMBO_MAX_SLOTS used))))"

definition bin_cmd_combo_delete :: handler where
  "bin_cmd_combo_delete e cmd p s =
     (if length p < 1 then (s, Err KS_STATUS_ERR_INVALID)
      else if unat (p ! 0) \<ge> COMBO_MAX_SLOTS then (s, Err KS_STATUS_ERR_RANGE)
      else (save_quiet (combo_save (ce_rc e) 0) (combo_set (p ! 0) combo_zero s), Ok))"

definition bin_cmd_leader_set :: handler where
  "bin_cmd_leader_set e cmd p s =
     (if length p < 4 then (s, Err KS_STATUS_ERR_INVALID)
      else
        let idx = p ! 0; seq_len = unat (p ! 1) in
        if unat idx \<ge> LEADER_MAX_ENTRIES \<or> length p < 2 + seq_len + 2 then (s, Err KS_STATUS_ERR_RANGE)
        else (save_quiet (leader_save (ce_rc e) 0) (leader_set idx
                \<lparr>le_sequence = map (\<lambda>i. if i < seq_len then p ! (2 + i) else 0) [0..<LEADER_MAX_SEQ_LEN],
                 le_result = p ! (2 + seq_len), le_result_mod = p ! (2 + seq_len + 1)\<rparr> s), Ok))"

definition leader_used :: "leader_entry option \<Rightarrow> bool" where
  "leader_used ld = (case ld of Some e \<Rightarrow> le_result e \<noteq> 0 | None \<Rightarrow> False)"

definition bin_cmd_leader_list :: handler where
  "bin_cmd_leader_list e cmd p s =
     (let used = (\<lambda>i. leader_used (leader_get i s)); ent = (\<lambda>i. the (leader_get i s)) in
      (s, Stream (fold (\<lambda>i total. if used i then total + 2 + word_of_nat (entry_seq_len (ent i)) + 2 else total)
             (map u8_of_nat [0..<LEADER_MAX_ENTRIES]) 1)
        ([count_where LEADER_MAX_ENTRIES used] #
         concat (map (\<lambda>i. [[i, u8_of_nat (entry_seq_len (ent i))], take (entry_seq_len (ent i)) (le_sequence (ent i)),
             [le_result (ent i), le_result_mod (ent i)]]) (slots_where LEADER_MAX_ENTRIES used)))))"

definition bin_cmd_leader_delete :: handler where
  "bin_cmd_leader_delete e cmd p s =
     (if length p < 1 then (s, Err KS_STATUS_ERR_INVALID)
      else if unat (p ! 0) \<ge> LEADER_MAX_ENTRIES then (s, Err KS_STATUS_ERR_RANGE)
      else (save_quiet (leader_save (ce_rc e) 0) (leader_set (p ! 0) leader_zero s), Ok))"

definition bin_cmd_ko_set :: handler where
  "bin_cmd_ko_set e cmd p s =
     (if length p < 5 then (s, Err KS_STATUS_ERR_INVALID)
      else if unat (p ! 0) \<ge> KEY_OVERRIDE_MAX_SLOTS then (s, Err KS_STATUS_ERR_RANGE)
      else (save_quiet (key_override_save (ce_rc e) 0) (key_override_set (p ! 0)
              \<lparr>trigger_key = p ! 1, trigger_mod = p ! 2, result_key = p ! 3, result_mod = p ! 4\<rparr> s), Ok))"

definition ko_used :: "key_override option \<Rightarrow> bool" where
  "ko_used ko = (case ko of Some k \<Rightarrow> trigger_key k \<noteq> 0 | None \<Rightarrow> False)"

definition bin_cmd_ko_list :: handler where
  "bin_cmd_ko_list e cmd p s =
     (let used = (\<lambda>i. ko_used (key_override_get i s)); cnt = count_where KEY_OVERRIDE_MAX_SLOTS used in
      (s, Stream (1 + ucast cnt * 5)
        ([cnt] # map (\<lambda>i. i # override_bytes (the (key_override_get i s))) (slots_where KEY_OVERRIDE_MAX_SLOTS used))))"

definition bin_cmd_ko_delete :: handler where
  "bin_cmd_ko_delete e cmd p s =
     (if length p < 1 then (s, Err KS_STATUS_ERR_INVALID)
      else if unat (p ! 0) \<ge> KEY_OVERRIDE_MAX_SLOTS then (s, Err KS_STATUS_ERR_RANGE)
      else (save_quiet (key_override_save (ce_rc e) 0) (key_override_set (p ! 0) key_override_zero s), Ok))"

section \<open>Macros\<close>

definition macro_kc_from_index :: "nat \<Rightarrow> u16" where
  "macro_kc_from_index idx = MACRO_1 + word_of_nat (idx * 0x100)"

definition nonzero_keys :: "macro_t \<Rightarrow> bytes" where
  "nonzero_keys m = filter (\<lambda>k. k \<noteq> 0) (take 6 (mt_keys m))"

text \<open>The steps are counted wherever they are; the list that is written ends at the first empty one.\<close>

definition step_count :: "macro_t \<Rightarrow> nat" where
  "step_count m = length (filter (\<lambda>st. fst st \<noteq> 0) (take MACRO_MAX_STEPS (mt_steps m)))"

definition written_steps :: "macro_t \<Rightarrow> (u8 \<times> u8) list" where
  "written_steps m = takeWhile (\<lambda>st. fst st \<noteq> 0) (take MACRO_MAX_STEPS (mt_steps m))"

definition macro_total :: "macro_t \<Rightarrow> nat" where
  "macro_total m = 1 + 2 + 1 + length (c_str (mt_name m)) + 1 + length (nonzero_keys m) + 1 + step_count m * 2"

definition macro_parts :: "nat \<Rightarrow> macro_t \<Rightarrow> bytes list" where
  "macro_parts i m =
     [[u8_of_nat i], u16_bytes (macro_kc_from_index i), [u8_of_nat (length (c_str (mt_name m)))], c_str (mt_name m),
      [u8_of_nat (length (nonzero_keys m))]] @ (if nonzero_keys m \<noteq> [] then [nonzero_keys m] else []) @
     [[u8_of_nat (step_count m)]] @ map (\<lambda>(kc, md). [kc, md]) (written_steps m)"

definition named_slots :: "conf \<Rightarrow> nat list" where
  "named_slots s = filter (\<lambda>i. mt_named (macros_list s ! i)) [0..<MAX_MACROS]"

definition bin_cmd_list_macros :: handler where
  "bin_cmd_list_macros e cmd p s =
     (s, Stream (fold (\<lambda>i total. total + word_of_nat (macro_total (macros_list s ! i))) (named_slots s) 1)
        ([u8_of_nat (length (named_slots s))] #
         concat (map (\<lambda>i. macro_parts i (macros_list s ! i)) (named_slots s))))"

definition macro_view :: "macro_t \<Rightarrow> macro" where
  "macro_view m = \<lparr>mc_named = mt_named m, mc_steps = mt_steps m, mc_keys = mt_keys m\<rparr>"

definition set_macros :: "macro_t list \<Rightarrow> nat \<Rightarrow> conf \<Rightarrow> conf" where
  "set_macros ms n s = s\<lparr>macros_list := ms, macros_count := n, kp_macros := map macro_view ms\<rparr>"

definition macros_saved :: "cmd_env \<Rightarrow> conf \<Rightarrow> conf \<times> reply" where
  "macros_saved e s =
     (let (s1, ok) = saved (save_macros (ce_rc e) 0 (macros_list s) (macros_count s)) s in (s1, storage_reply ok))"

definition put_macro :: "nat \<Rightarrow> macro_t \<Rightarrow> conf \<Rightarrow> conf" where
  "put_macro slot m s =
     set_macros ((macros_list s)[slot := m]) (if slot + 1 > macros_count s then slot + 1 else macros_count s) s"

definition macro_name_len :: "u8 \<Rightarrow> nat" where
  "macro_name_len nlen =
     (if unat nlen < MAX_MACRO_NAME_LENGTH then unat nlen else MAX_MACRO_NAME_LENGTH - 1)"

definition bin_cmd_macro_add :: handler where
  "bin_cmd_macro_add e cmd p s =
     (if length p < 9 then (s, Err KS_STATUS_ERR_INVALID)
      else if unat (p ! 0) \<ge> MAX_MACROS then (s, Err KS_STATUS_ERR_RANGE)
      else if length p < 2 + unat (p ! 1) + 6 then (s, Err KS_STATUS_ERR_INVALID)
      else
        let slot = unat (p ! 0); m = macros_list s ! slot in
        macros_saved e (put_macro slot
          \<lparr>mt_name = put_name (macro_name_len (p ! 1)) (drop 2 p) (mt_name m),
           mt_steps = replicate MACRO_MAX_STEPS (0, 0), mt_keys = take 6 (drop (2 + unat (p ! 1)) p),
           mt_key_definition = macro_kc_from_index slot\<rparr> s))"

definition bin_cmd_macro_add_seq :: handler where
  "bin_cmd_macro_add_seq e cmd p s =
     (if length p < 4 then (s, Err KS_STATUS_ERR_INVALID)
      else if unat (p ! 0) \<ge> MAX_MACROS then (s, Err KS_STATUS_ERR_RANGE)
      else if length p < 2 + unat (p ! 1) + 1 then (s, Err KS_STATUS_ERR_INVALID)
      else
        let slot = unat (p ! 0); m = macros_list s ! slot; n = unat (p ! (2 + unat (p ! 1)));
            step_cnt = (if n > MACRO_MAX_STEPS then MACRO_MAX_STEPS else n);
            data = drop (2 + unat (p ! 1) + 1) p
        in if length p < 2 + unat (p ! 1) + 1 + step_cnt * 2 then (s, Err KS_STATUS_ERR_INVALID)
           else macros_saved e (put_macro slot
             \<lparr>mt_name = put_name (macro_name_len (p ! 1)) (drop 2 p) (mt_name m),
              mt_steps = map (\<lambda>i. if i < step_cnt then (data ! (i * 2), data ! (i * 2 + 1)) else (0, 0)) [0..<MACRO_MAX_STEPS],
              mt_keys = replicate 6 0, mt_key_definition = macro_kc_from_index slot\<rparr> s))"

definition bin_cmd_macro_delete :: handler where
  "bin_cmd_macro_delete e cmd p s =
     (if length p < 1 then (s, Err KS_STATUS_ERR_INVALID)
      else if unat (p ! 0) \<ge> MAX_MACROS then (s, Err KS_STATUS_ERR_RANGE)
      else
        let slot = unat (p ! 0);
            ms = (macros_list s)[slot := \<lparr>mt_name = (mt_name (macros_list s ! slot))[0 := 0],
                mt_steps = replicate MACRO_MAX_STEPS (0, 0), mt_keys = replicate 6 0,
                mt_key_definition = macro_kc_from_index slot\<rparr>]
        in macros_saved e (set_macros ms (recalc_macros_count ms) s))"

section \<open>Diagnostics\<close>

definition bin_cmd_matrix_test :: handler where
  "bin_cmd_matrix_test e cmd p s =
     (let s1 = s\<lparr>matrix_test_mode := \<not> matrix_test_mode s\<rparr>;
          s2 = (if matrix_test_mode s1 then s1\<lparr>matrix_test_last_activity_ms := now_ms (ce_now e)\<rparr> else s1)
      in (s2, Respond KS_STATUS_OK [if matrix_test_mode s2 then 1 else 0, u8_of_nat (matrix_rows s2), u8_of_nat (matrix_cols s2)]))"

text \<open>The keys that a bit of the mask erases, in the order of the code; the two of the statistics are
  the table and its total.\<close>

definition reset_keys :: "u8 \<Rightarrow> string list" where
  "reset_keys msk =
     (if msk AND 0x01 \<noteq> 0 then [''keymaps'', ''layout_names''] else []) @
     (if msk AND 0x02 \<noteq> 0 then [''macros''] else []) @
     (if msk AND 0x04 \<noteq> 0 then [''key_stats'', ''key_stats_tot'', ''bigram_stats'', ''bigram_total''] else []) @
     (if msk AND 0x08 \<noteq> 0 then [''td_configs'', ''td_count'', ''combo_cfg'', ''combo_cnt'', ''leader_cfg'',
        ''leader_cnt'', ''ko_cfg'', ''ko_cnt''] else []) @
     (if msk AND 0x10 \<noteq> 0 then [''bt_slots'', ''bt_active'', ''bt_enabled''] else []) @
     (if msk AND 0x20 \<noteq> 0 then [''tama_stats''] else [])"

text \<open>The \<open>n\<close>-th erasure is call \<open>n\<close> into the storage, after the opening.\<close>

fun erase_keys :: "(nat \<Rightarrow> nvs_rc) \<Rightarrow> nat \<Rightarrow> string list \<Rightarrow> conf \<Rightarrow> conf" where
  "erase_keys rc n [] s = s"
| "erase_keys rc n (k # ks) s =
     erase_keys rc (n + 1) ks
       (if rc n \<noteq> NvsOk then s
        else if k = ''key_stats'' then s\<lparr>cf_stats := (cf_stats s)\<lparr>ks_flash_stats := None\<rparr>\<rparr>
        else if k = ''key_stats_tot'' then s\<lparr>cf_stats := (cf_stats s)\<lparr>ks_flash_total := None\<rparr>\<rparr>
        else set_cf_flash (nvs_erase NvsOk k (cf_flash s)) s)"

definition bin_cmd_nvs_reset :: handler where
  "bin_cmd_nvs_reset e cmd p s =
     (if length p < 1 then (s, Err KS_STATUS_ERR_INVALID)
      else if p ! 0 = 0 then (s, Err KS_STATUS_ERR_INVALID)
      else if ce_rc e 0 \<noteq> NvsOk then (s, Err KS_STATUS_ERR_BUSY)
      else (cf_call EspRestart (erase_keys (ce_rc e) 1 (reset_keys (p ! 0)) s), Ok))"

record ks_monitor =
  km_flags :: u8
  km_uptime_s :: u32
  km_heap_free_kb :: u16
  km_layer_idx :: u8
  km_wpm :: u8
  km_keys_total :: u32
  km_sig_kbd :: u8
  km_sig_mouse :: u8
  km_age_kbd_ms :: u16
  km_age_mouse_ms :: u16
  km_batt_kbd :: "u8 \<times> u8 \<times> u8"
  km_batt_mouse :: "u8 \<times> u8 \<times> u8"
  km_bt_slot :: u8

definition KS_MONITOR_FMT :: u8 where "KS_MONITOR_FMT = 0x01"
definition KS_MONITOR_SIZE :: nat where "KS_MONITOR_SIZE = 28"

definition ks_monitor_encode :: "ks_monitor \<Rightarrow> bytes" where
  "ks_monitor_encode m =
     [KS_MONITOR_FMT, km_flags m] @ u32_le (km_uptime_s m) @ u16_bytes (km_heap_free_kb m) @
     [0x80, km_layer_idx m, km_wpm m] @ u32_le (km_keys_total m) @ [km_sig_kbd m, km_sig_mouse m] @
     u16_bytes (km_age_kbd_ms m) @ u16_bytes (km_age_mouse_ms m) @
     (case km_batt_kbd m of (dv, soc, chg) \<Rightarrow> [dv, soc, chg]) @
     (case km_batt_mouse m of (dv, soc, chg) \<Rightarrow> [dv, soc, chg]) @ [km_bt_slot m]"

definition cap16 :: "u32 \<Rightarrow> u16" where "cap16 w = (if w > 0xFFFF then 0xFFFF else ucast w)"

definition cap8 :: "u16 \<Rightarrow> u8" where "cap8 w = (if w > 255 then 255 else ucast w)"

text \<open>A keyboard has no radio of its own to report on.\<close>

definition bin_cmd_monitor :: handler where
  "bin_cmd_monitor e cmd p s =
     (s, Respond KS_STATUS_OK (ks_monitor_encode
        \<lparr>km_flags = (if hid_bluetooth_is_connected (cf_bt s) then 0x10 else 0) OR (if ce_usb_ready e then 0x08 else 0),
         km_uptime_s = word_of_int (ce_now e div 1000000), km_heap_free_kb = cap16 (ce_heap e div 1024),
         km_layer_idx = current_layout s, km_wpm = cap8 (wpm_get s), km_keys_total = ks_total (cf_stats s),
         km_sig_kbd = 0, km_sig_mouse = 0, km_age_kbd_ms = 0, km_age_mouse_ms = 0,
         km_batt_kbd = (0, 0, 0), km_batt_mouse = (0, 0, 0), km_bt_slot = bt_get_active_slot (cf_bt s)\<rparr>))"

definition with_ota :: "(ota \<Rightarrow> ota \<times> reply) \<Rightarrow> conf \<Rightarrow> conf \<times> reply" where
  "with_ota f s = (case f (cf_ota s) of (o1, r) \<Rightarrow> (s\<lparr>cf_ota := o1\<rparr>, r))"

section \<open>The table\<close>

datatype cmd_name = CmdPing | CmdVersion | CmdFeatures | CmdDfu | CmdLayerIndex | CmdKeymapGet | CmdSetKey | CmdSetLayer
  | CmdLayerName | CmdListLayouts | CmdSetLayoutName | CmdLayoutJson | CmdBtQuery | CmdBtSwitch | CmdBtPair
  | CmdBtDisconnect | CmdBtNext | CmdBtPrev | CmdTamaQuery | CmdTama | CmdAutoshift | CmdWpm | CmdTriLayer | CmdListMacros
  | CmdMacroAdd | CmdMacroAddSeq | CmdMacroDelete | CmdKeystatsBin | CmdKeystatsText | CmdKeystatsReset | CmdBigramsBin
  | CmdBigramsText | CmdBigramsReset | CmdTdSet | CmdTdList | CmdTdDelete | CmdComboSet | CmdComboList | CmdComboDelete
  | CmdLeaderSet | CmdLeaderList | CmdLeaderDelete | CmdKoSet | CmdKoList | CmdKoDelete | CmdMatrixTest | CmdNvsReset
  | CmdMonitor | CmdOtaStart | CmdOtaData | CmdOtaAbort

fun run_cmd :: "cmd_name \<Rightarrow> handler" where
  "run_cmd CmdPing = bin_cmd_ping" | "run_cmd CmdVersion = bin_cmd_version"
| "run_cmd CmdFeatures = bin_cmd_features" | "run_cmd CmdDfu = bin_cmd_dfu"
| "run_cmd CmdLayerIndex = bin_cmd_layer_index" | "run_cmd CmdKeymapGet = bin_cmd_keymap_get"
| "run_cmd CmdSetKey = bin_cmd_setkey" | "run_cmd CmdSetLayer = bin_cmd_setlayer"
| "run_cmd CmdLayerName = bin_cmd_layer_name" | "run_cmd CmdListLayouts = bin_cmd_list_layouts"
| "run_cmd CmdSetLayoutName = bin_cmd_set_layout_name" | "run_cmd CmdLayoutJson = bin_cmd_layout_json"
| "run_cmd CmdBtQuery = bin_cmd_bt_query" | "run_cmd CmdBtSwitch = bin_cmd_bt_switch"
| "run_cmd CmdBtPair = bin_cmd_bt_pair" | "run_cmd CmdBtDisconnect = bin_cmd_bt_disconnect"
| "run_cmd CmdBtNext = bin_cmd_bt_next" | "run_cmd CmdBtPrev = bin_cmd_bt_prev"
| "run_cmd CmdTamaQuery = bin_cmd_tama_query" | "run_cmd CmdTama = bin_cmd_tama"
| "run_cmd CmdAutoshift = bin_cmd_autoshift" | "run_cmd CmdWpm = bin_cmd_wpm"
| "run_cmd CmdTriLayer = bin_cmd_trilayer" | "run_cmd CmdListMacros = bin_cmd_list_macros"
| "run_cmd CmdMacroAdd = bin_cmd_macro_add" | "run_cmd CmdMacroAddSeq = bin_cmd_macro_add_seq"
| "run_cmd CmdMacroDelete = bin_cmd_macro_delete" | "run_cmd CmdKeystatsBin = bin_cmd_keystats_bin"
| "run_cmd CmdKeystatsText = bin_cmd_keystats_text" | "run_cmd CmdKeystatsReset = bin_cmd_keystats_reset"
| "run_cmd CmdBigramsBin = bin_cmd_bigrams_bin" | "run_cmd CmdBigramsText = bin_cmd_bigrams_text"
| "run_cmd CmdBigramsReset = bin_cmd_bigrams_reset" | "run_cmd CmdTdSet = bin_cmd_td_set"
| "run_cmd CmdTdList = bin_cmd_td_list" | "run_cmd CmdTdDelete = bin_cmd_td_delete"
| "run_cmd CmdComboSet = bin_cmd_combo_set" | "run_cmd CmdComboList = bin_cmd_combo_list"
| "run_cmd CmdComboDelete = bin_cmd_combo_delete" | "run_cmd CmdLeaderSet = bin_cmd_leader_set"
| "run_cmd CmdLeaderList = bin_cmd_leader_list" | "run_cmd CmdLeaderDelete = bin_cmd_leader_delete"
| "run_cmd CmdKoSet = bin_cmd_ko_set" | "run_cmd CmdKoList = bin_cmd_ko_list"
| "run_cmd CmdKoDelete = bin_cmd_ko_delete" | "run_cmd CmdMatrixTest = bin_cmd_matrix_test"
| "run_cmd CmdNvsReset = bin_cmd_nvs_reset" | "run_cmd CmdMonitor = bin_cmd_monitor"
| "run_cmd CmdOtaStart = (\<lambda>e cmd p. with_ota (bin_cmd_ota_start (ce_ota e) p))"
| "run_cmd CmdOtaData = (\<lambda>e cmd p. with_ota (bin_cmd_ota_data (ce_ota e) p))"
| "run_cmd CmdOtaAbort = (\<lambda>e cmd p. with_ota bin_cmd_ota_abort)"

definition bt_cmd_table :: "(u8 \<times> cmd_name) list" where
  "bt_cmd_table = [(0x80, CmdBtQuery), (0x81, CmdBtSwitch), (0x82, CmdBtPair), (0x83, CmdBtDisconnect),
     (0x84, CmdBtNext), (0x85, CmdBtPrev)]"

text \<open>The table of a keyboard, with or without Bluetooth.\<close>

definition bin_cmd_table :: "bool \<Rightarrow> (u8 \<times> cmd_name) list" where
  "bin_cmd_table has_ble =
     [(0x04, CmdPing), (0x01, CmdVersion), (0x02, CmdFeatures), (0x03, CmdDfu), (0x14, CmdLayerIndex),
      (0x12, CmdKeymapGet), (0x13, CmdKeymapGet), (0x11, CmdSetKey), (0x10, CmdSetLayer), (0x15, CmdLayerName),
      (0x21, CmdListLayouts), (0x20, CmdSetLayoutName), (0x22, CmdLayoutJson)] @
     (if has_ble then bt_cmd_table else []) @
     [(0xA0, CmdTamaQuery), (0xA1, CmdTama), (0xA2, CmdTama), (0xA3, CmdTama), (0xA4, CmdTama), (0xA5, CmdTama),
      (0xA6, CmdTama), (0xA7, CmdTama), (0x90, CmdAutoshift), (0x94, CmdWpm), (0x95, CmdTriLayer),
      (0x30, CmdListMacros), (0x31, CmdMacroAdd), (0x32, CmdMacroAddSeq), (0x33, CmdMacroDelete),
      (0x40, CmdKeystatsBin), (0x41, CmdKeystatsText), (0x42, CmdKeystatsReset), (0x43, CmdBigramsBin),
      (0x44, CmdBigramsText), (0x45, CmdBigramsReset), (0x50, CmdTdSet), (0x51, CmdTdList), (0x52, CmdTdDelete),
      (0x60, CmdComboSet), (0x61, CmdComboList), (0x62, CmdComboDelete), (0x70, CmdLeaderSet), (0x71, CmdLeaderList),
      (0x72, CmdLeaderDelete), (0x91, CmdKoSet), (0x92, CmdKoList), (0x93, CmdKoDelete), (0xB0, CmdMatrixTest),
      (0xB1, CmdNvsReset), (0xB7, CmdMonitor), (0xF0, CmdOtaStart), (0xF1, CmdOtaData), (0xF2, CmdOtaAbort)]"

definition cdc_binary_cmds_init :: "bool \<Rightarrow> cmd_name ks_cdc \<Rightarrow> cmd_name ks_cdc" where
  "cdc_binary_cmds_init has_ble = ks_register_binary_commands (bin_cmd_table has_ble)"

text \<open>A validated request on a keyboard: the command channel and the state behind it.\<close>

definition conf_command :: "cmd_env \<Rightarrow> u8 \<Rightarrow> bytes \<Rightarrow> cmd_name ks_cdc \<times> conf \<Rightarrow> cmd_name ks_cdc \<times> conf" where
  "conf_command e cmd p = (\<lambda>(cdc, s).
     case find_handler (bin_tables cdc) cmd of
       None \<Rightarrow> (ks_respond_err cmd KS_STATUS_ERR_UNKNOWN cdc, s)
     | Some h \<Rightarrow> (case run_cmd h e cmd p s of (s1, r) \<Rightarrow> (send_reply cmd r cdc, s1)))"


end
