(* ===== verification/Cdc_Props.thy ===== *)
theory Cdc_Props
  imports Cdc_Cmds
begin

unbundle bit_operations_syntax

text \<open>
  What the host tool can rely on: every command keeps the tables of the keyboard in shape, a refused
  command changes nothing, the answers have the length they announce, and what is read back is what was
  written.
\<close>

section \<open>The shape of the tables\<close>

definition key_ok :: "'a kb_scheme \<Rightarrow> bool" where
  "key_ok s \<longleftrightarrow> layers_ok s \<and> shape s = [6, 6, 4, 6, 4, 16] \<and>
     list_all (\<lambda>pos. snd pos = INVALID_KEY_POS \<or> in_matrix s pos) (current_press s) \<and> queue_ok s"

text \<open>It is the invariant that the keyboard task rests on.\<close>

lemma key_ok_kb: "key_ok s = kb_ok (kb.truncate s)"
proof -
  have "pos_ok (kb.truncate s) = (\<lambda>pos. snd pos = INVALID_KEY_POS \<or> in_matrix s pos)"
    by (rule ext) (simp add: pos_ok_def in_matrix_def kb.defs)
  then show ?thesis by (simp add: key_ok_def kb_ok_def queue_ok_def) (simp add: kb.defs layers_ok_def shape_def)
qed

definition string_ok :: "bytes \<Rightarrow> bool" where
  "string_ok a \<longleftrightarrow> 0 \<in> set a"

definition stats_ok :: "key_stats \<Rightarrow> bool" where
  "stats_ok st \<longleftrightarrow> square (ks_rows st) (ks_cols st) (ks_stats st) \<and> square (NUM_KEYS st) (NUM_KEYS st) (ks_bigrams st)"

definition conf_ok :: "conf \<Rightarrow> bool" where
  "conf_ok s \<longleftrightarrow> key_ok s \<and> 0 < matrix_rows s \<and> dims_ok LAYERS (matrix_rows s) (keymap_cols s) (kp_keymaps s) \<and>
     names_ok LAYERS (layout_names s) \<and> list_all string_ok (layout_names s) \<and>
     macros_ok (macros_list s) \<and> list_all (\<lambda>m. string_ok (mt_name m)) (macros_list s) \<and>
     kp_macros s = map macro_view (macros_list s) \<and> macros_count s \<le> MAX_MACROS \<and>
     tables_ok s \<and> bt_ok (cf_bt s) \<and> stats_ok (cf_stats s)"

lemma key_ok_fields [simp]:
  "key_ok (s\<lparr>kp_keymaps := km\<rparr>) = key_ok s" "key_ok (s\<lparr>kp_macros := ms\<rparr>) = key_ok s"
  "key_ok (s\<lparr>overrides := ov\<rparr>) = key_ok s" "key_ok (s\<lparr>td_configs := td\<rparr>) = key_ok s"
  "key_ok (s\<lparr>cb_configs := cb\<rparr>) = key_ok s" "key_ok (s\<lparr>ld_entries := ld\<rparr>) = key_ok s"
  "key_ok (s\<lparr>matrix_test_mode := m\<rparr>) = key_ok s" "key_ok (s\<lparr>matrix_test_last_activity_ms := t\<rparr>) = key_ok s"
  "key_ok (s\<lparr>tri_l1 := a\<rparr>) = key_ok s" "key_ok (s\<lparr>tri_l2 := a\<rparr>) = key_ok s" "key_ok (s\<lparr>tri_result := a\<rparr>) = key_ok s"
  by (simp_all add: key_ok_def layers_ok_def shape_def in_matrix_def queue_ok_def)

lemma key_ok_conf_fields [simp]:
  "key_ok (s\<lparr>layout_names := n\<rparr>) = key_ok s" "key_ok (s\<lparr>macros_list := ml\<rparr>) = key_ok s"
  "key_ok (s\<lparr>macros_count := c\<rparr>) = key_ok s" "key_ok (s\<lparr>cf_stats := st\<rparr>) = key_ok s"
  "key_ok (s\<lparr>cf_bt := b\<rparr>) = key_ok s" "key_ok (s\<lparr>cf_ota := u\<rparr>) = key_ok s" "key_ok (s\<lparr>cf_calls := cs\<rparr>) = key_ok s"
  by (simp_all add: key_ok_def layers_ok_def shape_def in_matrix_def queue_ok_def)

lemma tables_ok_fields [simp]:
  "tables_ok (s\<lparr>kp_keymaps := km\<rparr>) = tables_ok s" "tables_ok (s\<lparr>kp_macros := ms\<rparr>) = tables_ok s"
  "tables_ok (s\<lparr>matrix_test_mode := m\<rparr>) = tables_ok s" "tables_ok (s\<lparr>matrix_test_last_activity_ms := t\<rparr>) = tables_ok s"
  "tables_ok (s\<lparr>tri_l1 := a\<rparr>) = tables_ok s" "tables_ok (s\<lparr>tri_l2 := a\<rparr>) = tables_ok s" "tables_ok (s\<lparr>tri_result := a\<rparr>) = tables_ok s"
  "tables_ok (s\<lparr>layout_names := n\<rparr>) = tables_ok s" "tables_ok (s\<lparr>macros_list := ml\<rparr>) = tables_ok s"
  "tables_ok (s\<lparr>macros_count := c\<rparr>) = tables_ok s" "tables_ok (s\<lparr>cf_stats := st\<rparr>) = tables_ok s"
  "tables_ok (s\<lparr>cf_bt := b\<rparr>) = tables_ok s" "tables_ok (s\<lparr>cf_ota := u\<rparr>) = tables_ok s" "tables_ok (s\<lparr>cf_calls := cs\<rparr>) = tables_ok s"
  by (simp_all add: tables_ok_def)

lemma conf_ok_calls [simp]: "conf_ok (cf_call c s) = conf_ok s"
  by (simp add: conf_ok_def cf_call_def keymap_cols_def)

lemma conf_ok_flash [simp]: "conf_ok (set_cf_flash flash s) = conf_ok s"
  by (simp add: conf_ok_def set_cf_flash_def keymap_cols_def bt_ok_def)

lemma conf_ok_ota [simp]: "conf_ok (s\<lparr>cf_ota := u\<rparr>) = conf_ok s"
  by (simp add: conf_ok_def keymap_cols_def)

lemma conf_ok_saved: "saved f s = (s', ok) \<Longrightarrow> conf_ok s' = conf_ok s"
  by (auto simp: saved_def split: prod.splits)

lemma conf_ok_quiet [simp]: "conf_ok (save_quiet f s) = conf_ok s"
  by (simp add: save_quiet_def saved_def split: prod.splits)

lemma conf_ok_layer_name [simp]: "conf_ok (update_layer_name l s) = conf_ok s"
  by (simp add: update_layer_name_def)

lemma conf_ok_bt: "conf_ok s \<Longrightarrow> bt_ok (f (cf_bt s)) \<Longrightarrow> conf_ok (upd_bt f s)"
  by (simp add: conf_ok_def upd_bt_def keymap_cols_def)

lemma conf_ok_stats: "conf_ok s \<Longrightarrow> stats_ok st \<Longrightarrow> conf_ok (s\<lparr>cf_stats := st\<rparr>)"
  by (simp add: conf_ok_def keymap_cols_def)

lemma conf_ok_test [simp]:
  "conf_ok (s\<lparr>matrix_test_mode := m\<rparr>) = conf_ok s" "conf_ok (s\<lparr>matrix_test_last_activity_ms := t\<rparr>) = conf_ok s"
  "conf_ok (tri_layer_set a b c s) = conf_ok s"
  by (simp_all add: conf_ok_def keymap_cols_def tri_layer_set_def)

lemma list_all_update: "list_all P xs \<Longrightarrow> P x \<Longrightarrow> list_all P (xs[i := x])"
  by (auto simp: list_all_iff dest: set_update_subset_insert [THEN subsetD])

lemma dims_set_keymap:
  assumes "dims_ok layers rows cols km"
  shows "dims_ok layers rows cols (km[l := (km ! l)[r := (km ! l ! r)[c := v]]])"
proof (cases "l < layers")
  case True
  then have "length (km ! l) = rows \<and> list_all (\<lambda>x. length x = cols) (km ! l)"
    using assms by (simp add: dims_ok_def list_all_length)
  then have "length ((km ! l)[r := (km ! l ! r)[c := v]]) = rows \<and>
      list_all (\<lambda>x. length x = cols) ((km ! l)[r := (km ! l ! r)[c := v]])"
    by (cases "r < length (km ! l)") (auto simp: list_all_length nth_list_update)
  then show ?thesis using assms by (auto simp: dims_ok_def intro!: list_all_update)
qed (use assms in \<open>auto simp: dims_ok_def list_update_beyond\<close>)

lemma dims_cols: "dims_ok LAYERS rows cols km \<Longrightarrow> 0 < rows \<Longrightarrow> length (km ! 0 ! 0) = cols"
  by (simp add: dims_ok_def list_all_length LAYERS_def)

lemma conf_ok_set_keymap:
  assumes "conf_ok s"
  shows "conf_ok (set_keymap l r c v s)" "keymap_cols (set_keymap l r c v s) = keymap_cols s"
proof -
  have d: "dims_ok LAYERS (matrix_rows s) (keymap_cols s) (kp_keymaps (set_keymap l r c v s))"
    using dims_set_keymap assms by (simp add: conf_ok_def set_keymap_def)
  then show k: "keymap_cols (set_keymap l r c v s) = keymap_cols s"
    using dims_cols [OF d] assms by (simp add: conf_ok_def keymap_cols_def)
  show "conf_ok (set_keymap l r c v s)" using assms d k
    by (simp add: conf_ok_def) (simp add: set_keymap_def)
qed

lemma put_name_ok:
  assumes "nlen < length arr" "nlen \<le> length src"
  shows "length (put_name nlen src arr) = length arr" "string_ok (put_name nlen src arr)"
  using assms set_update_memI [of nlen "mem_write 0 (take nlen src) arr" 0] by (simp_all add: put_name_def string_ok_def)

lemma conf_ok_names:
  assumes "conf_ok s" "l < LAYERS" "nlen < MAX_LAYOUT_NAME_LENGTH" "nlen \<le> length src"
  shows "conf_ok (s\<lparr>layout_names := (layout_names s)[l := put_name nlen src (layout_names s ! l)]\<rparr>)"
proof -
  have "length (layout_names s ! l) = MAX_LAYOUT_NAME_LENGTH"
    using assms(1,2) by (simp add: conf_ok_def names_ok_def list_all_length)
  then show ?thesis using assms put_name_ok [of nlen "layout_names s ! l" src]
    by (simp add: conf_ok_def keymap_cols_def names_ok_def list_all_update)
qed

lemma conf_ok_macros:
  assumes "conf_ok s" "macros_ok ms" "list_all (\<lambda>m. string_ok (mt_name m)) ms" "n \<le> MAX_MACROS"
  shows "conf_ok (set_macros ms n s)"
  using assms by (simp add: conf_ok_def set_macros_def keymap_cols_def)

lemma recalc_bound: "recalc_macros_count ms \<le> MAX_MACROS"
  by (auto simp: recalc_macros_count_def find_Some_iff rev_nth split: option.splits)

lemma macros_update:
  assumes "conf_ok s" "macro_ok m" "string_ok (mt_name m)"
  shows "macros_ok ((macros_list s)[i := m])" "list_all (\<lambda>m. string_ok (mt_name m)) ((macros_list s)[i := m])"
  using assms by (simp_all add: conf_ok_def macros_ok_def list_all_update)

lemma conf_ok_put_macro:
  assumes "conf_ok s" "slot < MAX_MACROS" "macro_ok m" "string_ok (mt_name m)"
  shows "conf_ok (put_macro slot m s)"
  unfolding put_macro_def using assms macros_update [OF assms(1,3,4)]
  by (intro conf_ok_macros) (simp_all add: conf_ok_def)

lemma macro_name_len_ok: "macro_name_len n < MAX_MACRO_NAME_LENGTH" "macro_name_len n \<le> unat n"
  by (auto simp: macro_name_len_def MAX_MACRO_NAME_LENGTH_def)

lemma macro_at: "conf_ok s \<Longrightarrow> slot < MAX_MACROS \<Longrightarrow> length (mt_name (macros_list s ! slot)) = MAX_MACRO_NAME_LENGTH"
  by (simp add: conf_ok_def macros_ok_def macro_ok_def list_all_length)

lemma conf_ok_macros_saved: "macros_saved e s = (s', r) \<Longrightarrow> conf_ok s' = conf_ok s"
  by (auto simp: macros_saved_def conf_ok_saved split: prod.splits)

lemma conf_ok_tables:
  "conf_ok s \<Longrightarrow> length a = 4 \<Longrightarrow> conf_ok (tap_dance_set i a s)"
  "conf_ok s \<Longrightarrow> conf_ok (combo_set i c s)"
  "conf_ok s \<Longrightarrow> length (le_sequence en) = LEADER_MAX_SEQ_LEN \<Longrightarrow> conf_ok (leader_set i en s)"
  "conf_ok s \<Longrightarrow> conf_ok (key_override_set i ko s)"
  by (simp_all add: conf_ok_def tap_dance_set_def combo_set_def leader_set_def key_override_set_def keymap_cols_def
      tables_ok_def rows_ok_def list_all_update)

lemma conf_ok_layer:
  "conf_ok s \<Longrightarrow> unat l < LAYERS \<Longrightarrow> conf_ok (layer_changed (s\<lparr>current_layout := l\<rparr>))"
  by (simp add: conf_ok_def layer_changed_def key_ok_def layers_ok_def shape_def in_matrix_def queue_ok_def
      keymap_cols_def tables_ok_def)

lemma square_zero [simp]: "square n m (replicate n (replicate m x))"
  by (simp add: square_def)

lemma stats_ok_reset: "stats_ok st \<Longrightarrow> stats_ok (reset_key_stats rc io t st)" "stats_ok st \<Longrightarrow> stats_ok (reset_bigram_stats st)"
  by (simp_all add: stats_ok_def reset_key_stats_def reset_bigram_stats_def save_key_stats_def NUM_KEYS_def Let_def split: nvs_rc.splits)

lemma conf_ok_stats_flash [simp]:
  "conf_ok (s\<lparr>cf_stats := (cf_stats s)\<lparr>ks_flash_stats := t\<rparr>\<rparr>) = conf_ok s"
  "conf_ok (s\<lparr>cf_stats := (cf_stats s)\<lparr>ks_flash_total := n\<rparr>\<rparr>) = conf_ok s"
  by (simp_all add: conf_ok_def stats_ok_def NUM_KEYS_def keymap_cols_def)

lemma conf_ok_erase [simp]: "conf_ok (erase_keys rc n ks s) = conf_ok s"
  by (induction rc n ks s rule: erase_keys.induct) simp_all

section \<open>Every command keeps the shape\<close>

lemma keep_keymap:
  assumes "conf_ok s"
  shows "conf_ok (fst (bin_cmd_setkey e cmd p s))" "conf_ok (fst (bin_cmd_setlayer e cmd p s))"
    "conf_ok (fst (bin_cmd_layer_index e cmd p s))"
proof -
  have folded: "conf_ok (fold (\<lambda>(r, c) t. set_keymap l r c (g r c t) t) cs s)" for l cs g
    by (rule fold_inv) (auto simp: conf_ok_set_keymap assms)
  show "conf_ok (fst (bin_cmd_setkey e cmd p s))"
    by (auto simp: bin_cmd_setkey_def Let_def conf_ok_saved conf_ok_set_keymap assms split: prod.splits)
  show "conf_ok (fst (bin_cmd_setlayer e cmd p s))"
    using folded by (auto simp: bin_cmd_setlayer_def Let_def conf_ok_saved assms split: prod.splits)
  show "conf_ok (fst (bin_cmd_layer_index e cmd p s))"
    by (auto simp: bin_cmd_layer_index_def Let_def not_le assms intro!: conf_ok_layer)
qed

lemma keep_name:
  assumes "conf_ok s"
  shows "conf_ok (fst (bin_cmd_set_layout_name e cmd p s))"
proof -
  let ?n = "if length p - 1 \<ge> MAX_LAYOUT_NAME_LENGTH then MAX_LAYOUT_NAME_LENGTH - 1 else length p - 1"
  have "?n < MAX_LAYOUT_NAME_LENGTH" "?n \<le> length (drop 1 p)" by (auto simp: MAX_LAYOUT_NAME_LENGTH_def)
  then show ?thesis using assms conf_ok_names [OF assms, of "unat (p ! 0)" ?n "drop 1 p"]
    by (auto simp: bin_cmd_set_layout_name_def Let_def conf_ok_saved simp del: drop_Suc split: prod.splits)
qed

lemma keep_macros:
  assumes "conf_ok s"
  shows "conf_ok (fst (bin_cmd_macro_add e cmd p s))" "conf_ok (fst (bin_cmd_macro_add_seq e cmd p s))"
    "conf_ok (fst (bin_cmd_macro_delete e cmd p s))"
proof -
  let ?slot = "unat (p ! 0)" and ?n = "macro_name_len (p ! 1)"
  let ?name = "put_name ?n (drop 2 p) (mt_name (macros_list s ! ?slot))"
  have name: "length ?name = MAX_MACRO_NAME_LENGTH" "string_ok ?name"
    if "?slot < MAX_MACROS" "2 + unat (p ! 1) \<le> length p"
    using put_name_ok [of ?n "mt_name (macros_list s ! ?slot)" "drop 2 p"] macro_at [OF assms that(1)]
      macro_name_len_ok [of "p ! 1"] that(2) by simp_all
  have put: "conf_ok (fst (macros_saved e (put_macro ?slot m s)))" if "?slot < MAX_MACROS" "macro_ok m" "string_ok (mt_name m)" for m
    using conf_ok_put_macro [OF assms that] conf_ok_macros_saved [of e "put_macro ?slot m s"]
    by (cases "macros_saved e (put_macro ?slot m s)") simp
  show "conf_ok (fst (bin_cmd_macro_add e cmd p s))"
    using assms name by (auto simp: bin_cmd_macro_add_def Let_def not_le not_less macro_ok_def intro!: put)
  show "conf_ok (fst (bin_cmd_macro_add_seq e cmd p s))"
    using assms name by (auto simp: bin_cmd_macro_add_seq_def Let_def not_le not_less macro_ok_def intro!: put)
  let ?cleared = "\<lparr>mt_name = (mt_name (macros_list s ! ?slot))[0 := 0], mt_steps = replicate MACRO_MAX_STEPS (0, 0),
      mt_keys = replicate 6 0, mt_key_definition = macro_kc_from_index ?slot\<rparr>"
  have del: "conf_ok (fst (macros_saved e (set_macros ms (recalc_macros_count ms) s)))"
    if "macros_ok ms" "list_all (\<lambda>m. string_ok (mt_name m)) ms" for ms
    using conf_ok_macros [OF assms that recalc_bound] conf_ok_macros_saved [of e "set_macros ms (recalc_macros_count ms) s"]
    by (cases "macros_saved e (set_macros ms (recalc_macros_count ms) s)") simp
  have cleared: "macro_ok ?cleared" "string_ok (mt_name ?cleared)" if "?slot < MAX_MACROS"
    using macro_at [OF assms that] set_update_memI [of 0 "mt_name (macros_list s ! ?slot)" 0]
    by (simp_all add: macro_ok_def string_ok_def MAX_MACRO_NAME_LENGTH_def)
  show "conf_ok (fst (bin_cmd_macro_delete e cmd p s))"
    using assms del macros_update [OF assms cleared, of ?slot]
    by (auto simp: bin_cmd_macro_delete_def Let_def not_le)
qed

lemma keep_tables:
  assumes "conf_ok s"
  shows "conf_ok (fst (bin_cmd_td_set e cmd p s))" "conf_ok (fst (bin_cmd_td_delete e cmd p s))"
    "conf_ok (fst (bin_cmd_combo_set e cmd p s))" "conf_ok (fst (bin_cmd_combo_delete e cmd p s))"
    "conf_ok (fst (bin_cmd_leader_set e cmd p s))" "conf_ok (fst (bin_cmd_leader_delete e cmd p s))"
    "conf_ok (fst (bin_cmd_ko_set e cmd p s))" "conf_ok (fst (bin_cmd_ko_delete e cmd p s))"
  using assms
  by (simp_all add: bin_cmd_td_set_def bin_cmd_td_delete_def bin_cmd_combo_set_def bin_cmd_combo_delete_def
      bin_cmd_leader_set_def bin_cmd_leader_delete_def bin_cmd_ko_set_def bin_cmd_ko_delete_def conf_ok_tables
      Let_def leader_zero_def LEADER_MAX_SEQ_LEN_def)

lemma keep_bt:
  assumes "conf_ok s"
  shows "conf_ok (fst (bin_cmd_bt_switch e cmd p s))" "conf_ok (fst (bin_cmd_bt_pair e cmd p s))"
    "conf_ok (fst (bin_cmd_bt_disconnect e cmd p s))" "conf_ok (fst (bin_cmd_bt_next e cmd p s))"
    "conf_ok (fst (bin_cmd_bt_prev e cmd p s))"
proof -
  have "bt_ok (cf_bt s)" using assms by (simp add: conf_ok_def)
  then show "conf_ok (fst (bin_cmd_bt_switch e cmd p s))" "conf_ok (fst (bin_cmd_bt_pair e cmd p s))"
    "conf_ok (fst (bin_cmd_bt_disconnect e cmd p s))" "conf_ok (fst (bin_cmd_bt_next e cmd p s))"
    "conf_ok (fst (bin_cmd_bt_prev e cmd p s))"
    using assms by (auto simp: bin_cmd_bt_switch_def bin_cmd_bt_pair_def bin_cmd_bt_disconnect_def bin_cmd_bt_next_def
        bin_cmd_bt_prev_def bt_next_device_def bt_prev_device_def bt_ok_switch bt_ok_pairing intro!: conf_ok_bt)
qed

lemma keep_rest:
  assumes "conf_ok s"
  shows "conf_ok (fst (bin_cmd_matrix_test e cmd p s))" "conf_ok (fst (bin_cmd_nvs_reset e cmd p s))"
    "conf_ok (fst (bin_cmd_keystats_reset e cmd p s))" "conf_ok (fst (bin_cmd_bigrams_reset e cmd p s))"
    "conf_ok (fst (bin_cmd_trilayer e cmd p s))" "conf_ok (fst (with_ota f s))"
  using assms
  by (auto simp: bin_cmd_matrix_test_def bin_cmd_nvs_reset_def bin_cmd_keystats_reset_def bin_cmd_bigrams_reset_def
      bin_cmd_trilayer_def with_ota_def Let_def split: prod.splits intro!: conf_ok_stats stats_ok_reset)
    (simp_all add: conf_ok_def)

lemmas read_only_defs = bin_cmd_ping_def bin_cmd_version_def bin_cmd_features_def bin_cmd_dfu_def bin_cmd_keymap_get_def
  bin_cmd_layer_name_def bin_cmd_list_layouts_def bin_cmd_layout_json_def bin_cmd_bt_query_def bin_cmd_tama_query_def
  bin_cmd_tama_def bin_cmd_autoshift_def bin_cmd_wpm_def bin_cmd_list_macros_def bin_cmd_keystats_bin_def
  bin_cmd_keystats_text_def bin_cmd_bigrams_bin_def bin_cmd_bigrams_text_def bin_cmd_td_list_def bin_cmd_combo_list_def
  bin_cmd_leader_list_def bin_cmd_ko_list_def bin_cmd_monitor_def

lemma commands_keep_shape:
  "conf_ok s \<Longrightarrow> conf_ok (fst (run_cmd h e cmd p s))"
  by (cases h) (simp_all add: keep_keymap keep_name keep_macros keep_tables keep_bt keep_rest,
      simp_all add: read_only_defs Let_def split: prod.splits)


section \<open>The answers have the length they announce\<close>

lemma length_slots [simp]: "length (slots_where n used) \<le> n"
  using length_filter_le [of used "map u8_of_nat [0..<n]"] by (simp add: slots_where_def)

lemma count_where_slots: "count_where n used = word_of_nat (length (slots_where n used))"
  by (induction n) (simp_all add: count_where_def slots_where_def)

lemma wide_count: "k < 256 \<Longrightarrow> (ucast (word_of_nat k :: u8) :: u16) = word_of_nat k"
  by (simp add: unsigned_of_nat take_bit_nat_eq_self)

lemma length_concat_same: "(\<And>x. x \<in> set xs \<Longrightarrow> length (f x) = k) \<Longrightarrow> length (concat (map f xs)) = length xs * k"
  by (induction xs) simp_all

lemma length_concat_sum: "length (concat (concat (map f xs))) = sum_list (map (\<lambda>x. length (concat (f x))) xs)"
  by (induction xs) simp_all

lemma fold_total:
  "(\<And>x t. x \<in> set xs \<Longrightarrow> g x t = t + (word_of_nat (h x) :: u16)) \<Longrightarrow>
     fold g xs a = a + word_of_nat (sum_list (map h xs))"
  by (induction xs arbitrary: a) (simp_all add: algebra_simps)

lemma sum_filter: "sum_list (map (\<lambda>x. if P x then f x else (0 :: nat)) xs) = sum_list (map f (filter P xs))"
  by (induction xs) simp_all

lemma length_cells: "length [(r, c). r \<leftarrow> [0..<n], c \<leftarrow> [0..<m]] = n * m"
  by (induction n) simp_all

lemma list_of_slots:
  assumes "n \<le> 16" "\<And>i. length (f i) = k"
  shows "reply_true (Stream (1 + ucast (count_where n used) * word_of_nat k)
     ([count_where n used] # map f (slots_where n used)))"
proof -
  have "length (slots_where n used) < 256" using length_slots [of n used] assms(1) by linarith
  then show ?thesis by (simp add: count_where_slots wide_count length_concat_same [where k = k] assms(2))
qed

lemma true_keymap: "reply_true (snd (bin_cmd_keymap_get e cmd p s))"
proof -
  have "length (concat (map (\<lambda>(r, c). u16_bytes (kp_keymaps s ! l ! r ! c)) (layer_cells s))) = matrix_rows s * keymap_cols s * 2" for l
    using length_concat_same [of "layer_cells s" "\<lambda>(r, c). u16_bytes (kp_keymaps s ! l ! r ! c)" 2]
      length_cells [where n = "matrix_rows s" and m = "keymap_cols s"] by (auto simp: layer_cells_def)
  then show ?thesis by (simp add: bin_cmd_keymap_get_def Let_def)
qed

lemma c_str_le: "length (c_str a) \<le> length a"
  by (simp add: c_str_def length_takeWhile_le)

lemma small_u8: "n < 256 \<Longrightarrow> unat (u8_of_nat n) = n"
  by (simp add: u8_of_nat_def unat_of_nat)

lemma true_names:
  assumes "conf_ok s"
  shows "reply_true (snd (bin_cmd_list_layouts e cmd p s))" "reply_true (snd (bin_cmd_layer_name e cmd p s))"
proof -
  have short: "length (c_str (layout_names s ! i)) < 256" if "i < LAYERS" for i
    using assms that c_str_le [of "layout_names s ! i"]
    by (simp add: conf_ok_def names_ok_def list_all_length MAX_LAYOUT_NAME_LENGTH_def)
  have parts: "length (concat (name_parts s i)) = 2 + length (c_str (layout_names s ! i))" if "i < LAYERS" for i
    using short [OF that] by (simp add: name_parts_def Let_def small_u8)
  have "fold (\<lambda>i total. total + 2 + word_of_nat (length (c_str (layout_names s ! i)))) [0..<LAYERS] 1 =
      (1 :: u16) + word_of_nat (sum_list (map (\<lambda>i. length (concat (name_parts s i))) [0..<LAYERS]))"
    by (rule fold_total) (simp add: parts)
  then show "reply_true (snd (bin_cmd_list_layouts e cmd p s))"
    by (simp add: bin_cmd_list_layouts_def length_concat_sum)
  show "reply_true (snd (bin_cmd_layer_name e cmd p s))" by (simp add: bin_cmd_layer_name_def Let_def)
qed

lemma chunks_concat: "concat (map (\<lambda>i. take m (drop (i * m) xs)) [0..<n]) = take (n * m) xs"
  by (induction n) (simp_all add: take_add add.commute [of m])

lemma true_json: "reply_true (snd (bin_cmd_layout_json e cmd p s))"
proof -
  have "n \<le> (n + 255) div 256 * 256" for n :: nat 
    using div_mult_mod_eq [of "n + 255" 256] mod_less_divisor [of 256 "n + 255"] by linarith
  then show ?thesis by (simp add: bin_cmd_layout_json_def Let_def chunks_concat del: of_nat_mod)
qed

lemma true_bt:
  assumes "conf_ok s"
  shows "reply_true (snd (bin_cmd_bt_query e cmd p s))"
proof -
  let ?sl = "\<lambda>i. bt_get_slot (u8_of_nat i) (cf_bt s)"
  let ?len = "\<lambda>i. 9 + (if slot_valid (?sl i) then length (slot_name (?sl i)) else 0)"
  have parts: "length (concat (bt_slot_parts s i)) = ?len i" if "i < BT_MAX_DEVICES" for i
  proof -
    have sl: "?sl i = Some (bt_slots (cf_bt s) ! i)" "slot_ok (bt_slots (cf_bt s) ! i)"
      using assms that small_u8 [of i] by (auto simp: bt_get_slot_def conf_ok_def bt_ok_def slots_ok_def list_all_length BT_MAX_DEVICES_def)
    then have "length (slot_name (?sl i)) < 256"
      using c_str_le [of "bd_name (bt_slots (cf_bt s) ! i)"] by (simp add: slot_name_def slot_ok_def BT_DEVICE_NAME_MAX_def)
    then have n: "unat (u8_of_nat (length (slot_name (?sl i)))) = length (slot_name (?sl i))" by (rule small_u8)
    then have "u8_of_nat (length (slot_name (?sl i))) = 0 \<longleftrightarrow> slot_name (?sl i) = []"
      by (metis length_0_conv unat_0 unat_eq_zero)
    then show ?thesis using sl n by (auto simp: bt_slot_parts_def Let_def slot_ok_def)
  qed
  have "fold (\<lambda>i total. let sl = ?sl i in total + 8 + (if slot_valid sl then word_of_nat (length (slot_name sl)) else 0) + 1)
      [0..<BT_MAX_DEVICES] 4 = (4 :: u16) + word_of_nat (sum_list (map (\<lambda>i. length (concat (bt_slot_parts s i))) [0..<BT_MAX_DEVICES]))"
    by (rule fold_total) (simp add: Let_def parts)
  then show ?thesis by (simp add: bin_cmd_bt_query_def Let_def length_concat_sum)
qed

lemma true_stats: "reply_true (snd (bin_cmd_keystats_bin e cmd p s))" "reply_true (snd (bin_cmd_bigrams_bin e cmd p s))"
proof -
  let ?st = "cf_stats s"
  have "length (concat [u32_le (ks_stats ?st ! r ! c). r \<leftarrow> [0..<n], c \<leftarrow> [0..<m]]) = n * m * 4" for n m
    by (induction n) (simp_all add: length_concat_same [where k = 4])
  then show "reply_true (snd (bin_cmd_keystats_bin e cmd p s))" by (simp add: bin_cmd_keystats_bin_def Let_def)
  have "length (concat (map (\<lambda>(prev, cur, cnt). prev # cur # u16_bytes cnt) es)) = length es * 4" for es :: "bg list"
    by (rule length_concat_same) auto
  then show "reply_true (snd (bin_cmd_bigrams_bin e cmd p s))" by (simp add: bin_cmd_bigrams_bin_def Let_def)
qed

lemma true_tables:
  "reply_true (snd (bin_cmd_td_list e cmd p s))" "reply_true (snd (bin_cmd_combo_list e cmd p s))"
  "reply_true (snd (bin_cmd_ko_list e cmd p s))"
proof -
  show "reply_true (snd (bin_cmd_td_list e cmd p s))"
    using list_of_slots [of TAP_DANCE_MAX_SLOTS _ 5] by (simp add: bin_cmd_td_list_def Let_def TAP_DANCE_MAX_SLOTS_def del: reply_true.simps)
  show "reply_true (snd (bin_cmd_combo_list e cmd p s))"
    using list_of_slots [of COMBO_MAX_SLOTS _ 6] by (simp add: bin_cmd_combo_list_def Let_def COMBO_MAX_SLOTS_def combo_bytes_def del: reply_true.simps)
  show "reply_true (snd (bin_cmd_ko_list e cmd p s))"
    using list_of_slots [of KEY_OVERRIDE_MAX_SLOTS _ 5] by (simp add: bin_cmd_ko_list_def Let_def KEY_OVERRIDE_MAX_SLOTS_def override_bytes_def del: reply_true.simps)
qed

lemma true_leader: "reply_true (snd (bin_cmd_leader_list e cmd p s))"
proof -
  let ?used = "\<lambda>i. leader_used (leader_get i s)" and ?e = "\<lambda>i. the (leader_get i s)"
  have short: "entry_seq_len en \<le> length (le_sequence en)" for en
    using length_takeWhile_le [of "\<lambda>k. k \<noteq> 0" "take LEADER_MAX_SEQ_LEN (le_sequence en)"]
    by (simp add: entry_seq_len_def)
  have "fold (\<lambda>i total. if ?used i then total + 2 + word_of_nat (entry_seq_len (?e i)) + 2 else total) xs 1 =
      (1 :: u16) + word_of_nat (sum_list (map (\<lambda>i. if ?used i then 4 + entry_seq_len (?e i) else 0) xs))" for xs
    by (rule fold_total) simp
  then show ?thesis
    by (simp add: bin_cmd_leader_list_def Let_def length_concat_sum sum_filter slots_where_def short min_absorb2 add.commute
        numeral_eq_Suc del: map_map)
qed

lemma true_quick:
  "reply_true (Respond st b)" "reply_true (storage_reply ok)" "reply_true (snd (macros_saved e s))"
  by (simp_all add: storage_reply_def macros_saved_def split: prod.splits)

lemma true_ota:
  "reply_true (snd (bin_cmd_ota_start oe p u))" "reply_true (snd (bin_cmd_ota_data oe p u))" "reply_true (snd (bin_cmd_ota_abort u))"
  by (simp_all add: bin_cmd_ota_start_def bin_cmd_ota_data_def bin_cmd_ota_abort_def progress_def Let_def split: prod.splits bool.splits)

lemma true_with_ota: "(\<And>u. reply_true (snd (f u))) \<Longrightarrow> reply_true (snd (with_ota f s))"
  by (simp add: with_ota_def split: prod.splits) (metis snd_conv)

lemmas responder_defs = bin_cmd_ping_def bin_cmd_version_def bin_cmd_features_def bin_cmd_dfu_def bin_cmd_tama_query_def
  bin_cmd_tama_def bin_cmd_autoshift_def bin_cmd_wpm_def bin_cmd_keystats_text_def bin_cmd_bigrams_text_def
  bin_cmd_monitor_def bin_cmd_layer_index_def bin_cmd_setkey_def bin_cmd_setlayer_def bin_cmd_set_layout_name_def
  bin_cmd_bt_switch_def bin_cmd_bt_pair_def bin_cmd_bt_disconnect_def bin_cmd_bt_next_def bin_cmd_bt_prev_def
  bin_cmd_trilayer_def bin_cmd_macro_add_def bin_cmd_macro_add_seq_def bin_cmd_macro_delete_def bin_cmd_keystats_reset_def
  bin_cmd_bigrams_reset_def bin_cmd_td_set_def bin_cmd_td_delete_def bin_cmd_combo_set_def bin_cmd_combo_delete_def
  bin_cmd_leader_set_def bin_cmd_leader_delete_def bin_cmd_ko_set_def bin_cmd_ko_delete_def bin_cmd_matrix_test_def
  bin_cmd_nvs_reset_def

lemma replies_true:
  "conf_ok s \<Longrightarrow> h \<noteq> CmdListMacros \<Longrightarrow> reply_true (snd (run_cmd h e cmd p s))"
  by (cases h) (simp_all add: true_keymap true_names true_json true_bt true_stats true_tables true_leader true_with_ota
      true_ota, simp_all add: responder_defs Let_def true_quick split: prod.splits)


section \<open>A keyboard after a start\<close>

definition conf_boot :: "nat \<Rightarrow> nat \<Rightarrow> u16 list list list \<Rightarrow> bytes list \<Rightarrow> macro_t list \<Rightarrow> kv \<Rightarrow> conf" where
  "conf_boot rows cols km names ms flash =
     kb.extend (kb_boot rows cols km (map macro_view ms))
       (conf.fields names ms (recalc_macros_count ms) (key_stats_boot rows cols None None) (bt_boot flash) ota_init [])"

lemma conf_boot_fields [simp]:
  "kp_keymaps (conf_boot rows cols km names ms flash) = km" "matrix_rows (conf_boot rows cols km names ms flash) = rows"
  "layout_names (conf_boot rows cols km names ms flash) = names" "macros_list (conf_boot rows cols km names ms flash) = ms"
  "kp_macros (conf_boot rows cols km names ms flash) = map macro_view ms"
  "macros_count (conf_boot rows cols km names ms flash) = recalc_macros_count ms"
  "cf_stats (conf_boot rows cols km names ms flash) = key_stats_boot rows cols None None"
  "cf_bt (conf_boot rows cols km names ms flash) = bt_boot flash"
  "cf_ota (conf_boot rows cols km names ms flash) = ota_init" "cf_calls (conf_boot rows cols km names ms flash) = []"
  by (simp_all add: conf_boot_def kb.defs conf.defs kb_boot_def keyboard_manager_init_def hid_report_init_def
      key_override_init_def leader_init_def combo_init_def tap_dance_init_def tap_hold_init_def kb_statics_def)

lemma conf_boot_key: "kb.truncate (conf_boot rows cols km names ms flash) = kb_boot rows cols km (map macro_view ms)"
  by (simp add: conf_boot_def kb.defs conf.defs)

lemma conf_boot_tables: "tables_ok (conf_boot rows cols km names ms flash)"
  by (simp add: conf_boot_def kb.defs conf.defs kb_boot_def keyboard_manager_init_def hid_report_init_def
      key_override_init_def leader_init_def combo_init_def tap_dance_init_def tap_hold_init_def kb_statics_def
      tables_ok_def rows_ok_def leader_zero_def LEADER_MAX_SEQ_LEN_def list_all_iff)

lemma conf_boot_ok:
  assumes "0 < rows" "0 < cols" "dims_ok LAYERS rows keycols km" "names_ok LAYERS names" "list_all string_ok names"
    and "macros_ok ms" "list_all (\<lambda>m. string_ok (mt_name m)) ms"
  shows "conf_ok (conf_boot rows cols km names ms flash)"
proof -
  have "keymap_cols (conf_boot rows cols km names ms flash) = keycols"
    using dims_cols [OF assms(3,1)] by (simp add: keymap_cols_def)
  moreover have "bt_ok (bt_boot flash)"
    by (simp add: bt_ok_def bt_boot_def slots_ok_def BT_MAX_DEVICES_def list_all_iff)
  moreover have "stats_ok (key_stats_boot rows cols None None)"
    by (simp add: stats_ok_def key_stats_boot_def NUM_KEYS_def)
  ultimately show ?thesis using assms kb_boot_ok [OF assms(1,2)]
    by (simp add: conf_ok_def key_ok_kb conf_boot_key recalc_bound conf_boot_tables)
qed

definition demo_conf :: conf where
  "demo_conf = conf_boot 4 12 (demo_map 4 4 12) (replicate LAYERS (0x41 # replicate 14 0)) (replicate MAX_MACROS (demo_macro 4))
     (\<lambda>_. None)"

lemma demo_macro_string [simp]: "string_ok (mt_name (demo_macro k))"
  by (simp add: string_ok_def demo_macro_def)

lemma demo_conf_ok: "conf_ok demo_conf"
  unfolding demo_conf_def
  by (rule conf_boot_ok [where keycols = 12])
    (simp_all add: demo_map_ok demo_macros_ok names_ok_def MAX_LAYOUT_NAME_LENGTH_def list_all_iff, simp add: string_ok_def)

definition demo_cmd_env :: cmd_env where
  "demo_cmd_env = \<lparr>ce_rc = all_ok, ce_ota = ota_fine, ce_now = 0, ce_heap = 0, ce_usb_ready = True, ce_malloc = True,
     ce_stack = replicate TEXT_BUF 0, ce_version = [0x31], ce_layout_json = [0x7B, 0x7D], ce_module_id = 1\<rparr>"

definition demo_cdc :: "cmd_name ks_cdc" where
  "demo_cdc = cdc_binary_cmds_init True ks_cdc_init"

lemma demo_cdc_ok: "sink_ok demo_cdc" "\<not> resp_redirect demo_cdc"
  by (simp_all add: demo_cdc_def cdc_binary_cmds_init_def ks_register_binary_commands_def ks_cdc_init_def sink_ok_def)

section \<open>Sequences of requests\<close>

definition host_session :: "(cmd_env \<times> u8 \<times> bytes) list \<Rightarrow> cmd_name ks_cdc \<times> conf \<Rightarrow> cmd_name ks_cdc \<times> conf" where
  "host_session reqs = fold (\<lambda>(e, cmd, p). conf_command e cmd p) reqs"

lemma command_ok: "conf_ok s \<Longrightarrow> conf_ok (snd (conf_command e cmd p (cdc, s)))"
  using commands_keep_shape [of s] by (auto simp: conf_command_def split: option.splits prod.splits) (metis fst_conv)



section \<open>Requests that are refused\<close>

lemma refused_ota:
  "reply_status (snd (bin_cmd_ota_start oe p u)) \<in> {KS_STATUS_ERR_INVALID, KS_STATUS_ERR_RANGE} \<Longrightarrow> fst (bin_cmd_ota_start oe p u) = u"
  "reply_status (snd (bin_cmd_ota_data oe p u)) \<in> {KS_STATUS_ERR_INVALID, KS_STATUS_ERR_RANGE} \<Longrightarrow> fst (bin_cmd_ota_data oe p u) = u"
  "reply_status (snd (bin_cmd_ota_abort u)) \<in> {KS_STATUS_ERR_INVALID, KS_STATUS_ERR_RANGE} \<Longrightarrow> fst (bin_cmd_ota_abort u) = u"
  by (auto simp: bin_cmd_ota_start_def bin_cmd_ota_data_def bin_cmd_ota_abort_def progress_def Let_def
      split: prod.splits bool.splits if_splits)

lemma refused_with_ota:
  assumes "\<And>u. reply_status (snd (f u)) \<in> {KS_STATUS_ERR_INVALID, KS_STATUS_ERR_RANGE} \<Longrightarrow> fst (f u) = u"
  shows "reply_status (snd (with_ota f s)) \<in> {KS_STATUS_ERR_INVALID, KS_STATUS_ERR_RANGE} \<Longrightarrow> fst (with_ota f s) = s"
  using assms [of "cf_ota s"] by (auto simp: with_ota_def split: prod.splits)

lemma not_refused [simp]:
  "reply_status (storage_reply ok) \<noteq> KS_STATUS_ERR_INVALID" "reply_status (storage_reply ok) \<noteq> KS_STATUS_ERR_RANGE"
  "reply_status (snd (macros_saved e s)) \<noteq> KS_STATUS_ERR_INVALID" "reply_status (snd (macros_saved e s)) \<noteq> KS_STATUS_ERR_RANGE"
  by (simp_all add: storage_reply_def macros_saved_def split: prod.splits)

text \<open>
  C25: A request that is answered as invalid or out of range has changed nothing at all: every handler checks
  its payload before it touches the keyboard.
\<close>

theorem refused_request_changes_nothing:
  assumes "run_cmd h e cmd p s = (s', r)" "reply_status r \<in> {KS_STATUS_ERR_INVALID, KS_STATUS_ERR_RANGE}"
  shows "s' = s"
proof -
  have "reply_status (snd (run_cmd h e cmd p s)) \<in> {KS_STATUS_ERR_INVALID, KS_STATUS_ERR_RANGE} \<longrightarrow> fst (run_cmd h e cmd p s) = s"
  proof (cases h)
    case CmdOtaStart
    then show ?thesis using refused_with_ota [of "bin_cmd_ota_start (ce_ota e) p"] refused_ota(1) by simp
  next
    case CmdOtaData
    then show ?thesis using refused_with_ota [of "bin_cmd_ota_data (ce_ota e) p"] refused_ota(2) by simp
  next
    case CmdOtaAbort
    then show ?thesis using refused_with_ota [of bin_cmd_ota_abort] refused_ota(3) by simp
  qed (simp_all add: responder_defs read_only_defs Let_def split: prod.splits)
  then show ?thesis using assms by auto
qed

lemma refused_request_changes_nothing_witness:
  "run_cmd CmdSetKey demo_cmd_env 0x11 [200, 0, 0, 4, 0] demo_conf = (demo_conf, Err KS_STATUS_ERR_RANGE)"
proof -
  have r: "snd (run_cmd CmdSetKey demo_cmd_env 0x11 [200, 0, 0, 4, 0] demo_conf) = Err KS_STATUS_ERR_RANGE"
    by (simp add: bin_cmd_setkey_def LAYERS_def)
  obtain s' r' where run: "run_cmd CmdSetKey demo_cmd_env 0x11 [200, 0, 0, 4, 0] demo_conf = (s', r')" by fastforce
  then show ?thesis using refused_request_changes_nothing [OF run] r by (auto simp: prod_eq_iff)
qed


section \<open>One request, one answer\<close>

definition gap :: "macro_t \<Rightarrow> nat" where
  "gap m = step_count m - length (written_steps m)"

lemma take_while_filter: "length (takeWhile P xs) \<le> length (filter P xs)"
  by (induction xs) auto

lemma written_le: "length (written_steps m) \<le> step_count m"
  by (simp add: written_steps_def step_count_def take_while_filter)

lemma macro_parts_length: "length (concat (macro_parts i m)) + 2 * gap m = macro_total m"
proof -
  have "length (concat (map (\<lambda>(kc, md). [kc, md]) (written_steps m))) = length (written_steps m) * 2"
    by (rule length_concat_same) auto
  then show ?thesis using written_le [of m] by (auto simp: macro_parts_def macro_total_def gap_def)
qed

lemma sum_split: "sum_list (map (\<lambda>x. f x + 2 * g x) xs) = sum_list (map f xs) + 2 * sum_list (map g xs :: nat list)"
  by (induction xs) simp_all

definition macro_list_total :: "conf \<Rightarrow> nat" where
  "macro_list_total s = 1 + sum_list (map (\<lambda>i. macro_total (macros_list s ! i)) (named_slots s))"

definition macro_list_parts :: "conf \<Rightarrow> bytes list" where
  "macro_list_parts s = [u8_of_nat (length (named_slots s))] #
     concat (map (\<lambda>i. macro_parts i (macros_list s ! i)) (named_slots s))"

lemma list_macros_reply: "snd (bin_cmd_list_macros e cmd p s) = Stream (word_of_nat (macro_list_total s)) (macro_list_parts s)"
proof -
  have "fold (\<lambda>i total. total + word_of_nat (macro_total (macros_list s ! i))) xs 1 =
      (1 :: u16) + word_of_nat (sum_list (map (\<lambda>i. macro_total (macros_list s ! i)) xs))" for xs
    by (rule fold_total) simp
  then show ?thesis by (simp add: bin_cmd_list_macros_def macro_list_total_def macro_list_parts_def)
qed

lemma macro_list_length:
  "length (concat (macro_list_parts s)) + 2 * sum_list (map (\<lambda>i. gap (macros_list s ! i)) (named_slots s)) = macro_list_total s"
proof -
  have "sum_list (map (\<lambda>i. macro_total (macros_list s ! i)) xs) =
      sum_list (map (\<lambda>i. length (concat (macro_parts i (macros_list s ! i))) + 2 * gap (macros_list s ! i)) xs)" for xs
    by (simp only: macro_parts_length)
  then show ?thesis by (simp add: macro_list_parts_def macro_list_total_def length_concat_sum sum_split)
qed

definition no_gaps :: "conf \<Rightarrow> bool" where
  "no_gaps s \<longleftrightarrow> list_all (\<lambda>i. step_count (macros_list s ! i) = length (written_steps (macros_list s ! i))) (named_slots s)"

lemma true_macros: "no_gaps s \<Longrightarrow> reply_true (snd (bin_cmd_list_macros e cmd p s))"
  using macro_list_length [of s]
  by (simp add: list_macros_reply no_gaps_def list_all_iff gap_def cong: map_cong)

text \<open>
  C16: Every request gets exactly one answer, and the answer is one well-formed frame: the header with the
  length of the payload that follows, the payload, and its checksum, whether the handler answers in one
  piece or streams, for all 51 handlers. The one exception is the list of macros, when a macro has an
  empty step in the middle.
\<close>

theorem one_frame_per_request:
  assumes "conf_ok s" "sink_ok cdc" "\<not> resp_redirect cdc"
    and "find_handler (bin_tables cdc) cmd = Some CmdListMacros \<longrightarrow> no_gaps s"
  shows "usb_out (fst (conf_command e cmd p (cdc, s))) = usb_out cdc @
    (case find_handler (bin_tables cdc) cmd of
       None \<Rightarrow> kr_frame cmd KS_STATUS_ERR_UNKNOWN []
     | Some h \<Rightarrow> let r = snd (run_cmd h e cmd p s) in kr_frame cmd (reply_status r) (reply_payload r))"
proof (cases "find_handler (bin_tables cdc) cmd")
  case None
  then show ?thesis using assms(2,3) by (simp add: conf_command_def ks_respond_err_def ks_respond_emits ks_emit_def usb_write_def)
next
  case (Some h)
  have "reply_true (snd (run_cmd h e cmd p s))"
    using replies_true [OF assms(1)] true_macros assms(4) Some by (cases "h = CmdListMacros") simp_all
  then show ?thesis using Some true_reply_frame [OF assms(2,3)]
    by (auto simp: conf_command_def Let_def split: prod.splits)
qed

lemma one_frame_per_request_witness:
  "usb_out (fst (conf_command demo_cmd_env 0x04 [] (demo_cdc, demo_conf))) = usb_out demo_cdc @ kr_frame 0x04 KS_STATUS_OK []"
proof -
  have h: "find_handler (bin_tables demo_cdc) 0x04 = Some CmdPing"
    by (simp add: demo_cdc_def cdc_binary_cmds_init_def ks_register_binary_commands_def ks_cdc_init_def bin_cmd_table_def
        KS_MAX_BIN_CMD_TABLES_def)
  show ?thesis using one_frame_per_request [OF demo_conf_ok demo_cdc_ok, of "0x04" demo_cmd_env "[]"] h
    by (simp add: bin_cmd_ping_def Let_def)
qed

lemma macro_total_le: "conf_ok s \<Longrightarrow> i < MAX_MACROS \<Longrightarrow> macro_total (macros_list s ! i) \<le> 76"
proof -
  assume "conf_ok s" "i < MAX_MACROS"
  then have "macro_ok (macros_list s ! i)" by (simp add: conf_ok_def macros_ok_def list_all_length)
  then show ?thesis
    using c_str_le [of "mt_name (macros_list s ! i)"] length_filter_le [of "\<lambda>k. k \<noteq> 0" "take 6 (mt_keys (macros_list s ! i))"]
      length_filter_le [of "\<lambda>st. fst st \<noteq> 0" "take MACRO_MAX_STEPS (mt_steps (macros_list s ! i))"]
    by (simp add: macro_total_def macro_ok_def nonzero_keys_def step_count_def MAX_MACRO_NAME_LENGTH_def MACRO_MAX_STEPS_def)
qed

text \<open>
  C26: A macro whose steps have an empty one in the middle, which the host can store with one command,
  breaks the list of macros: all steps are counted and announced, but writing stops at the first empty
  one, so the frame is short by two bytes for every step left out, and the host takes the checksum and the
  next answer for the missing bytes.
\<close>

theorem macro_list_falls_short:
  assumes "conf_ok s" "i < MAX_MACROS" "mt_named (macros_list s ! i)"
    and "step_count (macros_list s ! i) \<noteq> length (written_steps (macros_list s ! i))"
  shows "\<exists>n parts. snd (bin_cmd_list_macros e cmd p s) = Stream n parts \<and>
    unat n = length (concat parts) + 2 * sum_list (map (\<lambda>j. gap (macros_list s ! j)) (named_slots s)) \<and>
    length (concat parts) < unat n"
proof -
  have i: "i \<in> set (named_slots s)" using assms(2,3) by (simp add: named_slots_def)
  then have "gap (macros_list s ! i) \<le> sum_list (map (\<lambda>j. gap (macros_list s ! j)) (named_slots s))"
    by (intro member_le_sum_list) auto
  moreover have "0 < gap (macros_list s ! i)" using assms(4) written_le [of "macros_list s ! i"] by (simp add: gap_def)
  moreover have "macro_list_total s \<le> 1 + length (named_slots s) * 76"
    using macro_total_le [OF assms(1)] sum_list_mono [of "named_slots s" "\<lambda>i. macro_total (macros_list s ! i)" "\<lambda>_. 76"]
    by (auto simp: macro_list_total_def named_slots_def sum_list_triv)
  moreover have "length (named_slots s) \<le> MAX_MACROS"
    using length_filter_le [of "\<lambda>i. mt_named (macros_list s ! i)" "[0..<MAX_MACROS]"] by (simp add: named_slots_def)
  ultimately show ?thesis using macro_list_length [of s]
    by (simp add: list_macros_reply unat_of_nat MAX_MACROS_def)
qed


lemma saved_fields:
  "saved f s = (s', ok) \<Longrightarrow> macros_list s' = macros_list s \<and> kp_keymaps s' = kp_keymaps s \<and> matrix_rows s' = matrix_rows s \<and>
     keymap_cols s' = keymap_cols s \<and> cf_flash s' = fst (f (cf_flash s)) \<and> ok = fst (snd (f (cf_flash s)))"
  by (auto simp: saved_def set_cf_flash_def cf_flash_def keymap_cols_def split: prod.splits)

lemma macros_saved_list: "macros_list (fst (macros_saved e s)) = macros_list s"
  by (auto simp: macros_saved_def dest: saved_fields split: prod.splits)

definition gap_request :: bytes where
  "gap_request = [2, 1, 0x41, 3, 4, 0, 0, 0, 5, 0]"

lemma gap_request_stored:
  "macros_list (fst (bin_cmd_macro_add_seq demo_cmd_env 0x32 gap_request demo_conf)) ! 2 =
     \<lparr>mt_name = put_name 1 (drop 2 gap_request) (mt_name (demo_macro 4)),
      mt_steps = [(4, 0), (0, 0), (5, 0)] @ replicate 21 (0, 0), mt_keys = replicate 6 0,
      mt_key_definition = macro_kc_from_index 2\<rparr>"
proof -
  have p: "length gap_request = 10" "gap_request ! 0 = 2" "gap_request ! 1 = 1" "gap_request ! 3 = 3"
    by (simp_all add: gap_request_def)
  have steps: "map (\<lambda>i. if i < 3 then (drop 4 gap_request ! (i * 2), drop 4 gap_request ! (i * 2 + 1)) else (0, 0)) [0..<24] =
      [(4, 0), (0, 0), (5, 0)] @ replicate 21 (0, 0)"
    by code_simp
  have "macros_list demo_conf = replicate 20 (demo_macro 4)" by (simp add: demo_conf_def MAX_MACROS_def)
  then show ?thesis using p steps
    by (simp add: bin_cmd_macro_add_seq_def macros_saved_list put_macro_def set_macros_def Let_def MAX_MACROS_def
        MACRO_MAX_STEPS_def macro_name_len_def MAX_MACRO_NAME_LENGTH_def)
qed

lemma macro_list_falls_short_witness:
  "\<exists>n parts. snd (bin_cmd_list_macros demo_cmd_env 0x30 []
       (fst (bin_cmd_macro_add_seq demo_cmd_env 0x32 gap_request demo_conf))) = Stream n parts \<and> length (concat parts) < unat n"
proof -
  let ?s = "fst (bin_cmd_macro_add_seq demo_cmd_env 0x32 gap_request demo_conf)"
  have "mt_named (macros_list ?s ! 2)" "step_count (macros_list ?s ! 2) = 2" "length (written_steps (macros_list ?s ! 2)) = 1"
    unfolding gap_request_stored
    by (simp_all add: mt_named_def put_name_def mem_write_def gap_request_def demo_macro_def step_count_def written_steps_def
        MACRO_MAX_STEPS_def)
  then show ?thesis
    using macro_list_falls_short [OF keep_macros(2) [OF demo_conf_ok], of 2 demo_cmd_env "0x32" gap_request demo_cmd_env "0x30" "[]"]
    by (auto simp: MAX_MACROS_def)
qed

section \<open>What is written is what is read\<close>

definition cell :: "conf \<Rightarrow> nat \<Rightarrow> nat \<Rightarrow> nat \<Rightarrow> u16" where
  "cell s l r c = kp_keymaps s ! l ! r ! c"

lemma conf_dims: "conf_ok s \<Longrightarrow> dims_ok LAYERS (matrix_rows s) (keymap_cols s) (kp_keymaps s)"
  by (simp add: conf_ok_def)

lemma cell_set:
  assumes "conf_ok s" "l < LAYERS" "r < matrix_rows s" "c < keymap_cols s" "r' < matrix_rows s" "c' < keymap_cols s"
  shows "cell (set_keymap l r c v s) l r' c' = (if r' = r \<and> c' = c then v else cell s l r' c')"
    "l' \<noteq> l \<Longrightarrow> kp_keymaps (set_keymap l r c v s) ! l' = kp_keymaps s ! l'"
proof -
  have "length (kp_keymaps s) = LAYERS" "length (kp_keymaps s ! l) = matrix_rows s" "length (kp_keymaps s ! l ! r) = keymap_cols s"
    using conf_dims [OF assms(1)] assms(2,3) by (auto simp: dims_ok_def list_all_length)
  then show "cell (set_keymap l r c v s) l r' c' = (if r' = r \<and> c' = c then v else cell s l r' c')"
    using assms by (auto simp: cell_def set_keymap_def nth_list_update)
  show "l' \<noteq> l \<Longrightarrow> kp_keymaps (set_keymap l r c v s) ! l' = kp_keymaps s ! l'" by (simp add: set_keymap_def)
qed

definition layer_value :: "bytes \<Rightarrow> nat \<Rightarrow> nat \<Rightarrow> nat \<Rightarrow> u16" where
  "layer_value data cols r c = be16 (data ! ((r * cols + c) * 2 + 1)) (data ! ((r * cols + c) * 2))"

definition write_cell :: "nat \<Rightarrow> bytes \<Rightarrow> nat \<times> nat \<Rightarrow> conf \<Rightarrow> conf" where
  "write_cell l data = (\<lambda>(r, c) s. let off = (r * keymap_cols s + c) * 2
     in set_keymap l r c (be16 (data ! (off + 1)) (data ! off)) s)"

lemma write_cells:
  assumes "conf_ok s" "l < LAYERS" "set cs \<subseteq> set (layer_cells s)"
  shows "let t = fold (write_cell l data) cs s in conf_ok t \<and> matrix_rows t = matrix_rows s \<and> keymap_cols t = keymap_cols s \<and>
    (\<forall>l'. l' \<noteq> l \<longrightarrow> kp_keymaps t ! l' = kp_keymaps s ! l') \<and>
    (\<forall>r<matrix_rows s. \<forall>c<keymap_cols s. cell t l r c =
       (if (r, c) \<in> set cs then layer_value data (keymap_cols s) r c else cell s l r c))"
  using assms(3)
proof (induction cs rule: rev_induct)
  case Nil
  then show ?case using assms(1) by simp
next
  case (snoc x cs)
  obtain r c where x: "x = (r, c)" "r < matrix_rows s" "c < keymap_cols s"
    using snoc.prems by (auto simp: layer_cells_def)
  define t where "t = fold (write_cell l data) cs s"
  have IH: "conf_ok t" "matrix_rows t = matrix_rows s" "keymap_cols t = keymap_cols s"
    "\<forall>l'. l' \<noteq> l \<longrightarrow> kp_keymaps t ! l' = kp_keymaps s ! l'"
    "\<forall>r<matrix_rows s. \<forall>c<keymap_cols s. cell t l r c =
       (if (r, c) \<in> set cs then layer_value data (keymap_cols s) r c else cell s l r c)"
    using snoc by (simp_all add: t_def Let_def)
  have step: "write_cell l data (r, c) t = set_keymap l r c (layer_value data (keymap_cols s) r c) t"
    using x IH(3) by (simp add: write_cell_def layer_value_def Let_def)
  have "matrix_rows (set_keymap l r c v t) = matrix_rows s" for v using IH(2) by (simp add: set_keymap_def)
  moreover have "cell (set_keymap l r c v t) l r' c' = (if r' = r \<and> c' = c then v else cell t l r' c')"
    if "r' < matrix_rows s" "c' < keymap_cols s" for v r' c'
    using cell_set(1) [OF IH(1) assms(2)] x that IH(2,3) by simp
  moreover have "kp_keymaps (set_keymap l r c v t) ! l' = kp_keymaps s ! l'" if "l' \<noteq> l" for v l'
    using that IH(4) by (simp add: set_keymap_def)
  ultimately show ?case using conf_ok_set_keymap [OF IH(1)] IH
    by (auto simp: Let_def step x(1) simp flip: t_def)
qed

lemma pair_bytes:
  "k * 2 \<le> length d \<Longrightarrow> concat (map (\<lambda>c. [d ! (c * 2), d ! (c * 2 + 1)]) [0..<k]) = take (k * 2) d"
proof (induction k)
  case (Suc k)
  have "take 2 (drop (k * 2) d) = [d ! (k * 2), d ! (k * 2 + 1)]"
    using Suc.prems by (simp add: take_Suc_conv_app_nth numeral_2_eq_2)
  moreover have "take (Suc k * 2) d = take (k * 2) d @ take 2 (drop (k * 2) d)"
    using take_add [of "k * 2" 2 d] by (simp add: add.commute)
  ultimately show ?case using Suc by simp
qed simp

lemma row_bytes:
  assumes "(b + k) * 2 \<le> length d"
  shows "concat (map (\<lambda>c. [d ! ((b + c) * 2), d ! ((b + c) * 2 + 1)]) [0..<k]) = take (k * 2) (drop (b * 2) d)"
proof -
  have "map (\<lambda>c. [d ! ((b + c) * 2), d ! ((b + c) * 2 + 1)]) [0..<k] =
      map (\<lambda>c. [drop (b * 2) d ! (c * 2), drop (b * 2) d ! (c * 2 + 1)]) [0..<k]"
    using assms by (simp add: algebra_simps)
  then show ?thesis using pair_bytes [of k "drop (b * 2) d"] assms by (simp add: algebra_simps)
qed

lemma cells_bytes:
  "n * m * 2 \<le> length d \<Longrightarrow>
     concat (map (\<lambda>(r, c). [d ! ((r * m + c) * 2), d ! ((r * m + c) * 2 + 1)]) [(r, c). r \<leftarrow> [0..<n], c \<leftarrow> [0..<m]]) =
     take (n * m * 2) d"
proof (induction n)
  case (Suc n)
  have "take (Suc n * m * 2) d = take (n * m * 2) d @ take (m * 2) (drop (n * m * 2) d)"
    by (simp add: add.commute [of m] add_mult_distrib take_add)
  moreover have "concat (map (\<lambda>c. [d ! ((n * m + c) * 2), d ! ((n * m + c) * 2 + 1)]) [0..<m]) = take (m * 2) (drop (n * m * 2) d)"
    using Suc.prems by (intro row_bytes) (simp add: algebra_simps)
  ultimately show ?case using Suc by (simp add: comp_def)
qed simp


definition layer_written :: "bytes \<Rightarrow> conf \<Rightarrow> conf" where
  "layer_written p s = fold (write_cell (unat (p ! 0)) (drop 1 p)) (layer_cells s) s"

lemma setlayer_runs:
  assumes "1 + matrix_rows s * keymap_cols s * 2 \<le> length p" "unat (p ! 0) < LAYERS"
    and "saved (save_keymaps (ce_rc e) 0 (kp_keymaps (layer_written p s))) (layer_written p s) = (s1, ok)"
  shows "bin_cmd_setlayer e cmd p s = (update_layer_name (p ! 0) s1, storage_reply ok)"
  using assms by (simp add: bin_cmd_setlayer_def layer_written_def write_cell_def Let_def not_less not_le)

lemma layer_name_fields [simp]:
  "kp_keymaps (update_layer_name l s) = kp_keymaps s" "matrix_rows (update_layer_name l s) = matrix_rows s"
  "keymap_cols (update_layer_name l s) = keymap_cols s" "cf_flash (update_layer_name l s) = cf_flash s"
  by (simp_all add: update_layer_name_def cf_call_def keymap_cols_def cf_flash_def)

lemma layer_bytes:
  assumes "n * m * 2 \<le> length data" "\<forall>r<n. \<forall>c<m. f r c = layer_value data m r c"
  shows "concat (map (\<lambda>(r, c). u16_bytes (f r c)) [(r, c). r \<leftarrow> [0..<n], c \<leftarrow> [0..<m]]) = take (n * m * 2) data"
proof -
  have "map (\<lambda>(r, c). u16_bytes (f r c)) [(r, c). r \<leftarrow> [0..<n], c \<leftarrow> [0..<m]] =
      map (\<lambda>(r, c). [data ! ((r * m + c) * 2), data ! ((r * m + c) * 2 + 1)]) [(r, c). r \<leftarrow> [0..<n], c \<leftarrow> [0..<m]]"
    by (rule map_cong [OF refl]) (use assms(2) in \<open>auto simp: layer_value_def u16_bytes_def\<close>)
  then show ?thesis using cells_bytes [OF assms(1)] by (simp only:)
qed

lemma cells_mem: "(r, c) \<in> set (layer_cells s) \<longleftrightarrow> r < matrix_rows s \<and> c < keymap_cols s"
  unfolding layer_cells_def by force

text \<open>
  C17: A layer that the host wrote is the layer it reads back, byte for byte: after SETLAYER with a layer in
  range and enough bytes, KEYMAP_GET of that layer answers with the request itself, cut to its length, and
  no other layer has changed. This holds even when the answer was a storage error: the keymap in use is
  the new one.
\<close>

theorem layer_reads_back:
  assumes "conf_ok s" "1 + matrix_rows s * keymap_cols s * 2 \<le> length p" "unat (p ! 0) < LAYERS"
    and "bin_cmd_setlayer e cmd p s = (s', r)" "get \<noteq> KS_CMD_KEYMAP_CURRENT"
  shows "r \<in> {Ok, Err KS_STATUS_ERR_STORAGE} \<and>
    reply_payload (snd (bin_cmd_keymap_get e2 get (p ! 0 # q) s')) = take (1 + matrix_rows s * keymap_cols s * 2) p \<and>
    (\<forall>l. l \<noteq> unat (p ! 0) \<longrightarrow> kp_keymaps s' ! l = kp_keymaps s ! l)"
proof -
  let ?l = "unat (p ! 0)" and ?n = "matrix_rows s" and ?m = "keymap_cols s"
  define t where "t = layer_written p s"
  have t: "matrix_rows t = ?n" "keymap_cols t = ?m" "\<forall>l'. l' \<noteq> ?l \<longrightarrow> kp_keymaps t ! l' = kp_keymaps s ! l'"
    "\<forall>r<?n. \<forall>c<?m. cell t ?l r c = layer_value (drop 1 p) ?m r c"
    using write_cells [OF assms(1,3) subset_refl, of "drop 1 p"] by (simp_all add: t_def layer_written_def Let_def cells_mem)
  obtain s1 ok where s1: "saved (save_keymaps (ce_rc e) 0 (kp_keymaps t)) t = (s1, ok)" by fastforce
  then have run: "s' = update_layer_name (p ! 0) s1" "r = storage_reply ok"
    using setlayer_runs [OF assms(2,3), of e s1 ok cmd] assms(4) by (simp_all add: t_def)
  have fields: "kp_keymaps s' = kp_keymaps t" "matrix_rows s' = ?n" "keymap_cols s' = ?m"
    using saved_fields [OF s1] run(1) t(1,2) by simp_all
  have "concat (map (\<lambda>(r, c). u16_bytes (kp_keymaps t ! ?l ! r ! c)) [(r, c). r \<leftarrow> [0..<?n], c \<leftarrow> [0..<?m]]) =
      take (?n * ?m * 2) (drop 1 p)"
    by (rule layer_bytes) (use assms(2) t(4) in \<open>simp_all add: cell_def\<close>)
  moreover have "p = p ! 0 # drop 1 p" using assms(2) by (cases p) simp_all
  ultimately have "reply_payload (snd (bin_cmd_keymap_get e2 get (p ! 0 # q) s')) = take (1 + ?n * ?m * 2) p"
    using assms(3,5) fields
    by (simp add: bin_cmd_keymap_get_def layer_cells_def Let_def not_le) (metis take_Suc_Cons)
  moreover have "r \<in> {Ok, Err KS_STATUS_ERR_STORAGE}" by (simp add: run(2) storage_reply_def)
  ultimately show ?thesis using fields(1) t(3) by simp
qed

section \<open>What the host set, after a restart\<close>

lemma set_commands_save:
  assumes "conf_ok s" "h \<in> {CmdSetKey, CmdSetLayer}" "run_cmd h e cmd p s = (s', Ok)"
  shows "\<exists>io'. save_keymaps (ce_rc e) 0 (kp_keymaps s') (cf_flash s) = (cf_flash s', True, io') \<and>
    matrix_rows s' = matrix_rows s \<and> keymap_cols s' = keymap_cols s"
proof -
  have ok: "storage_reply b = Ok \<longleftrightarrow> b" "Ok = storage_reply b \<longleftrightarrow> b" for b by (auto simp: storage_reply_def)
  have saved: "\<exists>io'. save_keymaps (ce_rc e) 0 (kp_keymaps u) (cf_flash t) = (cf_flash u, True, io')"
    if "saved (save_keymaps (ce_rc e) 0 (kp_keymaps t)) t = (u, True)" for t u
    using saved_fields [OF that] by (metis prod.collapse)
  show ?thesis
  proof (cases "h = CmdSetKey")
    case True
    let ?t = "set_keymap (unat (p ! 0)) (unat (p ! 1)) (unat (p ! 2)) (be16 (p ! 4) (p ! 3)) s"
    have "saved (save_keymaps (ce_rc e) 0 (kp_keymaps ?t)) ?t = (s', True)"
      using assms(3) True by (auto simp: bin_cmd_setkey_def Let_def ok split: prod.splits if_splits)
    moreover have "cf_flash ?t = cf_flash s" "matrix_rows ?t = matrix_rows s" by (simp_all add: set_keymap_def cf_flash_def)
    ultimately show ?thesis using saved saved_fields conf_ok_set_keymap(2) [OF assms(1)] by metis
  next
    case False
    then have run: "bin_cmd_setlayer e cmd p s = (s', Ok)" using assms(2,3) by simp
    have len: "1 + matrix_rows s * keymap_cols s * 2 \<le> length p" "unat (p ! 0) < LAYERS"
      using run by (auto simp: bin_cmd_setlayer_def not_le not_less split: if_splits)
    define t where "t = layer_written p s"
    obtain s1 b where s1: "saved (save_keymaps (ce_rc e) 0 (kp_keymaps t)) t = (s1, b)" by fastforce
    then have fin: "s' = update_layer_name (p ! 0) s1" "b"
      using setlayer_runs [OF len, of e s1 b cmd] run by (simp_all add: t_def ok)
    have "cf_flash (fold (write_cell l data) cs s) = cf_flash s" for l data cs
      by (rule fold_inv [of "\<lambda>t. cf_flash t = cf_flash s"]) (auto simp: write_cell_def Let_def set_keymap_def cf_flash_def)
    then have "cf_flash t = cf_flash s" by (simp add: t_def layer_written_def)
    moreover have "matrix_rows t = matrix_rows s" "keymap_cols t = keymap_cols s"
      using write_cells [OF assms(1) len(2) subset_refl, of "drop 1 p"] by (simp_all add: t_def layer_written_def Let_def)
    ultimately show ?thesis using saved [of t s1] saved_fields [OF s1] s1 fin by auto
  qed
qed

text \<open>
  C8: What becomes of a key or a layer that the host sets and the keyboard acknowledges. On a board that
  scans all columns of its keymap the next start brings the keymap up as it was left. On the left half of a
  split keyboard, which scans fewer columns, the next start always falls back to the built-in keymap,
  although the save succeeded: the start compares the stored size with that of the scanned half.
\<close>

theorem host_keymap_after_restart:
  assumes "conf_ok s" "h \<in> {CmdSetKey, CmdSetLayer}" "run_cmd h e cmd p s = (s', Ok)"
    and "dims_ok LAYERS (matrix_rows s) (keymap_cols s) km0" "cols \<le> keymap_cols s"
  shows "main_load_keymaps all_ok io (matrix_rows s) cols (keymap_cols s) (cf_flash s') km0 =
    (if cols = keymap_cols s then kp_keymaps s' else km0)"
proof -
  obtain io' where save: "save_keymaps (ce_rc e) 0 (kp_keymaps s') (cf_flash s) = (cf_flash s', True, io')"
    and same: "matrix_rows s' = matrix_rows s" "keymap_cols s' = keymap_cols s"
    using set_commands_save [OF assms(1-3)] by blast
  have ok: "conf_ok s'" using commands_keep_shape [OF assms(1), of h e cmd p] assms(3) by simp
  then have d: "dims_ok LAYERS (matrix_rows s) (keymap_cols s) (kp_keymaps s')" using conf_dims same by metis
  have "cf_flash s' ''keymaps'' = Some (NvBlob (keymap_bytes (kp_keymaps s')))"
    using save_all_ok [OF save [unfolded save_keymaps_def]] by simp
  then have "main_load_keymaps all_ok io (matrix_rows s) (keymap_cols s) (keymap_cols s) (cf_flash s') km0 = kp_keymaps s'"
    using load_saved_keymap [OF d assms(4)] by blast
  moreover have "main_load_keymaps all_ok io (matrix_rows s) cols (keymap_cols s) (cf_flash s') km0 = km0"
    if "cols < keymap_cols s"
    using split_keymap_lost [OF d assms(4) _ that save] assms(1) by (simp add: conf_ok_def)
  ultimately show ?thesis using assms(5) by (cases "cols = keymap_cols s") auto
qed

definition demo_layer :: bytes where
  "demo_layer = 2 # replicate 96 7"

lemma demo_sizes: "matrix_rows demo_conf = 4" "keymap_cols demo_conf = 12" "kp_keymaps demo_conf = demo_map 4 4 12"
  by (simp_all add: demo_conf_def keymap_cols_def demo_map_def LAYERS_def)

lemma layer_reads_back_witness:
  "reply_payload (snd (bin_cmd_keymap_get demo_cmd_env 0x13 [2] (fst (bin_cmd_setlayer demo_cmd_env 0x10 demo_layer demo_conf)))) = demo_layer"
proof -
  obtain s' r where run: "bin_cmd_setlayer demo_cmd_env 0x10 demo_layer demo_conf = (s', r)" by fastforce
  show ?thesis
    using layer_reads_back [OF demo_conf_ok _ _ run, of "0x13" demo_cmd_env "[]"] run
    by (simp add: demo_sizes demo_layer_def LAYERS_def KS_CMD_KEYMAP_CURRENT_def)
qed

lemma demo_setkey: "snd (run_cmd CmdSetKey demo_cmd_env 0x11 [0, 1, 2, 9, 0] demo_conf) = Ok"
  by (simp add: bin_cmd_setkey_def demo_sizes LAYERS_def saved_def save_keymaps_def nvs_save_all_def storage_reply_def
      demo_cmd_env_def all_ok_def Let_def split: prod.splits)

lemma host_keymap_after_restart_witness:
  "main_load_keymaps all_ok 0 4 6 12 (cf_flash (fst (run_cmd CmdSetKey demo_cmd_env 0x11 [0, 1, 2, 9, 0] demo_conf))) (demo_map 4 4 12) =
     demo_map 4 4 12"
proof -
  obtain s' where run: "run_cmd CmdSetKey demo_cmd_env 0x11 [0, 1, 2, 9, 0] demo_conf = (s', Ok)"
    using demo_setkey by (metis prod.collapse)
  show ?thesis
    using host_keymap_after_restart [OF demo_conf_ok _ run, of "demo_map 4 4 12" 6 0] run
    by (simp add: demo_sizes demo_map_ok)
qed

section \<open>Resetting the storage\<close>

lemma erase_all_flash:
  "cf_flash (erase_keys all_ok n ks s) k =
     (if k \<in> set ks \<and> k \<noteq> ''key_stats'' \<and> k \<noteq> ''key_stats_tot'' then None else cf_flash s k)"
  by (induction ks arbitrary: n s) (auto simp: all_ok_def set_cf_flash_def cf_flash_def nvs_erase_def)

lemma erase_all_stats:
  "ks_flash_stats (cf_stats (erase_keys all_ok n ks s)) = (if ''key_stats'' \<in> set ks then None else ks_flash_stats (cf_stats s))"
  "ks_flash_total (cf_stats (erase_keys all_ok n ks s)) = (if ''key_stats_tot'' \<in> set ks then None else ks_flash_total (cf_stats s))"
  by (induction ks arbitrary: n s) (auto simp: all_ok_def set_cf_flash_def)

text \<open>
  What NVS_RESET with the mask 0xFF, which is to erase everything, really erases. The keymaps, names,
  macros, statistics, feature tables and Bluetooth bonds are gone and the device restarts; but the active
  Bluetooth slot, the output route and the count and version of the macros stay, since the
  command erases a key that nothing writes in the place of the slot. After the restart the keyboard is
  on the old slot again.
\<close>

theorem full_reset_leaves_settings:
  assumes "0 < length p" "p ! 0 = 0xFF" "ce_rc e = all_ok" "bin_cmd_nvs_reset e cmd p s = (s', r)"
  shows "r = Ok \<and> last (cf_calls s') = EspRestart \<and>
    (\<forall>k\<in>{''keymaps'', ''layout_names'', ''macros'', ''td_configs'', ''combo_cfg'', ''leader_cfg'', ''ko_cfg'', ''bt_slots'', ''bt_enabled''}.
       cf_flash s' k = None) \<and>
    ks_flash_stats (cf_stats s') = None \<and>
    (\<forall>k\<in>{''bt_slot'', ''io_mode'', ''macros_count'', ''macros_ver''}. cf_flash s' k = cf_flash s k) \<and>
    (\<forall>a. cf_flash s ''bt_slot'' = Some (NvU8 a) \<and> unat a < BT_MAX_DEVICES \<longrightarrow>
       bt_active_slot (bt_devices_load all_ok (bt_boot (cf_flash s'))) = a)"
proof -
  have keys: "reset_keys 0xFF = [''keymaps'', ''layout_names'', ''macros'', ''key_stats'', ''key_stats_tot'', ''bigram_stats'',
      ''bigram_total'', ''td_configs'', ''td_count'', ''combo_cfg'', ''combo_cnt'', ''leader_cfg'', ''leader_cnt'', ''ko_cfg'',
      ''ko_cnt'', ''bt_slots'', ''bt_active'', ''bt_enabled'', ''tama_stats'']"
    by (simp add: reset_keys_def)
  have r: "r = Ok" "s' = cf_call EspRestart (erase_keys all_ok 1 (reset_keys 0xFF) s)"
    using assms by (auto simp: bin_cmd_nvs_reset_def all_ok_def split: if_splits)
  have flash: "cf_flash s' k = (if k \<in> set (reset_keys 0xFF) \<and> k \<noteq> ''key_stats'' \<and> k \<noteq> ''key_stats_tot'' then None else cf_flash s k)" for k
    using erase_all_flash [of 1 "reset_keys 0xFF" s k] by (simp add: r(2) cf_call_def cf_flash_def)
  have stats: "ks_flash_stats (cf_stats s') = None"
  proof -
    have "''key_stats'' \<in> set (reset_keys 0xFF)" by (simp add: keys)
    then show ?thesis using erase_all_stats(1) [of 1 "reset_keys 0xFF" s] by (simp add: r(2) cf_call_def)
  qed
  have gone: "cf_flash s' k = None" if "k \<in> {''keymaps'', ''layout_names'', ''macros'', ''td_configs'', ''combo_cfg'',
      ''leader_cfg'', ''ko_cfg'', ''bt_slots'', ''bt_enabled''}" for k
    using that by (auto simp: flash keys)
  have kept: "cf_flash s' k = cf_flash s k" if "k \<in> {''bt_slot'', ''io_mode'', ''macros_count'', ''macros_ver''}" for k
    using that by (auto simp: flash keys)
  have slot: "bt_active_slot (bt_devices_load all_ok (bt_boot (cf_flash s'))) = a"
    if "cf_flash s ''bt_slot'' = Some (NvU8 a)" "unat a < BT_MAX_DEVICES" for a
  proof -
    have "cf_flash s' ''bt_slot'' = Some (NvU8 a)" using kept [of "''bt_slot''"] that(1) by simp
    then show ?thesis using that(2) by (simp add: bt_devices_load_def bt_boot_def get_u8_def all_ok_def Let_def)
  qed
  have calls: "last (cf_calls s') = EspRestart" by (simp add: r(2) cf_call_def)
  show ?thesis by (intro conjI ballI allI impI r(1) calls stats) (erule gone, erule kept, erule conjE, erule (1) slot)
qed

lemma full_reset_leaves_settings_witness:
  "bt_active_slot (bt_devices_load all_ok (bt_boot (cf_flash (fst (bin_cmd_nvs_reset demo_cmd_env 0xB1 [0xFF]
     (set_cf_flash [''bt_slot'' \<mapsto> NvU8 2] demo_conf)))))) = 2"
proof -
  obtain s' r where run: "bin_cmd_nvs_reset demo_cmd_env 0xB1 [0xFF] (set_cf_flash [''bt_slot'' \<mapsto> NvU8 2] demo_conf) = (s', r)"
    by fastforce
  show ?thesis using full_reset_leaves_settings [OF _ _ _ run] run
    by (simp add: demo_cmd_env_def BT_MAX_DEVICES_def cf_flash_def set_cf_flash_def)
qed


end
