(* ===== verification/Cdc_Dongle.thy ===== *)
theory Cdc_Dongle
  imports Cdc_Cmds Dongle_Rf
begin

unbundle bit_operations_syntax

text \<open>
  What a dongle answers: \<open>main/comm/cdc/cdc_dongle_cmds.c\<close>, and the handlers of
  \<open>cdc_binary_cmds.c\<close> that differ there (\<open>bin_cmd_features\<close>, \<open>bin_cmd_monitor\<close>, \<open>bin_cmd_rf_pair_start\<close>).
  They work on the state of \<open>rf_rx_task.c\<close> in \<open>Dongle_Rf\<close>. The layer, the typing speed and the key count
  of a dongle are the constant zeros of \<open>dongle_state.c\<close>.
\<close>

text \<open>\<open>dx_err\<close> is the number a failed erasure returns, \<open>dx_pkt_rx\<close> the packets each radio driver has counted.\<close>

record dongle_cmd_env =
  dx_env :: dongle_env
  dx_now :: u32
  dx_uptime :: int
  dx_heap :: u32
  dx_usb_ready :: bool
  dx_err :: u32
  dx_pkt_rx :: "u32 \<times> u32"

type_synonym dongle_handler = "dongle_cmd_env \<Rightarrow> u8 \<Rightarrow> bytes \<Rightarrow> dongle \<Rightarrow> dongle \<times> reply"

definition dongle_cmd_features :: dongle_handler where
  "dongle_cmd_features e cmd p d = (d, Respond KS_STATUS_OK (text_bytes
     (''MT,LT,LM,OSM,OSL,CAPS_WORD,REPEAT,TAP_DANCE,COMBO,LEADER,GESC,'' @
      ''LAYER_LOCK,WPM,TRI_LAYER,MATRIX_TEST,'' @ ''RF_DONGLE,RF_STATUS,RF_PAIR,BATTERY'')))"

definition rf_status_bytes :: "rf_link_status \<Rightarrow> bytes" where
  "rf_status_bytes st =
     [(if ls_link_kbd st then 1 else 0) OR (if ls_link_mouse st then 2 else 0) OR
      (if ls_radio_kbd_present st then 4 else 0) OR (if ls_radio_mouse_present st then 8 else 0),
      rf_signal_q255 (ls_link_kbd st) (ls_age_kbd_ms st) (ls_link_q_kbd st),
      rf_signal_q255 (ls_link_mouse st) (ls_age_mouse_ms st) (ls_link_q_mouse st)] @
     u32_le (ls_age_kbd_ms st) @ u32_le (ls_age_mouse_ms st)"

text \<open>Nothing increments \<open>pkt_dup\<close>: the last two counters are those of a zeroed radio.\<close>

definition bin_cmd_rf_status :: dongle_handler where
  "bin_cmd_rf_status e cmd p d = (d, Respond KS_STATUS_OK (rf_status_bytes (rf_rx_get_status (dx_now e) d) @
     u32_le (fst (dx_pkt_rx e)) @ u32_le (snd (dx_pkt_rx e)) @ u32_le 0 @ u32_le 0))"

definition bin_cmd_rf_pair_list :: dongle_handler where
  "bin_cmd_rf_pair_list e cmd p d =
     (let ((mac_left, mac_right, paired), io) = rf_pairing_load_peers_dongle (de_nvs (dx_env e)) (dg_io d) (dg_nvs d)
      in (d\<lparr>dg_io := io\<rparr>, Respond KS_STATUS_OK (paired # mac_left @ mac_right)))"

definition bin_cmd_rf_pair_reset :: dongle_handler where
  "bin_cmd_rf_pair_reset e cmd p d =
     (let (flash, ok, io) = rf_pairing_reset_dongle (de_nvs (dx_env e)) (dg_io d) (dg_nvs d);
          d1 = d\<lparr>dg_nvs := flash, dg_io := io\<rparr>
      in if \<not> ok then (d1, Respond KS_STATUS_ERR_UNKNOWN (u32_le (dx_err e))) else (d1, Respond KS_STATUS_OK [0]))"

definition bin_cmd_battery :: dongle_handler where
  "bin_cmd_battery e cmd p d =
     (d, Respond KS_STATUS_OK (concat (map (\<lambda>slot.
        case dongle_cache_get_battery (dx_now e) slot d of (dV, soc, chg, age) \<Rightarrow> [dV, soc, chg] @ u32_le age) [0, 1])))"

definition dongle_cmd_monitor :: dongle_handler where
  "dongle_cmd_monitor e cmd p d =
     (let st = rf_rx_get_status (dx_now e) d;
          (dV0, soc0, chg0, age0) = dongle_cache_get_battery (dx_now e) 0 d;
          (dV1, soc1, chg1, age1) = dongle_cache_get_battery (dx_now e) 1 d
      in (d, Respond KS_STATUS_OK (ks_monitor_encode
        \<lparr>km_flags = (if dx_usb_ready e then 0x08 else 0) OR 0x01 OR (if ls_link_kbd st then 0x02 else 0) OR
           (if ls_link_mouse st then 0x04 else 0),
         km_uptime_s = word_of_int (dx_uptime e div 1000000), km_heap_free_kb = cap16 (dx_heap e div 1024),
         km_layer_idx = 0, km_wpm = cap8 0, km_keys_total = 0,
         km_sig_kbd = rf_signal_q255 (ls_link_kbd st) (ls_age_kbd_ms st) (ls_link_q_kbd st),
         km_sig_mouse = rf_signal_q255 (ls_link_mouse st) (ls_age_mouse_ms st) (ls_link_q_mouse st),
         km_age_kbd_ms = cap16 (ls_age_kbd_ms st), km_age_mouse_ms = cap16 (ls_age_mouse_ms st),
         km_batt_kbd = (dV0, soc0, chg0), km_batt_mouse = (dV1, soc1, chg1), km_bt_slot = 0\<rparr>)))"

definition bin_cmd_rf_pair_start :: dongle_handler where
  "bin_cmd_rf_pair_start e cmd p d =
     (case rf_rx_pair_start (dx_env e) (dx_now e) (if 1 \<le> length p then p ! 0 else 0) d of
        (d1, None) \<Rightarrow> (d1, Err KS_STATUS_ERR_BUSY)
      | (d1, Some (set_id, paired)) \<Rightarrow> (d1, Respond KS_STATUS_OK [ucast (drop_bit 8 set_id), ucast set_id, paired]))"

definition dongle_cmd_table :: "(u8 \<times> dongle_handler) list" where
  "dongle_cmd_table = [(0xB3, bin_cmd_rf_status), (0xB4, bin_cmd_rf_pair_list), (0xB5, bin_cmd_rf_pair_reset),
     (0xB6, bin_cmd_battery)]"

definition cdc_dongle_cmds_init :: "dongle_handler ks_cdc \<Rightarrow> dongle_handler ks_cdc" where
  "cdc_dongle_cmds_init = ks_register_binary_commands dongle_cmd_table"

section \<open>What the host learns\<close>

text \<open>The host's reading of the answer to \<open>RF_STATUS\<close>, as its comment lays it out.\<close>

definition host_status :: "bytes \<Rightarrow> (bool \<times> bool \<times> bool \<times> bool) \<times> (u8 \<times> u8) \<times> (u32 \<times> u32) \<times> (u32 \<times> u32)" where
  "host_status b =
     ((bit (b ! 0) 0, bit (b ! 0) 1, bit (b ! 0) 2, bit (b ! 0) 3), (b ! 1, b ! 2),
      (le_u32 (b ! 3) (b ! 4) (b ! 5) (b ! 6), le_u32 (b ! 7) (b ! 8) (b ! 9) (b ! 10)),
      (le_u32 (b ! 11) (b ! 12) (b ! 13) (b ! 14), le_u32 (b ! 15) (b ! 16) (b ! 17) (b ! 18)))"

lemma le_u32_le: "le_u32 (ucast w) (ucast (drop_bit 8 w)) (ucast (drop_bit 16 w)) (ucast (drop_bit 24 w)) = w" for w :: u32
proof (rule bit_word_eqI)
  fix n assume "n < LENGTH(32)"
  then have "n < 8 \<or> 8 \<le> n \<and> n < 16 \<or> 16 \<le> n \<and> n < 24 \<or> 24 \<le> n \<and> n < 32" by auto
  then show "bit (le_u32 (ucast w) (ucast (drop_bit 8 w)) (ucast (drop_bit 16 w)) (ucast (drop_bit 24 w))) n = bit w n"
    by (elim disjE) (auto simp: le_u32_def bit_or_iff bit_push_bit_iff bit_unsigned_iff bit_drop_bit_eq)
qed

lemma flag_bits:
  "let b = (if p then 1 else 0) OR (if q then 2 else 0) OR (if r then 4 else 0) OR (if s then 8 else 0) :: u8
   in bit b 0 = p \<and> bit b 1 = q \<and> bit b 2 = r \<and> bit b 3 = s"
  by (cases p; cases q; cases r; cases s) (simp_all add: Let_def)

text \<open>
  The host reads off the answer to \<open>RF_STATUS\<close>, at the offsets its comment gives, exactly the state of the two
  links: which are up, which radios answered, the signal qualities, the ages to the millisecond and the packet
  counters. The answer has 27 bytes and the state is not touched.
\<close>

theorem dongle_status_reads_back:
  fixes e d cmd p
  defines "st \<equiv> rf_rx_get_status (dx_now e) d" and "r \<equiv> bin_cmd_rf_status e cmd p d"
  shows "fst r = d \<and> length (reply_payload (snd r)) = 27 \<and> host_status (reply_payload (snd r)) =
    ((ls_link_kbd st, ls_link_mouse st, ls_radio_kbd_present st, ls_radio_mouse_present st),
     (rf_signal_q255 (ls_link_kbd st) (ls_age_kbd_ms st) (ls_link_q_kbd st),
      rf_signal_q255 (ls_link_mouse st) (ls_age_mouse_ms st) (ls_link_q_mouse st)),
     (ls_age_kbd_ms st, ls_age_mouse_ms st), dx_pkt_rx e)"
  unfolding r_def st_def [symmetric] bin_cmd_rf_status_def
  using flag_bits [of "ls_link_kbd st" "ls_link_mouse st" "ls_radio_kbd_present st" "ls_radio_mouse_present st"]
  by (simp add: host_status_def rf_status_bytes_def u32_le_def le_u32_le Let_def st_def)

end
