(* ===== verification/Mouse.thy ===== *)
theory Mouse
  imports Rf_Packet Rf_Pairing "HOL-Library.Signed_Division"
begin

unbundle bit_operations_syntax

text \<open>
  The mouse: \<open>main/input/mouse_buttons.c\<close>, \<open>main/input/mouse_wheel.c\<close>, \<open>main/app/mouse_task.c\<close> and
  \<open>main/comm/rf/mouse_relay_tx.c\<close>. One turn of the task reads three buttons and the wheel, every fourth
  turn the sensor, and sends what has to be sent to the dongle. The pins, the sensor and the radio are
  outside: what they deliver in a turn is the record \<open>scan\<close>. The 32-bit accumulators are integers; that the
  filter stays within 32 bits is proved. \<open>ms_delivered\<close> and \<open>ms_smoothed\<close> record the frames the dongle
  acknowledged and what the filters put out; the counters that are only logged are left out.
\<close>

section \<open>Buttons\<close>

datatype mouse_contact = MOUSE_CONTACT_RELEASED | MOUSE_CONTACT_PRESSED | MOUSE_CONTACT_BOUNCING | MOUSE_CONTACT_IMPOSSIBLE

definition mouse_contact_decode :: "bool \<Rightarrow> bool \<Rightarrow> mouse_contact" where
  "mouse_contact_decode no_level nc_level =
     (if no_level \<and> \<not> nc_level then MOUSE_CONTACT_RELEASED
      else if \<not> no_level \<and> nc_level then MOUSE_CONTACT_PRESSED
      else if no_level \<and> nc_level then MOUSE_CONTACT_BOUNCING
      else MOUSE_CONTACT_IMPOSSIBLE)"

definition mouse_button_next :: "bool \<Rightarrow> mouse_contact \<Rightarrow> bool" where
  "mouse_button_next prev contact =
     (case contact of MOUSE_CONTACT_PRESSED \<Rightarrow> True | MOUSE_CONTACT_RELEASED \<Rightarrow> False | _ \<Rightarrow> prev)"

section \<open>Wheel\<close>

definition QUAD :: "int list" where
  "QUAD = [0, -1, 1, 0, 1, 0, 0, -1, -1, 0, 0, 1, 0, 1, -1, 0]"

definition mouse_wheel_step :: "u8 \<Rightarrow> u8 \<Rightarrow> int" where
  "mouse_wheel_step prev_ab cur_ab = QUAD ! unat (push_bit 2 (prev_ab AND 0x3) OR (cur_ab AND 0x3))"

section \<open>Filters\<close>

definition LISSAGE_ALPHA_MIN :: int where "LISSAGE_ALPHA_MIN = 38"
definition LISSAGE_VITESSE_MAX :: int where "LISSAGE_VITESSE_MAX = 8"
definition SENSOR_EVERY_N_SCANS :: u32 where "SENSOR_EVERY_N_SCANS = 4"

type_synonym delta = "int \<times> int"

definition moves :: "delta \<Rightarrow> bool" where "moves d \<longleftrightarrow> fst d \<noteq> 0 \<or> snd d \<noteq> 0"

text \<open>The state is the sample that waits and whether the one before it moved.\<close>

definition anti_tache :: "delta \<Rightarrow> delta \<times> bool \<Rightarrow> (delta \<times> bool) \<times> delta" where
  "anti_tache d = (\<lambda>(att, avant_bouge).
     ((d, moves att), if moves att \<and> \<not> avant_bouge \<and> \<not> moves d then (0, 0) else att))"

definition to_i16 :: "int \<Rightarrow> int" where "to_i16 x = sint (word_of_int x :: 16 word)"

definition lissage_alpha :: "delta \<Rightarrow> int" where
  "lissage_alpha d =
     (let v = min (\<bar>fst d\<bar> + \<bar>snd d\<bar>) LISSAGE_VITESSE_MAX
      in LISSAGE_ALPHA_MIN + ((256 - LISSAGE_ALPHA_MIN) * v) sdiv LISSAGE_VITESSE_MAX)"

text \<open>One axis: the smoothed speed and the fraction not yet put out, both in 256ths.\<close>

definition lissage_axis :: "int \<Rightarrow> int \<Rightarrow> int \<times> int \<Rightarrow> (int \<times> int) \<times> int" where
  "lissage_axis alpha d = (\<lambda>(etat, reste).
     let etat1 = etat + ((d * 256 - etat) * alpha) sdiv 256; reste1 = reste + etat1; sx = reste1 sdiv 256
     in ((etat1, reste1 - sx * 256), to_i16 sx))"

definition lissage :: "delta \<Rightarrow> (int \<times> int) \<times> (int \<times> int) \<Rightarrow> ((int \<times> int) \<times> (int \<times> int)) \<times> delta" where
  "lissage d = (\<lambda>(sx, sy).
     let alpha = lissage_alpha d; (sx1, ox) = lissage_axis alpha (fst d) sx; (sy1, oy) = lissage_axis alpha (snd d) sy
     in ((sx1, sy1), (ox, oy)))"

section \<open>One turn of the task\<close>

record mouse =
  ms_pressed :: "bool list"
  ms_wheel :: int
  ms_wheel_missed :: nat
  ms_enc_prev :: u8
  ms_n :: u32
  ms_tache :: "delta \<times> bool"
  ms_lissage :: "(int \<times> int) \<times> (int \<times> int)"
  rf_dx :: int
  rf_dy :: int
  rf_wheel :: int
  wheel_env :: int
  btn_env :: u8
  btn_ever :: bool
  ms_smoothed :: "delta list"
  ms_delivered :: "bytes list"

definition mouse_boot :: "u8 \<Rightarrow> mouse" where
  "mouse_boot enc = \<lparr>ms_pressed = [False, False, False], ms_wheel = 0, ms_wheel_missed = 0, ms_enc_prev = enc, ms_n = 0,
     ms_tache = ((0, 0), False), ms_lissage = ((0, 0), (0, 0)), rf_dx = 0, rf_dy = 0, rf_wheel = 0, wheel_env = 0,
     btn_env = 0, btn_ever = False, ms_smoothed = [], ms_delivered = []\<rparr>"

text \<open>What the turn meets: the two contacts of each button, the wheel channels, the sensor when it is
  read and answers, whether the radio is there and paired, and whether the dongle acknowledges.\<close>

record scan =
  sc_contacts :: "(bool \<times> bool) list"
  sc_enc :: u8
  sc_motion :: "delta option"
  sc_active :: bool
  sc_ack :: bool

definition read_buttons :: "scan \<Rightarrow> mouse \<Rightarrow> mouse" where
  "read_buttons e s = s\<lparr>ms_pressed :=
     map (\<lambda>i. mouse_button_next (ms_pressed s ! i)
       (mouse_contact_decode (fst (sc_contacts e ! i)) (snd (sc_contacts e ! i)))) [0..<3]\<rparr>"

definition read_wheel :: "scan \<Rightarrow> mouse \<Rightarrow> mouse" where
  "read_wheel e s =
     (if sc_enc e \<noteq> ms_enc_prev s
      then let pas = mouse_wheel_step (ms_enc_prev s) (sc_enc e);
               s1 = (if pas \<noteq> 0 then s\<lparr>ms_wheel := ms_wheel s + pas\<rparr> else s\<lparr>ms_wheel_missed := ms_wheel_missed s + 1\<rparr>)
           in s1\<lparr>ms_enc_prev := sc_enc e\<rparr>
      else s)"

definition read_sensor :: "scan \<Rightarrow> mouse \<Rightarrow> mouse" where
  "read_sensor e s =
     (let s1 = s\<lparr>ms_n := ms_n s + 1\<rparr> in
      if ms_n s1 mod SENSOR_EVERY_N_SCANS = 0
      then (case sc_motion e of
              None \<Rightarrow> s1
            | Some d \<Rightarrow>
                let (t1, d1) = anti_tache d (ms_tache s1); (l1, d2) = lissage d1 (ms_lissage s1)
                in s1\<lparr>ms_tache := t1, ms_lissage := l1, rf_dx := rf_dx s1 + fst d2, rf_dy := rf_dy s1 + snd d2,
                     ms_smoothed := ms_smoothed s1 @ [d2]\<rparr>)
      else s1)"

definition clamp127 :: "int \<Rightarrow> int" where
  "clamp127 x = (if x > 127 then 127 else if x < -127 then -127 else x)"

definition button_byte :: "bool list \<Rightarrow> u8" where
  "button_byte p = (if p ! 0 then 1 else 0) OR (if p ! 1 then 2 else 0) OR (if p ! 2 then 4 else 0)"

definition mouse_relay_send :: "bool \<Rightarrow> bool \<Rightarrow> u8 \<Rightarrow> int \<Rightarrow> int \<Rightarrow> int \<Rightarrow> mouse \<Rightarrow> mouse \<times> bool" where
  "mouse_relay_send active ack buttons dx dy wheel s =
     (if \<not> active then (s, False)
      else if ack
      then (s\<lparr>ms_delivered := ms_delivered s @
              [rf_encode_hidreport_mouse buttons (word_of_int dx) (word_of_int dy) (word_of_int wheel)]\<rparr>, True)
      else (s, False))"

definition emit_report :: "scan \<Rightarrow> mouse \<Rightarrow> mouse" where
  "emit_report e s =
     (if \<not> sc_active e then s
      else
        let s1 = s\<lparr>wheel_env := ms_wheel s, rf_wheel := rf_wheel s + (ms_wheel s - wheel_env s)\<rparr>;
            px = clamp127 (rf_dx s1); py = clamp127 (rf_dy s1); pw = clamp127 (rf_wheel s1);
            s2 = s1\<lparr>rf_dx := rf_dx s1 - px, rf_dy := rf_dy s1 - py, rf_wheel := rf_wheel s1 - pw\<rparr>;
            btn = button_byte (ms_pressed s2)
        in if px \<noteq> 0 \<or> py \<noteq> 0 \<or> pw \<noteq> 0 \<or> btn \<noteq> btn_env s2 \<or> \<not> btn_ever s2
           then (case mouse_relay_send (sc_active e) (sc_ack e) btn px py pw s2 of
                   (s3, True) \<Rightarrow> s3\<lparr>btn_env := btn, btn_ever := True\<rparr>
                 | (s3, False) \<Rightarrow> s3\<lparr>rf_dx := rf_dx s3 + px, rf_dy := rf_dy s3 + py, rf_wheel := rf_wheel s3 + pw\<rparr>)
           else s2)"

definition mouse_turn :: "scan \<Rightarrow> mouse \<Rightarrow> mouse" where
  "mouse_turn e s = emit_report e (read_sensor e (read_wheel e (read_buttons e s)))"

definition mouse_run :: "scan list \<Rightarrow> mouse \<Rightarrow> mouse" where
  "mouse_run es s = fold mouse_turn es s"

section \<open>The radio\<close>

record mouse_radio =
  mr_present :: bool
  mr_paired :: bool
  mr_cfg :: rf_radio_cfg
  mr_flash :: kv

definition MOUSE_SLOT :: u8 where "MOUSE_SLOT = 0x02"
definition MOUSE_CHANNEL :: u8 where "MOUSE_CHANNEL = 0x52"

definition mouse_nrf_cfg :: rf_radio_cfg where
  "mouse_nrf_cfg = \<lparr>rc_channel = MOUSE_CHANNEL, rc_rx_addr = [0x4B, 0x61, 0x53, 0x65], rc_addr_suffix = MOUSE_SLOT\<rparr>"

text \<open>\<open>ok\<close> is what the start of the driver returns, \<open>present\<close> whether the module answers the probe.\<close>

definition mouse_relay_init :: "(nat \<Rightarrow> nvs_rc) \<Rightarrow> bool \<Rightarrow> bool \<Rightarrow> mouse_radio \<Rightarrow> mouse_radio \<times> bool" where
  "mouse_relay_init rc ok present r =
     (let ((set_id, slot), _) = rf_pairing_load_set_id_half rc 0 MOUSE_SLOT (mr_flash r);
          cfg = (if set_id \<noteq> 0 then rf_apply_set_id set_id slot mouse_nrf_cfg else mouse_nrf_cfg)
      in if \<not> ok then (r, False)
         else
           let r1 = r\<lparr>mr_present := present, mr_cfg := cfg\<rparr>
           in if \<not> present then (r1, False) else (r1\<lparr>mr_paired := (set_id \<noteq> 0)\<rparr>, True))"

definition mouse_relay_active :: "mouse_radio \<Rightarrow> bool" where
  "mouse_relay_active r \<longleftrightarrow> mr_paired r \<and> mr_present r"

text \<open>Up to twenty tries; \<open>replies\<close> is what the radio hears after each, an empty frame when nothing.
  The result of the save ends the pairing.\<close>

datatype pair_result = PairOk | PairNoRadio | PairNotSaved | PairTimeout

fun pair_tries :: "(nat \<Rightarrow> nvs_rc) \<Rightarrow> nat \<Rightarrow> bytes list \<Rightarrow> mouse_radio \<Rightarrow> mouse_radio \<times> pair_result" where
  "pair_tries rc 0 replies r = (r, PairTimeout)"
| "pair_tries rc (Suc n) [] r = (r, PairTimeout)"
| "pair_tries rc (Suc n) (rep # replies) r =
     (case rf_decode_pair_ack rep of
        None \<Rightarrow> pair_tries rc n replies r
      | Some a \<Rightarrow>
          (case rf_pairing_save_half rc 0 (pa_set_id a) (pa_slot a) (pa_mac a) (mr_flash r) of
             (flash, ok, _) \<Rightarrow> (r\<lparr>mr_flash := flash\<rparr>, if ok then PairOk else PairNotSaved)))"

definition mouse_relay_pair :: "(nat \<Rightarrow> nvs_rc) \<Rightarrow> bytes list \<Rightarrow> mouse_radio \<Rightarrow> mouse_radio \<times> pair_result" where
  "mouse_relay_pair rc replies r = (if \<not> mr_present r then (r, PairNoRadio) else pair_tries rc 20 replies r)"

section \<open>Nothing is lost, nothing is sent twice\<close>

definition frame_delta :: "nat \<Rightarrow> bytes \<Rightarrow> int" where
  "frame_delta i f = sint (f ! i)"

lemma clamp_range: "-127 \<le> clamp127 x \<and> clamp127 x \<le> 127"
  by (simp add: clamp127_def)

lemma sint_clamp: "sint (word_of_int (clamp127 x) :: u8) = clamp127 x"
  using clamp_range [of x] by (simp add: sint_sbintrunc' signed_take_bit_int_eq_self)

definition conserved :: "mouse \<Rightarrow> bool" where
  "conserved s \<longleftrightarrow>
     sum_list (map (frame_delta 3) (ms_delivered s)) + rf_dx s = sum_list (map fst (ms_smoothed s)) \<and>
     sum_list (map (frame_delta 4) (ms_delivered s)) + rf_dy s = sum_list (map snd (ms_smoothed s)) \<and>
     sum_list (map (frame_delta 5) (ms_delivered s)) + rf_wheel s + (ms_wheel s - wheel_env s) = ms_wheel s"

lemma frame_fields [simp]:
  "frame_delta 3 (rf_encode_hidreport_mouse b x y w) = sint x" "frame_delta 4 (rf_encode_hidreport_mouse b x y w) = sint y"
  "frame_delta 5 (rf_encode_hidreport_mouse b x y w) = sint w"
  by (simp_all add: frame_delta_def rf_encode_hidreport_mouse_def)

lemma conserved_emit: "conserved s \<Longrightarrow> conserved (emit_report e s)"
  by (simp add: emit_report_def conserved_def mouse_relay_send_def Let_def sint_clamp)

lemma conserved_sensor: "conserved s \<Longrightarrow> conserved (read_sensor e s)"
  by (simp add: read_sensor_def conserved_def Let_def split: option.splits prod.splits)

lemma conserved_wheel: "conserved s \<Longrightarrow> conserved (read_wheel e s)"
  by (simp add: read_wheel_def conserved_def Let_def)

lemma conserved_turn: "conserved s \<Longrightarrow> conserved (mouse_turn e s)"
  by (simp add: mouse_turn_def conserved_emit conserved_sensor conserved_wheel)
    (intro conserved_emit conserved_sensor conserved_wheel, simp add: read_buttons_def conserved_def)


text \<open>A scan with a movement of the sensor; the buttons are up and the dongle answers or not.\<close>

definition demo_scan :: "bool \<Rightarrow> bool \<Rightarrow> u8 \<Rightarrow> delta \<Rightarrow> scan" where
  "demo_scan left ack enc d = \<lparr>sc_contacts = [(\<not> left, left), (True, False), (True, False)], sc_enc = enc, sc_motion = Some d,
     sc_active = True, sc_ack = ack\<rparr>"


section \<open>The buttons\<close>

definition sound :: "mouse_contact \<Rightarrow> bool" where
  "sound c \<longleftrightarrow> c = MOUSE_CONTACT_PRESSED \<or> c = MOUSE_CONTACT_RELEASED"

text \<open>The buttons of the last frame the dongle has.\<close>

definition host_buttons :: "mouse \<Rightarrow> u8" where
  "host_buttons s = (if ms_delivered s = [] then 0 else last (ms_delivered s) ! 2)"

definition btn_known :: "mouse \<Rightarrow> bool" where
  "btn_known s \<longleftrightarrow> (if btn_ever s then ms_delivered s \<noteq> [] \<and> btn_env s = host_buttons s else ms_delivered s = [] \<and> btn_env s = 0)"

lemma frame_buttons [simp]: "rf_encode_hidreport_mouse b x y w ! 2 = b"
  by (simp add: rf_encode_hidreport_mouse_def)

lemma emit_asleep: "\<not> sc_active e \<Longrightarrow> emit_report e s = s"
  by (simp add: emit_report_def)

lemma emit_unheard:
  assumes "sc_active e" "\<not> sc_ack e"
  shows "ms_delivered (emit_report e s) = ms_delivered s \<and> btn_env (emit_report e s) = btn_env s \<and>
    btn_ever (emit_report e s) = btn_ever s"
  using assms by (simp add: emit_report_def mouse_relay_send_def Let_def)

lemma emit_heard:
  assumes "sc_active e" "sc_ack e" and "t = emit_report e s" "b = button_byte (ms_pressed s)"
  shows "btn_env t = b \<and> btn_ever t \<and>
    (ms_delivered t = ms_delivered s \<and> btn_env s = b \<and> btn_ever s \<or>
     (\<exists>x y w. ms_delivered t = ms_delivered s @ [rf_encode_hidreport_mouse b x y w]))"
  unfolding assms(3,4) using assms(1,2)
  by (simp add: emit_report_def mouse_relay_send_def Let_def) blast

lemma known_emit: "btn_known s \<Longrightarrow> btn_known (emit_report e s)"
proof -
  assume k: "btn_known s"
  consider "\<not> sc_active e" | "sc_active e" "\<not> sc_ack e" | "sc_active e" "sc_ack e" by blast
  then show ?thesis
  proof cases
    case 1
    then show ?thesis using k by (simp add: emit_asleep)
  next
    case 2
    then show ?thesis using k emit_unheard [OF 2, of s] by (simp add: btn_known_def host_buttons_def)
  next
    case 3
    show ?thesis using emit_heard [OF 3 refl refl, of s]
    proof (elim conjE disjE exE)
      assume "btn_env s = button_byte (ms_pressed s)" "btn_ever s" "ms_delivered (emit_report e s) = ms_delivered s"
        "btn_env (emit_report e s) = button_byte (ms_pressed s)" "btn_ever (emit_report e s)"
      then show ?thesis using k by (simp add: btn_known_def host_buttons_def)
    next
      fix x y w
      assume "ms_delivered (emit_report e s) = ms_delivered s @ [rf_encode_hidreport_mouse (button_byte (ms_pressed s)) x y w]"
        "btn_env (emit_report e s) = button_byte (ms_pressed s)" "btn_ever (emit_report e s)"
      then show ?thesis by (simp add: btn_known_def host_buttons_def)
    qed
  qed
qed

lemma sensor_keeps [simp]:
  "ms_delivered (read_sensor e s) = ms_delivered s" "btn_env (read_sensor e s) = btn_env s"
  "btn_ever (read_sensor e s) = btn_ever s" "ms_pressed (read_sensor e s) = ms_pressed s"
  "ms_wheel (read_sensor e s) = ms_wheel s" "ms_wheel_missed (read_sensor e s) = ms_wheel_missed s"
  "ms_enc_prev (read_sensor e s) = ms_enc_prev s"
  by (simp_all add: read_sensor_def Let_def split: option.split prod.split)

lemma wheel_keeps [simp]:
  "ms_delivered (read_wheel e s) = ms_delivered s" "btn_env (read_wheel e s) = btn_env s"
  "btn_ever (read_wheel e s) = btn_ever s" "ms_pressed (read_wheel e s) = ms_pressed s"
  by (simp_all add: read_wheel_def Let_def)

lemma buttons_keep [simp]:
  "ms_delivered (read_buttons e s) = ms_delivered s" "btn_env (read_buttons e s) = btn_env s"
  "btn_ever (read_buttons e s) = btn_ever s" "ms_wheel (read_buttons e s) = ms_wheel s"
  "ms_wheel_missed (read_buttons e s) = ms_wheel_missed s" "ms_enc_prev (read_buttons e s) = ms_enc_prev s"
  by (simp_all add: read_buttons_def)

lemma emit_keeps [simp]:
  "ms_pressed (emit_report e s) = ms_pressed s" "ms_wheel (emit_report e s) = ms_wheel s"
  "ms_wheel_missed (emit_report e s) = ms_wheel_missed s" "ms_enc_prev (emit_report e s) = ms_enc_prev s"
  by (simp_all add: emit_report_def mouse_relay_send_def Let_def)

lemma known_turn: "btn_known s \<Longrightarrow> btn_known (mouse_turn e s)"
  unfolding mouse_turn_def by (rule known_emit) (simp add: btn_known_def host_buttons_def)

lemma pressed_turn: "ms_pressed (mouse_turn e s) = ms_pressed (read_buttons e s)"
  by (simp add: mouse_turn_def)

text \<open>The last reading of a button that is neither bouncing nor impossible.\<close>

definition button_reading :: "scan list \<Rightarrow> nat \<Rightarrow> bool" where
  "button_reading es i =
     (case filter sound (map (\<lambda>e. mouse_contact_decode (fst (sc_contacts e ! i)) (snd (sc_contacts e ! i))) (rev es)) of
        [] \<Rightarrow> False | c # _ \<Rightarrow> c = MOUSE_CONTACT_PRESSED)"

lemma pressed_run:
  "i < 3 \<Longrightarrow> ms_pressed (mouse_run es (mouse_boot enc)) ! i = button_reading es i"
proof (induction es rule: rev_induct)
  case Nil
  then show ?case by (auto simp: mouse_run_def mouse_boot_def button_reading_def less_Suc_eq numeral_3_eq_3)
next
  case (snoc e es)
  then show ?case
    by (cases "mouse_contact_decode (fst (sc_contacts e ! i)) (snd (sc_contacts e ! i))")
      (simp_all add: mouse_run_def pressed_turn read_buttons_def mouse_button_next_def button_reading_def sound_def)
qed

text \<open>
  A button is what its last clear reading says, however often the contacts bounce before and after:
  neither a bounce nor an impossible pair of levels makes an edge. And after every turn in which the radio
  is up and the dongle acknowledges, the dongle has exactly these buttons.
\<close>

theorem mouse_buttons_reach_host:
  assumes "s = mouse_run (es @ [e]) (mouse_boot enc)"
  shows "(\<forall>i<3. ms_pressed s ! i = button_reading (es @ [e]) i) \<and>
    (sc_active e \<and> sc_ack e \<longrightarrow> host_buttons s = button_byte (map (button_reading (es @ [e])) [0..<3]))"
proof -
  have pressed: "\<forall>i<3. ms_pressed s ! i = button_reading (es @ [e]) i"
    unfolding assms by (intro allI impI pressed_run)
  have "btn_known (mouse_run es t)" if "btn_known t" for es t
    using that by (induction es arbitrary: t) (simp_all add: mouse_run_def known_turn)
  then have known: "btn_known s" by (simp add: assms btn_known_def mouse_boot_def)
  define t where "t = read_sensor e (read_wheel e (read_buttons e (mouse_run es (mouse_boot enc))))"
  have s: "s = emit_report e t" by (simp add: assms t_def mouse_run_def mouse_turn_def)
  have "button_byte (ms_pressed s) = button_byte (map (button_reading (es @ [e])) [0..<3])"
    using pressed by (simp add: button_byte_def numeral_2_eq_2)
  moreover have "btn_env s = button_byte (ms_pressed s) \<and> btn_ever s" if "sc_active e" "sc_ack e"
    using emit_heard [OF that s refl] by (simp add: s)
  moreover have "host_buttons s = btn_env s" if "btn_ever s" using known that by (simp add: btn_known_def)
  ultimately show ?thesis using pressed by metis
qed

lemma mouse_buttons_reach_host_witness:
  "let s = mouse_run ([demo_scan False True 0 (0, 0)] @ [demo_scan True True 0 (0, 0)]) (mouse_boot 0) in
     host_buttons s = button_byte (map (button_reading ([demo_scan False True 0 (0, 0)] @ [demo_scan True True 0 (0, 0)])) [0..<3]) \<and>
     host_buttons s = 1"
proof -
  define s where "s = mouse_run ([demo_scan False True 0 (0, 0)] @ [demo_scan True True 0 (0, 0)]) (mouse_boot 0)"
  have "host_buttons s = 1" "sc_active (demo_scan True True 0 (0, 0))" "sc_ack (demo_scan True True 0 (0, 0))"
    unfolding s_def by code_simp+
  then show ?thesis unfolding Let_def s_def [symmetric] using mouse_buttons_reach_host [OF s_def] by simp
qed

section \<open>The wheel\<close>

text \<open>The channels at quarter turn \<open>k\<close>.\<close>

definition quad_at :: "int \<Rightarrow> u8" where
  "quad_at k = [0, 2, 3, 1] ! nat (k mod 4)"

lemma quad_table:
  "\<forall>m\<in>set [0..<4]. \<forall>d\<in>{-1, 0, 1}. mouse_wheel_step ([0, 2, 3, 1] ! m) ([0, 2, 3, 1] ! nat ((int m + d) mod 4)) = d \<and>
     ([0, 2, 3, 1] ! m = ([0, 2, 3, 1] ! nat ((int m + d) mod 4) :: u8) \<longleftrightarrow> d = 0)"
  by code_simp

lemma quad_step:
  assumes "\<bar>k' - k\<bar> \<le> 1"
  shows "mouse_wheel_step (quad_at k) (quad_at k') = k' - k \<and> (quad_at k = quad_at k' \<longleftrightarrow> k = k')"
proof -
  have "nat (k mod 4) \<in> set [0..<4]" "k' - k \<in> {-1, 0, 1}" using assms by auto
  moreover have "(int (nat (k mod 4)) + (k' - k)) mod 4 = k' mod 4" by (simp add: mod_add_left_eq)
  ultimately show ?thesis using bspec [OF bspec [OF quad_table], of "nat (k mod 4)" "k' - k"]
    by (simp only: quad_at_def eq_iff_diff_eq_0 [of k' k] eq_commute [of k k'])
qed

text \<open>
  While the wheel turns by at most one quarter step between two turns of the task, in any directions, the
  counter is the net rotation since the start and no step is counted as missed.
\<close>

theorem wheel_counts_net_turns:
  assumes "length ks = length es" "\<forall>i<length es. sc_enc (es ! i) = quad_at (ks ! i)"
    and "\<forall>i<length es. \<bar>ks ! i - (k0 # ks) ! i\<bar> \<le> 1"
    and "s = mouse_run es (mouse_boot (quad_at k0))"
  shows "ms_wheel s = last (k0 # ks) - k0 \<and> ms_wheel_missed s = 0"
proof -
  have "n \<le> length es \<Longrightarrow> let t = mouse_run (take n es) (mouse_boot (quad_at k0)) in
      ms_wheel t = (k0 # ks) ! n - k0 \<and> ms_wheel_missed t = 0 \<and> ms_enc_prev t = quad_at ((k0 # ks) ! n)" for n
  proof (induction n)
    case 0
    then show ?case by (simp add: mouse_run_def mouse_boot_def)
  next
    case (Suc n)
    define t where "t = mouse_run (take n es) (mouse_boot (quad_at k0))"
    have IH: "ms_wheel t = (k0 # ks) ! n - k0" "ms_wheel_missed t = 0" "ms_enc_prev t = quad_at ((k0 # ks) ! n)"
      using Suc by (simp_all add: t_def Let_def)
    have run: "mouse_run (take (Suc n) es) (mouse_boot (quad_at k0)) = mouse_turn (es ! n) t"
      using Suc.prems by (simp add: mouse_run_def t_def take_Suc_conv_app_nth)
    have enc: "sc_enc (es ! n) = quad_at (ks ! n)" and step: "\<bar>ks ! n - (k0 # ks) ! n\<bar> \<le> 1"
      using assms(2,3) Suc.prems by simp_all
    have "quad_at (ks ! n) \<noteq> quad_at ((k0 # ks) ! n)" if "(k0 # ks) ! n \<noteq> ks ! n" using quad_step [OF step] that by metis
    then show ?case using IH enc quad_step [OF step]
      by (cases "(k0 # ks) ! n = ks ! n") (simp_all add: Let_def run mouse_turn_def read_wheel_def)
  qed
  from this [of "length es"] show ?thesis using assms(1,4)
    by (cases "es = []") (auto simp: Let_def last_conv_nth nth_Cons')
qed

lemma wheel_counts_net_turns_witness:
  "ms_wheel (mouse_run (map (\<lambda>k. demo_scan False True (quad_at k) (0, 0)) [1, 2, 1, 0, -1]) (mouse_boot (quad_at 0))) = -1"
proof -
  define es where "es = map (\<lambda>k. demo_scan False True (quad_at k) (0, 0)) [1, 2, 1, 0, -1]"
  have "\<forall>i<length es. sc_enc (es ! i) = quad_at ([1, 2, 1, 0, -1] ! i)"
    "\<forall>i<length es. \<bar>[1, 2, 1, 0, -1] ! i - [0, 1, 2, 1, 0, -1] ! i\<bar> \<le> (1::int)" "length [1, 2, 1, 0, -1::int] = length es"
    unfolding es_def by code_simp+
  from wheel_counts_net_turns [OF this(3,1,2) refl] show ?thesis by (simp add: es_def)
qed

section \<open>The filters\<close>

text \<open>What a run of samples puts out, from a state of the filter.\<close>

fun lissage_run :: "delta list \<Rightarrow> (int \<times> int) \<times> (int \<times> int) \<Rightarrow> ((int \<times> int) \<times> (int \<times> int)) \<times> delta list" where
  "lissage_run [] st = (st, [])"
| "lissage_run (d # ds) st = (let (st1, out) = lissage d st; (st2, outs) = lissage_run ds st1 in (st2, out # outs))"

lemma to_i16_id: "-32768 \<le> x \<Longrightarrow> x \<le> 32767 \<Longrightarrow> to_i16 x = x"
  by (simp add: to_i16_def sint_sbintrunc' signed_take_bit_int_eq_self)

definition creeping :: "int \<times> int \<Rightarrow> bool" where
  "creeping a \<longleftrightarrow> 0 < fst a \<and> fst a \<le> 8388352 \<and> 0 \<le> snd a \<and> snd a < 256"

lemma emitted:
  assumes "0 < e" "e \<le> 8388352" "0 \<le> r" "r < 256" "c = r + e"
  shows "to_i16 (c sdiv 256) = c div 256 \<and> creeping (e, c - c sdiv 256 * 256) \<and> e \<le> 256 * (c div 256) + (c - c sdiv 256 * 256) - r"
proof -
  have "c sdiv 256 = c div 256" using assms by (simp add: signed_divide_int_def)
  moreover have "0 \<le> c div 256" "c div 256 \<le> 32767" using assms by (simp, linarith)
  ultimately show ?thesis using assms by (simp add: to_i16_id creeping_def minus_div_mult_eq_mod)
qed

lemma creep_axis:
  assumes "creeping a" "lissage_axis 38 0 a = (b, out)"
  shows "creeping b \<and> 1 \<le> 256 * out + snd b - snd a"
proof -
  obtain e r where a: "a = (e, r)" by fastforce
  define e1 where "e1 = e - (e * 38) div 256"
  have b: "0 < e" "e \<le> 8388352" "0 \<le> r" "r < 256" using assms(1) by (simp_all add: a creeping_def)
  have e1: "e + ((0 * 256 - e) * 38) sdiv 256 = e1" using b by (simp add: e1_def signed_divide_int_def)
  have "0 < e1" "e1 \<le> 8388352" using b unfolding e1_def by linarith+
  moreover have "lissage_axis 38 0 a = ((e1, r + e1 - (r + e1) sdiv 256 * 256), to_i16 ((r + e1) sdiv 256))"
    by (simp only: a lissage_axis_def prod.case Let_def e1)
  then have "b = (e1, r + e1 - (r + e1) sdiv 256 * 256)" "out = to_i16 ((r + e1) sdiv 256)" using assms(2) by simp_all
  ultimately show ?thesis using emitted [OF _ _ b(3,4) refl, of e1] by (simp add: a)
qed

lemma at_rest: "lissage (0, 0) st = (let (sx, ox) = lissage_axis 38 0 (fst st); (sy, oy) = lissage_axis 38 0 (snd st) in ((sx, sy), (ox, oy)))"
  by (simp add: lissage_def lissage_alpha_def LISSAGE_ALPHA_MIN_def LISSAGE_VITESSE_MAX_def split_beta)

lemma creep_run:
  assumes "creeping (fst st)" "lissage_run (replicate n (0, 0)) st = (st', outs)"
  shows "creeping (fst st') \<and> int n \<le> 256 * sum_list (map fst outs) + snd (fst st') - snd (fst st)"
  using assms
proof (induction n arbitrary: st outs)
  case 0
  then show ?case by simp
next
  case (Suc n)
  obtain sx ox sy oy where x: "lissage_axis 38 0 (fst st) = (sx, ox)" and y: "lissage_axis 38 0 (snd st) = (sy, oy)" by fastforce
  obtain outs1 where r: "lissage_run (replicate n (0, 0)) (sx, sy) = (st', outs1)" and o: "outs = (ox, oy) # outs1"
    using Suc.prems(2) by (auto simp: at_rest x y split: prod.splits)
  have "creeping sx" "1 \<le> 256 * ox + snd sx - snd (fst st)" using creep_axis [OF Suc.prems(1) x] by simp_all
  then show ?case using Suc.IH [OF _ r] by (simp add: o)
qed

text \<open>
  C21: The smoothing filter does not come to rest: after one movement to the right, samples without any movement
  still move the pointer, one count in 256 samples at the least and without end, because the decay of
  the speed is rounded to zero while the speed is still positive. Within any number of counts the
  pointer leaves the place where the hand stopped, against the comment that the filter preserves
  the total distance.
\<close>

theorem pointer_creeps_at_rest:
  assumes "0 < fst d" "fst d \<le> 32767" and "lissage_run (d # replicate n (0, 0)) ((0, 0), (0, 0)) = (st, outs)"
  shows "int n \<le> 256 * sum_list (map fst outs) + 255 \<and> 0 < fst (fst st)"
proof -
  obtain sx ox sy oy where x: "lissage_axis (lissage_alpha d) (fst d) (0, 0) = (sx, ox)"
    and y: "lissage_axis (lissage_alpha d) (snd d) (0, 0) = (sy, oy)" by fastforce
  obtain outs1 where r: "lissage_run (replicate n (0, 0)) (sx, sy) = (st, outs1)" and o: "outs = (ox, oy) # outs1"
    using assms(3) by (auto simp: lissage_def x y split: prod.splits)
  define a where "a = lissage_alpha d"
  have a: "38 \<le> a" "a \<le> 256"
  proof -
    define v where "v = min (\<bar>fst d\<bar> + \<bar>snd d\<bar>) 8"
    have v: "0 \<le> v" "v \<le> 8" by (simp_all add: v_def)
    then have "(218 * v) sdiv 8 = 218 * v div 8" by (cases "v = 0") (simp_all add: signed_divide_int_def)
    then have "a = 38 + 218 * v div 8"
      by (simp add: a_def v_def lissage_alpha_def LISSAGE_ALPHA_MIN_def LISSAGE_VITESSE_MAX_def)
    then show "38 \<le> a" "a \<le> 256" using v by simp_all
  qed
  define e where "e = fst d * a"
  have "fst d * 1 \<le> e" "e \<le> 32767 * 256" unfolding e_def using assms(1,2) a by (intro mult_mono; simp)+
  then have e: "0 < e" "e \<le> 8388352" using assms(1) by simp_all
  have "(fst d * 256 * a) sdiv 256 = e" using assms(1) a by (simp add: signed_divide_int_def e_def abs_mult)
  then have "creeping sx" "snd sx \<le> 255" "e \<le> 256 * ox + snd sx" 
    using emitted [OF e order_refl _ refl] x by (auto simp: lissage_axis_def a_def [symmetric] Let_def creeping_def)
  then show ?thesis using creep_run [OF _ r] e by (auto simp: o creeping_def)
qed

lemma pointer_creeps_at_rest_witness:
  "int 600 \<le> 256 * sum_list (map fst (snd (lissage_run ((1, 0) # replicate 600 (0, 0)) ((0, 0), (0, 0))))) + 255"
  using pointer_creeps_at_rest [of "(1, 0)" 600, OF _ _ prod.collapse [symmetric]] by simp


end
