(* ===== verification/Trackpad.thy ===== *)
theory Trackpad
  imports Feature_Store Mouse
begin

unbundle bit_operations_syntax

text \<open>
  The trackpad engine, \<open>main/periph/trackpad/trackpad_map.c\<close> and \<open>trackpad_cfg.c\<close>: from what the touch
  chip reports of a frame to mouse movements, scrolling and clicks. It is built and tested on the host. Sixteen-bit
  numbers are integers in their range; the products that C computes in 32 bits stay below \<open>2 ^ 31\<close>, so they are
  those of the integers, and \<open>to_i16\<close> is written where the code narrows.
\<close>

section \<open>Configuration\<close>

record trackpad_cfg =
  tc_fmt :: u8
  tc_base :: u16
  tc_accel :: u16
  tc_gain_max :: u16

definition TRACKPAD_CFG_FMT :: u8 where "TRACKPAD_CFG_FMT = 1"
definition TRACKPAD_CFG_SIZE :: nat where "TRACKPAD_CFG_SIZE = 7"
definition TRACKPAD_ACCEL_DEN :: int where "TRACKPAD_ACCEL_DEN = 100"

definition trackpad_cfg_encode :: "trackpad_cfg \<Rightarrow> bytes" where
  "trackpad_cfg_encode c = [tc_fmt c] @ u16_bytes (tc_base c) @ u16_bytes (tc_accel c) @ u16_bytes (tc_gain_max c)"

definition trackpad_cfg_decode :: "bytes \<Rightarrow> trackpad_cfg option" where
  "trackpad_cfg_decode buf =
     (let read = (\<lambda>fmt p. Some \<lparr>tc_fmt = fmt, tc_base = be16 (p ! 1) (p ! 0), tc_accel = be16 (p ! 3) (p ! 2),
          tc_gain_max = be16 (p ! 5) (p ! 4)\<rparr>)
      in if length buf \<ge> TRACKPAD_CFG_SIZE then read (buf ! 0) (drop 1 buf)
         else if length buf \<ge> 6 then read TRACKPAD_CFG_FMT buf
         else None)"

definition cfg_default :: trackpad_cfg where
  "cfg_default = \<lparr>tc_fmt = TRACKPAD_CFG_FMT, tc_base = 90, tc_accel = 40, tc_gain_max = 300\<rparr>"

definition cfg_valid :: "trackpad_cfg \<Rightarrow> bool" where
  "cfg_valid c \<longleftrightarrow> tc_gain_max c \<le> 1000 \<and> tc_accel c \<le> 1000 \<and> tc_base c \<ge> 1 \<and> tc_base c \<le> tc_gain_max c"

text \<open>The structure in memory has a byte of padding after the format.\<close>

definition cfg_struct :: "u8 \<Rightarrow> trackpad_cfg \<Rightarrow> bytes" where
  "cfg_struct pad c = [tc_fmt c, pad] @ u16_bytes (tc_base c) @ u16_bytes (tc_accel c) @ u16_bytes (tc_gain_max c)"

definition struct_cfg :: "bytes \<Rightarrow> trackpad_cfg" where
  "struct_cfg b = \<lparr>tc_fmt = b ! 0, tc_base = be16 (b ! 3) (b ! 2), tc_accel = be16 (b ! 5) (b ! 4), tc_gain_max = be16 (b ! 7) (b ! 6)\<rparr>"

text \<open>\<open>tmp\<close> is the uninitialised local of the load; it is used when the blob was read.\<close>

definition trackpad_cfg_load :: "(nat \<Rightarrow> nvs_rc) \<Rightarrow> nat \<Rightarrow> bytes \<Rightarrow> kv \<Rightarrow> trackpad_cfg \<Rightarrow> trackpad_cfg" where
  "trackpad_cfg_load rc io tmp flash c =
     (let read = rc io = NvsOk \<and> \<not> size_differs rc (io + 1) ''tp_cfg'' 8 flash \<and>
            (case get_blob rc (io + 2) ''tp_cfg'' flash of Some b \<Rightarrow> length b \<le> 8 | None \<Rightarrow> False);
          t = struct_cfg (load_table rc io ''tp_cfg'' tmp flash)
      in if read \<and> tc_fmt t = TRACKPAD_CFG_FMT \<and> cfg_valid t then t else c)"

definition trackpad_cfg_apply_and_save ::
  "(nat \<Rightarrow> nvs_rc) \<Rightarrow> nat \<Rightarrow> u8 \<Rightarrow> trackpad_cfg \<Rightarrow> kv \<times> trackpad_cfg \<Rightarrow> (kv \<times> trackpad_cfg) \<times> bool" where
  "trackpad_cfg_apply_and_save rc io pad c = (\<lambda>(flash, cur).
     if \<not> cfg_valid c then ((flash, cur), False)
     else
       let c1 = c\<lparr>tc_fmt := TRACKPAD_CFG_FMT\<rparr>
       in ((fst (save_table rc io ''tp_cfg'' ''tp_cfg_tot'' (cfg_struct pad c1) 0 flash), c1), True))"

section \<open>Gestures\<close>

record tp_frame =
  ge0 :: u8
  ge1 :: u8
  n_fingers :: u8
  rel_x :: int
  rel_y :: int

record tp_state =
  pending_release :: bool
  drag_active :: bool
  peak_fingers :: u8

record tp_out =
  tp_dx :: int
  tp_dy :: int
  tp_buttons :: u8
  tp_scroll_v :: int
  tp_scroll_h :: int

definition tp_start :: tp_state where
  "tp_start = \<lparr>pending_release = False, drag_active = False, peak_fingers = 0\<rparr>"

definition tp_none :: tp_out where
  "tp_none = \<lparr>tp_dx = 0, tp_dy = 0, tp_buttons = 0, tp_scroll_v = 0, tp_scroll_h = 0\<rparr>"

definition single_tap :: "tp_frame \<Rightarrow> bool" where "single_tap f \<longleftrightarrow> ge0 f AND 0x01 \<noteq> 0"
definition press_hold :: "tp_frame \<Rightarrow> bool" where "press_hold f \<longleftrightarrow> ge0 f AND 0x02 \<noteq> 0"
definition two_finger_tap :: "tp_frame \<Rightarrow> bool" where "two_finger_tap f \<longleftrightarrow> ge1 f AND 0x01 \<noteq> 0"
definition scroll_active :: "tp_frame \<Rightarrow> bool" where "scroll_active f \<longleftrightarrow> ge1 f AND 0x02 \<noteq> 0"

definition iabs16 :: "int \<Rightarrow> int" where "iabs16 v = (if v < 0 then to_i16 (- v) else v)"

definition tp_gain :: "trackpad_cfg \<Rightarrow> int \<Rightarrow> int \<Rightarrow> int" where
  "tp_gain c x y =
     (let speed = (if iabs16 x > iabs16 y then iabs16 x else iabs16 y);
          g = uint (tc_base c) + (uint (tc_accel c) * speed) sdiv TRACKPAD_ACCEL_DEN;
          g1 = (if g < uint (tc_base c) then uint (tc_base c) else g)
      in if g1 > uint (tc_gain_max c) then uint (tc_gain_max c) else g1)"

definition tp_scaled :: "trackpad_cfg \<Rightarrow> int \<Rightarrow> int \<Rightarrow> int \<Rightarrow> int" where
  "tp_scaled c x y v = clamp127 (to_i16 ((v * tp_gain c x y) sdiv 100))"

text \<open>The drag: the new state, whether the left button is down, whether the frame must be sent and
  whether the drag has just ended.\<close>

definition tp_drag :: "tp_frame \<Rightarrow> tp_state \<Rightarrow> tp_state \<times> bool \<times> bool \<times> bool" where
  "tp_drag f s =
     (let begins = press_hold f \<and> \<not> drag_active s; s1 = (if begins then s\<lparr>drag_active := True\<rparr> else s) in
      if drag_active s1
      then if n_fingers f = 0 then (s1\<lparr>drag_active := False\<rparr>, False, True, True) else (s1, True, begins, False)
      else (s1, False, begins, False))"

definition tp_move :: "trackpad_cfg \<Rightarrow> tp_frame \<Rightarrow> tp_state \<Rightarrow> tp_out \<Rightarrow> tp_out" where
  "tp_move c f s out =
     (if scroll_active f
      then out\<lparr>tp_scroll_v := clamp127 (to_i16 (rel_y f sdiv 8)), tp_scroll_h := clamp127 (to_i16 (rel_x f sdiv 8))\<rparr>
      else if \<not> drag_active s \<or> n_fingers f > 0
      then out\<lparr>tp_dx := tp_scaled c (rel_x f) (rel_y f) (rel_x f), tp_dy := tp_scaled c (rel_x f) (rel_y f) (rel_y f)\<rparr>
      else out)"

definition tp_tap :: "tp_frame \<Rightarrow> bool \<Rightarrow> tp_state \<times> tp_out \<times> bool \<Rightarrow> tp_state \<times> tp_out \<times> bool" where
  "tp_tap f just_ended = (\<lambda>(s, out, force).
     if pending_release s then (s\<lparr>pending_release := False\<rparr>, out\<lparr>tp_buttons := 0\<rparr>, True)
     else if \<not> drag_active s \<and> \<not> just_ended
     then if two_finger_tap f then (s\<lparr>pending_release := True\<rparr>, out\<lparr>tp_buttons := 2\<rparr>, True)
          else if single_tap f
          then (s\<lparr>pending_release := True\<rparr>, out\<lparr>tp_buttons := (if peak_fingers s \<ge> 3 then 4 else 1)\<rparr>, True)
          else (s, out, force)
     else (s, out, force))"

definition tp_active :: "tp_out \<Rightarrow> bool" where
  "tp_active out \<longleftrightarrow> tp_dx out \<noteq> 0 \<or> tp_dy out \<noteq> 0 \<or> tp_scroll_v out \<noteq> 0 \<or> tp_scroll_h out \<noteq> 0 \<or> tp_buttons out \<noteq> 0"

definition trackpad_map :: "trackpad_cfg \<Rightarrow> tp_frame \<Rightarrow> tp_state \<Rightarrow> tp_state \<times> tp_out \<times> bool" where
  "trackpad_map c f s =
     (let s1 = (if n_fingers f > peak_fingers s then s\<lparr>peak_fingers := n_fingers f\<rparr> else s);
          (s2, left, force, just_ended) = tp_drag f s1;
          out = tp_move c f s2 (if left then tp_none\<lparr>tp_buttons := 1\<rparr> else tp_none);
          (s3, out3, force3) = tp_tap f just_ended (s2, out, force)
      in (if n_fingers f = 0 then s3\<lparr>peak_fingers := 0\<rparr> else s3, out3, force3 \<or> tp_active out3))"

section \<open>What the host has\<close>

text \<open>The packets of a run of frames, and the buttons after the last one.\<close>

fun tp_run :: "trackpad_cfg \<Rightarrow> tp_frame list \<Rightarrow> tp_state \<Rightarrow> tp_state \<times> tp_out list" where
  "tp_run c [] s = (s, [])"
| "tp_run c (f # fs) s =
     (case trackpad_map c f s of (s1, out, send) \<Rightarrow>
        (case tp_run c fs s1 of (s2, outs) \<Rightarrow> (s2, if send then out # outs else outs)))"

definition host_tp_buttons :: "tp_out list \<Rightarrow> u8" where
  "host_tp_buttons outs = (if outs = [] then 0 else tp_buttons (last outs))"

lemma run_append:
  "tp_run c (fs @ gs) s = (case tp_run c fs s of (s1, outs) \<Rightarrow> (case tp_run c gs s1 of (s2, outs2) \<Rightarrow> (s2, outs @ outs2)))"
  by (induction fs arbitrary: s) (auto split: prod.splits)

text \<open>Buttons the host has down are on the way to being released.\<close>

definition tp_inv :: "tp_state \<Rightarrow> u8 \<Rightarrow> bool" where
  "tp_inv s b \<longleftrightarrow> b \<noteq> 0 \<longrightarrow> pending_release s \<or> drag_active s"

definition after_frame :: "tp_out \<Rightarrow> bool \<Rightarrow> u8 \<Rightarrow> u8" where
  "after_frame out send b = (if send then tp_buttons out else b)"

lemma move_keeps: "tp_buttons (tp_move c f s out) = tp_buttons out"
  by (simp add: tp_move_def)

lemma drag_cases:
  assumes "tp_drag f s = (s1, left, force, ended)"
  shows "pending_release s1 = pending_release s \<and> left = drag_active s1 \<and> (n_fingers f = 0 \<longrightarrow> \<not> drag_active s1) \<and>
    (drag_active s \<and> \<not> drag_active s1 \<longrightarrow> force)"
  using assms by (auto simp: tp_drag_def Let_def split: if_splits)

lemma tap_cases:
  assumes "tp_tap f ended (s, out, force) = (s1, out1, force1)"
  shows "drag_active s1 = drag_active s \<and>
    (if pending_release s then tp_buttons out1 = 0 \<and> force1
     else pending_release s1 \<and> force1 \<and> (single_tap f \<or> two_finger_tap f) \<or> out1 = out \<and> force1 = force)"
  using assms by (auto simp: tp_tap_def split: if_splits)

lemma tp_step_inv:
  assumes "tp_inv s b" "trackpad_map c f s = (s1, out, send)"
  shows "tp_inv s1 (after_frame out send b) \<and>
    (n_fingers f = 0 \<and> \<not> single_tap f \<and> \<not> two_finger_tap f \<longrightarrow> after_frame out send b = 0)"
proof -
  define s0 where "s0 = (if n_fingers f > peak_fingers s then s\<lparr>peak_fingers := n_fingers f\<rparr> else s)"
  have s0: "pending_release s0 = pending_release s" "drag_active s0 = drag_active s" by (simp_all add: s0_def)
  obtain s2 left force ended where d: "tp_drag f s0 = (s2, left, force, ended)" using prod_cases4 by blast
  define m where "m = tp_move c f s2 (if left then tp_none\<lparr>tp_buttons := 1\<rparr> else tp_none)"
  obtain s3 out3 force3 where t: "tp_tap f ended (s2, m, force) = (s3, out3, force3)" using prod_cases3 by blast
  have s1: "pending_release s1 = pending_release s3" "drag_active s1 = drag_active s3"
    and out: "out = out3" "send = (force3 \<or> tp_active out3)"
    using assms(2) by (auto simp: trackpad_map_def s0_def [symmetric] d m_def [symmetric] t Let_def split: if_splits)
  have m: "tp_buttons m = (if left then 1 else 0)" by (simp add: m_def move_keeps tp_none_def)
  have on: "tp_buttons out3 \<noteq> 0 \<Longrightarrow> tp_active out3" by (simp add: tp_active_def)
  show ?thesis
    using assms(1) drag_cases [OF d] tap_cases [OF t] m on
    unfolding tp_inv_def after_frame_def s1 out s0 by (cases "pending_release s"; cases "drag_active s2") auto
qed

lemma tp_run_inv:
  assumes "tp_inv s b" "tp_run c fs s = (s1, outs)"
  shows "tp_inv s1 (if outs = [] then b else tp_buttons (last outs))"
  using assms
proof (induction fs arbitrary: s b outs)
  case Nil
  then show ?case by simp
next
  case (Cons f fs)
  obtain s2 out send where m: "trackpad_map c f s = (s2, out, send)" using prod_cases3 by blast
  obtain outs1 where r: "tp_run c fs s2 = (s1, outs1)" and o: "outs = (if send then out # outs1 else outs1)"
    using Cons.prems(2) by (auto simp: m split: prod.splits)
  have "tp_inv s2 (after_frame out send b)" using tp_step_inv [OF Cons.prems(1) m] by simp
  from Cons.IH [OF this r] show ?case by (cases "outs1 = []"; cases send) (simp_all add: o after_frame_def)
qed

text \<open>
  No click sticks. Whatever touches came before, the frame in which the fingers are off the pad and no tap is
  reported leaves the host without a button down: a click is released by the next frame, and a drag by the
  lift that ends it.
\<close>

theorem trackpad_lets_go:
  assumes "n_fingers f = 0" "\<not> single_tap f" "\<not> two_finger_tap f"
  shows "host_tp_buttons (snd (tp_run c (fs @ [f]) tp_start)) = 0"
proof -
  obtain s outs where r: "tp_run c fs tp_start = (s, outs)" by fastforce
  obtain s1 out send where m: "trackpad_map c f s = (s1, out, send)" using prod_cases3 by blast
  have "tp_inv s (host_tp_buttons outs)"
    using tp_run_inv [OF _ r, of 0] by (simp add: tp_inv_def host_tp_buttons_def)
  from tp_step_inv [OF this m] show ?thesis
    using assms by (auto simp: run_append r m host_tp_buttons_def after_frame_def)
qed

lemma trackpad_lets_go_witness:
  "host_tp_buttons (snd (tp_run cfg_default
      ([\<lparr>ge0 = 2, ge1 = 0, n_fingers = 1, rel_x = 5, rel_y = 0\<rparr>] @ [\<lparr>ge0 = 0, ge1 = 0, n_fingers = 0, rel_x = 0, rel_y = 0\<rparr>])
      tp_start)) = 0"
  by (rule trackpad_lets_go) (simp_all add: single_tap_def two_finger_tap_def)

section \<open>The pointer\<close>

lemma iabs16_id: "-32767 \<le> v \<Longrightarrow> v \<le> 32767 \<Longrightarrow> iabs16 v = \<bar>v\<bar>"
  by (simp add: iabs16_def to_i16_id)

lemma gain_range:
  assumes "cfg_valid c"
  shows "uint (tc_base c) \<le> tp_gain c x y" "tp_gain c x y \<le> uint (tc_gain_max c)" "0 < tp_gain c x y"
proof -
  have b: "uint (tc_base c) \<le> uint (tc_gain_max c)" "0 < uint (tc_base c)"
    using assms by (auto simp: cfg_valid_def word_le_def)
  show "uint (tc_base c) \<le> tp_gain c x y" "tp_gain c x y \<le> uint (tc_gain_max c)" "0 < tp_gain c x y"
    using b by (auto simp: tp_gain_def Let_def)
qed

lemma sdiv_100: "v sdiv 100 = (if 0 \<le> v then v div 100 else - (- v div 100))" for v :: int
  by (cases "v = 0") (auto simp: signed_divide_int_def)

text \<open>
  How far a finger may move in a frame. With a valid configuration, a movement whose product with the largest gain
  stays below 3276800 moves the pointer in the direction of the finger or not at all, by at least
  the configured base gain up to the limit of a report.
\<close>

theorem pointer_follows_finger:
  assumes "cfg_valid c" "\<bar>v\<bar> * uint (tc_gain_max c) < 3276800" "d = tp_scaled c x y v"
  shows "(0 \<le> v \<longrightarrow> 0 \<le> d \<and> min 127 (v * uint (tc_base c) div 100) \<le> d) \<and>
    (v \<le> 0 \<longrightarrow> d \<le> 0 \<and> d \<le> - min 127 (- v * uint (tc_base c) div 100))"
proof -
  define g where "g = tp_gain c x y"
  note g = gain_range [OF assms(1), of x y, folded g_def]
  have "\<bar>v\<bar> * g \<le> \<bar>v\<bar> * uint (tc_gain_max c)" using g(2) by (intro mult_left_mono) simp_all
  then have hi: "\<bar>v\<bar> * g < 3276800" using assms(2) by linarith
  have lo: "\<bar>v\<bar> * uint (tc_base c) \<le> \<bar>v\<bar> * g" using g(1) by (intro mult_left_mono) simp_all
  have q: "\<bar>v\<bar> * uint (tc_base c) div 100 \<le> \<bar>v\<bar> * g div 100" "0 \<le> \<bar>v\<bar> * g div 100" "\<bar>v\<bar> * g div 100 \<le> 32767"
  proof -
    have "0 \<le> \<bar>v\<bar> * g" using g(3) by simp
    then show "0 \<le> \<bar>v\<bar> * g div 100" "\<bar>v\<bar> * g div 100 \<le> 32767" using hi by simp_all
  qed (use lo in \<open>simp add: zdiv_mono1\<close>)
  have "0 \<le> v * g \<longleftrightarrow> 0 \<le> v" using g(3) by (simp add: zero_le_mult_iff)
  then have d: "d = clamp127 (if 0 \<le> v then \<bar>v\<bar> * g div 100 else - (\<bar>v\<bar> * g div 100))"
    using q(2,3) by (simp add: assms(3) tp_scaled_def g_def [symmetric] sdiv_100 to_i16_id)
  show ?thesis
  proof (cases "0 \<le> v")
    case True
    then show ?thesis using q by (auto simp: d clamp127_def min_def)
  next
    case False
    then show ?thesis using q by (auto simp: d clamp127_def min_def)
  qed
qed

lemma pointer_follows_finger_witness:
  "0 \<le> tp_scaled cfg_default 500 0 500 \<and> cfg_valid cfg_default"
proof -
  have v: "cfg_valid cfg_default" by (simp add: cfg_valid_def cfg_default_def)
  moreover have "\<bar>500\<bar> * uint (tc_gain_max cfg_default) < 3276800" by (simp add: cfg_default_def)
  ultimately show ?thesis using pointer_follows_finger [OF v, of 500 _ 500 0] by simp
qed

lemma to_i16_wrap: "32768 \<le> x \<Longrightarrow> x \<le> 65535 \<Longrightarrow> to_i16 x = x - 65536"
proof -
  assume x: "32768 \<le> x" "x \<le> 65535"
  have "(x + 32768) mod 65536 = ((x - 32768) + 65536) mod 65536" by (simp add: add.commute)
  also have "\<dots> = x - 32768" unfolding mod_add_self2 using x by (intro mod_pos_pos_trivial) simp_all
  finally show ?thesis
    unfolding to_i16_def sint_sbintrunc' by (simp add: signed_take_bit_eq_take_bit_shift take_bit_eq_mod)
qed

text \<open>
  A faster one turns the pointer round. With the largest gain that the configuration accepts, a movement of 3277 to 6540
  to the right in one frame wraps in sixteen bits and the pointer goes to the left at full speed.
\<close>

theorem fast_swipe_turns_back:
  assumes "tc_base c = 1000" "tc_gain_max c = 1000" "tc_accel c \<le> 1000" "3277 \<le> v" "v \<le> 6540"
  shows "cfg_valid c \<and> tp_scaled c v 0 v = -127"
proof -
  have valid: "cfg_valid c" using assms(1-3) by (simp add: cfg_valid_def)
  have "tp_gain c v 0 = 1000"
    using gain_range [OF valid, of v 0] assms(1,2) by simp
  then have "(v * tp_gain c v 0) sdiv 100 = 10 * v" using assms(4) by (simp add: sdiv_100)
  moreover have "to_i16 (10 * v) = 10 * v - 65536"
    using assms(4,5) by (intro to_i16_wrap) simp_all
  ultimately show ?thesis using valid assms(4,5) by (simp add: tp_scaled_def clamp127_def)
qed

section \<open>The configuration is kept\<close>

text \<open>
  A configuration that was accepted is read back: from its seven bytes on the wire by the decoder, and from flash at
  the next start, when the save succeeded. One that is refused changes nothing.
\<close>

theorem trackpad_cfg_kept:
  assumes "trackpad_cfg_apply_and_save all_ok io pad c (flash, cur) = ((flash', cur'), ok)" "length tmp = 8"
  shows "trackpad_cfg_decode (trackpad_cfg_encode c) = Some c \<and>
    (if cfg_valid c then ok \<and> cur' = c\<lparr>tc_fmt := TRACKPAD_CFG_FMT\<rparr> \<and> trackpad_cfg_load all_ok io2 tmp flash' cfg_default = cur'
     else \<not> ok \<and> flash' = flash \<and> cur' = cur)"
proof -
  have dec: "trackpad_cfg_decode (trackpad_cfg_encode c) = Some c"
    by (simp add: trackpad_cfg_decode_def trackpad_cfg_encode_def TRACKPAD_CFG_SIZE_def u16_bytes_def)
  have again: "struct_cfg (cfg_struct p d) = d" "length (cfg_struct p d) = 8" for p d
    by (simp_all add: struct_cfg_def cfg_struct_def u16_bytes_def)
  show ?thesis
    using assms dec
    by (auto simp: trackpad_cfg_apply_and_save_def trackpad_cfg_load_def save_table_def nvs_session_def all_ok_def
        load_table_def size_differs_def get_blob_def load_array_def again cfg_valid_def mem_write_def Let_def)
qed

lemma fast_swipe_turns_back_witness:
  "tp_scaled \<lparr>tc_fmt = 1, tc_base = 1000, tc_accel = 0, tc_gain_max = 1000\<rparr> 4000 0 4000 = -127"
  using fast_swipe_turns_back [of "\<lparr>tc_fmt = 1, tc_base = 1000, tc_accel = 0, tc_gain_max = 1000\<rparr>" 4000] by simp

lemma trackpad_cfg_kept_witness:
  "trackpad_cfg_load all_ok 0 (replicate 8 0)
     (fst (fst (trackpad_cfg_apply_and_save all_ok 0 7 cfg_default (\<lambda>_. None, cfg_default)))) cfg_default = cfg_default"
proof -
  obtain flash' cur' ok where r: "trackpad_cfg_apply_and_save all_ok 0 7 cfg_default (\<lambda>_. None, cfg_default) = ((flash', cur'), ok)"
    using prod.exhaust by metis
  have "cfg_valid cfg_default" "cfg_default\<lparr>tc_fmt := TRACKPAD_CFG_FMT\<rparr> = cfg_default" by (simp_all add: cfg_valid_def cfg_default_def)
  then show ?thesis using trackpad_cfg_kept [OF r, of "replicate 8 0" 0] by (simp add: r)
qed


end
