(* ===== verification/Display.thy ===== *)
theory Display
  imports Prelude
begin

text \<open>
  The display of a keyboard with an OLED: \<open>main/display/status_display.c\<close>, the backend \<open>oled/oled_backend.c\<close>
  with \<open>oled_screens.c\<close>, \<open>oled_nav.c\<close>, \<open>oled_kpm.c\<close> and \<open>oled_stats.c\<close>, the display part of
  \<open>status_display_task\<close> in \<open>main.c\<close>, and \<open>led/led_curve.c\<close>. What a screen draws is outside; what is built,
  cleared and switched is recorded in \<open>od_out\<close>. The lock of the graphics library, which each backend call
  tries to take, is an argument, as are the two clocks and the time of the last key.
\<close>

section \<open>Which screen\<close>

datatype oled_screen = OLED_SCR_SPLASH | OLED_SCR_HOME | OLED_SCR_STATS

datatype nav_event = OLED_EV_BOOT | OLED_EV_LAYER_CHANGED | OLED_EV_DISP_KEY | OLED_EV_ACTIVITY

record oled_nav =
  nv_resting :: oled_screen
  nv_splash_until :: u32

definition OLED_NAV_SPLASH_MS :: u32 where "OLED_NAV_SPLASH_MS = 2000"

definition oled_nav_init :: oled_nav where
  "oled_nav_init = \<lparr>nv_resting = OLED_SCR_HOME, nv_splash_until = 0\<rparr>"

definition oled_nav_active :: "u32 \<Rightarrow> oled_nav \<Rightarrow> oled_screen" where
  "oled_nav_active now s = (if now < nv_splash_until s then OLED_SCR_SPLASH else nv_resting s)"

definition next_resting :: "oled_screen \<Rightarrow> oled_screen" where
  "next_resting r = (if r = OLED_SCR_HOME then OLED_SCR_STATS else OLED_SCR_HOME)"

definition oled_nav_event :: "nav_event \<Rightarrow> u32 \<Rightarrow> oled_nav \<Rightarrow> oled_nav" where
  "oled_nav_event ev now s =
     (case ev of
        OLED_EV_BOOT \<Rightarrow> s\<lparr>nv_splash_until := now + OLED_NAV_SPLASH_MS\<rparr>
      | OLED_EV_DISP_KEY \<Rightarrow> s\<lparr>nv_resting := next_resting (nv_resting s), nv_splash_until := 0\<rparr>
      | _ \<Rightarrow> s)"

section \<open>Keys per minute\<close>

record kpm =
  kp_count :: u32
  kp_history :: "u32 list"
  kp_idx :: nat
  kp_current :: u32
  kp_last_ms :: u32

definition OLED_KPM_WINDOW :: nat where "OLED_KPM_WINDOW = 60"
definition OLED_KPM_SAMPLE_MS :: u32 where "OLED_KPM_SAMPLE_MS = 1000"

definition oled_kpm_reset :: kpm where
  "oled_kpm_reset = \<lparr>kp_count = 0, kp_history = replicate OLED_KPM_WINDOW 0, kp_idx = 0, kp_current = 0, kp_last_ms = 0\<rparr>"

definition oled_kpm_notify_keypress :: "kpm \<Rightarrow> kpm" where
  "oled_kpm_notify_keypress s = s\<lparr>kp_count := kp_count s + 1\<rparr>"

definition oled_kpm_tick :: "u32 \<Rightarrow> kpm \<Rightarrow> kpm" where
  "oled_kpm_tick now s =
     (if kp_last_ms s = 0 then s\<lparr>kp_last_ms := now\<rparr>
      else if now - kp_last_ms s < OLED_KPM_SAMPLE_MS then s
      else
        let h = (kp_history s)[kp_idx s := kp_count s]
        in s\<lparr>kp_history := h, kp_idx := (kp_idx s + 1) mod OLED_KPM_WINDOW, kp_count := 0, kp_last_ms := now,
             kp_current := sum_list h\<rparr>)"

definition oled_kpm_value :: "kpm \<Rightarrow> u32" where "oled_kpm_value s = kp_current s"

definition oled_wpm_from_kpm :: "u32 \<Rightarrow> u32" where "oled_wpm_from_kpm k = k div 5"

text \<open>The bars of the history; \<open>int\<close> and the 64-bit sum are exact for histories of fewer than \<open>2 ^ 31\<close> samples.\<close>

definition sparkline_bar :: "u32 list \<Rightarrow> u32 \<Rightarrow> nat \<Rightarrow> nat \<Rightarrow> u8" where
  "sparkline_bar hist mx out_n b =
     (let n = length hist in
      if mx = 0 \<or> n = 0 then 0
      else
        let first = b * n div out_n; e0 = (b + 1) * n div out_n; last_i = (if e0 \<le> first then first + 1 else e0);
            bin = take (last_i - first) (drop first hist);
            avg = (if bin = [] then 0 else word_of_nat (sum_list (map unat bin) div length bin)) :: u32;
            bar = (avg * 7) div mx
        in if bar > 7 then 7 else ucast bar)"

definition oled_sparkline_bars :: "u32 list \<Rightarrow> u32 \<Rightarrow> nat \<Rightarrow> u8 list" where
  "oled_sparkline_bars hist mx out_n = map (sparkline_bar hist mx out_n) [0..<out_n]"

section \<open>Lights\<close>

definition REACTIVE_ATTACK_MS :: u32 where "REACTIVE_ATTACK_MS = 100"
definition REACTIVE_DECAY_MS :: u32 where "REACTIVE_DECAY_MS = 500"
definition KPM_BAR_MAX :: u32 where "KPM_BAR_MAX = 400"

definition led_reactive_brightness :: "u32 \<Rightarrow> u8" where
  "led_reactive_brightness elapsed =
     (if elapsed < REACTIVE_ATTACK_MS then 255
      else if elapsed < REACTIVE_DECAY_MS
      then ucast (255 - ((elapsed - REACTIVE_ATTACK_MS) * 255 div (REACTIVE_DECAY_MS - REACTIVE_ATTACK_MS)))
      else 0)"

definition led_kpm_bar_lit :: "u32 \<Rightarrow> u8 \<Rightarrow> u8" where
  "led_kpm_bar_lit k num_leds =
     (let lit = (k * ucast num_leds) div KPM_BAR_MAX in if lit > ucast num_leds then num_leds else ucast lit)"

section \<open>The OLED\<close>

datatype oled_out = Build oled_screen | Destroy oled_screen | Draw oled_screen | Clear | Panel bool | ShowDfu

record disp =
  sd_backend :: bool
  display_available :: bool
  sd_sleeping :: bool
  sd_splash :: bool
  sd_splash_start :: u32
  request_wake :: bool
  oled_initialized :: bool
  oled_booted :: bool
  od_current :: "oled_screen option"
  od_nav :: oled_nav
  od_kpm :: kpm
  od_panel :: bool
  od_out :: "oled_out list"

definition emit_out :: "oled_out list \<Rightarrow> disp \<Rightarrow> disp" where
  "emit_out os d = d\<lparr>od_out := od_out d @ os\<rparr>"

definition destroy_current :: "disp \<Rightarrow> disp" where
  "destroy_current d = (case od_current d of Some scr \<Rightarrow> emit_out [Destroy scr] d | None \<Rightarrow> d)"

definition oled_screens_reset :: "disp \<Rightarrow> disp" where
  "oled_screens_reset d = (destroy_current d)\<lparr>od_current := None, od_kpm := oled_kpm_reset, od_nav := oled_nav_init\<rparr>"

definition oled_screens_tick :: "u32 \<Rightarrow> disp \<Rightarrow> disp" where
  "oled_screens_tick now d =
     (let d1 = d\<lparr>od_kpm := oled_kpm_tick now (od_kpm d)\<rparr>;
          scr = oled_nav_active now (od_nav d1);
          d2 = (if od_current d1 \<noteq> Some scr
                then (emit_out [Clear, Build scr] (destroy_current d1))\<lparr>od_current := Some scr\<rparr> else d1)
      in emit_out [Draw scr] d2)"

definition oled_screens_event :: "nav_event \<Rightarrow> u32 \<Rightarrow> disp \<Rightarrow> disp" where
  "oled_screens_event ev now d = d\<lparr>od_nav := oled_nav_event ev now (od_nav d)\<rparr>"

definition oled_refresh_all :: "bool \<Rightarrow> u32 \<Rightarrow> disp \<Rightarrow> disp" where
  "oled_refresh_all lock now d =
     (if \<not> display_available d \<or> \<not> lock then d
      else
        let d1 = oled_screens_reset d;
            d2 = (if \<not> oled_booted d1 then (oled_screens_event OLED_EV_BOOT now d1)\<lparr>oled_booted := True\<rparr> else d1)
        in (emit_out [Clear] d2)\<lparr>oled_initialized := True\<rparr>)"

definition oled_update :: "bool \<Rightarrow> u32 \<Rightarrow> disp \<Rightarrow> disp" where
  "oled_update lock now d =
     (if \<not> display_available d \<or> \<not> oled_initialized d \<or> \<not> lock then d else oled_screens_tick now d)"

definition oled_update_layer :: "bool \<Rightarrow> u32 \<Rightarrow> disp \<Rightarrow> disp" where
  "oled_update_layer lock now d =
     (if \<not> display_available d then d
      else if \<not> oled_initialized d then oled_refresh_all lock now d
      else oled_update lock now (oled_screens_event OLED_EV_LAYER_CHANGED now d))"

definition panel_power :: "bool \<Rightarrow> disp \<Rightarrow> disp" where
  "panel_power on d = emit_out [Panel on] (d\<lparr>od_panel := on\<rparr>)"

definition oled_sleep :: "bool \<Rightarrow> disp \<Rightarrow> disp" where
  "oled_sleep lock d =
     (if \<not> lock then d
      else panel_power False ((emit_out [Clear] (oled_screens_reset d))\<lparr>oled_initialized := False\<rparr>))"

definition oled_wake :: "disp \<Rightarrow> disp" where
  "oled_wake d = (panel_power True d)\<lparr>request_wake := True\<rparr>"

definition oled_notify_keypress :: "u32 \<Rightarrow> disp \<Rightarrow> disp" where
  "oled_notify_keypress now d = oled_screens_event OLED_EV_ACTIVITY now (d\<lparr>od_kpm := oled_kpm_notify_keypress (od_kpm d)\<rparr>)"

definition oled_show_dfu :: "bool \<Rightarrow> disp \<Rightarrow> disp" where
  "oled_show_dfu lock d = (if lock then emit_out [Clear, ShowDfu] d else d)"

section \<open>The coordinator\<close>

definition SPLASH_DURATION_MS :: u32 where "SPLASH_DURATION_MS = 3000"

definition status_display_refresh_all :: "bool \<Rightarrow> u32 \<Rightarrow> disp \<Rightarrow> disp" where
  "status_display_refresh_all lock now d =
     (if \<not> display_available d \<or> \<not> sd_backend d then d
      else oled_refresh_all lock now (d\<lparr>sd_splash := False, sd_sleeping := False\<rparr>))"

text \<open>\<open>init\<close> is whether the panel was found.\<close>

definition status_display_start :: "bool \<Rightarrow> bool \<Rightarrow> u32 \<Rightarrow> disp \<Rightarrow> disp" where
  "status_display_start init lock now d =
     (if \<not> sd_backend d then d
      else if \<not> init then d\<lparr>display_available := False\<rparr>
      else status_display_refresh_all lock now (d\<lparr>display_available := True, od_panel := True, sd_sleeping := False\<rparr>))"

definition status_display_update_layer_name :: "bool \<Rightarrow> u32 \<Rightarrow> disp \<Rightarrow> disp" where
  "status_display_update_layer_name lock now d =
     (if \<not> display_available d \<or> sd_sleeping d \<or> \<not> sd_backend d then d
      else oled_update_layer lock now (d\<lparr>sd_splash := False\<rparr>))"

definition status_display_update :: "bool \<Rightarrow> u32 \<Rightarrow> disp \<Rightarrow> disp" where
  "status_display_update lock now d =
     (if \<not> display_available d \<or> sd_sleeping d \<or> \<not> sd_backend d then d
      else if sd_splash d
      then if now - sd_splash_start d > SPLASH_DURATION_MS then oled_refresh_all lock now (d\<lparr>sd_splash := False\<rparr>) else d
      else oled_update lock now d)"

definition status_display_sleep :: "bool \<Rightarrow> disp \<Rightarrow> disp" where
  "status_display_sleep lock d =
     (if \<not> display_available d \<or> sd_sleeping d \<or> \<not> sd_backend d then d else (oled_sleep lock d)\<lparr>sd_sleeping := True\<rparr>)"

definition status_display_wake :: "disp \<Rightarrow> disp" where
  "status_display_wake d =
     (if \<not> display_available d \<or> \<not> sd_sleeping d \<or> \<not> sd_backend d then d else (oled_wake d)\<lparr>sd_sleeping := False\<rparr>)"

definition status_display_show_DFU_prog :: "bool \<Rightarrow> disp \<Rightarrow> disp" where
  "status_display_show_DFU_prog lock d = (if \<not> display_available d \<or> \<not> sd_backend d then d else oled_show_dfu lock d)"

definition status_display_notify_keypress :: "u32 \<Rightarrow> disp \<Rightarrow> disp" where
  "status_display_notify_keypress now d = (if sd_backend d then oled_notify_keypress now d else d)"

definition status_display_notify_mouse_activity :: "u32 \<Rightarrow> disp \<Rightarrow> disp" where
  "status_display_notify_mouse_activity now d = (if sd_backend d then oled_screens_event OLED_EV_ACTIVITY now d else d)"

definition status_display_notify_display_key :: "u32 \<Rightarrow> disp \<Rightarrow> disp" where
  "status_display_notify_display_key now d = (if sd_backend d then oled_screens_event OLED_EV_DISP_KEY now d else d)"

section \<open>The task\<close>

record disp_task = disp +
  is_layer_changed :: bool
  last_displayed_layer :: u8
  display_sleep :: bool

record turn_env =
  te_now :: u32
  te_tick :: u32
  te_last_key :: u32
  te_layer :: u8
  te_lock :: "nat \<Rightarrow> bool"

definition on_disp :: "(disp \<Rightarrow> disp) \<Rightarrow> disp_task \<Rightarrow> disp_task" where
  "on_disp f s = disp.extend (f (disp.truncate s))
     (disp_task.fields (is_layer_changed s) (last_displayed_layer s) (display_sleep s))"

definition task_layer :: "turn_env \<Rightarrow> disp_task \<Rightarrow> disp_task" where
  "task_layer e s =
     (if is_layer_changed s \<or> last_displayed_layer s \<noteq> te_layer e
      then on_disp (status_display_update_layer_name (te_lock e 0) (te_tick e))
             (s\<lparr>is_layer_changed := False, last_displayed_layer := te_layer e\<rparr>)
      else s)"

definition task_sleep :: "u32 \<Rightarrow> turn_env \<Rightarrow> disp_task \<Rightarrow> disp_task" where
  "task_sleep limit e s =
     (let idle = te_now e - te_last_key e;
          s1 = (if \<not> display_sleep s \<and> te_last_key e \<noteq> 0 \<and> idle > limit
                then (on_disp (status_display_sleep (te_lock e 1)) s)\<lparr>display_sleep := True\<rparr> else s)
      in if display_sleep s1 \<and> te_last_key e \<noteq> 0 \<and> idle \<le> 500
         then (on_disp status_display_wake s1)\<lparr>display_sleep := False\<rparr> else s1)"

definition status_display_turn :: "u32 \<Rightarrow> turn_env \<Rightarrow> disp_task \<Rightarrow> disp_task" where
  "status_display_turn limit e s =
     (let s1 = task_sleep limit e (task_layer e s);
          s2 = (if request_wake s1
                then on_disp (status_display_refresh_all (te_lock e 2) (te_tick e)) (s1\<lparr>request_wake := False\<rparr>) else s1)
      in on_disp (status_display_update (te_lock e 3) (te_tick e)) s2)"

section \<open>The window of a minute\<close>

datatype kpm_event = KeyPress | Tick u32

fun kpm_step :: "kpm_event \<Rightarrow> kpm \<Rightarrow> kpm" where
  "kpm_step KeyPress s = oled_kpm_notify_keypress s"
| "kpm_step (Tick now) s = oled_kpm_tick now s"

text \<open>The specification: all samples ever taken, in order.\<close>

fun sample_step :: "kpm_event \<Rightarrow> u32 \<times> u32 \<times> u32 list \<Rightarrow> u32 \<times> u32 \<times> u32 list" where
  "sample_step KeyPress (keys, t, samples) = (keys + 1, t, samples)"
| "sample_step (Tick now) (keys, t, samples) =
     (if t = 0 then (keys, now, samples)
      else if now - t < OLED_KPM_SAMPLE_MS then (keys, t, samples)
      else (0, now, samples @ [keys]))"

definition last_minute :: "u32 list \<Rightarrow> u32 list" where
  "last_minute samples = drop (length samples) (replicate OLED_KPM_WINDOW 0 @ samples)"

definition ring :: "kpm \<Rightarrow> u32 list" where
  "ring s = drop (kp_idx s) (kp_history s) @ take (kp_idx s) (kp_history s)"

definition kpm_rel :: "u32 \<times> u32 \<times> u32 list \<Rightarrow> kpm \<Rightarrow> bool" where
  "kpm_rel a s \<longleftrightarrow> (case a of (keys, t, samples) \<Rightarrow>
     kp_count s = keys \<and> kp_last_ms s = t \<and> length (kp_history s) = OLED_KPM_WINDOW \<and> kp_idx s < OLED_KPM_WINDOW \<and>
     ring s = last_minute samples \<and> kp_current s = sum_list (last_minute samples))"

lemma ring_push:
  assumes "i < length h" "n = length h"
  shows "drop (Suc i mod n) (h[i := c]) @ take (Suc i mod n) (h[i := c]) = tl (drop i h @ take i h) @ [c]"
proof (cases "Suc i = n")
  case True
  then have "h = take i h @ [h ! i]" using assms by (simp flip: take_Suc_conv_app_nth)
  then have "drop i h = [h ! i]" "h[i := c] = take i h @ [c]"
    using assms(1) by (metis append_eq_conv_conj length_take min.absorb2 nat_less_le, 
        metis append_eq_conv_conj length_take list_update_length min.absorb2 nat_less_le)
  then show ?thesis using True by simp
next
  case False
  then have i: "Suc i < n" using assms by simp
  have "drop i h = h ! i # drop (Suc i) h" using assms(1) by (simp add: Cons_nth_drop_Suc)
  moreover have "take (Suc i) (h[i := c]) = take i h @ [c]" using assms(1) by (simp add: take_Suc_conv_app_nth)
  ultimately show ?thesis using i by simp
qed

lemma last_minute_push: "last_minute (samples @ [c]) = tl (last_minute samples) @ [c]"
proof -
  define p where "p = replicate OLED_KPM_WINDOW 0 @ samples"
  have "drop (Suc (length samples)) (p @ [c]) = drop (Suc (length samples)) p @ [c]" by (simp add: p_def OLED_KPM_WINDOW_def)
  moreover have "drop (Suc (length samples)) p = tl (drop (length samples) p)" by (simp add: drop_Suc tl_drop)
  ultimately show ?thesis by (simp add: last_minute_def p_def)
qed

lemma sum_ring: "sum_list (ring s) = sum_list (kp_history s)"
  by (metis add.commute append_take_drop_id ring_def sum_list.append)

lemma kpm_step_rel:
  assumes "kpm_rel a s"
  shows "kpm_rel (sample_step ev a) (kpm_step ev s)"
proof -
  obtain keys t samples where a: "a = (keys, t, samples)" using prod_cases3 by blast
  show ?thesis
  proof (cases ev)
    case KeyPress
    then show ?thesis using assms by (simp add: a kpm_rel_def oled_kpm_notify_keypress_def ring_def)
  next
    case (Tick now)
    consider "t = 0" | "t \<noteq> 0" "now - t < OLED_KPM_SAMPLE_MS" | "t \<noteq> 0" "\<not> now - t < OLED_KPM_SAMPLE_MS" by blast
    then show ?thesis
    proof cases
      case 3
      define s1 where "s1 = oled_kpm_tick now s"
      have f: "kp_last_ms s = t" "kp_count s = keys" "length (kp_history s) = OLED_KPM_WINDOW" "kp_idx s < OLED_KPM_WINDOW"
        "ring s = last_minute samples" using assms by (simp_all add: a kpm_rel_def)
      have s1: "kp_history s1 = (kp_history s)[kp_idx s := keys]" "kp_idx s1 = Suc (kp_idx s) mod OLED_KPM_WINDOW"
        "kp_current s1 = sum_list (kp_history s1)" "kp_count s1 = 0" "kp_last_ms s1 = now"
        using 3 f by (simp_all add: s1_def oled_kpm_tick_def Let_def)
      have "ring s1 = tl (ring s) @ [keys]"
        using ring_push [OF f(4) [folded f(3)] f(3) [symmetric], of keys] by (simp only: ring_def s1)
      then have "ring s1 = last_minute (samples @ [keys])" by (simp only: f(5) last_minute_push)
      moreover have "kp_idx s1 < OLED_KPM_WINDOW" by (simp add: s1 OLED_KPM_WINDOW_def)
      ultimately show ?thesis
        using 3 f(3) sum_ring [of s1] by (simp add: a Tick kpm_rel_def s1_def [symmetric] s1)
    qed (use assms Tick in \<open>simp_all add: a kpm_rel_def oled_kpm_tick_def ring_def\<close>)
  qed
qed

text \<open>
  C31: The keys per minute that the display shows are the keys of the last sixty samples. The circular buffer refines
  the plain list of all samples ever taken: for any sequence of key presses and ticks its value is the sum
  of the last sixty of them, samples before the start counting as zero.
\<close>

theorem kpm_refines_window:
  "oled_kpm_value (fold kpm_step evs oled_kpm_reset) =
     sum_list (last_minute (snd (snd (fold sample_step evs (0, 0, [])))))"
proof -
  have "kpm_rel (fold sample_step evs a) (fold kpm_step evs s)" if "kpm_rel a s" for a s
    using that by (induction evs arbitrary: a s) (simp_all add: kpm_step_rel)
  moreover have "kpm_rel (0, 0, []) oled_kpm_reset"
    by (simp add: kpm_rel_def oled_kpm_reset_def ring_def last_minute_def OLED_KPM_WINDOW_def sum_list_replicate)
  ultimately show ?thesis by (fastforce simp: kpm_rel_def oled_kpm_value_def)
qed

section \<open>Asleep and awake\<close>

lemma on_disp_fields [simp]:
  "disp.truncate (on_disp f s) = f (disp.truncate s)" "is_layer_changed (on_disp f s) = is_layer_changed s"
  "last_displayed_layer (on_disp f s) = last_displayed_layer s" "display_sleep (on_disp f s) = display_sleep s"
  by (cases s; simp add: on_disp_def disp.defs disp_task.defs)+

lemma truncate_fields [simp]:
  "od_panel (disp.truncate s) = od_panel s" "sd_sleeping (disp.truncate s) = sd_sleeping s"
  "request_wake (disp.truncate s) = request_wake s" "display_available (disp.truncate s) = display_available s"
  "sd_backend (disp.truncate s) = sd_backend s" "od_out (disp.truncate s) = od_out s"
  "oled_initialized (disp.truncate s) = oled_initialized s" "sd_splash (disp.truncate s) = sd_splash s"
  "od_current (disp.truncate s) = od_current s"
  by (simp_all add: disp.defs)

lemma truncate_task [simp]:
  "disp.truncate (s\<lparr>is_layer_changed := b\<rparr>) = disp.truncate s" "disp.truncate (s\<lparr>last_displayed_layer := l\<rparr>) = disp.truncate s"
  "disp.truncate (s\<lparr>display_sleep := b\<rparr>) = disp.truncate s"
  "disp.truncate (s\<lparr>request_wake := b\<rparr>) = (disp.truncate s)\<lparr>request_wake := b\<rparr>" for s :: disp_task
  by (simp_all add: disp.defs)

definition alive :: "disp \<Rightarrow> bool" where
  "alive d \<longleftrightarrow> sd_backend d \<and> display_available d"

definition lights :: "disp \<Rightarrow> bool \<times> bool \<times> bool \<times> bool \<times> bool" where
  "lights d = (od_panel d, sd_sleeping d, request_wake d, sd_backend d, display_available d)"

lemma lights_oled [simp]:
  "lights (emit_out os d) = lights d" "lights (destroy_current d) = lights d" "lights (oled_screens_reset d) = lights d"
  "lights (oled_screens_tick now d) = lights d" "lights (oled_screens_event ev now d) = lights d"
  "lights (d\<lparr>oled_booted := b\<rparr>) = lights d" "lights (d\<lparr>oled_initialized := b\<rparr>) = lights d"
  "lights (d\<lparr>sd_splash := b\<rparr>) = lights d" "lights (d\<lparr>od_current := c\<rparr>) = lights d" "lights (d\<lparr>od_kpm := k\<rparr>) = lights d"
  by (simp_all add: lights_def emit_out_def destroy_current_def oled_screens_reset_def oled_screens_tick_def
      oled_screens_event_def Let_def split: option.split)

lemma lights_update [simp]:
  "lights (oled_refresh_all lock now d) = lights d" "lights (oled_update lock now d) = lights d"
  "lights (oled_update_layer lock now d) = lights d" "lights (status_display_update lock now d) = lights d"
  "lights (status_display_update_layer_name lock now d) = lights d"
  by (simp_all add: oled_refresh_all_def oled_update_def oled_update_layer_def status_display_update_def
      status_display_update_layer_name_def Let_def)

lemma lights_power:
  "lights (status_display_sleep lock d) =
     (if alive d \<and> \<not> sd_sleeping d then (od_panel d \<and> \<not> lock, True, request_wake d, True, True) else lights d)"
  "lights (status_display_wake d) = (if alive d \<and> sd_sleeping d then (True, False, True, True, True) else lights d)"
  "lights (status_display_refresh_all lock now d) =
     (if alive d then (od_panel d, False, request_wake d, True, True) else lights d)"
  by (auto simp: status_display_sleep_def status_display_wake_def oled_sleep_def oled_wake_def panel_power_def alive_def
      status_display_refresh_all_def oled_refresh_all_def emit_out_def oled_screens_reset_def destroy_current_def
      oled_screens_event_def lights_def Let_def split: option.split)

text \<open>The lights of the task's state, and what its parts do to them.\<close>

definition task_lights :: "disp_task \<Rightarrow> bool \<times> bool \<times> bool \<times> bool \<times> bool" where
  "task_lights s = lights (disp.truncate s)"

lemma layer_lights: "task_lights (task_layer e s) = task_lights s" "display_sleep (task_layer e s) = display_sleep s"
  by (simp_all add: task_lights_def task_layer_def)

definition asleep :: "disp_task \<Rightarrow> bool" where
  "asleep s \<longleftrightarrow> task_lights s = (False, True, False, True, True) \<and> display_sleep s"

definition idle :: "turn_env \<Rightarrow> u32" where
  "idle e = te_now e - te_last_key e"

lemma request_field: "request_wake s = request_wake (disp.truncate s)"
  by simp

lemma turn_awake:
  assumes "task_lights s = (panel, False, False, True, True)" "te_last_key e = 0 \<or> display_sleep s \<or> idle e \<le> limit"
  shows "task_lights (status_display_turn limit e s) = (panel, False, False, True, True)"
proof -
  define s1 where "s1 = task_layer e s"
  have s1: "lights (disp.truncate s1) = (panel, False, False, True, True)" "display_sleep s1 = display_sleep s"
    using assms(1) layer_lights [of e s] by (simp_all add: s1_def task_lights_def)
  then have awake: "\<not> sd_sleeping (disp.truncate s1)" by (simp add: lights_def)
  define s2 where "s2 = task_sleep limit e s1"
  have s2: "lights (disp.truncate s2) = (panel, False, False, True, True)"
    using assms(2) s1 awake by (auto simp: s2_def task_sleep_def idle_def [symmetric] Let_def lights_power simp del: truncate_fields)
  then have "\<not> request_wake s2" by (simp add: lights_def)
  then show ?thesis
    using s2 by (simp add: status_display_turn_def task_lights_def s1_def [symmetric] s2_def [symmetric] Let_def)
qed

lemma update_draws:
  "alive d \<Longrightarrow> \<not> sd_sleeping d \<Longrightarrow> \<not> sd_splash d \<Longrightarrow> oled_initialized d \<Longrightarrow>
   od_current (status_display_update True t d) \<noteq> None"
  by (auto simp: status_display_update_def oled_update_def oled_screens_tick_def emit_out_def alive_def Let_def)

lemma refresh_ready:
  assumes "alive d" "d2 = status_display_refresh_all True t d"
  shows "alive d2 \<and> \<not> sd_sleeping d2 \<and> \<not> sd_splash d2 \<and> oled_initialized d2"
  using assms by (auto simp: status_display_refresh_all_def oled_refresh_all_def emit_out_def oled_screens_reset_def
      destroy_current_def oled_screens_event_def alive_def Let_def split: option.split)

lemma layer_asleep:
  assumes "asleep s" shows "disp.truncate (task_layer e s) = disp.truncate s" "display_sleep (task_layer e s)"
  using assms by (auto simp: task_layer_def asleep_def task_lights_def lights_def status_display_update_layer_name_def)

lemma turn_sleeps:
  assumes "te_last_key e \<noteq> 0" "500 \<le> limit" "te_lock e = (\<lambda>_. True)"
    and a: "task_lights s = (True, False, False, True, True)" "\<not> display_sleep s" "idle e > limit"
  shows "asleep (status_display_turn limit e s)"
proof -
  define s1 where "s1 = task_layer e s"
  have s1: "lights (disp.truncate s1) = (True, False, False, True, True)" "\<not> display_sleep s1"
    using a layer_lights [of e s] by (simp_all add: s1_def task_lights_def)
  then have alive: "alive (disp.truncate s1)" "\<not> sd_sleeping (disp.truncate s1)" by (simp_all add: lights_def alive_def)
  have i: "idle e > limit" "\<not> idle e \<le> 500" using a assms(2) by auto
  define s2 where "s2 = task_sleep limit e s1"
  have s2: "lights (disp.truncate s2) = (False, True, False, True, True)" "display_sleep s2"
    using s1 i alive assms(1,3)
    by (simp_all add: s2_def task_sleep_def idle_def [symmetric] Let_def lights_power del: truncate_fields) (simp add: lights_def)
  then have "\<not> request_wake s2" by (simp add: lights_def)
  then show ?thesis
    using s2 by (simp add: asleep_def status_display_turn_def task_lights_def s1_def [symmetric] s2_def [symmetric] Let_def)
qed

lemma turn_stays_asleep:
  assumes a: "asleep s" "idle e > 500" and s'_def: "s' = status_display_turn limit e s"
  shows "asleep s'" "od_out s' = od_out s"
proof -
  define s1 where "s1 = task_layer e s"
  have s1: "disp.truncate s1 = disp.truncate s" "display_sleep s1" using a layer_asleep [of s e] by (simp_all add: s1_def)
  have "\<not> idle e \<le> 500" using a by auto
  then have s2: "task_sleep limit e s1 = s1" using s1 by (simp add: task_sleep_def idle_def [symmetric] Let_def)
  have l: "lights (disp.truncate s1) = (False, True, False, True, True)" using a s1 by (simp add: asleep_def task_lights_def)
  then have "\<not> request_wake (disp.truncate s1)" "sd_sleeping (disp.truncate s1)" unfolding lights_def by blast+
  then have f: "\<not> request_wake s1" "sd_sleeping (disp.truncate s)" using s1(1) unfolding request_field [of s1] by simp_all
  have s': "s' = on_disp (status_display_update (te_lock e 3) (te_tick e)) s1"
    unfolding s'_def status_display_turn_def Let_def s1_def [symmetric] s2 using f(1) by simp
  have u: "status_display_update b t (disp.truncate s) = disp.truncate s" for b t
    using f(2) by (simp add: status_display_update_def)
  have d: "disp.truncate s' = disp.truncate s" by (simp only: s' on_disp_fields s1 u)
  have "display_sleep s'" using s1(2) by (simp only: s' on_disp_fields)
  then show "asleep s'" using a d by (simp add: asleep_def task_lights_def)
  have "od_out (disp.truncate s') = od_out (disp.truncate s)" by (simp only: d)
  then show "od_out s' = od_out s" by simp
qed

lemma turn_wakes:
  assumes "te_last_key e \<noteq> 0" "te_lock e = (\<lambda>_. True)" and a: "asleep s" "idle e \<le> 500"
    and s'_def: "s' = status_display_turn limit e s"
  shows "task_lights s' = (True, False, False, True, True)" "\<not> display_sleep s'" "od_current s' \<noteq> None"
proof -
  define s1 where "s1 = task_layer e s"
  have s1: "disp.truncate s1 = disp.truncate s" "display_sleep s1" using a layer_asleep [of s e] by (simp_all add: s1_def)
  have l: "lights (disp.truncate s1) = (False, True, False, True, True)" using a s1 by (simp add: asleep_def task_lights_def)
  define s2 where "s2 = task_sleep limit e s1"
  have s2: "disp.truncate s2 = status_display_wake (disp.truncate s1)" "\<not> display_sleep s2"
    using a s1(2) assms(1) by (simp_all add: s2_def task_sleep_def idle_def [symmetric] Let_def)
  have l2: "lights (disp.truncate s2) = (True, False, True, True, True)"
    using l by (simp add: s2 lights_power alive_def) (simp add: lights_def)
  then have req: "request_wake s2" by (simp add: lights_def)
  define d where "d = (disp.truncate s2)\<lparr>request_wake := False\<rparr>"
  have ld: "lights d = (True, False, False, True, True)" using l2 by (simp add: d_def lights_def)
  then have alive: "alive d" by (simp add: lights_def alive_def)
  define d2 where "d2 = status_display_refresh_all True (te_tick e) d"
  have d2: "alive d2" "\<not> sd_sleeping d2" "\<not> sd_splash d2" "oled_initialized d2" using refresh_ready [OF alive d2_def] by simp_all
  have ld2: "lights d2 = (True, False, False, True, True)" using ld alive by (simp add: d2_def lights_power) (simp add: lights_def)
  have t: "disp.truncate s' = status_display_update True (te_tick e) d2"
    using req by (simp add: assms(2) s'_def status_display_turn_def s1_def [symmetric] s2_def [symmetric] Let_def d_def d2_def)
  show "task_lights s' = (True, False, False, True, True)" by (simp add: task_lights_def t ld2)
  show "\<not> display_sleep s'"
    using req s2(2) by (simp add: s'_def status_display_turn_def s1_def [symmetric] s2_def [symmetric] Let_def)
  have "od_current (disp.truncate s') \<noteq> None" unfolding t by (rule update_draws) (use d2 in simp_all)
  then show "od_current s' \<noteq> None" by simp
qed


text \<open>
  A refresh while the display sleeps leaves the panel dark. The keys that switch the output or the Bluetooth
  host post a refresh, which marks the display as awake without turning the panel on; when such a key
  is the one that should wake the display, the wake-up that follows does nothing, and the panel stays off for
  as long as the keyboard is used, until it has been idle again.
\<close>

theorem refresh_leaves_panel_dark:
  assumes "asleep s" "\<forall>e\<in>set es. idle e \<le> limit"
    and "s' = fold (status_display_turn limit) es (on_disp (status_display_refresh_all lock now) s)"
  shows "\<not> od_panel s' \<and> \<not> sd_sleeping s'"
proof -
  have alive: "alive (disp.truncate s)" and dark: "\<not> od_panel s" "\<not> request_wake s"
    using assms(1) by (simp_all add: asleep_def task_lights_def lights_def alive_def)
  have "task_lights (fold (status_display_turn limit) es t) = (False, False, False, True, True)"
    if "task_lights t = (False, False, False, True, True)" "\<forall>e\<in>set es. idle e \<le> limit" for t es
    using that by (induction es arbitrary: t) (simp_all add: turn_awake)
  moreover have "task_lights (on_disp (status_display_refresh_all lock now) s) = (False, False, False, True, True)"
    using alive dark by (simp add: task_lights_def lights_power)
  ultimately have "lights (disp.truncate s') = (False, False, False, True, True)"
    using assms(2) by (simp add: assms(3) task_lights_def)
  then show ?thesis by (simp add: lights_def)
qed

text \<open>A keyboard whose display went to sleep, and a turn some time after the last key.\<close>

definition demo_turn :: "u32 \<Rightarrow> u32 \<Rightarrow> turn_env" where
  "demo_turn now last_key = \<lparr>te_now = now, te_tick = now, te_last_key = last_key, te_layer = 0, te_lock = (\<lambda>_. True)\<rparr>"

definition demo_disp :: disp where
  "demo_disp = \<lparr>sd_backend = True, display_available = False, sd_sleeping = False, sd_splash = False, sd_splash_start = 0,
     request_wake = False, oled_initialized = False, oled_booted = False, od_current = None, od_nav = oled_nav_init,
     od_kpm = oled_kpm_reset, od_panel = False, od_out = []\<rparr>"

definition demo_awake :: disp_task where
  "demo_awake = disp.extend (status_display_start True True 10 demo_disp) (disp_task.fields False 255 False)"

definition demo_asleep :: disp_task where
  "demo_asleep = status_display_turn 60000 (demo_turn 70000 5000) demo_awake"

lemma demo_awake: "task_lights demo_awake = (True, False, False, True, True) \<and> \<not> display_sleep demo_awake"
  by code_simp

lemma demo_asleep: "asleep demo_asleep"
  by code_simp


lemma refresh_leaves_panel_dark_witness:
  "\<not> od_panel (fold (status_display_turn 60000) [demo_turn 90100 90000, demo_turn 90200 90000]
     (on_disp (status_display_refresh_all True 90050) demo_asleep))"
  using refresh_leaves_panel_dark [OF demo_asleep, of "[demo_turn 90100 90000, demo_turn 90200 90000]" 60000, OF _ refl]
  by (simp add: demo_turn_def idle_def)


end
