(* ===== verification/Spec2Isabelle.thy ===== *)
theory Spec2Isabelle
  imports Prelude Crc Rf_Packet Link_Supervision Heartbeat Link_Frame Link_Handshake
    Nvs Apdu Tlv Openpgp_Do Openpgp_Card Openpgp_Props Openpgp_Auth Openpgp_Power Openpgp_Data
    Cfg_Bridge Cdc_Protocol
    Keycodes Key_Features Tap_Hold Tap_Dance Combo Leader Key_Processor
    Key_Safety Key_Layers Key_Shape Hid_Report Keyboard_Task Keyboard_Props Key_Behaviour
    Key_Macros Key_Momentary
    Sec_Confirm Sec_Store Otp_Proto Ccid Rf_Pairing Dongle_Rf
    Half_Link Kbd_Relay
    Keymap_Store Key_Stats Feature_Store Bt_Manager
    Cdc_Bigrams Cdc_Reply Ota Cdc_Cmds Cdc_Props Cdc_Dongle Mouse
    Trackpad Display
begin

text \<open>
  KaSe firmware: a verification library for the firmware of the KaSe split keyboards, their
  radio dongle and the security key built into them (C, ESP-IDF, FreeRTOS).

  \<^bold>\<open>The program.\<close> A matrix driver calls back with the pressed keys; the keyboard task turns
  them into HID reports, through layers, tap-hold keys, tap dances, combos, a leader key and
  macros. The halves and the dongle exchange radio packets and frames on a wire, and a load
  switch hands power from one half to the other. A configuration channel over USB CDC carries
  framed commands, which read and change the keymap, the tables of the key engines, macros, names and
  Bluetooth slots, report statistics and update the firmware. A smart-card applet (OpenPGP) answers
  APDUs that a USB reader driver (CCID) hands it and keeps its state in flash; the other security
  build answers HMAC challenges over HID feature reports. Both wait for a press of a key
  through one confirmation gate. The dongle relays reports of a keyboard and a mouse
  it was paired with; the mouse turns its sensor, wheel and buttons into packets for it.

  \<^bold>\<open>Conventions.\<close> A C structure or the statics of a file are a record; integers are words of
  their width, so arithmetic wraps as in C; an \<open>int8_t\<close> used as an optional layer is an \<open>int\<close>.
  A function that changes statics takes and returns the state. The key engines extend each
  other's records, in the order \<open>layers\<close>, \<open>key_features\<close>, \<open>tap_hold\<close>, \<open>tap_dance\<close>, \<open>combo\<close>,
  \<open>leader\<close>, \<open>key_proc\<close>, \<open>hid\<close>, \<open>kb\<close> (and \<open>right\<close>, \<open>halves\<close>, \<open>kbd_relay\<close> or \<open>conf\<close>), so that an operation of one engine runs on the state of the
  whole keyboard. The clock is an argument; whatever the SDK may answer (a queue that is full, a
  flash write that fails, an endpoint that is busy, cryptography) is an argument too.

  \<^bold>\<open>Wire formats.\<close>
  \<open>Crc\<close>: the CRC-8 and CRC-16 loops. \<open>Rf_Packet\<close>: \<open>comm/rf/rf_packet.h\<close>, encoders and decoders with their
  round trips. \<open>Link_Frame\<close>: \<open>comm/link/link_frame.h\<close>, the resynchronising frame decoder, its
  independence of how the stream is cut, resynchronisation and corruption. \<open>Cfg_Bridge\<close>:
  \<open>comm/rf/cfg_bridge.c\<close>, chunks that may arrive in any order. \<open>Cdc_Protocol\<close>:
  \<open>comm/cdc/cdc_binary_protocol.c\<close>, the receive machine, command tables and responses; its
  locale \<open>byte_sink\<close> is the contract of the output, interpreted on the redirect buffer.

  \<^bold>\<open>Links.\<close> \<open>Link_Supervision\<close>: liveness of halves and dongle slots. \<open>Heartbeat\<close>:
  \<open>comm/rf/heartbeat.c\<close>, key events, the duplicate filter and reconciliation by bitmap.
  \<open>Link_Handshake\<close>: \<open>comm/link/link_handshake.h\<close>, the load switch as a step relation.
  \<open>Rf_Pairing\<close>: \<open>comm/rf/rf_pairing.c\<close>, identities, addresses, channels and the pairing store.
  \<open>Dongle_Rf\<close>: \<open>comm/rf/rf_rx_task.c\<close> and \<open>dongle_state.c\<close>, a turn of the dongle with its relay,
  link loss, watchdog and pairing window; it shows what a turn sends, that both ends of a
  pairing tune to the same channel and address, that no device is acknowledged without being
  stored, and three ways in which the window goes wrong. \<open>Half_Link\<close>: \<open>comm/rf/half_link.c\<close> on both
  halves with the merge in \<open>matrix_scan.c\<close> and the left half's task; a matrix arrives as it was
  sent, but a key held on the right half is let go after 250 ms, and without a display the keys of the
  two halves are never down together. \<open>Kbd_Relay\<close>: \<open>comm/rf/kbd_relay_tx.c\<close>, \<open>v2d_sleep.c\<close>,
  \<open>comm/usb/usb_presence.c\<close> and the wireless branch of the sender: the relay repeats each report
  and falls silent, and together with the dongle the last report gets across any loss that spares
  one packet; taps of dances, leader sequences and macros do not take the radio.

  \<^bold>\<open>Security key.\<close> \<open>Nvs\<close>, \<open>Apdu\<close>, \<open>Tlv\<close>, \<open>Openpgp_Do\<close> and \<open>Openpgp_Card\<close> model \<open>sys/nvs_utils.c\<close> and
  \<open>security/apdu.c\<close>, \<open>openpgp_do.c\<close>, \<open>openpgp_card.c\<close>, every instruction with every status
  word. \<open>Openpgp_Props\<close> holds the invariant and the retry counter, \<open>Openpgp_Auth\<close> who may change
  what, \<open>Openpgp_Power\<close> power cycles, the start-up of \<open>main.c\<close> and safe mode, \<open>Openpgp_Data\<close> data
  objects and key import. \<open>Sec_Confirm\<close> is the gate of \<open>sec_confirm.c\<close>: its locale \<open>touch_gate\<close> is
  the contract that a grant spends a press, interpreted on the gate. \<open>Ccid\<close> models \<open>ccid.c\<close>: the
  waiting loop ends on a clock that ticks, the driver is in one of six phases whatever the
  host, the worker and the USB task do between two bus resets, and an exchange carries an APDU to
  the applet and its answer back; with the applet's hooks it gives that a use of
  a key needs a press. \<open>Sec_Store\<close> is \<open>sec_store.c\<close> with the commands of
  \<open>comm/cdc/cdc_sec_cmds.c\<close> (no answer depends on a secret), \<open>Otp_Proto\<close> is \<open>otp_proto.c\<close>,
  \<open>otp_hid.c\<close> and the feature-report callbacks of \<open>comm/usb/usb_hid.c\<close>.

  \<^bold>\<open>Keys.\<close> \<open>Keycodes\<close> (\<open>input/key_definitions.h\<close>), \<open>Key_Features\<close>, \<open>Tap_Hold\<close>, \<open>Tap_Dance\<close>,
  \<open>Combo\<close>, \<open>Leader\<close>, \<open>Key_Processor\<close>: the files of the same names under \<open>input/\<close>; the scan cycle
  \<open>build_keycode_report\<close> is composed of its numbered steps. \<open>Hid_Report\<close> (\<open>hid_report.c\<close>,
  \<open>hid_dedup.h\<close>, \<open>comm/hid_transport.c\<close>) and \<open>Keyboard_Task\<close> (\<open>keyboard_task.c\<close>, the callback of
  \<open>matrix_scan.c\<close>) take the six key codes to the wire. \<open>Key_Safety\<close> shows what each stage leaves
  alone and that a press confirms at most once; \<open>Key_Layers\<close> and \<open>Key_Shape\<close> keep the layers
  below the table size and the arrays at theirs; \<open>Keyboard_Props\<close> is the state machine of
  callbacks, task turns and sender, with every keymap read in bounds from power-up. \<open>Tap_Hold\<close>
  refines a stack of held keys. \<open>Key_Momentary\<close> refines a small specification of momentary layers
  and derives from it that nested ones stick; \<open>Key_Behaviour\<close> and \<open>Key_Macros\<close> follow one key
  through the whole cycle.

  \<^bold>\<open>Storage.\<close> \<open>Keymap_Store\<close> is \<open>input/keymap.c\<close>: keymaps, layer names and macros as bytes in flash, with the
  guards of their loads; its locale \<open>stored_array\<close> is the contract that a table read back is the one
  written, interpreted on every stored table. \<open>Feature_Store\<close> has the four tables of the key engines
  (the saves and loads of \<open>tap_dance.c\<close>, \<open>combo.c\<close>, \<open>leader.c\<close>, \<open>key_features.c\<close>) and the order in which
  \<open>main.c\<close> loads them and then initialises the engines, which wipes them. \<open>Key_Stats\<close> is
  \<open>input/key_stats.c\<close>: the counters are the counts of what was pressed. \<open>Bt_Manager\<close> is
  \<open>comm/ble/hid_bluetooth_manager.c\<close> and the worker of \<open>input/keyboard_actions.c\<close>; a slot can be taken by
  the wrong host.

  \<^bold>\<open>Commands.\<close> \<open>Cdc_Reply\<close>: a handler returns its answer as a value, which is sent as a frame. \<open>Cdc_Cmds\<close>:
  the handlers of \<open>comm/cdc/cdc_binary_cmds.c\<close> for a keyboard, on the state \<open>conf\<close>, with \<open>ks_monitor.c\<close>;
  \<open>conf_command\<close> is the step from a request to its answer. \<open>Cdc_Bigrams\<close>: the reports of the statistics,
  the selection of the most frequent pairs and the texts. \<open>Ota\<close>: \<open>cdc_ota.c\<close> and its commands; only a
  whole image is started. \<open>Cdc_Props\<close>: no request breaks the shape of the state, a refused one changes nothing,
  each gets one well-formed frame (with one exception, a macro with a gap), a layer written is read
  back, and what remains of it after a restart. \<open>Cdc_Dongle\<close>: the commands of the dongle.

  \<^bold>\<open>Mouse and trackpad.\<close> \<open>Mouse\<close>: \<open>app/mouse_task.c\<close>, \<open>input/mouse_buttons.c\<close>, \<open>input/mouse_wheel.c\<close> and
  \<open>comm/rf/mouse_relay_tx.c\<close>; no movement is lost or sent twice on a lossy radio, the buttons and the
  wheel follow their contacts, and the smoothing filter never comes to rest. \<open>Trackpad\<close>:
  \<open>periph/trackpad/trackpad_map.c\<close> and \<open>trackpad_cfg.c\<close>, which only the host tests call: gestures let their
  buttons go, the pointer follows the finger up to a speed, and the configuration is kept.

  \<^bold>\<open>Display.\<close> \<open>Display\<close>: \<open>display/status_display.c\<close>, the OLED backend with its choice of screen and its window of
  keys per minute, the curves of \<open>led/led_curve.c\<close>, and a turn of \<open>status_display_task\<close> in \<open>main.c\<close>. The circular
  buffer refines the list of all samples; the panel sleeps and wakes with the keys, except that a
  refresh while it sleeps leaves it dark.

  \<^bold>\<open>Bounds and fuel.\<close> The queue-draining loops of the cycle take one more turn than the queue can
  hold (4 taps, 16 combos, 4 held-back keys), which ends each of them by an empty queue; the
  decoders recurse on the input. Times wrap at 32 bits as in the code. The loop that waits for a press
  is a partial function; it is shown to return on every clock that advances.

  \<^bold>\<open>Not modelled.\<close> Hardware drivers (radio SPI, sensors, panels and what is drawn on them, the round display, LED strips, GPIO), the Bluetooth
  profile and stack, TinyUSB descriptors, mbedTLS and FreeRTOS itself: they are I/O, or calls of libraries
  outside the repository. Preemption inside a function is not modelled; tasks interleave between them.
\<close>

end
